(* ===== verification/Prelude.thy ===== *)
theory Prelude
  imports Main "HOL-Library.Word" "HOL-Library.AList"
begin

text \<open>
  What every component of the development shares: the types JavaScript values are modelled by,
  the codec interface that the byte formats of the client implement, and the generic lemmas on
  lists and association lists.

  \<^item> A \<open>Uint8Array\<close> is a list of 8-bit words; a string is the list of its UTF-16 code units, so
    that \<open>length\<close> is JavaScript's \<open>.length\<close>.
  \<^item> A \<open>Record\<close> or a \<open>Map\<close> whose iteration order is observed is an association list: writing a
    known key keeps its place, writing a new one appends, exactly as \<^const>\<open>AList.update\<close> does.
    One whose order is never observed is a partial function.
  \<^item> Integer-valued numbers (sequence numbers, milliseconds) are \<^typ>\<open>nat\<close> or \<^typ>\<open>int\<close>.
\<close>

type_synonym u8 = "8 word"
type_synonym bytes = "u8 list"
type_synonym jsstr = "16 word list"

text \<open>Account ids, device ids, group ids and every other opaque name are strings.\<close>

type_synonym account = jsstr

text \<open>An ASCII string literal of the source.\<close>

definition js :: "string \<Rightarrow> jsstr" where
  "js s = map of_char s"

lemma of_char_inject: "(of_char c :: 16 word) = of_char d \<longleftrightarrow> c = d"
proof
  assume "(of_char c :: 16 word) = of_char d"
  then have "(word_of_nat (of_char c) :: 16 word) = word_of_nat (of_char d)" by (simp only: of_nat_of_char)
  then have "unat (word_of_nat (of_char c) :: 16 word) = unat (word_of_nat (of_char d) :: 16 word)" by (rule arg_cong)
  then have "(of_char c :: nat) mod 2 ^ 16 = of_char d mod 2 ^ 16" by (simp only: unat_of_nat) simp
  moreover have "(of_char x :: nat) < 2 ^ 16" for x
    by (rule less_trans [OF nat_of_char_less_256]) simp
  ultimately have "(of_char c :: nat) = of_char d" by (metis mod_less)
  then show "c = d" by simp
qed simp

lemma js_eq [simp]: "js s = js t \<longleftrightarrow> s = t"
  by (simp add: js_def inj_map_eq_map inj_on_def of_char_inject)

named_theorems codec_simps \<open>lengths and slices of the byte layouts\<close>
named_theorems frame_simps \<open>fields an operation leaves alone\<close>

subsection \<open>The contract of a codec\<close>

text \<open>
  Every byte format of the client is a pair of functions, one of which can refuse. What the
  other end relies on is that decoding what was encoded gives the value back, for the values the
  format can carry (\<open>wf\<close>).
\<close>

locale codec =
  fixes enc :: "'a \<Rightarrow> 'b"
    and dec :: "'b \<Rightarrow> 'e + 'a"
    and wf :: "'a \<Rightarrow> bool"
  assumes dec_enc: "wf x \<Longrightarrow> dec (enc x) = Inr x"
begin

lemma enc_inject: "wf x \<Longrightarrow> wf y \<Longrightarrow> enc x = enc y \<longleftrightarrow> x = y"
proof
  assume wf: "wf x" "wf y" and eq: "enc x = enc y"
  from wf(1) have "dec (enc y) = Inr x" unfolding eq [symmetric] by (rule dec_enc)
  with dec_enc [OF wf(2)] show "x = y" by simp
qed simp

lemma enc_not_refused: "wf x \<Longrightarrow> dec (enc x) \<noteq> Inl e"
  by (simp add: dec_enc)

end

text \<open>Two formats, one inside the other: what \<open>sendContent\<close> stacks, \<open>absorb\<close> unstacks.\<close>

definition then_dec :: "('b \<Rightarrow> 'e + 'a) \<Rightarrow> ('c \<Rightarrow> 'f + 'b) \<Rightarrow> 'c \<Rightarrow> ('e + 'f) + 'a" where
  "then_dec d1 d2 c = (case d2 c of Inl f \<Rightarrow> Inl (Inr f)
     | Inr b \<Rightarrow> (case d1 b of Inl e \<Rightarrow> Inl (Inl e) | Inr a \<Rightarrow> Inr a))"

locale codec_stack =
  inner: codec enc1 dec1 wf1 + outer: codec enc2 dec2 wf2
  for enc1 :: "'a \<Rightarrow> 'b" and dec1 :: "'b \<Rightarrow> 'e + 'a" and wf1
    and enc2 :: "'b \<Rightarrow> 'c" and dec2 :: "'c \<Rightarrow> 'f + 'b" and wf2 +
  assumes fits: "wf1 x \<Longrightarrow> wf2 (enc1 x)"
begin

lemma stack_dec_enc: "wf1 x \<Longrightarrow> then_dec dec1 dec2 (enc2 (enc1 x)) = Inr x"
  by (simp add: then_dec_def inner.dec_enc outer.dec_enc fits)

lemma stack_inject: "wf1 x \<Longrightarrow> wf1 y \<Longrightarrow> enc2 (enc1 x) = enc2 (enc1 y) \<longleftrightarrow> x = y"
  by (simp add: inner.enc_inject outer.enc_inject fits)

end

subsection \<open>Steps that may arrive in any order, any number of times\<close>

text \<open>
  Several components absorb what peers send without any guarantee on order or repetition. What
  makes them safe is that their step commutes with itself and absorbs repeats; a run then depends
  on the set of what arrived and on nothing else.
\<close>

locale any_order =
  fixes step :: "'e \<Rightarrow> 's \<Rightarrow> 's"
  assumes commute: "step a (step b s) = step b (step a s)"
    and absorbs: "step a (step a s) = step a s"
begin

lemma fold_absorb: "a \<in> set es \<Longrightarrow> fold step es (step a s) = fold step es s"
proof (induction es arbitrary: s)
  case (Cons e es)
  show ?case
  proof (cases "a = e")
    case True
    then show ?thesis by (simp add: absorbs)
  next
    case False
    with Cons.prems have "a \<in> set es" by simp
    then show ?thesis by (simp add: commute [of e a] Cons.IH)
  qed
qed simp

lemma step_fold: "step a (fold step es s) = fold step es (step a s)"
  by (induction es arbitrary: s) (simp_all add: commute)

lemma fold_subset: "set es \<subseteq> set fs \<Longrightarrow> fold step fs (fold step es s) = fold step fs s"
proof (induction es arbitrary: s)
  case (Cons e es)
  then show ?case by (simp add: fold_absorb)
qed simp

lemma fold_fold: "fold step es (fold step fs s) = fold step fs (fold step es s)"
  by (induction es arbitrary: s) (simp_all add: step_fold)

theorem fold_set_eq:
  assumes "set es = set fs"
  shows "fold step es s = fold step fs s"
proof -
  have "fold step es s = fold step es (fold step fs s)" using assms by (simp add: fold_subset)
  also have "\<dots> = fold step fs (fold step es s)" by (rule fold_fold)
  also have "\<dots> = fold step fs s" using assms by (simp add: fold_subset)
  finally show ?thesis .
qed

end

subsection \<open>Registers where the later decision wins\<close>

text \<open>
  Profiles, handle claims, signalling settings and synchronised preferences are all registers that
  carry the time of the decision. A claim replaces what is held only when it is strictly later. An
  event may make no claim at all, when the component refuses what it carries.
\<close>

definition newer :: "'t::linorder \<Rightarrow> ('t \<times> 'v) option \<Rightarrow> bool" where
  "newer t h = (case h of None \<Rightarrow> True | Some (t', v) \<Rightarrow> t' < t)"

lemma newer_simps [simp]: "newer t None" "newer t (Some (t', v)) \<longleftrightarrow> t' < t"
  by (simp_all add: newer_def)

locale lww =
  fixes put :: "'e \<Rightarrow> 's \<Rightarrow> 's"
    and claim :: "'e \<Rightarrow> ('k \<times> 't::linorder \<times> 'v) option"
    and held :: "'s \<Rightarrow> 'k \<Rightarrow> ('t \<times> 'v) option"
  assumes held_put: "held (put e s) k =
    (case claim e of
       Some (k', t, v) \<Rightarrow> if k' = k \<and> newer t (held s k) then Some (t, v) else held s k
     | None \<Rightarrow> held s k)"
begin

lemma outcome_empty:
  "held (fold put es s) k = None \<longleftrightarrow>
     held s k = None \<and> (\<forall>e\<in>set es. \<forall>t v. claim e \<noteq> Some (k, t, v))"
proof (induction es arbitrary: s)
  case (Cons e es)
  have "held (put e s) k = None \<longleftrightarrow> held s k = None \<and> (\<forall>t v. claim e \<noteq> Some (k, t, v))"
    by (cases "held s k"; cases "claim e") (auto simp: held_put)
  with Cons.IH [of "put e s"] show ?case by auto
qed simp

lemma outcome_known:
  "held (fold put es s) k = Some (t, v) \<Longrightarrow>
     held s k = Some (t, v) \<or> (\<exists>e\<in>set es. claim e = Some (k, t, v))"
proof (induction es arbitrary: s)
  case (Cons e es)
  then have "held (put e s) k = Some (t, v) \<or> (\<exists>e\<in>set es. claim e = Some (k, t, v))" by simp
  then show ?case by (auto simp: held_put split: option.splits if_splits prod.splits)
qed simp

lemma stamp_put: "held s k = Some (t, v) \<Longrightarrow> \<exists>t' v'. held (put e s) k = Some (t', v') \<and> t \<le> t'"
  by (auto simp: held_put split: option.splits)

lemma stamp_fold:
  "held s k = Some (t, v) \<Longrightarrow> \<exists>t' v'. held (fold put es s) k = Some (t', v') \<and> t \<le> t'"
proof (induction es arbitrary: s t v)
  case (Cons e es)
  obtain t1 v1 where "held (put e s) k = Some (t1, v1)" "t \<le> t1"
    using stamp_put [OF Cons.prems] by blast
  with Cons.IH [OF this(1)] show ?case by (auto intro: order_trans)
qed simp

lemma outcome_latest:
  "e \<in> set es \<Longrightarrow> claim e = Some (k, t, v) \<Longrightarrow>
     \<exists>t' v'. held (fold put es s) k = Some (t', v') \<and> t \<le> t'"
proof (induction es arbitrary: s)
  case (Cons a es)
  show ?case
  proof (cases "e \<in> set es")
    case True
    then show ?thesis using Cons by simp
  next
    case False
    with Cons.prems have c: "claim a = Some (k, t, v)" by simp
    obtain t1 v1 where h: "held (put a s) k = Some (t1, v1)" "t \<le> t1"
      by (cases "newer t (held s k)"; cases "held s k") (auto simp: held_put c)
    from stamp_fold [OF h(1), of es] h(2) show ?thesis by (auto intro: order_trans)
  qed
qed simp

text \<open>No two decisions about one key made at the same instant disagree.\<close>

definition no_ties :: "'s \<Rightarrow> 'e list \<Rightarrow> 'k \<Rightarrow> bool" where
  "no_ties s es k \<longleftrightarrow> (\<forall>t v v'.
     (held s k = Some (t, v) \<or> Some (k, t, v) \<in> claim ` set es) \<longrightarrow>
     (held s k = Some (t, v') \<or> Some (k, t, v') \<in> claim ` set es) \<longrightarrow> v = v')"

lemma outcome_order:
  assumes "set es = set fs" and "no_ties s es k"
  shows "held (fold put es s) k = held (fold put fs s) k"
proof (cases "held (fold put es s) k")
  case None
  then have "held (fold put fs s) k = None" using assms(1) by (simp add: outcome_empty)
  with None show ?thesis by simp
next
  case (Some p)
  obtain t v where p: "p = (t, v)" by (cases p)
  have "held (fold put fs s) k \<noteq> None"
    using Some assms(1) by (metis outcome_empty option.distinct(1))
  then obtain t' v' where f: "held (fold put fs s) k = Some (t', v')" by auto
  have known: "held s k = Some (t, v) \<or> (\<exists>e\<in>set es. claim e = Some (k, t, v))"
    using outcome_known Some p by blast
  have known': "held s k = Some (t', v') \<or> (\<exists>e\<in>set es. claim e = Some (k, t', v'))"
    using outcome_known f assms(1) by blast
  have "t \<le> t'"
  proof -
    from known consider "held s k = Some (t, v)" | e where "e \<in> set fs" "claim e = Some (k, t, v)"
      using assms(1) by blast
    then show ?thesis
      using stamp_fold [of s k t v fs] outcome_latest [of _ fs k t v s] f by cases auto
  qed
  moreover have "t' \<le> t"
  proof -
    from known' consider "held s k = Some (t', v')" | e where "e \<in> set es" "claim e = Some (k, t', v')"
      by blast
    then show ?thesis
      using stamp_fold [of s k t' v' es] outcome_latest [of _ es k t' v' s] Some p by cases auto
  qed
  ultimately have "t = t'" by simp
  with known known' assms(2) have "v = v'" unfolding no_ties_def by (metis image_eqI)
  with \<open>t = t'\<close> show ?thesis using Some p f by simp
qed

end

subsection \<open>Lists\<close>

lemma filter_filter_length: "length (filter P (filter Q xs)) \<le> length (filter P xs)"
  by (induction xs) auto

lemma drop_append_exact [codec_simps]: "length xs = n \<Longrightarrow> drop n (xs @ ys) = ys"
  by simp

lemma take_append_exact [codec_simps]: "length xs = n \<Longrightarrow> take n (xs @ ys) = xs"
  by simp

text \<open>\<open>[...new Set(xs)]\<close>: the distinct elements, in order of first appearance.\<close>

fun uniq :: "'a list \<Rightarrow> 'a list" where
  "uniq [] = []"
| "uniq (x # xs) = x # filter (\<lambda>y. y \<noteq> x) (uniq xs)"

lemma set_uniq [simp]: "set (uniq xs) = set xs"
  by (induction xs) auto

lemma distinct_uniq [simp]: "distinct (uniq xs)"
  by (induction xs) auto

lemma uniq_distinct: "distinct xs \<Longrightarrow> uniq xs = xs"
proof (induction xs)
  case (Cons x xs)
  then have "filter (\<lambda>y. y \<noteq> x) xs = xs"
    by (intro filter_True) auto
  with Cons show ?case by simp
qed simp

subsection \<open>Association lists\<close>

lemma map_of_update [simp]: "map_of (AList.update k v xs) = (map_of xs)(k \<mapsto> v)"
  by (simp add: update_conv')

lemma map_of_delete [simp]: "map_of (AList.delete k xs) = (map_of xs)(k := None)"
  by (simp add: delete_conv')

lemma map_of_map_snd: "map_of (map (\<lambda>(k, v). (k, f k v)) xs) k = map_option (f k) (map_of xs k)"
  by (induction xs) auto

end
