(* ===== verification/Bytes.thy ===== *)
theory Bytes
  imports Prelude
begin

text \<open>
  The \<open>DataView\<close> of the platform: big-endian integers written into and read out of a byte array,
  and the conversion of a 64-bit integer to a JavaScript number. Every binary layout of the client
  (\<open>content.ts\<close>, \<open>envelope.ts\<close>, \<open>signal-sync.ts\<close>) is made of these.
\<close>

subsection \<open>Big-endian integers\<close>

text \<open>\<open>k\<close> bytes, most significant first; the value is reduced modulo \<open>256 ^ k\<close>.\<close>

primrec be_bytes :: "nat \<Rightarrow> nat \<Rightarrow> bytes" where
  "be_bytes 0 n = []"
| "be_bytes (Suc k) n = word_of_nat (n div 256 ^ k) # be_bytes k n"

fun be_nat :: "bytes \<Rightarrow> nat" where
  "be_nat [] = 0"
| "be_nat (b # bs) = unat b * 256 ^ length bs + be_nat bs"

lemma length_be_bytes [simp, codec_simps]: "length (be_bytes k n) = k"
  by (induction k) auto

lemma unat_word_of_nat_u8 [simp]: "unat (word_of_nat n :: u8) = n mod 256"
  by (simp add: unat_of_nat)

lemma be_nat_be_bytes: "be_nat (be_bytes k n) = n mod 256 ^ k"
proof (induction k)
  case (Suc k)
  have "n mod 256 ^ Suc k = n div 256 ^ k mod 256 * 256 ^ k + n mod 256 ^ k"
    using mod_mult2_eq [of n "256 ^ k" 256] by (simp add: mult.commute)
  with Suc show ?case by simp
qed simp

lemma be_nat_bound: "be_nat bs < 256 ^ length bs"
proof (induction bs)
  case (Cons b bs)
  let ?w = "256 ^ length bs :: nat"
  have "unat b + 1 \<le> 256" using unsigned_less [of b, where 'a = nat] by simp
  then have "(unat b + 1) * ?w \<le> 256 * ?w" by (rule mult_right_mono) simp
  moreover have "(unat b + 1) * ?w = unat b * ?w + ?w" by simp
  ultimately have "unat b * ?w + be_nat bs < 256 * ?w" using Cons.IH by linarith
  then show ?case by simp
qed simp

text \<open>\<open>setUint32(offset, n, false)\<close> and \<open>setBigUint64(offset, BigInt(n), false)\<close>: \<open>ToUint32\<close> and
  \<open>ToBigUint64\<close> reduce modulo \<open>2 ^ 32\<close> and \<open>2 ^ 64\<close>, negative numbers included.\<close>

definition set_u32 :: "int \<Rightarrow> bytes" where
  "set_u32 n = be_bytes 4 (nat (n mod 2 ^ 32))"

definition set_u64 :: "int \<Rightarrow> bytes" where
  "set_u64 n = be_bytes 8 (nat (n mod 2 ^ 64))"

text \<open>\<open>getUint32(0, false)\<close> of a view that holds at least four bytes.\<close>

definition get_u32 :: "bytes \<Rightarrow> nat" where
  "get_u32 bs = be_nat (take 4 bs)"

definition get_u64 :: "bytes \<Rightarrow> nat" where
  "get_u64 bs = be_nat (take 8 bs)"

lemma length_set_u32 [simp, codec_simps]: "length (set_u32 n) = 4"
  by (simp add: set_u32_def)

lemma length_set_u64 [simp, codec_simps]: "length (set_u64 n) = 8"
  by (simp add: set_u64_def)

lemma get_set_u32: "0 \<le> n \<Longrightarrow> n < 2 ^ 32 \<Longrightarrow> get_u32 (set_u32 n @ rest) = nat n"
  by (simp add: get_u32_def set_u32_def be_nat_be_bytes nat_mod_distrib flip: nat_less_eq_zless)

lemma get_set_u64: "0 \<le> n \<Longrightarrow> n < 2 ^ 64 \<Longrightarrow> get_u64 (set_u64 n @ rest) = nat n"
  by (simp add: get_u64_def set_u64_def be_nat_be_bytes nat_mod_distrib flip: nat_less_eq_zless)

lemma get_u64_bound: "get_u64 bs < 2 ^ 64"
proof -
  have "be_nat (take 8 bs) < 256 ^ length (take 8 bs)" by (rule be_nat_bound)
  also have "\<dots> \<le> 256 ^ 8" by (rule power_increasing) simp_all
  finally show ?thesis by (simp add: get_u64_def)
qed

subsection \<open>\<open>Number(bigint)\<close>\<close>

text \<open>
  The nearest double, ties to the even mantissa: exact below \<open>2 ^ 53\<close>. \<open>js_scale\<close> is the number
  of low bits a 53-bit mantissa has no room for.
\<close>

fun js_scale :: "nat \<Rightarrow> nat" where
  "js_scale n = (if n < 2 ^ 53 then 0 else Suc (js_scale (n div 2)))"

declare js_scale.simps [simp del]

definition js_number :: "nat \<Rightarrow> nat" where
  "js_number n =
     (let s = 2 ^ js_scale n; q = n div s; r = n mod s
      in if 2 * r > s \<or> (2 * r = s \<and> odd q) then (q + 1) * s else q * s)"

lemma js_number_exact [simp]: "n < 2 ^ 53 \<Longrightarrow> js_number n = n"
  by (simp add: js_number_def Let_def js_scale.simps [of n])

subsection \<open>Slices\<close>

text \<open>\<open>out.set(bs.subarray(0, k), at)\<close> into a zero-filled array with room for \<open>k\<close>.\<close>

definition fixed :: "nat \<Rightarrow> bytes \<Rightarrow> bytes" where
  "fixed k bs = take k (bs @ replicate k 0)"

lemma length_fixed [simp, codec_simps]: "length (fixed k bs) = k"
  by (simp add: fixed_def)

lemma fixed_exact [simp]: "length bs = k \<Longrightarrow> fixed k bs = bs"
  by (simp add: fixed_def)

end
