(* ===== verification/Envelope.thy ===== *)
theory Envelope
  imports Bytes
begin

text \<open>
  \<open>envelope.ts\<close>: the type byte in front of what the server routes, an MLS message or the Welcome
  that lets a newcomer join.
\<close>

datatype envelope = Mls bytes | Welcome bytes bytes

datatype envelope_error =
  EmptyEnvelope | TruncatedWelcome | InconsistentWelcomeLength | UnknownEnvelopeType u8

definition encode_mls :: "bytes \<Rightarrow> bytes" where
  "encode_mls payload = 0 # payload"

definition encode_welcome :: "bytes \<Rightarrow> bytes \<Rightarrow> bytes" where
  "encode_welcome welcome tree = 1 # set_u32 (int (length welcome)) @ welcome @ tree"

definition decode_envelope :: "bytes \<Rightarrow> envelope_error + envelope" where
  "decode_envelope blob =
     (case blob of
        [] \<Rightarrow> Inl EmptyEnvelope
      | t # rest \<Rightarrow>
          if t = 0 then Inr (Mls rest)
          else if t = 1 then
            (if length blob < 5 then Inl TruncatedWelcome
             else let n = get_u32 rest in
               if length blob < 5 + n then Inl InconsistentWelcomeLength
               else Inr (Welcome (take n (drop 5 blob)) (drop (5 + n) blob)))
          else Inl (UnknownEnvelopeType t))"

fun encode_envelope :: "envelope \<Rightarrow> bytes" where
  "encode_envelope (Mls payload) = encode_mls payload"
| "encode_envelope (Welcome welcome tree) = encode_welcome welcome tree"

fun envelope_ok :: "envelope \<Rightarrow> bool" where
  "envelope_ok (Mls payload) = True"
| "envelope_ok (Welcome welcome tree) = (length welcome < 2 ^ 32)"

lemma decode_encode_envelope: "envelope_ok e \<Longrightarrow> decode_envelope (encode_envelope e) = Inr e"
proof (cases e)
  case (Welcome w t)
  assume "envelope_ok e"
  with Welcome have "get_u32 (set_u32 (int (length w)) @ w @ t) = length w"
    by (subst get_set_u32) simp_all
  then show ?thesis
    by (simp add: Welcome encode_welcome_def decode_envelope_def Let_def drop_Cons')
qed (simp add: encode_mls_def decode_envelope_def)

interpretation envelope: codec encode_envelope decode_envelope envelope_ok
  by unfold_locales (rule decode_encode_envelope)

lemma decode_envelope_Welcome:
  assumes "decode_envelope blob = Inr (Welcome w t)"
  shows "blob = take 5 blob @ w @ t \<and> 5 \<le> length blob \<and> length w = get_u32 (drop 1 blob)"
proof -
  from assms obtain b rest where b: "blob = b # rest" by (cases blob) (auto simp: decode_envelope_def)
  with assms have l: "5 + get_u32 rest \<le> length blob" and w: "w = take (get_u32 rest) (drop 5 blob)"
    and t: "t = drop (5 + get_u32 rest) blob"
    by (auto simp: decode_envelope_def Let_def split: if_splits)
  have "w @ t = drop 5 blob" unfolding w t by (simp add: add.commute flip: drop_drop)
  with l w b show ?thesis by simp
qed

text \<open>The envelope codec. What is encoded is read back (the Welcome's length prefix splitting
  it exactly), so two different envelopes never share an encoding; and a blob that is accepted as
  a Welcome is partitioned: five bytes of header, the declared number of bytes, the rest. No byte
  is invented or dropped, and no read goes past the end.\<close>

theorem envelope_codec:
  "(envelope_ok e \<longrightarrow> decode_envelope (encode_envelope e) = Inr e) \<and>
   (envelope_ok e \<longrightarrow> envelope_ok e' \<longrightarrow> encode_envelope e = encode_envelope e' \<longrightarrow> e = e') \<and>
   (decode_envelope blob = Inr (Welcome w t) \<longrightarrow>
      blob = take 5 blob @ w @ t \<and> 5 \<le> length blob \<and> length w = get_u32 (drop 1 blob))"
  using envelope.dec_enc envelope.enc_inject decode_envelope_Welcome by blast

theorem envelope_codec_witness:
  "decode_envelope (encode_envelope (Welcome [1, 2] [3])) = Inr (Welcome [1, 2] [3])"
  using envelope_codec [of "Welcome [1, 2] [3]"] by simp

end
