(* ===== verification/Padding.thy ===== *)
theory Padding
  imports Bytes "HOL-Library.While_Combinator"
begin

text \<open>
  \<open>padding.ts\<close>: the plaintext of every message is padded to a bucket before it is encrypted, so
  that the server learns an order of magnitude and not a length. The ceiling is \<open>None\<close> for the
  default \<open>Number.POSITIVE_INFINITY\<close>.
\<close>

datatype padding_error = DoesNotFit nat nat | MalformedPadding

definition first_bucket :: nat where
  "first_bucket = 256"

definition marker :: u8 where
  "marker = 0x80"

definition below :: "nat \<Rightarrow> nat option \<Rightarrow> bool" where
  "below n ceiling \<longleftrightarrow> (case ceiling of None \<Rightarrow> True | Some c \<Rightarrow> n < c)"

text \<open>\<open>bucket\<close>: the loop that doubles, then the ceiling.\<close>

definition doubling :: "nat \<Rightarrow> nat option \<Rightarrow> nat" where
  "doubling len ceiling =
     while (\<lambda>size. size < len \<and> below size ceiling) (\<lambda>size. size * 2) first_bucket"

definition bucket :: "nat \<Rightarrow> nat option \<Rightarrow> nat" where
  "bucket len ceiling =
     (case ceiling of None \<Rightarrow> doubling len ceiling | Some c \<Rightarrow> min (doubling len ceiling) c)"

definition pad :: "nat option \<Rightarrow> bytes \<Rightarrow> padding_error + bytes" where
  "pad ceiling body =
     (if \<not> below (length body) ceiling then Inl (DoesNotFit (length body) (the ceiling))
      else Inr (body @ [marker] @
        replicate (bucket (length body + 1) ceiling - (length body + 1)) 0))"

text \<open>The scan from the end: trailing zeros, then the marker or nothing.\<close>

definition unpad :: "bytes \<Rightarrow> padding_error + bytes" where
  "unpad padded =
     (case dropWhile (\<lambda>b. b = 0) (rev padded) of
        [] \<Rightarrow> Inl MalformedPadding
      | b # rest \<Rightarrow> if b = marker then Inr (rev rest) else Inl MalformedPadding)"

subsection \<open>The buckets\<close>

lemma doubling_spec:
  "(\<exists>k. doubling len ceiling = 256 * 2 ^ k) \<and>
   (doubling len ceiling = 256 \<or> doubling len ceiling < 2 * len) \<and>
   (len \<le> doubling len ceiling \<or> \<not> below (doubling len ceiling) ceiling)"
  unfolding doubling_def first_bucket_def
proof (rule while_rule [where P = "\<lambda>s. (\<exists>k. s = 256 * 2 ^ k) \<and> (s = 256 \<or> s < 2 * len)"
      and r = "measure (\<lambda>s. len - s)"])
  show "(\<exists>k. (256::nat) = 256 * 2 ^ k) \<and> ((256::nat) = 256 \<or> 256 < 2 * len)"
    by (auto intro: exI [of _ 0])
next
  fix s assume s: "(\<exists>k. s = 256 * 2 ^ k) \<and> (s = 256 \<or> s < 2 * len)" "s < len \<and> below s ceiling"
  then obtain k where "s = 256 * 2 ^ k" by blast
  then have "s * 2 = 256 * 2 ^ Suc k" by simp
  then have "\<exists>k. s * 2 = 256 * 2 ^ k" by blast
  with s(2) show "(\<exists>k. s * 2 = 256 * 2 ^ k) \<and> (s * 2 = 256 \<or> s * 2 < 2 * len)" by simp
  from \<open>s = 256 * 2 ^ k\<close> have "0 < s" by simp
  with s(2) show "(s * 2, s) \<in> measure (\<lambda>s. len - s)" by auto
next
  fix s assume "(\<exists>k. s = 256 * 2 ^ k) \<and> (s = 256 \<or> s < 2 * len)" "\<not> (s < len \<and> below s ceiling)"
  then show "(\<exists>k. s = 256 * 2 ^ k) \<and> (s = 256 \<or> s < 2 * len) \<and> (len \<le> s \<or> \<not> below s ceiling)"
    by auto
qed simp

lemma bucket_fits: "below (len - 1) ceiling \<Longrightarrow> 0 < len \<Longrightarrow> len \<le> bucket len ceiling"
  using doubling_spec [of len ceiling]
  by (auto simp: bucket_def below_def split: option.splits)

lemma bucket_le_ceiling: "bucket len (Some c) \<le> c"
  by (simp add: bucket_def)

lemma bucket_small: "len \<le> 256 \<Longrightarrow> bucket len None = 256"
  by (simp add: bucket_def doubling_def first_bucket_def while_unfold)

lemma length_pad:
  "pad ceiling body = Inr out \<Longrightarrow> length out = bucket (length body + 1) ceiling"
  using bucket_fits [of "length body + 1" ceiling] by (auto simp: pad_def split: if_splits)

subsection \<open>Removing what was added\<close>

lemma unpad_marked: "unpad (body @ [marker] @ replicate n 0) = Inr body"
proof -
  have "rev (body @ [marker] @ replicate n 0) = replicate n 0 @ marker # rev body" by simp
  moreover have "dropWhile (\<lambda>b. b = 0) (replicate n 0 @ marker # rev body) = marker # rev body"
    by (induction n) (simp_all add: marker_def)
  ultimately show ?thesis by (simp add: unpad_def)
qed

lemma unpad_pad: "pad ceiling body = Inr out \<Longrightarrow> unpad out = Inr body"
  by (auto simp: pad_def unpad_marked [simplified] split: if_splits)

lemma unpad_Inr: "unpad out = Inr body \<Longrightarrow> \<exists>n. out = body @ [marker] @ replicate n 0"
proof -
  assume "unpad out = Inr body"
  then have d: "dropWhile (\<lambda>b. b = 0) (rev out) = marker # rev body"
    by (auto simp: unpad_def split: list.splits if_splits)
  let ?z = "takeWhile (\<lambda>b. b = 0) (rev out)"
  have "rev out = ?z @ marker # rev body" using d by (metis takeWhile_dropWhile_id)
  then have "out = body @ [marker] @ rev ?z" by (metis append.assoc append_Cons append_Nil rev.simps(2) rev_append rev_rev_ident)
  moreover have "\<forall>b\<in>set ?z. b = 0" by (metis set_takeWhileD)
  then have "?z = replicate (length ?z) 0" by (simp add: replicate_length_same)
  ultimately show ?thesis by (metis rev_replicate)
qed

text \<open>Without a ceiling padding never refuses, and is a codec.\<close>

definition pad_free :: "bytes \<Rightarrow> bytes" where
  "pad_free body = (case pad None body of Inr out \<Rightarrow> out | Inl _ \<Rightarrow> [])"

lemma pad_free: "pad None body = Inr (pad_free body)"
  by (simp add: pad_free_def pad_def below_def)

interpretation padding: codec pad_free unpad "\<lambda>_. True"
  by unfold_locales (simp add: unpad_pad [OF pad_free])

text \<open>What the server sees of a message's length. Without a ceiling, the padded plaintext has
  one of the sizes 256, 512, 1024, \<open>\<dots>\<close>; it is 256 for every body of at most 255 bytes, and
  otherwise less than twice the body and its marker, so the waste stays under one hundred per
  cent.\<close>

theorem pad_size:
  assumes "pad None body = Inr out"
  shows "(\<exists>k. length out = 256 * 2 ^ k) \<and> length body < length out \<and>
    (if length body < 256 then length out = 256 else length out < 2 * (length body + 1))"
proof -
  from assms have len: "length out = bucket (length body + 1) None" by (rule length_pad)
  have "length body < length out"
    using bucket_fits [of "length body + 1" None] by (simp add: len below_def)
  moreover have "length out = 256" if "length body < 256" using that by (simp add: len bucket_small)
  ultimately show ?thesis
    using doubling_spec [of "length body + 1" None] by (auto simp: len bucket_def)
qed

theorem pad_size_witness:
  "pad None (replicate 3 7) = Inr (replicate 3 7 @ [0x80] @ replicate 252 0) \<and>
   length (replicate 3 (7::u8) @ [0x80] @ replicate 252 0) = 256"
proof -
  have p: "pad None (replicate 3 7) = Inr (replicate 3 7 @ [0x80] @ replicate 252 0)"
    by (simp add: pad_def below_def bucket_small marker_def)
  from pad_size [OF p] p show ?thesis by simp
qed

text \<open>Padding loses nothing and is unambiguous: \<open>unpad\<close> gives back the body, whatever bytes it
  ends with, under any ceiling it fits; a body that does not fit is refused rather than padded to a
  size of its own; and \<open>unpad\<close> accepts nothing but a body, the marker and zeros.\<close>

theorem pad_unpad:
  "(case pad ceiling body of
      Inr out \<Rightarrow> unpad out = Inr body \<and> below (length body) ceiling \<and>
        (\<forall>c. ceiling = Some c \<longrightarrow> length out \<le> c)
    | Inl e \<Rightarrow> \<exists>c. ceiling = Some c \<and> c \<le> length body \<and> e = DoesNotFit (length body) c) \<and>
   (unpad out = Inr body \<longleftrightarrow> (\<exists>n. out = body @ [marker] @ replicate n 0))"
proof (intro conjI)
  show "case pad ceiling body of
      Inr out \<Rightarrow> unpad out = Inr body \<and> below (length body) ceiling \<and>
        (\<forall>c. ceiling = Some c \<longrightarrow> length out \<le> c)
    | Inl e \<Rightarrow> \<exists>c. ceiling = Some c \<and> c \<le> length body \<and> e = DoesNotFit (length body) c"
  proof (cases "pad ceiling body")
    case (Inl e)
    then show ?thesis by (auto simp: pad_def below_def split: if_splits option.splits)
  next
    case (Inr out)
    then show ?thesis
      using unpad_pad [OF Inr] length_pad [OF Inr] bucket_le_ceiling [of "length body + 1"]
      by (auto simp: pad_def split: if_splits)
  qed
qed (use unpad_Inr unpad_marked in blast)

theorem pad_unpad_witness: "unpad ([1, 0, 0] @ [marker] @ replicate 2 0) = Inr [1, 0, 0]"
  using pad_unpad [of None "[1, 0, 0]" "[1, 0, 0] @ [marker] @ replicate 2 0"] by blast

end
