(* ===== verification/Stored.thy ===== *)
theory Stored
  imports Prelude
begin

text \<open>
  \<open>StoredSession\<close> of \<open>storage.ts\<close>: the one record a device keeps between two starts, and the contract
  of the stores that share it. Each store of the session (names, preferences, trust, log witness)
  writes its own fields with \<open>snapshot\<close> and reads them back with \<open>hydrate\<close>. An absent property is
  \<open>None\<close>. The lock envelope is opaque to everything but the lock, so its type is a parameter.
\<close>

record profile =
  prof_name :: jsstr
  prof_at :: int

record handle_claim =
  claim_handle :: jsstr
  claim_at :: int

text \<open>\<open>ConversationFlags\<close>: every field is optional, and absence means something for each.\<close>

record conversation_flags =
  fl_pinned :: "bool option"
  fl_archived :: "bool option"
  fl_muted_until :: "int option"
  fl_disclose_name :: "bool option"
  fl_archive_to_vault :: "bool option"

definition no_flags :: conversation_flags where
  "no_flags = \<lparr>fl_pinned = None, fl_archived = None, fl_muted_until = None, fl_disclose_name = None,
     fl_archive_to_vault = None\<rparr>"

datatype contact_policy = PolicyOpen | PolicyKnown | PolicyClosed

text \<open>\<open>SignalSettings\<close>: an absent \<open>presence\<close> or \<open>calls\<close> means enabled.\<close>

record signal_settings =
  ss_read_receipts :: bool
  ss_typing :: bool
  ss_presence :: "bool option"
  ss_calls :: "bool option"

text \<open>\<open>prefStamps\<close>: when each synchronised preference was decided.\<close>

record preference_stamps =
  pst_scalars :: "int option"
  pst_flags :: "(jsstr \<times> int) list option"
  pst_petnames :: "(jsstr \<times> int) list option"
  pst_blocked :: "(jsstr \<times> int) list option"

record log_head =
  lh_size :: nat
  lh_root :: jsstr
  lh_key :: jsstr

record 'lock stored_session =
  st_device_id :: jsstr
  st_account :: "account option"
  st_handle :: jsstr
  st_handles :: "(account \<times> handle_claim) list option"
  st_seed :: bytes
  st_lock :: "'lock option"
  st_vault_enabled :: "bool option"
  st_state :: "bytes option"
  st_group_ids :: "bytes list"
  st_verified :: "(account \<times> jsstr) list"
  st_cursors :: "(jsstr \<times> nat) list"
  st_known_devices :: "(account \<times> jsstr list) list"
  st_signals :: "signal_settings option"
  st_signals_at :: "int option"
  st_pref_stamps :: "preference_stamps option"
  st_posting_keys :: "(jsstr \<times> jsstr) list option"
  st_log_head :: "log_head option"
  st_history :: "bytes option"
  st_disclose :: "bool option"
  st_flags :: "(jsstr \<times> conversation_flags) list option"
  st_locale :: "jsstr option"
  st_coverage :: "(jsstr \<times> nat \<times> nat) list option"
  st_contact_policy :: "contact_policy option"
  st_blocked :: "account list option"
  st_recent_emojis :: "jsstr list option"
  st_skin_tone :: "nat option"
  st_display_name :: "jsstr option"
  st_profiles :: "(account \<times> profile) list option"
  st_petnames :: "(account \<times> jsstr) list option"

text \<open>The record of a device that has just been created.\<close>

definition blank_session :: "'lock stored_session" where
  "blank_session = \<lparr>st_device_id = [], st_account = None, st_handle = [], st_handles = None, st_seed = [],
     st_lock = None, st_vault_enabled = None, st_state = None, st_group_ids = [], st_verified = [],
     st_cursors = [], st_known_devices = [], st_signals = None, st_signals_at = None, st_pref_stamps = None,
     st_posting_keys = None, st_log_head = None, st_history = None, st_disclose = None, st_flags = None,
     st_locale = None, st_coverage = None, st_contact_policy = None, st_blocked = None,
     st_recent_emojis = None, st_skin_tone = None, st_display_name = None, st_profiles = None,
     st_petnames = None\<rparr>"

subsection \<open>One store's part of the record\<close>

locale slice =
  fixes put :: "'s \<Rightarrow> 'r \<Rightarrow> 'r"
    and get :: "'r \<Rightarrow> 's"
    and wf :: "'s \<Rightarrow> bool"
  assumes get_put: "wf s \<Longrightarrow> get (put s r) = s"
begin

lemma put_inject: "wf s \<Longrightarrow> wf t \<Longrightarrow> put s r = put t r' \<Longrightarrow> s = t"
  by (metis get_put)

end

text \<open>Two stores that do not touch each other's fields: composing the record in either order gives
  both of them back.\<close>

locale slices =
  one: slice put1 get1 wf1 + two: slice put2 get2 wf2
  for put1 :: "'s \<Rightarrow> 'r \<Rightarrow> 'r" and get1 :: "'r \<Rightarrow> 's" and wf1
    and put2 :: "'t \<Rightarrow> 'r \<Rightarrow> 'r" and get2 :: "'r \<Rightarrow> 't" and wf2 +
  assumes frame1: "get1 (put2 t r) = get1 r"
    and frame2: "get2 (put1 s r) = get2 r"
begin

lemma both_back:
  "wf1 s \<Longrightarrow> wf2 t \<Longrightarrow> get1 (put2 t (put1 s r)) = s \<and> get2 (put2 t (put1 s r)) = t"
  by (simp add: frame1 one.get_put two.get_put)

lemma both_back': "wf1 s \<Longrightarrow> wf2 t \<Longrightarrow> get1 (put1 s (put2 t r)) = s \<and> get2 (put1 s (put2 t r)) = t"
  by (simp add: frame2 one.get_put two.get_put)

end

end
