(* ===== verification/Utf8.thy ===== *)
theory Utf8
  imports Bytes
begin

text \<open>
  \<open>TextEncoder.encode\<close> and \<open>TextDecoder.decode\<close>, as the platform defines them: a string is first
  read as Unicode scalar values, a lone surrogate becoming U+FFFD; the decoder replaces every
  maximal ill-formed part by one U+FFFD, and drops a leading byte order mark, since the client
  never asks for \<open>ignoreBOM\<close>. Every text the client puts on the wire goes through this pair.
\<close>

subsection \<open>Strings and scalar values\<close>

definition replacement :: nat where
  "replacement = 65533"

definition high_surrogate :: "nat \<Rightarrow> bool" where
  "high_surrogate u \<longleftrightarrow> 55296 \<le> u \<and> u < 56320"

definition low_surrogate :: "nat \<Rightarrow> bool" where
  "low_surrogate u \<longleftrightarrow> 56320 \<le> u \<and> u < 57344"

definition scalar :: "nat \<Rightarrow> bool" where
  "scalar c \<longleftrightarrow> c < 55296 \<or> (57344 \<le> c \<and> c < 1114112)"

fun scalars_of :: "nat list \<Rightarrow> nat list" where
  "scalars_of [] = []"
| "scalars_of [u] = [if high_surrogate u \<or> low_surrogate u then replacement else u]"
| "scalars_of (u # v # us) =
     (if high_surrogate u \<and> low_surrogate v
      then (65536 + (u - 55296) * 1024 + (v - 56320)) # scalars_of us
      else (if high_surrogate u \<or> low_surrogate u then replacement else u) # scalars_of (v # us))"

definition units_of :: "nat \<Rightarrow> nat list" where
  "units_of c = (if c < 65536 then [c]
     else [55296 + (c - 65536) div 1024, 56320 + (c - 65536) mod 1024])"

definition well_formed :: "jsstr \<Rightarrow> bool" where
  "well_formed s \<longleftrightarrow> concat (map units_of (scalars_of (map unat s))) = map unat s"

subsection \<open>The encoder\<close>

definition utf8_scalar :: "nat \<Rightarrow> nat list" where
  "utf8_scalar c =
     (if c < 128 then [c]
      else if c < 2048 then [192 + c div 64, 128 + c mod 64]
      else if c < 65536 then [224 + c div 4096, 128 + c div 64 mod 64, 128 + c mod 64]
      else [240 + c div 262144, 128 + c div 4096 mod 64, 128 + c div 64 mod 64, 128 + c mod 64])"

definition text_encode :: "jsstr \<Rightarrow> bytes" where
  "text_encode s = map word_of_nat (concat (map utf8_scalar (scalars_of (map unat s))))"

subsection \<open>The decoder\<close>

definition cont :: "nat \<Rightarrow> bool" where
  "cont b \<longleftrightarrow> 128 \<le> b \<and> b < 192"

text \<open>The first continuation byte is narrowed after \<open>E0\<close>, \<open>ED\<close>, \<open>F0\<close> and \<open>F4\<close>: overlong forms,
  surrogates and values past the last plane are ill-formed.\<close>

definition cont1 :: "nat \<Rightarrow> nat \<Rightarrow> bool" where
  "cont1 b c \<longleftrightarrow>
     (if b = 224 then 160 else if b = 240 then 144 else 128) \<le> c \<and>
     c < (if b = 237 then 160 else if b = 244 then 144 else 192)"

fun utf8_scalars :: "nat list \<Rightarrow> nat list" where
  "utf8_scalars [] = []"
| "utf8_scalars (b # bs) =
     (if b < 128 then b # utf8_scalars bs
      else if 194 \<le> b \<and> b < 224 then
        (case bs of [] \<Rightarrow> [replacement]
         | c # cs \<Rightarrow> if cont c then ((b - 192) * 64 + (c - 128)) # utf8_scalars cs
                     else replacement # utf8_scalars (c # cs))
      else if 224 \<le> b \<and> b < 240 then
        (case bs of [] \<Rightarrow> [replacement]
         | c # cs \<Rightarrow>
             if cont1 b c then
               (case cs of [] \<Rightarrow> [replacement]
                | d # ds \<Rightarrow>
                    if cont d then ((b - 224) * 4096 + (c - 128) * 64 + (d - 128)) # utf8_scalars ds
                    else replacement # utf8_scalars (d # ds))
             else replacement # utf8_scalars (c # cs))
      else if 240 \<le> b \<and> b < 245 then
        (case bs of [] \<Rightarrow> [replacement]
         | c # cs \<Rightarrow>
             if cont1 b c then
               (case cs of [] \<Rightarrow> [replacement]
                | d # ds \<Rightarrow>
                    if cont d then
                      (case ds of [] \<Rightarrow> [replacement]
                       | e # es \<Rightarrow>
                           if cont e then
                             ((b - 240) * 262144 + (c - 128) * 4096 + (d - 128) * 64 + (e - 128))
                               # utf8_scalars es
                           else replacement # utf8_scalars (e # es))
                    else replacement # utf8_scalars (d # ds))
             else replacement # utf8_scalars (c # cs))
      else replacement # utf8_scalars bs)"

definition without_bom :: "nat list \<Rightarrow> nat list" where
  "without_bom bs = (if take 3 bs = [239, 187, 191] then drop 3 bs else bs)"

definition text_decode :: "bytes \<Rightarrow> jsstr" where
  "text_decode bs =
     map word_of_nat (concat (map units_of (utf8_scalars (without_bom (map unat bs)))))"

subsection \<open>Decoding what was encoded\<close>

lemma scalars_of_scalar: "\<forall>u\<in>set us. u < 65536 \<Longrightarrow> \<forall>c\<in>set (scalars_of us). scalar c"
  by (induction us rule: scalars_of.induct)
    (auto simp: scalar_def replacement_def high_surrogate_def low_surrogate_def split: if_splits)

lemma utf8_scalar_bound: "scalar c \<Longrightarrow> \<forall>b\<in>set (utf8_scalar c). b < 256"
  by (auto simp: utf8_scalar_def scalar_def split: if_splits)

lemma split64: "(c::nat) = c div 64 * 64 + c mod 64"
  by simp

lemma split4096: "(c::nat) = c div 4096 * 4096 + c div 64 mod 64 * 64 + c mod 64"
proof -
  have "c div 64 = c div 64 div 64 * 64 + c div 64 mod 64" by (rule split64)
  moreover have "c div 64 div 64 = c div 4096" by (simp add: div_mult2_eq [symmetric])
  ultimately show ?thesis using split64 [of c] by linarith
qed

lemma split262144:
  "(c::nat) = c div 262144 * 262144 + c div 4096 mod 64 * 4096 + c div 64 mod 64 * 64 + c mod 64"
proof -
  have "c div 4096 = c div 4096 div 64 * 64 + c div 4096 mod 64" by (rule split64)
  moreover have "c div 4096 div 64 = c div 262144" by (simp add: div_mult2_eq [symmetric])
  ultimately show ?thesis using split4096 [of c] by linarith
qed

lemma utf8_scalars_1: "c < 128 \<Longrightarrow> utf8_scalars (c # bs) = c # utf8_scalars bs"
  by simp

lemma utf8_scalars_2:
  "2 \<le> q \<Longrightarrow> q < 32 \<Longrightarrow> r < 64 \<Longrightarrow>
   utf8_scalars ((192 + q) # (128 + r) # bs) = (q * 64 + r) # utf8_scalars bs"
  by (simp add: cont_def)

lemma utf8_scalars_3:
  "q < 16 \<Longrightarrow> p < 64 \<Longrightarrow> r < 64 \<Longrightarrow> cont1 (224 + q) (128 + p) \<Longrightarrow>
   utf8_scalars ((224 + q) # (128 + p) # (128 + r) # bs) = (q * 4096 + p * 64 + r) # utf8_scalars bs"
  by (simp add: cont_def)

lemma utf8_scalars_4:
  "q < 5 \<Longrightarrow> m < 64 \<Longrightarrow> p < 64 \<Longrightarrow> r < 64 \<Longrightarrow> cont1 (240 + q) (128 + m) \<Longrightarrow>
   utf8_scalars ((240 + q) # (128 + m) # (128 + p) # (128 + r) # bs) =
     (q * 262144 + m * 4096 + p * 64 + r) # utf8_scalars bs"
  by (simp add: cont_def)

lemma cont1_3:
  assumes "2048 \<le> c" "c < 65536" "scalar c"
  shows "cont1 (224 + c div 4096) (128 + c div 64 mod 64)"
proof -
  have mod: "c div 64 mod 64 < 64" "c mod 64 < 64" by simp_all
  have low: "32 \<le> c div 64 mod 64" if "c div 4096 = 0"
    using that assms(1) split4096 [of c] mod by linarith
  have sur: "c div 64 mod 64 < 32" if "c div 4096 = 13"
    using that assms(3) split4096 [of c] mod unfolding scalar_def by linarith
  have "c div 4096 < 16" using assms(2) by linarith
  with low sur mod show ?thesis unfolding cont1_def by (auto simp del: div_less_iff_less_mult)
qed

lemma cont1_4:
  assumes "65536 \<le> c" "scalar c"
  shows "cont1 (240 + c div 262144) (128 + c div 4096 mod 64)"
proof -
  have c: "c < 1114112" using assms by (simp add: scalar_def)
  have mod: "c div 4096 mod 64 < 64" "c div 64 mod 64 < 64" "c mod 64 < 64" by simp_all
  have low: "16 \<le> c div 4096 mod 64" if "c div 262144 = 0"
    using that assms(1) split262144 [of c] mod by linarith
  have top: "c div 4096 mod 64 < 16" if "c div 262144 = 4"
    using that c split262144 [of c] mod by linarith
  have "c div 262144 < 5" using c by linarith
  with low top mod show ?thesis unfolding cont1_def by auto
qed

lemma utf8_scalars_cons:
  assumes "scalar c"
  shows "utf8_scalars (utf8_scalar c @ bs) = c # utf8_scalars bs"
proof -
  have mod: "c div 4096 mod 64 < 64" "c div 64 mod 64 < 64" "c mod 64 < 64" by simp_all
  consider "c < 128" | "128 \<le> c" "c < 2048" | "2048 \<le> c" "c < 65536" | "65536 \<le> c"
    by linarith
  then show ?thesis
  proof cases
    case 1
    then show ?thesis by (simp add: utf8_scalar_def)
  next
    case 2
    then have "2 \<le> c div 64" "c div 64 < 32" by linarith+
    from utf8_scalars_2 [OF this mod(3)] 2 show ?thesis
      by (simp add: utf8_scalar_def del: utf8_scalars.simps)
  next
    case 3
    then have "c div 4096 < 16" by linarith
    from utf8_scalars_3 [OF this mod(2,3) cont1_3 [OF 3 assms]] 3 split4096 [of c]
    show ?thesis by (simp add: utf8_scalar_def del: utf8_scalars.simps)
  next
    case 4
    then have "c div 262144 < 5" using assms unfolding scalar_def by linarith
    from utf8_scalars_4 [OF this mod cont1_4 [OF 4 assms]] 4 split262144 [of c]
    show ?thesis by (simp add: utf8_scalar_def del: utf8_scalars.simps)
  qed
qed

declare utf8_scalars.simps(2) [simp del]

lemma utf8_scalars_concat:
  "\<forall>c\<in>set cs. scalar c \<Longrightarrow> utf8_scalars (concat (map utf8_scalar cs)) = cs"
  by (induction cs) (simp_all add: utf8_scalars_cons)

text \<open>Only a string that starts with U+FEFF starts with the bytes the decoder drops.\<close>

definition starts_bom :: "jsstr \<Rightarrow> bool" where
  "starts_bom s \<longleftrightarrow> (case s of [] \<Rightarrow> False | c # cs \<Rightarrow> c = 65279)"

definition plain_text :: "jsstr \<Rightarrow> bool" where
  "plain_text s \<longleftrightarrow> well_formed s \<and> \<not> starts_bom s"

lemma set_scalars_of: "\<forall>c\<in>set (scalars_of (map unat (s :: jsstr))). scalar c"
proof (rule scalars_of_scalar, rule ballI)
  fix u assume "u \<in> set (map unat s)"
  then show "u < 65536" using unsigned_less [where 'b = 16 and 'a = nat] by fastforce
qed

lemma text_bytes: "map unat (text_encode s) = concat (map utf8_scalar (scalars_of (map unat s)))"
proof -
  have "\<forall>b\<in>set (concat (map utf8_scalar (scalars_of (map unat s)))). b < 256"
    using set_scalars_of [of s] utf8_scalar_bound by fastforce
  then show ?thesis unfolding text_encode_def map_map
    by (intro map_idI) (metis comp_apply mod_less unat_word_of_nat_u8)
qed

lemma utf8_scalars_text: "utf8_scalars (map unat (text_encode s)) = scalars_of (map unat s)"
  by (simp add: text_bytes utf8_scalars_concat set_scalars_of)

lemma utf8_scalars_bom: "utf8_scalars (239 # 187 # 191 # bs) = 65279 # utf8_scalars bs"
  by (simp add: utf8_scalars.simps(2) cont_def cont1_def)

lemma without_bom_text:
  assumes "plain_text s"
  shows "without_bom (map unat (text_encode s)) = map unat (text_encode s)"
proof (rule ccontr)
  let ?bs = "map unat (text_encode s)"
  assume "\<not> ?thesis"
  then have "take 3 ?bs = [239, 187, 191]" by (simp add: without_bom_def split: if_splits)
  then have "?bs = 239 # 187 # 191 # drop 3 ?bs" by (metis append_Cons append_Nil append_take_drop_id)
  then have "scalars_of (map unat s) = 65279 # utf8_scalars (drop 3 ?bs)"
    using utf8_scalars_text [of s] utf8_scalars_bom by metis
  with assms have "map unat s = 65279 # concat (map units_of (utf8_scalars (drop 3 ?bs)))"
    by (simp add: plain_text_def well_formed_def units_of_def)
  then obtain c cs where "s = c # cs" "unat c = 65279" by (cases s) auto
  then have "starts_bom s" by (simp add: starts_bom_def word_unat_eq_iff)
  with assms show False by (simp add: plain_text_def)
qed

theorem text_decode_encode: "plain_text s \<Longrightarrow> text_decode (text_encode s) = s"
  by (simp add: text_decode_def without_bom_text utf8_scalars_text)
    (simp add: plain_text_def well_formed_def comp_def)

text \<open>ASCII text is plain, and takes one byte a character.\<close>

definition ascii :: "jsstr \<Rightarrow> bool" where
  "ascii s \<longleftrightarrow> (\<forall>c\<in>set s. unat c < 128)"

lemma scalars_of_ascii: "\<forall>u\<in>set us. u < 128 \<Longrightarrow> scalars_of us = us"
  by (induction us rule: scalars_of.induct) (auto simp: high_surrogate_def low_surrogate_def)

lemma concat_map_single: "\<forall>x\<in>set xs. g x = [f x] \<Longrightarrow> concat (map g xs) = map f xs"
  by (induction xs) auto

lemma plain_text_ascii: "ascii s \<Longrightarrow> plain_text s"
proof -
  assume a: "ascii s"
  then have "scalars_of (map unat s) = map unat s" by (simp add: ascii_def scalars_of_ascii)
  moreover have "concat (map units_of (map unat s)) = map unat s"
    unfolding map_map using a by (intro concat_map_single) (auto simp: ascii_def units_of_def)
  moreover have "\<not> starts_bom s" using a by (auto simp: ascii_def starts_bom_def split: list.splits)
  ultimately show ?thesis by (simp add: plain_text_def well_formed_def)
qed

lemma length_text_ascii: "ascii s \<Longrightarrow> length (text_encode s) = length s"
proof -
  assume a: "ascii s"
  then have "scalars_of (map unat s) = map unat s" by (simp add: ascii_def scalars_of_ascii)
  moreover have "concat (map utf8_scalar (map unat s)) = map unat s"
    unfolding map_map using a by (intro concat_map_single) (auto simp: ascii_def utf8_scalar_def)
  ultimately show ?thesis by (simp add: text_encode_def)
qed

lemma length_utf8_scalar: "1 \<le> length (utf8_scalar c)" "65536 \<le> c \<Longrightarrow> length (utf8_scalar c) = 4"
  by (simp_all add: utf8_scalar_def)

lemma length_utf8_scalars: "length us \<le> length (concat (map utf8_scalar (scalars_of us)))"
proof (induction us rule: scalars_of.induct)
  case (2 u)
  show ?case using length_utf8_scalar(1) by simp
next
  case (3 u v us)
  show ?case
  proof (cases "high_surrogate u \<and> low_surrogate v")
    case True
    then show ?thesis using 3(1) by (simp add: length_utf8_scalar(2))
  next
    case False
    then have "length (v # us) \<le> length (concat (map utf8_scalar (scalars_of (v # us))))" by (rule 3(2))
    then show ?thesis
      using False length_utf8_scalar(1) [of "if high_surrogate u \<or> low_surrogate u then replacement else u"]
      by auto
  qed
qed simp

lemma length_text_encode_ge: "length s \<le> length (text_encode s)"
  using length_utf8_scalars [of "map unat s"] by (simp add: text_encode_def)

end
