(* ===== verification/Platform.thy ===== *)
theory Platform
  imports Utf8
begin

text \<open>
  What the client uses of the platform besides text and bytes: JSON values and their text, decimal
  numerals, and authenticated encryption. \<open>JSON.stringify\<close> is written out; \<open>JSON.parse\<close> and the two
  directions of AES-GCM are parameters of the definitions that use them, and what is relied on is
  named here.
\<close>

subsection \<open>Whitespace\<close>

text \<open>\<open>\s\<close> of a JavaScript regular expression, which is also what \<open>trim\<close> removes.\<close>

definition white :: "16 word \<Rightarrow> bool" where
  "white u \<longleftrightarrow> (9 \<le> u \<and> u \<le> 13) \<or> u = 0x20 \<or> u = 0xA0 \<or> u = 0x1680 \<or> (0x2000 \<le> u \<and> u \<le> 0x200A) \<or>
     u = 0x2028 \<or> u = 0x2029 \<or> u = 0x202F \<or> u = 0x205F \<or> u = 0x3000 \<or> u = 0xFEFF"

subsection \<open>Numerals\<close>

fun decimal :: "nat \<Rightarrow> jsstr" where
  "decimal n = (if n < 10 then [of_nat (48 + n)] else decimal (n div 10) @ [of_nat (48 + n mod 10)])"

declare decimal.simps [simp del]

lemma decimal_0 [simp]: "decimal 0 = [0x30]"
  by (simp add: decimal.simps)

definition decimal_int :: "int \<Rightarrow> jsstr" where
  "decimal_int n = (if n < 0 then js ''-'' @ decimal (nat (- n)) else decimal (nat n))"

subsection \<open>JSON\<close>

text \<open>An object's keys are distinct and in order. Numbers are the integers the client writes.\<close>

datatype json =
    JNull
  | JBool bool
  | JNum int
  | JStr jsstr
  | JArr "json list"
  | JObj "(jsstr \<times> json) list"

definition hex_digit :: "nat \<Rightarrow> 16 word" where
  "hex_digit n = of_nat (if n < 10 then 48 + n else 87 + n)"

definition u_escape :: "16 word \<Rightarrow> jsstr" where
  "u_escape u = (let n = unat u in
     js [CHR 0x5C, CHR ''u''] @ map hex_digit [n div 4096 mod 16, n div 256 mod 16, n div 16 mod 16, n mod 16])"

definition json_unit :: "16 word \<Rightarrow> jsstr" where
  "json_unit u =
     (if u = 0x22 then [0x5C, 0x22]
      else if u = 0x5C then [0x5C, 0x5C]
      else if u = 8 then js [CHR 0x5C, CHR ''b'']
      else if u = 9 then js [CHR 0x5C, CHR ''t'']
      else if u = 10 then js [CHR 0x5C, CHR ''n'']
      else if u = 12 then js [CHR 0x5C, CHR ''f'']
      else if u = 13 then js [CHR 0x5C, CHR ''r'']
      else if u < 32 \<or> high_surrogate (unat u) \<or> low_surrogate (unat u) then u_escape u
      else [u])"

text \<open>A surrogate pair is copied, a surrogate alone is escaped.\<close>

fun json_chars :: "jsstr \<Rightarrow> jsstr" where
  "json_chars [] = []"
| "json_chars [u] = json_unit u"
| "json_chars (u # v # rest) =
     (if high_surrogate (unat u) \<and> low_surrogate (unat v) then u # v # json_chars rest
      else json_unit u @ json_chars (v # rest))"

definition json_string :: "jsstr \<Rightarrow> jsstr" where
  "json_string s = [0x22] @ json_chars s @ [0x22]"

definition commas :: "jsstr list \<Rightarrow> jsstr" where
  "commas xs = (case xs of [] \<Rightarrow> [] | y # ys \<Rightarrow> y @ concat (map (\<lambda>z. js '','' @ z) ys))"

fun json_text :: "json \<Rightarrow> jsstr" where
  "json_text JNull = js ''null''"
| "json_text (JBool b) = (if b then js ''true'' else js ''false'')"
| "json_text (JNum n) = decimal_int n"
| "json_text (JStr s) = json_string s"
| "json_text (JArr xs) = js ''['' @ commas (map json_text xs) @ js '']''"
| "json_text (JObj kvs) =
     js ''{'' @ commas (map (\<lambda>(k, v). json_string k @ js '':'' @ json_text v) kvs) @ js ''}''"

text \<open>\<open>value.name\<close> on a parsed value, \<open>None\<close> for \<open>undefined\<close>; an array has no named fields.\<close>

definition field :: "json \<Rightarrow> string \<Rightarrow> json option" where
  "field j name = (case j of JObj kvs \<Rightarrow> map_of kvs (js name) | _ \<Rightarrow> None)"

text \<open>\<open>typeof value === "object" && value !== null\<close>, and \<open>Object.entries\<close> of such a value.\<close>

definition entries :: "json \<Rightarrow> (jsstr \<times> json) list option" where
  "entries j = (case j of
       JObj kvs \<Rightarrow> Some kvs
     | JArr xs \<Rightarrow> Some (map (\<lambda>(i, x). (decimal i, x)) (List.enumerate 0 xs))
     | _ \<Rightarrow> None)"

lemma length_json_string: "length s + 2 \<le> length (json_string s)"
proof -
  have "length s \<le> length (json_chars s)"
    by (induction s rule: json_chars.induct) (auto simp: json_unit_def u_escape_def js_def Let_def)
  then show ?thesis by (simp add: json_string_def)
qed

lemma length_json_string_le: "length (json_string s) \<le> 6 * length s + 2"
proof -
  have "length (json_chars s) \<le> 6 * length s"
    by (induction s rule: json_chars.induct) (auto simp: json_unit_def u_escape_def js_def Let_def)
  then show ?thesis by (simp add: json_string_def)
qed

lemma length_decimal: "1 \<le> length (decimal n)"
  by (induction n rule: decimal.induct) (subst decimal.simps, simp)

lemma length_js [simp]: "length (js s) = length s"
  by (simp add: js_def)

lemma length_commas: "length (commas xs) = sum_list (map length xs) + (length xs - 1)"
  by (cases xs)
    (simp_all add: commas_def length_concat comp_def sum_list_Suc)

subsection \<open>Authenticated encryption\<close>

text \<open>
  \<open>crypto.subtle\<close> with AES-GCM under a key, a nonce and no further data: the sixteen-byte tag is
  appended, and what was sealed opens under the same key and nonce.
\<close>

definition aead :: "('k \<Rightarrow> bytes \<Rightarrow> bytes \<Rightarrow> bytes) \<Rightarrow> ('k \<Rightarrow> bytes \<Rightarrow> bytes \<Rightarrow> bytes option) \<Rightarrow> bool" where
  "aead enc dec \<longleftrightarrow>
     (\<forall>k iv p. dec k iv (enc k iv p) = Some p \<and> length (enc k iv p) = length p + 16)"

text \<open>A nonce in front of the ciphertext: how every sealed blob of the client travels.\<close>

definition seal :: "('k \<Rightarrow> bytes \<Rightarrow> bytes \<Rightarrow> bytes) \<Rightarrow> bytes \<Rightarrow> 'k \<Rightarrow> bytes \<Rightarrow> bytes" where
  "seal enc iv key plaintext = iv @ enc key iv plaintext"

definition unseal :: "('k \<Rightarrow> bytes \<Rightarrow> bytes \<Rightarrow> bytes option) \<Rightarrow> 'k \<Rightarrow> bytes \<Rightarrow> bytes option" where
  "unseal dec key sealed = dec key (take 12 sealed) (drop 12 sealed)"

lemma unseal_seal: "aead enc dec \<Longrightarrow> length iv = 12 \<Longrightarrow> unseal dec key (seal enc iv key p) = Some p"
  by (simp add: aead_def seal_def unseal_def)

lemma length_seal: "aead enc dec \<Longrightarrow> length iv = 12 \<Longrightarrow> length (seal enc iv key p) = length p + 28"
  by (simp add: aead_def seal_def)

text \<open>An instance for concrete runs: a tag of sixteen zeros, checked.\<close>

definition clear_enc :: "'k \<Rightarrow> bytes \<Rightarrow> bytes \<Rightarrow> bytes" where
  "clear_enc key iv p = p @ replicate 16 0"

definition clear_dec :: "'k \<Rightarrow> bytes \<Rightarrow> bytes \<Rightarrow> bytes option" where
  "clear_dec key iv c =
     (if 16 \<le> length c \<and> drop (length c - 16) c = replicate 16 0 then Some (take (length c - 16) c)
      else None)"

lemma aead_clear: "aead clear_enc clear_dec"
  by (simp add: aead_def clear_enc_def clear_dec_def)

end
