(* ===== verification/Naming.thy ===== *)
theory Naming
  imports Platform
begin

text \<open>
  What a person may be called, and what the screen prints for them: \<open>display-name.ts\<close>, \<open>handle.ts\<close>,
  \<open>naming.ts\<close>. Unicode normalisation and case folding are the platform's tables, the parameters
  \<open>nfc\<close>, \<open>nfkc\<close> and \<open>lower\<close>; everything else is written out.
\<close>

subsection \<open>Whitespace\<close>

definition trim :: "jsstr \<Rightarrow> jsstr" where
  "trim s = rev (dropWhile white (rev (dropWhile white s)))"

text \<open>\<open>replace(/\s+/g, " ")\<close>.\<close>

fun collapse :: "jsstr \<Rightarrow> jsstr" where
  "collapse [] = []"
| "collapse [u] = [if white u then 0x20 else u]"
| "collapse (u # v # s) =
     (if white u then if white v then collapse (v # s) else 0x20 # collapse (v # s)
      else u # collapse (v # s))"

subsection \<open>Display names\<close>

datatype display_name_error = NameEmpty | NameTooLong

definition max_code_points :: nat where "max_code_points = 32"
definition max_bytes :: nat where "max_bytes = 64"

definition controls :: "16 word \<Rightarrow> bool" where
  "controls u \<longleftrightarrow> u \<le> 0x1F \<or> (0x7F \<le> u \<and> u \<le> 0x9F)"

definition invisible :: "16 word \<Rightarrow> bool" where
  "invisible u \<longleftrightarrow> u = 0x200E \<or> u = 0x200F \<or> (0x202A \<le> u \<and> u \<le> 0x202E) \<or>
     (0x2066 \<le> u \<and> u \<le> 0x2069) \<or> u = 0xFEFF"

definition sanitize :: "(jsstr \<Rightarrow> jsstr) \<Rightarrow> jsstr \<Rightarrow> jsstr" where
  "sanitize nfc input =
     trim (collapse (filter (\<lambda>u. \<not> invisible u) (map (\<lambda>u. if controls u then 0x20 else u) (nfc input))))"

text \<open>\<open>[...name].length\<close>: a surrogate pair is one code point, a lone surrogate one too.\<close>

definition code_points :: "jsstr \<Rightarrow> nat" where
  "code_points s = length (scalars_of (map unat s))"

definition validate_name :: "jsstr \<Rightarrow> display_name_error option" where
  "validate_name name =
     (if name = [] then Some NameEmpty
      else if code_points name > max_code_points then Some NameTooLong
      else if length (text_encode name) > max_bytes then Some NameTooLong
      else None)"

subsection \<open>Handles\<close>

datatype handle_error = HandleTooShort | HandleTooBig | HandleBadCharacters

definition min_length :: nat where "min_length = 3"
definition max_length :: nat where "max_length = 32"

text \<open>\<open>replace(/^@/, "")\<close>: one sigil, at the front.\<close>

definition without_sigil :: "jsstr \<Rightarrow> jsstr" where
  "without_sigil s = (case s of u # rest \<Rightarrow> if u = 0x40 then rest else s | [] \<Rightarrow> [])"

definition normalize :: "(jsstr \<Rightarrow> jsstr) \<Rightarrow> (jsstr \<Rightarrow> jsstr) \<Rightarrow> jsstr \<Rightarrow> jsstr" where
  "normalize nfkc lower input = lower (without_sigil (trim (nfkc input)))"

definition handle_char :: "16 word \<Rightarrow> bool" where
  "handle_char u \<longleftrightarrow> (0x61 \<le> u \<and> u \<le> 0x7A) \<or> (0x30 \<le> u \<and> u \<le> 0x39) \<or> u = 0x5F"

definition validate_handle :: "jsstr \<Rightarrow> handle_error option" where
  "validate_handle handle =
     (if length handle < min_length then Some HandleTooShort
      else if length handle > max_length then Some HandleTooBig
      else if handle = [] \<or> \<not> list_all handle_char handle then Some HandleBadCharacters
      else None)"

definition suggestion_stem :: nat where "suggestion_stem = max_length - 4"

text \<open>\<open>drawn\<close> is \<open>Math.floor(random() * 10000)\<close>, below 10000 for a generator in \<open>[0, 1)\<close>;
  \<open>padStart(4, "0")\<close> never shortens.\<close>

definition pad_start :: "nat \<Rightarrow> jsstr \<Rightarrow> jsstr" where
  "pad_start n s = replicate (n - length s) 0x30 @ s"

definition suggest :: "(jsstr \<Rightarrow> jsstr) \<Rightarrow> (jsstr \<Rightarrow> jsstr) \<Rightarrow> jsstr \<Rightarrow> nat \<Rightarrow> jsstr" where
  "suggest nfkc lower base drawn =
     take suggestion_stem (normalize nfkc lower base) @ pad_start 4 (decimal drawn)"

subsection \<open>What is printed\<close>

text \<open>The two records the session holds, narrowed: handles claimed, petnames given, names declared.\<close>

record name_sources =
  src_handles :: "account \<rightharpoonup> jsstr"
  src_petnames :: "account \<rightharpoonup> jsstr"
  src_profiles :: "account \<rightharpoonup> jsstr"

record shown_name =
  primary :: jsstr
  secondary :: "jsstr option"
  is_handle :: bool

definition format_handle :: "jsstr \<Rightarrow> jsstr" where
  "format_handle handle = 0x40 # handle"

definition hex_char :: "16 word \<Rightarrow> bool" where
  "hex_char u \<longleftrightarrow> (0x30 \<le> u \<and> u \<le> 0x39) \<or> (0x61 \<le> u \<and> u \<le> 0x66)"

definition joined :: "jsstr \<Rightarrow> jsstr list \<Rightarrow> jsstr" where
  "joined sep xs = (case xs of [] \<Rightarrow> [] | y # ys \<Rightarrow> y @ concat (map (\<lambda>z. sep @ z) ys))"

definition short_id :: "account \<Rightarrow> jsstr" where
  "short_id a = joined [0x20] [take 4 a, take 4 (drop 4 a), take 4 (drop 8 a), take 4 (drop 12 a)]"

definition handle_of :: "account \<Rightarrow> name_sources \<Rightarrow> jsstr" where
  "handle_of account sources =
     (case src_handles sources account of
        Some claimed \<Rightarrow> if claimed \<noteq> [] then format_handle claimed
          else if length account = 32 \<and> list_all hex_char account then short_id account
          else format_handle account
      | None \<Rightarrow> if length account = 32 \<and> list_all hex_char account then short_id account
          else format_handle account)"

definition fold_name :: "(jsstr \<Rightarrow> jsstr) \<Rightarrow> jsstr \<Rightarrow> jsstr" where
  "fold_name lower name = lower (collapse (trim name))"

text \<open>A trimmed entry, when it says something: \<open>?.trim()\<close> and the truth test on it.\<close>

definition nonblank :: "jsstr option \<Rightarrow> jsstr option" where
  "nonblank s = (case s of None \<Rightarrow> None | Some t \<Rightarrow> if trim t = [] then None else Some (trim t))"

definition asserted_name :: "account \<Rightarrow> name_sources \<Rightarrow> jsstr option" where
  "asserted_name handle sources = nonblank (src_profiles sources handle)"

definition name_of :: "account \<Rightarrow> name_sources \<Rightarrow> shown_name" where
  "name_of handle sources =
     (case nonblank (src_petnames sources handle) of
        Some petname \<Rightarrow>
          \<lparr>primary = petname, secondary = Some (handle_of handle sources), is_handle = False\<rparr>
      | None \<Rightarrow>
          (case asserted_name handle sources of
             Some asserted \<Rightarrow>
               \<lparr>primary = asserted, secondary = Some (handle_of handle sources), is_handle = False\<rparr>
           | None \<Rightarrow> \<lparr>primary = handle_of handle sources, secondary = None, is_handle = True\<rparr>))"

text \<open>The loop of \<open>compactNameOf\<close>: does some other member wear this name, or have it as anchor?\<close>

fun contested :: "(jsstr \<Rightarrow> jsstr) \<Rightarrow> name_sources \<Rightarrow> account \<Rightarrow> jsstr \<Rightarrow> account list \<Rightarrow> bool" where
  "contested lower sources handle bare [] = False"
| "contested lower sources handle bare (other # among) =
     (if other = handle then contested lower sources handle bare among
      else if (case asserted_name other sources of
                 Some rival \<Rightarrow> without_sigil (fold_name lower rival) = bare
               | None \<Rightarrow> False) then True
      else if without_sigil (fold_name lower (handle_of other sources)) = bare then True
      else contested lower sources handle bare among)"

definition compact_name_of ::
    "(jsstr \<Rightarrow> jsstr) \<Rightarrow> account \<Rightarrow> name_sources \<Rightarrow> account list \<Rightarrow> jsstr" where
  "compact_name_of lower handle sources among =
     (case nonblank (src_petnames sources handle) of
        Some petname \<Rightarrow> petname
      | None \<Rightarrow>
          (case asserted_name handle sources of
             None \<Rightarrow> handle_of handle sources
           | Some asserted \<Rightarrow>
               if contested lower sources handle (without_sigil (fold_name lower asserted)) among
               then handle_of handle sources else asserted))"

fun includes_text :: "jsstr \<Rightarrow> jsstr \<Rightarrow> bool" where
  "includes_text [] needle \<longleftrightarrow> needle = []"
| "includes_text (u # s) needle \<longleftrightarrow> take (length needle) (u # s) = needle \<or> includes_text s needle"

definition name_matches :: "(jsstr \<Rightarrow> jsstr) \<Rightarrow> account \<Rightarrow> name_sources \<Rightarrow> jsstr \<Rightarrow> bool" where
  "name_matches lower handle sources term =
     (let needle = without_sigil (fold_name lower term) in
      needle = [] \<or>
      list_ex (\<lambda>candidate. case candidate of
          None \<Rightarrow> False | Some c \<Rightarrow> includes_text (fold_name lower c) needle)
        [Some (case src_handles sources handle of Some h \<Rightarrow> h | None \<Rightarrow> handle),
         src_petnames sources handle, src_profiles sources handle])"

definition title_of ::
    "(jsstr \<Rightarrow> jsstr) \<Rightarrow> account list \<Rightarrow> jsstr list \<Rightarrow> name_sources \<Rightarrow> account list \<Rightarrow>
     account option \<Rightarrow> jsstr" where
  "title_of lower accounts peers sources among self =
     (let listed = (case self of Some me \<Rightarrow> among @ [me] | None \<Rightarrow> among);
          named = map (\<lambda>a. compact_name_of lower a sources listed) accounts @
            (case self of Some me \<Rightarrow> [compact_name_of lower me sources listed] | None \<Rightarrow> []);
          title = joined (js '', '') named;
          peer_title = joined (js '', '')
            (map (\<lambda>p. compact_name_of lower p sources listed) (uniq peers))
      in if title \<noteq> [] then title
         else if peer_title \<noteq> [] then peer_title
         else js ''empty conversation'')"

subsection \<open>A name takes one line and reorders nothing\<close>

lemma white_space [simp]: "white 0x20"
  by (simp add: white_def)

lemma set_collapse: "u \<in> set (collapse s) \<Longrightarrow> (u \<in> set s \<and> \<not> white u) \<or> u = 0x20"
  by (induction s rule: collapse.induct) (auto split: if_splits)

fun spaced :: "jsstr \<Rightarrow> bool" where
  "spaced (u # v # s) \<longleftrightarrow> \<not> (u = 0x20 \<and> v = 0x20) \<and> spaced (v # s)"
| "spaced _ \<longleftrightarrow> True"

lemma hd_collapse: "s \<noteq> [] \<Longrightarrow> \<not> white (hd s) \<Longrightarrow> hd (collapse s) = hd s"
  by (induction s rule: collapse.induct) auto

lemma collapse_nonempty [simp]: "collapse s = [] \<longleftrightarrow> s = []"
  by (induction s rule: collapse.induct) auto

lemma spaced_cons: "spaced s \<Longrightarrow> s = [] \<or> u \<noteq> 0x20 \<or> hd s \<noteq> 0x20 \<Longrightarrow> spaced (u # s)"
  by (cases s) auto

lemma spaced_collapse: "spaced (collapse s)"
proof (induction s rule: collapse.induct)
  case (3 u v s)
  have "white v \<or> hd (collapse (v # s)) = v" using hd_collapse [of "v # s"] by auto
  with 3 show ?case by (auto intro!: spaced_cons)
qed auto

lemma spaced_drop: "spaced s \<Longrightarrow> spaced (dropWhile p s)"
  by (induction s rule: spaced.induct) auto

lemma spaced_append: "spaced (s @ t) \<Longrightarrow> spaced s"
  by (induction s rule: spaced.induct) auto

lemma trim_prefix: "\<exists>t. dropWhile white s = trim s @ t"
  unfolding trim_def by (metis rev_append rev_rev_ident takeWhile_dropWhile_id)

lemma spaced_trim: "spaced s \<Longrightarrow> spaced (trim s)"
  using spaced_drop [of s white] trim_prefix [of s] spaced_append by metis

lemma set_trim: "u \<in> set (trim s) \<Longrightarrow> u \<in> set s"
  unfolding trim_def by (metis set_dropWhileD set_rev)

lemma trim_ends: "trim s \<noteq> [] \<Longrightarrow> \<not> white (hd (trim s)) \<and> \<not> white (last (trim s))"
proof -
  assume ne: "trim s \<noteq> []"
  let ?d = "dropWhile white s"
  from ne have r: "dropWhile white (rev ?d) \<noteq> []" by (simp add: trim_def)
  have "\<not> white (hd (dropWhile white (rev ?d)))" by (rule hd_dropWhile [OF r])
  then have l: "\<not> white (last (trim s))" using r by (simp add: trim_def last_rev)
  from ne obtain t where t: "?d = trim s @ t" using trim_prefix by blast
  then have "?d \<noteq> []" using ne by auto
  then have "\<not> white (hd ?d)" by (rule hd_dropWhile)
  with t ne have "\<not> white (hd (trim s))" by simp
  with l show ?thesis by simp
qed

lemma not_controls_space [simp]: "\<not> controls 0x20" "\<not> invisible 0x20"
  by (simp_all add: controls_def invisible_def)

text \<open>A name that went through \<open>sanitize\<close>, whoever wrote it, holds no control character and no
  bidirectional or invisible formatting; its only whitespace is the plain space, never two in a row
  and never at either end. This holds whatever the normalisation tables do.\<close>

theorem sanitize_one_line:
  "(\<forall>u\<in>set (sanitize nfc input). \<not> controls u \<and> \<not> invisible u \<and> (white u \<longrightarrow> u = 0x20)) \<and>
   spaced (sanitize nfc input) \<and>
   (sanitize nfc input \<noteq> [] \<longrightarrow>
      \<not> white (hd (sanitize nfc input)) \<and> \<not> white (last (sanitize nfc input)))"
proof (intro conjI ballI impI)
  fix u assume "u \<in> set (sanitize nfc input)"
  then have "u \<in> set (collapse (filter (\<lambda>u. \<not> invisible u) (map (\<lambda>u. if controls u then 0x20 else u) (nfc input))))"
    unfolding sanitize_def by (rule set_trim)
  from set_collapse [OF this] show "\<not> controls u" "\<not> invisible u" "white u \<Longrightarrow> u = 0x20"
    by (auto split: if_splits)
next
  show "spaced (sanitize nfc input)" by (simp add: sanitize_def spaced_trim spaced_collapse)
qed (simp_all add: sanitize_def trim_ends)

theorem sanitize_one_line_witness:
  "sanitize (\<lambda>s. s) [0x20, 0x202E, 0x61, 0x0A, 0x20, 0x62] = [0x61, 0x20, 0x62] \<and> spaced [0x61, 0x20, 0x62]"
proof -
  have "sanitize (\<lambda>s. s) [0x20, 0x202E, 0x61, 0x0A, 0x20, 0x62] = [0x61, 0x20, 0x62]"
    by (simp add: sanitize_def controls_def invisible_def trim_def white_def)
  with sanitize_one_line [of "\<lambda>s. s" "[0x20, 0x202E, 0x61, 0x0A, 0x20, 0x62]"] show ?thesis by simp
qed

subsection \<open>Handles\<close>

lemma decimal_digits: "u \<in> set (decimal n) \<Longrightarrow> 0x30 \<le> u \<and> u \<le> 0x39"
proof (induction n rule: decimal.induct)
  case (1 n)
  have d: "(0x30::16 word) \<le> of_nat (48 + k) \<and> (of_nat (48 + k) :: 16 word) \<le> 0x39" if "k < 10" for k
  proof -
    have "unat (of_nat (48 + k) :: 16 word) = 48 + k" using that by (subst unat_of_nat) simp
    then show ?thesis using that by (simp only: word_le_nat_alt) simp
  qed
  show ?case
  proof (cases "n < 10")
    case True
    with 1 d [of n] show ?thesis by (subst (asm) decimal.simps) simp
  next
    case False
    with 1(2) have "u \<in> set (decimal (n div 10)) \<or> u = of_nat (48 + n mod 10)"
      by (subst (asm) decimal.simps) auto
    with 1(1) [OF False] d [of "n mod 10"] show ?thesis by auto
  qed
qed

lemma length_decimal_le: "n < 10 ^ k \<Longrightarrow> 0 < k \<Longrightarrow> length (decimal n) \<le> k"
proof (induction n arbitrary: k rule: decimal.induct)
  case (1 n)
  show ?case
  proof (cases "n < 10")
    case True
    with 1(3) show ?thesis by (subst decimal.simps) simp
  next
    case False
    with 1(2) obtain j where k: "k = Suc j" "0 < j"
      by (cases k; cases "k - 1") auto
    with 1(2) have "n div 10 < 10 ^ j" by (simp add: less_mult_imp_div_less)
    with 1(1) [OF False] k show ?thesis using False by (subst decimal.simps) simp
  qed
qed

lemma handle_digits: "u \<in> set (pad_start 4 (decimal n)) \<Longrightarrow> handle_char u"
  by (auto simp: pad_start_def handle_char_def dest: decimal_digits)

lemma length_suggested_digits: "drawn < 10000 \<Longrightarrow> length (pad_start 4 (decimal drawn)) = 4"
  using length_decimal_le [of drawn 4] by (simp add: pad_start_def)

text \<open>What \<open>suggest\<close> proposes is a handle the client itself accepts, at most 32 characters, for
  every number drawn and every base that normalises to characters of a handle.\<close>

theorem suggest_valid:
  assumes "drawn < 10000" and "list_all handle_char (normalize nfkc lower base)"
  shows "validate_handle (suggest nfkc lower base drawn) = None \<and>
    length (suggest nfkc lower base drawn) = min 28 (length (normalize nfkc lower base)) + 4"
proof -
  have chars: "list_all handle_char (suggest nfkc lower base drawn)"
    using assms(2) by (auto simp: suggest_def list_all_iff dest: handle_digits in_set_takeD)
  have len: "length (suggest nfkc lower base drawn) = min 28 (length (normalize nfkc lower base)) + 4"
    using length_suggested_digits [OF assms(1)] by (simp add: suggest_def suggestion_stem_def max_length_def)
  then have "suggest nfkc lower base drawn \<noteq> []" by auto
  with chars len show ?thesis by (simp add: validate_handle_def min_length_def max_length_def)
qed

theorem suggest_valid_witness:
  "validate_handle (suggest (\<lambda>s. s) (\<lambda>s. s) (js ''@charlie'') 7) = None"
proof -
  have "list_all handle_char (normalize (\<lambda>s. s) (\<lambda>s. s) (js ''@charlie''))"
    by (simp add: js_def normalize_def trim_def white_def without_sigil_def handle_char_def)
  from suggest_valid [OF _ this, of 7] show ?thesis by simp
qed

subsection \<open>The compact form is not ambiguous\<close>

lemma contested_iff:
  "contested lower sources handle bare among \<longleftrightarrow>
     (\<exists>other\<in>set among. other \<noteq> handle \<and>
        ((\<exists>rival. asserted_name other sources = Some rival \<and> without_sigil (fold_name lower rival) = bare) \<or>
         without_sigil (fold_name lower (handle_of other sources)) = bare))"
  by (induction among) (auto split: option.splits)

text \<open>What a reader can compare two rendered names by: folded, without the sigil.\<close>

abbreviation reads_as :: "(jsstr \<Rightarrow> jsstr) \<Rightarrow> jsstr \<Rightarrow> jsstr" where
  "reads_as lower s \<equiv> without_sigil (fold_name lower s)"

text \<open>The compact form refuses to be ambiguous. If two members of a conversation, to whom the
  reader has given no petname, are rendered as strings that read alike (same after folding case and
  whitespace and dropping the sigil), then neither is rendered by a display name: both are shown as
  their anchors, and it is the anchors that read alike.\<close>

theorem compact_unambiguous:
  assumes "a \<in> set among" and "b \<in> set among" and "a \<noteq> b"
    and "nonblank (src_petnames sources a) = None" and "nonblank (src_petnames sources b) = None"
    and "reads_as lower (compact_name_of lower a sources among) =
         reads_as lower (compact_name_of lower b sources among)"
  shows "compact_name_of lower a sources among = handle_of a sources \<and>
    compact_name_of lower b sources among = handle_of b sources \<and>
    reads_as lower (handle_of a sources) = reads_as lower (handle_of b sources)"
  using assms
  by (auto simp: compact_name_of_def contested_iff split: option.splits if_splits)

theorem compact_unambiguous_witness:
  "(let s = \<lparr>src_handles = [js ''id1'' \<mapsto> js ''alice'', js ''id2'' \<mapsto> js ''bob''], src_petnames = Map.empty,
             src_profiles = [js ''id1'' \<mapsto> js ''Sam'', js ''id2'' \<mapsto> js ''Sam'']\<rparr>;
        m = [js ''id1'', js ''id2'']
    in reads_as (\<lambda>x. x) (compact_name_of (\<lambda>x. x) (js ''id1'') s m) \<noteq>
       reads_as (\<lambda>x. x) (compact_name_of (\<lambda>x. x) (js ''id2'') s m))"
proof -
  let ?s = "\<lparr>src_handles = [js ''id1'' \<mapsto> js ''alice'', js ''id2'' \<mapsto> js ''bob''], src_petnames = Map.empty,
             src_profiles = [js ''id1'' \<mapsto> js ''Sam'', js ''id2'' \<mapsto> js ''Sam'']\<rparr>"
  have "reads_as (\<lambda>x. x) (handle_of (js ''id1'') ?s) \<noteq> reads_as (\<lambda>x. x) (handle_of (js ''id2'') ?s)"
    by (simp add: handle_of_def js_def fold_name_def trim_def white_def without_sigil_def format_handle_def)
  with compact_unambiguous
    [of "js ''id1''" "[js ''id1'', js ''id2'']" "js ''id2''" ?s "\<lambda>x. x"]
  show ?thesis by (auto simp: Let_def nonblank_def js_def)
qed

text \<open>Two collisions the compact form leaves standing: two members who claim one handle and
  declare no name are both drawn as that handle, and a name asserted by one member that equals the
  petname the reader gave another is drawn beside it unchanged.\<close>

theorem compact_collisions:
  "(let s = \<lparr>src_handles = [js ''id1'' \<mapsto> js ''alice'', js ''id2'' \<mapsto> js ''alice''],
             src_petnames = Map.empty, src_profiles = Map.empty\<rparr>
    in compact_name_of lower (js ''id1'') s [js ''id1'', js ''id2''] = js ''@alice'' \<and>
       compact_name_of lower (js ''id2'') s [js ''id1'', js ''id2''] = js ''@alice'') \<and>
   (let s = \<lparr>src_handles = Map.empty, src_petnames = Map.empty(js ''bob'' \<mapsto> js ''Mum''),
             src_profiles = Map.empty(js ''eve'' \<mapsto> js ''Mum'')\<rparr>
    in compact_name_of (\<lambda>x. x) (js ''bob'') s [js ''bob'', js ''eve''] = js ''Mum'' \<and>
       compact_name_of (\<lambda>x. x) (js ''eve'') s [js ''bob'', js ''eve''] = js ''Mum'')"
  by (simp add: compact_name_of_def asserted_name_def nonblank_def handle_of_def js_def trim_def white_def
      fold_name_def without_sigil_def format_handle_def)

end
