(* ===== verification/Stores.thy ===== *)
theory Stores
  imports Stored Naming
begin

text \<open>
  Two more stores of the session: \<open>session-preferences.ts\<close>, what the owner of the device has chosen,
  and \<open>session-trust.ts\<close>, what they have checked about their correspondents. \<open>session-types.ts\<close> has
  the small rules that read the flags of a conversation.
\<close>

subsection \<open>Preferences\<close>

record preferences =
  pf_conversations :: "(jsstr \<times> conversation_flags) list"
  pf_locale :: "jsstr option"
  pf_coverage :: "(jsstr \<times> nat \<times> nat) list"
  pf_contact_policy :: "contact_policy option"
  pf_blocked :: "account list"
  pf_recent_emojis :: "jsstr list"
  pf_skin_tone :: "nat option"

definition fresh_preferences :: preferences where
  "fresh_preferences = \<lparr>pf_conversations = [], pf_locale = None, pf_coverage = [],
     pf_contact_policy = None, pf_blocked = [], pf_recent_emojis = [], pf_skin_tone = None\<rparr>"

definition flags_of :: "preferences \<Rightarrow> jsstr \<Rightarrow> conversation_flags" where
  "flags_of p key = (case map_of (pf_conversations p) key of None \<Rightarrow> no_flags | Some f \<Rightarrow> f)"

definition is_blocked :: "preferences \<Rightarrow> account \<Rightarrow> bool" where
  "is_blocked p account \<longleftrightarrow> account \<in> set (pf_blocked p)"

text \<open>A mute in the past is not muted, and one exactly at \<open>now\<close> has ended.\<close>

definition is_muted :: "conversation_flags \<Rightarrow> int \<Rightarrow> bool" where
  "is_muted flags now = (case fl_muted_until flags of None \<Rightarrow> False | Some t \<Rightarrow> t > now)"

definition discloses_name :: "conversation_flags \<Rightarrow> bool \<Rightarrow> bool" where
  "discloses_name flags account_wide = (case fl_disclose_name flags of None \<Rightarrow> account_wide | Some b \<Rightarrow> b)"

definition archives_to_vault :: "conversation_flags \<Rightarrow> bool" where
  "archives_to_vault flags \<longleftrightarrow> fl_archive_to_vault flags \<noteq> Some False"

record preferences_store =
  ps_preferences :: preferences
  ps_disclose :: bool

definition preferences_hydrate :: "'l stored_session option \<Rightarrow> preferences_store" where
  "preferences_hydrate stored =
     (case stored of
        None \<Rightarrow> \<lparr>ps_preferences = fresh_preferences, ps_disclose = False\<rparr>
      | Some r \<Rightarrow>
          \<lparr>ps_preferences =
             \<lparr>pf_conversations = (case st_flags r of None \<Rightarrow> [] | Some x \<Rightarrow> x),
              pf_locale = st_locale r,
              pf_coverage = (case st_coverage r of None \<Rightarrow> [] | Some x \<Rightarrow> x),
              pf_contact_policy = st_contact_policy r,
              pf_blocked = (case st_blocked r of None \<Rightarrow> [] | Some x \<Rightarrow> x),
              pf_recent_emojis = (case st_recent_emojis r of None \<Rightarrow> [] | Some x \<Rightarrow> x),
              pf_skin_tone = st_skin_tone r\<rparr>,
           ps_disclose = (st_disclose r = Some True)\<rparr>)"

definition preferences_snapshot :: "preferences_store \<Rightarrow> 'l stored_session \<Rightarrow> 'l stored_session" where
  "preferences_snapshot s r =
     (let p = ps_preferences s in
      r\<lparr>st_disclose := Some (ps_disclose s), st_flags := Some (pf_conversations p),
        st_coverage := Some (pf_coverage p), st_blocked := Some (pf_blocked p),
        st_recent_emojis := Some (pf_recent_emojis p), st_locale := pf_locale p,
        st_contact_policy := pf_contact_policy p, st_skin_tone := pf_skin_tone p\<rparr>)"

definition set_disclose :: "bool \<Rightarrow> preferences_store \<Rightarrow> preferences_store" where
  "set_disclose v s = s\<lparr>ps_disclose := v\<rparr>"

definition update_preferences :: "(preferences \<Rightarrow> preferences) \<Rightarrow> preferences_store \<Rightarrow> preferences_store" where
  "update_preferences change s = s\<lparr>ps_preferences := change (ps_preferences s)\<rparr>"

text \<open>\<open>withoutTone\<close> of \<open>emoji.ts\<close>: the code points U+1F3FB to U+1F3FF, surrogate pairs here, are dropped.\<close>

fun without_tone :: "jsstr \<Rightarrow> jsstr" where
  "without_tone (u # v # rest) =
     (if u = 0xD83C \<and> 0xDFFB \<le> v \<and> v \<le> 0xDFFF then without_tone rest
      else if high_surrogate (unat u) \<and> low_surrogate (unat v) then u # v # without_tone rest
      else u # without_tone (v # rest))"
| "without_tone s = s"

definition recent_emoji :: nat where "recent_emoji = 24"

definition note_emoji :: "jsstr \<Rightarrow> preferences_store \<Rightarrow> bool \<times> preferences_store" where
  "note_emoji emoji s =
     (let base = without_tone emoji in
      if base = [] then (False, s)
      else (True, update_preferences (\<lambda>p. p\<lparr>pf_recent_emojis :=
        take recent_emoji (base # filter (\<lambda>known. known \<noteq> base) (pf_recent_emojis p))\<rparr>) s))"

lemma preferences_back: "preferences_hydrate (Some (preferences_snapshot s r)) = s"
  by (cases s; cases "ps_preferences s")
    (simp add: preferences_hydrate_def preferences_snapshot_def Let_def)

interpretation prefs_slice: slice preferences_snapshot "\<lambda>r. preferences_hydrate (Some r)" "\<lambda>_. True"
  by unfold_locales (simp add: preferences_back)

text \<open>The recents never hold an emoji twice, nor more than the grid shows.\<close>

definition recents_ok :: "preferences_store \<Rightarrow> bool" where
  "recents_ok s \<longleftrightarrow> distinct (pf_recent_emojis (ps_preferences s)) \<and>
     length (pf_recent_emojis (ps_preferences s)) \<le> recent_emoji \<and> [] \<notin> set (pf_recent_emojis (ps_preferences s))"

lemma recents_ok_note: "recents_ok s \<Longrightarrow> recents_ok (snd (note_emoji emoji s))"
  by (auto simp: recents_ok_def note_emoji_def Let_def update_preferences_def distinct_take
      dest: in_set_takeD)

subsection \<open>Trust\<close>

record trust_store =
  fingerprints :: "(account \<times> jsstr) list"
  known_devices :: "(account \<times> jsstr list) list"

datatype verification_state = Unverified | Verified | Changed jsstr

definition trust_hydrate :: "'l stored_session option \<Rightarrow> trust_store" where
  "trust_hydrate stored =
     (case stored of None \<Rightarrow> \<lparr>fingerprints = [], known_devices = []\<rparr>
      | Some r \<Rightarrow> \<lparr>fingerprints = st_verified r, known_devices = st_known_devices r\<rparr>)"

definition trust_snapshot :: "trust_store \<Rightarrow> 'l stored_session \<Rightarrow> 'l stored_session" where
  "trust_snapshot t r = r\<lparr>st_verified := fingerprints t, st_known_devices := known_devices t\<rparr>"

text \<open>\<open>handle\<close> and \<open>fingerprint\<close> of the resolved account. The empty string is no fingerprint.\<close>

definition verification_of :: "trust_store \<Rightarrow> account \<Rightarrow> jsstr \<Rightarrow> verification_state" where
  "verification_of t handle fingerprint =
     (case map_of (fingerprints t) handle of
        None \<Rightarrow> Unverified
      | Some known \<Rightarrow> if known = [] then Unverified
          else if known = fingerprint then Verified else Changed known)"

definition mark_verified :: "account \<Rightarrow> jsstr \<Rightarrow> trust_store \<Rightarrow> trust_store" where
  "mark_verified handle fingerprint t = t\<lparr>fingerprints := AList.update handle fingerprint (fingerprints t)\<rparr>"

definition note_devices :: "account \<Rightarrow> jsstr list \<Rightarrow> trust_store \<Rightarrow> trust_store" where
  "note_devices handle ids t = t\<lparr>known_devices := AList.update handle ids (known_devices t)\<rparr>"

definition devices_of :: "trust_store \<Rightarrow> account \<Rightarrow> jsstr list" where
  "devices_of t handle = (case map_of (known_devices t) handle of None \<Rightarrow> [] | Some ids \<Rightarrow> ids)"

definition new_devices_in :: "account \<Rightarrow> jsstr list \<Rightarrow> trust_store \<Rightarrow> jsstr list \<times> trust_store" where
  "new_devices_in handle ids t =
     (let fresh = filter (\<lambda>i. i \<notin> set (devices_of t handle)) ids in
      (fresh, if fresh \<noteq> [] then note_devices handle ids t else t))"

lemma trust_back: "trust_hydrate (Some (trust_snapshot t r)) = t"
  by (cases t) (simp add: trust_hydrate_def trust_snapshot_def)

interpretation trust_slice: slice trust_snapshot "\<lambda>r. trust_hydrate (Some r)" "\<lambda>_. True"
  by unfold_locales (simp add: trust_back)

interpretation trust_and_prefs:
  slices trust_snapshot "\<lambda>r. trust_hydrate (Some r)" "\<lambda>_. True"
    preferences_snapshot "\<lambda>r. preferences_hydrate (Some r)" "\<lambda>_. True"
  by unfold_locales
    (simp_all add: trust_hydrate_def trust_snapshot_def preferences_hydrate_def preferences_snapshot_def Let_def)

lemma verification_changes: "k \<noteq> h \<Longrightarrow> verification_of (mark_verified h f t) k g = verification_of t k g"
  by (simp add: verification_of_def mark_verified_def)

text \<open>A checked fingerprint stays attached to its account through a restart: it reads as verified
  for the fingerprint compared, as changed for any other, with the one compared on display, and it
  says nothing about another account.\<close>

theorem verification_survives:
  assumes "f \<noteq> []"
  shows "(let t' = trust_hydrate (Some (trust_snapshot (mark_verified h f t) r)) in
    verification_of t' h g = (if g = f then Verified else Changed f) \<and>
    (k \<noteq> h \<longrightarrow> verification_of t' k g = verification_of t k g))"
  using assms by (simp add: trust_back verification_changes) (simp add: verification_of_def mark_verified_def)

theorem verification_survives_witness:
  "verification_of (trust_hydrate (Some (trust_snapshot
      (mark_verified (js ''bob'') (js ''f1'') \<lparr>fingerprints = [], known_devices = []\<rparr>)
      (blank_session :: unit stored_session)))) (js ''bob'') (js ''f2'') = Changed (js ''f1'')"
proof -
  have "js ''f1'' \<noteq> []" by (simp add: js_def)
  from verification_survives [OF this, of "js ''bob''" "\<lparr>fingerprints = [], known_devices = []\<rparr>"
      "blank_session :: unit stored_session" "js ''f2''"]
  show ?thesis by (simp add: Let_def js_def)
qed

text \<open>\<open>newDevicesIn\<close> reports exactly the devices that were not in the list last recorded, and does
  not report them again. But a list from which devices have only disappeared is not recorded, so a
  device that was removed and is added again is never reported.\<close>

theorem new_devices_reported:
  "(let (fresh, t') = new_devices_in h ids t in
     set fresh = set ids - set (devices_of t h) \<and> fst (new_devices_in h ids t') = [] \<and>
     (fresh = [] \<longrightarrow> t' = t)) \<and>
   (let t0 = note_devices h [d, e] t; (gone, t1) = new_devices_in h [d] t0 in
      gone = [] \<and> fst (new_devices_in h [d, e] t1) = [])"
  by (auto simp: new_devices_in_def Let_def note_devices_def devices_of_def split: option.splits)

end
