(* ===== verification/Names.thy ===== *)
theory Names
  imports Naming Stored
begin

text \<open>
  \<open>session-naming.ts\<close>: the names a session holds. Its own display name, the names and handles peers
  declare about themselves, each with the clamped time of the declaration, and the petnames the
  reader gives. The records are association lists: \<open>snapshot\<close> tests whether they are empty.
\<close>

record names =
  nm_own :: "jsstr option"
  nm_declared :: "(account \<times> profile) list"
  nm_claimed :: "(account \<times> profile) list"
  nm_given :: "(account \<times> jsstr) list"

definition no_names :: names where
  "no_names = \<lparr>nm_own = None, nm_declared = [], nm_claimed = [], nm_given = []\<rparr>"

definition map_handles :: "(account \<times> handle_claim) list option \<Rightarrow> (account \<times> profile) list" where
  "map_handles stored =
     (case stored of None \<Rightarrow> []
      | Some hs \<Rightarrow> map (\<lambda>(account, h). (account, \<lparr>prof_name = claim_handle h, prof_at = claim_at h\<rparr>)) hs)"

definition names_hydrate :: "'l stored_session option \<Rightarrow> names" where
  "names_hydrate stored =
     (case stored of None \<Rightarrow> no_names
      | Some r \<Rightarrow> \<lparr>nm_own = st_display_name r,
                   nm_declared = (case st_profiles r of None \<Rightarrow> [] | Some ps \<Rightarrow> ps),
                   nm_claimed = map_handles (st_handles r),
                   nm_given = (case st_petnames r of None \<Rightarrow> [] | Some ps \<Rightarrow> ps)\<rparr>)"

text \<open>\<open>snapshot\<close>, spread over the record being composed: an empty record is left out.\<close>

definition names_snapshot :: "names \<Rightarrow> 'l stored_session \<Rightarrow> 'l stored_session" where
  "names_snapshot n r =
     r\<lparr>st_display_name := nm_own n,
       st_profiles := (if nm_declared n = [] then None else Some (nm_declared n)),
       st_handles := (if nm_claimed n = [] then None
         else Some (map (\<lambda>(account, p). (account, \<lparr>claim_handle = prof_name p, claim_at = prof_at p\<rparr>))
                (nm_claimed n))),
       st_petnames := (if nm_given n = [] then None else Some (nm_given n))\<rparr>"

text \<open>\<open>clean\<close>: an empty name is no name, and one over the ceiling is refused rather than cut.\<close>

definition clean :: "(jsstr \<Rightarrow> jsstr) \<Rightarrow> jsstr \<Rightarrow> display_name_error + jsstr option" where
  "clean nfc name =
     (let cleaned = sanitize nfc name in
      if cleaned = [] then Inr None
      else case validate_name cleaned of Some e \<Rightarrow> Inl e | None \<Rightarrow> Inr (Some cleaned))"

definition set_mine :: "(jsstr \<Rightarrow> jsstr) \<Rightarrow> jsstr \<Rightarrow> names \<Rightarrow> display_name_error + names" where
  "set_mine nfc name n =
     (case clean nfc name of Inl e \<Rightarrow> Inl e | Inr c \<Rightarrow> Inr (n\<lparr>nm_own := c\<rparr>))"

definition set_petname :: "(jsstr \<Rightarrow> jsstr) \<Rightarrow> account \<Rightarrow> jsstr \<Rightarrow> names \<Rightarrow> display_name_error + names" where
  "set_petname nfc handle name n =
     (case clean nfc name of
        Inl e \<Rightarrow> Inl e
      | Inr None \<Rightarrow> Inr (n\<lparr>nm_given := AList.delete handle (nm_given n)\<rparr>)
      | Inr (Some c) \<Rightarrow> Inr (n\<lparr>nm_given := AList.update handle c (nm_given n)\<rparr>))"

definition replace_petnames :: "(account \<times> jsstr) list \<Rightarrow> names \<Rightarrow> names" where
  "replace_petnames ps n = n\<lparr>nm_given := ps\<rparr>"

definition absorb_name ::
    "(jsstr \<Rightarrow> jsstr) \<Rightarrow> account \<Rightarrow> jsstr \<Rightarrow> int \<Rightarrow> names \<Rightarrow> bool \<times> names" where
  "absorb_name nfc handle said at n =
     (if (case map_of (nm_declared n) handle of Some known \<Rightarrow> prof_at known \<ge> at | None \<Rightarrow> False)
      then (False, n)
      else
        (let name = sanitize nfc said in
         if name \<noteq> [] \<and> validate_name name \<noteq> None then (False, n)
         else if name = [] then (True, n\<lparr>nm_declared := AList.delete handle (nm_declared n)\<rparr>)
         else (True, n\<lparr>nm_declared := AList.update handle \<lparr>prof_name = name, prof_at = at\<rparr> (nm_declared n)\<rparr>)))"

definition handles :: "names \<Rightarrow> (account \<times> jsstr) list" where
  "handles n = map (\<lambda>(account, p). (account, prof_name p)) (nm_claimed n)"

definition absorb_handle ::
    "(jsstr \<Rightarrow> jsstr) \<Rightarrow> (jsstr \<Rightarrow> jsstr) \<Rightarrow> account \<Rightarrow> jsstr \<Rightarrow> int \<Rightarrow> names \<Rightarrow> bool \<times> names" where
  "absorb_handle nfkc lower account said at n =
     (if (case map_of (nm_claimed n) account of Some known \<Rightarrow> prof_at known \<ge> at | None \<Rightarrow> False)
      then (False, n)
      else
        (let handle = normalize nfkc lower said in
         if validate_handle handle \<noteq> None then (False, n)
         else (True, n\<lparr>nm_claimed := AList.update account \<lparr>prof_name = handle, prof_at = at\<rparr> (nm_claimed n)\<rparr>)))"

definition forget_names :: "names \<Rightarrow> names" where
  "forget_names n = no_names"

text \<open>The sources \<open>naming.ts\<close> reads: what the session passes on.\<close>

definition sources_of :: "names \<Rightarrow> name_sources" where
  "sources_of n = \<lparr>src_handles = map_of (handles n), src_petnames = map_of (nm_given n),
     src_profiles = map_option prof_name \<circ> map_of (nm_declared n)\<rparr>"

subsection \<open>The names survive a restart\<close>

lemma map_handles_back:
  "map_handles (Some (map (\<lambda>(a, p). (a, \<lparr>claim_handle = prof_name p, claim_at = prof_at p\<rparr>)) ps)) = ps"
  by (induction ps) (auto simp: map_handles_def)

lemma names_back: "names_hydrate (Some (names_snapshot n r)) = n"
  using map_handles_back [of "nm_claimed n"]
  by (cases n) (simp add: names_hydrate_def names_snapshot_def map_handles_def)

interpretation names: slice names_snapshot "\<lambda>r. names_hydrate (Some r)" "\<lambda>_. True"
  by unfold_locales (simp add: names_back)

subsection \<open>Claims of handles\<close>

definition held_handle :: "names \<Rightarrow> account \<Rightarrow> (int \<times> jsstr) option" where
  "held_handle n account = map_option (\<lambda>p. (prof_at p, prof_name p)) (map_of (nm_claimed n) account)"

definition handle_of_claim ::
    "(jsstr \<Rightarrow> jsstr) \<Rightarrow> (jsstr \<Rightarrow> jsstr) \<Rightarrow> account \<times> jsstr \<times> int \<Rightarrow> (account \<times> int \<times> jsstr) option" where
  "handle_of_claim nfkc lower e =
     (case e of (account, said, at) \<Rightarrow>
        if validate_handle (normalize nfkc lower said) = None
        then Some (account, at, normalize nfkc lower said) else None)"

definition take_claim ::
    "(jsstr \<Rightarrow> jsstr) \<Rightarrow> (jsstr \<Rightarrow> jsstr) \<Rightarrow> account \<times> jsstr \<times> int \<Rightarrow> names \<Rightarrow> names" where
  "take_claim nfkc lower e n = (case e of (account, said, at) \<Rightarrow> snd (absorb_handle nfkc lower account said at n))"

lemma newer_held_handle:
  "newer at (held_handle n a) \<longleftrightarrow> \<not> (case map_of (nm_claimed n) a of Some known \<Rightarrow> prof_at known \<ge> at | None \<Rightarrow> False)"
  by (cases "map_of (nm_claimed n) a") (auto simp: held_handle_def)

interpretation claims: lww "take_claim nfkc lower" "handle_of_claim nfkc lower" held_handle
  for nfkc lower
proof
  fix e :: "account \<times> jsstr \<times> int" and n k
  obtain a said at where e: "e = (a, said, at)" by (cases e) auto
  show "held_handle (take_claim nfkc lower e n) k =
    (case handle_of_claim nfkc lower e of
       Some (k', t, v) \<Rightarrow> if k' = k \<and> newer t (held_handle n k) then Some (t, v) else held_handle n k
     | None \<Rightarrow> held_handle n k)"
    by (auto simp: e take_claim_def handle_of_claim_def absorb_handle_def Let_def newer_held_handle)
      (auto simp: held_handle_def split: option.splits if_splits)
qed

text \<open>Every handle held is one the interface may draw with a sigil.\<close>

definition handles_valid :: "names \<Rightarrow> bool" where
  "handles_valid n \<longleftrightarrow> (\<forall>(account, p)\<in>set (nm_claimed n). validate_handle (prof_name p) = None)"

lemma set_alist_update: "set (AList.update k v xs) \<subseteq> insert (k, v) (set xs)"
  by (induction xs) auto

lemma handles_valid_absorb: "handles_valid n \<Longrightarrow> handles_valid (snd (absorb_handle nfkc lower a said at n))"
  using set_alist_update [of a "\<lparr>prof_name = normalize nfkc lower said, prof_at = at\<rparr>" "nm_claimed n"]
  by (fastforce simp: handles_valid_def absorb_handle_def Let_def split: option.splits)

text \<open>Handle claims may arrive in any order, twice, or forged. Whatever is absorbed, every
  handle held is valid, and the handle held for an account at the end of a run depends only on the
  set of claims made, when no two valid claims of one account share an instant.\<close>

theorem handle_claims_any_order:
  assumes "handles_valid n" and "set es = set fs"
    and "\<forall>t v v'.
      (held_handle n k = Some (t, v) \<or> Some (k, t, v) \<in> handle_of_claim nfkc lower ` set es) \<longrightarrow>
      (held_handle n k = Some (t, v') \<or> Some (k, t, v') \<in> handle_of_claim nfkc lower ` set es) \<longrightarrow> v = v'"
  shows "handles_valid (fold (take_claim nfkc lower) es n) \<and>
    held_handle (fold (take_claim nfkc lower) es n) k = held_handle (fold (take_claim nfkc lower) fs n) k"
proof
  show "handles_valid (fold (take_claim nfkc lower) es n)"
    using assms(1)
    by (induction es arbitrary: n) (auto simp: take_claim_def handles_valid_absorb split: prod.splits)
  show "held_handle (fold (take_claim nfkc lower) es n) k = held_handle (fold (take_claim nfkc lower) fs n) k"
    using assms(2,3) by (intro claims.outcome_order) (simp_all add: claims.no_ties_def)
qed

theorem handle_claims_any_order_witness:
  "held_handle (fold (take_claim (\<lambda>s. s) (\<lambda>s. s)) [(js ''a'', js ''bob'', 2), (js ''a'', js ''carol'', 3)] no_names) (js ''a'') =
   held_handle (fold (take_claim (\<lambda>s. s) (\<lambda>s. s)) [(js ''a'', js ''carol'', 3), (js ''a'', js ''bob'', 2)] no_names) (js ''a'')"
  by (rule handle_claims_any_order [THEN conjunct2])
    (auto simp: handles_valid_def no_names_def held_handle_def handle_of_claim_def)

text \<open>A withdrawn name comes back. Absorbing an empty name deletes the entry and with it the time
  of the withdrawal, so that an older declaration, arriving late from another conversation, is taken
  for news: a name taken off at time 9 is restored by the declaration made at time 5.\<close>

theorem withdrawn_name_returns:
  "(let n = snd (absorb_name (\<lambda>s. s) (js ''a'') (js ''Sam'') 5 no_names);
        n' = snd (absorb_name (\<lambda>s. s) (js ''a'') [] 9 n);
        n'' = snd (absorb_name (\<lambda>s. s) (js ''a'') (js ''Sam'') 5 n')
    in map_of (nm_declared n') (js ''a'') = None \<and>
       map_of (nm_declared n'') (js ''a'') = Some \<lparr>prof_name = js ''Sam'', prof_at = 5\<rparr>)"
  by (simp add: absorb_name_def no_names_def sanitize_def js_def controls_def invisible_def trim_def white_def
      validate_name_def code_points_def max_code_points_def max_bytes_def text_encode_def utf8_scalar_def
      high_surrogate_def low_surrogate_def Let_def)

end
