(* ===== verification/Content.thy ===== *)
theory Content
  imports Utf8
begin

text \<open>
  \<open>content.ts\<close>: the plaintext of an MLS message, one type byte and a layout per type. Every datum
  below is end-to-end encrypted; the bytes come from a member of the group, who may send anything
  at all, so every decoder branch is a value.

  An attachment descriptor travels as JSON. \<open>JSON.stringify\<close> and \<open>JSON.parse\<close> on a descriptor are
  the parameters \<open>stringify\<close> and \<open>parse\<close>; \<open>parse\<close> gives \<open>None\<close> for a text that is no JSON object,
  and otherwise the fields, each \<open>None\<close> when it is absent or of another type, which is what
  \<open>decodeBody\<close> then checks. \<open>now\<close> is \<open>Date.now()\<close>, in milliseconds.
\<close>

subsection \<open>The data\<close>

datatype call_event = CallInvite | CallEnded | CallMissed

datatype membership_event = Joined | Removed | Left

datatype receipt_state = Delivered | Read

record attachment_ref =
  ref_id :: jsstr
  ref_key :: jsstr
  ref_iv :: jsstr
  ref_name :: jsstr
  ref_mime :: jsstr
  ref_size :: nat
  ref_padded :: bool

text \<open>What parsing gives, field by field; \<open>padded\<close> is only ever asked whether it is true.\<close>

record raw_ref =
  raw_id :: "jsstr option"
  raw_key :: "jsstr option"
  raw_iv :: "jsstr option"
  raw_name :: "jsstr option"
  raw_mime :: "jsstr option"
  raw_size :: "nat option"
  raw_padded :: bool

record gossip_head =
  head_size :: nat
  head_root :: bytes

datatype content =
    Text jsstr
  | Attachment attachment_ref
  | Gossip gossip_head
  | PostingKey bytes
  | Receipt receipt_state nat
  | Reaction nat jsstr
  | Reply nat jsstr
  | Profile jsstr int
  | CallMessage call_event jsstr int
  | Membership membership_event jsstr
  | HandleClaim jsstr int
  | Expiry int
  | Signals bytes

record stamped_content =
  stamped_body :: content
  stamped_at :: "int option"

datatype content_error =
    EmptyContent
  | TruncatedTimestamp
  | BadlySizedLogHead
  | BadlySizedPostingKey
  | BadlySizedReceipt
  | MissingMessageReference
  | TruncatedCallEvent
  | UnknownCallEvent
  | BadlySizedExpiry
  | TruncatedMembershipEvent
  | UnknownMembershipEvent
  | TruncatedHandleTimestamp
  | BadlySizedHandle
  | TruncatedSettings
  | OversizedSettings
  | TruncatedProfileTimestamp
  | BadlySizedDisplayName
  | JsonError
  | AttachmentFieldMissing string
  | UnknownContentType u8
  | DisplayNameTooLong
  | HandleTooLong
  | SettingsTooShort
  | SettingsTooLong

subsection \<open>Type bytes and bounds\<close>

definition type_text :: u8 where "type_text = 0"
definition type_attachment :: u8 where "type_attachment = 1"
definition type_gossip :: u8 where "type_gossip = 2"
definition type_posting_key :: u8 where "type_posting_key = 3"
definition type_receipt :: u8 where "type_receipt = 4"
definition type_reaction :: u8 where "type_reaction = 5"
definition type_reply :: u8 where "type_reply = 6"
definition type_stamped :: u8 where "type_stamped = 7"
definition type_profile :: u8 where "type_profile = 8"
definition type_membership :: u8 where "type_membership = 10"
definition type_handle :: u8 where "type_handle = 11"
definition type_signals :: u8 where "type_signals = 12"
definition type_call :: u8 where "type_call = 13"
definition type_expiry :: u8 where "type_expiry = 14"

lemmas type_bytes = type_text_def type_attachment_def type_gossip_def type_posting_key_def
  type_receipt_def type_reaction_def type_reply_def type_stamped_def type_profile_def
  type_membership_def type_handle_def type_signals_def type_call_def type_expiry_def

definition profile_name_max_bytes :: nat where "profile_name_max_bytes = 64"
definition handle_max_bytes :: nat where "handle_max_bytes = 32"
definition sealed_signals_min_bytes :: nat where "sealed_signals_min_bytes = 12 + 16"
definition sealed_signals_max_bytes :: nat where "sealed_signals_max_bytes = 12 + 16 + 128"
definition profile_clock_skew_ms :: int where "profile_clock_skew_ms = 5 * 60 * 1000"

lemmas content_bounds = profile_name_max_bytes_def handle_max_bytes_def
  sealed_signals_min_bytes_def sealed_signals_max_bytes_def profile_clock_skew_ms_def

text \<open>The tables whose index is the encoding.\<close>

definition call_events :: "call_event list" where
  "call_events = [CallInvite, CallEnded, CallMissed]"

definition membership_events :: "membership_event list" where
  "membership_events = [Joined, Removed, Left]"

fun index_of :: "'a \<Rightarrow> 'a list \<Rightarrow> nat" where
  "index_of x [] = 0"
| "index_of x (y # ys) = (if x = y then 0 else Suc (index_of x ys))"

definition nth_of :: "'a list \<Rightarrow> u8 \<Rightarrow> 'a option" where
  "nth_of xs b = (if unat b < length xs then Some (xs ! unat b) else None)"

lemma nth_call_events [simp]: "nth_of call_events (word_of_nat (index_of e call_events)) = Some e"
  by (cases e) (simp_all add: nth_of_def call_events_def)

lemma nth_membership_events [simp]:
  "nth_of membership_events (word_of_nat (index_of e membership_events)) = Some e"
  by (cases e) (simp_all add: nth_of_def membership_events_def)

subsection \<open>Encoding\<close>

definition encode_text :: "jsstr \<Rightarrow> bytes" where
  "encode_text text = type_text # text_encode text"

definition encode_call_message :: "call_event \<Rightarrow> jsstr \<Rightarrow> int \<Rightarrow> bytes" where
  "encode_call_message event call seconds =
     type_call # word_of_nat (index_of event call_events) # set_u32 (max 0 seconds) @
       text_encode call"

definition encode_membership :: "membership_event \<Rightarrow> jsstr \<Rightarrow> bytes" where
  "encode_membership event handle =
     type_membership # word_of_nat (index_of event membership_events) # text_encode handle"

definition encode_expiry :: "int \<Rightarrow> bytes" where
  "encode_expiry seconds = type_expiry # set_u32 seconds"

definition encode_gossip :: "gossip_head \<Rightarrow> bytes" where
  "encode_gossip head = type_gossip # set_u32 (int (head_size head)) @ fixed 32 (head_root head)"

definition encode_receipt :: "receipt_state \<Rightarrow> nat \<Rightarrow> bytes" where
  "encode_receipt state seq =
     type_receipt # (case state of Read \<Rightarrow> 1 | Delivered \<Rightarrow> 0) # set_u64 (int seq)"

definition encode_targeted :: "u8 \<Rightarrow> nat \<Rightarrow> jsstr \<Rightarrow> bytes" where
  "encode_targeted type target text = type # set_u64 (int target) @ text_encode text"

definition encode_posting_key :: "bytes \<Rightarrow> bytes" where
  "encode_posting_key key = type_posting_key # fixed 32 key"

definition encode_profile :: "jsstr \<Rightarrow> int \<Rightarrow> content_error + bytes" where
  "encode_profile name at =
     (let body = text_encode name
      in if length body > profile_name_max_bytes then Inl DisplayNameTooLong
         else Inr (type_profile # set_u64 (max 0 at) @ body))"

definition encode_handle :: "jsstr \<Rightarrow> int \<Rightarrow> content_error + bytes" where
  "encode_handle handle at =
     (let body = text_encode handle
      in if length body > handle_max_bytes then Inl HandleTooLong
         else Inr (type_handle # set_u64 (max 0 at) @ body))"

definition encode_signals :: "bytes \<Rightarrow> content_error + bytes" where
  "encode_signals sealed =
     (if length sealed < sealed_signals_min_bytes then Inl SettingsTooShort
      else if length sealed > sealed_signals_max_bytes then Inl SettingsTooLong
      else Inr (type_signals # sealed))"

definition encode_attachment :: "(attachment_ref \<Rightarrow> jsstr) \<Rightarrow> attachment_ref \<Rightarrow> bytes" where
  "encode_attachment stringify ref = type_attachment # text_encode (stringify ref)"

fun encode_body :: "(attachment_ref \<Rightarrow> jsstr) \<Rightarrow> content \<Rightarrow> content_error + bytes" where
  "encode_body stringify (Text text) = Inr (encode_text text)"
| "encode_body stringify (Attachment ref) = Inr (encode_attachment stringify ref)"
| "encode_body stringify (Gossip head) = Inr (encode_gossip head)"
| "encode_body stringify (PostingKey key) = Inr (encode_posting_key key)"
| "encode_body stringify (Receipt state seq) = Inr (encode_receipt state seq)"
| "encode_body stringify (Reaction target emoji) = Inr (encode_targeted type_reaction target emoji)"
| "encode_body stringify (Reply target text) = Inr (encode_targeted type_reply target text)"
| "encode_body stringify (Profile name at) = encode_profile name at"
| "encode_body stringify (CallMessage event call seconds) =
     Inr (encode_call_message event call seconds)"
| "encode_body stringify (Membership event handle) = Inr (encode_membership event handle)"
| "encode_body stringify (Expiry seconds) = Inr (encode_expiry seconds)"
| "encode_body stringify (HandleClaim handle at) = encode_handle handle at"
| "encode_body stringify (Signals sealed) = encode_signals sealed"

text \<open>Protocol traffic, as against messages.\<close>

fun is_control :: "content \<Rightarrow> bool" where
  "is_control (Gossip _) = True"
| "is_control (PostingKey _) = True"
| "is_control (Receipt _ _) = True"
| "is_control (Profile _ _) = True"
| "is_control (HandleClaim _ _) = True"
| "is_control (Signals _) = True"
| "is_control _ = False"

text \<open>Control traffic is never stamped, even when a time is given.\<close>

definition encode ::
    "(attachment_ref \<Rightarrow> jsstr) \<Rightarrow> content \<Rightarrow> int option \<Rightarrow> content_error + bytes" where
  "encode stringify body sent_at =
     (case encode_body stringify body of
        Inl e \<Rightarrow> Inl e
      | Inr inner \<Rightarrow>
          (case sent_at of
             None \<Rightarrow> Inr inner
           | Some at \<Rightarrow> if is_control body then Inr inner
                        else Inr (type_stamped # set_u64 at @ inner)))"

subsection \<open>Decoding\<close>

text \<open>The clamp on a peer's self-declared clock: past the skew, the moment of receipt.\<close>

definition clamp_at :: "int \<Rightarrow> nat \<Rightarrow> int" where
  "clamp_at now declared =
     (let d = int (js_number declared) in if d > now + profile_clock_skew_ms then now else d)"

definition decode_targeted :: "(nat \<Rightarrow> jsstr \<Rightarrow> content) \<Rightarrow> bytes \<Rightarrow> content_error + content" where
  "decode_targeted c body =
     (if length body < 8 then Inl MissingMessageReference
      else Inr (c (js_number (get_u64 body)) (text_decode (drop 8 body))))"

definition decode_call_message :: "bytes \<Rightarrow> content_error + content" where
  "decode_call_message body =
     (if length body < 5 then Inl TruncatedCallEvent
      else case nth_of call_events (hd body) of
        None \<Rightarrow> Inl UnknownCallEvent
      | Some event \<Rightarrow>
          Inr (CallMessage event (text_decode (drop 5 body)) (int (get_u32 (drop 1 body)))))"

definition decode_membership :: "bytes \<Rightarrow> content_error + content" where
  "decode_membership body =
     (case body of
        [] \<Rightarrow> Inl TruncatedMembershipEvent
      | b # rest \<Rightarrow>
          (case nth_of membership_events b of
             None \<Rightarrow> Inl UnknownMembershipEvent
           | Some event \<Rightarrow> Inr (Membership event (text_decode rest))))"

definition decode_handle :: "int \<Rightarrow> bytes \<Rightarrow> content_error + content" where
  "decode_handle now body =
     (if length body < 8 then Inl TruncatedHandleTimestamp
      else if length (drop 8 body) > handle_max_bytes then Inl BadlySizedHandle
      else Inr (HandleClaim (text_decode (drop 8 body)) (clamp_at now (get_u64 body))))"

definition decode_profile :: "int \<Rightarrow> bytes \<Rightarrow> content_error + content" where
  "decode_profile now body =
     (if length body < 8 then Inl TruncatedProfileTimestamp
      else if length (drop 8 body) > profile_name_max_bytes then Inl BadlySizedDisplayName
      else Inr (Profile (text_decode (drop 8 body)) (clamp_at now (get_u64 body))))"

definition decode_signals :: "bytes \<Rightarrow> content_error + content" where
  "decode_signals body =
     (if length body < sealed_signals_min_bytes then Inl TruncatedSettings
      else if length body > sealed_signals_max_bytes then Inl OversizedSettings
      else Inr (Signals body))"

definition decode_attachment ::
    "(jsstr \<Rightarrow> raw_ref option) \<Rightarrow> bytes \<Rightarrow> content_error + content" where
  "decode_attachment parse body =
     (case parse (text_decode body) of
        None \<Rightarrow> Inl JsonError
      | Some raw \<Rightarrow>
          (case (raw_id raw, raw_key raw, raw_iv raw, raw_name raw, raw_mime raw, raw_size raw) of
             (None, _) \<Rightarrow> Inl (AttachmentFieldMissing ''id'')
           | (_, None, _) \<Rightarrow> Inl (AttachmentFieldMissing ''key'')
           | (_, _, None, _) \<Rightarrow> Inl (AttachmentFieldMissing ''iv'')
           | (_, _, _, None, _) \<Rightarrow> Inl (AttachmentFieldMissing ''name'')
           | (_, _, _, _, None, _) \<Rightarrow> Inl (AttachmentFieldMissing ''mime'')
           | (_, _, _, _, _, None) \<Rightarrow> Inl (AttachmentFieldMissing ''size'')
           | (Some i, Some k, Some v, Some n, Some m, Some z) \<Rightarrow>
               Inr (Attachment \<lparr>ref_id = i, ref_key = k, ref_iv = v, ref_name = n,
                                 ref_mime = m, ref_size = z, ref_padded = raw_padded raw\<rparr>)))"

definition decode_body ::
    "(jsstr \<Rightarrow> raw_ref option) \<Rightarrow> int \<Rightarrow> bytes \<Rightarrow> content_error + content" where
  "decode_body parse now bs =
     (case bs of
        [] \<Rightarrow> Inl EmptyContent
      | t # body \<Rightarrow>
          if t = type_text then Inr (Text (text_decode body))
          else if t = type_gossip then
            (if length body \<noteq> 36 then Inl BadlySizedLogHead
             else Inr (Gossip \<lparr>head_size = get_u32 body, head_root = take 32 (drop 4 body)\<rparr>))
          else if t = type_posting_key then
            (if length body \<noteq> 32 then Inl BadlySizedPostingKey else Inr (PostingKey body))
          else if t = type_receipt then
            (if length body \<noteq> 9 then Inl BadlySizedReceipt
             else Inr (Receipt (if hd body = 1 then Read else Delivered)
                               (js_number (get_u64 (drop 1 body)))))
          else if t = type_reaction then decode_targeted Reaction body
          else if t = type_reply then decode_targeted Reply body
          else if t = type_call then decode_call_message body
          else if t = type_expiry then
            (if length body \<noteq> 4 then Inl BadlySizedExpiry else Inr (Expiry (int (get_u32 body))))
          else if t = type_membership then decode_membership body
          else if t = type_handle then decode_handle now body
          else if t = type_signals then decode_signals body
          else if t = type_profile then decode_profile now body
          else if t = type_attachment then
            decode_attachment parse body
          else Inl (UnknownContentType t))"

text \<open>One level of stamp, never two: a wrapper inside a wrapper is an unknown type.\<close>

definition decode ::
    "(jsstr \<Rightarrow> raw_ref option) \<Rightarrow> int \<Rightarrow> bytes \<Rightarrow> content_error + stamped_content" where
  "decode parse now bs =
     (case bs of
        [] \<Rightarrow> Inl EmptyContent
      | t # rest \<Rightarrow>
          if t = type_stamped then
            (if length bs < 9 then Inl TruncatedTimestamp
             else case decode_body parse now (drop 8 rest) of
                 Inl e \<Rightarrow> Inl e
               | Inr body \<Rightarrow> Inr \<lparr>stamped_body = body,
                                   stamped_at = Some (int (js_number (get_u64 rest)))\<rparr>)
          else case decode_body parse now bs of
                 Inl e \<Rightarrow> Inl e
               | Inr body \<Rightarrow> Inr \<lparr>stamped_body = body, stamped_at = None\<rparr>)"

subsection \<open>What the format can carry\<close>

definition raw_of :: "attachment_ref \<Rightarrow> raw_ref" where
  "raw_of r = \<lparr>raw_id = Some (ref_id r), raw_key = Some (ref_key r), raw_iv = Some (ref_iv r),
     raw_name = Some (ref_name r), raw_mime = Some (ref_mime r), raw_size = Some (ref_size r),
     raw_padded = ref_padded r\<rparr>"

definition json_ok ::
    "(attachment_ref \<Rightarrow> jsstr) \<Rightarrow> (jsstr \<Rightarrow> raw_ref option) \<Rightarrow> attachment_ref \<Rightarrow> bool" where
  "json_ok stringify parse r \<longleftrightarrow>
     plain_text (stringify r) \<and> parse (stringify r) = Some (raw_of r)"

definition stamp_ok :: "int \<Rightarrow> bool" where
  "stamp_ok at \<longleftrightarrow> 0 \<le> at \<and> at < 2 ^ 53"

fun content_ok ::
    "(attachment_ref \<Rightarrow> jsstr) \<Rightarrow> (jsstr \<Rightarrow> raw_ref option) \<Rightarrow> int \<Rightarrow> content \<Rightarrow> bool" where
  "content_ok stringify parse now (Text t) = plain_text t"
| "content_ok stringify parse now (Attachment r) = json_ok stringify parse r"
| "content_ok stringify parse now (Gossip h) = (length (head_root h) = 32 \<and> head_size h < 2 ^ 32)"
| "content_ok stringify parse now (PostingKey k) = (length k = 32)"
| "content_ok stringify parse now (Receipt s n) = (n < 2 ^ 53)"
| "content_ok stringify parse now (Reaction n t) = (n < 2 ^ 53 \<and> plain_text t)"
| "content_ok stringify parse now (Reply n t) = (n < 2 ^ 53 \<and> plain_text t)"
| "content_ok stringify parse now (Profile t at) =
     (plain_text t \<and> length (text_encode t) \<le> 64 \<and> stamp_ok at \<and> at \<le> now + 300000)"
| "content_ok stringify parse now (CallMessage e c n) = (plain_text c \<and> 0 \<le> n \<and> n < 2 ^ 32)"
| "content_ok stringify parse now (Membership e t) = plain_text t"
| "content_ok stringify parse now (HandleClaim t at) =
     (plain_text t \<and> length (text_encode t) \<le> 32 \<and> stamp_ok at \<and> at \<le> now + 300000)"
| "content_ok stringify parse now (Expiry n) = (0 \<le> n \<and> n < 2 ^ 32)"
| "content_ok stringify parse now (Signals b) = (28 \<le> length b \<and> length b \<le> 156)"

lemma get_u64_stamp: "stamp_ok at \<Longrightarrow> get_u64 (set_u64 at @ rest) = nat at"
  unfolding stamp_ok_def by (rule get_set_u64) simp_all

lemma get_u64_nat: "n < 2 ^ 53 \<Longrightarrow> get_u64 (set_u64 (int n) @ rest) = n"
  using get_u64_stamp [of "int n" rest] by (simp add: stamp_ok_def)

lemma get_u32_nat: "n < 2 ^ 32 \<Longrightarrow> get_u32 (set_u32 (int n) @ rest) = n"
  using get_set_u32 [of "int n" rest] by simp

lemma js_number_stamp: "stamp_ok at \<Longrightarrow> int (js_number (nat at)) = at"
  by (subst js_number_exact) (auto simp: stamp_ok_def nat_less_iff)

lemma clamp_at_honest: "stamp_ok at \<Longrightarrow> at \<le> now + 300000 \<Longrightarrow> clamp_at now (nat at) = at"
  by (simp add: clamp_at_def js_number_stamp profile_clock_skew_ms_def)

lemma clamp_at_bound: "clamp_at now d \<le> now + 300000"
  by (simp add: clamp_at_def profile_clock_skew_ms_def Let_def)

subsection \<open>Decoding what was encoded\<close>

lemma decode_encode_targeted:
  "n < 2 ^ 53 \<Longrightarrow> plain_text t \<Longrightarrow>
   decode_targeted c (set_u64 (int n) @ text_encode t) = Inr (c n t)"
  by (simp add: decode_targeted_def get_u64_nat text_decode_encode)

lemma decode_encode_call:
  "plain_text c \<Longrightarrow> 0 \<le> n \<Longrightarrow> n < 2 ^ 32 \<Longrightarrow>
   decode_call_message (word_of_nat (index_of e call_events) # set_u32 n @ text_encode c) =
     Inr (CallMessage e c n)"
  using get_set_u32 [of n "text_encode c"]
  by (simp add: decode_call_message_def text_decode_encode drop_Cons')

lemma decode_encode_profile:
  "content_ok s p now (Profile t at) \<Longrightarrow>
   decode_profile now (set_u64 (max 0 at) @ text_encode t) = Inr (Profile t at)"
  by (simp add: decode_profile_def profile_name_max_bytes_def get_u64_stamp clamp_at_honest
      text_decode_encode max_absorb2 stamp_ok_def [THEN iffD1])

lemma decode_encode_handle:
  "content_ok s p now (HandleClaim t at) \<Longrightarrow>
   decode_handle now (set_u64 (max 0 at) @ text_encode t) = Inr (HandleClaim t at)"
  by (simp add: decode_handle_def handle_max_bytes_def get_u64_stamp clamp_at_honest
      text_decode_encode max_absorb2 stamp_ok_def [THEN iffD1])

lemma decode_encode_attachment:
  "json_ok stringify parse r \<Longrightarrow>
   decode_attachment parse (text_encode (stringify r)) = Inr (Attachment r)"
  by (simp add: decode_attachment_def json_ok_def text_decode_encode raw_of_def)

lemma decode_encode_body:
  "content_ok stringify parse now c \<Longrightarrow>
   \<exists>bs. encode_body stringify c = Inr bs \<and> decode_body parse now bs = Inr c \<and>
     bs \<noteq> [] \<and> hd bs \<noteq> type_stamped"
proof (cases c)
  case (Gossip h)
  assume "content_ok stringify parse now c"
  with Gossip show ?thesis
    by (simp add: encode_gossip_def decode_body_def type_bytes get_u32_nat)
next
  case (Profile t at)
  assume ok: "content_ok stringify parse now c"
  with Profile decode_encode_profile [of stringify parse now t at] show ?thesis
    by (simp add: encode_profile_def decode_body_def type_bytes profile_name_max_bytes_def)
next
  case (HandleClaim t at)
  assume ok: "content_ok stringify parse now c"
  with HandleClaim decode_encode_handle [of stringify parse now t at] show ?thesis
    by (simp add: encode_handle_def decode_body_def type_bytes handle_max_bytes_def)
next
  case (Receipt s n)
  assume "content_ok stringify parse now c"
  with Receipt get_u64_nat [of n "[]"] show ?thesis
    by (cases s) (simp_all add: encode_receipt_def decode_body_def type_bytes)
next
  case (Expiry n)
  assume "content_ok stringify parse now c"
  with Expiry get_set_u32 [of n "[]"] show ?thesis
    by (simp add: encode_expiry_def decode_body_def type_bytes)
qed (simp_all add: encode_text_def encode_attachment_def encode_posting_key_def
    encode_targeted_def encode_call_message_def encode_membership_def encode_signals_def
    decode_body_def decode_membership_def decode_signals_def type_bytes content_bounds
    text_decode_encode decode_encode_targeted decode_encode_call decode_encode_attachment)

lemma decode_encode:
  assumes ok: "content_ok stringify parse now c" and at: "\<forall>at. sent_at = Some at \<longrightarrow> stamp_ok at"
  shows "\<exists>bs. encode stringify c sent_at = Inr bs \<and>
    decode parse now bs = Inr \<lparr>stamped_body = c,
      stamped_at = (if is_control c then None else sent_at)\<rparr>"
proof -
  from decode_encode_body [OF ok] obtain t rest
    where e: "encode_body stringify c = Inr (t # rest)"
      and d: "decode_body parse now (t # rest) = Inr c" "t \<noteq> type_stamped"
    by (metis list.exhaust_sel)
  show ?thesis
  proof (cases "sent_at = None \<or> is_control c")
    case True
    then show ?thesis by (auto simp: encode_def decode_def e d split: option.splits)
  next
    case False
    then obtain a where a: "sent_at = Some a" "stamp_ok a" using at by auto
    then show ?thesis using False
      by (simp add: encode_def decode_def e d get_u64_stamp js_number_stamp)
  qed
qed

text \<open>\<open>encode\<close> as a total function, for the values it never refuses.\<close>

definition encode_message ::
    "(attachment_ref \<Rightarrow> jsstr) \<Rightarrow> stamped_content \<Rightarrow> bytes" where
  "encode_message stringify m =
     (case encode stringify (stamped_body m) (stamped_at m) of Inr bs \<Rightarrow> bs | Inl _ \<Rightarrow> [])"

definition message_ok ::
    "(attachment_ref \<Rightarrow> jsstr) \<Rightarrow> (jsstr \<Rightarrow> raw_ref option) \<Rightarrow> int \<Rightarrow> stamped_content \<Rightarrow> bool" where
  "message_ok stringify parse now m \<longleftrightarrow> content_ok stringify parse now (stamped_body m) \<and>
     (case stamped_at m of None \<Rightarrow> True
      | Some at \<Rightarrow> stamp_ok at \<and> \<not> is_control (stamped_body m))"

lemma decode_encode_message:
  "message_ok stringify parse now m \<Longrightarrow> decode parse now (encode_message stringify m) = Inr m"
  using decode_encode [of stringify parse now "stamped_body m" "stamped_at m"]
  by (auto simp: message_ok_def encode_message_def split: option.splits)

interpretation content: codec "encode_message stringify" "decode parse now"
    "message_ok stringify parse now"
  for stringify parse now
  by unfold_locales (rule decode_encode_message)

lemma decode_body_clamped:
  "decode_body parse now bs = Inr c \<Longrightarrow>
   (\<forall>t at. c = Profile t at \<or> c = HandleClaim t at \<longrightarrow> at \<le> now + 300000)"
  by (auto simp: decode_body_def decode_targeted_def decode_call_message_def decode_membership_def
      decode_handle_def decode_signals_def decode_profile_def decode_attachment_def clamp_at_bound
      split: list.splits if_splits option.splits)

text \<open>C29. The content codec. Any content a conforming sender can express, every one of the
  thirteen kinds, is encoded without error and decoded to the same value, UTF-8 included; the
  declared time comes back on messages and never on control traffic, which \<open>encode\<close> leaves
  unstamped whatever time it is given.\<close>

theorem content_roundtrip:
  assumes "content_ok stringify parse now c"
    and "\<forall>at. sent_at = Some at \<longrightarrow> stamp_ok at"
  shows "\<exists>bs. encode stringify c sent_at = Inr bs \<and>
    decode parse now bs = Inr \<lparr>stamped_body = c,
      stamped_at = (if is_control c then None else sent_at)\<rparr>"
  using assms by (rule decode_encode)

theorem content_roundtrip_witness:
  "\<exists>bs. encode (\<lambda>_. js ''{}'') (Reply 7 (js ''see you'')) (Some 1700000000000) = Inr bs \<and>
    decode (\<lambda>_. None) 1700000000500 bs = Inr \<lparr>stamped_body = Reply 7 (js ''see you''),
      stamped_at = Some 1700000000000\<rparr>"
proof -
  have "ascii (js ''see you'')" by (simp add: ascii_def js_def)
  then have ok: "content_ok (\<lambda>_. js ''{}'') (\<lambda>_. None) 1700000000500 (Reply 7 (js ''see you''))"
    by (simp add: plain_text_ascii)
  show ?thesis using content_roundtrip [OF ok, of "Some 1700000000000"] by (simp add: stamp_ok_def)
qed

text \<open>A peer cannot pin its name or its handle in the future: whatever bytes it sends,
  stamped or not, a profile or a handle that \<open>decode\<close> accepts carries a time at most five minutes
  ahead of the receiver's clock.\<close>

theorem decoded_claims_clamped:
  assumes "decode parse now bs = Inr m"
    and "stamped_body m = Profile t at \<or> stamped_body m = HandleClaim t at"
  shows "at \<le> now + 300000"
  using assms decode_body_clamped
  by (fastforce simp: decode_def split: list.splits if_splits sum.splits)

theorem decoded_claims_clamped_witness:
  "decode (\<lambda>_. None) 1000 (8 # set_u64 99999999999 @ [65]) =
     Inr \<lparr>stamped_body = Profile [65] 1000, stamped_at = None\<rparr> \<and> (1000::int) \<le> 1000 + 300000"
proof -
  have d: "decode (\<lambda>_. None) 1000 (8 # set_u64 99999999999 @ [65]) =
      Inr \<lparr>stamped_body = Profile [65] 1000, stamped_at = None\<rparr>"
    by (simp add: decode_def decode_body_def type_bytes decode_profile_def content_bounds
        get_set_u64 clamp_at_def text_decode_def without_bom_def utf8_scalars.simps(2) units_of_def)
  from decoded_claims_clamped [OF d, of "[65]" 1000] d show ?thesis by simp
qed

text \<open>A wrapper around a wrapper is refused with the unknown type 7, however deep the nesting
  goes: the decoder unwraps once and never recurses on a peer's bytes.\<close>

theorem nested_stamp_refused:
  assumes "length ts = 8"
  shows "decode parse now (type_stamped # ts @ type_stamped # rest) =
    Inl (UnknownContentType type_stamped)"
  using assms by (simp add: decode_def decode_body_def type_bytes)

theorem nested_stamp_refused_witness:
  "decode (\<lambda>_. None) 0 (type_stamped # replicate 8 0 @ type_stamped # [0]) =
    Inl (UnknownContentType type_stamped)"
  by (rule nested_stamp_refused) simp

end
