(* ===== verification/Signals.thy ===== *)
theory Signals
  imports Content Platform
begin

text \<open>
  \<open>signals.ts\<close>: the ephemeral frames, typing indicators and call signalling, sealed under the epoch key
  and relayed without being stored. Opening gives \<open>None\<close> for everything that cannot be read: an older
  epoch, a newer client and a corrupt frame are the same ordinary case. AES-GCM is a parameter.
\<close>

definition type_typing :: u8 where "type_typing = 0"
definition type_call_signal :: u8 where "type_call_signal = 1"
definition typing_ttl_ms :: int where "typing_ttl_ms = 3000"
definition typing_debounce_ms :: int where "typing_debounce_ms = 1500"

datatype call_signal_event = SigRinging | SigAccepted | SigDeclined | SigLeft | SigMuted | SigUnmuted | SigAlive

datatype signal =
    TypingSignal account
  | CallSignal call_signal_event jsstr jsstr account  \<comment> \<open>event, call, device, account\<close>

definition signal_events :: "call_signal_event list" where
  "signal_events = [SigRinging, SigAccepted, SigDeclined, SigLeft, SigMuted, SigUnmuted, SigAlive]"

lemma nth_signal_events [simp]: "nth_of signal_events (word_of_nat (index_of e signal_events)) = Some e"
  by (cases e) (simp_all add: nth_of_def signal_events_def)

definition encode_typing :: "account \<Rightarrow> bytes" where
  "encode_typing account = type_typing # text_encode account"

definition decode_typing :: "bytes \<Rightarrow> signal" where
  "decode_typing body = TypingSignal (text_decode body)"

text \<open>Lengths are stored in one byte each, reduced modulo 256 as an assignment into a \<open>Uint8Array\<close> is.\<close>

definition encode_call :: "call_signal_event \<Rightarrow> jsstr \<Rightarrow> jsstr \<Rightarrow> account \<Rightarrow> bytes" where
  "encode_call event call device account =
     (let c = text_encode call; d = text_encode device; a = text_encode account in
      [type_call_signal, word_of_nat (index_of event signal_events), word_of_nat (length c)] @ c @
      [word_of_nat (length d)] @ d @ a)"

definition decode_call :: "bytes \<Rightarrow> signal option" where
  "decode_call body =
     (if length body < 3 then None
      else case nth_of signal_events (body ! 0) of
        None \<Rightarrow> None
      | Some event \<Rightarrow>
          (let device_at = 2 + unat (body ! 1) in
           if device_at \<ge> length body then None
           else
             (let account_at = device_at + 1 + unat (body ! device_at) in
              if account_at > length body then None
              else Some (CallSignal event
                (text_decode (take (device_at - 2) (drop 2 body)))
                (text_decode (take (account_at - (device_at + 1)) (drop (device_at + 1) body)))
                (text_decode (drop account_at body))))))"

definition encode_signal :: "signal \<Rightarrow> bytes" where
  "encode_signal s = (case s of TypingSignal account \<Rightarrow> encode_typing account
     | CallSignal event call device account \<Rightarrow> encode_call event call device account)"

definition seal_signal :: "(bytes \<Rightarrow> bytes \<Rightarrow> bytes \<Rightarrow> bytes) \<Rightarrow> bytes \<Rightarrow> bytes \<Rightarrow> signal \<Rightarrow> bytes" where
  "seal_signal enc iv key s = seal enc iv key (encode_signal s)"

definition decode_signal :: "bytes \<Rightarrow> signal option" where
  "decode_signal plaintext =
     (case plaintext of
        [] \<Rightarrow> None
      | t # body \<Rightarrow>
          if t = type_typing then Some (decode_typing body)
          else if t = type_call_signal then decode_call body
          else None)"

definition open_signal :: "(bytes \<Rightarrow> bytes \<Rightarrow> bytes \<Rightarrow> bytes option) \<Rightarrow> bytes \<Rightarrow> bytes \<Rightarrow> signal option" where
  "open_signal dec key payload =
     (if length payload < 12 + 16 then None
      else case unseal dec key payload of None \<Rightarrow> None | Some plaintext \<Rightarrow> decode_signal plaintext)"

text \<open>What a frame can carry: plain text, in fields whose length fits the byte in front of them.\<close>

fun signal_ok :: "signal \<Rightarrow> bool" where
  "signal_ok (TypingSignal account) \<longleftrightarrow> plain_text account"
| "signal_ok (CallSignal event call device account) \<longleftrightarrow>
     plain_text call \<and> plain_text device \<and> plain_text account \<and>
     length (text_encode call) < 256 \<and> length (text_encode device) < 256"

lemma unat_len [simp]: "n < 256 \<Longrightarrow> unat (word_of_nat n :: u8) = n"
  by simp

lemma decode_encode_call_signal:
  "signal_ok (CallSignal event call device account) \<Longrightarrow>
     decode_call (drop 1 (encode_call event call device account)) = Some (CallSignal event call device account)"
  by (simp add: decode_call_def encode_call_def Let_def nth_append text_decode_encode)

lemma decode_encode_signal: "signal_ok s \<Longrightarrow> decode_signal (encode_signal s) = Some s"
proof (cases s)
  case (CallSignal event call device account)
  assume "signal_ok s"
  then show ?thesis
    using decode_encode_call_signal [of event call device account]
    by (simp add: CallSignal decode_signal_def encode_signal_def)
      (simp add: encode_call_def Let_def type_typing_def type_call_signal_def)
qed (simp add: decode_signal_def encode_signal_def encode_typing_def decode_typing_def text_decode_encode)

definition read_signal :: "bytes \<Rightarrow> unit + signal" where
  "read_signal b = (case decode_signal b of None \<Rightarrow> Inl () | Some s \<Rightarrow> Inr s)"

interpretation signal: codec encode_signal read_signal signal_ok
  by unfold_locales (simp add: read_signal_def decode_encode_signal)

text \<open>A frame opens as the signal that was sealed, for every signal whose call and device fit one
  length byte, and two different signals never make the same frame.\<close>

theorem signal_roundtrip:
  assumes "aead enc dec" and "length iv = 12" and "signal_ok s" and "signal_ok t"
  shows "open_signal dec key (seal_signal enc iv key s) = Some s \<and>
    (seal_signal enc iv key s = seal_signal enc iv key t \<longleftrightarrow> s = t)"
proof -
  have "open_signal dec key (seal_signal enc iv key x) = Some x" if "signal_ok x" for x
    using that length_seal [OF assms(1,2), of key "encode_signal x"]
    by (simp add: open_signal_def seal_signal_def unseal_seal [OF assms(1,2)] decode_encode_signal)
  with assms(3,4) show ?thesis by (metis option.inject)
qed

theorem signal_roundtrip_witness:
  "open_signal clear_dec [] (seal_signal clear_enc (replicate 12 0) []
     (CallSignal SigDeclined (js ''c1'') (js ''d1'') (js ''bob''))) =
   Some (CallSignal SigDeclined (js ''c1'') (js ''d1'') (js ''bob''))"
proof -
  have a: "ascii (js ''c1'')" "ascii (js ''d1'')" "ascii (js ''bob'')" by (simp_all add: ascii_def js_def)
  then have "signal_ok (CallSignal SigDeclined (js ''c1'') (js ''d1'') (js ''bob''))"
    by (simp add: plain_text_ascii length_text_ascii)
  from signal_roundtrip [OF aead_clear _ this this, of "replicate 12 0" "[]"] show ?thesis by simp
qed

subsection \<open>Who is typing\<close>

record typing =
  ty_account :: account
  ty_at :: int

definition showing :: "typing list \<Rightarrow> account \<Rightarrow> bool \<Rightarrow> account list" where
  "showing ts mine emitting =
     (if \<not> emitting then [] else filter (\<lambda>a. a \<noteq> mine) (uniq (map ty_account ts)))"

definition fresh_typing :: "typing list \<Rightarrow> int \<Rightarrow> typing list" where
  "fresh_typing ts now = filter (\<lambda>e. now - ty_at e < typing_ttl_ms) ts"

definition next_typing_expiry :: "typing list \<Rightarrow> int \<Rightarrow> int option" where
  "next_typing_expiry ts now =
     (if ts = [] then None else Some (max 0 (Min (set (map ty_at ts)) + typing_ttl_ms - now)))"

definition without_account :: "typing list \<Rightarrow> account \<Rightarrow> typing list" where
  "without_account ts account = filter (\<lambda>e. ty_account e \<noteq> account) ts"

text \<open>\<open>Session.absorbSignal\<close> on a typing signal: the setting cuts reception, and our own is ignored.\<close>

definition absorb_typing :: "bool \<Rightarrow> account \<Rightarrow> account \<Rightarrow> int \<Rightarrow> typing list \<Rightarrow> typing list" where
  "absorb_typing emitting mine account now ts =
     (if \<not> emitting \<or> account = mine then ts
      else without_account (fresh_typing ts now) account @ [\<lparr>ty_account = account, ty_at = now\<rparr>])"

text \<open>\<open>Session.notifyTyping\<close>, up to the posting: does it emit, and when did it last?\<close>

definition notify_typing :: "bool \<Rightarrow> bool \<Rightarrow> int option \<Rightarrow> int \<Rightarrow> bool \<times> int option" where
  "notify_typing emitting has_posting_key sent_at now =
     (if \<not> emitting \<or> \<not> has_posting_key then (False, sent_at)
      else case sent_at of
        Some t \<Rightarrow> if now - t < typing_debounce_ms then (False, sent_at) else (True, Some now)
      | None \<Rightarrow> (True, Some now))"

lemma distinct_absorb_typing:
  "distinct (map ty_account ts) \<Longrightarrow> distinct (map ty_account (absorb_typing e m a now ts))"
  by (auto simp: absorb_typing_def without_account_def fresh_typing_def distinct_map_filter inj_on_def
      intro: inj_on_subset)

text \<open>Typing is reciprocal and self-clearing. With the setting off nothing is shown and nothing is
  recorded; our own account is never shown; an account is held at most once; and when the wait that
  \<open>nextExpiry\<close> gives is over, at least one indicator has gone.\<close>

theorem typing_reciprocal:
  assumes "distinct (map ty_account ts)"
  shows "showing ts mine False = [] \<and> absorb_typing False mine a now ts = ts \<and>
    mine \<notin> set (showing ts mine True) \<and>
    distinct (map ty_account (absorb_typing e mine a now ts)) \<and>
    (case next_typing_expiry ts now of
       None \<Rightarrow> ts = []
     | Some wait \<Rightarrow> 0 \<le> wait \<and> length (fresh_typing ts (now + wait)) < length ts)"
proof -
  have "length (fresh_typing ts (now + max 0 (Min (set (map ty_at ts)) + typing_ttl_ms - now))) < length ts"
    if "ts \<noteq> []"
  proof -
    let ?m = "Min (set (map ty_at ts))"
    have "?m \<in> set (map ty_at ts)" using that by (intro Min_in) auto
    then obtain e where e: "e \<in> set ts" "ty_at e = ?m" by auto
    then have "\<not> (now + max 0 (?m + typing_ttl_ms - now) - ty_at e < typing_ttl_ms)" by simp
    with e(1) show ?thesis unfolding fresh_typing_def by (intro length_filter_less)
  qed
  then have w: "case next_typing_expiry ts now of None \<Rightarrow> ts = []
     | Some wait \<Rightarrow> 0 \<le> wait \<and> length (fresh_typing ts (now + wait)) < length ts"
    by (simp add: next_typing_expiry_def)
  have "distinct (map ty_account (absorb_typing e mine a now ts))"
    using assms by (rule distinct_absorb_typing)
  with w show ?thesis by (simp add: showing_def) (simp add: absorb_typing_def)
qed

theorem typing_reciprocal_witness:
  "length (fresh_typing [\<lparr>ty_account = js ''bob'', ty_at = 5\<rparr>] (7 + 2998)) < 1"
  using typing_reciprocal [of "[\<lparr>ty_account = js ''bob'', ty_at = 5\<rparr>]" _ _ 7]
  by (simp add: next_typing_expiry_def typing_ttl_ms_def)

end
