(* ===== verification/Calls.thy ===== *)
theory Calls
  imports Signals
begin

text \<open>
  \<open>session-call.ts\<close>: what a call is, as far as this device is concerned. The methods of \<open>Calls\<close> await the
  server and the media layer, and anything may happen at every \<open>await\<close>: each stretch of code between
  two of them is one function below, from the slice's state to the state and the effects it performs
  on its ports. A method that awaits is split where it awaits, and its continuation takes what the port
  answered. A clock reading is an argument.
\<close>

definition ring_timeout_ms :: int where "ring_timeout_ms = 30000"
definition alive_interval_ms :: int where "alive_interval_ms = 5000"
definition alive_timeout_ms :: int where "alive_timeout_ms = alive_interval_ms * 3"

lemmas call_times = ring_timeout_ms_def alive_interval_ms_def alive_timeout_ms_def

datatype call_phase = Idle | Dialling | Ringing | Incoming | Connected

record call_state =
  cl_phase :: call_phase
  cl_call :: jsstr
  cl_group :: jsstr
  cl_from :: account
  cl_since :: int
  cl_connected_at :: int
  cl_muted :: bool
  cl_peers :: "jsstr list"

definition idle_call :: call_state where
  "idle_call = \<lparr>cl_phase = Idle, cl_call = [], cl_group = [], cl_from = [], cl_since = 0,
     cl_connected_at = 0, cl_muted = False, cl_peers = []\<rparr>"

datatype announcement = AnnounceInvite | AnnounceEnded | AnnounceMissed

datatype call_effect =
    SendSignal jsstr call_signal_event jsstr       \<comment> \<open>group, event, call\<close>
  | Announce jsstr announcement jsstr int          \<comment> \<open>group, what, call, seconds\<close>
  | StateChanged
  | LeaveRoom jsstr
  | MuteRoom jsstr bool
  | RekeyRoom jsstr bytes

text \<open>The private fields of \<open>Calls\<close>. A room is named by what \<open>media.join\<close> returned.\<close>

record calls =
  ca_state :: call_state
  ca_room :: "jsstr option"
  ca_heard :: int
  ca_placed :: bool
  ca_awaited :: nat
  ca_declined :: "account list"

definition no_calls :: calls where
  "no_calls = \<lparr>ca_state = idle_call, ca_room = None, ca_heard = 0, ca_placed = False, ca_awaited = 0,
     ca_declined = []\<rparr>"

definition busy :: "calls \<Rightarrow> bool" where
  "busy c \<longleftrightarrow> cl_phase (ca_state c) \<noteq> Idle"

definition close_call :: "calls \<Rightarrow> call_effect list \<times> calls" where
  "close_call c =
     (StateChanged # (case ca_room c of None \<Rightarrow> [] | Some r \<Rightarrow> [LeaveRoom r]),
      c\<lparr>ca_room := None, ca_placed := False, ca_state := idle_call\<rparr>)"

text \<open>\<open>Math.round(ms / 1000)\<close>, which rounds a half up.\<close>

definition js_round_seconds :: "int \<Rightarrow> int" where
  "js_round_seconds ms = (ms + 500) div 1000"

text \<open>\<open>hang\<close>: the state is cleared before the room is left, and the message that stays in the thread is
  written once it has been left, at time \<open>later\<close>, from what the state was.\<close>

definition hang :: "int \<Rightarrow> calls \<Rightarrow> call_effect list \<times> calls" where
  "hang later c =
     (let s = ca_state c in
      if cl_phase s = Idle then ([], c)
      else
        (let (closing, c') = close_call c;
             trace =
               (if cl_connected_at s \<noteq> 0
                then if cl_peers s \<noteq> [] then []
                     else [Announce (cl_group s) AnnounceEnded (cl_call s)
                             (js_round_seconds (later - cl_connected_at s))]
                else if ca_placed c \<and> (cl_phase s = Dialling \<or> cl_phase s = Ringing)
                then [Announce (cl_group s) AnnounceMissed (cl_call s) 0]
                else [])
         in (SendSignal (cl_group s) (if cl_phase s = Incoming then SigDeclined else SigLeft) (cl_call s) #
               closing @ trace, c')))"

text \<open>\<open>place\<close>: up to the announcement, and from its return to the request for admission.\<close>

definition place :: "jsstr \<Rightarrow> int \<Rightarrow> jsstr \<Rightarrow> account \<Rightarrow> nat \<Rightarrow> calls \<Rightarrow> call_effect list \<times> calls" where
  "place new_id now room_group from awaited c =
     (if busy c then ([], c)
      else ([StateChanged, Announce room_group AnnounceInvite new_id 0],
            c\<lparr>ca_placed := True, ca_awaited := max 1 awaited, ca_declined := [],
              ca_state := idle_call\<lparr>cl_phase := Dialling, cl_call := new_id, cl_group := room_group,
                cl_from := from, cl_since := now\<rparr>\<rparr>))"

definition place_announced :: "jsstr \<Rightarrow> int \<Rightarrow> calls \<Rightarrow> call_effect list \<times> calls" where
  "place_announced call now c =
     (if cl_call (ca_state c) \<noteq> call then ([], c)
      else ([StateChanged],
            c\<lparr>ca_state := (ca_state c)\<lparr>cl_phase := Ringing, cl_since := now\<rparr>, ca_heard := now\<rparr>))"

definition receive_call :: "int \<Rightarrow> jsstr \<Rightarrow> jsstr \<Rightarrow> account \<Rightarrow> calls \<Rightarrow> call_effect list \<times> calls" where
  "receive_call now room_group call from c =
     (if busy c then ([SendSignal room_group SigDeclined call], c)
      else ([SendSignal room_group SigRinging call, StateChanged],
            c\<lparr>ca_placed := False, ca_awaited := 1, ca_declined := [], ca_heard := now,
              ca_state := idle_call\<lparr>cl_phase := Incoming, cl_call := call, cl_group := room_group,
                cl_from := from, cl_since := now\<rparr>\<rparr>))"

text \<open>\<open>accept\<close>, up to the request for admission.\<close>

definition accept_call :: "calls \<Rightarrow> call_effect list \<times> calls" where
  "accept_call c =
     (let s = ca_state c in
      if cl_phase s \<noteq> Incoming then ([], c) else ([SendSignal (cl_group s) SigAccepted (cl_call s)], c))"

text \<open>\<open>observed\<close>: who the media layer says is in the room.\<close>

definition observed :: "int \<Rightarrow> int \<Rightarrow> jsstr \<Rightarrow> jsstr list \<Rightarrow> calls \<Rightarrow> call_effect list \<times> calls" where
  "observed now later call peers c =
     (if cl_call (ca_state c) \<noteq> call then ([], c)
      else
        (let c1 = c\<lparr>ca_heard := now\<rparr>; s = ca_state c in
         if peers \<noteq> [] \<and> cl_connected_at s = 0
         then ([StateChanged],
               c1\<lparr>ca_state := s\<lparr>cl_phase := Connected, cl_since := now, cl_connected_at := now,
                 cl_peers := peers\<rparr>\<rparr>)
         else
           (let c2 = c1\<lparr>ca_state := s\<lparr>cl_peers := peers\<rparr>\<rparr> in
            if peers = [] \<and> cl_phase s = Connected
            then (let (es, c3) = hang later c2 in (StateChanged # es, c3))
            else ([StateChanged], c2))))"

text \<open>\<open>enter\<close>, when the media layer let us in and when anything on the way failed.\<close>

definition entered :: "int \<Rightarrow> int \<Rightarrow> jsstr \<Rightarrow> jsstr \<Rightarrow> jsstr list \<Rightarrow> calls \<Rightarrow> call_effect list \<times> calls" where
  "entered now later call room peers c =
     (if cl_call (ca_state c) \<noteq> call then ([LeaveRoom room], c)
      else observed now later call peers (c\<lparr>ca_room := Some room, ca_heard := now\<rparr>))"

definition enter_failed :: "int \<Rightarrow> calls \<Rightarrow> call_effect list \<times> calls" where
  "enter_failed later c = hang later c"

text \<open>\<open>mute\<close>: the room first, the state when it has answered.\<close>

definition mute_room :: "bool \<Rightarrow> calls \<Rightarrow> call_effect list \<times> calls" where
  "mute_room muted c =
     (if cl_phase (ca_state c) \<noteq> Connected then ([], c)
      else (case ca_room c of None \<Rightarrow> [] | Some r \<Rightarrow> [MuteRoom r muted], c))"

definition room_muted :: "bool \<Rightarrow> calls \<Rightarrow> call_effect list \<times> calls" where
  "room_muted muted c =
     ([SendSignal (cl_group (ca_state c)) (if muted then SigMuted else SigUnmuted) (cl_call (ca_state c)),
       StateChanged],
      c\<lparr>ca_state := (ca_state c)\<lparr>cl_muted := muted\<rparr>\<rparr>)"

definition absorb_call ::
    "int \<Rightarrow> int \<Rightarrow> call_signal_event \<Rightarrow> jsstr \<Rightarrow> jsstr \<Rightarrow> jsstr \<Rightarrow> account \<Rightarrow> calls \<Rightarrow> call_effect list \<times> calls" where
  "absorb_call now later event call device ours account c =
     (if call \<noteq> cl_call (ca_state c) \<or> device = ours then ([], c)
      else
        (let c1 = c\<lparr>ca_heard := now\<rparr> in
         if event \<in> {SigDeclined, SigLeft}
         then if cl_connected_at (ca_state c) \<noteq> 0 then ([], c1)
           else if \<not> ca_placed c
           then if account = cl_from (ca_state c) then hang later c1 else ([], c1)
           else (let c2 = c1\<lparr>ca_declined := (if account \<in> set (ca_declined c) then ca_declined c
                                             else account # ca_declined c)\<rparr>
                 in if length (ca_declined c2) \<ge> ca_awaited c2 then hang later c2 else ([], c2))
         else ([], c1)))"

definition rekey_call :: "bytes \<Rightarrow> calls \<Rightarrow> call_effect list \<times> calls" where
  "rekey_call key c = (case ca_room c of None \<Rightarrow> [] | Some r \<Rightarrow> [RekeyRoom r key], c)"

definition tick_call :: "int \<Rightarrow> int \<Rightarrow> calls \<Rightarrow> call_effect list \<times> calls" where
  "tick_call now later c =
     (let s = ca_state c in
      if cl_phase s = Idle then ([], c)
      else if cl_phase s = Connected then ([SendSignal (cl_group s) SigAlive (cl_call s)], c)
      else if now - cl_since s \<ge> ring_timeout_ms \<or> now - ca_heard c \<ge> alive_timeout_ms then hang later c
      else ([SendSignal (cl_group s) (if cl_phase s = Incoming then SigRinging else SigAlive) (cl_call s)], c))"

subsection \<open>The machine\<close>

text \<open>
  Everything that can happen to the slice, in any order the event loop allows: a continuation may run
  long after the state it belongs to is gone. What the platform guarantees is in the premises: clock
  readings are positive, a new call id is not empty and is no call's now, a call received has an id,
  and the answer to \<open>place\<close>'s announcement arrives once, while its call is still being dialled.
\<close>

inductive call_step :: "calls \<Rightarrow> call_effect list \<Rightarrow> calls \<Rightarrow> bool" where
  step_place: "new \<noteq> [] \<Longrightarrow> call_step c (fst (place new now g from n c)) (snd (place new now g from n c))"
| step_announced: "call \<noteq> [] \<Longrightarrow> (cl_call (ca_state c) = call \<Longrightarrow> cl_phase (ca_state c) = Dialling) \<Longrightarrow>
    call_step c (fst (place_announced call now c)) (snd (place_announced call now c))"
| step_receive: "call \<noteq> [] \<Longrightarrow> call_step c (fst (receive_call now g call from c)) (snd (receive_call now g call from c))"
| step_accept: "call_step c (fst (accept_call c)) (snd (accept_call c))"
| step_entered: "call \<noteq> [] \<Longrightarrow> 0 < now \<Longrightarrow> (cl_call (ca_state c) = call \<Longrightarrow> cl_phase (ca_state c) \<noteq> Dialling) \<Longrightarrow>
    call_step c (fst (entered now later call room peers c)) (snd (entered now later call room peers c))"
| step_failed: "call_step c (fst (enter_failed later c)) (snd (enter_failed later c))"
| step_observed: "call \<noteq> [] \<Longrightarrow> 0 < now \<Longrightarrow> (cl_call (ca_state c) = call \<Longrightarrow> cl_phase (ca_state c) \<noteq> Dialling) \<Longrightarrow>
    call_step c (fst (observed now later call peers c)) (snd (observed now later call peers c))"
| step_hang: "call_step c (fst (hang later c)) (snd (hang later c))"
| step_mute: "call_step c (fst (mute_room m c)) (snd (mute_room m c))"
| step_muted: "call_step c (fst (room_muted m c)) (snd (room_muted m c))"
| step_absorb: "call_step c (fst (absorb_call now later e call d ours a c)) (snd (absorb_call now later e call d ours a c))"
| step_tick: "call_step c (fst (tick_call now later c)) (snd (tick_call now later c))"
| step_rekey: "call_step c (fst (rekey_call key c)) (snd (rekey_call key c))"

inductive call_reachable :: "call_effect list \<Rightarrow> calls \<Rightarrow> bool" where
  reach_start: "call_reachable [] no_calls"
| reach_step: "call_reachable log c \<Longrightarrow> call_step c es c' \<Longrightarrow> call_reachable (log @ es) c'"

inductive_cases call_stepE: "call_step c es c'"

text \<open>What holds between two events.\<close>

definition call_inv :: "calls \<Rightarrow> bool" where
  "call_inv c \<longleftrightarrow>
     (cl_phase (ca_state c) = Connected \<longleftrightarrow> cl_connected_at (ca_state c) \<noteq> 0) \<and>
     (cl_phase (ca_state c) = Idle \<longleftrightarrow> cl_call (ca_state c) = []) \<and>
     (cl_phase (ca_state c) = Idle \<longrightarrow> ca_room c = None \<and> \<not> ca_placed c) \<and>
     (cl_phase (ca_state c) = Dialling \<longrightarrow> ca_room c = None) \<and>
     (cl_phase (ca_state c) \<in> {Dialling, Ringing} \<longrightarrow> ca_placed c) \<and>
     (cl_phase (ca_state c) = Incoming \<longrightarrow> \<not> ca_placed c) \<and>
     (cl_phase (ca_state c) = Connected \<longrightarrow> cl_peers (ca_state c) \<noteq> []) \<and>
     (cl_phase (ca_state c) \<noteq> Connected \<longrightarrow> cl_peers (ca_state c) = [])"

lemma hang_idle: "cl_phase (ca_state (snd (hang later c))) = Idle"
  by (simp add: hang_def close_call_def Let_def idle_call_def)

lemma hang_inv: "call_inv c \<Longrightarrow> call_inv (snd (hang later c))"
  by (auto simp: hang_def close_call_def Let_def idle_call_def call_inv_def)

lemma busy_iff: "busy c \<longleftrightarrow> cl_phase (ca_state c) \<noteq> Idle"
  by (simp add: busy_def)

lemma observed_inv:
  assumes "call_inv c" and "call \<noteq> []" and "0 < now"
    and "cl_call (ca_state c) = call \<Longrightarrow> cl_phase (ca_state c) \<noteq> Dialling"
  shows "call_inv (snd (observed now later call peers c))"
proof (cases "cl_call (ca_state c) = call \<and> \<not> (peers \<noteq> [] \<and> cl_connected_at (ca_state c) = 0) \<and>
    peers = [] \<and> cl_phase (ca_state c) = Connected")
  case True
  then show ?thesis
    using assms(1)
    by (auto simp: observed_def Let_def case_prod_beta hang_def close_call_def idle_call_def call_inv_def)
next
  case False
  then show ?thesis using assms by (auto simp: observed_def Let_def call_inv_def)
qed

lemma absorb_inv: "call_inv c \<Longrightarrow> call_inv (snd (absorb_call now later e call d ours a c))"
proof -
  assume inv: "call_inv c"
  then have "call_inv (c\<lparr>ca_heard := now, ca_declined := ds\<rparr>)" "call_inv (c\<lparr>ca_heard := now\<rparr>)" for ds
    by (simp_all add: call_inv_def)
  with inv hang_inv show ?thesis by (simp add: absorb_call_def Let_def)
qed

lemma call_step_inv: "call_step c es c' \<Longrightarrow> call_inv c \<Longrightarrow> call_inv c'"
proof (induction rule: call_step.induct)
  case (step_place new c now g frm n)
  then show ?case by (auto simp: place_def busy_def call_inv_def idle_call_def)
next
  case (step_announced call c now)
  then show ?case by (auto simp: place_announced_def call_inv_def)
next
  case (step_receive call c now g frm)
  then show ?case by (auto simp: receive_call_def busy_def call_inv_def idle_call_def)
next
  case (step_entered call now c later room peers)
  show ?case
  proof (cases "cl_call (ca_state c) = call")
    case True
    have "call_inv (c\<lparr>ca_room := Some room, ca_heard := now\<rparr>)"
      using step_entered True by (auto simp: call_inv_def)
    then show ?thesis
      using step_entered True by (auto simp: entered_def intro!: observed_inv)
  qed (use step_entered in \<open>simp add: entered_def\<close>)
next
  case (step_tick c now later)
  then show ?case by (simp add: tick_call_def Let_def hang_inv)
next
  case (step_accept c)
  then show ?case by (simp add: accept_call_def Let_def)
next
  case (step_failed later c)
  then show ?case by (simp add: enter_failed_def hang_inv)
next
  case (step_observed call now c later peers)
  then show ?case by (intro observed_inv)
next
  case (step_hang later c)
  then show ?case by (simp add: hang_inv)
next
  case (step_mute m c)
  then show ?case by (simp add: mute_room_def)
next
  case (step_muted m c)
  then show ?case by (simp add: room_muted_def call_inv_def)
next
  case (step_absorb now later e call d ours a c)
  then show ?case by (simp add: absorb_inv)
next
  case (step_rekey key c)
  then show ?case by (simp add: rekey_call_def)
qed

lemma call_reachable_inv: "call_reachable log c \<Longrightarrow> call_inv c"
  by (induction rule: call_reachable.induct)
    (simp add: call_inv_def no_calls_def idle_call_def, rule call_step_inv)


text \<open>The runs the witnesses and the counterexamples below are made of.\<close>

definition run_calls :: "(calls \<Rightarrow> call_effect list \<times> calls) list \<Rightarrow> calls \<Rightarrow> call_effect list \<times> calls" where
  "run_calls steps c = fold (\<lambda>step (log, c). let (es, c') = step c in (log @ es, c')) steps ([], c)"

lemmas call_defs = run_calls_def place_def busy_def no_calls_def idle_call_def place_announced_def
  receive_call_def accept_call_def entered_def observed_def hang_def close_call_def enter_failed_def
  absorb_call_def tick_call_def room_muted_def mute_room_def js_round_seconds_def call_times


subsection \<open>Refusals\<close>

text \<open>A run of refusals by the accounts listed, on the caller's device.\<close>

definition refusals :: "jsstr \<Rightarrow> (int \<times> account \<times> jsstr) list \<Rightarrow> calls \<Rightarrow> calls" where
  "refusals call rs c =
     fold (\<lambda>(now, account, device) c. snd (absorb_call now now SigDeclined call device [] account c)) rs c"

lemma refusals_waiting:
  assumes "cl_call (ca_state c) = call" and "call \<noteq> []" and "cl_connected_at (ca_state c) = 0"
    and "ca_placed c" and "cl_phase (ca_state c) \<noteq> Idle" and "distinct (ca_declined c)"
    and "length (ca_declined c) < ca_awaited c" and "\<forall>(n, a, d)\<in>set rs. d \<noteq> []"
  shows "cl_phase (ca_state (refusals call rs c)) = Idle \<longleftrightarrow>
    ca_awaited c \<le> card (set (ca_declined c) \<union> (\<lambda>(n, a, d). a) ` set rs)"
  using assms
proof (induction rs arbitrary: c)
  case Nil
  then show ?case by (simp add: refusals_def distinct_card)
next
  case (Cons r rs)
  obtain now a d where r: "r = (now, a, d)" by (cases r) auto
  let ?ds = "if a \<in> set (ca_declined c) then ca_declined c else a # ca_declined c"
  let ?c = "c\<lparr>ca_heard := now, ca_declined := ?ds\<rparr>"
  have step: "snd (absorb_call now now SigDeclined call d [] a c) =
      (if length ?ds \<ge> ca_awaited c then snd (hang now ?c) else ?c)"
    using Cons.prems by (auto simp: absorb_call_def Let_def r)
  have d: "distinct ?ds" "set ?ds = insert a (set (ca_declined c))"
    using Cons.prems(6) by auto
  show ?case
  proof (cases "length ?ds \<ge> ca_awaited c")
    case True
    have idle: "cl_phase (ca_state (refusals call rs x)) = Idle" if "cl_phase (ca_state x) = Idle" "cl_call (ca_state x) = []" for x
    proof -
      have "refusals call rs x = x"
        using that(2) Cons.prems(2) by (induction rs) (auto simp: refusals_def absorb_call_def)
      with that show ?thesis by simp
    qed
    have "cl_call (ca_state (snd (hang now ?c))) = []"
      using Cons.prems(5) by (simp add: hang_def close_call_def Let_def idle_call_def)
    then have "cl_phase (ca_state (refusals call (r # rs) c)) = Idle"
      using True idle [OF hang_idle] step by (simp add: refusals_def r)
    moreover have "ca_awaited c \<le> card (set ?ds)" using True d(1) by (simp only: distinct_card)
    then have "ca_awaited c \<le> card (set (ca_declined c) \<union> (\<lambda>(n, a, d). a) ` set (r # rs))"
      unfolding d(2) r by (rule order_trans) (auto intro: card_mono)
    ultimately show ?thesis by simp
  next
    case False
    then have "refusals call (r # rs) c = refusals call rs ?c" using step by (simp add: refusals_def r)
    moreover have "cl_phase (ca_state (refusals call rs ?c)) = Idle \<longleftrightarrow>
        ca_awaited ?c \<le> card (set (ca_declined ?c) \<union> (\<lambda>(n, a, d). a) ` set rs)"
      using Cons.prems False d(1) by (intro Cons.IH) (auto simp: r)
    ultimately show ?thesis using d(2) by (simp add: r)
  qed
qed

text \<open>A group call ends on refusals only when enough different accounts have refused. The caller's
  device, waiting on the accounts it rang, hangs up on a run of refusals exactly when the number of
  distinct accounts among them reaches the number awaited: a repeated frame and a second device of one
  account do not count twice.\<close>

theorem refusals_count_accounts:
  assumes "cl_call (ca_state c) = call" and "call \<noteq> []" and "cl_connected_at (ca_state c) = 0"
    and "ca_placed c" and "cl_phase (ca_state c) \<noteq> Idle" and "ca_declined c = []" and "0 < ca_awaited c"
    and "\<forall>(n, a, d)\<in>set rs. d \<noteq> []"
  shows "cl_phase (ca_state (refusals call rs c)) = Idle \<longleftrightarrow>
    ca_awaited c \<le> card ((\<lambda>(n, a, d). a) ` set rs)"
  using refusals_waiting [OF assms(1-5) _ _ assms(8)] assms(6,7) by simp

theorem refusals_count_accounts_witness:
  "(let c = snd (place (js ''c1'') 5 (js ''g'') (js ''me'') 2 no_calls)
    in cl_phase (ca_state (refusals (js ''c1'') [(6, js ''bob'', js ''d1''), (7, js ''bob'', js ''d2'')] c)) \<noteq> Idle)"
proof -
  let ?c = "snd (place (js ''c1'') 5 (js ''g'') (js ''me'') 2 no_calls)"
  have "cl_phase (ca_state (refusals (js ''c1'') [(6, js ''bob'', js ''d1''), (7, js ''bob'', js ''d2'')] ?c)) = Idle \<longleftrightarrow>
      ca_awaited ?c \<le> card ((\<lambda>(n, a, d). a) ` set [(6::int, js ''bob'', js ''d1''), (7, js ''bob'', js ''d2'')])"
    by (rule refusals_count_accounts) (simp_all add: call_defs js_def)
  then show ?thesis by (simp add: call_defs)
qed

subsection \<open>How a call ends\<close>

text \<open>Hanging up leaves at most one line in the thread, and the right device writes it: that the
  call was missed, on the device that placed it and never got an answer, and nothing otherwise, since
  somebody is still in a connected call and will write how long it lasted when the room empties under
  them. Whatever it was, the slice is idle, the other side is told, and the room is left.\<close>

theorem hang_leaves_one_line:
  assumes "call_inv c" and "busy c"
  shows "(let (es, c') = hang later c; s = ca_state c in
    \<not> busy c' \<and> ca_room c' = None \<and>
    SendSignal (cl_group s) (if cl_phase s = Incoming then SigDeclined else SigLeft) (cl_call s) \<in> set es \<and>
    (\<forall>r. ca_room c = Some r \<longrightarrow> LeaveRoom r \<in> set es) \<and>
    [e \<leftarrow> es. \<exists>g k i n. e = Announce g k i n] =
      (if cl_phase s \<in> {Dialling, Ringing} then [Announce (cl_group s) AnnounceMissed (cl_call s) 0] else []))"
proof -
  have "cl_phase (ca_state c) = Connected \<longleftrightarrow> cl_connected_at (ca_state c) \<noteq> 0"
    "cl_phase (ca_state c) = Connected \<longrightarrow> cl_peers (ca_state c) \<noteq> []"
    "cl_phase (ca_state c) \<in> {Dialling, Ringing} \<longleftrightarrow> ca_placed c \<and> cl_connected_at (ca_state c) = 0"
    using assms by (cases "cl_phase (ca_state c)"; auto simp: call_inv_def busy_def)+
  then show ?thesis
    using assms(2)
    by (cases "cl_phase (ca_state c)")
      (auto simp: hang_def close_call_def Let_def busy_def idle_call_def split: option.splits)
qed

theorem hang_leaves_one_line_witness:
  "(let c = snd (place (js ''c1'') 5 (js ''g'') (js ''me'') 2 no_calls)
    in [e \<leftarrow> fst (hang 9 c). \<exists>g k i n. e = Announce g k i n] = [Announce (js ''g'') AnnounceMissed (js ''c1'') 0])"
proof -
  let ?c = "snd (place (js ''c1'') 5 (js ''g'') (js ''me'') 2 no_calls)"
  have "call_inv ?c" "busy ?c" by (simp_all add: call_defs call_inv_def js_def)
  from hang_leaves_one_line [OF this, of 9]
  show ?thesis by (simp add: case_prod_beta Let_def) (simp add: call_defs)
qed

text \<open>A ring ends, a conversation does not. At either end, a tick thirty seconds after the ring
  began, or fifteen after the last thing heard, ends a call nobody is connected to; no tick, no refusal
  and no second call touches a connected one, which ends when the media layer reports the room empty,
  and is then written down with its length.\<close>

theorem rings_end_and_calls_do_not:
  assumes "call_inv c" and "busy c"
  shows "(cl_phase (ca_state c) \<noteq> Connected \<and>
      (now \<ge> cl_since (ca_state c) + ring_timeout_ms \<or> now \<ge> ca_heard c + alive_timeout_ms) \<longrightarrow>
        \<not> busy (snd (tick_call now later c))) \<and>
    (cl_phase (ca_state c) = Connected \<longrightarrow>
      ca_state (snd (tick_call now later c)) = ca_state c \<and>
      ca_state (snd (absorb_call now later e call d ours a c)) = ca_state c \<and>
      receive_call now g other f c = ([SendSignal g SigDeclined other], c) \<and>
      place other now g f n c = ([], c) \<and>
      (let (es, c') = observed now later (cl_call (ca_state c)) [] c
       in \<not> busy c' \<and> Announce (cl_group (ca_state c)) AnnounceEnded (cl_call (ca_state c))
            (js_round_seconds (later - cl_connected_at (ca_state c))) \<in> set es))"
proof (intro conjI impI)
  assume "cl_phase (ca_state c) \<noteq> Connected \<and>
      (now \<ge> cl_since (ca_state c) + ring_timeout_ms \<or> now \<ge> ca_heard c + alive_timeout_ms)"
  then show "\<not> busy (snd (tick_call now later c))"
    using assms(2) hang_idle [of later c] by (auto simp: tick_call_def Let_def busy_def)
next
  assume conn: "cl_phase (ca_state c) = Connected"
  then have at: "cl_connected_at (ca_state c) \<noteq> 0" using assms(1) by (simp add: call_inv_def)
  show "ca_state (snd (tick_call now later c)) = ca_state c" using conn by (simp add: tick_call_def Let_def)
  show "ca_state (snd (absorb_call now later e call d ours a c)) = ca_state c"
    using at by (simp add: absorb_call_def Let_def)
  show "receive_call now g other f c = ([SendSignal g SigDeclined other], c)" "place other now g f n c = ([], c)"
    using assms(2) by (simp_all add: receive_call_def place_def)
  show "let (es, c') = observed now later (cl_call (ca_state c)) [] c
       in \<not> busy c' \<and> Announce (cl_group (ca_state c)) AnnounceEnded (cl_call (ca_state c))
            (js_round_seconds (later - cl_connected_at (ca_state c))) \<in> set es"
    using conn at by (simp add: observed_def hang_def close_call_def Let_def busy_def idle_call_def)
qed

theorem rings_end_and_calls_do_not_witness:
  "\<not> busy (snd (tick_call 30005 30005 (snd (receive_call 5 (js ''g'') (js ''c1'') (js ''bob'') no_calls))))"
proof -
  let ?c = "snd (receive_call 5 (js ''g'') (js ''c1'') (js ''bob'') no_calls)"
  have "call_inv ?c" "busy ?c" by (simp_all add: call_defs call_inv_def js_def)
  from rings_end_and_calls_do_not [OF this, of 30005] show ?thesis by (simp add: call_defs)
qed

text \<open>Four interleavings the slice does not survive. A tick that falls while the invitation is being
  announced sees a heartbeat that was never set and hangs up at once. A failed admission of a call
  already given up on ends whatever call this device is in by then. Accepting twice before the room
  answers joins twice, and the first room is never left. A mute whose room answers after the call has
  ended is signalled to no group.\<close>

theorem call_interleavings:
  "(let (es, c) = run_calls
        [place (js ''c1'') 100000 (js ''g'') (js ''me'') 1, tick_call 100001 100001] no_calls
    in \<not> busy c \<and> Announce (js ''g'') AnnounceMissed (js ''c1'') 0 \<in> set es) \<and>
   (let (es, c) = run_calls
        [place (js ''c1'') 100000 (js ''g'') (js ''me'') 1, place_announced (js ''c1'') 100100,
         hang 100200, receive_call 100300 (js ''h'') (js ''c2'') (js ''bob''),
         entered 100350 100350 (js ''c2'') (js ''room'') [js ''bob''], enter_failed 100400] no_calls
    in \<not> busy c \<and> SendSignal (js ''h'') SigLeft (js ''c2'') \<in> set es) \<and>
   (let (es, c) = run_calls
        [receive_call 100000 (js ''g'') (js ''c1'') (js ''bob''), accept_call, accept_call,
         entered 100100 100100 (js ''c1'') (js ''r1'') [js ''bob''],
         entered 100200 100200 (js ''c1'') (js ''r2'') [js ''bob''], hang 100300] no_calls
    in LeaveRoom (js ''r2'') \<in> set es \<and> LeaveRoom (js ''r1'') \<notin> set es \<and> ca_room c = None) \<and>
   (let (es, c) = run_calls
        [receive_call 100000 (js ''g'') (js ''c1'') (js ''bob''), accept_call,
         entered 100100 100100 (js ''c1'') (js ''r1'') [js ''bob''], mute_room True, hang 100200,
         room_muted True] no_calls
    in SendSignal [] SigMuted [] \<in> set es \<and> \<not> busy c)"
  by (simp add: call_defs)

end
