(* ===== verification/Keys.thy ===== *)
theory Keys
  imports Platform
begin

text \<open>
  \<open>keys.ts\<close>: the two text forms of bytes that the client stores and sends, base 64 (the platform's
  \<open>btoa\<close> and \<open>atob\<close>, written out) and hexadecimal, and the sealing of the state before it is
  persisted. The WebCrypto calls that make and export keys are not modelled.
\<close>

subsection \<open>Base 64\<close>

definition b64_char :: "nat \<Rightarrow> nat" where
  "b64_char n = (if n < 26 then 65 + n else if n < 52 then 71 + n else if n < 62 then n - 4
                 else if n = 62 then 43 else 47)"

definition b64_value :: "nat \<Rightarrow> nat option" where
  "b64_value c =
     (if 65 \<le> c \<and> c \<le> 90 then Some (c - 65)
      else if 97 \<le> c \<and> c \<le> 122 then Some (c - 71)
      else if 48 \<le> c \<and> c \<le> 57 then Some (c + 4)
      else if c = 43 then Some 62
      else if c = 47 then Some 63
      else None)"

fun btoa :: "nat list \<Rightarrow> nat list" where
  "btoa [] = []"
| "btoa [a] = [b64_char (a div 4), b64_char (a mod 4 * 16), 61, 61]"
| "btoa [a, b] = [b64_char (a div 4), b64_char (a mod 4 * 16 + b div 16), b64_char (b mod 16 * 4), 61]"
| "btoa (a # b # c # rest) =
     b64_char (a div 4) # b64_char (a mod 4 * 16 + b div 16) # b64_char (b mod 16 * 4 + c div 64) #
     b64_char (c mod 64) # btoa rest"

text \<open>\<open>atob\<close> is forgiving: it drops ASCII whitespace, then at most two padding signs of a text whose
  length is a multiple of four, and refuses any other character and a length that is 1 modulo 4.\<close>

fun strip_padding :: "nat list \<Rightarrow> nat list" where
  "strip_padding cs =
     (if length cs mod 4 = 0 \<and> cs \<noteq> [] \<and> last cs = 61
      then (let ds = butlast cs in if ds \<noteq> [] \<and> last ds = 61 then butlast ds else ds)
      else cs)"

fun sextets :: "nat list \<Rightarrow> nat list option" where
  "sextets [] = Some []"
| "sextets [v] = None"
| "sextets [v, w] = Some [v * 4 + w div 16]"
| "sextets [v, w, x] = Some [v * 4 + w div 16, w mod 16 * 16 + x div 4]"
| "sextets (v # w # x # y # rest) =
     (case sextets rest of None \<Rightarrow> None
      | Some bs \<Rightarrow> Some ((v * 4 + w div 16) # (w mod 16 * 16 + x div 4) # (x mod 4 * 64 + y) # bs))"

definition atob :: "nat list \<Rightarrow> nat list option" where
  "atob s =
     (let cs = strip_padding (filter (\<lambda>c. c \<notin> {9, 10, 12, 13, 32}) s); vs = map b64_value cs
      in if None \<in> set vs then None else sextets (map the vs))"

definition to_base64 :: "bytes \<Rightarrow> jsstr" where
  "to_base64 bs = map word_of_nat (btoa (map unat bs))"

datatype base64_error = InvalidCharacter

definition from_base64 :: "jsstr \<Rightarrow> base64_error + bytes" where
  "from_base64 s = (case atob (map unat s) of
     None \<Rightarrow> Inl InvalidCharacter | Some bs \<Rightarrow> Inr (map word_of_nat bs))"

lemma b64_value_char [simp]: "n < 64 \<Longrightarrow> b64_value (b64_char n) = Some n"
  by (auto simp: b64_value_def b64_char_def)

lemma b64_char_plain [simp]:
  "n < 64 \<Longrightarrow> b64_char n \<noteq> 61 \<and> b64_char n \<noteq> 9 \<and> b64_char n \<noteq> 10 \<and> b64_char n \<noteq> 12 \<and>
     b64_char n \<noteq> 13 \<and> b64_char n \<noteq> 32 \<and> b64_char n < 128"
  by (auto simp: b64_char_def)

lemma btoa_length [simp]: "length (btoa bs) mod 4 = 0"
  by (induction bs rule: btoa.induct) simp_all

text \<open>The characters before the padding, of a byte list.\<close>

fun body64 :: "nat list \<Rightarrow> nat list" where
  "body64 [] = []"
| "body64 [a] = [a div 4, a mod 4 * 16]"
| "body64 [a, b] = [a div 4, a mod 4 * 16 + b div 16, b mod 16 * 4]"
| "body64 (a # b # c # rest) =
     a div 4 # (a mod 4 * 16 + b div 16) # (b mod 16 * 4 + c div 64) # c mod 64 # body64 rest"

lemma sextet_bound:
  "(a::nat) < 256 \<Longrightarrow> a div 4 < 64"
  "(b::nat) < 256 \<Longrightarrow> a mod 4 * 16 + b div 16 < 64"
  "(c::nat) < 256 \<Longrightarrow> b mod 16 * 4 + c div 64 < 64"
proof -
  assume "a < 256" then show "a div 4 < 64" by simp
next
  assume "b < 256"
  then have "b div 16 < 16" by simp
  moreover have "a mod 4 < 4" by simp
  ultimately show "a mod 4 * 16 + b div 16 < 64" by linarith
next
  assume "c < 256"
  then have "c div 64 < 4" by simp
  moreover have "b mod 16 < 16" by simp
  ultimately show "b mod 16 * 4 + c div 64 < 64" by linarith
qed

lemma body64_bound: "\<forall>b\<in>set bs. b < 256 \<Longrightarrow> \<forall>v\<in>set (body64 bs). v < 64"
  by (induction bs rule: body64.induct) (auto simp: sextet_bound)

lemma btoa_body: "\<exists>p. btoa bs = map b64_char (body64 bs) @ p \<and> p \<in> {[], [61], [61, 61]}"
  by (induction bs rule: btoa.induct) auto

lemma sextets_body: "\<forall>b\<in>set bs. b < 256 \<Longrightarrow> sextets (body64 bs) = Some bs"
proof (induction bs rule: body64.induct)
  case (4 a b c rest)
  then have "a < 256" "b < 256" "c < 256" by simp_all
  moreover have "sextets (body64 rest) = Some rest" using 4 by simp
  ultimately show ?case by simp
qed auto

lemma strip_body:
  assumes "\<forall>v\<in>set vs. v < 64" and "p \<in> {[], [61], [61, 61]}" and "length (map b64_char vs @ p) mod 4 = 0"
  shows "strip_padding (map b64_char vs @ p) = map b64_char vs"
proof -
  have "vs = [] \<or> last (map b64_char vs) \<noteq> 61"
    using assms(1) by (cases vs rule: rev_cases) auto
  with assms(2,3) show ?thesis by (auto simp: butlast_append)
qed

lemma atob_btoa: "\<forall>b\<in>set bs. b < 256 \<Longrightarrow> atob (btoa bs) = Some bs"
proof -
  assume b: "\<forall>b\<in>set bs. b < 256"
  note v = body64_bound [OF b]
  obtain p where p: "btoa bs = map b64_char (body64 bs) @ p" "p \<in> {[], [61], [61, 61]}"
    using btoa_body by blast
  have "filter (\<lambda>c. c \<notin> {9, 10, 12, 13, 32}) (btoa bs) = btoa bs"
    using v p by (intro filter_True) auto
  moreover have "strip_padding (btoa bs) = map b64_char (body64 bs)"
    unfolding p(1) using p btoa_length [of bs] by (intro strip_body [OF v p(2)]) simp
  moreover have "map b64_value (map b64_char (body64 bs)) = map Some (body64 bs)"
    using v by simp
  ultimately show ?thesis
    using sextets_body [OF b] by (simp only: atob_def Let_def) (simp add: comp_def)
qed

lemma btoa_ascii: "\<forall>b\<in>set bs. b < 256 \<Longrightarrow> \<forall>c\<in>set (btoa bs). c < 128"
  using btoa_body [of bs] body64_bound [of bs] by fastforce

lemma from_to_base64: "from_base64 (to_base64 bs) = Inr bs"
proof -
  have b: "\<forall>b\<in>set (map unat bs). b < 256" using unsigned_less [of _, where 'a = nat and 'b = 8] by auto
  have "map (unat \<circ> (word_of_nat :: nat \<Rightarrow> 16 word)) (btoa (map unat bs)) = btoa (map unat bs)"
    using btoa_ascii [OF b] by (intro map_idI) (auto simp: unat_of_nat)
  then show ?thesis using atob_btoa [OF b] by (simp add: from_base64_def to_base64_def comp_def)
qed

interpretation base64: codec to_base64 from_base64 "\<lambda>_. True"
  by unfold_locales (rule from_to_base64)

subsection \<open>Hexadecimal\<close>

text \<open>\<open>Number.parseInt(text, 16)\<close>: leading whitespace, a sign and a \<open>0x\<close> are skipped, then the longest
  run of digits is read; \<open>None\<close> is \<open>NaN\<close>.\<close>

definition hex_value :: "16 word \<Rightarrow> nat option" where
  "hex_value u =
     (let n = unat u in
      if 48 \<le> n \<and> n \<le> 57 then Some (n - 48)
      else if 97 \<le> n \<and> n \<le> 102 then Some (n - 87)
      else if 65 \<le> n \<and> n \<le> 70 then Some (n - 55)
      else None)"

definition strip_0x :: "jsstr \<Rightarrow> jsstr" where
  "strip_0x s = (case s of u # v # rest \<Rightarrow> if u = 48 \<and> (v = 120 \<or> v = 88) then rest else s | _ \<Rightarrow> s)"

definition parse_hex_digits :: "jsstr \<Rightarrow> nat option" where
  "parse_hex_digits s =
     (case takeWhile (\<lambda>u. hex_value u \<noteq> None) s of
        [] \<Rightarrow> None
      | ds \<Rightarrow> Some (fold (\<lambda>u n. n * 16 + the (hex_value u)) ds 0))"

definition parse_int16 :: "jsstr \<Rightarrow> int option" where
  "parse_int16 text =
     (let s = dropWhile white text in
      case s of
        [] \<Rightarrow> None
      | u # rest \<Rightarrow>
          if u = 45 then map_option (\<lambda>n. - int n) (parse_hex_digits (strip_0x rest))
          else if u = 43 then map_option int (parse_hex_digits (strip_0x rest))
          else map_option int (parse_hex_digits (strip_0x s)))"

definition to_hex :: "bytes \<Rightarrow> jsstr" where
  "to_hex bs = concat (map (\<lambda>b. [hex_digit (unat b div 16), hex_digit (unat b mod 16)]) bs)"

datatype hex_error = OddLength | InvalidHex

fun hex_pairs :: "jsstr \<Rightarrow> hex_error + bytes" where
  "hex_pairs (u # v # rest) =
     (case parse_int16 [u, v] of
        None \<Rightarrow> Inl InvalidHex
      | Some n \<Rightarrow> (case hex_pairs rest of Inl e \<Rightarrow> Inl e | Inr bs \<Rightarrow> Inr (word_of_int n # bs)))"
| "hex_pairs _ = Inr []"

definition from_hex :: "jsstr \<Rightarrow> hex_error + bytes" where
  "from_hex text = (if length text mod 2 \<noteq> 0 then Inl OddLength else hex_pairs text)"

lemma hex_digit_lt16: "(n::nat) < 16 \<Longrightarrow> n \<in> {0, 1, 2, 3, 4, 5, 6, 7, 8, 9, 10, 11, 12, 13, 14, 15}"
  by (simp, presburger)

lemma hex_value_digit: "n < 16 \<Longrightarrow> hex_value (hex_digit n) = Some n"
  using hex_digit_lt16 [of n] by (auto simp: hex_value_def hex_digit_def)

lemma hex_digit_plain:
  "n < 16 \<Longrightarrow> hex_digit n \<noteq> 43 \<and> hex_digit n \<noteq> 45 \<and> hex_digit n \<noteq> 120 \<and> hex_digit n \<noteq> 88 \<and>
     \<not> white (hex_digit n)"
  using hex_digit_lt16 [of n] by (auto simp: hex_digit_def white_def)

lemma parse_hex_pair:
  "a < 16 \<Longrightarrow> b < 16 \<Longrightarrow> parse_int16 [hex_digit a, hex_digit b] = Some (int (a * 16 + b))"
  by (simp add: parse_int16_def hex_digit_plain strip_0x_def parse_hex_digits_def hex_value_digit)

lemma from_to_hex: "from_hex (to_hex bs) = Inr bs"
proof -
  have "hex_pairs (to_hex bs) = Inr bs"
  proof (induction bs)
    case (Cons b bs)
    have lt: "unat b div 16 < 16" "unat b mod 16 < 16"
      using unsigned_less [of b, where 'a = nat] by auto
    have "word_of_int (int (unat b div 16 * 16 + unat b mod 16)) = b" by simp
    then show ?case using Cons by (simp add: to_hex_def parse_hex_pair [OF lt])
  qed (simp add: to_hex_def)
  moreover have "length (to_hex bs) mod 2 = 0" by (induction bs) (simp_all add: to_hex_def)
  ultimately show ?thesis by (simp add: from_hex_def)
qed

interpretation hex: codec to_hex from_hex "\<lambda>_. True"
  by unfold_locales (rule from_to_hex)

text \<open>The two text forms lose nothing, so that distinct bytes never share a text: what a session
  stores of a log head and what it indexes conversations by can be read back.\<close>

theorem text_forms_roundtrip:
  "from_base64 (to_base64 bs) = Inr bs \<and> from_hex (to_hex bs) = Inr bs \<and>
   (to_base64 bs = to_base64 cs \<longleftrightarrow> bs = cs) \<and> (to_hex bs = to_hex cs \<longleftrightarrow> bs = cs)"
  by (simp add: from_to_base64 from_to_hex base64.enc_inject hex.enc_inject)

text \<open>\<open>fromHex\<close> does not refuse every text that is not hexadecimal: \<open>parseInt\<close> reads a prefix, a
  sign or a space, so that a malformed pair becomes a byte instead of an error.\<close>

theorem from_hex_accepts_garbage:
  "from_hex (js ''1g'') = Inr [1] \<and> from_hex (js '' f'') = Inr [15] \<and>
   from_hex (js ''-1'') = Inr [255] \<and> from_hex (js ''gg'') = Inl InvalidHex"
  by (simp add: from_hex_def js_def parse_int16_def white_def strip_0x_def parse_hex_digits_def
      hex_value_def)

subsection \<open>The state at rest\<close>

datatype state_error = TruncatedState | StateDoesNotOpen

definition wrap_state :: "('k \<Rightarrow> bytes \<Rightarrow> bytes \<Rightarrow> bytes) \<Rightarrow> bytes \<Rightarrow> 'k \<Rightarrow> bytes \<Rightarrow> bytes" where
  "wrap_state enc iv key plaintext = seal enc iv key plaintext"

definition unwrap_state :: "('k \<Rightarrow> bytes \<Rightarrow> bytes \<Rightarrow> bytes option) \<Rightarrow> 'k \<Rightarrow> bytes \<Rightarrow> state_error + bytes" where
  "unwrap_state dec key blob =
     (if length blob \<le> 12 then Inl TruncatedState
      else case unseal dec key blob of None \<Rightarrow> Inl StateDoesNotOpen | Some p \<Rightarrow> Inr p)"

lemma unwrap_wrap_state:
  "aead enc dec \<Longrightarrow> length iv = 12 \<Longrightarrow> unwrap_state dec key (wrap_state enc iv key p) = Inr p"
  using length_seal [of enc dec iv key p]
  by (simp add: unwrap_state_def wrap_state_def unseal_seal)

end
