(* ===== verification/Trust.thy ===== *)
theory Trust
  imports Stored Keys
begin

text \<open>
  What the client checks before it believes the server about a key: the chain of an account's keys
  (\<open>chain.ts\<close>), the transparency log (\<open>transparency.ts\<close>), the devices of an account (\<open>account.ts\<close>) and
  the witness that remembers the last log head accepted (\<open>session-log.ts\<close>). The cryptographic checks
  are compiled from Rust to WebAssembly: they are the fields of the records \<open>verifier\<close> and \<open>crypto\<close>,
  parameters of the definitions that call them.
\<close>

subsection \<open>The chain of an account's keys\<close>

record link =
  link_seq :: nat
  link_key :: bytes
  link_rotation :: "bytes option"
  link_rotated_at :: "nat option"

datatype chain_verdict = ChainOk bytes | ChainEmpty | WrongAnchor | BrokenLink nat

record verifier =
  account_id :: "bytes \<Rightarrow> account"
  verify_rotation :: "bytes \<Rightarrow> account \<Rightarrow> bytes \<Rightarrow> nat \<Rightarrow> bytes \<Rightarrow> bool"

text \<open>Is a link signed by the key before it?\<close>

definition signed_by :: "verifier \<Rightarrow> account \<Rightarrow> bytes \<Rightarrow> link \<Rightarrow> bool" where
  "signed_by v account previous l =
     (case (link_rotation l, link_rotated_at l) of
        (Some rotation, Some at) \<Rightarrow> verify_rotation v previous account (link_key l) at rotation
      | _ \<Rightarrow> False)"

fun walk_from :: "verifier \<Rightarrow> account \<Rightarrow> bytes \<Rightarrow> nat \<Rightarrow> link list \<Rightarrow> chain_verdict" where
  "walk_from v account previous at [] = ChainOk previous"
| "walk_from v account previous at (l # links) =
     (if \<not> signed_by v account previous l then BrokenLink at
      else walk_from v account (link_key l) (at + 1) links)"

definition walk :: "account \<Rightarrow> link list \<Rightarrow> verifier \<Rightarrow> chain_verdict" where
  "walk account links v =
     (case links of
        [] \<Rightarrow> ChainEmpty
      | first # rest \<Rightarrow>
          if account_id v (link_key first) \<noteq> account then WrongAnchor
          else walk_from v account (link_key first) 1 rest)"

definition is_account_id :: "jsstr \<Rightarrow> bool" where
  "is_account_id s \<longleftrightarrow> length s = 32 \<and>
     list_all (\<lambda>u. (0x30 \<le> u \<and> u \<le> 0x39) \<or> (0x61 \<le> u \<and> u \<le> 0x66)) s"

lemma walk_from_ok:
  "walk_from v a p at ls = ChainOk k \<longleftrightarrow>
     (\<forall>i<length ls. signed_by v a (link_key (((\<lparr>link_seq = 0, link_key = p, link_rotation = None,
        link_rotated_at = None\<rparr>) # ls) ! i)) (ls ! i)) \<and>
     k = last (p # map link_key ls)"
proof (induction ls arbitrary: p at)
  case Nil
  then show ?case by auto
next
  case (Cons l ls)
  let ?z = "\<lambda>p. \<lparr>link_seq = 0, link_key = p, link_rotation = None, link_rotated_at = None\<rparr>"
  have key: "link_key ((?z (link_key l) # ls) ! i) = link_key ((l # ls) ! i)" for i
    by (cases i) simp_all
  show ?case
    unfolding length_Cons All_less_Suc2 by (auto simp: Cons key)
qed

lemma walk_from_prefix:
  "walk_from v a p at (ls @ ms) = ChainOk k \<Longrightarrow> \<exists>k'. walk_from v a p at ls = ChainOk k'"
  by (induction ls arbitrary: p at) (auto split: if_splits)

lemma walk_from_broken:
  "walk_from v a p at ls = BrokenLink i \<Longrightarrow>
     at \<le> i \<and> i < at + length ls \<and> (\<exists>k. walk_from v a p at (take (i - at) ls) = ChainOk k \<and>
       \<not> signed_by v a k (ls ! (i - at)))"
proof (induction ls arbitrary: p at)
  case (Cons l ls)
  show ?case
  proof (cases "signed_by v a p l")
    case True
    with Cons.prems have "walk_from v a (link_key l) (at + 1) ls = BrokenLink i" by simp
    note IH = Cons.IH [OF this]
    then have "i - at = Suc (i - (at + 1))" by auto
    with IH True show ?thesis by (auto simp del: One_nat_def)
  next
    case False
    with Cons.prems show ?thesis by auto
  qed
qed simp

text \<open>C34. What \<open>walk\<close> accepts is a chain that starts at the key the account is named after and in
  which every later key is signed by the one before it; the key it returns is the last. When it
  reports a broken link at a position, every link before it was signed and that one is not.\<close>

theorem walk_sound:
  "(walk account links v = ChainOk current \<longleftrightarrow>
      links \<noteq> [] \<and> account_id v (link_key (hd links)) = account \<and>
      (\<forall>i<length links - 1. signed_by v account (link_key (links ! i)) (links ! Suc i)) \<and>
      current = link_key (last links)) \<and>
   (walk account links v = BrokenLink i \<longrightarrow>
      0 < i \<and> i < length links \<and> (\<exists>k. walk account (take i links) v = ChainOk k \<and>
        \<not> signed_by v account k (links ! i)))"
proof (cases links)
  case (Cons first rest)
  have key: "link_key ((\<lparr>link_seq = 0, link_key = link_key first, link_rotation = None,
      link_rotated_at = None\<rparr> # rest) ! j) = link_key ((first # rest) ! j)" for j
    by (cases j) simp_all
  have broken: "0 < i \<and> i < Suc (length rest) \<and> (\<exists>k. walk_from v account (link_key first) 1 (take (i - 1) rest) = ChainOk k \<and>
        \<not> signed_by v account k (rest ! (i - 1)))"
    if "walk_from v account (link_key first) 1 rest = BrokenLink i"
    using walk_from_broken [OF that] by auto
  show ?thesis
  proof (intro conjI impI)
    show "walk account links v = ChainOk current \<longleftrightarrow>
      links \<noteq> [] \<and> account_id v (link_key (hd links)) = account \<and>
      (\<forall>i<length links - 1. signed_by v account (link_key (links ! i)) (links ! Suc i)) \<and>
      current = link_key (last links)"
      by (simp add: walk_def Cons walk_from_ok key last_map)
  next
    assume w: "walk account links v = BrokenLink i"
    then have f: "account_id v (link_key first) = account"
      and "walk_from v account (link_key first) 1 rest = BrokenLink i"
      by (simp_all add: walk_def Cons split: if_splits)
    from broken [OF this(2)] f
    show "0 < i" "i < length links"
      "\<exists>k. walk account (take i links) v = ChainOk k \<and> \<not> signed_by v account k (links ! i)"
      by (simp_all add: walk_def Cons take_Cons' nth_Cons')
  qed
qed (simp add: walk_def)

theorem walk_sound_witness:
  "walk (js ''a'') [\<lparr>link_seq = 0, link_key = [1], link_rotation = None, link_rotated_at = None\<rparr>,
                  \<lparr>link_seq = 1, link_key = [2], link_rotation = None, link_rotated_at = None\<rparr>]
     \<lparr>account_id = \<lambda>_. js ''a'', verify_rotation = \<lambda>_ _ _ _ _. True\<rparr> = BrokenLink 1 \<and> (0::nat) < 1"
proof -
  let ?ls = "[\<lparr>link_seq = 0, link_key = [1], link_rotation = None, link_rotated_at = None\<rparr>,
              \<lparr>link_seq = 1, link_key = [2], link_rotation = None, link_rotated_at = None\<rparr>]"
  let ?v = "\<lparr>account_id = \<lambda>_. js ''a'', verify_rotation = \<lambda>_ _ _ _ _. True\<rparr>"
  have "walk (js ''a'') ?ls ?v = BrokenLink 1" by (simp add: walk_def signed_by_def)
  with walk_sound [of "js ''a''" ?ls ?v "[]" 1] show ?thesis by blast
qed

text \<open>A link dropped in the middle breaks the chain, but one dropped at the end does not: every
  non-empty prefix of an accepted chain is accepted, and gives an older key.\<close>

theorem walk_accepts_prefixes:
  assumes "walk account (links @ withheld) v = ChainOk current" and "links \<noteq> []"
  shows "walk account links v = ChainOk (link_key (last links))"
proof -
  obtain first rest where ls: "links = first # rest" using assms(2) by (cases links) auto
  from assms(1) have "account_id v (link_key first) = account"
    and "walk_from v account (link_key first) 1 (rest @ withheld) = ChainOk current"
    by (auto simp: walk_def ls split: if_splits)
  from this(1) walk_from_prefix [OF this(2)] obtain k where "walk account links v = ChainOk k"
    by (auto simp: walk_def ls)
  then show ?thesis using walk_sound [of account links v k 0] by simp
qed

theorem walk_accepts_prefixes_witness:
  "walk (js ''a'') [\<lparr>link_seq = 0, link_key = [1], link_rotation = None, link_rotated_at = None\<rparr>]
     \<lparr>account_id = \<lambda>_. js ''a'', verify_rotation = \<lambda>_ _ _ _ _. True\<rparr> = ChainOk [1]"
proof -
  let ?l = "\<lparr>link_seq = 0, link_key = [1], link_rotation = None, link_rotated_at = None\<rparr>"
  let ?m = "\<lparr>link_seq = 1, link_key = [2], link_rotation = Some [], link_rotated_at = Some 7\<rparr>"
  let ?v = "\<lparr>account_id = \<lambda>_. js ''a'', verify_rotation = \<lambda>_ _ _ _ _. True\<rparr>"
  have "walk (js ''a'') ([?l] @ [?m]) ?v = ChainOk [2]" by (simp add: walk_def signed_by_def)
  from walk_accepts_prefixes [OF this] show ?thesis by simp
qed

subsection \<open>The transparency log\<close>

record seen_head =
  seen_size :: nat
  seen_root :: bytes
  seen_key :: bytes

record signed_head =
  sh_size :: nat
  sh_root :: bytes
  sh_key :: bytes
  sh_timestamp :: nat
  sh_signature :: bytes

record log_proof =
  lp_index :: nat
  lp_head :: signed_head
  lp_proof :: "bytes list"
  lp_key :: bytes

record crypto =
  verify_tree_head :: "bytes \<Rightarrow> nat \<Rightarrow> bytes \<Rightarrow> nat \<Rightarrow> bytes \<Rightarrow> bool"
  log_leaf :: "account \<Rightarrow> bytes \<Rightarrow> bytes"
  verify_inclusion :: "bytes \<Rightarrow> nat \<Rightarrow> nat \<Rightarrow> bytes list \<Rightarrow> bytes \<Rightarrow> bool"
  verify_consistency :: "nat \<Rightarrow> bytes \<Rightarrow> nat \<Rightarrow> bytes \<Rightarrow> bytes list \<Rightarrow> bool"

text \<open>The sentences of the refusals, as constructors: two are equal exactly when the sentences are.\<close>

datatype refusal =
    KeyNotPinned
  | LogKeyChanged
  | BadlySignedHead
  | LogShrank
  | NotInLog account
  | DifferentKey account
  | ShorterThanReference
  | DoesNotExtend
  | Forked

datatype verdict = Accepted | Refused refusal

definition accept_head ::
    "crypto \<Rightarrow> signed_head \<Rightarrow> seen_head option \<Rightarrow> bytes option \<Rightarrow> verdict" where
  "accept_head c head seen pinned =
     (if (case pinned of None \<Rightarrow> False | Some p \<Rightarrow> p \<noteq> sh_key head) then Refused KeyNotPinned
      else if (case seen of None \<Rightarrow> False | Some s \<Rightarrow> seen_key s \<noteq> sh_key head) then Refused LogKeyChanged
      else if \<not> verify_tree_head c (sh_key head) (sh_size head) (sh_root head) (sh_timestamp head) (sh_signature head)
      then Refused BadlySignedHead
      else if (case seen of None \<Rightarrow> False | Some s \<Rightarrow> sh_size head < seen_size s) then Refused LogShrank
      else Accepted)"

text \<open>A request to the server: \<open>None\<close> when it fails, which the caller sees as an exception.\<close>

definition verify_extends ::
    "crypto \<Rightarrow> (nat \<Rightarrow> bytes list option) \<Rightarrow> seen_head \<Rightarrow> signed_head \<Rightarrow> verdict option" where
  "verify_extends c log_consistency anchor current =
     (if seen_size anchor > sh_size current then Some (Refused ShorterThanReference)
      else case log_consistency (seen_size anchor) of
        None \<Rightarrow> None
      | Some proof \<Rightarrow>
          Some (if verify_consistency c (seen_size anchor) (seen_root anchor) (sh_size current)
                     (sh_root current) proof
                then Accepted else Refused DoesNotExtend))"

definition head_of :: "signed_head \<Rightarrow> seen_head" where
  "head_of h = \<lparr>seen_size = sh_size h, seen_root = sh_root h, seen_key = sh_key h\<rparr>"

definition verify_account ::
    "crypto \<Rightarrow> (account \<Rightarrow> log_proof option) \<Rightarrow> (nat \<Rightarrow> bytes list option) \<Rightarrow> account \<Rightarrow> bytes \<Rightarrow>
     seen_head option \<Rightarrow> bytes option \<Rightarrow> (verdict \<times> seen_head option) option" where
  "verify_account c log_proof log_consistency handle key seen pinned =
     (case log_proof handle of
        None \<Rightarrow> None
      | Some proof \<Rightarrow>
          (case accept_head c (lp_head proof) seen pinned of
             Refused r \<Rightarrow> Some (Refused r, None)
           | Accepted \<Rightarrow>
               if \<not> verify_inclusion c (log_leaf c handle key) (lp_index proof) (sh_size (lp_head proof))
                     (lp_proof proof) (sh_root (lp_head proof))
               then Some (Refused (NotInLog handle), None)
               else if key \<noteq> lp_key proof then Some (Refused (DifferentKey handle), None)
               else (case seen of
                   None \<Rightarrow> Some (Accepted, Some (head_of (lp_head proof)))
                 | Some s \<Rightarrow>
                     (case verify_extends c log_consistency s (lp_head proof) of
                        None \<Rightarrow> None
                      | Some (Refused r) \<Rightarrow> Some (Refused r, None)
                      | Some Accepted \<Rightarrow> Some (Accepted, Some (head_of (lp_head proof)))))))"

text \<open>May the anchor move from one head to another?\<close>

definition extends_head :: "crypto \<Rightarrow> seen_head \<Rightarrow> seen_head \<Rightarrow> bool" where
  "extends_head c old new \<longleftrightarrow> seen_key new = seen_key old \<and> seen_size old \<le> seen_size new \<and>
     (\<exists>proof. verify_consistency c (seen_size old) (seen_root old) (seen_size new) (seen_root new) proof)"

lemma verify_account_accepted:
  assumes "verify_account c lp lc handle key seen pinned = Some (Accepted, Some h)"
  obtains p where "lp handle = Some p" "h = head_of (lp_head p)" "lp_key p = key"
    "verify_inclusion c (log_leaf c handle key) (lp_index p) (seen_size h) (lp_proof p) (seen_root h)"
    "verify_tree_head c (seen_key h) (seen_size h) (seen_root h) (sh_timestamp (lp_head p))
       (sh_signature (lp_head p))"
    "\<And>k. pinned = Some k \<Longrightarrow> k = seen_key h" "\<And>s. seen = Some s \<Longrightarrow> extends_head c s h"
proof -
  from assms obtain p where p: "lp handle = Some p"
    by (auto simp: verify_account_def split: option.splits)
  show ?thesis
    by (rule that [OF p])
      (use assms p in \<open>auto simp: verify_account_def accept_head_def verify_extends_def head_of_def
        extends_head_def split: option.splits if_splits verdict.splits\<close>)
qed

lemma verify_account_no_head:
  "verify_account c lp lc handle key seen pinned = Some (Refused r, h) \<Longrightarrow> h = None"
  by (auto simp: verify_account_def split: option.splits if_splits verdict.splits)

lemma verify_account_head:
  "verify_account c lp lc handle key seen pinned = Some (Accepted, h) \<Longrightarrow> \<exists>h'. h = Some h'"
  by (auto simp: verify_account_def split: option.splits if_splits verdict.splits)

subsection \<open>The witness\<close>

record log_witness =
  lw_seen :: "seen_head option"
  lw_alerts :: "refusal list"

definition no_witness :: log_witness where
  "no_witness = \<lparr>lw_seen = None, lw_alerts = []\<rparr>"

definition witness_hydrate :: "'l stored_session option \<Rightarrow> base64_error + log_witness" where
  "witness_hydrate stored =
     (case stored of None \<Rightarrow> Inr no_witness
      | Some r \<Rightarrow>
          (case st_log_head r of
             None \<Rightarrow> Inr no_witness
           | Some h \<Rightarrow>
               (case from_base64 (lh_root h) of
                  Inl e \<Rightarrow> Inl e
                | Inr root \<Rightarrow>
                    (case from_base64 (lh_key h) of
                       Inl e \<Rightarrow> Inl e
                     | Inr key \<Rightarrow>
                         Inr \<lparr>lw_seen = Some \<lparr>seen_size = lh_size h, seen_root = root, seen_key = key\<rparr>, lw_alerts = []\<rparr>))))"

definition witness_snapshot :: "log_witness \<Rightarrow> 'l stored_session \<Rightarrow> 'l stored_session" where
  "witness_snapshot w r =
     r\<lparr>st_log_head := map_option (\<lambda>h. \<lparr>lh_size = seen_size h, lh_root = to_base64 (seen_root h),
         lh_key = to_base64 (seen_key h)\<rparr>) (lw_seen w)\<rparr>"

text \<open>What is told to a peer: the log key is left out.\<close>

definition gossip :: "log_witness \<Rightarrow> (nat \<times> bytes) option" where
  "gossip w = map_option (\<lambda>h. (seen_size h, seen_root h)) (lw_seen w)"

definition raise_alert :: "refusal \<Rightarrow> log_witness \<Rightarrow> log_witness" where
  "raise_alert reason w = (if reason \<in> set (lw_alerts w) then w else w\<lparr>lw_alerts := lw_alerts w @ [reason]\<rparr>)"

datatype check_result = Advanced bool | ProofRefused account refusal

text \<open>
  \<open>check\<close> reads the anchor, asks the server, and comes back to a witness that may have moved
  meanwhile: \<open>check_return\<close> is what happens on the answer. In a session where one check ends before
  the next begins, the two are run together, \<open>check\<close>.
\<close>

definition check_return ::
    "account \<Rightarrow> (verdict \<times> seen_head option) option \<Rightarrow> log_witness \<Rightarrow> check_result \<times> log_witness" where
  "check_return account answer w =
     (case answer of
        None \<Rightarrow> (Advanced False, w)
      | Some (Refused r, h) \<Rightarrow> (ProofRefused account r, raise_alert r w)
      | Some (Accepted, h) \<Rightarrow>
          (Advanced (h \<noteq> None \<and> map_option seen_size (lw_seen w) \<noteq> map_option seen_size h), w\<lparr>lw_seen := h\<rparr>))"

definition check ::
    "(account \<Rightarrow> bytes \<Rightarrow> seen_head option \<Rightarrow> (verdict \<times> seen_head option) option) \<Rightarrow>
     account \<Rightarrow> bytes \<Rightarrow> log_witness \<Rightarrow> check_result \<times> log_witness" where
  "check checks account key w = check_return account (checks account key (lw_seen w)) w"

text \<open>\<open>compare\<close>: the verdict on a peer's view, \<open>None\<close> when the server is unreachable.\<close>

definition compare_view :: "verdict option \<Rightarrow> log_witness \<Rightarrow> log_witness" where
  "compare_view answer w = (case answer of Some (Refused r) \<Rightarrow> raise_alert Forked w | _ \<Rightarrow> w)"

lemma witness_back: "lw_alerts w = [] \<Longrightarrow> witness_hydrate (Some (witness_snapshot w r)) = Inr w"
  by (cases w; cases "lw_seen w")
    (simp_all add: witness_hydrate_def witness_snapshot_def no_witness_def from_to_base64)

interpretation witness: slice witness_snapshot
  "\<lambda>r. case witness_hydrate (Some r) of Inr w \<Rightarrow> w | Inl _ \<Rightarrow> no_witness" "\<lambda>w. lw_alerts w = []"
  by unfold_locales (simp add: witness_back)

text \<open>Everything an accepted key rests on: the proof served, and the head the anchor moves to.\<close>

definition believed ::
    "crypto \<Rightarrow> (account \<Rightarrow> log_proof option) \<Rightarrow> account \<Rightarrow> bytes \<Rightarrow> bytes option \<Rightarrow> seen_head option \<Rightarrow>
     log_proof \<Rightarrow> seen_head \<Rightarrow> bool" where
  "believed c lp account key pin s p h \<longleftrightarrow>
     lp account = Some p \<and> lp_key p = key \<and>
     verify_inclusion c (log_leaf c account key) (lp_index p) (seen_size h) (lp_proof p) (seen_root h) \<and>
     verify_tree_head c (seen_key h) (seen_size h) (seen_root h) (sh_timestamp (lp_head p))
       (sh_signature (lp_head p)) \<and>
     pin \<in> {None, Some (seen_key h)} \<and>
     (case s of None \<Rightarrow> True | Some old \<Rightarrow> extends_head c old h)"

lemma verify_account_believed:
  "verify_account c lp lc account key s pin = Some (Accepted, Some h) \<Longrightarrow>
     \<exists>p. believed c lp account key pin s p h"
  by (erule verify_account_accepted) (cases pin; auto simp: believed_def split: option.splits)


text \<open>Two checks in flight at once can move the anchor back: both read the anchor at size 10, the
  server proves a head of size 12 to one and of size 11 to the other, both of them extensions of 10,
  and the answer that arrives last is the one remembered.\<close>

theorem concurrent_checks_regress:
  "(let old = \<lparr>seen_size = 10, seen_root = [0], seen_key = [9]\<rparr>;
        c = \<lparr>verify_tree_head = \<lambda>_ _ _ _ _. True, log_leaf = \<lambda>_ _. [], verify_inclusion = \<lambda>_ _ _ _ _. True,
             verify_consistency = \<lambda>_ _ _ _ _. True\<rparr>;
        served = \<lambda>n. \<lparr>lp_index = 0, lp_head = \<lparr>sh_size = n, sh_root = [1], sh_key = [9], sh_timestamp = 0,
             sh_signature = []\<rparr>, lp_proof = [], lp_key = [7]\<rparr>;
        answer = \<lambda>n. verify_account c (\<lambda>_. Some (served n)) (\<lambda>_. Some []) (js ''bob'') [7] (Some old) None;
        w1 = snd (check_return (js ''bob'') (answer 12) \<lparr>lw_seen = Some old, lw_alerts = []\<rparr>);
        w2 = snd (check_return (js ''bob'') (answer 11) w1)
    in map_option seen_size (lw_seen w1) = Some 12 \<and> map_option seen_size (lw_seen w2) = Some 11)"
  by (simp add: check_return_def verify_account_def accept_head_def verify_extends_def head_of_def)

subsection \<open>The devices of an account\<close>

record device =
  dev_id :: jsstr
  dev_auth_key :: bytes
  dev_mls_key :: bytes
  dev_attestation :: bytes
  dev_revoked_at :: "nat option"
  dev_revocation :: "bytes option"

record account_crypto =
  verify_attestation :: "bytes \<Rightarrow> account \<Rightarrow> jsstr \<Rightarrow> bytes \<Rightarrow> bytes \<Rightarrow> bytes \<Rightarrow> bool"
  verify_revocation :: "bytes \<Rightarrow> account \<Rightarrow> jsstr \<Rightarrow> nat \<Rightarrow> bytes \<Rightarrow> bool"
  account_fingerprint :: "bytes \<Rightarrow> jsstr"

record resolved_account =
  ra_handle :: account
  ra_key :: bytes
  ra_fingerprint :: jsstr
  ra_devices :: "device list"
  ra_revoked :: "device list"
  ra_revoked_keys :: "bytes list"
  ra_rejected :: "device list"

datatype standing = StandingActive | StandingRevoked | StandingRejected

text \<open>One turn of the loop: into which of the three lists the device goes.\<close>

definition standing_of :: "account_crypto \<Rightarrow> bytes \<Rightarrow> account \<Rightarrow> device \<Rightarrow> standing" where
  "standing_of c key account d =
     (if \<not> verify_attestation c key account (dev_id d) (dev_auth_key d) (dev_mls_key d) (dev_attestation d)
      then StandingRejected
      else case (dev_revoked_at d, dev_revocation d) of
        (Some at, Some cert) \<Rightarrow>
          if verify_revocation c key account (dev_id d) at cert then StandingRevoked else StandingRejected
      | _ \<Rightarrow> StandingActive)"

definition resolve_account :: "account_crypto \<Rightarrow> account \<Rightarrow> bytes \<times> device list \<Rightarrow> resolved_account" where
  "resolve_account c account served =
     (case served of (key, devices) \<Rightarrow>
        let with_standing = \<lambda>s. filter (\<lambda>d. standing_of c key account d = s) devices in
        \<lparr>ra_handle = account, ra_key = key, ra_fingerprint = account_fingerprint c key,
         ra_devices = with_standing StandingActive,
         ra_revoked = with_standing StandingRevoked,
         ra_revoked_keys = map dev_mls_key (with_standing StandingRevoked),
         ra_rejected = with_standing StandingRejected\<rparr>)"

lemma standing_partition:
  "length (filter (\<lambda>d. f d = StandingActive) ds) + length (filter (\<lambda>d. f d = StandingRevoked) ds) +
     length (filter (\<lambda>d. f d = StandingRejected) ds) = length ds"
proof (induction ds)
  case (Cons d ds)
  then show ?case by (cases "f d") auto
qed simp

text \<open>C36. The server can subtract a device and never add one: every device a resolution offers was
  served and is attested by the account's key, a device counts as revoked only with a certificate that
  verifies, and nothing served disappears, each device landing in exactly one of the three lists.\<close>

theorem resolve_account_sound:
  "(let r = resolve_account c account (key, devices) in
    (\<forall>d\<in>set (ra_devices r) \<union> set (ra_revoked r). d \<in> set devices \<and>
       verify_attestation c key account (dev_id d) (dev_auth_key d) (dev_mls_key d) (dev_attestation d)) \<and>
    (\<forall>d\<in>set (ra_revoked r). \<exists>at cert. dev_revoked_at d = Some at \<and> dev_revocation d = Some cert \<and>
       verify_revocation c key account (dev_id d) at cert) \<and>
    set (ra_devices r) \<inter> set (ra_revoked r) = {} \<and>
    (set (ra_devices r) \<union> set (ra_revoked r)) \<inter> set (ra_rejected r) = {} \<and>
    length (ra_devices r) + length (ra_revoked r) + length (ra_rejected r) = length devices)"
  using standing_partition [of "standing_of c key account" devices]
  by (auto simp: resolve_account_def Let_def standing_of_def split: if_splits option.splits)

text \<open>A device whose attestation verifies but whose announced revocation does not is not kept
  active: it is rejected, so that a server announcing revocations it cannot certify still removes the
  device from every resolution.\<close>

theorem uncertified_revocation_removes:
  assumes "verify_attestation c key account (dev_id d) (dev_auth_key d) (dev_mls_key d) (dev_attestation d)"
    and "dev_revoked_at d = Some at" and "dev_revocation d = Some cert"
    and "\<not> verify_revocation c key account (dev_id d) at cert"
  shows "d \<notin> set (ra_devices (resolve_account c account (key, devices)))"
  using assms by (auto simp: resolve_account_def Let_def standing_of_def)

theorem uncertified_revocation_removes_witness:
  "(let c = \<lparr>verify_attestation = \<lambda>_ _ _ _ _ _. True, verify_revocation = \<lambda>_ _ _ _ _. False,
             account_fingerprint = \<lambda>_. []\<rparr>;
        d = \<lparr>dev_id = js ''phone'', dev_auth_key = [], dev_mls_key = [], dev_attestation = [],
             dev_revoked_at = Some 7, dev_revocation = Some []\<rparr>
    in d \<notin> set (ra_devices (resolve_account c (js ''bob'') ([1], [d]))))"
  unfolding Let_def by (rule uncertified_revocation_removes [where at = 7 and cert = "[]"]) simp_all

theorem resolve_account_sound_witness:
  "(let c = \<lparr>verify_attestation = \<lambda>_ _ _ _ _ _. True, verify_revocation = \<lambda>_ _ _ _ _. True,
             account_fingerprint = \<lambda>_. []\<rparr>;
        d = \<lparr>dev_id = js ''phone'', dev_auth_key = [], dev_mls_key = [], dev_attestation = [],
             dev_revoked_at = Some 7, dev_revocation = Some []\<rparr>;
        r = resolve_account c (js ''bob'') ([1], [d])
    in ra_revoked r = [d] \<and> length (ra_devices r) + length (ra_revoked r) + length (ra_rejected r) = 1)"
proof -
  let ?c = "\<lparr>verify_attestation = \<lambda>_ _ _ _ _ _. True, verify_revocation = \<lambda>_ _ _ _ _. True,
             account_fingerprint = \<lambda>_. []\<rparr>"
  let ?d = "\<lparr>dev_id = js ''phone'', dev_auth_key = [], dev_mls_key = [], dev_attestation = [],
             dev_revoked_at = Some 7, dev_revocation = Some []\<rparr>"
  from resolve_account_sound [of ?c "js ''bob''" "[1]" "[?d]"]
  show ?thesis by (simp add: Let_def resolve_account_def standing_of_def)
qed

end
