(* ===== verification/Receipts.thy ===== *)
theory Receipts
  imports Content
begin

text \<open>
  \<open>receipts.ts\<close>: what every account has acknowledged in one conversation. A receipt says "up to
  this number"; cursors never move backwards. The book is a \<open>Map\<close> whose order nobody reads.
\<close>

record account_receipts =
  delivered_to :: nat
  read_to :: nat

type_synonym receipt_book = "account \<rightharpoonup> account_receipts"

definition receipts_of :: "receipt_book \<Rightarrow> account \<Rightarrow> account_receipts" where
  "receipts_of book handle =
     (case book handle of None \<Rightarrow> \<lparr>delivered_to = 0, read_to = 0\<rparr> | Some r \<Rightarrow> r)"

definition record_receipt ::
    "receipt_book \<Rightarrow> account \<Rightarrow> receipt_state \<Rightarrow> nat \<Rightarrow> receipt_book" where
  "record_receipt book handle state seq =
     (let current = receipts_of book handle in
      book(handle \<mapsto>
        (case state of
           Read \<Rightarrow> \<lparr>delivered_to = max (delivered_to current) seq, read_to = max (read_to current) seq\<rparr>
         | Delivered \<Rightarrow> current\<lparr>delivered_to := max (delivered_to current) seq\<rparr>)))"

definition reached :: "receipt_book \<Rightarrow> account \<Rightarrow> receipt_state \<Rightarrow> nat" where
  "reached book handle state =
     (case state of Read \<Rightarrow> read_to (receipts_of book handle)
                  | Delivered \<Rightarrow> delivered_to (receipts_of book handle))"

definition pending_receipt ::
    "receipt_book \<Rightarrow> account \<Rightarrow> receipt_state \<Rightarrow> nat \<Rightarrow> nat option" where
  "pending_receipt book handle state cursor =
     (if cursor > reached book handle state then Some cursor else None)"

datatype delivery_status = StatusSent | StatusDelivered | StatusRead

definition status_of ::
    "receipt_book \<Rightarrow> account list \<Rightarrow> nat \<Rightarrow> bool \<Rightarrow> delivery_status" where
  "status_of book peers seq read_receipts =
     (if peers = [] then StatusSent
      else if read_receipts \<and> (\<forall>p\<in>set peers. read_to (receipts_of book p) \<ge> seq) then StatusRead
      else if \<forall>p\<in>set peers. delivered_to (receipts_of book p) \<ge> seq then StatusDelivered
      else StatusSent)"

subsection \<open>One receipt\<close>

lemma receipts_of_record:
  "receipts_of (record_receipt book h st n) k =
     (if k = h then
        \<lparr>delivered_to = max (delivered_to (receipts_of book h)) n,
         read_to = (if st = Read then max (read_to (receipts_of book h)) n
                    else read_to (receipts_of book h))\<rparr>
      else receipts_of book k)"
  by (cases st) (simp_all add: record_receipt_def receipts_of_def Let_def)

lemma reached_record:
  "reached (record_receipt book h st n) k st' =
     (if k = h \<and> (st = Read \<or> st' = Delivered) then max (reached book h st') n
      else reached book k st')"
  by (cases st') (auto simp: reached_def receipts_of_record)

lemma reached_record_le: "reached book k st' \<le> reached (record_receipt book h st n) k st'"
  by (simp add: reached_record)

definition absorb_receipt :: "account \<times> receipt_state \<times> nat \<Rightarrow> receipt_book \<Rightarrow> receipt_book" where
  "absorb_receipt e book = (case e of (h, st, n) \<Rightarrow> record_receipt book h st n)"

lemma record_receipt_ext:
  "record_receipt book h st n = book(h \<mapsto> receipts_of (record_receipt book h st n) h)"
  by (simp add: record_receipt_def receipts_of_def Let_def)

lemma record_receipt_eqI:
  assumes "\<And>k. b k = None \<longleftrightarrow> b' k = None" and "\<And>k. receipts_of b k = receipts_of b' k"
  shows "b = b'"
proof
  fix k
  show "b k = b' k"
    using assms(1) [of k] assms(2) [of k]
    by (cases "b k"; cases "b' k") (simp_all add: receipts_of_def)
qed

lemma record_None [simp]: "record_receipt book h st n k = None \<longleftrightarrow> k \<noteq> h \<and> book k = None"
  by (simp add: record_receipt_def Let_def)

interpretation receipts: any_order absorb_receipt
proof
  fix a b :: "account \<times> receipt_state \<times> nat" and s
  obtain h st n h' st' n' where ab: "a = (h, st, n)" "b = (h', st', n')"
    by (cases a; cases b) auto
  show "absorb_receipt a (absorb_receipt b s) = absorb_receipt b (absorb_receipt a s)"
    unfolding ab absorb_receipt_def prod.case
    by (rule record_receipt_eqI) (auto simp: receipts_of_record max.commute max.left_commute)
  show "absorb_receipt a (absorb_receipt a s) = absorb_receipt a s"
    unfolding ab absorb_receipt_def prod.case
    by (rule record_receipt_eqI) (auto simp: receipts_of_record)
qed

lemma Max_insert_insert: "finite S \<Longrightarrow> Max (insert (x::nat) (insert n S)) = Max (insert (max x n) S)"
  by (cases "S = {}") (simp_all add: max.assoc max.commute)

lemma reached_fold:
  "reached (fold absorb_receipt es book) k st =
     Max (insert (reached book k st)
       {n. \<exists>st'. (k, st', n) \<in> set es \<and> (st' = Read \<or> st = Delivered)})"
  (is "_ = Max (insert _ (?S es))")
proof (induction es arbitrary: book)
  case (Cons e es)
  obtain h st' n where e: "e = (h, st', n)" by (cases e) auto
  have fin: "finite (?S es)"
    by (rule finite_subset [of _ "(snd \<circ> snd) ` set es"]) force+
  show ?case
  proof (cases "h = k \<and> (st' = Read \<or> st = Delivered)")
    case True
    then have "?S (e # es) = insert n (?S es)" by (auto simp: e)
    moreover have "reached (absorb_receipt e book) k st = max (reached book k st) n"
      using True by (auto simp: e absorb_receipt_def reached_record)
    ultimately show ?thesis
      using Max_insert_insert [OF fin] by (simp only: fold_Cons comp_apply Cons.IH)
  next
    case False
    then have "?S (e # es) = ?S es" by (auto simp: e)
    moreover have "reached (absorb_receipt e book) k st = reached book k st"
      using False by (auto simp: e absorb_receipt_def reached_record)
    ultimately show ?thesis by (simp only: fold_Cons comp_apply Cons.IH)
  qed
qed simp

subsection \<open>The book of a conversation\<close>

definition read_implies_delivered :: "receipt_book \<Rightarrow> bool" where
  "read_implies_delivered book \<longleftrightarrow>
     (\<forall>k. read_to (receipts_of book k) \<le> delivered_to (receipts_of book k))"

lemma read_implies_delivered_record:
  "read_implies_delivered book \<Longrightarrow> read_implies_delivered (record_receipt book h st n)"
  by (auto simp: read_implies_delivered_def receipts_of_record max.coboundedI1)

lemma status_mono_read:
  "status_of book peers seq rr = StatusRead \<Longrightarrow>
   status_of (record_receipt book h st n) peers seq rr = StatusRead"
  using reached_record_le [of book _ Read h st n]
  by (auto simp: status_of_def reached_def split: if_splits intro: order_trans)

lemma status_mono_delivered:
  "status_of book peers seq rr \<noteq> StatusSent \<Longrightarrow> read_implies_delivered book \<Longrightarrow>
   status_of (record_receipt book h st n) peers seq rr \<noteq> StatusSent"
  using reached_record_le [of book _ Delivered h st n]
  by (auto simp: status_of_def reached_def read_implies_delivered_def split: if_splits
      intro: order_trans) (meson order_trans)+

text \<open>C30. Receipts may arrive late, twice or out of order. After any run of receipts the cursor of
  an account is the largest number it acknowledged, a read counting as a delivery; hence two runs
  made of the same receipts, in whatever order and with whatever repetitions, leave the same
  book.\<close>

theorem receipts_any_order:
  "(set es = set fs \<longrightarrow> fold absorb_receipt es book = fold absorb_receipt fs book) \<and>
   reached (fold absorb_receipt es book) k st =
     Max (insert (reached book k st)
       {n. \<exists>st'. (k, st', n) \<in> set es \<and> (st' = Read \<or> st = Delivered)})"
  using receipts.fold_set_eq reached_fold by blast

theorem receipts_any_order_witness:
  "fold absorb_receipt [(js ''bob'', Read, 3), (js ''bob'', Delivered, 5)] Map.empty =
   fold absorb_receipt
     [(js ''bob'', Delivered, 5), (js ''bob'', Read, 3), (js ''bob'', Read, 3)] Map.empty"
  using receipts_any_order
    [of "[(js ''bob'', Read, 3), (js ''bob'', Delivered, 5)]"
        "[(js ''bob'', Delivered, 5), (js ''bob'', Read, 3), (js ''bob'', Read, 3)]"]
  by auto

text \<open>A tick never goes back: whatever receipt arrives, a message shown as read stays read, and
  one shown as delivered does not return to sent, in any book where reading implies having
  received, which \<open>record\<close> maintains.\<close>

theorem status_never_regresses:
  assumes "read_implies_delivered book"
  shows "read_implies_delivered (record_receipt book h st n) \<and>
    (status_of book peers seq rr = StatusRead \<longrightarrow>
       status_of (record_receipt book h st n) peers seq rr = StatusRead) \<and>
    (status_of book peers seq rr \<noteq> StatusSent \<longrightarrow>
       status_of (record_receipt book h st n) peers seq rr \<noteq> StatusSent)"
  using assms read_implies_delivered_record status_mono_read status_mono_delivered by blast

theorem status_never_regresses_witness:
  "status_of (record_receipt (Map.empty(js ''bob'' \<mapsto> \<lparr>delivered_to = 4, read_to = 4\<rparr>))
     (js ''bob'') Delivered 2) [js ''bob''] 3 True = StatusRead"
proof -
  let ?b = "Map.empty(js ''bob'' \<mapsto> \<lparr>delivered_to = 4, read_to = 4\<rparr>)"
  have "read_implies_delivered ?b" by (simp add: read_implies_delivered_def receipts_of_def)
  from status_never_regresses [OF this, of "js ''bob''" Delivered 2 "[js ''bob'']" 3 True]
  show ?thesis by (simp add: status_of_def receipts_of_def)
qed

text \<open>The cut in the receipt loop, at the level of the book: \<open>pending\<close> announces a number only
  when it passes what the account has acknowledged, and once that number is recorded nothing is
  pending for it any more.\<close>

theorem pending_announces_once:
  "pending_receipt (record_receipt book h st cursor) h st cursor = None \<and>
   (pending_receipt book h st cursor = Some n \<longleftrightarrow> n = cursor \<and> reached book h st < cursor)"
  by (cases st) (auto simp: pending_receipt_def reached_record)

end
