(* ===== verification/Timeline.thy ===== *)
theory Timeline
  imports Receipts Platform "HOL-Library.List_Lexorder"
begin

text \<open>
  What a conversation shows, as pure functions of what is held: the message and the queue of
  \<open>session-types.ts\<close>, \<open>expiry.ts\<close>, \<open>ordering.ts\<close>, \<open>conversation-view.ts\<close>, \<open>thread.ts\<close>, \<open>roster.ts\<close>,
  \<open>presence.ts\<close> and \<open>datetime.ts\<close>. The day a time falls on depends on the time zone of the machine: the
  function \<open>day\<close> stands for \<open>new Date(t).toDateString()\<close>. Default sorting compares UTF-16 code units, which
  is the lexicographic order of the library on \<^typ>\<open>jsstr\<close>.
\<close>

subsection \<open>Messages\<close>

record message =
  ms_seq :: nat
  ms_sender :: "account option"
  ms_mine :: bool
  ms_sent_at :: "int option"
  ms_expires_at :: "int option"
  ms_content :: content

datatype pending_state = Sending | Failed

record pending =
  pn_local_id :: jsstr
  pn_text :: jsstr
  pn_sent_at :: int
  pn_state :: pending_state

subsection \<open>Expiry\<close>

definition expiry_of :: "int option \<Rightarrow> int \<Rightarrow> int \<Rightarrow> int option" where
  "expiry_of sent_at seen_at lifetime_seconds =
     (if lifetime_seconds \<le> 0 then None
      else case sent_at of None \<Rightarrow> None | Some t \<Rightarrow> Some (min t seen_at + lifetime_seconds * 1000))"

definition is_expired :: "message \<Rightarrow> int \<Rightarrow> bool" where
  "is_expired m now = (case ms_expires_at m of None \<Rightarrow> False | Some t \<Rightarrow> t \<le> now)"

definition prune :: "message list \<Rightarrow> int \<Rightarrow> message list" where
  "prune ms now = filter (\<lambda>m. \<not> is_expired m now) ms"

lemma is_expired_mono: "is_expired m now \<Longrightarrow> now \<le> later \<Longrightarrow> is_expired m later"
  by (auto simp: is_expired_def split: option.splits)

lemma prune_prune: "now \<le> later \<Longrightarrow> prune (prune ms now) later = prune ms later"
  using is_expired_mono by (auto simp: prune_def intro: filter_cong)

text \<open>A sender can only shorten the life of a message. In a conversation with a lifetime, the
  deadline is never later than the lifetime counted from the moment this device first saw the message,
  whatever time the sender declares; once past it the message is pruned, by every later pruning, and
  pruning late or twice removes the same messages.\<close>

theorem expiry_bounded_by_receipt:
  assumes "0 < lifetime" and "expiry_of sent_at seen lifetime = Some deadline"
  shows "deadline \<le> seen + lifetime * 1000 \<and> (\<forall>t. sent_at = Some t \<longrightarrow> deadline \<le> t + lifetime * 1000) \<and>
    (deadline \<le> now \<longrightarrow> m\<lparr>ms_expires_at := Some deadline\<rparr> \<notin> set (prune ms now)) \<and>
    (now \<le> later \<longrightarrow> prune (prune ms now) later = prune ms later)"
  using assms prune_prune
  by (auto simp: expiry_of_def prune_def is_expired_def split: option.splits if_splits)

theorem expiry_bounded_by_receipt_witness:
  "expiry_of (Some 999999) 1000 60 = Some 61000 \<and> (61000::int) \<le> 1000 + 60 * 1000"
proof -
  have e: "expiry_of (Some 999999) 1000 60 = Some 61000" by (simp add: expiry_of_def)
  from expiry_bounded_by_receipt [OF _ e] e show ?thesis by simp
qed

subsection \<open>Days, durations, presence\<close>

definition opens_day :: "(int \<Rightarrow> 'd) \<Rightarrow> int option \<Rightarrow> int option \<Rightarrow> bool" where
  "opens_day day sent_at previous =
     (case sent_at of None \<Rightarrow> False
      | Some t \<Rightarrow> (case previous of None \<Rightarrow> True | Some p \<Rightarrow> day t \<noteq> day p))"

definition grouping_window_ms :: int where "grouping_window_ms = 5 * 60 * 1000"

definition continues ::
    "(int \<Rightarrow> 'd) \<Rightarrow> account option \<Rightarrow> int option \<Rightarrow> account option \<Rightarrow> int option \<Rightarrow> bool" where
  "continues day author sent_at previous_author previous_sent_at =
     (if author = None \<or> previous_author = None \<or> author \<noteq> previous_author then False
      else if opens_day day sent_at previous_sent_at then False
      else case (sent_at, previous_sent_at) of
        (Some t, Some p) \<Rightarrow> t - p < grouping_window_ms
      | _ \<Rightarrow> False)"

text \<open>Whole seconds: what \<open>Math.round\<close> leaves an integer at.\<close>

definition pad2 :: "nat \<Rightarrow> jsstr" where
  "pad2 n = replicate (2 - length (decimal n)) 0x30 @ decimal n"

definition spoken_duration :: "int \<Rightarrow> jsstr" where
  "spoken_duration seconds =
     (let whole = nat (max 0 seconds) in
      if whole < 60 then decimal whole @ js '' s''
      else if whole div 60 < 60 then decimal (whole div 60) @ js '' min''
      else decimal (whole div 60 div 60) @ js '' h '' @ pad2 (whole div 60 mod 60))"

definition spoken_lifetime :: "int \<Rightarrow> jsstr" where
  "spoken_lifetime seconds =
     (let whole = nat (max 0 seconds) in
      if whole mod 86400 = 0 \<and> whole \<ge> 86400
      then if whole div 86400 = 1 then js ''1 day'' else decimal (whole div 86400) @ js '' days''
      else if whole mod 3600 = 0 \<and> whole \<ge> 3600
      then if whole div 3600 = 1 then js ''1 hour'' else decimal (whole div 3600) @ js '' hours''
      else spoken_duration seconds)"

definition online_window_ms :: int where "online_window_ms = 150000"

definition is_online :: "int option \<Rightarrow> int \<Rightarrow> bool" where
  "is_online last_seen server_now =
     (case last_seen of None \<Rightarrow> False | Some t \<Rightarrow> server_now - t < online_window_ms)"

definition plural :: "int \<Rightarrow> jsstr" where
  "plural n = (if n = 1 then [] else js ''s'')"

definition ago_of :: "int \<Rightarrow> jsstr" where
  "ago_of elapsed =
     (let minutes = elapsed div 60000; hours = minutes div 60; days = hours div 24; weeks = days div 7;
          months = days div 30 in
      if minutes < 1 then js ''moments ago''
      else if minutes < 60 then decimal_int minutes @ js '' minute'' @ plural minutes @ js '' ago''
      else if hours < 24 then decimal_int hours @ js '' hour'' @ plural hours @ js '' ago''
      else if days = 1 then js ''yesterday''
      else if days < 7 then decimal_int days @ js '' days ago''
      else if weeks < 5 then decimal_int weeks @ js '' week'' @ plural weeks @ js '' ago''
      else if months < 12 then decimal_int months @ js '' month'' @ plural months @ js '' ago''
      else js ''over a year ago'')"

definition describe_presence :: "int option \<Rightarrow> int \<Rightarrow> jsstr" where
  "describe_presence last_seen server_now =
     (case last_seen of None \<Rightarrow> []
      | Some t \<Rightarrow> if is_online last_seen server_now then js ''online''
                 else js ''last seen '' @ ago_of (server_now - t))"

subsection \<open>The thread\<close>

definition unblocked :: "message list \<Rightarrow> account list \<Rightarrow> message list" where
  "unblocked ms blocked =
     (if blocked = [] then ms
      else filter (\<lambda>m. ms_mine m \<or> (case ms_sender m of None \<Rightarrow> True | Some a \<Rightarrow> a \<notin> set blocked)) ms)"

record row =
  row_key :: jsstr
  row_message :: message
  row_opens_day :: "int option"
  row_continues :: bool
  row_opens_unread :: bool

definition row_of ::
    "(int \<Rightarrow> 'd) \<Rightarrow> (message \<Rightarrow> account option) \<Rightarrow> nat \<Rightarrow> message option \<Rightarrow> message \<Rightarrow> row" where
  "row_of day author_of read_cursor before m =
     \<lparr>row_key = js ''seq:'' @ decimal (ms_seq m),
      row_message = m,
      row_opens_day = (if opens_day day (ms_sent_at m) (Option.bind before ms_sent_at) then ms_sent_at m else None),
      row_continues = (case before of None \<Rightarrow> False
        | Some b \<Rightarrow> continues day (author_of m) (ms_sent_at m) (author_of b) (ms_sent_at b)),
      row_opens_unread = (\<not> ms_mine m \<and> (case before of None \<Rightarrow> False
        | Some b \<Rightarrow> ms_seq m > read_cursor \<and> ms_seq b \<le> read_cursor))\<rparr>"

fun layout_from ::
    "(int \<Rightarrow> 'd) \<Rightarrow> (message \<Rightarrow> account option) \<Rightarrow> nat \<Rightarrow> message option \<Rightarrow> message list \<Rightarrow> row list" where
  "layout_from day author_of read_cursor before [] = []"
| "layout_from day author_of read_cursor before (m # ms) =
     row_of day author_of read_cursor before m # layout_from day author_of read_cursor (Some m) ms"

definition layout ::
    "(int \<Rightarrow> 'd) \<Rightarrow> (message \<Rightarrow> account option) \<Rightarrow> nat \<Rightarrow> message list \<Rightarrow> row list" where
  "layout day author_of read_cursor ms = layout_from day author_of read_cursor None ms"

definition text_of :: "message list \<Rightarrow> nat \<Rightarrow> jsstr" where
  "text_of ms seq =
     (case find (\<lambda>m. ms_seq m = seq) ms of
        None \<Rightarrow> js ''message unavailable''
      | Some m \<Rightarrow>
          (case ms_content m of
             Text t \<Rightarrow> t
           | Reply _ t \<Rightarrow> t
           | Attachment r \<Rightarrow> ref_name r
           | _ \<Rightarrow> [0x2026]))"

lemma layout_messages: "map row_message (layout_from day f c b ms) = ms"
  by (induction ms arbitrary: b) (simp_all add: row_of_def)

lemma layout_no_unread_past:
  "sorted (map ms_seq ms) \<Longrightarrow> b = Some x \<Longrightarrow> c < ms_seq x \<Longrightarrow> \<forall>m\<in>set ms. ms_seq x \<le> ms_seq m \<Longrightarrow>
     filter row_opens_unread (layout_from day f c b ms) = []"
  by (induction ms arbitrary: b x) (auto simp: row_of_def)

lemma layout_one_unread:
  "sorted (map ms_seq ms) \<Longrightarrow> length (filter row_opens_unread (layout_from day f c b ms)) \<le> 1"
proof (induction ms arbitrary: b)
  case (Cons m ms)
  show ?case
  proof (cases "row_opens_unread (row_of day f c b m)")
    case True
    then have "c < ms_seq m" by (auto simp: row_of_def split: option.splits)
    with Cons.prems have "filter row_opens_unread (layout_from day f c (Some m) ms) = []"
      by (intro layout_no_unread_past) auto
    with True show ?thesis by simp
  next
    case False
    with Cons show ?thesis by simp
  qed
qed simp

lemma layout_unread_boundary:
  "i < length ms \<Longrightarrow> row_opens_unread (layout_from day f c b ms ! i) \<longleftrightarrow>
     \<not> ms_mine (ms ! i) \<and> ms_seq (ms ! i) > c \<and>
     (if i = 0 then \<exists>x. b = Some x \<and> ms_seq x \<le> c else ms_seq (ms ! (i - 1)) \<le> c)"
proof (induction ms arbitrary: b i)
  case (Cons m ms)
  show ?case
  proof (cases i)
    case 0
    then show ?thesis by (auto simp: row_of_def split: option.splits)
  next
    case (Suc j)
    with Cons.prems Cons.IH [of j "Some m"] show ?thesis by (cases j) (auto simp: nth_Cons')
  qed
qed simp

text \<open>The thread is drawn whole and the unread line at most once. \<open>layout\<close> gives one row per message,
  in order; in a thread sorted by sequence number the unread line opens at most one row, and it opens
  exactly the row of a received message past the cursor whose predecessor is not past it.\<close>

theorem layout_unread_line:
  assumes "sorted (map ms_seq ms)" and "i < length ms"
  shows "map row_message (layout day f c ms) = ms \<and>
    length (filter row_opens_unread (layout day f c ms)) \<le> 1 \<and>
    (row_opens_unread (layout day f c ms ! i) \<longleftrightarrow>
      0 < i \<and> \<not> ms_mine (ms ! i) \<and> ms_seq (ms ! (i - 1)) \<le> c \<and> c < ms_seq (ms ! i))"
  using assms layout_messages [of day f c None ms] layout_one_unread [OF assms(1), of day f c None]
    layout_unread_boundary [OF assms(2), of day f c None]
  by (auto simp: layout_def)

definition received :: "nat \<Rightarrow> account \<Rightarrow> string \<Rightarrow> message" where
  "received seq sender text = \<lparr>ms_seq = seq, ms_sender = Some sender, ms_mine = False, ms_sent_at = None,
     ms_expires_at = None, ms_content = Text (js text)\<rparr>"

theorem layout_unread_line_witness:
  "row_opens_unread (layout (\<lambda>t. t) ms_sender 3
     [received 2 (js ''bob'') ''a'', received 3 (js ''bob'') ''b'', received 5 (js ''bob'') ''c''] ! 2)"
  using layout_unread_line
    [of "[received 2 (js ''bob'') ''a'', received 3 (js ''bob'') ''b'', received 5 (js ''bob'') ''c'']" 2 "\<lambda>t. t" ms_sender 3]
  by (simp add: received_def)

subsection \<open>What the list of conversations reads\<close>

text \<open>The fields of \<open>ConversationView\<close> that these functions read. A member of the tree is a device,
  named by its account, so an account with two devices appears twice.\<close>

record listed =
  li_peers :: "account list"
  li_accounts :: "account list"
  li_messages :: "message list"
  li_outbox :: "pending list"
  li_receipts :: receipt_book
  li_read_cursor :: nat

definition by_pinned_then_recent :: "bool \<times> int \<Rightarrow> bool \<times> int \<Rightarrow> int" where
  "by_pinned_then_recent a b =
     (let p = of_bool (fst b) - of_bool (fst a) in if p \<noteq> 0 then p else snd b - snd a)"

definition joined_by :: "16 word \<Rightarrow> jsstr list \<Rightarrow> jsstr" where
  "joined_by sep xs = (case xs of [] \<Rightarrow> [] | y # ys \<Rightarrow> y @ concat (map (\<lambda>z. sep # z) ys))"

definition matching_conversation :: "listed list \<Rightarrow> account list \<Rightarrow> account \<Rightarrow> listed option" where
  "matching_conversation views handles self =
     (let target = joined_by 0 (sort (uniq handles)) in
      find (\<lambda>v. joined_by 0 (sort (filter (\<lambda>n. n \<noteq> self) (uniq (li_peers v)))) = target) views)"

definition successor_of :: "listed \<Rightarrow> account list \<Rightarrow> account \<Rightarrow> account option" where
  "successor_of view moderators self =
     (let members = filter (\<lambda>n. n \<noteq> self) (li_peers view) in
      case find (\<lambda>n. n \<in> set moderators) members of
        Some m \<Rightarrow> Some m
      | None \<Rightarrow> (case members of [] \<Rightarrow> None | m # _ \<Rightarrow> Some m))"

definition unread_in :: "listed \<Rightarrow> nat" where
  "unread_in view = length (filter (\<lambda>m. \<not> ms_mine m \<and> ms_seq m > li_read_cursor view) (li_messages view))"

definition last_activity_in :: "listed \<Rightarrow> int" where
  "last_activity_in view =
     (let written = fold (\<lambda>e latest. max latest (pn_sent_at e)) (li_outbox view) 0;
          got = fold (\<lambda>m latest. max latest (case ms_sent_at m of None \<Rightarrow> 0 | Some t \<Rightarrow> t)) (li_messages view) 0
      in max written got)"

definition delivery_status_of :: "listed \<Rightarrow> nat \<Rightarrow> account \<Rightarrow> bool \<Rightarrow> delivery_status" where
  "delivery_status_of view seq self read_receipts =
     status_of (li_receipts view) (filter (\<lambda>h. h \<noteq> self) (uniq (li_accounts view))) seq read_receipts"

definition handles_in :: "listed \<Rightarrow> account list" where
  "handles_in view = uniq (li_accounts view @ li_peers view)"

text \<open>\<open>roster\<close>: everybody known, less those a one-to-one already exists with; \<open>sorter\<close> is the sort by
  \<open>localeCompare\<close>.\<close>

definition roster :: "(account list \<Rightarrow> account list) \<Rightarrow> listed list \<Rightarrow> account list \<Rightarrow> account \<Rightarrow> account list" where
  "roster sorter views verified self =
     (let others = map (\<lambda>v. filter (\<lambda>h. h \<noteq> self) (handles_in v)) views;
          paired = concat (filter (\<lambda>hs. length hs = 1) others)
      in sorter (filter (\<lambda>h. h \<noteq> self \<and> h \<notin> set paired) (uniq (concat (map handles_in views) @ verified))))"

text \<open>Empty, or starting with the separator.\<close>

definition starts :: "'a \<Rightarrow> 'a list \<Rightarrow> bool" where
  "starts sep u \<longleftrightarrow> u = [] \<or> hd u = sep"

lemma append_sep_eq:
  "sep \<notin> set x \<Longrightarrow> sep \<notin> set y \<Longrightarrow> starts sep u \<Longrightarrow> starts sep v \<Longrightarrow>
     x @ u = y @ v \<longleftrightarrow> x = y \<and> u = v"
proof (induction x arbitrary: y)
  case Nil
  then show ?case by (cases y; cases u; auto simp: starts_def)
next
  case (Cons a x)
  then show ?case by (cases y; cases v; auto simp: starts_def)
qed

lemma starts_concat [simp]: "starts sep (concat (map (\<lambda>z. sep # z) xs))"
  by (cases xs) (simp_all add: starts_def)

lemma concat_sep_inject:
  "\<forall>x\<in>set xs \<union> set ys. sep \<notin> set x \<Longrightarrow>
     concat (map (\<lambda>z. sep # z) xs) = concat (map (\<lambda>z. sep # z) ys) \<longleftrightarrow> xs = ys"
proof (induction xs arbitrary: ys)
  case Nil
  then show ?case by (cases ys) auto
next
  case (Cons x xs)
  show ?case
  proof (cases ys)
    case (Cons y zs)
    have "x @ concat (map (\<lambda>z. sep # z) xs) = y @ concat (map (\<lambda>z. sep # z) zs) \<longleftrightarrow>
        x = y \<and> concat (map (\<lambda>z. sep # z) xs) = concat (map (\<lambda>z. sep # z) zs)"
      using Cons.prems Cons by (intro append_sep_eq) auto
    then show ?thesis using Cons.IH [of zs] Cons.prems Cons by simp
  qed simp
qed

lemma joined_by_inject:
  "\<forall>x\<in>set xs \<union> set ys. sep \<notin> set x \<and> x \<noteq> [] \<Longrightarrow> joined_by sep xs = joined_by sep ys \<longleftrightarrow> xs = ys"
proof (cases xs; cases ys)
  fix x xs' y ys'
  assume all: "\<forall>x\<in>set xs \<union> set ys. sep \<notin> set x \<and> x \<noteq> []" and eq: "xs = x # xs'" "ys = y # ys'"
  then have "joined_by sep xs = joined_by sep ys \<longleftrightarrow>
      x = y \<and> concat (map (\<lambda>z. sep # z) xs') = concat (map (\<lambda>z. sep # z) ys')"
    unfolding joined_by_def eq list.case
    by (intro append_sep_eq) auto
  then show ?thesis using concat_sep_inject [of xs' ys' sep] all eq by auto
qed (auto simp: joined_by_def)

lemma sort_uniq_eq: "sort (uniq xs) = sort (uniq ys) \<longleftrightarrow> set xs = set (ys :: 'a::linorder list)"
proof
  assume "sort (uniq xs) = sort (uniq ys)"
  then show "set xs = set ys" by (metis set_sort set_uniq)
next
  assume "set xs = set ys"
  then show "sort (uniq xs) = sort (uniq ys)"
    by (intro sorted_distinct_set_unique) (simp_all add: distinct_sort)
qed

text \<open>Account ids never hold a NUL, and are never empty.\<close>

definition names_ok :: "jsstr list \<Rightarrow> bool" where
  "names_ok ns \<longleftrightarrow> list_all (\<lambda>n. n \<noteq> [] \<and> 0 \<notin> set n) ns"

text \<open>A conversation is found again by its members and by nothing else: \<open>matchingConversation\<close> gives
  the first one whose members, ourselves apart, are exactly the accounts asked for, whatever the order,
  the repetitions and the number of devices, and gives none only when there is none. In particular it
  never finds one when the accounts asked for include our own.\<close>

theorem matching_conversation_by_members:
  assumes "names_ok handles" and "\<forall>v\<in>set views. names_ok (li_peers v)"
  shows "(case matching_conversation views handles self of
      Some v \<Rightarrow> v \<in> set views \<and> set (li_peers v) - {self} = set handles
    | None \<Rightarrow> \<forall>v\<in>set views. set (li_peers v) - {self} \<noteq> set handles) \<and>
    (self \<in> set handles \<longrightarrow> matching_conversation views handles self = None)"
proof -
  have eq: "joined_by 0 (sort (filter (\<lambda>n. n \<noteq> self) (uniq (li_peers v)))) = joined_by 0 (sort (uniq handles)) \<longleftrightarrow>
      set (li_peers v) - {self} = set handles" if "v \<in> set views" for v
  proof -
    have "sort (filter (\<lambda>n. n \<noteq> self) (uniq (li_peers v))) = sort (uniq (filter (\<lambda>n. n \<noteq> self) (uniq (li_peers v))))"
      by (simp add: uniq_distinct)
    moreover have "joined_by 0 (sort (filter (\<lambda>n. n \<noteq> self) (uniq (li_peers v)))) = joined_by 0 (sort (uniq handles)) \<longleftrightarrow>
        sort (filter (\<lambda>n. n \<noteq> self) (uniq (li_peers v))) = sort (uniq handles)"
      using assms that by (intro joined_by_inject) (auto simp: names_ok_def list_all_iff)
    ultimately show ?thesis by (auto simp: sort_uniq_eq)
  qed
  show ?thesis
  proof (cases "matching_conversation views handles self")
    case None
    then have "\<forall>v\<in>set views. set (li_peers v) - {self} \<noteq> set handles"
      using eq by (auto simp: matching_conversation_def find_None_iff Let_def)
    with None show ?thesis by simp
  next
    case (Some v)
    then obtain i where "i < length views" "v = views ! i"
      "joined_by 0 (sort (filter (\<lambda>n. n \<noteq> self) (uniq (li_peers v)))) = joined_by 0 (sort (uniq handles))"
      by (auto simp: matching_conversation_def find_Some_iff Let_def)
    then have "v \<in> set views" "set (li_peers v) - {self} = set handles" using eq by auto
    then show ?thesis using Some by auto
  qed
qed

theorem matching_conversation_by_members_witness:
  "matching_conversation
     [\<lparr>li_peers = [js ''bob'', js ''me'', js ''bob''], li_accounts = [], li_messages = [], li_outbox = [],
       li_receipts = Map.empty, li_read_cursor = 0\<rparr>] [js ''bob''] (js ''me'') \<noteq> None"
proof -
  let ?v = "\<lparr>li_peers = [js ''bob'', js ''me'', js ''bob''], li_accounts = [], li_messages = [], li_outbox = [],
       li_receipts = Map.empty, li_read_cursor = 0\<rparr>"
  have "names_ok [js ''bob'']" "\<forall>v\<in>set [?v]. names_ok (li_peers v)" by (simp_all add: names_ok_def js_def)
  from matching_conversation_by_members [OF this, of "js ''me''"]
  show ?thesis by (auto split: option.splits simp: js_def)
qed

lemma fold_max_le: "fold (\<lambda>x m. max m (f x)) xs a \<le> b \<longleftrightarrow> (\<forall>x\<in>set xs. f x \<le> (b::int)) \<and> a \<le> b"
proof (induction xs arbitrary: a)
  case (Cons x xs)
  then show ?case by (simp only: fold_Cons comp_apply) auto
qed simp

lemma last_activity_bound: "last_activity_in v \<le> b \<longleftrightarrow> 0 \<le> b \<and>
    (\<forall>e\<in>set (li_outbox v). pn_sent_at e \<le> b) \<and> (\<forall>m\<in>set (li_messages v). \<forall>t. ms_sent_at m = Some t \<longrightarrow> t \<le> b)"
  unfolding last_activity_in_def Let_def max.bounded_iff fold_max_le
  by (auto split: option.splits)

lemma set_roster:
  "set (roster (\<lambda>x. x) views verified self) =
     (\<Union>v\<in>set views. set (handles_in v)) \<union> set verified - {self} -
     {h. \<exists>v\<in>set views. set (handles_in v) - {self} = {h}}"
proof -
  have one: "length (filter (\<lambda>h. h \<noteq> self) (handles_in v)) = 1 \<longleftrightarrow>
      (\<exists>h. set (handles_in v) - {self} = {h})" for v
  proof -
    have "length (filter (\<lambda>h. h \<noteq> self) (handles_in v)) = card (set (handles_in v) - {self})"
      by (subst distinct_card [symmetric]) (auto simp: handles_in_def intro: arg_cong [where f = card])
    then show ?thesis by (simp add: card_1_singleton_iff)
  qed
  have paired: "h \<in> set (concat (filter (\<lambda>hs. length hs = 1) (map (\<lambda>v. filter (\<lambda>h. h \<noteq> self) (handles_in v)) views))) \<longleftrightarrow>
      (\<exists>v\<in>set views. set (handles_in v) - {self} = {h})" for h
  proof
    assume "h \<in> set (concat (filter (\<lambda>hs. length hs = 1) (map (\<lambda>v. filter (\<lambda>h. h \<noteq> self) (handles_in v)) views)))"
    then obtain v where v: "v \<in> set views" "length (filter (\<lambda>h. h \<noteq> self) (handles_in v)) = 1"
      "h \<in> set (handles_in v) - {self}"
      by auto
    from v(2) one [of v] obtain h' where "set (handles_in v) - {self} = {h'}" by blast
    with v(3) have "set (handles_in v) - {self} = {h}" by simp
    with v(1) show "\<exists>v\<in>set views. set (handles_in v) - {self} = {h}" by blast
  next
    assume "\<exists>v\<in>set views. set (handles_in v) - {self} = {h}"
    then obtain v where v: "v \<in> set views" "set (handles_in v) - {self} = {h}" by blast
    then have "length (filter (\<lambda>h. h \<noteq> self) (handles_in v)) = 1" using one [of v] by blast
    moreover have "h \<in> set (filter (\<lambda>h. h \<noteq> self) (handles_in v))" using v(2) by auto
    ultimately show "h \<in> set (concat (filter (\<lambda>hs. length hs = 1) (map (\<lambda>v. filter (\<lambda>h. h \<noteq> self) (handles_in v)) views)))"
      using v(1) by auto
  qed
  show ?thesis unfolding roster_def Let_def set_filter paired by auto
qed

end
