(* ===== verification/Vault.thy ===== *)
theory Vault
  imports Timeline
begin

text \<open>
  The server archive: \<open>vault.ts\<close>, which encrypts a message, pages deposits and restores, and
  \<open>session-vault.ts\<close>, the \<open>Archive\<close> a session holds. The server is what the \<open>VaultApi\<close> answers, an
  argument of each operation; AES-GCM, \<open>JSON.parse\<close> and the descriptor's JSON are parameters, as in the
  theories of the formats. A request that fails is a value.
\<close>

definition page :: nat where "page = 200"

subsection \<open>One entry\<close>

record archived =
  ar_sender :: "account option"
  ar_mine :: bool
  ar_body :: bytes

definition json_of_archived :: "archived \<Rightarrow> json" where
  "json_of_archived a = JObj
     [(js ''sender'', case ar_sender a of None \<Rightarrow> JNull | Some s \<Rightarrow> JStr s),
      (js ''mine'', JBool (ar_mine a)),
      (js ''body'', JArr (map (\<lambda>b. JNum (uint b)) (ar_body a)))]"

text \<open>The cast of the parsed value, on the shape this module writes; any other is \<open>None\<close>.\<close>

fun json_bytes :: "json list \<Rightarrow> bytes option" where
  "json_bytes [] = Some []"
| "json_bytes (JNum n # rest) = map_option ((#) (word_of_int n)) (json_bytes rest)"
| "json_bytes _ = None"

definition read_sender :: "json \<Rightarrow> account option option" where
  "read_sender j = (case j of JNull \<Rightarrow> Some None | JStr s \<Rightarrow> Some (Some s) | _ \<Rightarrow> None)"

definition read_archived :: "json \<Rightarrow> archived option" where
  "read_archived j =
     (case (Option.bind (field j ''sender'') read_sender, field j ''mine'', field j ''body'') of
        (Some s, Some (JBool m), Some (JArr b)) \<Rightarrow>
          map_option (\<lambda>bs. \<lparr>ar_sender = s, ar_mine = m, ar_body = bs\<rparr>) (json_bytes b)
      | _ \<Rightarrow> None)"

datatype entry_error = BodyRefused content_error | BlobDoesNotOpen | MalformedEntry

definition encrypt_entry ::
    "(attachment_ref \<Rightarrow> jsstr) \<Rightarrow> ('k \<Rightarrow> bytes \<Rightarrow> bytes \<Rightarrow> bytes) \<Rightarrow> bytes \<Rightarrow> 'k \<Rightarrow> message \<Rightarrow> entry_error + bytes" where
  "encrypt_entry stringify enc iv key m =
     (case encode stringify (ms_content m) (ms_sent_at m) of
        Inl e \<Rightarrow> Inl (BodyRefused e)
      | Inr body \<Rightarrow>
          Inr (seal enc iv key (text_encode (json_text (json_of_archived
            \<lparr>ar_sender = ms_sender m, ar_mine = ms_mine m, ar_body = body\<rparr>)))))"

definition decrypt_entry ::
    "(jsstr \<Rightarrow> raw_ref option) \<Rightarrow> (jsstr \<Rightarrow> json option) \<Rightarrow> ('k \<Rightarrow> bytes \<Rightarrow> bytes \<Rightarrow> bytes option) \<Rightarrow>
     int \<Rightarrow> 'k \<Rightarrow> nat \<Rightarrow> bytes \<Rightarrow> entry_error + message" where
  "decrypt_entry parse_ref parse dec now key seq blob =
     (case unseal dec key blob of
        None \<Rightarrow> Inl BlobDoesNotOpen
      | Some plaintext \<Rightarrow>
          (case Option.bind (parse (text_decode plaintext)) read_archived of
             None \<Rightarrow> Inl MalformedEntry
           | Some a \<Rightarrow>
               (case decode parse_ref now (ar_body a) of
                  Inl e \<Rightarrow> Inl (BodyRefused e)
                | Inr d \<Rightarrow>
                    Inr \<lparr>ms_seq = seq, ms_sender = ar_sender a, ms_mine = ar_mine a,
                         ms_sent_at = stamped_at d, ms_expires_at = None, ms_content = stamped_body d\<rparr>)))"

subsection \<open>Pages\<close>

text \<open>The batches of a deposit.\<close>

function batches :: "'a list \<Rightarrow> 'a list list" where
  "batches xs = (if xs = [] then [] else take page xs # batches (drop page xs))"
  by auto
termination by (relation "measure length") (auto simp: page_def)

declare batches.simps [simp del]

datatype api_answer = ApiOk | ApiNoRoom | ApiFailed

datatype deposit_outcome = Deposited | RefusedForRoom | DepositFailed

text \<open>Serial deposits: what the server took, and how it ended. The first refusal stops the rest, and a
  message that cannot be encrypted fails its batch before anything of it is sent.\<close>

fun store_batches ::
    "(message \<Rightarrow> entry_error + bytes) \<Rightarrow> message list list \<Rightarrow> api_answer list \<Rightarrow>
     (nat \<times> bytes) list \<times> deposit_outcome" where
  "store_batches encrypt [] answers = ([], Deposited)"
| "store_batches encrypt (b # bs) answers =
     (let entries = map (\<lambda>m. (ms_seq m, encrypt m)) b in
      if \<exists>e\<in>set entries. case snd e of Inl _ \<Rightarrow> True | Inr _ \<Rightarrow> False then ([], DepositFailed)
      else case answers of
        ApiOk # later \<Rightarrow>
          (let (taken, outcome) = store_batches encrypt bs later
           in (map (\<lambda>(s, p). (s, case p of Inr x \<Rightarrow> x | Inl _ \<Rightarrow> [])) entries @ taken, outcome))
      | ApiNoRoom # _ \<Rightarrow> ([], RefusedForRoom)
      | _ \<Rightarrow> ([], DepositFailed))"

definition vault_store ::
    "(message \<Rightarrow> entry_error + bytes) \<Rightarrow> message list \<Rightarrow> api_answer list \<Rightarrow> (nat \<times> bytes) list \<times> deposit_outcome" where
  "vault_store encrypt ms answers = store_batches encrypt (batches ms) answers"

record restored =
  rs_messages :: "message list"
  rs_unreadable :: nat

definition take_row :: "(nat \<Rightarrow> bytes \<Rightarrow> entry_error + message) \<Rightarrow> nat \<times> bytes \<Rightarrow> restored \<Rightarrow> restored" where
  "take_row decrypt row r =
     (case decrypt (fst row) (snd row) of
        Inr m \<Rightarrow> r\<lparr>rs_messages := rs_messages r @ [m]\<rparr>
      | Inl _ \<Rightarrow> r\<lparr>rs_unreadable := rs_unreadable r + 1\<rparr>)"

text \<open>The loop of \<open>restore\<close>. The server decides when it ends: \<open>None\<close> is a run that never does, \<open>Some None\<close> a
  request that failed.\<close>

partial_function (option) restore_pages ::
    "(nat \<Rightarrow> bytes \<Rightarrow> entry_error + message) \<Rightarrow> (nat \<Rightarrow> (nat \<times> bytes) list option) \<Rightarrow> nat \<Rightarrow> restored \<Rightarrow>
     restored option option" where
  "restore_pages decrypt fetch after r =
     (case fetch after of
        None \<Rightarrow> Some None
      | Some rows \<Rightarrow>
          if rows = [] then Some (Some r)
          else if length rows < page then Some (Some (fold (take_row decrypt) rows r))
          else restore_pages decrypt fetch (fst (last rows)) (fold (take_row decrypt) rows r))"

definition vault_restore ::
    "(nat \<Rightarrow> bytes \<Rightarrow> entry_error + message) \<Rightarrow> (nat \<Rightarrow> (nat \<times> bytes) list option) \<Rightarrow> restored option option" where
  "vault_restore decrypt fetch = restore_pages decrypt fetch 0 \<lparr>rs_messages = [], rs_unreadable = 0\<rparr>"

definition vault_merge :: "message list \<Rightarrow> message list \<Rightarrow> message list" where
  "vault_merge existing archives = filter (\<lambda>m. ms_seq m \<notin> ms_seq ` set existing) archives"

subsection \<open>The archive of a session\<close>

record 'k archive =
  av_key :: "'k option"
  av_full :: bool

definition archive_off :: "'k archive" where
  "archive_off = \<lparr>av_key = None, av_full = False\<rparr>"

text \<open>\<open>open\<close>: a key that cannot be imported leaves archiving off; \<open>enable\<close> throws instead.\<close>

definition archive_open :: "'k option \<Rightarrow> 'k archive" where
  "archive_open imported = archive_off\<lparr>av_key := imported\<rparr>"

definition archive_enable :: "'k option \<Rightarrow> 'k archive \<Rightarrow> 'k archive option" where
  "archive_enable imported a = (case imported of None \<Rightarrow> None | Some k \<Rightarrow> Some (a\<lparr>av_key := Some k\<rparr>))"

definition archive_disable :: "'k archive \<Rightarrow> 'k archive" where
  "archive_disable a = a\<lparr>av_key := None\<rparr>"

definition archive_snapshot :: "'k archive \<Rightarrow> bool" where
  "archive_snapshot a \<longleftrightarrow> av_key a \<noteq> None"

datatype restore_error = RestoreUnreachable | RecoveryPhraseChanged

definition archive_restore ::
    "('k \<Rightarrow> nat \<Rightarrow> bytes \<Rightarrow> entry_error + message) \<Rightarrow> (nat \<Rightarrow> (nat \<times> bytes) list option) \<Rightarrow> int \<Rightarrow>
     message list \<Rightarrow> 'k archive \<Rightarrow> (restore_error + message list) option" where
  "archive_restore decrypt fetch lifetime held a =
     (case av_key a of
        None \<Rightarrow> Some (Inr [])
      | Some k \<Rightarrow>
          if lifetime > 0 then Some (Inr [])
          else case vault_restore (decrypt k) fetch of
            None \<Rightarrow> None
          | Some None \<Rightarrow> Some (Inl RestoreUnreachable)
          | Some (Some r) \<Rightarrow>
              if rs_messages r = [] \<and> rs_unreadable r > 0 then Some (Inl RecoveryPhraseChanged)
              else Some (Inr (vault_merge held (rs_messages r))))"

definition archive_store ::
    "('k \<Rightarrow> message \<Rightarrow> entry_error + bytes) \<Rightarrow> message list \<Rightarrow> int \<Rightarrow> api_answer list \<Rightarrow> 'k archive \<Rightarrow>
     (nat \<times> bytes) list \<times> 'k archive" where
  "archive_store encrypt ms lifetime answers a =
     (case av_key a of
        None \<Rightarrow> ([], a)
      | Some k \<Rightarrow>
          if ms = [] \<or> lifetime > 0 then ([], a)
          else (case vault_store (encrypt k) ms answers of
              (taken, Deposited) \<Rightarrow> (taken, a\<lparr>av_full := False\<rparr>)
            | (taken, RefusedForRoom) \<Rightarrow> (taken, a\<lparr>av_full := True\<rparr>)
            | (taken, DepositFailed) \<Rightarrow> (taken, a)))"

text \<open>\<open>Session.deposit\<close>: the conversation's own refusal first.\<close>

definition deposit ::
    "('k \<Rightarrow> message \<Rightarrow> entry_error + bytes) \<Rightarrow> bool \<Rightarrow> message list \<Rightarrow> int \<Rightarrow> api_answer list \<Rightarrow> 'k archive \<Rightarrow>
     (nat \<times> bytes) list \<times> 'k archive" where
  "deposit encrypt archives_here ms lifetime answers a =
     (if \<not> archives_here then ([], a) else archive_store encrypt ms lifetime answers a)"

subsection \<open>Round trip of an entry\<close>

lemma json_bytes_back: "json_bytes (map (\<lambda>b. JNum (uint b)) bs) = Some bs"
  by (induction bs) simp_all

lemma read_archived_back: "read_archived (json_of_archived a) = Some a"
  by (cases a; cases "ar_sender a")
    (simp_all add: read_archived_def json_of_archived_def field_def json_bytes_back read_sender_def)

text \<open>A message the archive can give back: its content is one the codec carries, it is no control
  traffic if it is stamped, its entry is plain text, and \<open>JSON.parse\<close> reads it.\<close>

definition archivable ::
    "(attachment_ref \<Rightarrow> jsstr) \<Rightarrow> (jsstr \<Rightarrow> raw_ref option) \<Rightarrow> (jsstr \<Rightarrow> json option) \<Rightarrow> int \<Rightarrow> message \<Rightarrow> bool" where
  "archivable stringify parse_ref parse now m \<longleftrightarrow>
     message_ok stringify parse_ref now \<lparr>stamped_body = ms_content m, stamped_at = ms_sent_at m\<rparr> \<and>
     (let j = json_of_archived \<lparr>ar_sender = ms_sender m, ar_mine = ms_mine m,
        ar_body = encode_message stringify \<lparr>stamped_body = ms_content m, stamped_at = ms_sent_at m\<rparr>\<rparr>
      in plain_text (json_text j) \<and> parse (json_text j) = Some j)"

lemma encode_message_Inr:
  "message_ok stringify parse_ref now \<lparr>stamped_body = c, stamped_at = t\<rparr> \<Longrightarrow>
     encode stringify c t = Inr (encode_message stringify \<lparr>stamped_body = c, stamped_at = t\<rparr>)"
  using decode_encode [of stringify parse_ref now c t]
  by (auto simp: message_ok_def encode_message_def split: option.splits)

lemma decrypt_encrypt:
  assumes "aead enc dec" and "length iv = 12" and "archivable stringify parse_ref parse now m"
  shows "\<exists>blob. encrypt_entry stringify enc iv key m = Inr blob \<and>
    decrypt_entry parse_ref parse dec now key (ms_seq m) blob = Inr (m\<lparr>ms_expires_at := None\<rparr>)"
proof -
  let ?s = "\<lparr>stamped_body = ms_content m, stamped_at = ms_sent_at m\<rparr>"
  let ?a = "\<lparr>ar_sender = ms_sender m, ar_mine = ms_mine m, ar_body = encode_message stringify ?s\<rparr>"
  from assms(3) have ok: "message_ok stringify parse_ref now ?s"
    and j: "plain_text (json_text (json_of_archived ?a))"
      "parse (json_text (json_of_archived ?a)) = Some (json_of_archived ?a)"
    by (simp_all add: archivable_def Let_def)
  show ?thesis
    by (simp add: encrypt_entry_def encode_message_Inr [OF ok] decrypt_entry_def unseal_seal [OF assms(1,2)]
        text_decode_encode [OF j(1)] j(2) read_archived_back content.dec_enc [OF ok])
qed

subsection \<open>No page is lost\<close>

lemma concat_batches: "concat (batches xs) = xs"
  by (induction xs rule: batches.induct) (subst batches.simps, simp)

lemma length_batch: "b \<in> set (batches xs) \<Longrightarrow> length b \<le> page"
  by (induction xs rule: batches.induct) (subst (asm) (2) batches.simps, auto split: if_splits)

text \<open>A server that keeps its word: the rows after a number, ascending, at most a page of them.\<close>

definition serves :: "(nat \<times> 'b) list \<Rightarrow> nat \<Rightarrow> (nat \<times> 'b) list option" where
  "serves table after = Some (take page (filter (\<lambda>r. after < fst r) table))"

lemma filter_after_last:
  assumes "sorted_wrt (\<lambda>r s. fst r < fst s) (table :: (nat \<times> 'b) list)"
    and "rest = filter (\<lambda>r. after < fst r) table" and "take page rest \<noteq> []"
  shows "filter (\<lambda>r. fst (last (take page rest)) < fst r) table = drop page rest"
proof -
  let ?l = "fst (last (take page rest))"
  have sorted: "sorted_wrt (\<lambda>r s. fst r < fst s) rest" using assms(1,2) by (simp add: sorted_wrt_filter)
  have "last (take page rest) \<in> set rest" using assms(3) by (metis in_set_takeD last_in_set)
  then have "after < ?l" using assms(2) by auto
  then have "filter (\<lambda>r. ?l < fst r) table = filter (\<lambda>r. ?l < fst r) rest"
    unfolding assms(2) filter_filter by (intro filter_cong) auto
  also have "\<dots> = filter (\<lambda>r. ?l < fst r) (take page rest) @ filter (\<lambda>r. ?l < fst r) (drop page rest)"
    by (metis append_take_drop_id filter_append)
  also have "filter (\<lambda>r. ?l < fst r) (take page rest) = []"
  proof -
    have "take page rest = butlast (take page rest) @ [last (take page rest)]" using assms(3) by simp
    then have "sorted_wrt (\<lambda>r s. fst r < fst s) (butlast (take page rest) @ [last (take page rest)])"
      using sorted by (simp add: sorted_wrt_take)
    then have "\<forall>x\<in>set (butlast (take page rest)). fst x < ?l" by (simp add: sorted_wrt_append)
    then have "\<forall>x\<in>set (take page rest). \<not> ?l < fst x"
      by (metis append_butlast_last_id assms(3) less_irrefl not_less_iff_gr_or_eq rotate1.simps(2) set_ConsD set_rotate1)
    then show ?thesis by (simp add: filter_empty_conv)
  qed
  also have "filter (\<lambda>r. ?l < fst r) (drop page rest) = drop page rest"
  proof -
    have "sorted_wrt (\<lambda>r s. fst r < fst s) (take page rest @ drop page rest)" using sorted by simp
    then have "\<forall>x\<in>set (drop page rest). ?l < fst x"
      using assms(3) by (metis last_in_set sorted_wrt_append)
    then show ?thesis by (simp add: filter_id_conv)
  qed
  finally show ?thesis by simp
qed

lemma restore_all_pages:
  assumes "sorted_wrt (\<lambda>r s. fst r < fst s) table"
  shows "restore_pages decrypt (serves table) after r =
    Some (Some (fold (take_row decrypt) (filter (\<lambda>row. after < fst row) table) r))"
proof (induction "length (filter (\<lambda>row. after < fst row) table)" arbitrary: after r rule: less_induct)
  case less
  let ?rest = "filter (\<lambda>row. after < fst row) table"
  let ?rows = "take page ?rest"
  have serves: "serves table after = Some ?rows" by (simp add: serves_def)
  show ?case
  proof (cases "length ?rows < page")
    case True
    then have "?rows = ?rest" by (simp add: min_def split: if_splits)
    with True serves show ?thesis by (subst restore_pages.simps) (auto simp del: take_all_iff)
  next
    case False
    then have ne: "?rows \<noteq> []" by (auto simp: page_def)
    have after: "filter (\<lambda>row. fst (last ?rows) < fst row) table = drop page ?rest"
      by (rule filter_after_last [OF assms refl ne])
    have "length (drop page ?rest) < length ?rest" using ne by (auto simp: page_def)
    then have "restore_pages decrypt (serves table) (fst (last ?rows)) (fold (take_row decrypt) ?rows r) =
        Some (Some (fold (take_row decrypt) (drop page ?rest) (fold (take_row decrypt) ?rows r)))"
      using less [of "fst (last ?rows)" "fold (take_row decrypt) ?rows r"] by (simp only: after)
    moreover have "fold (take_row decrypt) ?rest r = fold (take_row decrypt) (drop page ?rest) (fold (take_row decrypt) ?rows r)"
      by (metis append_take_drop_id comp_apply fold_append)
    ultimately show ?thesis
      using False ne serves by (subst restore_pages.simps) (simp del: take_eq_Nil take_eq_Nil2)
  qed
qed

lemma fold_take_row:
  "\<forall>row\<in>set rows. \<exists>m. decrypt (fst row) (snd row) = Inr m \<Longrightarrow>
     fold (take_row decrypt) rows r =
       r\<lparr>rs_messages := rs_messages r @ map (\<lambda>row. case decrypt (fst row) (snd row) of Inr m \<Rightarrow> m) rows\<rparr>"
  by (induction rows arbitrary: r) (auto simp: take_row_def)

lemma store_all_batches:
  "\<forall>b\<in>set bs. \<forall>m\<in>set b. encrypt m = Inr (blob m) \<Longrightarrow> length bs \<le> n \<Longrightarrow>
     store_batches encrypt bs (replicate n ApiOk) = (map (\<lambda>m. (ms_seq m, blob m)) (concat bs), Deposited)"
proof (induction bs arbitrary: n)
  case (Cons b bs)
  then obtain k where n: "n = Suc k" "length bs \<le> k" by (cases n) auto
  have "store_batches encrypt bs (replicate k ApiOk) = (map (\<lambda>m. (ms_seq m, blob m)) (concat bs), Deposited)"
    using Cons n by auto
  moreover have "map (\<lambda>(s, p). (s, case p of Inr x \<Rightarrow> x | Inl _ \<Rightarrow> [])) (map (\<lambda>m. (ms_seq m, encrypt m)) b) =
      map (\<lambda>m. (ms_seq m, blob m)) b"
    using Cons.prems(1) by auto
  ultimately show ?case using Cons.prems(1) n by (auto simp: Let_def)
qed simp

text \<open>C39. The archive gives back everything that was put in it. Deposit any number of messages, in order
  of their numbers, with a server that takes every batch and serves its rows a page at a time: restoring
  ends, with every message, its content, author and time, in the same order, and nothing unreadable.
  Only the local deadline is not archived.\<close>

theorem archive_returns_everything:
  assumes "aead enc dec" and "length iv = 12"
    and "\<forall>m\<in>set ms. archivable stringify parse_ref parse now m \<and> 0 < ms_seq m"
    and "sorted_wrt (\<lambda>m n. ms_seq m < ms_seq n) ms" and "length (batches ms) \<le> n"
  shows "(let (taken, outcome) = vault_store (encrypt_entry stringify enc iv key) ms (replicate n ApiOk) in
    outcome = Deposited \<and>
    vault_restore (decrypt_entry parse_ref parse dec now key) (serves taken) =
      Some (Some \<lparr>rs_messages = map (\<lambda>m. m\<lparr>ms_expires_at := None\<rparr>) ms, rs_unreadable = 0\<rparr>))"
proof -
  define blob where "blob m = (case encrypt_entry stringify enc iv key m of Inr x \<Rightarrow> x | Inl _ \<Rightarrow> [])" for m
  let ?enc = "encrypt_entry stringify enc iv key"
  let ?dec = "decrypt_entry parse_ref parse dec now key"
  let ?taken = "map (\<lambda>m. (ms_seq m, blob m)) ms"
  have each: "?enc m = Inr (blob m) \<and> ?dec (ms_seq m) (blob m) = Inr (m\<lparr>ms_expires_at := None\<rparr>)" if "m \<in> set ms" for m
    using decrypt_encrypt [OF assms(1,2), of stringify parse_ref parse now m key] assms(3) that
    by (auto simp: blob_def)
  have "\<forall>b\<in>set (batches ms). \<forall>m\<in>set b. ?enc m = Inr (blob m)"
    using each concat_batches [of ms] by (metis UN_I set_concat)
  from store_all_batches [OF this assms(5)]
  have stored: "vault_store ?enc ms (replicate n ApiOk) = (?taken, Deposited)"
    by (simp add: vault_store_def concat_batches)
  have "sorted_wrt (\<lambda>r s. fst r < fst s) ?taken" using assms(4) by (simp add: sorted_wrt_map)
  from restore_all_pages [OF this]
  have "vault_restore ?dec (serves ?taken) =
      Some (Some (fold (take_row ?dec) (filter (\<lambda>row. 0 < fst row) ?taken) \<lparr>rs_messages = [], rs_unreadable = 0\<rparr>))"
    by (simp add: vault_restore_def)
  also have "filter (\<lambda>row. 0 < fst row) ?taken = ?taken" using assms(3) by (intro filter_True) auto
  also have "fold (take_row ?dec) ?taken \<lparr>rs_messages = [], rs_unreadable = 0\<rparr> =
      \<lparr>rs_messages = map (\<lambda>m. m\<lparr>ms_expires_at := None\<rparr>) ms, rs_unreadable = 0\<rparr>"
    using each by (subst fold_take_row) (auto simp: comp_def)
  finally show ?thesis by (simp add: stored)
qed

definition said :: "nat \<Rightarrow> string \<Rightarrow> message" where
  "said seq text = \<lparr>ms_seq = seq, ms_sender = None, ms_mine = True, ms_sent_at = None, ms_expires_at = Some 5,
     ms_content = Text (js text)\<rparr>"

lemma archivable_said:
  "archivable (\<lambda>_. []) (\<lambda>_. None) (\<lambda>_. Some (json_of_archived \<lparr>ar_sender = None, ar_mine = True, ar_body = [0, 104, 105]\<rparr>))
     9 (said n ''hi'')"
proof -
  have "ascii (js ''hi'')" by (simp add: ascii_def js_def)
  then have "plain_text (js ''hi'')" by (rule plain_text_ascii)
  moreover have e: "text_encode (js ''hi'') = [104, 105]"
    by (simp add: text_encode_def js_def utf8_scalar_def high_surrogate_def low_surrogate_def)
  moreover have "ascii (json_text (json_of_archived \<lparr>ar_sender = None, ar_mine = True, ar_body = [0, 104, 105]\<rparr>))"
    by (simp add: json_of_archived_def commas_def decimal_int_def decimal.simps json_string_def json_unit_def
        js_def high_surrogate_def low_surrogate_def ascii_def)
  then have "plain_text (json_text (json_of_archived \<lparr>ar_sender = None, ar_mine = True, ar_body = [0, 104, 105]\<rparr>))"
    by (rule plain_text_ascii)
  ultimately show ?thesis
    by (simp add: archivable_def message_ok_def said_def Let_def encode_message_def encode_def encode_text_def type_text_def)
qed

theorem archive_returns_everything_witness:
  "(let (taken, outcome) = vault_store (encrypt_entry (\<lambda>_. []) clear_enc (replicate 12 0) ()) [said 3 ''hi''] [ApiOk];
        parse = (\<lambda>_. Some (json_of_archived \<lparr>ar_sender = None, ar_mine = True, ar_body = [0, 104, 105]\<rparr>))
    in vault_restore (decrypt_entry (\<lambda>_. None) parse clear_dec 9 ()) (serves taken) =
      Some (Some \<lparr>rs_messages = [(said 3 ''hi'')\<lparr>ms_expires_at := None\<rparr>], rs_unreadable = 0\<rparr>))"
proof -
  let ?p = "\<lambda>_. Some (json_of_archived \<lparr>ar_sender = None, ar_mine = True, ar_body = [0, 104, 105]\<rparr>)"
  have "\<forall>m\<in>set [said 3 ''hi'']. archivable (\<lambda>_. []) (\<lambda>_. None) ?p 9 m \<and> 0 < ms_seq m"
    using archivable_said [of 3] by (simp add: said_def)
  moreover have "length (batches [said 3 ''hi'']) \<le> 1" by (simp add: batches.simps page_def)
  ultimately show ?thesis
    using archive_returns_everything [OF aead_clear, of "replicate 12 0" "[said 3 ''hi'']" "\<lambda>_. []" "\<lambda>_. None" ?p 9 1 "()"]
    by (simp add: Let_def case_prod_beta)
qed

text \<open>Nothing of a conversation that forgets leaves the device. With a lifetime set, with the vault
  off, or with archiving refused for the conversation, a deposit sends nothing and a restoration gives
  nothing and asks for nothing. A deposit never changes whether the vault is on, says the archive is full
  only when the server refused for want of room, and takes it back when one succeeds.\<close>

theorem archive_gate:
  "(\<not> archives_here \<or> lifetime > 0 \<or> av_key a = None \<longrightarrow> deposit encrypt archives_here ms lifetime answers a = ([], a)) \<and>
   (lifetime > 0 \<or> av_key a = None \<longrightarrow> archive_restore decrypt fetch lifetime held a = Some (Inr [])) \<and>
   av_key (snd (deposit encrypt archives_here ms lifetime answers a)) = av_key a \<and>
   (case av_key a of None \<Rightarrow> True
    | Some k \<Rightarrow> archives_here \<and> lifetime \<le> 0 \<and> ms \<noteq> [] \<longrightarrow>
        av_full (snd (deposit encrypt archives_here ms lifetime answers a)) =
          (case snd (vault_store (encrypt k) ms answers) of
             Deposited \<Rightarrow> False | RefusedForRoom \<Rightarrow> True | DepositFailed \<Rightarrow> av_full a))"
  by (auto simp: deposit_def archive_store_def archive_restore_def split: option.splits prod.splits deposit_outcome.splits)

theorem archive_gate_witness:
  "deposit (\<lambda>k m. Inr [1]) True [said 3 ''hi''] 60 [ApiOk] \<lparr>av_key = Some (), av_full = False\<rparr> =
     ([], \<lparr>av_key = Some (), av_full = False\<rparr>)"
  using archive_gate [of True 60 "\<lparr>av_key = Some (), av_full = False\<rparr>" "\<lambda>k m. Inr [1]" "[said 3 ''hi'']" "[ApiOk]"]
  by simp

text \<open>A deposit that failed is not retried by the next one: when the server cannot be reached for one
  message and takes the next, the first is never archived.\<close>

theorem failed_deposit_is_lost:
  "(let a = \<lparr>av_key = Some (), av_full = False\<rparr>;
        encrypt = \<lambda>k m. Inr [word_of_nat (ms_seq m)];
        (taken1, a1) = deposit encrypt True [said 3 ''hi''] 0 [ApiFailed] a;
        (taken2, a2) = deposit encrypt True [said 4 ''hi''] 0 [ApiOk] a1
    in map fst (taken1 @ taken2) = [4])"
  by (simp add: deposit_def archive_store_def vault_store_def batches.simps page_def said_def)

end
