(* ===== verification/Conversation.thy ===== *)
theory Conversation
  imports Envelope Padding Stores Names Calls Trust Vault "HOL-Library.Sublist"
begin

text \<open>
  The life of one conversation in \<open>session.ts\<close>: an envelope absorbed, a page polled, a content sent, the
  receipts, the outbox. The MLS client is compiled from Rust: its operations are the record \<open>mls\<close>, over
  an opaque group state, and a \<open>view\<close> holds the group state that \<open>this.client\<close> has for its \<open>groupId\<close>.
  An operation that awaits gives the effects it has on the outside, in order, and takes what the server
  answered. \<open>Date.now()\<close> is read once for a stretch of code that does not await.
\<close>

subsection \<open>The view\<close>

record peer =
  pr_name :: account
  pr_fingerprint :: jsstr

record roles =
  ro_admin :: account
  ro_moderators :: "account list"

record 'g view =
  vw_key :: jsstr
  vw_group :: 'g
  vw_messages :: "message list"
  vw_peers :: "peer list"
  vw_accounts :: "resolved_account list"
  vw_epoch :: nat
  vw_cursor :: nat
  vw_gossiped :: bool
  vw_posting_key :: "bytes option"
  vw_key_shared :: bool
  vw_profile_epoch :: "nat option"
  vw_mine :: "nat set"
  vw_receipts :: receipt_book
  vw_content_cursor :: nat
  vw_read_cursor :: nat
  vw_stale :: bool
  vw_typing :: "typing list"
  vw_typing_sent_at :: "int option"
  vw_outbox :: "pending list"
  vw_revision :: nat

definition touch :: "'g view \<Rightarrow> 'g view" where
  "touch v = v\<lparr>vw_revision := vw_revision v + 1\<rparr>"

lemma touch_fields [simp]:
  "vw_key (touch v) = vw_key v" "vw_group (touch v) = vw_group v" "vw_messages (touch v) = vw_messages v"
  "vw_accounts (touch v) = vw_accounts v" "vw_cursor (touch v) = vw_cursor v" "vw_mine (touch v) = vw_mine v"
  "vw_receipts (touch v) = vw_receipts v" "vw_content_cursor (touch v) = vw_content_cursor v"
  "vw_read_cursor (touch v) = vw_read_cursor v" "vw_stale (touch v) = vw_stale v"
  "vw_outbox (touch v) = vw_outbox v" "vw_posting_key (touch v) = vw_posting_key v"
  "vw_peers (touch v) = vw_peers v" "vw_epoch (touch v) = vw_epoch v"
  by (simp_all add: touch_def)

text \<open>What \<open>process\<close> gives for an MLS message: a plaintext with the account its credential names, or a
  handshake message, already applied. It can also refuse, and has then moved the group anyway.\<close>

datatype incoming = Application "account option" bytes | Handshake

record 'g mls =
  mls_process :: "'g \<Rightarrow> bytes \<Rightarrow> bytes list \<Rightarrow> incoming option \<times> 'g"
  mls_encrypt :: "'g \<Rightarrow> bytes \<Rightarrow> bytes option \<times> 'g"
  mls_epoch :: "'g \<Rightarrow> nat"
  mls_peers :: "'g \<Rightarrow> peer list"
  mls_lifetime :: "'g \<Rightarrow> int option"
  mls_roster :: "'g \<Rightarrow> roles option"

definition lifetime_seconds :: "'g mls \<Rightarrow> 'g view \<Rightarrow> int" where
  "lifetime_seconds m v = (case mls_lifetime m (vw_group v) of None \<Rightarrow> 0 | Some s \<Rightarrow> s)"

text \<open>The text functions of the platform.\<close>

record texts =
  tx_stringify :: "attachment_ref \<Rightarrow> jsstr"
  tx_parse :: "jsstr \<Rightarrow> raw_ref option"
  tx_nfc :: "jsstr \<Rightarrow> jsstr"
  tx_nfkc :: "jsstr \<Rightarrow> jsstr"
  tx_lower :: "jsstr \<Rightarrow> jsstr"

text \<open>The fields of \<open>Session\<close> that a conversation reads and writes.\<close>

record 'g session =
  sx_account :: account
  sx_device :: jsstr
  sx_handle :: jsstr
  sx_views :: "(jsstr \<times> 'g view) list"
  sx_signals :: signal_settings
  sx_preferences :: preferences
  sx_names :: names
  sx_calls :: calls
  sx_drops_owed :: "jsstr set"

definition calls_allowed :: "'g session \<Rightarrow> bool" where
  "calls_allowed s \<longleftrightarrow> ss_calls (sx_signals s) \<noteq> Some False"

text \<open>Every conversation of the session shows the change.\<close>

definition touch_all :: "'g session \<Rightarrow> 'g session" where
  "touch_all s = s\<lparr>sx_views := map (\<lambda>(k, v). (k, touch v)) (sx_views s)\<rparr>"

subsection \<open>One envelope\<close>

datatype absorb_error =
    EnvelopeRefused envelope_error
  | ProcessRefused
  | PaddingRefused padding_error
  | ContentRefused content_error

text \<open>What absorbing sets in motion besides the view: the comparison of a log head and the opening of a
  settings announcement run on their own, a ring goes to the call slice.\<close>

datatype news =
    HeadHeard gossip_head
  | ProfileHeard account jsstr int
  | HandleHeard account jsstr int
  | SettingsHeard bytes
  | Rings jsstr account

fun absorb_control :: "account \<Rightarrow> account option \<Rightarrow> content \<Rightarrow> 'g view \<Rightarrow> news list \<times> 'g view" where
  "absorb_control me sender (Gossip head) v = ([HeadHeard head], v)"
| "absorb_control me sender (PostingKey key) v =
     ([], if vw_posting_key v = None then v\<lparr>vw_posting_key := Some key\<rparr> else v)"
| "absorb_control me (Some a) (Receipt st n) v =
     ([], v\<lparr>vw_receipts := record_receipt (vw_receipts v) a st n\<rparr>)"
| "absorb_control me (Some a) (Profile name at) v = ([ProfileHeard a name at], v)"
| "absorb_control me (Some a) (HandleClaim handle at) v = ([HandleHeard a handle at], v)"
| "absorb_control me sender (Signals sealed) v =
     (if sender = Some me then [SettingsHeard sealed] else [], v)"
| "absorb_control me sender body v = ([], v)"

text \<open>Does an invitation ring?\<close>

definition rings :: "'g session \<Rightarrow> int \<Rightarrow> account option \<Rightarrow> content \<Rightarrow> int option \<Rightarrow> news list" where
  "rings s now sender body sent_at =
     (case (body, sender, sent_at) of
        (CallMessage CallInvite call _, Some a, Some t) \<Rightarrow>
          if a \<noteq> sx_account s \<and> now - t < ring_timeout_ms \<and> calls_allowed s \<and> \<not> is_blocked (sx_preferences s) a
          then [Rings call a] else []
      | _ \<Rightarrow> [])"

definition absorb_message ::
    "'g mls \<Rightarrow> 'g session \<Rightarrow> int \<Rightarrow> nat \<Rightarrow> account option \<Rightarrow> stamped_content \<Rightarrow> 'g view \<Rightarrow> news list \<times> 'g view" where
  "absorb_message m s now seq sender d v =
     (let v1 = v\<lparr>vw_typing := (case sender of Some a \<Rightarrow> without_account (vw_typing v) a | None \<Rightarrow> vw_typing v)\<rparr>;
          expires = expiry_of (stamped_at d) now (lifetime_seconds m v1) in
      if (case expires of Some t \<Rightarrow> t \<le> now | None \<Rightarrow> False)
      then ([], v1\<lparr>vw_content_cursor := max (vw_content_cursor v1) seq\<rparr>)
      else
        (rings s now sender (stamped_body d) (stamped_at d),
         (touch (v1\<lparr>vw_messages := vw_messages v1 @
            [\<lparr>ms_seq = seq, ms_sender = sender, ms_mine = False, ms_sent_at = stamped_at d,
              ms_expires_at = expires, ms_content = stamped_body d\<rparr>]\<rparr>))
           \<lparr>vw_content_cursor := max (vw_content_cursor v1) seq\<rparr>))"

definition absorb ::
    "'g mls \<Rightarrow> texts \<Rightarrow> 'g session \<Rightarrow> int \<Rightarrow> nat \<Rightarrow> bytes \<Rightarrow> 'g view \<Rightarrow> (absorb_error + news list) \<times> 'g view" where
  "absorb m x s now seq payload v =
     (case decode_envelope payload of
        Inl e \<Rightarrow> (Inl (EnvelopeRefused e), v)
      | Inr (Welcome _ _) \<Rightarrow> (Inr [], v)
      | Inr (Mls message) \<Rightarrow>
          (case mls_process m (vw_group v) message (concat (map ra_revoked_keys (vw_accounts v))) of
             (None, g) \<Rightarrow> (Inl ProcessRefused, v\<lparr>vw_group := g\<rparr>)
           | (Some Handshake, g) \<Rightarrow> (Inr [], v\<lparr>vw_group := g\<rparr>)
           | (Some (Application sender plaintext), g) \<Rightarrow>
               (case unpad plaintext of
                  Inl e \<Rightarrow> (Inl (PaddingRefused e), v\<lparr>vw_group := g\<rparr>)
                | Inr bs \<Rightarrow>
                    (case decode (tx_parse x) now bs of
                       Inl e \<Rightarrow> (Inl (ContentRefused e), v\<lparr>vw_group := g\<rparr>)
                     | Inr d \<Rightarrow>
                         (let (heard, v') =
                            if is_control (stamped_body d)
                            then absorb_control (sx_account s) sender (stamped_body d) (v\<lparr>vw_group := g\<rparr>)
                            else absorb_message m s now seq sender d (v\<lparr>vw_group := g\<rparr>)
                          in (Inr heard, v'))))))"

text \<open>A name that changes what is drawn touches every view, the one at hand included.\<close>

datatype 'g effect =
    FetchPage nat
  | CompareHead gossip_head
  | OpenSettings bytes
  | CallEffects "call_effect list"
  | Write "'g view"                                  \<comment> \<open>what of this conversation reaches the disk\<close>
  | DropVault
  | DepositIn "message list"
  | ResolvePeers
  | Post content bytes "bytes option" "'g view"      \<comment> \<open>and the view in memory when it leaves\<close>

fun take_news ::
    "texts \<Rightarrow> int \<Rightarrow> news \<Rightarrow> 'g session \<times> 'g view \<Rightarrow> 'g effect list \<times> 'g session \<times> 'g view" where
  "take_news x now (HeadHeard head) (s, v) = ([CompareHead head], s, v)"
| "take_news x now (SettingsHeard sealed) (s, v) = ([OpenSettings sealed], s, v)"
| "take_news x now (ProfileHeard a name at) (s, v) =
     (case absorb_name (tx_nfc x) a name at (sx_names s) of
        (changed, n) \<Rightarrow> ([], if changed then touch_all (s\<lparr>sx_names := n\<rparr>) else s, if changed then touch v else v))"
| "take_news x now (HandleHeard a handle at) (s, v) =
     (case absorb_handle (tx_nfkc x) (tx_lower x) a handle at (sx_names s) of
        (changed, n) \<Rightarrow> ([], if changed then touch_all (s\<lparr>sx_names := n\<rparr>) else s, if changed then touch v else v))"
| "take_news x now (Rings call a) (s, v) =
     (case receive_call now (vw_key v) call a (sx_calls s) of
        (es, c) \<Rightarrow> ([CallEffects es], s\<lparr>sx_calls := c\<rparr>, v))"

fun take_all ::
    "texts \<Rightarrow> int \<Rightarrow> news list \<Rightarrow> 'g session \<times> 'g view \<Rightarrow> 'g effect list \<times> 'g session \<times> 'g view" where
  "take_all x now [] sv = ([], sv)"
| "take_all x now (n # ns) sv =
     (let (es, sv') = take_news x now n sv; (es', sv'') = take_all x now ns sv' in (es @ es', sv''))"

subsection \<open>A page\<close>

text \<open>One row: skipped when it is ours, and an error changes nothing but the group. The cursor moves.\<close>

definition hear_row ::
    "'g mls \<Rightarrow> texts \<Rightarrow> int \<Rightarrow> nat \<times> bytes \<Rightarrow> 'g session \<times> 'g view \<Rightarrow> 'g effect list \<times> 'g session \<times> 'g view" where
  "hear_row m x now row sv =
     (let (s, v) = sv; seq = fst row;
          (es, s', v') =
            (if seq \<in> vw_mine v then ([], s, v)
             else case absorb m x s now seq (snd row) v of
                 (Inl _, v1) \<Rightarrow> ([], s, v1)
               | (Inr heard, v1) \<Rightarrow> take_all x now heard (s, v1))
      in (es, s', v'\<lparr>vw_cursor := max (vw_cursor v') seq\<rparr>))"

fun hear_rows ::
    "'g mls \<Rightarrow> texts \<Rightarrow> int \<Rightarrow> (nat \<times> bytes) list \<Rightarrow> 'g session \<times> 'g view \<Rightarrow> 'g effect list \<times> 'g session \<times> 'g view" where
  "hear_rows m x now [] sv = ([], sv)"
| "hear_rows m x now (row # rows) sv =
     (let (es, sv') = hear_row m x now row sv; (es', sv'') = hear_rows m x now rows sv' in (es @ es', sv''))"


subsection \<open>What one envelope can do\<close>

lemma view_group_id: "v = v\<lparr>vw_group := vw_group v\<rparr>"
  by simp

lemma absorb_cases [consumes 1, case_names refused nothing heard]:
  assumes "absorb m x s now seq payload v = (r, v')"
  obtains (refused) e g where "r = Inl e" "v' = v\<lparr>vw_group := g\<rparr>"
  | (nothing) g where "r = Inr []" "v' = v\<lparr>vw_group := g\<rparr>"
  | (heard) p sender plaintext g d ns where
      "decode_envelope payload = Inr (Mls p)"
      "mls_process m (vw_group v) p (concat (map ra_revoked_keys (vw_accounts v))) =
         (Some (Application sender plaintext), g)"
      "then_dec (decode (tx_parse x) now) unpad plaintext = Inr d"
      "r = Inr ns"
      "(if is_control (stamped_body d)
        then absorb_control (sx_account s) sender (stamped_body d) (v\<lparr>vw_group := g\<rparr>)
        else absorb_message m s now seq sender d (v\<lparr>vw_group := g\<rparr>)) = (ns, v')"
proof -
  note a = assms [unfolded absorb_def]
  show thesis
  proof (cases "decode_envelope payload")
    case (Inl e)
    with a have "r = Inl (EnvelopeRefused e)" "v' = v\<lparr>vw_group := vw_group v\<rparr>" by simp_all
    then show thesis by (rule refused)
  next
    case (Inr env)
    show thesis
    proof (cases env)
      case (Welcome w t)
      with Inr a have "r = Inr []" "v' = v\<lparr>vw_group := vw_group v\<rparr>" by simp_all
      then show thesis by (rule nothing)
    next
      case (Mls p)
      obtain i g where g: "mls_process m (vw_group v) p (concat (map ra_revoked_keys (vw_accounts v))) = (i, g)"
        by (rule prod.exhaust)
      show thesis
      proof (cases i)
        case None
        with Inr Mls a g have "r = Inl ProcessRefused" "v' = v\<lparr>vw_group := g\<rparr>" by simp_all
        then show thesis by (rule refused)
      next
        case (Some inc)
        show thesis
        proof (cases inc)
          case Handshake
          with Inr Mls a g Some have "r = Inr []" "v' = v\<lparr>vw_group := g\<rparr>" by simp_all
          then show thesis by (rule nothing)
        next
          case (Application sender plaintext)
          show thesis
          proof (cases "unpad plaintext")
            case (Inl e)
            with Inr Mls a g Some Application have "r = Inl (PaddingRefused e)" "v' = v\<lparr>vw_group := g\<rparr>" by simp_all
            then show thesis by (rule refused)
          next
            case bs: (Inr bs)
            show thesis
            proof (cases "decode (tx_parse x) now bs")
              case (Inl e)
              with Inr Mls a g Some Application bs
              have "r = Inl (ContentRefused e)" "v' = v\<lparr>vw_group := g\<rparr>" by simp_all
              then show thesis by (rule refused)
            next
              case d: (Inr d)
              let ?h = "if is_control (stamped_body d)
                then absorb_control (sx_account s) sender (stamped_body d) (v\<lparr>vw_group := g\<rparr>)
                else absorb_message m s now seq sender d (v\<lparr>vw_group := g\<rparr>)"
              from Inr Mls a g Some Application bs d have "(case ?h of (ns, v1) \<Rightarrow> (Inr ns, v1)) = (r, v')"
                by simp
              then have "r = Inr (fst ?h)" "?h = (fst ?h, v')" by (simp_all add: case_prod_beta prod_eq_iff)
              with heard [of p sender plaintext g d "fst ?h"] Inr Mls g Some Application bs d
              show thesis by (simp add: then_dec_def)
            qed
          qed
        qed
      qed
    qed
  qed
qed

text \<open>What an operation leaves alone.\<close>

definition same_record :: "'g view \<Rightarrow> 'g view \<Rightarrow> bool" where
  "same_record v v' \<longleftrightarrow> vw_key v' = vw_key v \<and> vw_mine v' = vw_mine v \<and> vw_outbox v' = vw_outbox v \<and>
     vw_read_cursor v' = vw_read_cursor v \<and> vw_stale v' = vw_stale v \<and> vw_accounts v' = vw_accounts v"

lemma absorb_control_frame:
  "absorb_control me sender body v = (ns, v') \<Longrightarrow>
     same_record v v' \<and> vw_cursor v' = vw_cursor v \<and> vw_messages v' = vw_messages v \<and>
     vw_content_cursor v' = vw_content_cursor v \<and> vw_group v' = vw_group v"
  by (cases "(me, sender, body, v)" rule: absorb_control.cases) (auto simp: same_record_def split: if_splits)

lemma absorb_message_frame:
  "absorb_message m s now seq sender d v = (ns, v') \<Longrightarrow>
     same_record v v' \<and> vw_cursor v' = vw_cursor v \<and> vw_receipts v' = vw_receipts v \<and>
     vw_content_cursor v' = max (vw_content_cursor v) seq \<and> vw_posting_key v' = vw_posting_key v"
  by (auto simp: absorb_message_def same_record_def Let_def split: if_splits option.splits)

text \<open>A message as it joins the thread.\<close>

definition arrived :: "int \<Rightarrow> nat \<Rightarrow> message \<Rightarrow> bool" where
  "arrived now seq msg \<longleftrightarrow> ms_seq msg = seq \<and> \<not> ms_mine msg \<and> \<not> is_control (ms_content msg) \<and> \<not> is_expired msg now"

lemma absorb_message_appends:
  assumes "absorb_message m s now seq sender d v = (ns, v')" and "\<not> is_control (stamped_body d)"
  shows "vw_messages v' = vw_messages v \<or>
    (\<exists>msg. vw_messages v' = vw_messages v @ [msg] \<and> arrived now seq msg \<and> ms_sender msg = sender \<and>
       ms_content msg = stamped_body d \<and> ms_sent_at msg = stamped_at d)"
  using assms
  by (auto simp: absorb_message_def Let_def arrived_def is_expired_def split: if_splits option.splits)

lemma absorb_frame:
  assumes "absorb m x s now seq payload v = (r, v')"
  shows "same_record v v'" "vw_cursor v' = vw_cursor v"
    "vw_content_cursor v \<le> vw_content_cursor v'" "vw_content_cursor v' \<le> max (vw_content_cursor v) seq"
    "vw_messages v' = vw_messages v \<or> (\<exists>msg. vw_messages v' = vw_messages v @ [msg] \<and> arrived now seq msg)"
proof -
  have "same_record v v' \<and> vw_cursor v' = vw_cursor v \<and> vw_content_cursor v \<le> vw_content_cursor v' \<and>
    vw_content_cursor v' \<le> max (vw_content_cursor v) seq \<and>
    (vw_messages v' = vw_messages v \<or> (\<exists>msg. vw_messages v' = vw_messages v @ [msg] \<and> arrived now seq msg))"
    using assms
  proof (cases rule: absorb_cases)
    case (heard p sender plaintext g d ns)
    show ?thesis
    proof (cases "is_control (stamped_body d)")
      case True
      with heard(5) have "absorb_control (sx_account s) sender (stamped_body d) (v\<lparr>vw_group := g\<rparr>) = (ns, v')" by simp
      from absorb_control_frame [OF this] show ?thesis by (auto simp: same_record_def)
    next
      case False
      with heard(5) have m: "absorb_message m s now seq sender d (v\<lparr>vw_group := g\<rparr>) = (ns, v')" by simp
      from absorb_message_frame [OF m] absorb_message_appends [OF m False] show ?thesis
        by (auto simp: same_record_def)
    qed
  qed (simp_all add: same_record_def)
  then show "same_record v v'" "vw_cursor v' = vw_cursor v"
    "vw_content_cursor v \<le> vw_content_cursor v'" "vw_content_cursor v' \<le> max (vw_content_cursor v) seq"
    "vw_messages v' = vw_messages v \<or> (\<exists>msg. vw_messages v' = vw_messages v @ [msg] \<and> arrived now seq msg)"
    by auto
qed

text \<open>News touches the view, and nothing else of it.\<close>

definition touched :: "'g view \<Rightarrow> 'g view \<Rightarrow> bool" where
  "touched v v' \<longleftrightarrow> (\<exists>n. v' = v\<lparr>vw_revision := n\<rparr>)"

lemma touched_refl: "touched v v"
  unfolding touched_def by (rule exI [of _ "vw_revision v"]) simp

lemma touched_trans: "touched u v \<Longrightarrow> touched v w \<Longrightarrow> touched u w"
  by (auto simp: touched_def)

lemma take_news_touched: "touched v (snd (snd (take_news x now n (s, v))))"
proof (cases n)
  case (ProfileHeard a name at)
  then show ?thesis using touched_refl [of v] by (auto simp: touched_def touch_def split: prod.splits)
next
  case (HandleHeard a h at)
  then show ?thesis using touched_refl [of v] by (auto simp: touched_def touch_def split: prod.splits)
qed (auto simp: touched_refl split: prod.splits)

lemma take_all_touched: "touched v (snd (snd (take_all x now ns (s, v))))"
proof (induction ns arbitrary: s v)
  case (Cons n ns)
  obtain es s1 v1 where n: "take_news x now n (s, v) = (es, s1, v1)" by (cases "take_news x now n (s, v)") auto
  have "touched v v1" using take_news_touched [of v x now n s] by (simp add: n)
  with Cons.IH [of v1 s1] show ?case by (auto simp: n split: prod.splits intro: touched_trans)
qed (simp add: touched_refl)


subsection \<open>What a page can do\<close>

lemma hear_row_frame:
  assumes "hear_row m x now row (s, v) = (es, s', v')"
  shows "same_record v v'" "vw_cursor v' = max (vw_cursor v) (fst row)"
    "vw_content_cursor v \<le> vw_content_cursor v'"
    "vw_content_cursor v' \<le> max (vw_content_cursor v) (fst row)"
    "\<exists>new. vw_messages v' = vw_messages v @ new \<and> (\<forall>msg\<in>set new. arrived now (ms_seq msg) msg) \<and>
       (new = [] \<or> fst row \<notin> vw_mine v \<and> map ms_seq new = [fst row])"
proof -
  let ?goal = "same_record v v' \<and> vw_cursor v' = max (vw_cursor v) (fst row) \<and>
    vw_content_cursor v \<le> vw_content_cursor v' \<and> vw_content_cursor v' \<le> max (vw_content_cursor v) (fst row) \<and>
    (\<exists>new. vw_messages v' = vw_messages v @ new \<and> (\<forall>msg\<in>set new. arrived now (ms_seq msg) msg) \<and>
       (new = [] \<or> fst row \<notin> vw_mine v \<and> map ms_seq new = [fst row]))"
  have ?goal
  proof (cases "fst row \<in> vw_mine v")
    case True
    with assms show ?thesis by (auto simp: hear_row_def same_record_def)
  next
    case False
    obtain r v1 where a: "absorb m x s now (fst row) (snd row) v = (r, v1)"
      by (cases "absorb m x s now (fst row) (snd row) v") auto
    note f = absorb_frame [OF a]
    obtain n where "v' = v1\<lparr>vw_revision := n, vw_cursor := max (vw_cursor v1) (fst row)\<rparr>"
    proof (cases r)
      case (Inl e)
      with assms False a show thesis by (intro that [of "vw_revision v1"]) (simp add: hear_row_def)
    next
      case (Inr ns)
      obtain es1 s1 v2 where t: "take_all x now ns (s, v1) = (es1, s1, v2)"
        by (cases "take_all x now ns (s, v1)") auto
      from take_all_touched [of v1 x now ns s] t obtain n where "v2 = v1\<lparr>vw_revision := n\<rparr>"
        by (auto simp: touched_def)
      with assms False a Inr t show thesis by (intro that [of n]) (simp add: hear_row_def)
    qed
    with f False show ?thesis by (auto simp: same_record_def arrived_def)
  qed
  then show "same_record v v'" "vw_cursor v' = max (vw_cursor v) (fst row)"
    "vw_content_cursor v \<le> vw_content_cursor v'"
    "vw_content_cursor v' \<le> max (vw_content_cursor v) (fst row)"
    "\<exists>new. vw_messages v' = vw_messages v @ new \<and> (\<forall>msg\<in>set new. arrived now (ms_seq msg) msg) \<and>
       (new = [] \<or> fst row \<notin> vw_mine v \<and> map ms_seq new = [fst row])"
    by auto
qed

lemma hear_rows_frame:
  "hear_rows m x now rows (s, v) = (es, s', v') \<Longrightarrow>
     same_record v v' \<and> vw_cursor v' = fold max (map fst rows) (vw_cursor v) \<and>
     vw_content_cursor v \<le> vw_content_cursor v' \<and>
     (vw_content_cursor v \<le> vw_cursor v \<longrightarrow> vw_content_cursor v' \<le> vw_cursor v') \<and>
     (\<exists>new. vw_messages v' = vw_messages v @ new \<and> (\<forall>msg\<in>set new. arrived now (ms_seq msg) msg) \<and>
        subseq (map ms_seq new) (map fst (filter (\<lambda>r. fst r \<notin> vw_mine v) rows)))"
proof (induction rows arbitrary: s v es)
  case (Cons row rows)
  obtain es1 s1 v1 where r: "hear_row m x now row (s, v) = (es1, s1, v1)"
    by (cases "hear_row m x now row (s, v)") auto
  obtain es2 where rs: "hear_rows m x now rows (s1, v1) = (es2, s', v')"
    using Cons.prems r by (auto split: prod.splits)
  note f = hear_row_frame [OF r]
  note IH = Cons.IH [OF rs]
  from f(1) have mine: "vw_mine v1 = vw_mine v" by (simp add: same_record_def)
  obtain new where new: "vw_messages v1 = vw_messages v @ new" "\<forall>msg\<in>set new. arrived now (ms_seq msg) msg"
      "new = [] \<or> fst row \<notin> vw_mine v \<and> map ms_seq new = [fst row]"
    using f(5) by (elim exE conjE)
  obtain more where m: "vw_messages v' = vw_messages v1 @ more" "\<forall>msg\<in>set more. arrived now (ms_seq msg) msg"
      "subseq (map ms_seq more) (map fst (filter (\<lambda>r. fst r \<notin> vw_mine v) rows))"
    using IH mine by auto
  have "subseq (map ms_seq (new @ more)) (map fst (filter (\<lambda>r. fst r \<notin> vw_mine v) (row # rows)))"
    using new(3) m(3) by auto
  with new(1,2) m(1,2) have "\<exists>new. vw_messages v' = vw_messages v @ new \<and>
      (\<forall>msg\<in>set new. arrived now (ms_seq msg) msg) \<and>
      subseq (map ms_seq new) (map fst (filter (\<lambda>r. fst r \<notin> vw_mine v) (row # rows)))"
    by (intro exI [of _ "new @ more"]) auto
  moreover have "same_record v v'" using f(1) IH by (simp add: same_record_def)
  moreover have "vw_content_cursor v \<le> vw_cursor v \<longrightarrow> vw_content_cursor v' \<le> vw_cursor v'"
  proof
    assume "vw_content_cursor v \<le> vw_cursor v"
    then have "vw_content_cursor v1 \<le> vw_cursor v1" using f(2,4) by (auto simp: le_max_iff_disj)
    with IH show "vw_content_cursor v' \<le> vw_cursor v'" by simp
  qed
  ultimately show ?case using f(2,3) IH by (simp add: max.commute)
qed (auto simp: same_record_def)

lemma fold_max: "fold max (ns::nat list) n = Max (insert n (set ns))"
  using Max.set_eq_fold [of n ns] by simp

text \<open>C1. A page never stops at an envelope it cannot read. Whatever each row holds, and however the group
  refuses it, after the page the cursor is the largest number it had; the thread is the old one followed
  by messages of that page, in its order, none of them one of our own posts, none of them protocol
  traffic, none of them already past its deadline; the receipt cursor never passes the cursor.\<close>

theorem page_absorbed:
  assumes "hear_rows m x now rows (s, v) = (es, s', v')" and "vw_content_cursor v \<le> vw_cursor v"
  shows "vw_cursor v' = Max (insert (vw_cursor v) (fst ` set rows)) \<and>
    vw_content_cursor v \<le> vw_content_cursor v' \<and> vw_content_cursor v' \<le> vw_cursor v' \<and>
    (\<exists>new. vw_messages v' = vw_messages v @ new \<and>
       subseq (map ms_seq new) (map fst (filter (\<lambda>r. fst r \<notin> vw_mine v) rows)) \<and>
       (\<forall>msg\<in>set new. \<not> ms_mine msg \<and> \<not> is_control (ms_content msg) \<and> \<not> is_expired msg now))"
  using hear_rows_frame [OF assms(1)] assms(2) by (fastforce simp: fold_max arrived_def)

text \<open>A group that decrypts nothing it is given, for the examples.\<close>

definition clear_mls :: "account \<Rightarrow> nat mls" where
  "clear_mls a = \<lparr>mls_process = (\<lambda>g p revoked. (Some (Application (Some a) p), g + 1)),
     mls_encrypt = (\<lambda>g p. (Some p, g + 1)), mls_epoch = (\<lambda>g. 0),
     mls_peers = (\<lambda>g. [\<lparr>pr_name = a, pr_fingerprint = a\<rparr>]), mls_lifetime = (\<lambda>g. None), mls_roster = (\<lambda>g. None)\<rparr>"

definition plain_texts :: texts where
  "plain_texts = \<lparr>tx_stringify = (\<lambda>r. []), tx_parse = (\<lambda>t. None), tx_nfc = (\<lambda>t. t), tx_nfkc = (\<lambda>t. t),
     tx_lower = (\<lambda>t. t)\<rparr>"

definition new_view :: "jsstr \<Rightarrow> 'g \<Rightarrow> 'g view" where
  "new_view key g = \<lparr>vw_key = key, vw_group = g, vw_messages = [], vw_peers = [], vw_accounts = [],
     vw_epoch = 0, vw_cursor = 0, vw_gossiped = False, vw_posting_key = None, vw_key_shared = False,
     vw_profile_epoch = None, vw_mine = {}, vw_receipts = Map.empty, vw_content_cursor = 0,
     vw_read_cursor = 0, vw_stale = False, vw_typing = [], vw_typing_sent_at = None, vw_outbox = [],
     vw_revision = 0\<rparr>"

definition new_session :: "account \<Rightarrow> jsstr \<Rightarrow> 'g session" where
  "new_session account device = \<lparr>sx_account = account, sx_device = device, sx_handle = account, sx_views = [],
     sx_signals = \<lparr>ss_read_receipts = True, ss_typing = True, ss_presence = None, ss_calls = Some True\<rparr>,
     sx_preferences = fresh_preferences, sx_names = no_names, sx_calls = no_calls, sx_drops_owed = {}\<rparr>"

lemma clear_mls_simps [simp]:
  "mls_process (clear_mls a) g p revoked = (Some (Application (Some a) p), g + 1)"
  "mls_encrypt (clear_mls a) g p = (Some p, g + 1)" "lifetime_seconds (clear_mls a) v = 0"
  by (simp_all add: clear_mls_def lifetime_seconds_def)

lemma new_view_simps [simp]:
  "vw_messages (new_view k g) = []" "vw_group (new_view k g) = g" "vw_cursor (new_view k g) = 0"
  "vw_content_cursor (new_view k g) = 0" "vw_stale (new_view k g) = False" "vw_outbox (new_view k g) = []"
  "vw_mine (new_view k g) = {}" "vw_key (new_view k g) = k" "vw_accounts (new_view k g) = []"
  "vw_receipts (new_view k g) = Map.empty" "vw_read_cursor (new_view k g) = 0"
  by (simp_all add: new_view_def)

theorem page_absorbed_witness:
  "(let (es, s', v') = hear_rows (clear_mls (js ''bob'')) plain_texts 1000
      [(4, [9, 9]), (6, [])] (new_session (js ''amy'') (js ''phone''), new_view (js ''room'') 0)
    in vw_cursor v' = 6)"
proof -
  let ?r = "hear_rows (clear_mls (js ''bob'')) plain_texts 1000
      [(4, [9, 9]), (6, [])] (new_session (js ''amy'') (js ''phone''), new_view (js ''room'') 0)"
  obtain es s' v' where r: "?r = (es, s', v')" by (cases ?r) auto
  have "vw_cursor v' = 6" using page_absorbed [OF r] by (simp add: new_view_def)
  then show ?thesis by (simp only: r Let_def prod.case)
qed

subsection \<open>Who said it\<close>

lemma absorb_control_receipts:
  "absorb_control me sender body v = (ns, v') \<Longrightarrow>
     (\<forall>a. vw_receipts v' a \<noteq> vw_receipts v a \<longrightarrow> sender = Some a) \<and>
     (\<forall>a name at. ProfileHeard a name at \<in> set ns \<or> HandleHeard a name at \<in> set ns \<longrightarrow> sender = Some a) \<and>
     (\<forall>sealed. SettingsHeard sealed \<in> set ns \<longrightarrow> sender = Some me) \<and>
     (\<forall>call a. Rings call a \<notin> set ns)"
  by (cases "(me, sender, body, v)" rule: absorb_control.cases)
    (auto simp: record_receipt_def Let_def split: if_splits)

lemma rings_rule:
  "Rings call a \<in> set (rings s now sender body t) \<Longrightarrow>
     sender = Some a \<and> a \<noteq> sx_account s \<and> \<not> is_blocked (sx_preferences s) a \<and> calls_allowed s \<and>
     (\<exists>at. t = Some at \<and> now - at < ring_timeout_ms)"
  by (auto simp: rings_def split: content.splits call_event.splits option.splits if_splits)

lemma rings_only: "n \<in> set (rings s now sender body t) \<Longrightarrow> \<exists>call a. n = Rings call a"
  by (auto simp: rings_def split: content.splits call_event.splits option.splits if_splits)

lemma absorb_message_news:
  "absorb_message m s now seq sender d v = (ns, v') \<Longrightarrow> set ns \<subseteq> set (rings s now sender (stamped_body d) (stamped_at d))"
  by (auto simp: absorb_message_def Let_def split: if_splits option.splits)

lemma decode_envelope_Mls: "decode_envelope payload = Inr (Mls p) \<Longrightarrow> payload = encode_mls p"
  by (auto simp: decode_envelope_def encode_mls_def Let_def split: list.splits if_splits)


text \<open>An envelope of Bob's that says "read up to 3".\<close>

definition bob_reads :: bytes where
  "bob_reads = encode_mls (pad_free (encode_receipt Read 3))"


end
