(* ===== verification/Delivery.thy ===== *)
theory Delivery
  imports Conversation
begin

text \<open>
  What \<open>session.ts\<close> does around the absorption of an envelope: \<open>sendContent\<close>, the receipts of
  \<open>acknowledge\<close>, one conversation's turn of \<open>pollOnce\<close>, the outbox, and \<open>markRead\<close>. What the server
  answers to a request is an argument, \<open>None\<close> when the request fails; the effects come in the order in
  which the code performs them, each \<open>Post\<close> with the view in memory when the request leaves and each
  \<open>Write\<close> with the view that reaches the disk.
\<close>

subsection \<open>Sending\<close>

datatype send_error = EncodeRefused content_error | EncryptRefused | PostRefused

text \<open>\<open>sendContent\<close>. \<open>now\<close> is the clock before the request, \<open>later\<close> the one after; the padding has no
  ceiling and never refuses.\<close>

definition send_content ::
    "'g mls \<Rightarrow> texts \<Rightarrow> jsstr \<Rightarrow> int \<Rightarrow> int \<Rightarrow> nat option \<Rightarrow> content \<Rightarrow> int option \<Rightarrow> 'g view \<Rightarrow>
     send_error option \<times> 'g effect list \<times> 'g view" where
  "send_content m x device now later answer body written_at v =
     (let sent_at = (case written_at of Some t \<Rightarrow> t | None \<Rightarrow> now) in
      case encode (tx_stringify x) body (Some sent_at) of
        Inl e \<Rightarrow> (Some (EncodeRefused e), [], v)
      | Inr bs \<Rightarrow>
          (case mls_encrypt m (vw_group v) (pad_free bs) of
             (None, g) \<Rightarrow> (Some EncryptRefused, [], v\<lparr>vw_group := g\<rparr>)
           | (Some ciphertext, g) \<Rightarrow>
               (let v1 = v\<lparr>vw_group := g\<rparr>;
                    post = Post body (encode_mls ciphertext) (vw_posting_key v) v1 in
                case answer of
                  None \<Rightarrow> (Some PostRefused, [post], v1)
                | Some seq \<Rightarrow>
                    (let v2 = v1\<lparr>vw_mine := insert seq (vw_mine v1), vw_typing_sent_at := None\<rparr> in
                     if is_control body then (None, [post, Write v2], v2)
                     else
                       (let msg = \<lparr>ms_seq = seq, ms_sender = Some device, ms_mine = True, ms_sent_at = Some sent_at,
                              ms_expires_at = expiry_of (Some sent_at) later (lifetime_seconds m v2),
                              ms_content = body\<rparr>;
                            v3 = touch (v2\<lparr>vw_messages := vw_messages v2 @ [msg]\<rparr>)
                        in (None, [post, Write v3, DepositIn [msg]], v3))))))"

subsection \<open>Receipts\<close>

text \<open>One of the two halves of \<open>acknowledge\<close>: recorded first, then sent.\<close>

definition announce_receipt ::
    "'g mls \<Rightarrow> texts \<Rightarrow> account \<Rightarrow> jsstr \<Rightarrow> int \<Rightarrow> nat option \<Rightarrow> receipt_state \<Rightarrow> nat \<Rightarrow> 'g view \<Rightarrow>
     send_error option \<times> 'g effect list \<times> 'g view" where
  "announce_receipt m x me device now answer st cursor v =
     (case pending_receipt (vw_receipts v) me st cursor of
        None \<Rightarrow> (None, [], v)
      | Some n \<Rightarrow> send_content m x device now now answer (Receipt st n) None
          (v\<lparr>vw_receipts := record_receipt (vw_receipts v) me st n\<rparr>))"

definition acknowledge ::
    "'g mls \<Rightarrow> texts \<Rightarrow> account \<Rightarrow> jsstr \<Rightarrow> bool \<Rightarrow> int \<Rightarrow> nat option \<times> nat option \<Rightarrow> 'g view \<Rightarrow>
     send_error option \<times> 'g effect list \<times> 'g view" where
  "acknowledge m x me device read_receipts now answers v =
     (case announce_receipt m x me device now (fst answers) Delivered (vw_content_cursor v) v of
        (Some e, es, v1) \<Rightarrow> (Some e, es, v1)
      | (None, es, v1) \<Rightarrow>
          if \<not> read_receipts then (None, es, v1)
          else (case announce_receipt m x me device now (snd answers) Read (vw_read_cursor v1) v1 of
              (r, es', v2) \<Rightarrow> (r, es @ es', v2)))"

subsection \<open>A conversation's turn of the poll\<close>

record page_answer =
  pa_oldest :: nat
  pa_rows :: "(nat \<times> bytes) list"

text \<open>\<open>resolvePeers\<close>: an account that cannot be resolved now stays as it was last verified.\<close>

definition resolve_peers ::
    "account \<Rightarrow> (account \<Rightarrow> resolved_account option) \<Rightarrow> 'g view \<Rightarrow> resolved_account list" where
  "resolve_peers me resolve v =
     concat (map (\<lambda>h. case resolve h of Some a \<Rightarrow> [a]
         | None \<Rightarrow> (case find (\<lambda>a. ra_handle a = h) (vw_accounts v) of Some a \<Rightarrow> [a] | None \<Rightarrow> []))
       (filter (\<lambda>h. h \<noteq> me) (uniq (map pr_name (vw_peers v)))))"

definition drop_archive :: "bool \<Rightarrow> jsstr \<Rightarrow> jsstr set \<Rightarrow> jsstr set" where
  "drop_archive server_ok key owed = (if server_ok then insert key owed - {key} else insert key owed)"

text \<open>The transition, not the state: a lifetime that went from off to on leaves an archive to erase. What is
  owed is asked at every turn until the server answers.\<close>

definition owed_after :: "'g mls \<Rightarrow> int \<Rightarrow> 'g view \<Rightarrow> jsstr set \<Rightarrow> jsstr set" where
  "owed_after m lifetime_before v owed =
     (if lifetime_before = 0 \<and> lifetime_seconds m v > 0 then insert (vw_key v) owed else owed)"

definition settle :: "bool \<Rightarrow> jsstr \<Rightarrow> jsstr set \<Rightarrow> 'g effect list \<times> jsstr set" where
  "settle server_ok key owed =
     (if key \<in> owed then ([DropVault], drop_archive server_ok key owed) else ([], owed))"

text \<open>The answers of the server during the turn.\<close>

record turn =
  tu_page :: "page_answer option"
  tu_drop_ok :: bool
  tu_resolve :: "account \<Rightarrow> resolved_account option"
  tu_receipts :: "nat option \<times> nat option"

text \<open>The loop body of \<open>pollOnce\<close>; \<open>None\<close> when the fetch fails, which ends the poll.\<close>

definition poll_view ::
    "'g mls \<Rightarrow> texts \<Rightarrow> int \<Rightarrow> turn \<Rightarrow> 'g session \<times> 'g view \<Rightarrow> ('g effect list \<times> 'g session \<times> 'g view) option" where
  "poll_view m x now t sv =
     (let (s, v) = sv in
      if vw_stale v then Some ([], s, v)
      else case tu_page t of
        None \<Rightarrow> None
      | Some p \<Rightarrow>
          if vw_cursor v + 1 < pa_oldest p then Some ([FetchPage (vw_cursor v)], s, v\<lparr>vw_stale := True\<rparr>)
          else
            (let before = length (vw_messages v);
                 lifetime_before = lifetime_seconds m v;
                 (heard, s1, v1) = hear_rows m x now (pa_rows p) (s, v);
                 v2 = v1\<lparr>vw_epoch := mls_epoch m (vw_group v1), vw_peers := mls_peers m (vw_group v1)\<rparr>;
                 (erase, owed) = settle (tu_drop_ok t) (vw_key v2) (owed_after m lifetime_before v2 (sx_drops_owed s1));
                 s2 = s1\<lparr>sx_drops_owed := owed\<rparr>;
                 v3 = v2\<lparr>vw_accounts := resolve_peers (sx_account s2) (tu_resolve t) v2\<rparr>;
                 (_, receipts, v4) = acknowledge m x (sx_account s2) (sx_device s2)
                   (ss_read_receipts (sx_signals s2)) now (tu_receipts t) v3
             in Some (FetchPage (vw_cursor v) # heard @ [Write v2] @ erase @
                        [DepositIn (drop before (vw_messages v2)), ResolvePeers] @ receipts, s2, v4)))"

subsection \<open>The outbox\<close>

text \<open>\<open>flush\<close>: the entry is an object of the queue, recognised by its identifier. The state it is left in
  is the first result.\<close>

definition mark_entry :: "jsstr \<Rightarrow> pending_state \<Rightarrow> 'g view \<Rightarrow> 'g view" where
  "mark_entry local st v =
     v\<lparr>vw_outbox := map (\<lambda>e. if pn_local_id e = local then e\<lparr>pn_state := st\<rparr> else e) (vw_outbox v)\<rparr>"

definition without_entry :: "jsstr \<Rightarrow> 'g view \<Rightarrow> 'g view" where
  "without_entry local v = v\<lparr>vw_outbox := filter (\<lambda>e. pn_local_id e \<noteq> local) (vw_outbox v)\<rparr>"

definition flush ::
    "'g mls \<Rightarrow> texts \<Rightarrow> jsstr \<Rightarrow> int \<Rightarrow> nat option \<Rightarrow> pending \<Rightarrow> 'g view \<Rightarrow> pending_state \<times> 'g effect list \<times> 'g view" where
  "flush m x device now answer entry v =
     (let local = pn_local_id entry; v1 = touch (mark_entry local Sending v) in
      case send_content m x device now now answer (Text (pn_text entry)) (Some (pn_sent_at entry)) v1 of
        (None, es, v2) \<Rightarrow> (let v3 = touch (without_entry local v2) in (Sending, es @ [Write v3], v3))
      | (Some e, es, v2) \<Rightarrow> (let v3 = touch (mark_entry local Failed v2) in (Failed, es @ [Write v3], v3)))"

text \<open>\<open>send\<close>: the entry, under the identifier \<open>randomUUID\<close> gave and with its handles resolved.\<close>

definition send ::
    "'g mls \<Rightarrow> texts \<Rightarrow> jsstr \<Rightarrow> (jsstr \<Rightarrow> jsstr) \<Rightarrow> int \<Rightarrow> nat option \<Rightarrow> jsstr \<Rightarrow> jsstr \<Rightarrow> 'g view \<Rightarrow>
     pending_state \<times> 'g effect list \<times> 'g view" where
  "send m x device address now answer local text v =
     (let entry = \<lparr>pn_local_id = local, pn_text = address text, pn_sent_at = now, pn_state = Sending\<rparr>;
          v1 = touch (v\<lparr>vw_outbox := vw_outbox v @ [entry]\<rparr>)
      in case flush m x device now answer entry v1 of (st, es, v2) \<Rightarrow> (st, Write v1 # es, v2))"

definition retry ::
    "'g mls \<Rightarrow> texts \<Rightarrow> jsstr \<Rightarrow> int \<Rightarrow> nat option \<Rightarrow> jsstr \<Rightarrow> 'g view \<Rightarrow> 'g effect list \<times> 'g view" where
  "retry m x device now answer local v =
     (case find (\<lambda>e. pn_local_id e = local) (vw_outbox v) of
        None \<Rightarrow> ([], v)
      | Some entry \<Rightarrow> snd (flush m x device now answer entry v))"

definition discard :: "jsstr \<Rightarrow> 'g view \<Rightarrow> 'g effect list \<times> 'g view" where
  "discard local v = (let v1 = touch (without_entry local v) in ([Write v1], v1))"

text \<open>\<open>flushOutbox\<close>, in one conversation: over a copy of the queue, up to the first failure.\<close>

fun flush_queue ::
    "'g mls \<Rightarrow> texts \<Rightarrow> jsstr \<Rightarrow> int \<Rightarrow> (jsstr \<Rightarrow> nat option) \<Rightarrow> pending list \<Rightarrow> 'g view \<Rightarrow> 'g effect list \<times> 'g view" where
  "flush_queue m x device now answers [] v = ([], v)"
| "flush_queue m x device now answers (e # queue) v =
     (case flush m x device now (answers (pn_local_id e)) e v of
        (st, es, v1) \<Rightarrow>
          if st = Failed then (es, v1)
          else (case flush_queue m x device now answers queue v1 of (es', v2) \<Rightarrow> (es @ es', v2)))"

definition flush_outbox ::
    "'g mls \<Rightarrow> texts \<Rightarrow> jsstr \<Rightarrow> int \<Rightarrow> (jsstr \<Rightarrow> nat option) \<Rightarrow> 'g view \<Rightarrow> 'g effect list \<times> 'g view" where
  "flush_outbox m x device now answers v = flush_queue m x device now answers (vw_outbox v) v"

subsection \<open>Reading and expiry\<close>

definition mark_read :: "'g view \<Rightarrow> 'g effect list \<times> 'g view" where
  "mark_read v =
     (let v1 = v\<lparr>vw_read_cursor := max (vw_read_cursor v) (vw_content_cursor v)\<rparr>
      in (if vw_content_cursor v > vw_read_cursor v then [Write v1] else [], v1))"

definition drop_expired :: "int \<Rightarrow> 'g session \<Rightarrow> bool \<times> 'g session" where
  "drop_expired now s =
     (let kept = (\<lambda>v. prune (vw_messages v) now);
          shorter = (\<lambda>v. length (kept v) \<noteq> length (vw_messages v))
      in (\<exists>(k, v)\<in>set (sx_views s). shorter v,
          s\<lparr>sx_views := map (\<lambda>(k, v). (k, if shorter v then touch (v\<lparr>vw_messages := kept v\<rparr>) else v)) (sx_views s)\<rparr>))"

subsection \<open>What a send does\<close>

text \<open>The message a send leaves in the thread.\<close>

definition sent_message :: "'g mls \<Rightarrow> jsstr \<Rightarrow> int \<Rightarrow> int \<Rightarrow> nat \<Rightarrow> content \<Rightarrow> 'g view \<Rightarrow> message" where
  "sent_message m device later sent_at seq body v =
     \<lparr>ms_seq = seq, ms_sender = Some device, ms_mine = True, ms_sent_at = Some sent_at,
      ms_expires_at = expiry_of (Some sent_at) later (lifetime_seconds m v), ms_content = body\<rparr>"

lemma lifetime_seconds_cong: "vw_group v = vw_group w \<Longrightarrow> lifetime_seconds m v = lifetime_seconds m w"
  by (simp add: lifetime_seconds_def)

lemma send_content_cases [consumes 1, case_names unsent refused control message]:
  assumes "send_content m x device now later answer body written_at v = (r, es, v')"
  obtains e g where "r = Some e" "es = []" "v' = v\<lparr>vw_group := g\<rparr>"
  | c g where "r = Some PostRefused" "answer = None" "v' = v\<lparr>vw_group := g\<rparr>"
      "es = [Post body (encode_mls c) (vw_posting_key v) v']"
  | bs c g seq where "r = None" "answer = Some seq" "is_control body"
      "encode (tx_stringify x) body (Some (case written_at of Some t \<Rightarrow> t | None \<Rightarrow> now)) = Inr bs"
      "mls_encrypt m (vw_group v) (pad_free bs) = (Some c, g)"
      "v' = v\<lparr>vw_group := g, vw_mine := insert seq (vw_mine v), vw_typing_sent_at := None\<rparr>"
      "es = [Post body (encode_mls c) (vw_posting_key v) (v\<lparr>vw_group := g\<rparr>), Write v']"
  | bs c g seq sent_at msg where "r = None" "answer = Some seq" "\<not> is_control body"
      "sent_at = (case written_at of Some t \<Rightarrow> t | None \<Rightarrow> now)"
      "encode (tx_stringify x) body (Some sent_at) = Inr bs"
      "mls_encrypt m (vw_group v) (pad_free bs) = (Some c, g)"
      "msg = sent_message m device later sent_at seq body (v\<lparr>vw_group := g\<rparr>)"
      "v' = touch (v\<lparr>vw_group := g, vw_mine := insert seq (vw_mine v), vw_typing_sent_at := None,
         vw_messages := vw_messages v @ [msg]\<rparr>)"
      "es = [Post body (encode_mls c) (vw_posting_key v) (v\<lparr>vw_group := g\<rparr>), Write v', DepositIn [msg]]"
proof -
  let ?at = "case written_at of Some t \<Rightarrow> t | None \<Rightarrow> now"
  note a = assms [unfolded send_content_def Let_def]
  show thesis
  proof (cases "encode (tx_stringify x) body (Some ?at)")
    case (Inl e)
    with a that(1) [of "EncodeRefused e" "vw_group v"] show thesis by simp
  next
    case (Inr bs)
    obtain cc g where g: "mls_encrypt m (vw_group v) (pad_free bs) = (cc, g)" by (rule prod.exhaust)
    show thesis
    proof (cases cc)
      case None
      with a Inr g that(1) [of EncryptRefused g] show thesis by simp
    next
      case (Some c)
      show thesis
      proof (cases answer)
        case None
        with a Inr g Some have "r = Some PostRefused" "v' = v\<lparr>vw_group := g\<rparr>"
          "es = [Post body (encode_mls c) (vw_posting_key v) v']" by auto
        with None show thesis by (intro that(2))
      next
        case seq: (Some seq)
        show thesis
        proof (cases "is_control body")
          case True
          with a Inr g Some seq have "r = None"
            "v' = v\<lparr>vw_group := g, vw_mine := insert seq (vw_mine v), vw_typing_sent_at := None\<rparr>"
            "es = [Post body (encode_mls c) (vw_posting_key v) (v\<lparr>vw_group := g\<rparr>), Write v']" by auto
          with True seq Inr g Some show thesis by (intro that(3)) simp_all
        next
          case False
          let ?msg = "sent_message m device later ?at seq body (v\<lparr>vw_group := g\<rparr>)"
          have "lifetime_seconds m (v\<lparr>vw_group := g, vw_mine := insert seq (vw_mine v), vw_typing_sent_at := None\<rparr>) =
              lifetime_seconds m (v\<lparr>vw_group := g\<rparr>)" by (rule lifetime_seconds_cong) simp
          with a Inr g Some seq False have "r = None"
            "v' = touch (v\<lparr>vw_group := g, vw_mine := insert seq (vw_mine v), vw_typing_sent_at := None,
               vw_messages := vw_messages v @ [?msg]\<rparr>)"
            "es = [Post body (encode_mls c) (vw_posting_key v) (v\<lparr>vw_group := g\<rparr>), Write v', DepositIn [?msg]]"
            by (auto simp: sent_message_def)
          with False seq Inr g Some show thesis by (intro that(4) [of seq ?at bs c g ?msg]) simp_all
        qed
      qed
    qed
  qed
qed

lemma send_content_frame:
  assumes "send_content m x device now later answer body written_at v = (r, es, v')"
  shows "vw_cursor v' = vw_cursor v" "vw_content_cursor v' = vw_content_cursor v"
    "vw_read_cursor v' = vw_read_cursor v" "vw_receipts v' = vw_receipts v" "vw_outbox v' = vw_outbox v"
    "vw_stale v' = vw_stale v" "vw_key v' = vw_key v"
    "\<forall>w. Write w \<in> set es \<longrightarrow> w = v'"
    "\<forall>b bs k w. Post b bs k w \<in> set es \<longrightarrow> vw_cursor w = vw_cursor v \<and> vw_outbox w = vw_outbox v"
    "FetchPage n \<notin> set es" "DropVault \<notin> set es"
  using assms by (cases rule: send_content_cases; simp)+

text \<open>The formats stacked: the content inside the padding.\<close>

interpretation wire: codec_stack "encode_message stringify" "decode parse now" "message_ok stringify parse now"
    pad_free unpad "\<lambda>_. True"
  for stringify parse now
  by unfold_locales simp

text \<open>C5. A message sent is the message received. What \<open>sendContent\<close> posts, absorbed by a device whose
  group opens what ours encrypted and names our account, joins its thread with the same content and the
  same declared time, under our account and not as its own, with the deadline of its own lifetime; when
  that deadline has passed it joins nothing.\<close>

theorem sent_message_arrives:
  assumes "send_content m x device now later (Some seq) body written_at v = (None, es, v')"
    and "\<not> is_control body" and "sent_at = (case written_at of Some t \<Rightarrow> t | None \<Rightarrow> now)"
    and "message_ok (tx_stringify x) (tx_parse y) there \<lparr>stamped_body = body, stamped_at = Some sent_at\<rparr>"
    and channel: "\<forall>p c g. mls_encrypt m (vw_group v) p = (Some c, g) \<longrightarrow>
      mls_process m2 (vw_group u) c (concat (map ra_revoked_keys (vw_accounts u))) = (Some (Application (Some me) p), h)"
  shows "\<exists>payload key w rest. es = Post body payload key w # rest \<and>
    (let deadline = expiry_of (Some sent_at) there (lifetime_seconds m2 (u\<lparr>vw_group := h\<rparr>));
         (r, u') = absorb m2 y s there seq payload u
     in (\<exists>ns. r = Inr ns) \<and> vw_content_cursor u' = max (vw_content_cursor u) seq \<and>
        vw_messages u' = vw_messages u @
          (if case deadline of Some t \<Rightarrow> t \<le> there | None \<Rightarrow> False then []
           else [\<lparr>ms_seq = seq, ms_sender = Some me, ms_mine = False, ms_sent_at = Some sent_at,
                  ms_expires_at = deadline, ms_content = body\<rparr>]))"
  using assms(1)
proof (cases rule: send_content_cases)
  case (message bs c g seq' sent_at' msg)
  let ?d = "\<lparr>stamped_body = body, stamped_at = Some sent_at\<rparr>"
  from assms(3) message(4,5) have enc: "bs = encode_message (tx_stringify x) ?d" by (simp add: encode_message_def)
  have "then_dec (decode (tx_parse y) there) unpad (pad_free bs) = Inr ?d"
    unfolding enc by (rule wire.stack_dec_enc [OF assms(4)])
  then obtain bs' where u: "unpad (pad_free bs) = Inr bs'" "decode (tx_parse y) there bs' = Inr ?d"
    by (auto simp: then_dec_def split: sum.splits)
  have dec: "decode_envelope (encode_mls c) = Inr (Mls c)" using decode_encode_envelope [of "Mls c"] by simp
  from channel message(6)
  have p: "mls_process m2 (vw_group u) c (concat (map ra_revoked_keys (vw_accounts u))) =
      (Some (Application (Some me) (pad_free bs)), h)" by blast
  have l: "lifetime_seconds m2 (u\<lparr>vw_group := h, vw_typing := t\<rparr>) = lifetime_seconds m2 (u\<lparr>vw_group := h\<rparr>)" for t
    by (rule lifetime_seconds_cong) simp
  show ?thesis
    unfolding message(9)
    by (intro exI conjI, rule refl)
      (simp add: absorb_def dec p u assms(2) absorb_message_def l Let_def split: option.splits)
qed (use assms(2) in simp_all)

lemma message_ok_text:
  "ascii t \<Longrightarrow> stamp_ok at \<Longrightarrow> message_ok stringify parse now \<lparr>stamped_body = Text t, stamped_at = Some at\<rparr>"
  by (simp add: message_ok_def plain_text_ascii)

lemma encode_text_Inr: "encode stringify (Text t) (Some at) = Inr (type_stamped # set_u64 at @ encode_text t)"
  by (simp add: encode_def)

theorem sent_message_arrives_witness:
  "\<exists>payload. (let (r, es, v) = send_content (clear_mls (js ''amy'')) plain_texts (js ''phone'') 1000 1001 (Some 5)
        (Text (js ''hi'')) None (new_view (js ''room'') 0)
      in \<exists>key w rest. es = Post (Text (js ''hi'')) payload key w # rest) \<and>
    map ms_content (vw_messages (snd (absorb (clear_mls (js ''amy'')) plain_texts
      (new_session (js ''bob'') (js ''laptop'')) 1002 5 payload (new_view (js ''room'') 0)))) = [Text (js ''hi'')]"
proof -
  let ?m = "clear_mls (js ''amy'')" and ?v = "new_view (js ''room'') (0::nat)"
  obtain r es v' where s: "send_content ?m plain_texts (js ''phone'') 1000 1001 (Some 5) (Text (js ''hi'')) None ?v = (r, es, v')"
    by (rule prod_cases3)
  moreover from s have "r = None"
    by (auto simp: send_content_def encode_text_Inr Let_def)
  ultimately have s': "send_content ?m plain_texts (js ''phone'') 1000 1001 (Some 5) (Text (js ''hi'')) None ?v = (None, es, v')"
    by simp
  have ok: "message_ok (tx_stringify plain_texts) (tx_parse plain_texts) 1002
      \<lparr>stamped_body = Text (js ''hi''), stamped_at = Some 1000\<rparr>"
    by (rule message_ok_text) (simp_all add: ascii_def js_def stamp_ok_def)
  have "\<forall>p c g. mls_encrypt ?m (vw_group ?v) p = (Some c, g) \<longrightarrow>
      mls_process ?m (vw_group ?v) c (concat (map ra_revoked_keys (vw_accounts ?v))) =
        (Some (Application (Some (js ''amy'')) p), 1)"
    by simp
  from sent_message_arrives [OF s' _ _ ok this, of "new_session (js ''bob'') (js ''laptop'')"]
  obtain payload key w rest where e: "es = Post (Text (js ''hi'')) payload key w # rest"
    and "map ms_content (vw_messages (snd (absorb ?m plain_texts (new_session (js ''bob'') (js ''laptop'')) 1002 5 payload ?v))) =
      [Text (js ''hi'')]"
    by (auto simp: expiry_of_def Let_def case_prod_beta)
  then show ?thesis by (intro exI [of _ payload]) (simp add: s)
qed

subsection \<open>Receipts go quiet\<close>

definition quiet :: "account \<Rightarrow> bool \<Rightarrow> 'g view \<Rightarrow> bool" where
  "quiet me read_receipts v \<longleftrightarrow> pending_receipt (vw_receipts v) me Delivered (vw_content_cursor v) = None \<and>
     (read_receipts \<longrightarrow> pending_receipt (vw_receipts v) me Read (vw_read_cursor v) = None)"

lemma pending_None: "pending_receipt book h st cursor = None \<longleftrightarrow> cursor \<le> reached book h st"
  by (simp add: pending_receipt_def)

lemma announce_receipt_spec:
  assumes "announce_receipt m x me device now answer st cursor v = (r, es, v')"
  shows "cursor \<le> reached (vw_receipts v') me st" "reached (vw_receipts v) h st' \<le> reached (vw_receipts v') h st'"
    "vw_content_cursor v' = vw_content_cursor v" "vw_read_cursor v' = vw_read_cursor v"
    "vw_cursor v' = vw_cursor v" "vw_outbox v' = vw_outbox v" "vw_stale v' = vw_stale v"
    "FetchPage n \<notin> set es" "DropVault \<notin> set es"
    "\<forall>b bs k w. Post b bs k w \<in> set es \<longrightarrow> vw_cursor w = vw_cursor v"
proof -
  have all: "cursor \<le> reached (vw_receipts v') me st \<and> reached (vw_receipts v) h st' \<le> reached (vw_receipts v') h st' \<and>
    vw_content_cursor v' = vw_content_cursor v \<and> vw_read_cursor v' = vw_read_cursor v \<and>
    vw_cursor v' = vw_cursor v \<and> vw_outbox v' = vw_outbox v \<and> vw_stale v' = vw_stale v \<and>
    FetchPage n \<notin> set es \<and> DropVault \<notin> set es \<and>
    (\<forall>b bs k w. Post b bs k w \<in> set es \<longrightarrow> vw_cursor w = vw_cursor v)"
  proof (cases "pending_receipt (vw_receipts v) me st cursor")
    case None
    with assms show ?thesis by (simp add: announce_receipt_def pending_None)
  next
    case (Some n)
    then have n: "n = cursor" by (simp add: pending_receipt_def split: if_splits)
    from assms Some have s: "send_content m x device now now answer (Receipt st n) None
        (v\<lparr>vw_receipts := record_receipt (vw_receipts v) me st n\<rparr>) = (r, es, v')"
      by (simp add: announce_receipt_def)
    from send_content_frame [OF s] show ?thesis by (cases st) (simp_all add: n reached_record)
  qed
  from all show "cursor \<le> reached (vw_receipts v') me st" "reached (vw_receipts v) h st' \<le> reached (vw_receipts v') h st'"
    "vw_content_cursor v' = vw_content_cursor v" "vw_read_cursor v' = vw_read_cursor v"
    "vw_cursor v' = vw_cursor v" "vw_outbox v' = vw_outbox v" "vw_stale v' = vw_stale v"
    "FetchPage n \<notin> set es" "DropVault \<notin> set es"
    "\<forall>b bs k w. Post b bs k w \<in> set es \<longrightarrow> vw_cursor w = vw_cursor v" by simp_all
qed

lemma acknowledge_spec:
  assumes "acknowledge m x me device rr now answers v = (r, es, v')"
  shows "r = None \<Longrightarrow> quiet me rr v'" "vw_cursor v' = vw_cursor v"
    "FetchPage n \<notin> set es" "DropVault \<notin> set es"
    "\<forall>b bs k w. Post b bs k w \<in> set es \<longrightarrow> vw_cursor w = vw_cursor v"
proof -
  obtain r1 es1 v1 where a1: "announce_receipt m x me device now (fst answers) Delivered (vw_content_cursor v) v = (r1, es1, v1)"
    by (rule prod_cases3)
  note f1 = announce_receipt_spec [OF a1]
  have all: "(r = None \<longrightarrow> quiet me rr v') \<and> vw_cursor v' = vw_cursor v \<and> FetchPage n \<notin> set es \<and> DropVault \<notin> set es \<and>
    (\<forall>b bs k w. Post b bs k w \<in> set es \<longrightarrow> vw_cursor w = vw_cursor v)"
  proof (cases "r1 = None \<and> rr")
    case False
    with assms a1 have e: "r = r1" "es = es1" "v' = v1"
      by (auto simp: acknowledge_def split: option.splits)
    from False e f1 show ?thesis by (auto simp: quiet_def pending_None)
  next
    case True
    obtain r2 es2 v2 where a2: "announce_receipt m x me device now (snd answers) Read (vw_read_cursor v1) v1 = (r2, es2, v2)"
      by (rule prod_cases3)
    note f2 = announce_receipt_spec [OF a2]
    from True assms a1 a2 have e: "r = r2" "es = es1 @ es2" "v' = v2" by (auto simp: acknowledge_def)
    have "vw_content_cursor v \<le> reached (vw_receipts v2) me Delivered"
      using f1(1) f2(2) [of me Delivered] by (rule order_trans)
    with e f1 f2 show ?thesis by (auto simp: quiet_def pending_None)
  qed
  from all show "r = None \<Longrightarrow> quiet me rr v'" "vw_cursor v' = vw_cursor v" "FetchPage n \<notin> set es" "DropVault \<notin> set es"
    "\<forall>b bs k w. Post b bs k w \<in> set es \<longrightarrow> vw_cursor w = vw_cursor v" by simp_all
qed

lemma acknowledge_quiet: "quiet me rr v \<Longrightarrow> acknowledge m x me device rr now answers v = (None, [], v)"
  by (simp add: quiet_def acknowledge_def announce_receipt_def)

lemma absorb_control_quiet:
  assumes "absorb_control who sender body v = (ns, v')" and "quiet me rr v"
  shows "quiet me rr v'"
proof -
  have "reached (vw_receipts v) me st \<le> reached (vw_receipts v') me st" for st
    using assms(1)
    by (cases "(who, sender, body, v)" rule: absorb_control.cases)
      (auto simp: reached_record_le split: if_splits)
  with absorb_control_frame [OF assms(1)] assms(2) show ?thesis
    by (auto simp: quiet_def pending_None same_record_def intro: order_trans)
qed

text \<open>C7. Receipts do not breed receipts. After an \<open>acknowledge\<close> that went through, the conversation owes
  nothing; a conversation that owes nothing emits nothing and changes nothing; and absorbing protocol
  traffic, a peer's receipt or our own come back to us, never makes it owe again. Only a message does.\<close>

theorem receipts_go_quiet:
  "(acknowledge m x me device rr now answers v = (None, es, v') \<longrightarrow> quiet me rr v') \<and>
   (quiet me rr v \<longrightarrow> acknowledge m x me device rr now answers v = (None, [], v)) \<and>
   (quiet me rr v \<and> decode_envelope payload = Inr (Mls p) \<and>
      mls_process m (vw_group v) p (concat (map ra_revoked_keys (vw_accounts v))) = (Some (Application sender plaintext), g) \<and>
      then_dec (decode (tx_parse x) now) unpad plaintext = Inr d \<and> is_control (stamped_body d) \<longrightarrow>
    quiet me rr (snd (absorb m x s now seq payload v)))"
proof (intro conjI impI)
  assume a: "quiet me rr v \<and> decode_envelope payload = Inr (Mls p) \<and>
      mls_process m (vw_group v) p (concat (map ra_revoked_keys (vw_accounts v))) = (Some (Application sender plaintext), g) \<and>
      then_dec (decode (tx_parse x) now) unpad plaintext = Inr d \<and> is_control (stamped_body d)"
  obtain r v1 where ab: "absorb m x s now seq payload v = (r, v1)" by (rule prod.exhaust)
  then have "quiet me rr v1"
  proof (cases rule: absorb_cases)
    case (heard p' sender' plaintext' g' d' ns)
    with a have "absorb_control (sx_account s) sender (stamped_body d) (v\<lparr>vw_group := g\<rparr>) = (ns, v1)" by auto
    moreover have "quiet me rr (v\<lparr>vw_group := g\<rparr>)" using a by (simp add: quiet_def)
    ultimately show ?thesis by (rule absorb_control_quiet)
  qed (use a in \<open>simp_all add: quiet_def\<close>)
  with ab show "quiet me rr (snd (absorb m x s now seq payload v))" by simp
qed (use acknowledge_spec(1) acknowledge_quiet in blast)+

theorem receipts_go_quiet_witness:
  "acknowledge (clear_mls (js ''amy'')) plain_texts (js ''amy'') (js ''phone'') True 9 (Some 7, Some 8)
     (new_view (js ''room'') 0) = (None, [], new_view (js ''room'') 0)"
  using receipts_go_quiet [of "clear_mls (js ''amy'')" plain_texts "js ''amy''" "js ''phone''" True 9 "(Some 7, Some 8)"
      "new_view (js ''room'') 0"]
  by (simp add: quiet_def pending_None)

subsection \<open>The order of a poll\<close>

text \<open>What absorbing a page sets in motion on its own, and waits for nothing.\<close>

fun launched :: "'g effect \<Rightarrow> bool" where
  "launched (CompareHead _) = True"
| "launched (OpenSettings _) = True"
| "launched (CallEffects _) = True"
| "launched _ = False"

lemma take_news_launched: "\<forall>e\<in>set (fst (take_news x now n sv)). launched e"
  by (cases "(x, now, n, sv)" rule: take_news.cases) (auto split: prod.splits)

lemma take_all_launched: "\<forall>e\<in>set (fst (take_all x now ns sv)). launched e"
proof (induction ns arbitrary: sv)
  case (Cons n ns)
  show ?case using Cons.IH take_news_launched [of x now n sv]
    by (auto split: prod.splits) (metis fst_conv)
qed simp

lemma take_news_owed: "sx_drops_owed (fst (snd (take_news x now n (s, v)))) = sx_drops_owed s"
  by (cases n) (auto simp: touch_all_def split: prod.splits)

lemma take_all_owed: "sx_drops_owed (fst (snd (take_all x now ns (s, v)))) = sx_drops_owed s"
proof (induction ns arbitrary: s v)
  case (Cons n ns)
  obtain es s1 v1 where "take_news x now n (s, v) = (es, s1, v1)" by (cases "take_news x now n (s, v)") auto
  with Cons.IH [of s1 v1] take_news_owed [of x now n s v] show ?case by (auto split: prod.splits)
qed simp

lemma hear_row_launched:
  assumes "hear_row m x now row (s, v) = (es, s', v')"
  shows "\<forall>e\<in>set es. launched e" "sx_drops_owed s' = sx_drops_owed s"
proof -
  have "(\<forall>e\<in>set es. launched e) \<and> sx_drops_owed s' = sx_drops_owed s"
  proof (cases "fst row \<in> vw_mine v")
    case True
    with assms show ?thesis by (auto simp: hear_row_def)
  next
    case False
    obtain r v1 where a: "absorb m x s now (fst row) (snd row) v = (r, v1)" by (rule prod.exhaust)
    show ?thesis
    proof (cases r)
      case (Inl e)
      with assms False a show ?thesis by (auto simp: hear_row_def)
    next
      case (Inr ns)
      obtain es1 s1 v2 where t: "take_all x now ns (s, v1) = (es1, s1, v2)" by (rule prod_cases3)
      with assms False a Inr have "es = es1" "s' = s1" by (simp_all add: hear_row_def)
      with take_all_launched [of x now ns "(s, v1)"] take_all_owed [of x now ns s v1] t show ?thesis by simp
    qed
  qed
  then show "\<forall>e\<in>set es. launched e" "sx_drops_owed s' = sx_drops_owed s" by auto
qed

lemma hear_rows_launched:
  "hear_rows m x now rows (s, v) = (es, s', v') \<Longrightarrow> (\<forall>e\<in>set es. launched e) \<and> sx_drops_owed s' = sx_drops_owed s"
proof (induction rows arbitrary: s v es)
  case (Cons row rows)
  obtain es1 s1 v1 where r: "hear_row m x now row (s, v) = (es1, s1, v1)" by (rule prod_cases3)
  obtain es2 where rs: "hear_rows m x now rows (s1, v1) = (es2, s', v')" and es: "es = es1 @ es2"
    using Cons.prems r by (auto split: prod.splits)
  from hear_row_launched [OF r] Cons.IH [OF rs] show ?case by (auto simp: es)
qed simp

lemma poll_view_cases:
  fixes m :: "'g mls"
  assumes "poll_view m x now t (s, v) = Some (es, s', v')" and "\<not> vw_stale v"
    and "tu_page t = Some p" and "pa_oldest p \<le> vw_cursor v + 1"
  obtains heard s1 v1 w erase owed r receipts u where
    "hear_rows m x now (pa_rows p) (s, v) = (heard, s1, v1)"
    "w = v1\<lparr>vw_epoch := mls_epoch m (vw_group v1), vw_peers := mls_peers m (vw_group v1)\<rparr>"
    "settle (tu_drop_ok t) (vw_key v) (owed_after m (lifetime_seconds m v) w (sx_drops_owed s)) = (erase, owed)"
    "sx_drops_owed s' = owed" "vw_cursor u = vw_cursor w"
    "acknowledge m x (sx_account s1) (sx_device s1) (ss_read_receipts (sx_signals s1)) now (tu_receipts t) u = (r, receipts, v')"
    "es = FetchPage (vw_cursor v) # heard @ [Write w] @ erase @
       [DepositIn (drop (length (vw_messages v)) (vw_messages w)), ResolvePeers] @ receipts"
    "s' = s1\<lparr>sx_drops_owed := owed\<rparr>" "vw_messages u = vw_messages v1"
proof -
  obtain heard s1 v1 where h: "hear_rows m x now (pa_rows p) (s, v) = (heard, s1, v1)" by (rule prod_cases3)
  let ?w = "v1\<lparr>vw_epoch := mls_epoch m (vw_group v1), vw_peers := mls_peers m (vw_group v1)\<rparr>"
  let ?u = "?w\<lparr>vw_accounts := resolve_peers (sx_account s1) (tu_resolve t) ?w\<rparr>"
  obtain r receipts v4 where a: "acknowledge m x (sx_account s1) (sx_device s1)
      (ss_read_receipts (sx_signals s1)) now (tu_receipts t) ?u = (r, receipts, v4)" by (rule prod_cases3)
  have k: "vw_key v1 = vw_key v" using hear_rows_frame [OF h] by (simp add: same_record_def)
  have o: "sx_drops_owed s1 = sx_drops_owed s" using hear_rows_launched [OF h] by simp
  obtain erase :: "'g effect list" and owed where d: "settle (tu_drop_ok t) (vw_key v) (owed_after m (lifetime_seconds m v) ?w (sx_drops_owed s)) = (erase, owed)"
    by (rule prod.exhaust)
  from assms(4) have g: "\<not> vw_cursor v + 1 < pa_oldest p" by simp
  have e: "Some (FetchPage (vw_cursor v) # heard @ [Write ?w] @ erase @
       [DepositIn (drop (length (vw_messages v)) (vw_messages ?w)), ResolvePeers] @ receipts,
       s1\<lparr>sx_drops_owed := owed\<rparr>, v4) = Some (es, s', v')"
    using assms(1) unfolding poll_view_def Let_def prod.case if_not_P [OF assms(2)] assms(3) option.case if_not_P [OF g] h
    by (simp add: k o d a)
  from e have "s' = s1\<lparr>sx_drops_owed := owed\<rparr>" "v' = v4" "es = FetchPage (vw_cursor v) # heard @ [Write ?w] @ erase @
       [DepositIn (drop (length (vw_messages v)) (vw_messages ?w)), ResolvePeers] @ receipts" by simp_all
  with h d a show thesis by (intro that [of heard s1 v1 ?w erase owed ?u r receipts]) simp_all
qed

text \<open>C6. The cursor and the ratchet reach the disk together, before anything else can fail. In a turn of
  the poll, what precedes the write is the fetch and what the page set in motion; the view written has
  the group and the cursor the page left; the erasure of the archive, the deposit, the resolution of the
  peers and the receipts come after it, in that order, and no later request leaves with another cursor.
  A turn of a stale conversation does nothing, and a page that starts after the next number makes it
  stale and nothing else.\<close>

theorem poll_writes_first:
  assumes "poll_view m x now t (s, v) = Some (es, s', v')"
  shows "(vw_stale v \<longrightarrow> es = [] \<and> s' = s \<and> v' = v) \<and>
    (\<not> vw_stale v \<longrightarrow> (\<exists>p. tu_page t = Some p \<and>
       (if vw_cursor v + 1 < pa_oldest p then es = [FetchPage (vw_cursor v)] \<and> s' = s \<and> v' = v\<lparr>vw_stale := True\<rparr>
        else \<exists>heard w erase receipts.
          es = FetchPage (vw_cursor v) # heard @ [Write w] @ erase @
            [DepositIn (drop (length (vw_messages v)) (vw_messages w)), ResolvePeers] @ receipts \<and>
          (\<forall>e\<in>set heard. launched e) \<and> erase \<in> {[], [DropVault]} \<and>
          vw_group w = vw_group (snd (snd (hear_rows m x now (pa_rows p) (s, v)))) \<and>
          vw_cursor w = Max (insert (vw_cursor v) (fst ` set (pa_rows p))) \<and>
          vw_cursor v' = vw_cursor w \<and>
          (\<forall>b bs k u. Post b bs k u \<in> set receipts \<longrightarrow> vw_cursor u = vw_cursor w))))"
proof (intro conjI impI)
  assume "vw_stale v"
  with assms show "es = []" "s' = s" "v' = v" by (simp_all add: poll_view_def)
next
  assume fresh: "\<not> vw_stale v"
  with assms obtain p where p: "tu_page t = Some p" by (auto simp: poll_view_def split: option.splits)
  show "\<exists>p. tu_page t = Some p \<and>
       (if vw_cursor v + 1 < pa_oldest p then es = [FetchPage (vw_cursor v)] \<and> s' = s \<and> v' = v\<lparr>vw_stale := True\<rparr>
        else \<exists>heard w erase receipts.
          es = FetchPage (vw_cursor v) # heard @ [Write w] @ erase @
            [DepositIn (drop (length (vw_messages v)) (vw_messages w)), ResolvePeers] @ receipts \<and>
          (\<forall>e\<in>set heard. launched e) \<and> erase \<in> {[], [DropVault]} \<and>
          vw_group w = vw_group (snd (snd (hear_rows m x now (pa_rows p) (s, v)))) \<and>
          vw_cursor w = Max (insert (vw_cursor v) (fst ` set (pa_rows p))) \<and>
          vw_cursor v' = vw_cursor w \<and>
          (\<forall>b bs k u. Post b bs k u \<in> set receipts \<longrightarrow> vw_cursor u = vw_cursor w))"
  proof (cases "vw_cursor v + 1 < pa_oldest p")
    case True
    with assms fresh p show ?thesis by (auto simp: poll_view_def)
  next
    case False
    then have "pa_oldest p \<le> vw_cursor v + 1" by simp
    from poll_view_cases [OF assms fresh p this] obtain heard s1 v1 w erase owed r receipts u where
      h: "hear_rows m x now (pa_rows p) (s, v) = (heard, s1, v1)"
      and w: "w = v1\<lparr>vw_epoch := mls_epoch m (vw_group v1), vw_peers := mls_peers m (vw_group v1)\<rparr>"
      and d: "settle (tu_drop_ok t) (vw_key v) (owed_after m (lifetime_seconds m v) w (sx_drops_owed s)) = (erase, owed)"
      and u: "vw_cursor u = vw_cursor w"
      and a: "acknowledge m x (sx_account s1) (sx_device s1) (ss_read_receipts (sx_signals s1)) now (tu_receipts t) u = (r, receipts, v')"
      and es: "es = FetchPage (vw_cursor v) # heard @ [Write w] @ erase @
        [DepositIn (drop (length (vw_messages v)) (vw_messages w)), ResolvePeers] @ receipts"
      by metis
    have "erase \<in> {[], [DropVault]}" using d by (auto simp: settle_def split: if_splits)
    moreover
    have "vw_cursor w = Max (insert (vw_cursor v) (fst ` set (pa_rows p)))"
      using hear_rows_frame [OF h] by (simp add: w fold_max)
    moreover have "\<forall>e\<in>set heard. launched e" using hear_rows_launched [OF h] by simp
    moreover note acknowledge_spec(2,5) [OF a]
    ultimately have "es = FetchPage (vw_cursor v) # heard @ [Write w] @ erase @
        [DepositIn (drop (length (vw_messages v)) (vw_messages w)), ResolvePeers] @ receipts \<and>
      (\<forall>e\<in>set heard. launched e) \<and> erase \<in> {[], [DropVault]} \<and>
      vw_group w = vw_group (snd (snd (hear_rows m x now (pa_rows p) (s, v)))) \<and>
      vw_cursor w = Max (insert (vw_cursor v) (fst ` set (pa_rows p))) \<and> vw_cursor v' = vw_cursor w \<and>
      (\<forall>b bs k u. Post b bs k u \<in> set receipts \<longrightarrow> vw_cursor u = vw_cursor w)"
      using es u h by (simp add: w)
    then have "\<exists>heard w erase receipts.
          es = FetchPage (vw_cursor v) # heard @ [Write w] @ erase @
            [DepositIn (drop (length (vw_messages v)) (vw_messages w)), ResolvePeers] @ receipts \<and>
          (\<forall>e\<in>set heard. launched e) \<and> erase \<in> {[], [DropVault]} \<and>
          vw_group w = vw_group (snd (snd (hear_rows m x now (pa_rows p) (s, v)))) \<and>
          vw_cursor w = Max (insert (vw_cursor v) (fst ` set (pa_rows p))) \<and> vw_cursor v' = vw_cursor w \<and>
          (\<forall>b bs k u. Post b bs k u \<in> set receipts \<longrightarrow> vw_cursor u = vw_cursor w)" (is ?log)
      by (intro exI)
    with False p show ?thesis by (simp only: option.inject simp_thms if_False ex_simps)
  qed
qed

definition empty_turn :: "nat \<Rightarrow> turn" where
  "empty_turn oldest = \<lparr>tu_page = Some \<lparr>pa_oldest = oldest, pa_rows = []\<rparr>, tu_drop_ok = False,
     tu_resolve = (\<lambda>a. None), tu_receipts = (None, None)\<rparr>"

theorem poll_writes_first_witness:
  "poll_view (clear_mls (js ''bob'')) plain_texts 9 (empty_turn 40)
     (new_session (js ''amy'') (js ''phone''), new_view (js ''room'') 0) =
   Some ([FetchPage 0], new_session (js ''amy'') (js ''phone''), (new_view (js ''room'') 0)\<lparr>vw_stale := True\<rparr>)"
proof -
  let ?s = "new_session (js ''amy'') (js ''phone'')" and ?v = "new_view (js ''room'') (0::nat)"
  obtain es s' v' where p: "poll_view (clear_mls (js ''bob'')) plain_texts 9 (empty_turn 40) (?s, ?v) = Some (es, s', v')"
    by (auto simp: poll_view_def empty_turn_def)
  from poll_writes_first [OF p] show ?thesis unfolding p by (simp add: empty_turn_def)
qed

text \<open>A conversation told to forget is erased from the archive, however often the server fails. When a
  page turns a lifetime on, the erasure is asked for in the same turn, before the deposit; as long as it
  is owed every turn asks for it; a failure keeps it owed and a success is the only thing that clears
  it. A turn in which nothing was owed and no lifetime came on asks for nothing.\<close>

theorem archive_debt:
  assumes "poll_view m x now t (s, v) = Some (es, s', v')" and "\<not> vw_stale v"
    and "tu_page t = Some p" and "pa_oldest p \<le> vw_cursor v + 1"
    and "due = (vw_key v \<in> sx_drops_owed s \<or> lifetime_seconds m v = 0 \<and>
      lifetime_seconds m (snd (snd (hear_rows m x now (pa_rows p) (s, v)))) > 0)"
  shows "(DropVault \<in> set es \<longleftrightarrow> due) \<and>
    (vw_key v \<in> sx_drops_owed s' \<longleftrightarrow> due \<and> \<not> tu_drop_ok t) \<and>
    (\<forall>k. k \<noteq> vw_key v \<longrightarrow> (k \<in> sx_drops_owed s' \<longleftrightarrow> k \<in> sx_drops_owed s))"
proof -
  from poll_view_cases [OF assms(1-4)] obtain heard s1 v1 w erase owed r receipts u where
    h: "hear_rows m x now (pa_rows p) (s, v) = (heard, s1, v1)"
    and w: "w = v1\<lparr>vw_epoch := mls_epoch m (vw_group v1), vw_peers := mls_peers m (vw_group v1)\<rparr>"
    and d: "settle (tu_drop_ok t) (vw_key v) (owed_after m (lifetime_seconds m v) w (sx_drops_owed s)) = (erase, owed)"
    and o: "sx_drops_owed s' = owed"
    and a: "acknowledge m x (sx_account s1) (sx_device s1) (ss_read_receipts (sx_signals s1)) now (tu_receipts t) u = (r, receipts, v')"
    and es: "es = FetchPage (vw_cursor v) # heard @ [Write w] @ erase @
        [DepositIn (drop (length (vw_messages v)) (vw_messages w)), ResolvePeers] @ receipts"
    by metis
  have k: "vw_key w = vw_key v" using hear_rows_frame [OF h] by (simp add: w same_record_def)
  have l: "lifetime_seconds m w = lifetime_seconds m v1" by (rule lifetime_seconds_cong) (simp add: w)
  have due: "due \<longleftrightarrow> vw_key v \<in> owed_after m (lifetime_seconds m v) w (sx_drops_owed s)"
    unfolding assms(5) h by (auto simp: owed_after_def k l)
  have "DropVault \<in> set es \<longleftrightarrow> DropVault \<in> set erase"
    using hear_rows_launched [OF h] acknowledge_spec(4) [OF a] by (auto simp: es)
  then show ?thesis using d by (auto simp: due o settle_def drop_archive_def owed_after_def k split: if_splits)
qed

theorem archive_debt_witness:
  "(case poll_view (clear_mls (js ''bob'')) plain_texts 9 (empty_turn 0)
      ((new_session (js ''amy'') (js ''phone''))\<lparr>sx_drops_owed := {js ''room''}\<rparr>, new_view (js ''room'') 0) of
     None \<Rightarrow> False | Some (es, s', v') \<Rightarrow> DropVault \<in> set es \<and> sx_drops_owed s' = {js ''room''})"
proof -
  let ?s = "(new_session (js ''amy'') (js ''phone''))\<lparr>sx_drops_owed := {js ''room''}\<rparr>"
    and ?v = "new_view (js ''room'') (0::nat)"
  obtain es s' v' where p: "poll_view (clear_mls (js ''bob'')) plain_texts 9 (empty_turn 0) (?s, ?v) = Some (es, s', v')"
    by (auto simp: poll_view_def empty_turn_def Let_def case_prod_beta)
  from archive_debt [OF p _ _ _ refl, of "\<lparr>pa_oldest = 0, pa_rows = []\<rparr>"]
  have "DropVault \<in> set es" "\<forall>k. k \<in> sx_drops_owed s' \<longleftrightarrow> k = js ''room''"
    by (auto simp: empty_turn_def)
  then show ?thesis by (auto simp: p)
qed

subsection \<open>Nothing written is lost\<close>

text \<open>Where the text of an entry can be found.\<close>

definition holds_text :: "jsstr \<Rightarrow> jsstr \<Rightarrow> 'g view \<Rightarrow> bool" where
  "holds_text local text v \<longleftrightarrow> (\<exists>e\<in>set (vw_outbox v). pn_local_id e = local \<and> pn_text e = text) \<or>
     (\<exists>msg\<in>set (vw_messages v). ms_mine msg \<and> ms_content msg = Text text)"

text \<open>The texts a log posts.\<close>

fun posted :: "'g effect list \<Rightarrow> jsstr list" where
  "posted [] = []"
| "posted (Post (Text t) _ _ _ # es) = t # posted es"
| "posted (_ # es) = posted es"

lemma posted_append: "posted (es @ fs) = posted es @ posted fs"
  by (induction es rule: posted.induct) auto

lemma mark_entry_simps [simp]:
  "vw_messages (mark_entry l st v) = vw_messages v" "vw_group (mark_entry l st v) = vw_group v"
  "map pn_local_id (vw_outbox (mark_entry l st v)) = map pn_local_id (vw_outbox v)"
  "map pn_text (vw_outbox (mark_entry l st v)) = map pn_text (vw_outbox v)"
  by (simp_all add: mark_entry_def comp_def if_distrib cong: if_cong)

lemma without_entry_simps [simp]:
  "vw_messages (without_entry l v) = vw_messages v"
  "map pn_local_id (vw_outbox (without_entry l v)) = filter (\<lambda>i. i \<noteq> l) (map pn_local_id (vw_outbox v))"
  by (simp_all add: without_entry_def filter_map comp_def)

lemma without_mark: "vw_outbox (without_entry l (mark_entry l st v)) = vw_outbox (without_entry l v)"
  by (induction "vw_outbox v" arbitrary: v) (auto simp: without_entry_def mark_entry_def filter_map comp_def intro!: map_idI)

lemma holds_text_pairs:
  "holds_text l t v \<longleftrightarrow> (l, t) \<in> set (map (\<lambda>e. (pn_local_id e, pn_text e)) (vw_outbox v)) \<or>
     (\<exists>msg\<in>set (vw_messages v). ms_mine msg \<and> ms_content msg = Text t)"
  by (auto simp: holds_text_def)

lemma holds_text_simps [simp]:
  "holds_text l t (touch v) = holds_text l t v"
  "holds_text l t (v\<lparr>vw_group := g\<rparr>) = holds_text l t v"
  "holds_text l t (mark_entry l' st v) = holds_text l t v"
proof -
  have "map (\<lambda>e. (pn_local_id e, pn_text e)) (vw_outbox (mark_entry l' st v)) =
      map (\<lambda>e. (pn_local_id e, pn_text e)) (vw_outbox v)"
    by (simp add: mark_entry_def)
  then show "holds_text l t (mark_entry l' st v) = holds_text l t v" by (simp only: holds_text_pairs mark_entry_simps)
qed (simp_all add: holds_text_def)

lemma flush_cases:
  assumes "flush m x device now answer entry v = (st, es, v')"
  obtains g es1 where "st = Failed" "v' = touch (mark_entry (pn_local_id entry) Failed
        (touch (mark_entry (pn_local_id entry) Sending v)\<lparr>vw_group := g\<rparr>))"
      "es = es1 @ [Write v']" "posted es1 = [] \<or> posted es1 = [pn_text entry]" "\<forall>w. Write w \<notin> set es1"
  | seq msg v2 b key u where "st = Sending" "answer = Some seq" "vw_messages v2 = vw_messages v @ [msg]"
      "ms_seq msg = seq" "ms_mine msg" "ms_content msg = Text (pn_text entry)" "ms_sent_at msg = Some (pn_sent_at entry)"
      "vw_outbox v2 = vw_outbox (mark_entry (pn_local_id entry) Sending v)"
      "v' = touch (without_entry (pn_local_id entry) v2)"
      "es = [Post (Text (pn_text entry)) b key u, Write v2, DepositIn [msg], Write v']"
proof -
  let ?l = "pn_local_id entry" and ?v1 = "touch (mark_entry (pn_local_id entry) Sending v)"
  obtain r es1 v2 where s: "send_content m x device now now answer (Text (pn_text entry)) (Some (pn_sent_at entry)) ?v1 =
      (r, es1, v2)" by (rule prod_cases3)
  note f = assms [unfolded flush_def Let_def s]
  from s show thesis
  proof (cases rule: send_content_cases)
    case (unsent e g)
    with f show thesis by (intro that(1) [of g "[]"]) auto
  next
    case (refused c g)
    with f show thesis by (intro that(1) [of g es1]) auto
  next
    case (control bs c g seq)
    then show thesis by simp
  next
    case (message bs c g seq sent_at msg)
    with f show thesis by (intro that(2) [of seq v2 msg]) (auto simp: sent_message_def)
  qed
qed



lemma group_frame:
  "vw_outbox (v\<lparr>vw_group := g\<rparr>) = vw_outbox v" "vw_messages (v\<lparr>vw_group := g\<rparr>) = vw_messages v"
  by simp_all

lemma flush_queue_spec:
  "flush_queue m x device now answers queue v = (es, v') \<Longrightarrow>
   map pn_local_id (vw_outbox v) = map pn_local_id queue \<Longrightarrow> distinct (map pn_local_id queue) \<Longrightarrow>
   \<exists>j\<le>length queue. map pn_local_id (vw_outbox v') = drop j (map pn_local_id queue) \<and>
     (posted es = take j (map pn_text queue) \<or> j < length queue \<and> posted es = take (Suc j) (map pn_text queue)) \<and>
     (\<exists>new. vw_messages v' = vw_messages v @ new \<and> (\<forall>msg\<in>set new. ms_mine msg) \<and>
        map ms_content new = map Text (take j (map pn_text queue)))"
proof (induction queue arbitrary: v es)
  case (Cons e queue)
  obtain st es1 v1 where f: "flush m x device now (answers (pn_local_id e)) e v = (st, es1, v1)" by (rule prod_cases3)
  from f show ?case
  proof (cases rule: flush_cases)
    case (1 g es0)
    have "es = es1" "v' = v1" using Cons.prems(1) f 1(1) by simp_all
    moreover have "posted es1 = [] \<or> posted es1 = [pn_text e]" using 1 by (auto simp: posted_append)
    moreover have "map pn_local_id (vw_outbox v1) = map pn_local_id (e # queue)" "vw_messages v1 = vw_messages v"
      using 1(2) Cons.prems(2) by (simp_all only: touch_fields mark_entry_simps group_frame)
    ultimately show ?thesis by (intro exI [of _ 0]) auto
  next
    case (2 seq msg v2 b key u)
    obtain es2 where q: "flush_queue m x device now answers queue v1 = (es2, v')" and es: "es = es1 @ es2"
      using Cons.prems(1) f 2(1) by (auto split: prod.splits)
    have "map pn_local_id (vw_outbox v1) = filter (\<lambda>i. i \<noteq> pn_local_id e) (map pn_local_id (vw_outbox v))"
      unfolding 2(9) touch_fields without_entry_simps 2(8) mark_entry_simps ..
    also have "\<dots> = map pn_local_id queue" using Cons.prems(2,3) by (auto intro!: filter_True)
    finally have o: "map pn_local_id (vw_outbox v1) = map pn_local_id queue" .
    from Cons.IH [OF q o] Cons.prems(3) obtain j new where j: "j \<le> length queue"
        "map pn_local_id (vw_outbox v') = drop j (map pn_local_id queue)"
        "posted es2 = take j (map pn_text queue) \<or> j < length queue \<and> posted es2 = take (Suc j) (map pn_text queue)"
        "vw_messages v' = vw_messages v1 @ new" "\<forall>msg\<in>set new. ms_mine msg"
        "map ms_content new = map Text (take j (map pn_text queue))"
      by auto
    have m: "vw_messages v' = vw_messages v @ msg # new" using j(4) 2(3,9) by simp
    show ?thesis
      using j 2(5,6,10) m es
      by (intro exI [of _ "Suc j"] conjI exI [of _ "msg # new"]) auto
  qed
qed auto



subsection \<open>The ratchet of a sender\<close>

text \<open>A group whose ciphertexts show the generation of the key they were made with.\<close>

definition counted_mls :: "account \<Rightarrow> nat mls" where
  "counted_mls a = (clear_mls a)\<lparr>mls_encrypt := (\<lambda>g p. (Some (word_of_nat g # p), g + 1))\<rparr>"

text \<open>A send leaves before the ratchet is written. Whatever \<open>sendContent\<close> does, its first effect is the
  request, so the disk still holds the group from before the encryption while the server has the message;
  a device that stops there and starts again from what it wrote uses the same generation for its next
  message, under another text.\<close>

theorem restart_reuses_generation:
  "(send_content m x device now later answer body written_at v = (r, es, v') \<longrightarrow>
      es = [] \<or> (\<exists>b key u rest. es = Post body b key u # rest \<and> vw_group u = vw_group v')) \<and>
   (let v = new_view (js ''room'') 7;
        first = send_content (counted_mls (js ''amy'')) plain_texts (js ''phone'') 1000 1001 (Some 1) (Text (js ''one'')) None v;
        again = send_content (counted_mls (js ''amy'')) plain_texts (js ''phone'') 2000 2001 (Some 2) (Text (js ''two'')) None v
    in \<exists>b1 k1 u1 rest1 b2 k2 u2 rest2.
         fst (snd first) = Post (Text (js ''one'')) (encode_mls (7 # b1)) k1 u1 # rest1 \<and>
         fst (snd again) = Post (Text (js ''two'')) (encode_mls (7 # b2)) k2 u2 # rest2)"
proof (rule conjI)
  show "send_content m x device now later answer body written_at v = (r, es, v') \<longrightarrow>
      es = [] \<or> (\<exists>b key u rest. es = Post body b key u # rest \<and> vw_group u = vw_group v')"
    by (intro impI, erule send_content_cases) auto
qed (simp add: send_content_def encode_text_Inr counted_mls_def Let_def, blast)

theorem restart_reuses_generation_witness:
  "\<exists>b key u rest. fst (snd (send_content (counted_mls (js ''amy'')) plain_texts (js ''phone'') 1000 1001 (Some 1)
      (Text (js ''one'')) None (new_view (js ''room'') 7))) = Post (Text (js ''one'')) b key u # rest"
proof -
  let ?s = "send_content (counted_mls (js ''amy'')) plain_texts (js ''phone'') 1000 1001 (Some 1)
      (Text (js ''one'')) None (new_view (js ''room'') 7)"
  obtain r es v' where s: "?s = (r, es, v')" by (rule prod_cases3)
  have "es \<noteq> []" using arg_cong [OF s, of "\<lambda>p. fst (snd p)"]
    by (auto simp: send_content_def encode_text_Inr counted_mls_def Let_def)
  with restart_reuses_generation [of "counted_mls (js ''amy'')" plain_texts "js ''phone''" 1000 1001 "Some 1"
      "Text (js ''one'')" None "new_view (js ''room'') 7" r es v'] s
  show ?thesis by auto
qed

end
