(* ===== verification/Flow.thy ===== *)
theory Flow
  imports Prelude
begin

text \<open>
  What an \<open>async\<close> method is made of: steps that read and move a state and may throw, sequenced, repeated
  over a list, or tried with the exception swallowed. A rejected promise leaves the state where it was when
  the exception left, which is what matters to the methods of \<open>session.ts\<close> that follow. Triples state what
  holds after a step that returned and after one that threw.
\<close>

type_synonym ('s, 'e, 'a) flow = "'s \<Rightarrow> ('e + 'a) \<times> 's"

definition give :: "'a \<Rightarrow> ('s, 'e, 'a) flow" where
  "give a = (\<lambda>s. (Inr a, s))"

definition throw :: "'e \<Rightarrow> ('s, 'e, 'a) flow" where
  "throw e = (\<lambda>s. (Inl e, s))"

definition look :: "('s \<Rightarrow> 'a) \<Rightarrow> ('s, 'e, 'a) flow" where
  "look f = (\<lambda>s. (Inr (f s), s))"

definition move :: "('s \<Rightarrow> 's) \<Rightarrow> ('s, 'e, unit) flow" where
  "move f = (\<lambda>s. (Inr (), f s))"

definition after :: "('s, 'e, 'a) flow \<Rightarrow> ('a \<Rightarrow> ('s, 'e, 'b) flow) \<Rightarrow> ('s, 'e, 'b) flow" where
  "after m f = (\<lambda>s. case m s of (Inl e, s') \<Rightarrow> (Inl e, s') | (Inr a, s') \<Rightarrow> f a s')"

text \<open>\<open>m; n\<close>, and \<open>try { m } catch {}\<close>.\<close>

definition seq :: "('s, 'e, 'a) flow \<Rightarrow> ('s, 'e, 'b) flow \<Rightarrow> ('s, 'e, 'b) flow" where
  "seq m n = after m (\<lambda>_. n)"

definition attempt :: "('s, 'e, 'a) flow \<Rightarrow> ('s, 'e, unit) flow" where
  "attempt m = (\<lambda>s. (Inr (), snd (m s)))"

definition provided :: "bool \<Rightarrow> ('s, 'e, unit) flow \<Rightarrow> ('s, 'e, unit) flow" where
  "provided b m = (if b then m else give ())"

definition demand :: "bool \<Rightarrow> 'e \<Rightarrow> ('s, 'e, unit) flow" where
  "demand b e = (if b then give () else throw e)"

fun for_each :: "('a \<Rightarrow> ('s, 'e, unit) flow) \<Rightarrow> 'a list \<Rightarrow> ('s, 'e, unit) flow" where
  "for_each f [] = give ()"
| "for_each f (x # xs) = seq (f x) (for_each f xs)"

subsection \<open>Triples\<close>

text \<open>From \<open>P\<close>, the step returns a value with \<open>Q\<close> or throws with \<open>E\<close>.\<close>

definition triple ::
    "('s \<Rightarrow> bool) \<Rightarrow> ('s, 'e, 'a) flow \<Rightarrow> ('a \<Rightarrow> 's \<Rightarrow> bool) \<Rightarrow> ('s \<Rightarrow> bool) \<Rightarrow> bool" where
  "triple P m Q E \<longleftrightarrow> (\<forall>s. P s \<longrightarrow> (case m s of (Inl e, s') \<Rightarrow> E s' | (Inr a, s') \<Rightarrow> Q a s'))"

definition keeps :: "('s \<Rightarrow> bool) \<Rightarrow> ('s, 'e, 'a) flow \<Rightarrow> bool" where
  "keeps I m \<longleftrightarrow> triple I m (\<lambda>_. I) I"

named_theorems flow_keeps

lemma triple_after:
  assumes "triple P m R E" and "\<And>a. triple (R a) (f a) Q E"
  shows "triple P (after m f) Q E"
proof (unfold triple_def, intro allI impI)
  fix s assume P: "P s"
  obtain x s1 where m: "m s = (x, s1)" by (cases "m s")
  show "case after m f s of (Inl e, s') \<Rightarrow> E s' | (Inr b, s') \<Rightarrow> Q b s'"
  proof (cases x)
    case (Inl e)
    then show ?thesis using assms(1) P m by (auto simp: triple_def after_def)
  next
    case (Inr a)
    then have "R a s1" using assms(1) P m by (auto simp: triple_def)
    with assms(2) [of a] show ?thesis by (simp add: triple_def after_def m Inr)
  qed
qed

lemma triple_pre: "triple P m Q E \<Longrightarrow> (\<And>s. P' s \<Longrightarrow> P s) \<Longrightarrow> triple P' m Q E"
  by (auto simp: triple_def)

lemma triple_post:
  "triple P m R F \<Longrightarrow> (\<And>a s. R a s \<Longrightarrow> Q a s) \<Longrightarrow> (\<And>s. F s \<Longrightarrow> E s) \<Longrightarrow> triple P m Q E"
  unfolding triple_def by (fastforce split: prod.splits sum.splits)

lemma triple_give [simp]: "triple P (give a) Q E \<longleftrightarrow> (\<forall>s. P s \<longrightarrow> Q a s)"
  and triple_throw [simp]: "triple P (throw e) Q E \<longleftrightarrow> (\<forall>s. P s \<longrightarrow> E s)"
  and triple_move [simp]: "triple P (move f) Q' E \<longleftrightarrow> (\<forall>s. P s \<longrightarrow> Q' () (f s))"
  and triple_look [simp]: "triple P (look g) Q'' E \<longleftrightarrow> (\<forall>s. P s \<longrightarrow> Q'' (g s) s)"
  by (simp_all add: triple_def give_def throw_def move_def look_def)

lemma keepsI: "(\<And>s r s'. I s \<Longrightarrow> m s = (r, s') \<Longrightarrow> I s') \<Longrightarrow> keeps I m"
  unfolding keeps_def triple_def by (fastforce split: prod.splits sum.splits)

lemma keepsD: "keeps I m \<Longrightarrow> I s \<Longrightarrow> I (snd (m s))"
  unfolding keeps_def triple_def by (fastforce split: prod.splits sum.splits)

lemma keeps_triple: "keeps P m \<Longrightarrow> (\<And>s. P s \<Longrightarrow> E s) \<Longrightarrow> triple P m (\<lambda>_. P) E"
  unfolding keeps_def by (erule triple_post) simp_all

lemma triple_seq: "triple P m (\<lambda>_. R) E \<Longrightarrow> triple R n Q E \<Longrightarrow> triple P (seq m n) Q E"
  unfolding seq_def by (rule triple_after)

lemma triple_snd: "triple P m (\<lambda>_. E) E \<Longrightarrow> P s \<Longrightarrow> E (snd (m s))"
  unfolding triple_def by (cases "m s") (auto split: sum.splits dest!: spec [of _ s])

lemma keeps_basic [flow_keeps]: "keeps I (give a)" "keeps I (throw e)" "keeps I (look f)" "keeps I (demand b e)"
  by (simp_all add: keeps_def demand_def)

lemma keeps_move: "(\<And>s. I s \<Longrightarrow> I (f s)) \<Longrightarrow> keeps I (move f)"
  by (simp add: keeps_def)

lemma keeps_after [flow_keeps]: "keeps I m \<Longrightarrow> (\<And>a. keeps I (f a)) \<Longrightarrow> keeps I (after m f)"
  unfolding keeps_def by (rule triple_after)

lemma keeps_seq [flow_keeps]: "keeps I m \<Longrightarrow> keeps I n \<Longrightarrow> keeps I (seq m n)"
  unfolding seq_def by (rule keeps_after)

lemma keeps_attempt [flow_keeps]: "keeps I m \<Longrightarrow> keeps I (attempt m)"
  by (rule keepsI) (auto simp: attempt_def dest: keepsD)

lemma keeps_provided [flow_keeps]: "keeps I m \<Longrightarrow> keeps I (provided b m)"
  by (simp add: provided_def flow_keeps)

lemma keeps_for_each [flow_keeps]: "(\<And>x. keeps I (f x)) \<Longrightarrow> keeps I (for_each f xs)"
  by (induction xs) (simp_all add: flow_keeps)

lemma keeps_if [flow_keeps]: "keeps I m \<Longrightarrow> keeps I n \<Longrightarrow> keeps I (if b then m else n)"
  by simp

lemma keeps_option [flow_keeps]:
  "keeps I m \<Longrightarrow> (\<And>a. keeps I (f a)) \<Longrightarrow> keeps I (case x of None \<Rightarrow> m | Some a \<Rightarrow> f a)"
  by (cases x) simp_all

lemma keeps_sum [flow_keeps]:
  "(\<And>e. keeps I (f e)) \<Longrightarrow> (\<And>a. keeps I (g a)) \<Longrightarrow> keeps I (case x of Inl e \<Rightarrow> f e | Inr a \<Rightarrow> g a)"
  by (cases x) simp_all

subsection \<open>Running\<close>

lemma after_Inr: "after m f s = (Inr b, s'') \<longleftrightarrow> (\<exists>a s'. m s = (Inr a, s') \<and> f a s' = (Inr b, s''))"
  by (auto simp: after_def split: prod.splits sum.splits)

lemma seq_Inr: "seq m n s = (Inr b, s'') \<longleftrightarrow> (\<exists>a s'. m s = (Inr a, s') \<and> n s' = (Inr b, s''))"
  by (simp add: seq_def after_Inr)

lemma basic_Inr:
  "give a s = (Inr b, s') \<longleftrightarrow> b = a \<and> s' = s" "throw e s \<noteq> (Inr b, s')"
  "look f s = (Inr c, s') \<longleftrightarrow> c = f s \<and> s' = s" "move g s = (Inr u, s') \<longleftrightarrow> s' = g s"
  "demand k e s = (Inr u, s') \<longleftrightarrow> k \<and> s' = s" "attempt m s = (Inr u, s') \<longleftrightarrow> s' = snd (m s)"
  by (auto simp: give_def throw_def look_def move_def demand_def attempt_def)

lemma seq_assoc: "seq (seq m n) k = seq m (seq n k)"
  by (rule ext) (simp add: seq_def after_def split: prod.split sum.split)

lemma seq_move: "seq (move f) m s = m (f s)"
  by (simp add: seq_def after_def move_def)

lemma snd_move: "snd (move f s) = f s"
  by (simp add: move_def)

lemma keeps_seq_from: "I (snd (m s)) \<Longrightarrow> keeps I n \<Longrightarrow> I (snd (seq m n s))"
  using keepsD [of I n] by (cases "m s"; cases "fst (m s)") (auto simp: seq_def after_def)

lemma after_Inl:
  "after m f s = (Inl e, s'') \<longleftrightarrow> m s = (Inl e, s'') \<or> (\<exists>a s'. m s = (Inr a, s') \<and> f a s' = (Inl e, s''))"
  by (auto simp: after_def split: prod.splits sum.splits)

lemma seq_Inl:
  "seq m n s = (Inl e, s'') \<longleftrightarrow> m s = (Inl e, s'') \<or> (\<exists>a s'. m s = (Inr a, s') \<and> n s' = (Inl e, s''))"
  by (simp add: seq_def after_Inl)

lemma basic_Inl:
  "give a s \<noteq> (Inl e, s')" "throw d s = (Inl e, s') \<longleftrightarrow> e = d \<and> s' = s" "look f s \<noteq> (Inl e, s')"
  "move g s \<noteq> (Inl e, s')" "demand k d s = (Inl e, s') \<longleftrightarrow> \<not> k \<and> e = d \<and> s' = s" "attempt m s \<noteq> (Inl e, s')"
  by (auto simp: give_def throw_def look_def move_def demand_def attempt_def)

lemmas flow_Inl = after_Inl seq_Inl basic_Inl

lemmas flow_Inr = after_Inr seq_Inr basic_Inr

lemma for_each_stays:
  assumes "for_each f xs s = (Inr u, s')" and "P s"
    and "\<And>x s s'. P s \<Longrightarrow> f x s = (Inr (), s') \<Longrightarrow> P s'"
  shows "P s'"
  using assms(1,2)
  by (induction xs arbitrary: s) (auto simp: flow_Inr dest: assms(3))

text \<open>What each turn of a loop establishes and no other turn destroys holds of all at the end.\<close>

lemma for_each_does:
  assumes "for_each f xs s = (Inr u, s')"
    and "\<And>x s s'. f x s = (Inr (), s') \<Longrightarrow> D x s'"
    and "\<And>x y s s'. D x s \<Longrightarrow> f y s = (Inr (), s') \<Longrightarrow> D x s'"
  shows "\<forall>x\<in>set xs. D x s'"
  using assms(1)
proof (induction xs arbitrary: s)
  case (Cons x xs)
  then obtain s1 where x: "f x s = (Inr (), s1)" and xs: "for_each f xs s1 = (Inr u, s')"
    by (auto simp: seq_Inr)
  have "D x s'" using for_each_stays [OF xs, of "D x"] assms(2) [OF x] assms(3) by blast
  with Cons.IH [OF xs] show ?case by simp
qed simp

end
