(* ===== verification/Membership.thy ===== *)
theory Membership
  imports Delivery Flow
begin

text \<open>
  Who is in a conversation: the methods of \<open>session.ts\<close> that change the tree of a group, its roster or its
  lifetime, and what is announced once per epoch. A conversation and what these methods reach besides it is a
  \<open>room\<close>; every request takes the next reply of the server, and the trace records, in order, what was asked
  and answered, what was prepared and applied in the group, and what reached the disk.
\<close>

subsection \<open>The room\<close>

datatype reply = Refusal | Accepted nat | Claimed bytes | Done

datatype request =
    ClaimPackage jsstr
  | AddMembers "jsstr list" "bytes option"
  | DropMembers "jsstr list"
  | PostEnvelope envelope
  | PostContent content bytes
  | EraseArchive
  | PublishPackages nat

datatype 'g act =
    Asked request reply
  | Prepared bytes                \<comment> \<open>a commit, pending in the group\<close>
  | Applied                       \<comment> \<open>the pending commit, merged\<close>
  | Did "'g effect"

record 'g room =
  rm_view :: "'g view"
  rm_trust :: trust_store
  rm_owed :: "jsstr set"
  rm_replies :: "reply list"
  rm_trace :: "'g act list"

datatype refusal =
    AlreadyHere | Unadministered | Unattested nat | NoDevice | NotHere | NoRoles | LastMember | NobodyNamed

datatype room_error =
    RequestFailed
  | GroupRefused
  | SendFailed send_error
  | Unresolved account
  | NotAllowed refusal

type_synonym ('g, 'a) step = "('g room, room_error, 'a) flow"

text \<open>The MLS client, beside what \<open>mls\<close> holds. A refused preparation leaves the group as the client left it.\<close>

record 'g group_ops =
  go_invite :: "'g \<Rightarrow> bytes \<Rightarrow> (bytes \<times> bytes) option \<times> 'g"
  go_remove :: "'g \<Rightarrow> bytes \<Rightarrow> bytes option \<times> 'g"
  go_set_roles :: "'g \<Rightarrow> account \<Rightarrow> account list \<Rightarrow> bytes option \<times> 'g"
  go_set_lifetime :: "'g \<Rightarrow> int \<Rightarrow> bytes option \<times> 'g"
  go_leave :: "'g \<Rightarrow> bytes option \<times> 'g"
  go_apply :: "'g \<Rightarrow> bytes option \<times> 'g"
  go_signature_keys :: "'g \<Rightarrow> bytes list"
  go_fingerprint :: "bytes \<Rightarrow> jsstr"

text \<open>What the methods read and do not change: the clients, this account, the clock, and what the directory
  and the resolution of an account (\<open>resolve\<close>, which verifies it) answer.\<close>

record 'g client =
  cl_mls :: "'g mls"
  cl_ops :: "'g group_ops"
  cl_texts :: texts
  cl_account :: account
  cl_device :: jsstr
  cl_now :: int
  cl_directory :: "jsstr \<Rightarrow> account option"
  cl_resolve :: "account \<Rightarrow> resolved_account option"

subsection \<open>Requests and the group\<close>

definition log_act :: "'g act \<Rightarrow> 'g room \<Rightarrow> 'g room" where
  "log_act a r = r\<lparr>rm_trace := rm_trace r @ [a]\<rparr>"

definition next_reply :: "'g room \<Rightarrow> reply" where
  "next_reply r = (case rm_replies r of [] \<Rightarrow> Refusal | a # _ \<Rightarrow> a)"

definition request :: "request \<Rightarrow> (reply \<Rightarrow> 'a option) \<Rightarrow> ('g, 'a) step" where
  "request q expect r =
     (let r' = log_act (Asked q (next_reply r)) (r\<lparr>rm_replies := drop 1 (rm_replies r)\<rparr>) in
      case expect (next_reply r) of None \<Rightarrow> (Inl RequestFailed, r') | Some a \<Rightarrow> (Inr a, r'))"

fun expect_done :: "reply \<Rightarrow> unit option" where
  "expect_done Done = Some ()"
| "expect_done _ = None"

fun expect_seq :: "reply \<Rightarrow> nat option" where
  "expect_seq (Accepted n) = Some n"
| "expect_seq _ = None"

fun expect_package :: "reply \<Rightarrow> bytes option" where
  "expect_package (Claimed p) = Some p"
| "expect_package _ = None"

definition change_view :: "('g view \<Rightarrow> 'g view) \<Rightarrow> ('g, unit) step" where
  "change_view f = move (\<lambda>r. r\<lparr>rm_view := f (rm_view r)\<rparr>)"

definition of_view :: "('g view \<Rightarrow> 'a) \<Rightarrow> ('g, 'a) step" where
  "of_view f = look (\<lambda>r. f (rm_view r))"

definition persist :: "('g, unit) step" where
  "persist = move (\<lambda>r. log_act (Did (Write (rm_view r))) r)"

text \<open>A call to the MLS client on this group: what it throws reaches the caller.\<close>

definition on_group :: "('g \<Rightarrow> 'a option \<times> 'g) \<Rightarrow> ('g, 'a) step" where
  "on_group f r =
     (case f (vw_group (rm_view r)) of
        (x, g) \<Rightarrow> (case x of None \<Rightarrow> Inl GroupRefused | Some a \<Rightarrow> Inr a, r\<lparr>rm_view := rm_view r\<lparr>vw_group := g\<rparr>\<rparr>))"

definition prepare :: "('g \<Rightarrow> bytes option \<times> 'g) \<Rightarrow> ('g, bytes) step" where
  "prepare f = after (on_group f) (\<lambda>commit. seq (move (log_act (Prepared commit))) (give commit))"

definition post :: "envelope \<Rightarrow> ('g, unit) step" where
  "post e = after (request (PostEnvelope e) expect_seq)
     (\<lambda>n. change_view (\<lambda>v. v\<lparr>vw_mine := insert n (vw_mine v)\<rparr>))"

definition publish_and_apply :: "'g client \<Rightarrow> bytes \<Rightarrow> ('g, bytes) step" where
  "publish_and_apply c commit = seq (post (Mls commit))
     (after (on_group (go_apply (cl_ops c))) (\<lambda>tree. seq (move (log_act Applied)) (give tree)))"

definition refresh_view :: "'g client \<Rightarrow> ('g, unit) step" where
  "refresh_view c = change_view (\<lambda>v. v\<lparr>vw_peers := mls_peers (cl_mls c) (vw_group v),
     vw_epoch := mls_epoch (cl_mls c) (vw_group v)\<rparr>)"

text \<open>\<open>sendContent\<close>, its request in the trace with the reply it took.\<close>

fun said :: "reply \<Rightarrow> 'g effect \<Rightarrow> 'g act" where
  "said a (Post body payload _ _) = Asked (PostContent body payload) a"
| "said a e = Did e"

definition say :: "'g client \<Rightarrow> content \<Rightarrow> ('g, unit) step" where
  "say c body r =
     (case send_content (cl_mls c) (cl_texts c) (cl_device c) (cl_now c) (cl_now c) (expect_seq (next_reply r))
        body None (rm_view r) of
        (e, es, v) \<Rightarrow>
          (case e of None \<Rightarrow> Inr () | Some e \<Rightarrow> Inl (SendFailed e),
           r\<lparr>rm_view := v, rm_replies := drop (if es = [] then 0 else 1) (rm_replies r),
             rm_trace := rm_trace r @ map (said (next_reply r)) es\<rparr>))"

subsection \<open>The lifetime and the roles\<close>

definition enact :: "'g client \<Rightarrow> ('g \<Rightarrow> bytes option \<times> 'g) \<Rightarrow> ('g, bytes) step" where
  "enact c f = after (prepare f) (publish_and_apply c)"

text \<open>\<open>dropArchive\<close>: owed before it is asked.\<close>

definition erase_archive :: "('g, unit) step" where
  "erase_archive =
     seq (move (\<lambda>r. r\<lparr>rm_owed := insert (vw_key (rm_view r)) (rm_owed r)\<rparr>))
    (seq (request EraseArchive expect_done)
         (move (\<lambda>r. r\<lparr>rm_owed := rm_owed r - {vw_key (rm_view r)}\<rparr>)))"

definition set_lifetime :: "'g client \<Rightarrow> int \<Rightarrow> ('g, unit) step" where
  "set_lifetime c seconds =
     seq (enact c (\<lambda>g. go_set_lifetime (cl_ops c) g seconds))
    (seq (refresh_view c)
    (seq persist
    (seq (provided (seconds > 0) erase_archive)
         (say c (Expiry seconds)))))"

definition set_roles :: "'g client \<Rightarrow> account \<Rightarrow> account list \<Rightarrow> ('g, unit) step" where
  "set_roles c admin moderators =
     seq (enact c (\<lambda>g. go_set_roles (cl_ops c) g admin moderators))
    (seq (refresh_view c) persist)"

definition roles_of :: "'g client \<Rightarrow> 'g view \<Rightarrow> roles option" where
  "roles_of c v = mls_roster (cl_mls c) (vw_group v)"

definition is_group :: "'g client \<Rightarrow> 'g view \<Rightarrow> bool" where
  "is_group c v \<longleftrightarrow> roles_of c v \<noteq> None"

definition set_moderator :: "'g client \<Rightarrow> account \<Rightarrow> bool \<Rightarrow> ('g, unit) step" where
  "set_moderator c handle moderator =
     after (of_view (roles_of c)) (\<lambda>roles.
       case roles of
         None \<Rightarrow> throw (NotAllowed NoRoles)
       | Some ro \<Rightarrow> set_roles c (ro_admin ro)
           (filter (\<lambda>m. m \<noteq> handle) (ro_moderators ro) @ (if moderator then [handle] else [])))"

subsection \<open>Members\<close>

text \<open>One device brought in, as \<open>addAccount\<close> and \<open>addMissingDevices\<close> both write it.\<close>

definition bring_in :: "'g client \<Rightarrow> device \<Rightarrow> bytes \<Rightarrow> ('g, unit) step" where
  "bring_in c d package =
     after (on_group (\<lambda>g. go_invite (cl_ops c) g package)) (\<lambda>(commit, welcome).
     seq (move (log_act (Prepared commit)))
    (seq (request (AddMembers [dev_id d] None) expect_done)
    (after (publish_and_apply c commit) (\<lambda>tree.
     post (Welcome welcome tree)))))"

definition welcome_device :: "'g client \<Rightarrow> device \<Rightarrow> ('g, unit) step" where
  "welcome_device c d = after (request (ClaimPackage (dev_id d)) expect_package) (bring_in c d)"

text \<open>\<open>announce\<close>: the line in the thread, whose failure is swallowed.\<close>

definition announce :: "'g client \<Rightarrow> membership_event \<Rightarrow> jsstr \<Rightarrow> ('g, unit) step" where
  "announce c event handle = attempt (say c (Membership event handle))"

definition note_resolved :: "resolved_account \<Rightarrow> ('g, unit) step" where
  "note_resolved peer = move (\<lambda>r. r\<lparr>rm_trust := note_devices (ra_handle peer) (map dev_id (ra_devices peer)) (rm_trust r)\<rparr>)"

definition resolved :: "'g client \<Rightarrow> account \<Rightarrow> ('g, resolved_account) step" where
  "resolved c account = (case cl_resolve c account of None \<Rightarrow> throw (Unresolved account) | Some peer \<Rightarrow> give peer)"

text \<open>The end of \<open>addAccount\<close>, once every device is in.\<close>

definition settle_in :: "'g client \<Rightarrow> jsstr \<Rightarrow> resolved_account \<Rightarrow> ('g, unit) step" where
  "settle_in c handle peer =
     seq (change_view (\<lambda>v. v\<lparr>vw_key_shared := False\<rparr>))
    (seq (note_resolved peer)
    (seq (change_view (\<lambda>v. v\<lparr>vw_accounts := vw_accounts v @ [peer]\<rparr>))
    (seq (refresh_view c)
    (seq persist
         (announce c Joined handle)))))"

definition add_account :: "'g client \<Rightarrow> jsstr \<Rightarrow> ('g, unit) step" where
  "add_account c handle =
     (case cl_directory c handle of
        None \<Rightarrow> throw RequestFailed
      | Some account \<Rightarrow>
          seq (demand (account \<noteq> cl_account c) (NotAllowed AlreadyHere))
         (after (of_view id) (\<lambda>v.
          seq (demand (\<forall>a\<in>set (vw_accounts v). ra_handle a \<noteq> account) (NotAllowed AlreadyHere))
         (seq (demand (is_group c v) (NotAllowed Unadministered))
         (after (resolved c account) (\<lambda>peer.
          seq (demand (ra_rejected peer = []) (NotAllowed (Unattested (length (ra_rejected peer)))))
         (seq (demand (ra_devices peer \<noteq> []) (NotAllowed NoDevice))
         (seq (for_each (welcome_device c) (ra_devices peer))
              (settle_in c handle peer)))))))))"

definition evict_device :: "'g client \<Rightarrow> jsstr \<Rightarrow> bytes \<Rightarrow> ('g, unit) step" where
  "evict_device c device key =
     seq (enact c (\<lambda>g. go_remove (cl_ops c) g key)) (request (DropMembers [device]) expect_done)"

definition remove_account :: "'g client \<Rightarrow> account \<Rightarrow> ('g, unit) step" where
  "remove_account c handle =
     after (of_view (\<lambda>v. find (\<lambda>a. ra_handle a = handle) (vw_accounts v))) (\<lambda>found.
       case found of
         None \<Rightarrow> throw (NotAllowed NotHere)
       | Some account \<Rightarrow>
           seq (for_each (\<lambda>d. evict_device c (dev_id d) (dev_mls_key d)) (ra_devices account))
          (seq (change_view (\<lambda>v. v\<lparr>vw_accounts := filter (\<lambda>a. ra_handle a \<noteq> handle) (vw_accounts v)\<rparr>))
          (seq (refresh_view c)
          (seq persist
               (announce c Removed handle)))))"

text \<open>\<open>successorOf\<close> reads the names of the peers in the order of the tree.\<close>

definition listed_view :: "'g view \<Rightarrow> listed" where
  "listed_view v = \<lparr>li_peers = map pr_name (vw_peers v), li_accounts = map ra_handle (vw_accounts v),
     li_messages = vw_messages v, li_outbox = vw_outbox v, li_receipts = vw_receipts v,
     li_read_cursor = vw_read_cursor v\<rparr>"

definition hand_over :: "'g client \<Rightarrow> roles \<Rightarrow> ('g, unit) step" where
  "hand_over c ro =
     after (of_view (\<lambda>v. successor_of (listed_view v) (ro_moderators ro) (cl_account c))) (\<lambda>heir.
       case heir of
         None \<Rightarrow> throw (NotAllowed LastMember)
       | Some h \<Rightarrow> set_roles c h (filter (\<lambda>m. m \<noteq> h) (ro_moderators ro)))"

definition request_leave :: "'g client \<Rightarrow> ('g, unit) step" where
  "request_leave c =
     after (of_view (roles_of c)) (\<lambda>roles.
     seq (case roles of
            None \<Rightarrow> give ()
          | Some ro \<Rightarrow> if ro_admin ro = cl_account c then hand_over c ro else give ())
    (seq (announce c Left (cl_account c))
    (after (on_group (go_leave (cl_ops c))) (\<lambda>proposal.
     seq (post (Mls proposal)) persist))))"

subsection \<open>What every poll repairs\<close>

definition add_missing_devices :: "'g client \<Rightarrow> device list \<Rightarrow> ('g, unit) step" where
  "add_missing_devices c devices =
     after (of_view (\<lambda>v. map pr_fingerprint (vw_peers v))) (\<lambda>present.
       for_each (\<lambda>d. if go_fingerprint (cl_ops c) (dev_mls_key d) \<in> set present then give ()
                     else attempt (welcome_device c d)) devices)"

text \<open>The body of the loop of \<open>propagateOwnDevices\<close>, for the devices of this account other than this one.\<close>

definition propagate_in :: "'g client \<Rightarrow> device list \<Rightarrow> ('g, unit) step" where
  "propagate_in c others = seq (add_missing_devices c others) (refresh_view c)"

text \<open>The body of the loop of \<open>reconcileMembers\<close>: the verified revocations of every account of the
  conversation and of ours, by the fingerprint of the key, the last one written winning.\<close>

definition revocations :: "'g client \<Rightarrow> resolved_account list \<Rightarrow> (jsstr \<times> jsstr) list" where
  "revocations c accounts =
     rev (map (\<lambda>d. (go_fingerprint (cl_ops c) (dev_mls_key d), dev_id d)) (concat (map ra_revoked accounts)))"

definition reconcile_in :: "'g client \<Rightarrow> resolved_account \<Rightarrow> ('g, unit) step" where
  "reconcile_in c mine =
     after (of_view (\<lambda>v. revocations c (vw_accounts v @ [mine]))) (\<lambda>revoked.
       if revoked = [] then give ()
       else after (of_view (\<lambda>v. go_signature_keys (cl_ops c) (vw_group v))) (\<lambda>keys.
         seq (for_each (\<lambda>key. case map_of revoked (go_fingerprint (cl_ops c) key) of
                 None \<Rightarrow> give ()
               | Some device \<Rightarrow> attempt (evict_device c device key)) keys)
             (refresh_view c)))"

text \<open>\<open>gossip\<close>, \<open>sharePostingKey\<close>, \<open>emitProfile\<close> and \<open>announceProfile\<close>: said once, the flag first. The
  sealed settings are what \<open>emitSignals\<close> hands to the group, or what it refused.\<close>

definition gossip_in :: "'g client \<Rightarrow> gossip_head option \<Rightarrow> ('g, unit) step" where
  "gossip_in c seen =
     after (of_view vw_gossiped) (\<lambda>done.
       case seen of
         Some head \<Rightarrow> if done then give ()
           else seq (change_view (\<lambda>v. v\<lparr>vw_gossiped := True\<rparr>)) (say c (Gossip head))
       | None \<Rightarrow> give ())"

definition share_posting_key :: "'g client \<Rightarrow> ('g, unit) step" where
  "share_posting_key c =
     after (of_view id) (\<lambda>v.
       case vw_posting_key v of
         None \<Rightarrow> give ()
       | Some key \<Rightarrow>
           if vw_key_shared v \<or> vw_peers v = [] then give ()
           else seq (change_view (\<lambda>v. v\<lparr>vw_key_shared := True\<rparr>)) (say c (PostingKey key)))"

definition emit_profile :: "'g client \<Rightarrow> jsstr \<Rightarrow> jsstr option \<Rightarrow> (send_error + bytes) \<Rightarrow> ('g, unit) step" where
  "emit_profile c handle name settings =
     after (of_view vw_peers) (\<lambda>peers.
       if peers = [] then give ()
       else seq (change_view (\<lambda>v. v\<lparr>vw_profile_epoch := Some (vw_epoch v)\<rparr>))
           (seq (say c (HandleClaim handle (cl_now c)))
           (seq (case name of None \<Rightarrow> give () | Some n \<Rightarrow> say c (Profile n (cl_now c)))
                (case settings of Inl e \<Rightarrow> throw (SendFailed e) | Inr sealed \<Rightarrow> say c (Signals sealed)))))"

definition announce_profile :: "'g client \<Rightarrow> jsstr \<Rightarrow> jsstr option \<Rightarrow> (send_error + bytes) \<Rightarrow> ('g, unit) step" where
  "announce_profile c handle name settings =
     after (of_view id) (\<lambda>v.
       if vw_profile_epoch v = Some (vw_epoch v) then give () else emit_profile c handle name settings)"

end
