(* ===== verification/Commits.thy ===== *)
theory Commits
  imports Membership
begin

text \<open>
  What every operation on the members of a conversation keeps: a commit is published before it is applied, and
  what this device posted is never read back. Each is an invariant of the trace of a \<open>room\<close>; the locale
  proves once that an invariant of the steps they share is one of all of them.
\<close>

subsection \<open>The operations\<close>

datatype operation =
    SetLifetime int
  | SetRoles account "account list"
  | SetModerator account bool
  | AddAccount jsstr
  | RemoveAccount account
  | RequestLeave
  | PropagateIn "device list"
  | ReconcileIn resolved_account
  | GossipIn "gossip_head option"
  | SharePostingKey
  | AnnounceProfile jsstr "jsstr option" "send_error + bytes"

fun perform :: "'g client \<Rightarrow> operation \<Rightarrow> ('g, unit) step" where
  "perform c (SetLifetime seconds) = set_lifetime c seconds"
| "perform c (SetRoles admin moderators) = set_roles c admin moderators"
| "perform c (SetModerator handle moderator) = set_moderator c handle moderator"
| "perform c (AddAccount handle) = add_account c handle"
| "perform c (RemoveAccount handle) = remove_account c handle"
| "perform c RequestLeave = request_leave c"
| "perform c (PropagateIn others) = propagate_in c others"
| "perform c (ReconcileIn mine) = reconcile_in c mine"
| "perform c (GossipIn seen) = gossip_in c seen"
| "perform c SharePostingKey = share_posting_key c"
| "perform c (AnnounceProfile handle name settings) = announce_profile c handle name settings"

text \<open>One after the other, the caller of each catching what it throws.\<close>

definition perform_all :: "'g client \<Rightarrow> operation list \<Rightarrow> ('g, unit) step" where
  "perform_all c ops = for_each (\<lambda>op. attempt (perform c op)) ops"

subsection \<open>What the operations share\<close>

text \<open>The preparations that commit.\<close>

definition commit_of :: "'g client \<Rightarrow> ('g \<Rightarrow> bytes option \<times> 'g) \<Rightarrow> bool" where
  "commit_of c f \<longleftrightarrow> (\<exists>s. f = (\<lambda>g. go_set_lifetime (cl_ops c) g s)) \<or>
     (\<exists>a m. f = (\<lambda>g. go_set_roles (cl_ops c) g a m)) \<or> (\<exists>k. f = (\<lambda>g. go_remove (cl_ops c) g k))"

lemma commit_of_simps [simp]:
  "commit_of c (\<lambda>g. go_set_lifetime (cl_ops c) g s)" "commit_of c (\<lambda>g. go_set_roles (cl_ops c) g a m)"
  "commit_of c (\<lambda>g. go_remove (cl_ops c) g k)"
  by (auto simp: commit_of_def)

locale room_kept =
  fixes c :: "'g client" and I :: "'g room \<Rightarrow> bool"
  assumes welcome_kept: "keeps I (welcome_device c d)"
    and enact_kept: "commit_of c f \<Longrightarrow> keeps I (enact c f)"
    and say_kept: "keeps I (say c body)"
    and leave_kept: "keeps I (on_group (go_leave (cl_ops c)))"
    and post_kept: "keeps I (post (Mls p))"
    and drop_kept: "keeps I (request (DropMembers ids) expect_done)"
    and erase_kept: "keeps I (request EraseArchive expect_done)"
    and persist_kept: "keeps I persist"
    and view_kept: "(\<And>v. vw_mine (h v) = vw_mine v \<and> vw_group (h v) = vw_group v \<and> vw_messages (h v) = vw_messages v) \<Longrightarrow> keeps I (change_view h)"
    and rest_kept: "(\<And>r. rm_view (g r) = rm_view r \<and> rm_trace (g r) = rm_trace r) \<Longrightarrow> keeps I (move g :: ('g, unit) step)"
begin

lemmas step_kept = flow_keeps welcome_kept enact_kept say_kept leave_kept post_kept drop_kept erase_kept persist_kept

lemma of_view_kept: "keeps I (of_view f)"
  by (simp add: of_view_def flow_keeps)

lemma touch_kept:
  "keeps I (refresh_view c)" "keeps I (note_resolved peer)" "keeps I (resolved c a)"
  "keeps I (announce c event handle)"
  by (auto simp: refresh_view_def note_resolved_def resolved_def announce_def split: option.splits
      intro!: step_kept view_kept rest_kept)

lemma erase_archive_kept: "keeps I erase_archive"
  unfolding erase_archive_def by (intro step_kept rest_kept) simp_all

lemma set_roles_kept: "keeps I (set_roles c admin moderators)"
  unfolding set_roles_def by (intro step_kept touch_kept) simp_all

lemma set_lifetime_kept: "keeps I (set_lifetime c seconds)"
  unfolding set_lifetime_def by (intro step_kept touch_kept erase_archive_kept) simp_all

lemma add_account_kept: "keeps I (add_account c handle)"
  unfolding add_account_def settle_in_def by (intro step_kept touch_kept of_view_kept view_kept) simp_all

lemma evict_kept: "keeps I (evict_device c device key)"
  unfolding evict_device_def by (intro step_kept) simp_all

lemma remove_account_kept: "keeps I (remove_account c handle)"
  unfolding remove_account_def by (intro step_kept touch_kept of_view_kept view_kept evict_kept) simp_all

lemma request_leave_kept: "keeps I (request_leave c)"
  unfolding request_leave_def hand_over_def by (intro step_kept touch_kept of_view_kept set_roles_kept)

lemma perform_kept: "keeps I (perform c op)"
proof (cases op)
  case (SetModerator a b)
  have "keeps I (set_moderator c a b)"
    unfolding set_moderator_def by (intro step_kept of_view_kept set_roles_kept)
  with SetModerator show ?thesis by simp
next
  case (PropagateIn ds)
  then show ?thesis
    by (simp add: propagate_in_def add_missing_devices_def) (intro step_kept of_view_kept touch_kept)
next
  case (ReconcileIn a)
  then show ?thesis
    by (simp add: reconcile_in_def) (intro step_kept of_view_kept touch_kept evict_kept)
next
  case (GossipIn h)
  then show ?thesis
    by (simp add: gossip_in_def) (intro step_kept of_view_kept view_kept, simp_all)
next
  case SharePostingKey
  then show ?thesis
    by (simp add: share_posting_key_def) (intro step_kept of_view_kept view_kept, simp_all)
next
  case (AnnounceProfile h n s)
  have "keeps I (emit_profile c h n s)"
    unfolding emit_profile_def by (intro step_kept of_view_kept view_kept) simp_all
  then have "keeps I (announce_profile c h n s)"
    unfolding announce_profile_def by (intro step_kept of_view_kept)
  with AnnounceProfile show ?thesis by simp
qed (simp_all add: set_lifetime_kept set_roles_kept add_account_kept remove_account_kept request_leave_kept)

lemma perform_all_kept: "I r \<Longrightarrow> I (snd (perform_all c ops r))"
  unfolding perform_all_def by (intro keepsD [of I] step_kept perform_kept)

end

subsection \<open>Published, then applied\<close>

text \<open>The automaton of a trace: the commit last prepared and not applied since, and whether the last post
  accepted was that commit. A merge is only allowed when it was.\<close>

fun commit_scan :: "bytes option \<times> bool \<Rightarrow> 'g act \<Rightarrow> (bytes option \<times> bool) option" where
  "commit_scan (p, b) (Prepared commit) = Some (Some commit, False)"
| "commit_scan (p, b) (Asked (PostEnvelope (Mls commit)) (Accepted n)) = Some (p, p = Some commit)"
| "commit_scan (p, b) Applied = (if b then Some (None, False) else None)"
| "commit_scan q _ = Some q"

definition commits_in :: "'g act list \<Rightarrow> (bytes option \<times> bool) option" where
  "commits_in t = foldl (\<lambda>q a. Option.bind q (\<lambda>q. commit_scan q a)) (Some (None, False)) t"

definition published_first :: "'g room \<Rightarrow> bool" where
  "published_first r \<longleftrightarrow> commits_in (rm_trace r) \<noteq> None"

lemma commits_in_snoc: "commits_in (t @ [a]) = Option.bind (commits_in t) (\<lambda>q. commit_scan q a)"
  by (simp add: commits_in_def)

lemma log_act_simps [simp]:
  "rm_view (log_act a r) = rm_view r" "rm_trace (log_act a r) = rm_trace r @ [a]"
  "rm_replies (log_act a r) = rm_replies r" "rm_owed (log_act a r) = rm_owed r" "rm_trust (log_act a r) = rm_trust r"
  by (simp_all add: log_act_def)

text \<open>Acts the automaton lets pass from every state.\<close>

definition passes :: "'g act \<Rightarrow> bool" where
  "passes a \<longleftrightarrow> (\<forall>q. commit_scan q a = Some q)"

lemma passes_simps [simp]:
  "passes (Did e)" "passes (Asked (ClaimPackage d) a)" "passes (Asked (AddMembers ds k) a)"
  "passes (Asked (DropMembers ds) a)" "passes (Asked (PostEnvelope (Welcome w t)) a)"
  "passes (Asked (PostContent b p) a)" "passes (Asked EraseArchive a)" "passes (Asked (PublishPackages n) a)" "passes (Asked q Refusal)"
  by (auto simp: passes_def elim: commit_scan.elims)

lemma commits_in_passes: "passes a \<Longrightarrow> commits_in (t @ [a]) = commits_in t"
  by (cases "commits_in t") (auto simp: commits_in_snoc passes_def)

lemma passes_said: "passes (said a e)"
  by (cases e) simp_all

lemma commits_in_said: "commits_in (t @ map (said a) es) = commits_in t"
  by (induction es rule: rev_induct) (simp_all add: commits_in_passes passes_said flip: append_assoc)

lemma commit_scan_total: "a \<noteq> Applied \<Longrightarrow> commit_scan q a \<noteq> None"
  by (cases "(q, a)" rule: commit_scan.cases) auto

lemma commits_in_defined: "commits_in t \<noteq> None \<Longrightarrow> a \<noteq> Applied \<Longrightarrow> commits_in (t @ [a]) \<noteq> None"
  by (cases "commits_in t") (simp_all add: commits_in_snoc commit_scan_total del: not_None_eq)

lemma triple_request:
  assumes "\<And>a r. P r \<Longrightarrow> expect (next_reply r) = Some a \<Longrightarrow>
      Q a (log_act (Asked q (next_reply r)) (r\<lparr>rm_replies := drop 1 (rm_replies r)\<rparr>))"
    and "\<And>r. P r \<Longrightarrow> expect (next_reply r) = None \<Longrightarrow>
      E (log_act (Asked q (next_reply r)) (r\<lparr>rm_replies := drop 1 (rm_replies r)\<rparr>))"
  shows "triple P (request q expect) Q E"
  using assms unfolding triple_def request_def Let_def by (auto split: option.splits)

lemma triple_on_group:
  assumes "\<And>r a g. P r \<Longrightarrow> f (vw_group (rm_view r)) = (Some a, g) \<Longrightarrow> Q a (r\<lparr>rm_view := rm_view r\<lparr>vw_group := g\<rparr>\<rparr>)"
    and "\<And>r g. P r \<Longrightarrow> f (vw_group (rm_view r)) = (None, g) \<Longrightarrow> E (r\<lparr>rm_view := rm_view r\<lparr>vw_group := g\<rparr>\<rparr>)"
  shows "triple P (on_group f) Q E"
  using assms unfolding triple_def on_group_def by (auto split: prod.splits option.splits)

lemma expect_seq_Some: "expect_seq a = Some n \<longleftrightarrow> a = Accepted n"
  by (cases a) simp_all

lemma commit_scan_unanswered [simp]: "expect_seq a = None \<Longrightarrow> commit_scan q (Asked e a) = Some q"
  by (cases "(q, Asked e a :: 'g act)" rule: commit_scan.cases) auto

abbreviation pending :: "bytes option \<times> bool \<Rightarrow> 'g room \<Rightarrow> bool" where
  "pending q r \<equiv> commits_in (rm_trace r) = Some q"

lemma published_first_trace: "pending q r \<Longrightarrow> published_first r"
  by (simp add: published_first_def)

lemma request_published: "keeps published_first (request q expect)"
  unfolding keeps_def
  by (rule triple_request) (simp_all add: published_first_def commits_in_defined del: not_None_eq)

lemma on_group_published: "keeps published_first (on_group f)"
  unfolding keeps_def by (rule triple_on_group) (simp_all add: published_first_def)

lemma change_view_published: "keeps published_first (change_view f)"
  unfolding change_view_def by (rule keeps_move) (simp add: published_first_def)

lemma post_published: "keeps published_first (post e)"
  unfolding post_def by (intro keeps_after request_published change_view_published)

lemma publish_and_apply_published:
  "triple (pending (Some p, b)) (publish_and_apply c p) (\<lambda>_. published_first) published_first"
proof -
  have "triple (pending (Some p, b)) (post (Mls p)) (\<lambda>_. pending (Some p, True)) published_first"
    unfolding post_def change_view_def
    by (rule triple_after [OF triple_request [where Q = "\<lambda>_. pending (Some p, True)"]])
      (auto simp: expect_seq_Some commits_in_snoc published_first_def simp del: not_None_eq
        intro: commits_in_defined)
  moreover have "triple (pending (Some p, True)) (after (on_group (go_apply (cl_ops c)))
      (\<lambda>tree. seq (move (log_act Applied)) (give tree))) (\<lambda>_. published_first) published_first"
    by (rule triple_after [OF triple_on_group [where Q = "\<lambda>_. pending (Some p, True)"]])
      (auto simp: published_first_def commits_in_snoc intro!: triple_seq [where R = published_first])
  ultimately show ?thesis unfolding publish_and_apply_def by (rule triple_seq)
qed

lemma enact_published: "keeps published_first (enact c f)"
proof -
  have "triple published_first (prepare f) (\<lambda>p. pending (Some p, False)) published_first"
    unfolding prepare_def
    by (rule triple_after [OF triple_on_group [where Q = "\<lambda>_. published_first"]])
      (auto simp: published_first_def commits_in_snoc
        intro!: triple_seq [where R = "pending (Some p, False)" for p])
  then show ?thesis
    unfolding enact_def keeps_def by (rule triple_after) (rule publish_and_apply_published)
qed

lemma prepared_published:
  "triple published_first (move (log_act (Prepared p))) (\<lambda>_. pending (Some p, False)) published_first"
  by (auto simp: published_first_def commits_in_snoc)

lemma pending_request:
  assumes "\<And>a. passes (Asked q a :: 'g act)"
  shows "triple (pending s) (request q expect :: ('g, 'a) step) (\<lambda>_. pending s) published_first"
  by (rule triple_request) (simp_all add: commits_in_passes assms published_first_def)

lemma invited_published:
  "triple published_first
    (seq (move (log_act (Prepared commit)))
    (seq (request (AddMembers ids key) expect_done)
    (after (publish_and_apply c commit) (\<lambda>tree. post (Welcome w tree)))))
    (\<lambda>_. published_first) published_first"
  by (intro triple_seq [OF prepared_published] triple_seq [OF pending_request]
      triple_after [OF publish_and_apply_published] post_published [unfolded keeps_def]) simp

lemma welcome_device_published: "keeps published_first (welcome_device c d)"
  unfolding welcome_device_def bring_in_def
  by (intro keeps_after request_published on_group_published)
    (auto simp: keeps_def invited_published split: prod.split)

lemma say_published: "keeps published_first (say c body)"
  by (rule keepsI) (auto simp: say_def published_first_def commits_in_said split: prod.splits)

interpretation commits: room_kept c published_first for c
proof unfold_locales
  show "keeps published_first (persist :: ('a, unit) step)"
    unfolding persist_def
    by (rule keeps_move) (simp add: published_first_def commits_in_defined del: not_None_eq)
  show "keeps published_first (move g :: ('a, unit) step)"
    if "\<And>r. rm_view (g r) = rm_view r \<and> rm_trace (g r) = rm_trace r" for g
    by (rule keeps_move) (simp add: published_first_def that)
qed (intro welcome_device_published enact_published say_published on_group_published post_published
    request_published change_view_published)+

subsection \<open>What this device posted is marked as its own\<close>

fun posts_of :: "'g act \<Rightarrow> nat set" where
  "posts_of (Asked (PostEnvelope e) (Accepted n)) = {n}"
| "posts_of (Asked (PostContent b p) (Accepted n)) = {n}"
| "posts_of a = {}"

text \<open>\<open>S\<close>: what was posted elsewhere.\<close>

definition own_marked :: "nat set \<Rightarrow> 'g room \<Rightarrow> bool" where
  "own_marked S r \<longleftrightarrow> (\<Union>a\<in>set (rm_trace r). posts_of a) \<subseteq> S \<union> vw_mine (rm_view r)"

lemma posts_of_unanswered [simp]: "expect_seq a = None \<Longrightarrow> posts_of (Asked q a) = {}"
  by (cases "Asked q a :: 'g act" rule: posts_of.cases) auto

lemma request_own:
  "(\<And>a. posts_of (Asked q a :: 'g act) = {}) \<Longrightarrow> keeps (own_marked S) (request q expect :: ('g, 'a) step)"
  unfolding keeps_def by (rule triple_request) (simp_all add: own_marked_def)

lemma post_own: "keeps (own_marked S) (post e)"
  unfolding post_def keeps_def change_view_def
  by (rule triple_after [OF triple_request [where Q = "\<lambda>n r. own_marked S (r\<lparr>rm_view := rm_view r\<lparr>vw_mine := insert n (vw_mine (rm_view r))\<rparr>\<rparr>)"]])
    (auto simp: own_marked_def expect_seq_Some)

lemma on_group_own: "keeps (own_marked S) (on_group f)"
  unfolding keeps_def by (rule triple_on_group) (simp_all add: own_marked_def)

lemma change_view_own: "(\<And>v. vw_mine (f v) = vw_mine v) \<Longrightarrow> keeps (own_marked S) (change_view f)"
  unfolding change_view_def by (rule keeps_move) (simp add: own_marked_def)

lemma log_own: "posts_of a = {} \<Longrightarrow> keeps (own_marked S) (move (log_act a))"
  by (rule keeps_move) (simp add: own_marked_def)

lemma say_own: "keeps (own_marked S) (say c body)"
proof (rule keepsI)
  fix r x r' assume own: "own_marked S r" and run: "say c body r = (x, r')"
  obtain e es v where sent: "send_content (cl_mls c) (cl_texts c) (cl_device c) (cl_now c) (cl_now c)
      (expect_seq (next_reply r)) body None (rm_view r) = (e, es, v)" by (rule prod_cases3)
  with run have r': "rm_view r' = v" "rm_trace r' = rm_trace r @ map (said (next_reply r)) es"
    by (auto simp: say_def)
  from sent have "vw_mine (rm_view r) \<union> (\<Union>a\<in>set es. posts_of (said (next_reply r) a)) \<subseteq> vw_mine v"
    by (cases rule: send_content_cases) (auto simp: expect_seq_Some)
  with own show "own_marked S r'" by (auto simp: own_marked_def r')
qed

lemmas own_steps = keeps_seq keeps_after post_own on_group_own log_own keeps_basic

lemma publish_and_apply_own: "keeps (own_marked S) (publish_and_apply c p)"
  unfolding publish_and_apply_def by (intro own_steps) simp

interpretation marks: room_kept c "own_marked S" for c S
proof unfold_locales
  show "keeps (own_marked S) (welcome_device c d)" for d
    unfolding welcome_device_def bring_in_def
    by (intro keeps_after request_own on_group_own)
      (auto split: prod.split intro!: own_steps request_own publish_and_apply_own)
  show "keeps (own_marked S) (enact c f)" for f
    unfolding enact_def prepare_def by (intro own_steps publish_and_apply_own) simp
  show "keeps (own_marked S) (persist :: ('a, unit) step)"
    unfolding persist_def by (rule keeps_move) (simp add: own_marked_def)
  show "keeps (own_marked S) (move g :: ('a, unit) step)"
    if "\<And>r. rm_view (g r) = rm_view r \<and> rm_trace (g r) = rm_trace r" for g
    by (rule keeps_move) (simp add: own_marked_def that)
qed (auto intro: say_own on_group_own post_own request_own change_view_own)

text \<open>What the automaton means.\<close>

definition settled :: "'g act list \<Rightarrow> bool" where
  "settled t \<longleftrightarrow> (\<forall>a\<in>set t. a \<noteq> Applied \<and> (\<forall>p. a \<noteq> Prepared p))"

definition commit_out :: "bytes \<Rightarrow> 'g act list \<Rightarrow> bool" where
  "commit_out p t \<longleftrightarrow> (\<exists>xs ys n zs. t = xs @ [Prepared p] @ ys @ [Asked (PostEnvelope (Mls p)) (Accepted n)] @ zs \<and>
     settled (ys @ zs))"

lemma settled_simps [simp]: "settled []" "settled (t @ u) \<longleftrightarrow> settled t \<and> settled u"
  "settled (a # t) \<longleftrightarrow> a \<noteq> Applied \<and> (\<forall>p. a \<noteq> Prepared p) \<and> settled t"
  by (auto simp: settled_def)

lemma commit_out_snoc: "commit_out p t \<Longrightarrow> settled [a] \<Longrightarrow> commit_out p (t @ [a])"
proof -
  assume "commit_out p t" "settled [a]"
  then obtain xs ys n zs where "t = xs @ [Prepared p] @ ys @ [Asked (PostEnvelope (Mls p)) (Accepted n)] @ zs"
    "settled (ys @ zs)" by (auto simp: commit_out_def)
  then have "t @ [a] = xs @ [Prepared p] @ ys @ [Asked (PostEnvelope (Mls p)) (Accepted n)] @ (zs @ [a])"
    "settled (ys @ (zs @ [a]))" using \<open>settled [a]\<close> by simp_all
  then show ?thesis unfolding commit_out_def by blast
qed

lemma commit_scan_cases [case_names prepared posted applied other]:
  obtains commit where "a = Prepared commit"
  | commit n where "a = Asked (PostEnvelope (Mls commit)) (Accepted n)"
  | "a = Applied"
  | "commit_scan q a = Some q" "settled [a]"
proof (cases a)
  case (Asked r x)
  show ?thesis
  proof (cases r)
    case (PostEnvelope e)
    then show ?thesis using Asked that by (cases q; cases e; cases x) auto
  qed (use Asked that(4) in \<open>cases q; simp\<close>)+
qed (use that in \<open>cases q; auto\<close>)+

lemma commits_in_Some:
  assumes "commits_in t = Some (Some p, b)"
  shows "(\<exists>xs ys. t = xs @ [Prepared p] @ ys \<and> settled ys) \<and> (b \<longrightarrow> commit_out p t)"
  using assms
proof (induction t arbitrary: p b rule: rev_induct)
  case (snoc a t)
  then obtain q where q: "commits_in t = Some q" "commit_scan q a = Some (Some p, b)"
    by (auto simp: commits_in_snoc bind_eq_Some_conv)
  obtain p' b' where pb: "q = (p', b')" by (cases q)
  show ?case
  proof (cases rule: commit_scan_cases [where a = a and q = q])
    case (prepared commit)
    then show ?thesis using q pb by (intro conjI exI [of _ t] exI [of _ "[]"]) auto
  next
    case (posted commit n)
    then have "p' = Some p" "b \<longrightarrow> commit = p" using q pb by auto
    with snoc.IH [of p b'] q(1) pb obtain xs ys where t: "t = xs @ [Prepared p] @ ys" "settled ys" by auto
    have "t @ [a] = xs @ [Prepared p] @ (ys @ [a])" "settled (ys @ [a])" using t posted by auto
    moreover have "commit_out p (t @ [a])" if b
      unfolding commit_out_def using t posted \<open>b \<longrightarrow> commit = p\<close> that
      by (intro exI [of _ xs] exI [of _ ys] exI [of _ n] exI [of _ "[]"]) auto
    ultimately show ?thesis by blast
  next
    case applied
    then show ?thesis using q pb by (auto split: if_splits)
  next
    case other
    then have "q = (Some p, b)" using q by simp
    with snoc.IH [of p b] q(1) obtain xs ys where t: "t = xs @ [Prepared p] @ ys" "settled ys"
      and out: "b \<longrightarrow> commit_out p t" by auto
    have "t @ [a] = xs @ [Prepared p] @ (ys @ [a])" "settled (ys @ [a])" using t other by auto
    then show ?thesis using out commit_out_snoc [OF _ other(2)] by blast
  qed
qed (simp add: commits_in_def)

lemma commits_in_prefix: "commits_in (t @ u) \<noteq> None \<Longrightarrow> commits_in t \<noteq> None"
proof (induction u rule: rev_induct)
  case (snoc a u)
  then show ?case by (cases "commits_in (t @ u)") (auto simp: commits_in_snoc simp flip: append_assoc)
qed simp

lemma commits_in_flag: "commits_in t = Some (p, True) \<Longrightarrow> \<exists>q. p = Some q"
proof (induction t arbitrary: p rule: rev_induct)
  case (snoc a t)
  then obtain q where q: "commits_in t = Some q" "commit_scan q a = Some (p, True)"
    by (auto simp: commits_in_snoc bind_eq_Some_conv)
  then show ?case
    by (cases q; cases rule: commit_scan_cases [where a = a and q = q]) (use snoc.IH in \<open>auto split: if_splits\<close>)
qed (simp add: commits_in_def)

text \<open>C4. A commit is published before it is applied. Whatever the operations performed and whatever the
  server and the group answer, each merge of a pending commit comes after a post of the very commit prepared
  last, accepted by the server, with no other merge or preparation since the commit was prepared; and every
  envelope the server accepted is marked as this device's own, so that no poll reads it back.\<close>

theorem commits_published_first:
  assumes "rm_trace r = []" and "r' = snd (perform_all c ops r)"
  shows "(\<forall>before rest. rm_trace r' = before @ [Applied] @ rest \<longrightarrow> (\<exists>p. commit_out p before)) \<and>
    (\<forall>a\<in>set (rm_trace r'). posts_of a \<subseteq> vw_mine (rm_view r'))"
proof (intro conjI allI impI)
  have "published_first r'"
    unfolding assms(2) by (rule commits.perform_all_kept) (simp add: published_first_def commits_in_def assms(1))
  then have whole: "commits_in (rm_trace r') \<noteq> None" by (simp add: published_first_def)
  fix before rest assume split: "rm_trace r' = before @ [Applied] @ rest"
  have "commits_in (before @ [Applied]) \<noteq> None"
    using whole split commits_in_prefix [of "before @ [Applied]" rest] by auto
  then obtain p where "commits_in before = Some (p, True)"
    by (auto simp: commits_in_snoc bind_eq_Some_conv split: if_splits)
  moreover from this obtain q where "p = Some q" using commits_in_flag by blast
  ultimately show "\<exists>p. commit_out p before" using commits_in_Some by blast
next
  have "own_marked {} r'"
    unfolding assms(2) by (rule marks.perform_all_kept) (simp add: own_marked_def assms(1))
  then show "\<forall>a\<in>set (rm_trace r'). posts_of a \<subseteq> vw_mine (rm_view r')" by (auto simp: own_marked_def)
qed

subsection \<open>The epoch\<close>

text \<open>What MLS documents of a client: only merging a commit moves the epoch, by one.\<close>

definition epoch_by_merge :: "'g client \<Rightarrow> bool" where
  "epoch_by_merge c \<longleftrightarrow> (let epoch = mls_epoch (cl_mls c) in \<forall>g.
     (\<forall>p. epoch (snd (mls_encrypt (cl_mls c) g p)) = epoch g) \<and> (\<forall>p. epoch (snd (go_invite (cl_ops c) g p)) = epoch g) \<and>
     (\<forall>f. commit_of c f \<longrightarrow> epoch (snd (f g)) = epoch g) \<and> epoch (snd (go_leave (cl_ops c) g)) = epoch g \<and>
     epoch (snd (go_apply (cl_ops c) g)) \<le> (if fst (go_apply (cl_ops c) g) = None then epoch g else Suc (epoch g)))"

definition merges :: "'g act list \<Rightarrow> nat" where
  "merges t = length (filter (\<lambda>a. a = Applied) t)"

fun accepted_commit :: "'g act \<Rightarrow> bool" where
  "accepted_commit (Asked (PostEnvelope (Mls p)) (Accepted n)) = True"
| "accepted_commit _ = False"

definition accepted_commits :: "'g act list \<Rightarrow> nat" where
  "accepted_commits t = length (filter accepted_commit t)"

definition epoch_of :: "'g client \<Rightarrow> 'g room \<Rightarrow> nat" where
  "epoch_of c r = mls_epoch (cl_mls c) (vw_group (rm_view r))"

definition epoch_bound :: "'g client \<Rightarrow> nat \<Rightarrow> 'g room \<Rightarrow> bool" where
  "epoch_bound c e r \<longleftrightarrow> epoch_of c r \<le> e + merges (rm_trace r)"

lemma epoch_by_mergeD:
  assumes "epoch_by_merge c"
  shows "mls_epoch (cl_mls c) (snd (mls_encrypt (cl_mls c) g p)) = mls_epoch (cl_mls c) g"
    and "mls_epoch (cl_mls c) (snd (go_invite (cl_ops c) g p)) = mls_epoch (cl_mls c) g"
    and "commit_of c f \<Longrightarrow> mls_epoch (cl_mls c) (snd (f g)) = mls_epoch (cl_mls c) g"
    and "mls_epoch (cl_mls c) (snd (go_leave (cl_ops c) g)) = mls_epoch (cl_mls c) g"
    and "mls_epoch (cl_mls c) (snd (go_apply (cl_ops c) g)) \<le>
      (if fst (go_apply (cl_ops c) g) = None then mls_epoch (cl_mls c) g else Suc (mls_epoch (cl_mls c) g))"
  using assms by (simp_all only: epoch_by_merge_def Let_def)

lemma merges_le_accepted:
  "commits_in t = Some (p, b) \<Longrightarrow> merges t + of_bool b \<le> accepted_commits t"
proof (induction t arbitrary: p b rule: rev_induct)
  case (snoc a t)
  then obtain p' b' where q: "commits_in t = Some (p', b')" "commit_scan (p', b') a = Some (p, b)"
    by (auto simp: commits_in_snoc bind_eq_Some_conv)
  note le = snoc.IH [OF q(1)]
  show ?case
    by (cases rule: commit_scan_cases [where a = a and q = "(p', b')"])
      (use le q(2) in \<open>auto simp: merges_def accepted_commits_def split: if_splits\<close>)
qed (simp add: merges_def accepted_commits_def commits_in_def)

lemma merges_simps [simp]:
  "merges [] = 0" "merges (t @ u) = merges t + merges u" "merges (a # t) = of_bool (a = Applied) + merges t"
  by (simp_all add: merges_def)

lemma said_merge [simp]: "said a e \<noteq> Applied" "said a e \<noteq> Prepared p"
  by (cases e; simp)+

lemma settled_said [simp]: "settled (map (said a) es)"
  by (induction es) simp_all

lemma merges_said [simp]: "merges (map (said a) es) = 0"
  by (induction es) simp_all

lemma epoch_bound_cong:
  "epoch_of c r' = epoch_of c r \<Longrightarrow> merges (rm_trace r) \<le> merges (rm_trace r') \<Longrightarrow> epoch_bound c e r \<Longrightarrow> epoch_bound c e r'"
  by (simp add: epoch_bound_def)

lemma request_epoch: "keeps (epoch_bound c e) (request q expect)"
  unfolding keeps_def by (rule triple_request) (simp_all add: epoch_bound_def epoch_of_def)

lemma change_view_epoch: "(\<And>v. vw_group (f v) = vw_group v) \<Longrightarrow> keeps (epoch_bound c e) (change_view f)"
  unfolding change_view_def by (rule keeps_move) (simp add: epoch_bound_def epoch_of_def)

lemma log_epoch: "keeps (epoch_bound c e) (move (log_act a))"
  by (rule keeps_move) (simp add: epoch_bound_def epoch_of_def)

lemma on_group_epoch:
  "(\<And>g. mls_epoch (cl_mls c) (snd (f g)) = mls_epoch (cl_mls c) g) \<Longrightarrow> keeps (epoch_bound c e) (on_group f)"
  unfolding keeps_def
  by (rule triple_on_group) (simp_all add: epoch_bound_def epoch_of_def, (metis snd_conv)+)

lemma post_epoch: "keeps (epoch_bound c e) (post envelope)"
  unfolding post_def by (intro keeps_after request_epoch change_view_epoch) simp

lemmas epoch_steps = keeps_seq keeps_after keeps_basic request_epoch change_view_epoch log_epoch post_epoch on_group_epoch

lemma apply_epoch:
  assumes "epoch_by_merge c"
  shows "keeps (epoch_bound c e) (publish_and_apply c p)"
proof -
  have merge: "mls_epoch (cl_mls c) g' \<le> (if x = None then mls_epoch (cl_mls c) g else Suc (mls_epoch (cl_mls c) g))"
    if "go_apply (cl_ops c) g = (x, g')" for x g g'
    using epoch_by_mergeD(5) [OF assms, of g] that by simp
  have "triple (epoch_bound c e) (on_group (go_apply (cl_ops c)))
      (\<lambda>_ r. epoch_of c r \<le> Suc (e + merges (rm_trace r))) (epoch_bound c e)"
    by (rule triple_on_group) (auto simp: epoch_bound_def epoch_of_def dest!: merge)
  then have "keeps (epoch_bound c e) (after (on_group (go_apply (cl_ops c)))
      (\<lambda>tree. seq (move (log_act Applied)) (give tree)))"
    unfolding keeps_def
    by (rule triple_after) (auto intro!: triple_seq [where R = "epoch_bound c e"]
        simp: epoch_bound_def epoch_of_def)
  then show ?thesis unfolding publish_and_apply_def by (rule keeps_seq [OF post_epoch])
qed

lemma say_epoch:
  assumes "epoch_by_merge c"
  shows "keeps (epoch_bound c e) (say c body)"
proof (rule keepsI)
  fix r x r' assume bound: "epoch_bound c e r" and run: "say c body r = (x, r')"
  obtain err es v where sent: "send_content (cl_mls c) (cl_texts c) (cl_device c) (cl_now c) (cl_now c)
      (expect_seq (next_reply r)) body None (rm_view r) = (err, es, v)" by (rule prod_cases3)
  with run have r': "rm_view r' = v" "rm_trace r' = rm_trace r @ map (said (next_reply r)) es"
    by (auto simp: say_def)
  have "mls_epoch (cl_mls c) (vw_group v) = mls_epoch (cl_mls c) (vw_group (rm_view r))"
    using sent epoch_by_mergeD(1) [OF assms, of "vw_group (rm_view r)"]
    by (auto simp: send_content_def Let_def split: sum.splits prod.splits option.splits if_splits) (metis snd_conv)+
  then show "epoch_bound c e r'" using bound by (simp add: epoch_bound_def epoch_of_def r')
qed

lemma epoch_kept:
  assumes "epoch_by_merge c"
  shows "room_kept c (epoch_bound c e)"
proof unfold_locales
  note laws = epoch_by_mergeD [OF assms]
  show "keeps (epoch_bound c e) (welcome_device c d)" for d
    unfolding welcome_device_def bring_in_def
    by (intro keeps_after request_epoch on_group_epoch)
      (auto split: prod.split intro!: epoch_steps apply_epoch [OF assms] laws)
  show "keeps (epoch_bound c e) (enact c f)" if "commit_of c f" for f
    unfolding enact_def prepare_def by (intro epoch_steps apply_epoch [OF assms] laws that)
  show "keeps (epoch_bound c e) (persist :: ('a, unit) step)"
    unfolding persist_def by (rule keeps_move) (simp add: epoch_bound_def epoch_of_def)
  show "keeps (epoch_bound c e) (move g :: ('a, unit) step)"
    if "\<And>r. rm_view (g r) = rm_view r \<and> rm_trace (g r) = rm_trace r" for g
    by (rule keeps_move) (simp add: epoch_bound_def epoch_of_def that)
  show "keeps (epoch_bound c e) (on_group (go_leave (cl_ops c)))" by (intro on_group_epoch laws)
qed (auto intro: say_epoch [OF assms] post_epoch request_epoch change_view_epoch)

text \<open>This device never runs ahead of the server. If, as MLS documents, only merging a commit moves the
  epoch and by one, then whatever the operations performed and whatever fails on the way, the epoch of the
  group has moved by at most the number of commits the server has accepted from this device.\<close>

theorem epoch_never_ahead:
  assumes "epoch_by_merge c" and "rm_trace r = []" and "r' = snd (perform_all c ops r)"
  shows "epoch_of c r' \<le> epoch_of c r + accepted_commits (rm_trace r')"
proof -
  have "epoch_bound c (epoch_of c r) r'"
    unfolding assms(3) by (rule room_kept.perform_all_kept [OF epoch_kept [OF assms(1)]])
      (simp add: epoch_bound_def)
  moreover have "published_first r'"
    unfolding assms(3) by (rule commits.perform_all_kept) (simp add: published_first_def commits_in_def assms(2))
  then obtain p b where "commits_in (rm_trace r') = Some (p, b)" by (auto simp: published_first_def)
  ultimately show ?thesis using merges_le_accepted by (fastforce simp: epoch_bound_def)
qed

subsection \<open>A group one can run\<close>

text \<open>A tree of leaves with a roster, a lifetime and one pending commit at most, whose texts travel in the
  clear. The key of a leaf is the name of its account and one byte for the device.\<close>

datatype change = Joins "account \<times> bytes" | Leaves bytes | Recasts account "account list" | Retimes int

record tree =
  tr_epoch :: nat
  tr_leaves :: "(account \<times> bytes) list"
  tr_roster :: "roles option"
  tr_lifetime :: "int option"
  tr_pending :: "change option"

definition tree_pend :: "tree \<Rightarrow> change \<Rightarrow> bytes \<Rightarrow> bytes option \<times> tree" where
  "tree_pend g x commit =
     (if tr_pending g = None then (Some commit, g\<lparr>tr_pending := Some x\<rparr>) else (None, g))"

definition leaf_of :: "bytes \<Rightarrow> account \<times> bytes" where
  "leaf_of key = (map ucast (butlast key), key)"

definition tree_merge :: "tree \<Rightarrow> bytes option \<times> tree" where
  "tree_merge g =
     (case tr_pending g of
        None \<Rightarrow> (None, g)
      | Some x \<Rightarrow> (Some [word_of_nat (tr_epoch g)],
          (case x of
             Joins leaf \<Rightarrow> g\<lparr>tr_leaves := tr_leaves g @ [leaf]\<rparr>
           | Leaves key \<Rightarrow> g\<lparr>tr_leaves := filter (\<lambda>l. snd l \<noteq> key) (tr_leaves g)\<rparr>
           | Recasts a ms \<Rightarrow> g\<lparr>tr_roster := Some \<lparr>ro_admin = a, ro_moderators = ms\<rparr>\<rparr>
           | Retimes s \<Rightarrow> g\<lparr>tr_lifetime := Some s\<rparr>)\<lparr>tr_epoch := Suc (tr_epoch g), tr_pending := None\<rparr>))"

definition tree_ops :: "tree group_ops" where
  "tree_ops = \<lparr>go_invite = (\<lambda>g p. case tree_pend g (Joins (leaf_of p)) (1 # p) of
       (None, g') \<Rightarrow> (None, g') | (Some commit, g') \<Rightarrow> (Some (commit, p), g')),
     go_remove = (\<lambda>g k. if k \<in> snd ` set (tr_leaves g) then tree_pend g (Leaves k) (2 # k) else (None, g)),
     go_set_roles = (\<lambda>g a ms. tree_pend g (Recasts a ms) [3]), go_set_lifetime = (\<lambda>g s. tree_pend g (Retimes s) [4]),
     go_leave = (\<lambda>g. (Some [5], g)), go_apply = tree_merge,
     go_signature_keys = (\<lambda>g. map snd (tr_leaves g)), go_fingerprint = map ucast\<rparr>"

definition tree_mls :: "tree mls" where
  "tree_mls = \<lparr>mls_process = (\<lambda>g p revoked. (None, g)), mls_encrypt = (\<lambda>g p. (Some p, g)), mls_epoch = tr_epoch,
     mls_peers = (\<lambda>g. map (\<lambda>(n, k). \<lparr>pr_name = n, pr_fingerprint = map ucast k\<rparr>) (tr_leaves g)),
     mls_lifetime = tr_lifetime, mls_roster = tr_roster\<rparr>"

definition tree_client :: "account \<Rightarrow> (account \<Rightarrow> resolved_account option) \<Rightarrow> tree client" where
  "tree_client me resolve = \<lparr>cl_mls = tree_mls, cl_ops = tree_ops, cl_texts = plain_texts, cl_account = me,
     cl_device = me, cl_now = 1000, cl_directory = Some, cl_resolve = resolve\<rparr>"

definition phone_of :: "account \<Rightarrow> u8 \<Rightarrow> device" where
  "phone_of a i = \<lparr>dev_id = a @ [ucast i], dev_auth_key = [], dev_mls_key = map ucast a @ [i], dev_attestation = [],
     dev_revoked_at = None, dev_revocation = None\<rparr>"

definition known_account :: "account \<Rightarrow> device list \<Rightarrow> resolved_account" where
  "known_account a devices = \<lparr>ra_handle = a, ra_key = [], ra_fingerprint = a, ra_devices = devices, ra_revoked = [],
     ra_revoked_keys = [], ra_rejected = []\<rparr>"

definition tree_room :: "account \<Rightarrow> (account \<times> bytes) list \<Rightarrow> resolved_account list \<Rightarrow> reply list \<Rightarrow> tree room" where
  "tree_room admin leaves accounts replies =
     (let g = \<lparr>tr_epoch = 0, tr_leaves = leaves, tr_roster = Some \<lparr>ro_admin = admin, ro_moderators = []\<rparr>,
          tr_lifetime = None, tr_pending = None\<rparr>
      in \<lparr>rm_view = (new_view (js ''room'') g)\<lparr>vw_accounts := accounts, vw_peers := mls_peers tree_mls g\<rparr>,
          rm_trust = \<lparr>fingerprints = [], known_devices = []\<rparr>, rm_owed = {}, rm_replies = replies, rm_trace = []\<rparr>)"

lemma tree_epoch_by_merge: "epoch_by_merge (tree_client me resolve)"
  by (auto simp: epoch_by_merge_def tree_client_def tree_mls_def tree_ops_def tree_pend_def tree_merge_def
      commit_of_def split: option.splits change.splits prod.splits)

text \<open>Amy's group with Carol, to which Bob's two devices are added.\<close>

definition bobs_devices :: "device list" where
  "bobs_devices = [phone_of (js ''bob'') 1, phone_of (js ''bob'') 2]"

definition amy :: "tree client" where
  "amy = tree_client (js ''amy'') (\<lambda>a. Some (known_account a (if a = js ''bob'' then bobs_devices else [])))"

definition amys_room :: "reply list \<Rightarrow> tree room" where
  "amys_room replies = tree_room (js ''amy'') [(js ''carol'', map ucast (js ''carol'') @ [1])]
     [known_account (js ''carol'') [phone_of (js ''carol'') 1]] replies"

definition all_accepted :: "reply list" where
  "all_accepted = [Claimed (dev_mls_key (phone_of (js ''bob'') 1)), Done, Accepted 1, Accepted 2,
     Claimed (dev_mls_key (phone_of (js ''bob'') 2)), Done, Accepted 3, Accepted 4, Accepted 5]"

lemma amy_fields:
  "cl_directory amy h = Some h" "ra_devices (known_account a ds) = ds" "cl_ops amy = tree_ops" "cl_mls amy = tree_mls"
  "cl_account amy = js ''amy''" "cl_device amy = js ''amy''" "cl_now amy = 1000" "cl_texts amy = plain_texts"
  "cl_resolve amy a = Some (known_account a (if a = js ''bob'' then bobs_devices else []))"
  by (simp_all add: amy_def tree_client_def known_account_def)

lemmas run_defs = add_account_def settle_in_def amy_fields amys_room_def tree_room_def bobs_devices_def
  after_def seq_def demand_def give_def throw_def move_def look_def of_view_def is_group_def roles_of_def
  resolved_def known_account_def welcome_device_def bring_in_def request_def next_reply_def log_act_def on_group_def
  publish_and_apply_def post_def change_view_def note_resolved_def refresh_view_def persist_def announce_def attempt_def
  tree_ops_def tree_mls_def tree_pend_def tree_merge_def leaf_of_def phone_of_def

lemma amy_adds_bob:
  "fst (perform amy (AddAccount (js ''bob'')) (amys_room all_accepted)) = Inr ()"
  by (simp add: run_defs all_accepted_def)

theorem commits_published_first_witness:
  "(let r' = snd (perform_all amy [AddAccount (js ''bob''), RequestLeave] (amys_room all_accepted)) in
     \<forall>a\<in>set (rm_trace r'). posts_of a \<subseteq> vw_mine (rm_view r'))"
  using commits_published_first [of "amys_room all_accepted", OF _ refl, of amy "[AddAccount (js ''bob''), RequestLeave]"]
  by (simp add: amys_room_def tree_room_def Let_def)

theorem epoch_never_ahead_witness:
  "(let r' = snd (perform_all amy [AddAccount (js ''bob''), RequestLeave] (amys_room all_accepted)) in
     epoch_of amy r' \<le> 0 + accepted_commits (rm_trace r'))"
proof -
  have "epoch_of amy (amys_room all_accepted) = 0"
    by (simp add: epoch_of_def amy_def tree_client_def tree_mls_def amys_room_def tree_room_def new_view_def)
  moreover have "rm_trace (amys_room all_accepted) = []" by (simp add: amys_room_def tree_room_def Let_def)
  moreover have "epoch_by_merge amy" unfolding amy_def by (rule tree_epoch_by_merge)
  ultimately show ?thesis
    using epoch_never_ahead [of amy "amys_room all_accepted", OF _ _ refl] by (simp add: Let_def)
qed

end
