(* ===== verification/Members.thy ===== *)
theory Members
  imports Commits
begin

text \<open>
  What each operation on the members of a conversation does when it returns, what it leaves when it throws,
  and where the order of its steps costs something.
\<close>

subsection \<open>What a step leaves alone\<close>

text \<open>The part of a room that no step towards a commit touches.\<close>

definition aside :: "'g room \<Rightarrow> resolved_account list \<times> bool \<times> trust_store \<times> jsstr set \<times> jsstr" where
  "aside r = (vw_accounts (rm_view r), vw_key_shared (rm_view r), rm_trust r, rm_owed r, vw_key (rm_view r))"

text \<open>The acts of a kind that those steps do not log.\<close>

fun is_write :: "'g act \<Rightarrow> bool" where
  "is_write (Did (Write w)) = True"
| "is_write a = False"

fun is_claim :: "'g act \<Rightarrow> bool" where
  "is_claim (Asked (ClaimPackage d) a) = True"
| "is_claim a = False"

definition apart :: "('g act \<Rightarrow> bool) \<Rightarrow> bool" where
  "apart P \<longleftrightarrow> (\<forall>p. \<not> P (Prepared p)) \<and> \<not> P Applied \<and>
     (\<forall>q a. P (Asked q a) \<longrightarrow> (\<exists>d. q = ClaimPackage d))"

lemma apart_simps [simp]: "apart is_write" "apart is_claim"
  by (auto simp: apart_def elim: is_claim.elims)

definition of_kind :: "('g act \<Rightarrow> bool) \<Rightarrow> 'g room \<Rightarrow> 'g act list" where
  "of_kind P r = filter P (rm_trace r)"

abbreviation disk :: "'g room \<Rightarrow> 'g act list" where
  "disk \<equiv> of_kind is_write"

definition still :: "('g act \<Rightarrow> bool) \<Rightarrow> 'g room \<Rightarrow> 'g room \<Rightarrow> bool" where
  "still P r0 r \<longleftrightarrow> aside r = aside r0 \<and> of_kind P r = of_kind P r0"

lemma aside_simps [simp]:
  "aside (log_act a r) = aside r" "of_kind P (log_act a r) = of_kind P r @ (if P a then [a] else [])"
  by (simp_all add: aside_def of_kind_def)

lemma request_aside: "(\<And>a. \<not> P (Asked q a)) \<Longrightarrow> keeps (still P x) (request q expect)"
  unfolding keeps_def by (rule triple_request) (simp_all add: still_def aside_def of_kind_def)

lemma on_group_aside: "keeps (still P x) (on_group f)"
  unfolding keeps_def by (rule triple_on_group) (simp_all add: still_def aside_def of_kind_def)

lemma post_aside: "apart P \<Longrightarrow> keeps (still P x) (post e)"
  unfolding post_def change_view_def
  by (intro keeps_after request_aside keeps_move) (auto simp: still_def aside_def of_kind_def apart_def)

lemma log_aside: "\<not> P a \<Longrightarrow> keeps (still P x) (move (log_act a))"
  by (rule keeps_move) (simp add: still_def)

lemmas aside_steps = keeps_seq keeps_after keeps_basic keeps_for_each request_aside on_group_aside post_aside log_aside

lemma publish_aside: "apart P \<Longrightarrow> keeps (still P x) (publish_and_apply c p)"
  unfolding publish_and_apply_def by (intro aside_steps) (simp_all add: apart_def)

lemma enact_aside: "apart P \<Longrightarrow> keeps (still P x) (enact c f)"
  unfolding enact_def prepare_def by (intro aside_steps publish_aside) (simp_all add: apart_def)

lemma bring_in_aside: "apart P \<Longrightarrow> keeps (still P x) (bring_in c d package)"
  unfolding bring_in_def
  by (intro keeps_after on_group_aside) (auto split: prod.split intro!: aside_steps publish_aside simp: apart_def)

lemma welcome_aside: "keeps (still is_write x) (welcome_device c d)"
  unfolding welcome_device_def by (intro keeps_after request_aside bring_in_aside) simp_all

lemma evict_aside: "keeps (still is_write x) (evict_device c device key)"
  unfolding evict_device_def by (intro aside_steps enact_aside) simp_all

lemma still_refl: "still P r r"
  by (simp add: still_def)

lemma say_frame:
  assumes "say c body r = (x, r')"
  shows "aside r' = aside r" and "\<exists>t. rm_trace r' = rm_trace r @ t \<and> settled t"
    and "vw_profile_epoch (rm_view r') = vw_profile_epoch (rm_view r)"
proof -
  obtain e es v where sent: "send_content (cl_mls c) (cl_texts c) (cl_device c) (cl_now c) (cl_now c)
      (expect_seq (next_reply r)) body None (rm_view r) = (e, es, v)" by (rule prod_cases3)
  with assms have r': "rm_view r' = v" "rm_trace r' = rm_trace r @ map (said (next_reply r)) es"
    "rm_trust r' = rm_trust r" "rm_owed r' = rm_owed r"
    by (auto simp: say_def)
  from sent have "vw_accounts v = vw_accounts (rm_view r) \<and> vw_key_shared v = vw_key_shared (rm_view r) \<and>
      vw_key v = vw_key (rm_view r) \<and> vw_profile_epoch v = vw_profile_epoch (rm_view r)"
    by (cases rule: send_content_cases) (auto simp: touch_def)
  then show "aside r' = aside r" "vw_profile_epoch (rm_view r') = vw_profile_epoch (rm_view r)"
    by (simp_all add: aside_def r')
  show "\<exists>t. rm_trace r' = rm_trace r @ t \<and> settled t" using r' settled_said by blast
qed

text \<open>The trace only grows.\<close>

lemma grows_log: "keeps (\<lambda>r. prefix t (rm_trace r)) (move (log_act a))"
  by (rule keeps_move) simp

lemma grows_request: "keeps (\<lambda>r. prefix t (rm_trace r)) (request q expect)"
  unfolding keeps_def by (rule triple_request) simp_all

lemma grows_on_group: "keeps (\<lambda>r. prefix t (rm_trace r)) (on_group f)"
  unfolding keeps_def by (rule triple_on_group) simp_all

lemma grows_change_view: "keeps (\<lambda>r. prefix t (rm_trace r)) (change_view f)"
  unfolding change_view_def by (rule keeps_move) simp

lemmas grows_steps = keeps_seq keeps_after keeps_basic grows_log grows_request grows_on_group grows_change_view

lemma grows_post: "keeps (\<lambda>r. prefix t (rm_trace r)) (post e)"
  unfolding post_def by (intro grows_steps)

lemma grows_publish: "keeps (\<lambda>r. prefix t (rm_trace r)) (publish_and_apply c p)"
  unfolding publish_and_apply_def by (intro grows_steps grows_post)

interpretation growth: room_kept c "\<lambda>r. prefix t (rm_trace r)" for c t
proof unfold_locales
  show "keeps (\<lambda>r. prefix t (rm_trace r)) (welcome_device c d)" for d
    unfolding welcome_device_def bring_in_def
    by (intro keeps_after grows_request grows_on_group)
      (auto split: prod.split intro!: grows_steps grows_post grows_publish)
  show "keeps (\<lambda>r. prefix t (rm_trace r)) (enact c f)" for f
    unfolding enact_def prepare_def by (intro grows_steps grows_publish)
  show "keeps (\<lambda>r. prefix t (rm_trace r)) (say c body)" for body
    by (rule keepsI) (use say_frame(2) in \<open>fastforce simp: prefix_def\<close>)
  show "keeps (\<lambda>r. prefix t (rm_trace r)) (persist :: ('a, unit) step)"
    unfolding persist_def by (rule keeps_move) simp
  show "keeps (\<lambda>r. prefix t (rm_trace r)) (move g :: ('a, unit) step)"
    if "\<And>r. rm_view (g r) = rm_view r \<and> rm_trace (g r) = rm_trace r" for g
    by (rule keeps_move) (simp add: that)
qed (intro grows_steps grows_post)+

subsection \<open>What a step that returns has done\<close>

lemma expect_Some [simp]:
  "expect_done a = Some u \<longleftrightarrow> a = Done" "expect_package a = Some p \<longleftrightarrow> a = Claimed p" "expect_seq a = Some n \<longleftrightarrow> a = Accepted n"
  by (cases a; simp)+

lemma request_Inr:
  "request q expect r = (Inr a, r') \<longleftrightarrow> expect (next_reply r) = Some a \<and>
     r' = log_act (Asked q (next_reply r)) (r\<lparr>rm_replies := drop 1 (rm_replies r)\<rparr>)"
  by (auto simp: request_def Let_def split: option.splits)

lemma on_group_Inr:
  "on_group f r = (Inr a, r') \<longleftrightarrow>
     (\<exists>g. f (vw_group (rm_view r)) = (Some a, g) \<and> r' = r\<lparr>rm_view := rm_view r\<lparr>vw_group := g\<rparr>\<rparr>)"
  by (auto simp: on_group_def split: prod.splits option.splits)

lemma publish_Inr:
  assumes "publish_and_apply c p r = (Inr tree, r')"
  shows "\<exists>n. rm_trace r' = rm_trace r @ [Asked (PostEnvelope (Mls p)) (Accepted n), Applied]"
  using assms by (auto simp: publish_and_apply_def post_def change_view_def flow_Inr request_Inr on_group_Inr)

lemma post_Inr:
  assumes "post e r = (Inr u, r')"
  shows "\<exists>n. rm_trace r' = rm_trace r @ [Asked (PostEnvelope e) (Accepted n)]"
  using assms by (auto simp: post_def change_view_def flow_Inr request_Inr)

lemma prepare_Inr:
  assumes "prepare f r = (Inr p, r')"
  shows "fst (f (vw_group (rm_view r))) = Some p \<and> rm_trace r' = rm_trace r @ [Prepared p]"
  using assms by (auto simp: prepare_def flow_Inr on_group_Inr)

text \<open>A commit prepared, published and merged; a device let in, with its Welcome; one put out.\<close>

definition enacted :: "bytes \<Rightarrow> 'g act list \<Rightarrow> bool" where
  "enacted p t \<longleftrightarrow> (\<exists>xs n ys. t = xs @ [Prepared p, Asked (PostEnvelope (Mls p)) (Accepted n), Applied] @ ys)"

definition welcomed :: "'g client \<Rightarrow> device \<Rightarrow> 'g act list \<Rightarrow> bool" where
  "welcomed c d t \<longleftrightarrow> (\<exists>xs package g p w n tree m ys. fst (go_invite (cl_ops c) g package) = Some (p, w) \<and>
     t = xs @ [Asked (ClaimPackage (dev_id d)) (Claimed package), Prepared p, Asked (AddMembers [dev_id d] None) Done,
       Asked (PostEnvelope (Mls p)) (Accepted n), Applied, Asked (PostEnvelope (Welcome w tree)) (Accepted m)] @ ys)"

definition evicted :: "'g client \<Rightarrow> jsstr \<Rightarrow> bytes \<Rightarrow> 'g act list \<Rightarrow> bool" where
  "evicted c device key t \<longleftrightarrow> (\<exists>xs g p n ys. fst (go_remove (cl_ops c) g key) = Some p \<and>
     t = xs @ [Prepared p, Asked (PostEnvelope (Mls p)) (Accepted n), Applied, Asked (DropMembers [device]) Done] @ ys)"

lemma later:
  "enacted p t \<Longrightarrow> prefix t u \<Longrightarrow> enacted p u"
  "welcomed c d t \<Longrightarrow> prefix t u \<Longrightarrow> welcomed c d u"
  "evicted c device key t \<Longrightarrow> prefix t u \<Longrightarrow> evicted c device key u"
proof -
  assume "enacted p t" "prefix t u"
  then show "enacted p u" unfolding enacted_def prefix_def by (metis append_assoc)
next
  assume a: "welcomed c d t" "prefix t u"
  then obtain zs where "u = t @ zs" by (auto simp: prefix_def)
  with a(1) show "welcomed c d u"
    unfolding welcomed_def by (elim exE conjE) (intro exI conjI, assumption, simp)
next
  assume a: "evicted c device key t" "prefix t u"
  then obtain zs where "u = t @ zs" by (auto simp: prefix_def)
  with a(1) show "evicted c device key u"
    unfolding evicted_def by (elim exE conjE) (intro exI conjI, assumption, simp)
qed

lemma enact_Inr:
  assumes "enact c f r = (Inr tree, r')"
  shows "\<exists>p n. fst (f (vw_group (rm_view r))) = Some p \<and>
    rm_trace r' = rm_trace r @ [Prepared p, Asked (PostEnvelope (Mls p)) (Accepted n), Applied]"
  using assms by (auto simp: enact_def after_Inr dest!: prepare_Inr publish_Inr)

lemma enacted_trace: "rm_trace r' = t @ [Prepared p, Asked (PostEnvelope (Mls p)) (Accepted n), Applied] \<Longrightarrow>
    enacted p (rm_trace r')"
  unfolding enacted_def by (intro exI [of _ t] exI [of _ n] exI [of _ "[]"]) simp

lemma welcome_device_Inr:
  assumes "welcome_device c d r = (Inr u, r')"
  shows "welcomed c d (rm_trace r')"
proof -
  from assms obtain package g p w n tree m where
    "fst (go_invite (cl_ops c) g package) = Some (p, w)"
    "rm_trace r' = rm_trace r @ [Asked (ClaimPackage (dev_id d)) (Claimed package), Prepared p,
       Asked (AddMembers [dev_id d] None) Done, Asked (PostEnvelope (Mls p)) (Accepted n), Applied,
       Asked (PostEnvelope (Welcome w tree)) (Accepted m)]"
    by (auto simp: welcome_device_def bring_in_def flow_Inr request_Inr on_group_Inr split: prod.splits
        dest!: publish_Inr post_Inr) (metis fst_conv)
  then show ?thesis unfolding welcomed_def by (intro exI conjI) (assumption, simp)
qed

lemma evict_device_Inr:
  assumes "evict_device c device key r = (Inr u, r')"
  shows "evicted c device key (rm_trace r')"
proof -
  from assms obtain p n where "fst (go_remove (cl_ops c) (vw_group (rm_view r)) key) = Some p"
    "rm_trace r' = rm_trace r @ [Prepared p, Asked (PostEnvelope (Mls p)) (Accepted n), Applied,
       Asked (DropMembers [device]) Done]"
    by (auto simp: evict_device_def flow_Inr request_Inr dest!: enact_Inr)
  then show ?thesis unfolding evicted_def by (intro exI conjI) (assumption, simp)
qed

text \<open>Loops of them.\<close>

lemma keeps_run: "keeps I m \<Longrightarrow> I r \<Longrightarrow> m r = (x, r') \<Longrightarrow> I r'"
  using keepsD [of I m r] by simp

lemma grown: "keeps (\<lambda>r. prefix t (rm_trace r)) m \<Longrightarrow> m r = (x, r') \<Longrightarrow> t = rm_trace r \<Longrightarrow> prefix t (rm_trace r')"
  using keeps_run [of "\<lambda>r. prefix t (rm_trace r)" m r x r'] by simp

lemma welcome_all_Inr:
  assumes "for_each (welcome_device c) ds r = (Inr u, r')"
  shows "\<forall>d\<in>set ds. welcomed c d (rm_trace r')"
  using assms
  by (rule for_each_does) (auto intro: welcome_device_Inr later(2) grown [OF growth.welcome_kept])

lemma evict_all_Inr:
  assumes "for_each (\<lambda>d. evict_device c (dev_id d) (dev_mls_key d)) ds r = (Inr u, r')"
  shows "\<forall>d\<in>set ds. evicted c (dev_id d) (dev_mls_key d) (rm_trace r')"
  using assms
  by (rule for_each_does) (auto intro: evict_device_Inr later(3) grown [OF growth.evict_kept])

lemma welcome_all_aside: "for_each (welcome_device c) ds r = (x, r') \<Longrightarrow> still is_write r r'"
  by (rule keeps_run [of "still is_write r" "for_each (welcome_device c) ds" r x]) (simp_all add: keeps_for_each welcome_aside still_refl)

lemma evict_all_aside:
  "for_each (\<lambda>d. evict_device c (dev_id d) (dev_mls_key d)) ds r = (x, r') \<Longrightarrow> still is_write r r'"
  by (rule keeps_run [of "still is_write r" "for_each (\<lambda>d. evict_device c (dev_id d) (dev_mls_key d)) ds" r x]) (simp_all add: keeps_for_each evict_aside still_refl)

text \<open>What is on the disk when the step returns: written after the last merge.\<close>

definition written :: "'g act list \<Rightarrow> 'g view \<Rightarrow> bool" where
  "written t w \<longleftrightarrow> (\<exists>xs ys. t = xs @ [Did (Write w)] @ ys \<and> settled ys)"

lemma written_announced:
  assumes "announce c event handle (log_act (Did (Write w)) r) = (x, r')"
  shows "written (rm_trace r') w" and "aside r' = aside r" and "prefix (rm_trace r) (rm_trace r')"
proof -
  obtain y where "say c (Membership event handle) (log_act (Did (Write w)) r) = (y, r')"
    using assms by (cases "say c (Membership event handle) (log_act (Did (Write w)) r)")
      (auto simp: announce_def attempt_def)
  from say_frame [OF this] show "written (rm_trace r') w" "aside r' = aside r" "prefix (rm_trace r) (rm_trace r')"
    unfolding written_def by auto
qed

subsection \<open>Adding an account\<close>

lemma step_Inl:
  "request q expect r = (Inl e, r') \<Longrightarrow> e = RequestFailed" "on_group f r = (Inl e, r') \<Longrightarrow> e = GroupRefused"
  by (auto simp: request_def on_group_def Let_def split: option.splits prod.splits)

lemma welcome_device_Inl:
  "welcome_device c d r = (Inl e, r') \<Longrightarrow> e = RequestFailed \<or> e = GroupRefused"
  by (auto simp: welcome_device_def bring_in_def publish_and_apply_def post_def change_view_def flow_Inl split: prod.splits
      dest: step_Inl)

lemma welcome_all_Inl:
  "for_each (welcome_device c) ds r = (Inl e, r') \<Longrightarrow> e = RequestFailed \<or> e = GroupRefused"
  by (induction ds arbitrary: r) (auto simp: flow_Inl dest: welcome_device_Inl)

lemma settle_in_Inr:
  assumes "settle_in c handle peer r = (result, r')"
  obtains w where "result = Inr ()" "prefix (rm_trace r) (rm_trace r')" "written (rm_trace r') w"
    "vw_accounts w = vw_accounts (rm_view r')" "vw_accounts (rm_view r') = vw_accounts (rm_view r) @ [peer]"
    "\<not> vw_key_shared (rm_view r')" "devices_of (rm_trust r') (ra_handle peer) = map dev_id (ra_devices peer)"
proof -
  define r2 where "r2 = r\<lparr>rm_trust := note_devices (ra_handle peer) (map dev_id (ra_devices peer)) (rm_trust r),
      rm_view := (rm_view r)\<lparr>vw_key_shared := False, vw_accounts := vw_accounts (rm_view r) @ [peer],
        vw_peers := mls_peers (cl_mls c) (vw_group (rm_view r)), vw_epoch := mls_epoch (cl_mls c) (vw_group (rm_view r))\<rparr>\<rparr>"
  have r2: "announce c Joined handle (log_act (Did (Write (rm_view r2))) r2) = (result, r')"
    using assms by (simp add: settle_in_def seq_def after_def change_view_def note_resolved_def refresh_view_def
        persist_def move_def r2_def)
  have same: "rm_trace r2 = rm_trace r" "vw_accounts (rm_view r2) = vw_accounts (rm_view r) @ [peer]"
      "\<not> vw_key_shared (rm_view r2)" "rm_trust r2 = note_devices (ra_handle peer) (map dev_id (ra_devices peer)) (rm_trust r)"
    by (simp_all add: r2_def)
  have "result = Inr ()" using r2 by (simp add: announce_def attempt_def)
  with that [of "rm_view r2"] written_announced [OF r2] same show thesis
    by (auto simp: aside_def devices_of_def note_devices_def)
qed

text \<open>An account is added whole or the caller is told. When \<open>addAccount\<close> returns, the account the
  directory names is not ours and was not in the conversation, which is administered, the server offered no
  unattested device for it, and every device it has was claimed, committed, published, merged and sent its
  Welcome, in that order; the account is listed, its devices are noted, the posting key will be shared again,
  and the state was written after the last merge. When it refuses, nothing was asked and nothing has changed.\<close>

theorem add_account_whole:
  assumes "add_account c handle r = (result, r')"
  shows "(result = Inr () \<longrightarrow> (\<exists>account peer w. cl_directory c handle = Some account \<and> account \<noteq> cl_account c \<and>
      account \<notin> ra_handle ` set (vw_accounts (rm_view r)) \<and> is_group c (rm_view r) \<and>
      cl_resolve c account = Some peer \<and> ra_rejected peer = [] \<and> ra_devices peer \<noteq> [] \<and>
      (\<forall>d\<in>set (ra_devices peer). welcomed c d (rm_trace r')) \<and>
      vw_accounts (rm_view r') = vw_accounts (rm_view r) @ [peer] \<and> \<not> vw_key_shared (rm_view r') \<and>
      devices_of (rm_trust r') (ra_handle peer) = map dev_id (ra_devices peer) \<and>
      written (rm_trace r') w \<and> vw_accounts w = vw_accounts (rm_view r'))) \<and>
    (\<forall>why a. result = Inl (NotAllowed why) \<or> result = Inl (Unresolved a) \<longrightarrow> r' = r)"
    (is "(_ \<longrightarrow> ?whole) \<and> _")
proof (intro conjI impI allI)
  assume "result = Inr ()"
  with assms obtain account peer r1 where guards: "cl_directory c handle = Some account" "account \<noteq> cl_account c"
      "account \<notin> ra_handle ` set (vw_accounts (rm_view r))" "is_group c (rm_view r)"
      "cl_resolve c account = Some peer" "ra_rejected peer = []" "ra_devices peer \<noteq> []"
    and loop: "for_each (welcome_device c) (ra_devices peer) r = (Inr (), r1)"
    and rest: "settle_in c handle peer r1 = (Inr (), r')"
    by (auto simp: add_account_def flow_Inr of_view_def resolved_def split: option.splits)
  from rest obtain w where w: "prefix (rm_trace r1) (rm_trace r')" "written (rm_trace r') w"
    "vw_accounts w = vw_accounts (rm_view r')" "vw_accounts (rm_view r') = vw_accounts (rm_view r1) @ [peer]"
    "\<not> vw_key_shared (rm_view r')" "devices_of (rm_trust r') (ra_handle peer) = map dev_id (ra_devices peer)"
    by (rule settle_in_Inr)
  have "\<forall>d\<in>set (ra_devices peer). welcomed c d (rm_trace r')"
    using welcome_all_Inr [OF loop] later(2) w(1) by blast
  moreover have "vw_accounts (rm_view r1) = vw_accounts (rm_view r)"
    using welcome_all_aside [OF loop] by (simp add: still_def aside_def)
  ultimately show ?whole using guards w
    by (intro exI [of _ account] exI [of _ peer] exI [of _ w]) simp
next
  fix why a assume "result = Inl (NotAllowed why) \<or> result = Inl (Unresolved a)"
  then show "r' = r"
    using assms
    by (auto simp: add_account_def flow_Inl flow_Inr of_view_def resolved_def split: option.splits
        dest: welcome_all_Inl elim: settle_in_Inr)
qed

text \<open>An addition that fails half way is not written down. The device let in before the failure is in the
  tree of every other member, our own group has moved to its epoch, and nothing of it reaches the disk nor the
  list of the accounts: \<open>addAccount\<close> persists only at its end, against the order \<open>setLifetime\<close> states.\<close>

theorem failed_add_unwritten:
  "(add_account c handle r = (Inl e, r') \<longrightarrow> disk r' = disk r \<and> aside r' = aside r) \<and>
   (let (result, s) = add_account amy (js ''bob'') (amys_room (take 4 all_accepted)) in
      result = Inl RequestFailed \<and> Applied \<in> set (rm_trace s) \<and> disk s = [] \<and>
      js ''bob'' \<in> fst ` set (tr_leaves (vw_group (rm_view s))) \<and>
      js ''bob'' \<notin> ra_handle ` set (vw_accounts (rm_view s)))"
    (is "_ \<and> ?example")
proof
  show "add_account c handle r = (Inl e, r') \<longrightarrow> disk r' = disk r \<and> aside r' = aside r"
  proof
    assume "add_account c handle r = (Inl e, r')"
    then show "disk r' = disk r \<and> aside r' = aside r"
      by (auto simp: add_account_def flow_Inl flow_Inr of_view_def resolved_def split: option.splits
          dest!: welcome_all_aside elim: settle_in_Inr simp: still_def)
  qed
  show ?example
    by (simp add: run_defs all_accepted_def of_kind_def) (simp add: js_def)
qed

text \<open>Amy adds Bob.\<close>


theorem add_account_whole_witness:
  "(let r' = snd (add_account amy (js ''bob'') (amys_room all_accepted)) in
     vw_accounts (rm_view r') = vw_accounts (rm_view (amys_room all_accepted)) @ [known_account (js ''bob'') bobs_devices] \<and>
     (\<forall>d\<in>set bobs_devices. welcomed amy d (rm_trace r')))"
proof -
  obtain r' where r: "add_account amy (js ''bob'') (amys_room all_accepted) = (Inr (), r')"
    using amy_adds_bob by (cases "add_account amy (js ''bob'') (amys_room all_accepted)") simp
  from add_account_whole [OF r] obtain account peer where
    "cl_directory amy (js ''bob'') = Some account" "cl_resolve amy account = Some peer"
    "\<forall>d\<in>set (ra_devices peer). welcomed amy d (rm_trace r')"
    "vw_accounts (rm_view r') = vw_accounts (rm_view (amys_room all_accepted)) @ [peer]" by blast
  then show ?thesis by (auto simp: r amy_fields Let_def)
qed

theorem failed_add_unwritten_witness:
  "(let (result, s) = add_account amy (js ''amy'') (amys_room []) in disk s = disk (amys_room []))"
proof -
  obtain e s where r: "add_account amy (js ''amy'') (amys_room []) = (Inl e, s)"
    by (simp add: run_defs)
  have "disk s = disk (amys_room [])" using failed_add_unwritten r by blast
  then show ?thesis by (simp only: r Let_def prod.case)
qed

subsection \<open>Removing an account\<close>

lemma say_accounts [simp]: "vw_accounts (rm_view (snd (say c body r))) = vw_accounts (rm_view r)"
  using say_frame(1) [of c body r] by (cases "say c body r") (simp add: aside_def)

lemma say_tree [simp]: "vw_group (rm_view (snd (say amy body r))) = vw_group (rm_view r)"
proof -
  obtain e es v where sent: "send_content (cl_mls amy) (cl_texts amy) (cl_device amy) (cl_now amy) (cl_now amy)
      (expect_seq (next_reply r)) body None (rm_view r) = (e, es, v)" by (rule prod_cases3)
  then have "vw_group v = vw_group (rm_view r)"
    by (auto simp: send_content_def Let_def amy_fields tree_mls_def split: sum.splits option.splits if_splits)
  then show ?thesis by (simp add: say_def sent)
qed

lemma remove_account_Inr:
  assumes "remove_account c handle r = (Inr (), r')"
  obtains account r1 w where "find (\<lambda>a. ra_handle a = handle) (vw_accounts (rm_view r)) = Some account"
    "for_each (\<lambda>d. evict_device c (dev_id d) (dev_mls_key d)) (ra_devices account) r = (Inr (), r1)"
    "prefix (rm_trace r1) (rm_trace r')" "written (rm_trace r') w" "vw_accounts w = vw_accounts (rm_view r')"
    "vw_accounts (rm_view r') = filter (\<lambda>a. ra_handle a \<noteq> handle) (vw_accounts (rm_view r1))"
proof -
  from assms obtain account r1 where account: "find (\<lambda>a. ra_handle a = handle) (vw_accounts (rm_view r)) = Some account"
    and loop: "for_each (\<lambda>d. evict_device c (dev_id d) (dev_mls_key d)) (ra_devices account) r = (Inr (), r1)"
    and rest: "seq (change_view (\<lambda>v. v\<lparr>vw_accounts := filter (\<lambda>a. ra_handle a \<noteq> handle) (vw_accounts v)\<rparr>))
      (seq (refresh_view c) (seq persist (announce c Removed handle))) r1 = (Inr (), r')"
    unfolding remove_account_def by (auto simp: after_Inr seq_Inr [of "for_each _ _"] basic_Inr of_view_def split: option.splits)
  define r2 where "r2 = r1\<lparr>rm_view := (rm_view r1)\<lparr>vw_accounts := filter (\<lambda>a. ra_handle a \<noteq> handle) (vw_accounts (rm_view r1)),
        vw_peers := mls_peers (cl_mls c) (vw_group (rm_view r1)), vw_epoch := mls_epoch (cl_mls c) (vw_group (rm_view r1))\<rparr>\<rparr>"
  have r2: "announce c Removed handle (log_act (Did (Write (rm_view r2))) r2) = (Inr (), r')"
    using rest by (simp add: seq_def after_def change_view_def refresh_view_def persist_def move_def r2_def)
  have "rm_trace r2 = rm_trace r1" "vw_accounts (rm_view r2) = filter (\<lambda>a. ra_handle a \<noteq> handle) (vw_accounts (rm_view r1))"
    by (simp_all add: r2_def)
  with that [OF account loop, of "rm_view r2"] written_announced [OF r2] show thesis by (simp add: aside_def)
qed

text \<open>When \<open>removeAccount\<close> returns, every device the client knew of the account was taken out by a commit
  published and merged, and the server told after it; the account is listed no more and the state is
  written after the last merge. The devices are those of the list last resolved, not the leaves of the tree: a
  device that joined since stays in the group, with its access, and the operation returns all the same.\<close>

theorem remove_account_known_devices:
  "(remove_account c handle r = (Inr (), r') \<longrightarrow> (\<exists>account w.
      find (\<lambda>a. ra_handle a = handle) (vw_accounts (rm_view r)) = Some account \<and>
      (\<forall>d\<in>set (ra_devices account). evicted c (dev_id d) (dev_mls_key d) (rm_trace r')) \<and>
      vw_accounts (rm_view r') = filter (\<lambda>a. ra_handle a \<noteq> handle) (vw_accounts (rm_view r)) \<and>
      written (rm_trace r') w \<and> vw_accounts w = vw_accounts (rm_view r'))) \<and>
   (let carol = js ''carol'';
        r = tree_room (js ''amy'') [leaf_of (dev_mls_key (phone_of carol 1)), leaf_of (dev_mls_key (phone_of carol 2))]
          [known_account carol [phone_of carol 1]] [Accepted 1, Done];
        (result, s) = remove_account amy carol r
    in result = Inr () \<and> vw_accounts (rm_view s) = [] \<and> carol \<in> fst ` set (tr_leaves (vw_group (rm_view s))))"
    (is "(?done \<longrightarrow> ?whole) \<and> ?example")
proof
  show "?done \<longrightarrow> ?whole"
  proof
    assume ?done
    then obtain account r1 w where account: "find (\<lambda>a. ra_handle a = handle) (vw_accounts (rm_view r)) = Some account"
      and loop: "for_each (\<lambda>d. evict_device c (dev_id d) (dev_mls_key d)) (ra_devices account) r = (Inr (), r1)"
      and tail: "prefix (rm_trace r1) (rm_trace r')" "written (rm_trace r') w" "vw_accounts w = vw_accounts (rm_view r')"
        "vw_accounts (rm_view r') = filter (\<lambda>a. ra_handle a \<noteq> handle) (vw_accounts (rm_view r1))"
      by (rule remove_account_Inr)
    have "vw_accounts (rm_view r1) = vw_accounts (rm_view r)"
      using evict_all_aside [OF loop] by (simp add: still_def aside_def)
    with account tail show ?whole
      using evict_all_Inr [OF loop] later(3) by fastforce
  qed
  show ?example
    by (simp add: run_defs remove_account_def evict_device_def enact_def prepare_def Let_def) (simp add: js_def)
qed

theorem remove_account_known_devices_witness:
  "(let r = tree_room (js ''amy'') [leaf_of (dev_mls_key (phone_of (js ''carol'') 1))]
          [known_account (js ''carol'') [phone_of (js ''carol'') 1]] [Accepted 1, Done]
    in vw_accounts (rm_view (snd (remove_account amy (js ''carol'') r))) = [])"
proof -
  define r where "r = tree_room (js ''amy'') [leaf_of (dev_mls_key (phone_of (js ''carol'') 1))]
    [known_account (js ''carol'') [phone_of (js ''carol'') 1]] [Accepted 1, Done]"
  have "fst (remove_account amy (js ''carol'') r) = Inr ()"
    by (simp add: r_def run_defs remove_account_def evict_device_def enact_def prepare_def)
  then obtain r' where r': "remove_account amy (js ''carol'') r = (Inr (), r')"
    by (cases "remove_account amy (js ''carol'') r") simp
  have "vw_accounts (rm_view r) = [known_account (js ''carol'') [phone_of (js ''carol'') 1]]"
    by (simp add: r_def tree_room_def Let_def)
  then have "vw_accounts (rm_view r') = []"
    using remove_account_known_devices [of amy "js ''carol''" r r'] r' by (auto simp: known_account_def)
  then show ?thesis unfolding Let_def r_def [symmetric] by (simp only: r' snd_conv)
qed

subsection \<open>Leaving\<close>

text \<open>What comes before the proposal: a roster that names another admin, when we were the admin.\<close>

definition handed_over :: "'g client \<Rightarrow> account \<Rightarrow> 'g act list \<Rightarrow> bool" where
  "handed_over c heir t \<longleftrightarrow> (\<exists>g ms p. fst (go_set_roles (cl_ops c) g heir ms) = Some p \<and> heir \<notin> set ms \<and> enacted p t)"

lemma written_last: "rm_trace r = t @ [Did (Write w)] \<Longrightarrow> written (rm_trace r) w"
  unfolding written_def by (intro exI [of _ t] exI [of _ "[]"]) simp

lemma find_SomeD: "find P xs = Some x \<Longrightarrow> P x \<and> x \<in> set xs"
  by (induction xs) (auto split: if_splits)

lemma set_roles_Inr:
  assumes "set_roles c admin ms r = (Inr u, r')"
  shows "\<exists>p. fst (go_set_roles (cl_ops c) (vw_group (rm_view r)) admin ms) = Some p \<and> enacted p (rm_trace r') \<and>
    written (rm_trace r') (rm_view r') \<and> aside r' = aside r"
proof -
  from assms obtain tree r1 where e: "enact c (\<lambda>g. go_set_roles (cl_ops c) g admin ms) r = (Inr tree, r1)"
    and rest: "seq (refresh_view c) persist r1 = (Inr (), r')"
    by (auto simp: set_roles_def seq_Inr)
  from enact_Inr [OF e] obtain p n where "fst (go_set_roles (cl_ops c) (vw_group (rm_view r)) admin ms) = Some p"
    "rm_trace r1 = rm_trace r @ [Prepared p, Asked (PostEnvelope (Mls p)) (Accepted n), Applied]" by blast
  moreover from this(2) have "enacted p (rm_trace r1)" by (rule enacted_trace)
  moreover from rest have "rm_trace r' = rm_trace r1 @ [Did (Write (rm_view r'))]" "aside r' = aside r1"
    by (auto simp: flow_Inr refresh_view_def change_view_def persist_def aside_def)
  moreover have "still is_write r r1" by (rule keeps_run [OF enact_aside [OF apart_simps(1)] still_refl e])
  ultimately show ?thesis
    using later(1) [of p "rm_trace r1" "rm_trace r'"] written_last [of r' "rm_trace r1"] by (simp add: still_def)
qed

lemma successor_member:
  assumes "successor_of (listed_view v) ms me = Some heir"
  shows "heir \<noteq> me \<and> heir \<in> pr_name ` set (vw_peers v)"
proof -
  define members where "members = filter (\<lambda>n. n \<noteq> me) (map pr_name (vw_peers v))"
  have "(case find (\<lambda>n. n \<in> set ms) members of Some m \<Rightarrow> Some m
      | None \<Rightarrow> (case members of [] \<Rightarrow> None | m # _ \<Rightarrow> Some m)) = Some heir"
    using assms by (simp only: successor_of_def listed_view_def Let_def members_def listed.simps)
  then have "heir \<in> set members" by (auto split: option.splits list.splits dest: find_SomeD)
  then show ?thesis by (auto simp: members_def)
qed

text \<open>A group is never left without an admin. When \<open>requestLeave\<close> returns and we were the admin, a roster
  naming one of the other members of the tree was committed, published and merged before our proposal to leave
  was posted; the proposal is marked as ours and the state written after it. When nobody is left to
  take over, it refuses before asking anything.\<close>

theorem leave_hands_over:
  assumes "request_leave c r = (result, r')" and "roles_of c (rm_view r) = Some ro" and "ro_admin ro = cl_account c"
  shows "(result = Inr () \<longrightarrow> (\<exists>heir before proposal n. heir \<noteq> cl_account c \<and> heir \<in> pr_name ` set (vw_peers (rm_view r)) \<and>
      rm_trace r' = before @ [Asked (PostEnvelope (Mls proposal)) (Accepted n), Did (Write (rm_view r'))] \<and>
      n \<in> vw_mine (rm_view r') \<and> handed_over c heir before)) \<and>
    (result = Inl (NotAllowed LastMember) \<longrightarrow> r' = r)"
proof (intro conjI impI)
  assume "result = Inr ()"
  with assms obtain r1 r2 where over: "hand_over c ro r = (Inr (), r1)" and line: "announce c Left (cl_account c) r1 = (Inr (), r2)"
    and rest: "after (on_group (go_leave (cl_ops c))) (\<lambda>proposal. seq (post (Mls proposal)) persist) r2 = (Inr (), r')"
    by (auto simp: request_leave_def after_Inr seq_Inr of_view_def basic_Inr)
  from over obtain heir where heir: "successor_of (listed_view (rm_view r)) (ro_moderators ro) (cl_account c) = Some heir"
    and roles: "set_roles c heir (filter (\<lambda>m. m \<noteq> heir) (ro_moderators ro)) r = (Inr (), r1)"
    by (auto simp: hand_over_def flow_Inr of_view_def split: option.splits)
  from set_roles_Inr [OF roles] obtain p where
    "fst (go_set_roles (cl_ops c) (vw_group (rm_view r)) heir (filter (\<lambda>m. m \<noteq> heir) (ro_moderators ro))) = Some p"
    "enacted p (rm_trace r1)" by blast
  then have "handed_over c heir (rm_trace r1)"
    unfolding handed_over_def by (intro exI conjI) (assumption, simp, assumption)
  moreover have "prefix (rm_trace r1) (rm_trace r2)" by (rule grown [OF growth.touch_kept(4) line refl])
  ultimately have "handed_over c heir (rm_trace r2)" using later(1) by (fastforce simp: handed_over_def)
  with rest successor_member [OF heir] show "\<exists>heir before proposal n. heir \<noteq> cl_account c \<and>
      heir \<in> pr_name ` set (vw_peers (rm_view r)) \<and>
      rm_trace r' = before @ [Asked (PostEnvelope (Mls proposal)) (Accepted n), Did (Write (rm_view r'))] \<and>
      n \<in> vw_mine (rm_view r') \<and> handed_over c heir before"
    by (intro exI [of _ heir] exI [of _ "rm_trace r2"])
      (auto simp: flow_Inr on_group_Inr request_Inr post_def change_view_def persist_def)
next
  assume "result = Inl (NotAllowed LastMember)"
  then show "r' = r" using assms
    by (auto simp: request_leave_def hand_over_def set_roles_def enact_def prepare_def publish_and_apply_def post_def
        change_view_def persist_def refresh_view_def announce_def flow_Inl flow_Inr of_view_def split: option.splits
        dest: step_Inl)
qed

theorem leave_hands_over_witness:
  "(let r = tree_room (js ''amy'') [leaf_of (dev_mls_key (phone_of (js ''carol'') 1))] [] [Accepted 1, Accepted 2, Accepted 3];
        r' = snd (request_leave amy r)
    in \<exists>before heir proposal n. rm_trace r' =
         before @ [Asked (PostEnvelope (Mls proposal)) (Accepted n), Did (Write (rm_view r'))] \<and>
       handed_over amy heir before)"
proof -
  define r where "r = tree_room (js ''amy'') [leaf_of (dev_mls_key (phone_of (js ''carol'') 1))] []
    [Accepted 1, Accepted 2, Accepted 3]"
  have "fst (request_leave amy r) = Inr ()"
    by (simp add: r_def run_defs request_leave_def hand_over_def set_roles_def enact_def prepare_def listed_view_def
        successor_of_def say_def send_content_def encode_def Let_def)
      (simp add: js_def)
  then obtain r' where run: "request_leave amy r = (Inr (), r')" by (cases "request_leave amy r") simp
  have "roles_of amy (rm_view r) = Some \<lparr>ro_admin = js ''amy'', ro_moderators = []\<rparr>"
    by (simp add: r_def roles_of_def amy_fields tree_mls_def tree_room_def Let_def)
  then obtain heir before proposal n where
    "rm_trace r' = before @ [Asked (PostEnvelope (Mls proposal)) (Accepted n), Did (Write (rm_view r'))]"
    "handed_over amy heir before" using leave_hands_over [OF run] by (auto simp: amy_fields)
  then show ?thesis unfolding Let_def r_def [symmetric] run snd_conv by blast
qed

subsection \<open>The lifetime\<close>

lemma enact_Inl:
  assumes "enact c f r = (Inl e, r')"
  shows "\<exists>t. rm_trace r' = rm_trace r @ t \<and> Applied \<notin> set t \<and> (\<forall>w. Did (Write w) \<notin> set t)" and "rm_owed r' = rm_owed r"
proof -
  show "rm_owed r' = rm_owed r"
    using keeps_run [OF enact_aside [OF apart_simps(1)] still_refl assms] by (simp add: still_def aside_def)
  have group: "rm_trace r2 = rm_trace r1" if "on_group h r1 = (Inl e, r2)" for h :: "'a \<Rightarrow> bytes option \<times> 'a" and r1 r2
    using that by (auto simp: on_group_def split: prod.splits option.splits)
  have asked: "rm_trace r2 = rm_trace r1 @ [Asked q (next_reply r1)]" if "request q expect_seq r1 = (Inl e, r2)" for q r1 r2
    using that by (auto simp: request_def Let_def split: option.splits)
  from assms show "\<exists>t. rm_trace r' = rm_trace r @ t \<and> Applied \<notin> set t \<and> (\<forall>w. Did (Write w) \<notin> set t)"
    by (auto simp: enact_def after_Inl prepare_def publish_and_apply_def post_def change_view_def flow_Inl flow_Inr
        request_Inr on_group_Inr dest!: group asked)
qed

lemma erase_archive_run:
  assumes "erase_archive r = (x, r')"
  shows "rm_trace r' = rm_trace r @ [Asked EraseArchive (next_reply r)] \<and>
    (if next_reply r = Done then x = Inr () \<and> rm_owed r' = rm_owed r - {vw_key (rm_view r)}
     else x = Inl RequestFailed \<and> rm_owed r' = insert (vw_key (rm_view r)) (rm_owed r))"
  using assms
  by (cases "next_reply r") (auto simp: erase_archive_def seq_def after_def move_def request_def next_reply_def Let_def)

lemma lifetime_tail:
  assumes "seq (provided (seconds > 0) erase_archive) (say c (Expiry seconds)) r = (result, r')"
  shows "\<exists>rest. rm_trace r' = rm_trace r @ rest \<and>
    (if seconds > 0
     then (\<exists>a. Asked EraseArchive a \<in> set rest \<and> rm_owed r' = (if a = Done then rm_owed r - {vw_key (rm_view r)}
            else insert (vw_key (rm_view r)) (rm_owed r)) \<and> (a \<noteq> Done \<longrightarrow> result = Inl RequestFailed))
     else rm_owed r' = rm_owed r)"
proof (cases "seconds > 0")
  case True
  obtain y r1 where r1: "erase_archive r = (y, r1)" by (rule prod.exhaust)
  show ?thesis
  proof (cases "next_reply r = Done")
    case False
    then show ?thesis using assms r1 True erase_archive_run [OF r1] by (auto simp: seq_def after_def provided_def)
  next
    case erased: True
    then have "say c (Expiry seconds) r1 = (result, r')"
      using assms r1 True erase_archive_run [OF r1] by (simp add: seq_def after_def provided_def)
    from say_frame [OF this] True erased erase_archive_run [OF r1] show ?thesis by (fastforce simp: aside_def)
  qed
next
  case False
  then have "say c (Expiry seconds) r = (result, r')"
    using assms by (simp add: seq_def after_def provided_def give_def)
  from say_frame [OF this] False show ?thesis by (fastforce simp: aside_def)
qed

text \<open>A lifetime that was set is on the disk before anything else can fail, and the archive it condemns is
  owed until the server has erased it. If the commit was merged, the state with its epoch was written at
  once; if the lifetime is not zero the erasure was asked, and the debt remains exactly when the server
  did not answer, whatever became of the call. If it was not merged, nothing was written and nothing is owed.\<close>

theorem lifetime_written_and_owed:
  assumes "set_lifetime c seconds r = (result, r')" and "rm_trace r' = rm_trace r @ t"
  shows "if Applied \<in> set t
    then \<exists>before w rest. t = before @ [Applied, Did (Write w)] @ rest \<and> vw_epoch w = mls_epoch (cl_mls c) (vw_group w) \<and>
      (if seconds > 0
       then (\<exists>a. Asked EraseArchive a \<in> set rest \<and> rm_owed r' = (if a = Done then rm_owed r - {vw_key (rm_view r)}
              else insert (vw_key (rm_view r)) (rm_owed r)) \<and> (a \<noteq> Done \<longrightarrow> result = Inl RequestFailed))
       else rm_owed r' = rm_owed r)
    else result \<noteq> Inr () \<and> rm_owed r' = rm_owed r \<and> (\<forall>w. Did (Write w) \<notin> set t)"
    (is "if ?merged then ?kept else _")
proof -
  obtain x r1 where e: "enact c (\<lambda>g. go_set_lifetime (cl_ops c) g seconds) r = (x, r1)" by (rule prod.exhaust)
  show ?thesis
  proof (cases x)
    case (Inl err)
    with assms(1) e have "r' = r1" "result = Inl err" by (auto simp: set_lifetime_def seq_def after_def)
    with enact_Inl [OF e [unfolded Inl]] assms(2) show ?thesis by auto
  next
    case (Inr tree)
    from enact_Inr [OF e [unfolded Inr]] obtain p n where
      t1: "rm_trace r1 = rm_trace r @ [Prepared p, Asked (PostEnvelope (Mls p)) (Accepted n), Applied]" by blast
    have still: "still is_write r r1" by (rule keeps_run [OF enact_aside [OF apart_simps(1)] still_refl e])
    define w where "w = (rm_view r1)\<lparr>vw_peers := mls_peers (cl_mls c) (vw_group (rm_view r1)),
      vw_epoch := mls_epoch (cl_mls c) (vw_group (rm_view r1))\<rparr>"
    define r2 where "r2 = log_act (Did (Write w)) (r1\<lparr>rm_view := w\<rparr>)"
    have rest: "seq (provided (seconds > 0) erase_archive) (say c (Expiry seconds)) r2 = (result, r')"
      using assms(1) e by (simp add: set_lifetime_def seq_def after_def Inr refresh_view_def change_view_def persist_def
          move_def r2_def w_def)
    have r2: "rm_trace r2 = rm_trace r @ [Prepared p, Asked (PostEnvelope (Mls p)) (Accepted n), Applied, Did (Write w)]"
      "rm_owed r2 = rm_owed r" "vw_key (rm_view r2) = vw_key (rm_view r)" "vw_epoch w = mls_epoch (cl_mls c) (vw_group w)"
      using still by (simp_all add: r2_def t1 w_def still_def aside_def)
    from lifetime_tail [OF rest]
    obtain rest where rest: "rm_trace r' = rm_trace r2 @ rest" "if seconds > 0
       then (\<exists>a. Asked EraseArchive a \<in> set rest \<and> rm_owed r' = (if a = Done then rm_owed r2 - {vw_key (rm_view r2)}
              else insert (vw_key (rm_view r2)) (rm_owed r2)) \<and> (a \<noteq> Done \<longrightarrow> result = Inl RequestFailed))
       else rm_owed r' = rm_owed r2" by blast
    have t: "t = [Prepared p, Asked (PostEnvelope (Mls p)) (Accepted n)] @ [Applied, Did (Write w)] @ rest"
      using rest(1) assms(2) r2(1) by simp
    then have ?merged by simp
    moreover have ?kept
      by (intro exI [of _ "[Prepared p, Asked (PostEnvelope (Mls p)) (Accepted n)]"] exI [of _ w] exI [of _ rest]
          conjI t r2(4)) (use rest(2) in \<open>simp only: r2(2,3)\<close>)
    ultimately show ?thesis by (simp only: if_True)
  qed
qed

theorem lifetime_written_and_owed_witness:
  "(let r = amys_room [Accepted 1, Refusal]; r' = snd (set_lifetime amy 60 r) in
     js ''room'' \<in> rm_owed r' \<and> (\<exists>w. Did (Write w) \<in> set (rm_trace r')))"
proof -
  define r where "r = amys_room [Accepted 1, Refusal]"
  have "fst (set_lifetime amy 60 r) = Inl RequestFailed \<and> Applied \<in> set (rm_trace (snd (set_lifetime amy 60 r)))"
    by (simp add: r_def run_defs set_lifetime_def enact_def prepare_def erase_archive_def provided_def)
  then obtain r' where r': "set_lifetime amy 60 r = (Inl RequestFailed, r')" "Applied \<in> set (rm_trace r')"
    by (cases "set_lifetime amy 60 r") simp
  have base: "rm_trace r' = rm_trace r @ rm_trace r'" "vw_key (rm_view r) = js ''room''" "rm_owed r = {}"
    by (simp_all add: r_def amys_room_def tree_room_def Let_def)
  have "js ''room'' \<in> rm_owed r'"
    by (simp add: run_defs set_lifetime_def enact_def prepare_def erase_archive_def provided_def r_def
        flip: r'(1) [THEN arg_cong [where f = snd], unfolded snd_conv])
  moreover have "\<exists>w. Did (Write w) \<in> set (rm_trace r')"
    using lifetime_written_and_owed [OF r'(1) base(1)] r'(2) by fastforce
  ultimately show ?thesis unfolding r_def [symmetric] Let_def r'(1) snd_conv by blast
qed

subsection \<open>Missing devices\<close>

lemma seq_give: "seq (give u) m = m"
  by (simp add: seq_def after_def give_def)

lemma for_each_filter: "for_each (\<lambda>x. if P x then give () else f x) xs = for_each f (filter (\<lambda>x. \<not> P x) xs)"
  by (induction xs) (simp_all add: seq_give)

lemma welcome_device_claims:
  assumes "welcome_device c d r = (x, r')"
  shows "\<exists>a. of_kind is_claim r' = of_kind is_claim r @ [Asked (ClaimPackage (dev_id d)) a]" and "aside r' = aside r"
proof -
  obtain y r1 where y: "request (ClaimPackage (dev_id d)) expect_package r = (y, r1)" by (rule prod.exhaust)
  then have r1: "of_kind is_claim r1 = of_kind is_claim r @ [Asked (ClaimPackage (dev_id d)) (next_reply r)]" "aside r1 = aside r"
    by (auto simp: request_def Let_def aside_def of_kind_def log_act_def split: option.splits)
  have "still is_claim r1 r'"
  proof (cases y)
    case (Inr package)
    with assms y have "bring_in c d package r1 = (x, r')" by (simp add: welcome_device_def after_def)
    then show ?thesis by (rule keeps_run [OF bring_in_aside [OF apart_simps(2)] still_refl])
  qed (use assms y in \<open>simp add: welcome_device_def after_def still_refl\<close>)
  with r1 show "\<exists>a. of_kind is_claim r' = of_kind is_claim r @ [Asked (ClaimPackage (dev_id d)) a]" "aside r' = aside r"
    by (auto simp: still_def)
qed

fun claimed_device :: "'g act \<Rightarrow> jsstr" where
  "claimed_device (Asked (ClaimPackage d) a) = d"
| "claimed_device _ = []"

lemma attempt_all_claims:
  assumes "for_each (\<lambda>d. attempt (welcome_device c d)) ds r = (x, r')"
  shows "x = Inr () \<and> aside r' = aside r \<and>
    map claimed_device (of_kind is_claim r') = map claimed_device (of_kind is_claim r) @ map dev_id ds"
  using assms
proof (induction ds arbitrary: r)
  case (Cons d ds)
  obtain y r1 where y: "welcome_device c d r = (y, r1)" by (rule prod.exhaust)
  with Cons.prems have "for_each (\<lambda>d. attempt (welcome_device c d)) ds r1 = (x, r')"
    by (simp add: seq_def after_def attempt_def)
  from Cons.IH [OF this] welcome_device_claims [OF y] show ?case by auto
qed (simp add: give_def)

definition absent_devices :: "'g client \<Rightarrow> 'g view \<Rightarrow> device list \<Rightarrow> device list" where
  "absent_devices c v ds =
     filter (\<lambda>d. go_fingerprint (cl_ops c) (dev_mls_key d) \<notin> pr_fingerprint ` set (vw_peers v)) ds"

lemma add_missing_run:
  "add_missing_devices c ds r = for_each (\<lambda>d. attempt (welcome_device c d)) (absent_devices c (rm_view r) ds) r"
  by (simp add: add_missing_devices_def after_def of_view_def look_def for_each_filter absent_devices_def)

text \<open>Every poll repairs what is missing and nothing else. \<open>addMissingDevices\<close> never fails; it claims one
  package for each device whose key is not in the tree, in order, whatever became of the ones before, and none
  for a device that is there; with nothing missing, nothing is asked and nothing changes.\<close>

theorem missing_devices_tried:
  "(case add_missing_devices c ds r of (result, r') \<Rightarrow> result = Inr () \<and> aside r' = aside r \<and>
      map claimed_device (of_kind is_claim r') =
        map claimed_device (of_kind is_claim r) @ map dev_id (absent_devices c (rm_view r) ds)) \<and>
    (absent_devices c (rm_view r) ds = [] \<longrightarrow> add_missing_devices c ds r = (Inr (), r))"
proof -
  let ?absent = "absent_devices c (rm_view r) ds"
  obtain x r' where r': "for_each (\<lambda>d. attempt (welcome_device c d)) ?absent r = (x, r')" by (rule prod.exhaust)
  show ?thesis using attempt_all_claims [OF r'] r' by (auto simp: add_missing_run give_def)
qed

theorem missing_devices_tried_witness:
  "add_missing_devices amy [phone_of (js ''carol'') 1] (amys_room []) = (Inr (), amys_room [])"
proof -
  have "absent_devices amy (rm_view (amys_room [])) [phone_of (js ''carol'') 1] = []"
    by (simp add: absent_devices_def run_defs)
  then show ?thesis using missing_devices_tried by blast
qed

text \<open>Only \<open>addAccount\<close> clears the flag, so a device of ours that the poll brings in is never given the posting
  key in the session that shared it: after the repair there is nothing left to share.\<close>

lemma repaired_device_keyless:
  assumes "vw_key_shared (rm_view r)"
  shows "seq (propagate_in c others) (share_posting_key c) r = propagate_in c others r"
proof -
  obtain x r1 where run: "for_each (\<lambda>d. attempt (welcome_device c d)) (absent_devices c (rm_view r) others) r = (x, r1)"
    by (rule prod.exhaust)
  from attempt_all_claims [OF this] assms have r1: "add_missing_devices c others r = (Inr (), r1)"
    and "vw_key_shared (rm_view r1)"
    by (simp_all add: aside_def add_missing_run run)
  then have "share_posting_key c (snd (refresh_view c r1)) = (Inr (), snd (refresh_view c r1))"
    by (auto simp: share_posting_key_def refresh_view_def change_view_def after_def of_view_def look_def give_def move_def
        split: option.splits)
  with r1 show ?thesis
    by (simp add: propagate_in_def seq_def after_def refresh_view_def change_view_def move_def)
qed

subsection \<open>A publication that fails\<close>

text \<open>What OpenMLS documents of a group with a pending commit: it refuses to prepare another, and sending or
  preparing anything else leaves the pending commit where it is. Only merging it, or the commit of another
  member, clears it, and the client calls nothing that drops it.\<close>

definition one_pending :: "'g client \<Rightarrow> ('g \<Rightarrow> bool) \<Rightarrow> bool" where
  "one_pending c stuck \<longleftrightarrow>
     (\<forall>f g x g'. commit_of c f \<and> f g = (x, g') \<longrightarrow> (stuck g \<longrightarrow> x = None \<and> stuck g') \<and> (x \<noteq> None \<longrightarrow> stuck g')) \<and>
     (\<forall>g p x g'. go_invite (cl_ops c) g p = (x, g') \<longrightarrow> (stuck g \<longrightarrow> x = None \<and> stuck g') \<and> (x \<noteq> None \<longrightarrow> stuck g'))"

definition jammed :: "('g \<Rightarrow> bool) \<Rightarrow> 'g room \<Rightarrow> bool" where
  "jammed stuck r \<longleftrightarrow> stuck (vw_group (rm_view r))"

lemma one_pendingD:
  assumes "one_pending c stuck"
  shows "commit_of c f \<Longrightarrow> f g = (x, g') \<Longrightarrow> (stuck g \<longrightarrow> x = None \<and> stuck g') \<and> (x \<noteq> None \<longrightarrow> stuck g')"
    and "go_invite (cl_ops c) g p = (y, g') \<Longrightarrow> (stuck g \<longrightarrow> y = None \<and> stuck g') \<and> (y \<noteq> None \<longrightarrow> stuck g')"
  using assms unfolding one_pending_def by blast+

lemma enact_fails_jammed:
  assumes "one_pending c stuck" "commit_of c f" "enact c f r = (Inl RequestFailed, r')"
  shows "jammed stuck r'"
proof -
  have on: "jammed stuck r2" if "on_group f r1 = (Inr p, r2)" for r1 p r2
    using that one_pendingD(1) [OF assms(1,2)] by (auto simp: on_group_Inr jammed_def)
  have group: "e = GroupRefused" if "on_group h r1 = (Inl e, r2)" for h :: "'a \<Rightarrow> bytes option \<times> 'a" and r1 r2 e
    using that by (auto dest: step_Inl)
  have asked: "jammed stuck r2 \<longleftrightarrow> jammed stuck r1" if "request q expect_seq r1 = (x, r2)" for q r1 x r2
    using that by (auto simp: request_def Let_def jammed_def split: option.splits)
  have logged: "jammed stuck (log_act a r1) \<longleftrightarrow> jammed stuck r1" for a r1 by (simp add: jammed_def)
  from assms(3) show ?thesis
    by (auto simp: enact_def prepare_def publish_and_apply_def post_def change_view_def flow_Inl flow_Inr
        dest!: on group asked simp: logged)
qed


lemma tree_one_pending: "one_pending amy (\<lambda>g. tr_pending g \<noteq> None)"
  by (auto simp: one_pending_def commit_of_def amy_fields tree_ops_def tree_pend_def split: if_splits option.splits prod.splits)


end
