(* ===== verification/Sweep.thy ===== *)
theory Sweep
  imports Members
begin

text \<open>
  \<open>pollOnce\<close> of \<open>session.ts\<close> from end to end: the sweep of what has expired, the key packages, the groups the
  server has added us to, our own devices, the revocations, the conversations left empty, what is announced
  once, then the turn of every conversation.
\<close>

subsection \<open>The session as the poll sees it\<close>

record 'g house =
  ho_session :: "'g session"
  ho_trust :: trust_store
  ho_replies :: "reply list"
  ho_trace :: "'g act list"

type_synonym 'g chore = "('g house, room_error, unit) flow"

abbreviation views_of :: "'g house \<Rightarrow> (jsstr \<times> 'g view) list" where
  "views_of h \<equiv> sx_views (ho_session h)"

definition put_views :: "(jsstr \<times> 'g view) list \<Rightarrow> 'g house \<Rightarrow> 'g house" where
  "put_views vs h = h\<lparr>ho_session := (ho_session h)\<lparr>sx_views := vs\<rparr>\<rparr>"

definition room_of :: "'g view \<Rightarrow> 'g house \<Rightarrow> 'g room" where
  "room_of v h = \<lparr>rm_view = v, rm_trust = ho_trust h, rm_owed = sx_drops_owed (ho_session h),
     rm_replies = ho_replies h, rm_trace = ho_trace h\<rparr>"

definition leave_room :: "jsstr \<Rightarrow> 'g room \<Rightarrow> 'g house \<Rightarrow> 'g house" where
  "leave_room k r h = h\<lparr>ho_session := (ho_session h)\<lparr>sx_views := AList.update k (rm_view r) (views_of h),
       sx_drops_owed := rm_owed r\<rparr>,
     ho_trust := rm_trust r, ho_replies := rm_replies r, ho_trace := rm_trace r\<rparr>"

text \<open>A step in the room of one conversation; the loops over \<open>conversations.values()\<close>.\<close>

definition in_room :: "('g, unit) step \<Rightarrow> jsstr \<Rightarrow> 'g chore" where
  "in_room m k h =
     (case map_of (views_of h) k of
        None \<Rightarrow> (Inr (), h)
      | Some v \<Rightarrow> (case m (room_of v h) of (x, r) \<Rightarrow> (x, leave_room k r h)))"

definition every_room :: "('g, unit) step \<Rightarrow> 'g chore" where
  "every_room m = after (look (\<lambda>h. map fst (views_of h))) (for_each (in_room m))"

text \<open>\<open>persist\<close> writes the whole session: every conversation reaches the disk.\<close>

definition persist_all :: "'g chore" where
  "persist_all = move (\<lambda>h. h\<lparr>ho_trace := ho_trace h @ map (\<lambda>(k, v). Did (Write v)) (views_of h)\<rparr>)"

text \<open>A request of the session itself.\<close>

definition ask :: "request \<Rightarrow> 'g chore" where
  "ask q h = (let a = (case ho_replies h of [] \<Rightarrow> Refusal | a # _ \<Rightarrow> a) in
     (if a = Done then Inr () else Inl RequestFailed,
      h\<lparr>ho_replies := drop 1 (ho_replies h), ho_trace := ho_trace h @ [Asked q a]\<rparr>))"

subsection \<open>The chores\<close>

text \<open>What the server answers to the listing of groups, to the fetch of a group, to the count of key packages,
  and what each conversation's turn meets.\<close>

record 'g poll_answers =
  pl_stock :: "nat option"
  pl_groups :: "jsstr list option"
  pl_fetch :: "jsstr \<Rightarrow> (nat \<times> bytes) list option"
  pl_join :: "bytes \<Rightarrow> bytes \<Rightarrow> 'g option"
  pl_turn :: "jsstr \<Rightarrow> turn"
  pl_seen :: "gossip_head option"
  pl_settings :: "send_error + bytes"

text \<open>\<open>replenishKeyPackagesIfLow\<close>: how many to publish.\<close>

definition packages_due :: "nat \<Rightarrow> nat" where
  "packages_due remaining = (if remaining \<le> 3 then 10 - remaining else 0)"

definition replenish_packages :: "'g poll_answers \<Rightarrow> 'g chore" where
  "replenish_packages answers =
     (case pl_stock answers of
        None \<Rightarrow> throw RequestFailed
      | Some remaining \<Rightarrow> if packages_due remaining = 0 then give () else ask (PublishPackages (packages_due remaining)))"

definition fresh_view :: "'g client \<Rightarrow> jsstr \<Rightarrow> 'g \<Rightarrow> nat \<Rightarrow> 'g view" where
  "fresh_view c key g cursor = \<lparr>vw_key = key, vw_group = g, vw_messages = [], vw_peers = mls_peers (cl_mls c) g,
     vw_accounts = [], vw_epoch = mls_epoch (cl_mls c) g, vw_cursor = cursor, vw_gossiped = False,
     vw_posting_key = None, vw_key_shared = False, vw_profile_epoch = None, vw_mine = {}, vw_receipts = Map.empty,
     vw_content_cursor = 0, vw_read_cursor = 0, vw_stale = False, vw_typing = [], vw_typing_sent_at = None,
     vw_outbox = [], vw_revision = 0\<rparr>"

text \<open>The Welcome that opens, among the rows of a group: the first one the client can join from.\<close>

fun welcome_for :: "(bytes \<Rightarrow> bytes \<Rightarrow> 'g option) \<Rightarrow> (nat \<times> bytes) list \<Rightarrow> (nat \<times> 'g) option" where
  "welcome_for join [] = None"
| "welcome_for join ((n, payload) # rows) =
     (case decode_envelope payload of
        Inr (Welcome w tree) \<Rightarrow> (case join w tree of Some g \<Rightarrow> Some (n, g) | None \<Rightarrow> welcome_for join rows)
      | _ \<Rightarrow> welcome_for join rows)"

definition discover_group :: "'g client \<Rightarrow> 'g poll_answers \<Rightarrow> jsstr \<Rightarrow> 'g chore" where
  "discover_group c answers hex h =
     (if map_of (views_of h) hex \<noteq> None then (Inr (), h)
      else case pl_fetch answers hex of
        None \<Rightarrow> (Inl RequestFailed, h)
      | Some rows \<Rightarrow>
          (case welcome_for (pl_join answers) rows of
             None \<Rightarrow> (Inr (), h)
           | Some (n, g) \<Rightarrow> (Inr (), put_views (views_of h @ [(hex, fresh_view c hex g n)]) h)))"

definition discover_conversations :: "'g client \<Rightarrow> 'g poll_answers \<Rightarrow> 'g chore" where
  "discover_conversations c answers =
     (case pl_groups answers of None \<Rightarrow> throw RequestFailed | Some hexes \<Rightarrow> for_each (discover_group c answers) hexes)"

definition propagate_own_devices :: "'g client \<Rightarrow> 'g chore" where
  "propagate_own_devices c =
     after (look views_of) (\<lambda>vs.
       if vs = [] then give ()
       else case cl_resolve c (cl_account c) of
         None \<Rightarrow> throw (Unresolved (cl_account c))
       | Some mine \<Rightarrow>
           (let others = filter (\<lambda>d. dev_id d \<noteq> cl_device c) (ra_devices mine) in
            if others = [] then give ()
            else seq (every_room (propagate_in c others)) persist_all))"

definition reconcile_members :: "'g client \<Rightarrow> 'g chore" where
  "reconcile_members c =
     seq (every_room (case cl_resolve c (cl_account c) of
            None \<Rightarrow> throw (Unresolved (cl_account c)) | Some mine \<Rightarrow> reconcile_in c mine))
         persist_all"

text \<open>\<open>dropEmptyConversations\<close>: the request is a nicety whose failure is swallowed.\<close>

definition drop_if_empty :: "'g client \<Rightarrow> jsstr \<Rightarrow> 'g chore" where
  "drop_if_empty c k h =
     (case map_of (views_of h) k of
        None \<Rightarrow> (Inr (), h)
      | Some v \<Rightarrow>
          if vw_peers v \<noteq> [] then (Inr (), h)
          else (case in_room (attempt (request (DropMembers [cl_device c]) expect_done)) k h of
              (_, h') \<Rightarrow> (Inr (), put_views (AList.delete k (views_of h')) h')))"

definition drop_empty_conversations :: "'g client \<Rightarrow> 'g chore" where
  "drop_empty_conversations c =
     after (look views_of) (\<lambda>before.
     seq (for_each (drop_if_empty c) (map fst before))
    (after (look views_of) (\<lambda>now. provided (length now < length before) persist_all)))"

definition announcements :: "'g client \<Rightarrow> 'g poll_answers \<Rightarrow> jsstr \<Rightarrow> 'g chore" where
  "announcements c answers k =
     seq (attempt (in_room (gossip_in c (pl_seen answers)) k))
    (seq (attempt (in_room (share_posting_key c) k))
         (attempt (after (look ho_session) (\<lambda>s.
            in_room (announce_profile c (sx_handle s) (nm_own (sx_names s)) (pl_settings answers)) k))))"

definition take_turn :: "'g client \<Rightarrow> 'g poll_answers \<Rightarrow> jsstr \<Rightarrow> 'g chore" where
  "take_turn c answers k h =
     (case map_of (views_of h) k of
        None \<Rightarrow> (Inr (), h)
      | Some v \<Rightarrow>
          (case poll_view (cl_mls c) (cl_texts c) (cl_now c) (pl_turn answers k) (ho_session h, v) of
             None \<Rightarrow> (Inl RequestFailed, h)
           | Some (es, s, v') \<Rightarrow>
               (Inr (), h\<lparr>ho_session := s\<lparr>sx_views := AList.update k v' (sx_views s)\<rparr>, ho_trace := ho_trace h @ map Did es\<rparr>)))"

definition sweep_expired :: "'g client \<Rightarrow> 'g chore" where
  "sweep_expired c = move (\<lambda>h. h\<lparr>ho_session := snd (drop_expired (cl_now c) (ho_session h))\<rparr>)"

definition every_turn :: "'g client \<Rightarrow> 'g poll_answers \<Rightarrow> 'g chore" where
  "every_turn c answers = after (look (\<lambda>h. map fst (views_of h))) (for_each (take_turn c answers))"

definition poll_once :: "'g client \<Rightarrow> 'g poll_answers \<Rightarrow> 'g chore" where
  "poll_once c answers =
     seq (sweep_expired c)
    (seq (attempt (replenish_packages answers))
    (seq (discover_conversations c answers)
    (seq (attempt (propagate_own_devices c))
    (seq (attempt (reconcile_members c))
    (seq (drop_empty_conversations c)
    (seq (after (look (\<lambda>h. map fst (views_of h))) (for_each (announcements c answers)))
         (every_turn c answers)))))))"

subsection \<open>Nothing expired outlives a poll\<close>

text \<open>A thread that starts with \<open>base\<close> and holds nothing expired.\<close>

definition unexpired :: "int \<Rightarrow> message list \<Rightarrow> 'g view \<Rightarrow> bool" where
  "unexpired now base v \<longleftrightarrow> (\<forall>m\<in>set (vw_messages v). \<not> is_expired m now) \<and> prefix base (vw_messages v)"

definition fresh_room :: "int \<Rightarrow> message list \<Rightarrow> 'g room \<Rightarrow> bool" where
  "fresh_room now base r \<longleftrightarrow> unexpired now base (rm_view r)"

lemma fresh_frames:
  "keeps (fresh_room now base) (request q expect)" "keeps (fresh_room now base) (on_group f)"
  "(\<And>v. vw_messages (h v) = vw_messages v) \<Longrightarrow> keeps (fresh_room now base) (change_view h)"
  "(\<And>r. rm_view (g r) = rm_view r) \<Longrightarrow> keeps (fresh_room now base) (move g)"
proof -
  show "keeps (fresh_room now base) (request q expect)"
    unfolding keeps_def by (rule triple_request) (simp_all add: fresh_room_def unexpired_def)
  show "keeps (fresh_room now base) (on_group f)"
    unfolding keeps_def by (rule triple_on_group) (simp_all add: fresh_room_def unexpired_def)
  show "keeps (fresh_room now base) (change_view h)" if "\<And>v. vw_messages (h v) = vw_messages v"
    unfolding change_view_def by (rule keeps_move) (simp add: fresh_room_def unexpired_def that)
  show "keeps (fresh_room now base) (move g)" if "\<And>r. rm_view (g r) = rm_view r"
    by (rule keeps_move) (simp add: fresh_room_def unexpired_def that)
qed

lemma fresh_post: "keeps (fresh_room now base) (post e)"
  unfolding post_def by (intro keeps_after fresh_frames) simp

lemma fresh_publish: "keeps (fresh_room now base) (publish_and_apply c p)"
  unfolding publish_and_apply_def by (intro keeps_seq keeps_after keeps_basic fresh_post fresh_frames) simp

lemma say_fresh: "keeps (fresh_room (cl_now c) base) (say c body)"
proof (rule keepsI)
  fix r x r' assume fresh: "fresh_room (cl_now c) base r" and run: "say c body r = (x, r')"
  obtain e es v where sent: "send_content (cl_mls c) (cl_texts c) (cl_device c) (cl_now c) (cl_now c)
      (expect_seq (next_reply r)) body None (rm_view r) = (e, es, v)" by (rule prod_cases3)
  with run have r': "rm_view r' = v" by (auto simp: say_def)
  from sent fresh have "unexpired (cl_now c) base v"
    by (cases rule: send_content_cases)
      (auto simp: fresh_room_def unexpired_def sent_message_def is_expired_def expiry_of_def)
  then show "fresh_room (cl_now c) base r'" by (simp add: fresh_room_def r')
qed

interpretation freshness: room_kept c "fresh_room (cl_now c) base" for c base
proof unfold_locales
  show "keeps (fresh_room (cl_now c) base) (welcome_device c d)" for d
    unfolding welcome_device_def bring_in_def
    by (intro keeps_after fresh_frames)
      (auto split: prod.split intro!: keeps_seq keeps_after fresh_frames fresh_post fresh_publish)
  show "keeps (fresh_room (cl_now c) base) (enact c f)" for f
    unfolding enact_def prepare_def
    by (intro keeps_seq keeps_after keeps_basic fresh_frames fresh_publish) simp
  show "keeps (fresh_room (cl_now c) base) (persist :: ('a, unit) step)"
    unfolding persist_def by (rule fresh_frames) simp
qed (auto intro: say_fresh fresh_frames fresh_post)

text \<open>From one conversation to all of them.\<close>

definition all_views :: "(jsstr \<Rightarrow> 'g view \<Rightarrow> bool) \<Rightarrow> 'g house \<Rightarrow> bool" where
  "all_views P h \<longleftrightarrow> (\<forall>(k, v)\<in>set (views_of h). P k v)"

lemma all_viewsD: "all_views P h \<Longrightarrow> map_of (views_of h) k = Some v \<Longrightarrow> P k v"
  by (auto simp: all_views_def dest: map_of_SomeD)

lemma all_views_update:
  "all_views P h \<Longrightarrow> P k v \<Longrightarrow> views_of h' = AList.update k v (views_of h) \<Longrightarrow> all_views P h'"
  using set_alist_update [of k v "views_of h"] by (fastforce simp: all_views_def)

lemma in_room_all:
  assumes "keeps (\<lambda>r. P k (rm_view r)) m"
  shows "keeps (all_views P) (in_room m k)"
proof (rule keepsI)
  fix h x h' assume all: "all_views P h" and run: "in_room m k h = (x, h')"
  show "all_views P h'"
  proof (cases "map_of (views_of h) k")
    case (Some v)
    obtain y r where m: "m (room_of v h) = (y, r)" by (rule prod.exhaust)
    with run Some have "views_of h' = AList.update k (rm_view r) (views_of h)"
      by (auto simp: in_room_def leave_room_def)
    moreover have "P k (rm_view r)"
      using keeps_run [OF assms _ m] all_viewsD [OF all Some] by (simp add: room_of_def)
    ultimately show ?thesis using all_views_update all by blast
  qed (use run all in \<open>simp add: in_room_def\<close>)
qed

lemma every_room_all: "(\<And>k. keeps (\<lambda>r. P k (rm_view r)) m) \<Longrightarrow> keeps (all_views P) (every_room m)"
  unfolding every_room_def by (intro keeps_after keeps_basic keeps_for_each in_room_all)

lemma same_views: "(\<And>h. views_of (f h) = views_of h) \<Longrightarrow> keeps (all_views P) (move f)"
  by (rule keeps_move) (simp add: all_views_def)

lemma persist_all_views: "keeps (all_views P) persist_all"
  unfolding persist_all_def by (rule same_views) simp

definition has_keys :: "jsstr set \<Rightarrow> 'g house \<Rightarrow> bool" where
  "has_keys ks h \<longleftrightarrow> ks \<subseteq> fst ` set (views_of h)"

lemma discover_all:
  assumes "\<And>k g n. k \<notin> ks \<Longrightarrow> P k (fresh_view c k g n)"
  shows "keeps (\<lambda>h. all_views P h \<and> has_keys ks h) (discover_conversations c answers)"
proof -
  have "keeps (\<lambda>h. all_views P h \<and> has_keys ks h) (discover_group c answers hex)" for hex
  proof (rule keepsI)
    fix h x h' assume all: "all_views P h \<and> has_keys ks h" and run: "discover_group c answers hex h = (x, h')"
    have "hex \<notin> ks" if "map_of (views_of h) hex = None"
      using all that by (auto simp: has_keys_def map_of_eq_None_iff)
    with all run assms show "all_views P h' \<and> has_keys ks h'"
      by (auto simp: discover_group_def put_views_def all_views_def has_keys_def split: option.splits prod.splits if_splits)
  qed
  then show ?thesis unfolding discover_conversations_def by (intro keeps_option keeps_basic keeps_for_each)
qed

lemma drop_empty_all:
  assumes "\<And>k. keeps (\<lambda>r. P k (rm_view r)) (request (DropMembers [cl_device c]) expect_done)"
  shows "keeps (all_views P) (drop_empty_conversations c)"
proof -
  have "keeps (all_views P) (drop_if_empty c k)" for k
  proof (rule keepsI)
    fix h x h' assume all: "all_views P h" and run: "drop_if_empty c k h = (x, h')"
    obtain y h1 where h1: "in_room (attempt (request (DropMembers [cl_device c]) expect_done)) k h = (y, h1)"
      by (rule prod.exhaust)
    have "all_views P h1" by (rule keeps_run [OF in_room_all [OF keeps_attempt [OF assms]] all h1])
    then have "all_views P (put_views (AList.delete k (views_of h1)) h1)"
      by (auto simp: all_views_def put_views_def AList.delete_eq)
    with all run h1 show "all_views P h'" by (auto simp: drop_if_empty_def split: option.splits if_splits)
  qed
  then show ?thesis
    unfolding drop_empty_conversations_def
    by (intro keeps_after keeps_seq keeps_basic keeps_for_each keeps_provided persist_all_views)
qed

text \<open>A turn: names that change touch every view, and only their revision.\<close>

definition views_touched :: "'g session \<Rightarrow> 'g session \<Rightarrow> bool" where
  "views_touched s s' \<longleftrightarrow> (\<forall>(k, w)\<in>set (sx_views s'). \<exists>v. (k, v) \<in> set (sx_views s) \<and> touched v w)"

lemma views_touched_refl: "sx_views s' = sx_views s \<Longrightarrow> views_touched s s'"
  using touched_refl by (fastforce simp: views_touched_def)

lemma views_touched_trans: "views_touched s t \<Longrightarrow> views_touched t u \<Longrightarrow> views_touched s u"
  using touched_trans by (fastforce simp: views_touched_def)

lemma touched_touch: "touched v (touch v)"
  by (auto simp: touched_def touch_def)

lemma touch_all_touched: "views_touched s (touch_all (s\<lparr>sx_names := n\<rparr>))"
  using touched_touch by (fastforce simp: views_touched_def touch_all_def)

lemma take_news_views: "take_news x now n (s, v) = (es, s', v') \<Longrightarrow> views_touched s s'"
  by (cases n) (auto split: prod.splits if_splits intro: views_touched_refl touch_all_touched)

lemma take_all_views: "take_all x now ns (s, v) = (es, s', v') \<Longrightarrow> views_touched s s'"
proof (induction ns arbitrary: s v es s' v')
  case (Cons n ns)
  obtain es1 s1 v1 where n: "take_news x now n (s, v) = (es1, s1, v1)" by (rule prod_cases3)
  obtain es2 s2 v2 where ns: "take_all x now ns (s1, v1) = (es2, s2, v2)" by (rule prod_cases3)
  with Cons.prems n have "s' = s2" by simp
  with take_news_views [OF n] Cons.IH [OF ns] show ?case using views_touched_trans by blast
qed (simp add: views_touched_refl)

lemma hear_rows_views: "hear_rows m x now rows (s, v) = (es, s', v') \<Longrightarrow> views_touched s s'"
proof (induction rows arbitrary: s v es s' v')
  case (Cons row rows)
  obtain es1 s1 v1 where r: "hear_row m x now row (s, v) = (es1, s1, v1)" by (rule prod_cases3)
  obtain es2 s2 v2 where rs: "hear_rows m x now rows (s1, v1) = (es2, s2, v2)" by (rule prod_cases3)
  have "views_touched s s1"
    using r by (auto simp: hear_row_def Let_def views_touched_refl split: if_splits sum.splits prod.splits
        dest!: take_all_views)
  moreover have "s' = s2" using Cons.prems r rs by simp
  ultimately show ?case using Cons.IH [OF rs] views_touched_trans by blast
qed (simp add: views_touched_refl)

lemma acknowledge_messages:
  assumes "acknowledge m x me device rr now answers v = (r, es, v')"
  shows "vw_messages v' = vw_messages v"
proof -
  have one: "vw_messages u' = vw_messages u" if "announce_receipt m x me device now answer st n u = (r', es', u')"
    for answer st n u r' es' u'
  proof (cases "pending_receipt (vw_receipts u) me st n")
    case (Some k)
    then have "send_content m x device now now answer (Receipt st k) None
        (u\<lparr>vw_receipts := record_receipt (vw_receipts u) me st k\<rparr>) = (r', es', u')"
      using that by (simp add: announce_receipt_def)
    then show ?thesis by (cases rule: send_content_cases) auto
  qed (use that in \<open>simp add: announce_receipt_def\<close>)
  then show ?thesis using assms
    by (auto simp: acknowledge_def split: prod.splits option.splits if_splits dest!: one)
qed

lemma poll_view_unexpired:
  assumes "poll_view m x now t (s, v) = Some (es, s', v')" and "unexpired now base v"
  shows "unexpired now base v' \<and> views_touched s s'"
proof (cases "vw_stale v")
  case True
  with assms show ?thesis by (auto simp: poll_view_def views_touched_refl)
next
  case awake: False
  then obtain p where p: "tu_page t = Some p" using poll_writes_first [OF assms(1)] by auto
  show ?thesis
  proof (cases "vw_cursor v + 1 < pa_oldest p")
    case True
    with assms p awake show ?thesis by (auto simp: poll_view_def views_touched_refl unexpired_def)
  next
    case False
    then have "pa_oldest p \<le> vw_cursor v + 1" by simp
    with assms(1) awake p show ?thesis
    proof (cases rule: poll_view_cases)
      case (1 heard s1 v1 w erase owed r receipts u)
      have "unexpired now base v1" using hear_rows_frame [OF 1(1)] assms(2) by (fastforce simp: unexpired_def arrived_def prefix_def)
      moreover have "views_touched s s'" using hear_rows_views [OF 1(1)] by (simp add: 1(8) views_touched_def)
      ultimately show ?thesis using acknowledge_messages [OF 1(6)] 1(9) by (simp add: unexpired_def)
    qed
  qed
qed

lemma take_turn_all:
  assumes "\<And>k v n. P k v \<Longrightarrow> P k (v\<lparr>vw_revision := n\<rparr>)"
    and "\<And>k v s es s' v'. P k v \<Longrightarrow>
      poll_view (cl_mls c) (cl_texts c) (cl_now c) (pl_turn answers k) (s, v) = Some (es, s', v') \<Longrightarrow>
      P k v' \<and> views_touched s s'"
  shows "keeps (all_views P) (take_turn c answers k)"
proof (rule keepsI)
  fix h x h' assume all: "all_views P h" and run: "take_turn c answers k h = (x, h')"
  show "all_views P h'"
  proof (cases "map_of (views_of h) k")
    case (Some v)
    note known = Some
    show ?thesis
    proof (cases "poll_view (cl_mls c) (cl_texts c) (cl_now c) (pl_turn answers k) (ho_session h, v)")
      case (Some turned)
      obtain es s v' where turned: "turned = (es, s, v')" by (rule prod_cases3)
      from assms(2) [OF all_viewsD [OF all known]] Some turned have "P k v'" "views_touched (ho_session h) s" by auto
      moreover from this(2) have "\<forall>(j, w)\<in>set (sx_views s). P j w"
        using all assms(1) by (fastforce simp: views_touched_def touched_def all_views_def)
      moreover have "views_of h' = AList.update k v' (sx_views s)"
        using run known Some turned by (auto simp: take_turn_def)
      ultimately show ?thesis using set_alist_update [of k v' "sx_views s"] by (fastforce simp: all_views_def)
    qed (use run all known in \<open>simp add: take_turn_def\<close>)
  qed (use run all in \<open>simp add: take_turn_def\<close>)
qed

text \<open>The thread a conversation had, without what has expired.\<close>

definition kept_thread :: "int \<Rightarrow> 'g house \<Rightarrow> jsstr \<Rightarrow> message list" where
  "kept_thread now h k = (case map_of (views_of h) k of None \<Rightarrow> [] | Some v \<Rightarrow> prune (vw_messages v) now)"

definition swept :: "int \<Rightarrow> 'g view \<Rightarrow> 'g view" where
  "swept now v = (if length (prune (vw_messages v) now) \<noteq> length (vw_messages v)
     then touch (v\<lparr>vw_messages := prune (vw_messages v) now\<rparr>) else v)"

lemma swept_messages [simp]: "vw_messages (swept now v) = prune (vw_messages v) now"
proof (cases "length (prune (vw_messages v) now) = length (vw_messages v)")
  case True
  then have "prune (vw_messages v) now = vw_messages v"
    unfolding prune_def by (metis filter_True length_filter_less less_irrefl)
  then show ?thesis by (simp add: swept_def)
qed (simp add: swept_def)

lemma drop_expired_views:
  "sx_views (snd (drop_expired now s)) = map (\<lambda>(k, v). (k, swept now v)) (sx_views s)"
  by (simp add: drop_expired_def swept_def Let_def)

definition thread_ok :: "int \<Rightarrow> 'g house \<Rightarrow> jsstr \<Rightarrow> 'g view \<Rightarrow> bool" where
  "thread_ok now h k = unexpired now (kept_thread now h k)"

lemma sweep_threads:
  assumes "distinct (map fst (views_of h))"
  shows "all_views (thread_ok (cl_now c) h) (snd (sweep_expired c h))"
    and "has_keys (fst ` set (views_of h)) (snd (sweep_expired c h))"
proof -
  have vs: "views_of (snd (sweep_expired c h)) = map (\<lambda>(k, v). (k, swept (cl_now c) v)) (views_of h)"
    by (simp add: sweep_expired_def move_def drop_expired_views)
  have "thread_ok (cl_now c) h k (swept (cl_now c) v)" if "(k, v) \<in> set (views_of h)" for k v
    using that assms by (auto simp: thread_ok_def unexpired_def kept_thread_def prune_def)
  then show "all_views (thread_ok (cl_now c) h) (snd (sweep_expired c h))"
    unfolding all_views_def vs by auto
  show "has_keys (fst ` set (views_of h)) (snd (sweep_expired c h))"
    unfolding has_keys_def vs by force
qed

lemma thread_chores:
  "keeps (all_views (thread_ok (cl_now c) h)) (propagate_own_devices c)"
  "keeps (all_views (thread_ok (cl_now c) h)) (reconcile_members c)"
  "keeps (all_views (thread_ok (cl_now c) h)) (drop_empty_conversations c)"
  "keeps (all_views (thread_ok (cl_now c) h)) (announcements c answers k)"
  "keeps (all_views (thread_ok (cl_now c) h)) (take_turn c answers k)"
proof -
  have room: "keeps (\<lambda>r. thread_ok (cl_now c) h k (rm_view r)) m"
    if "\<And>base. keeps (fresh_room (cl_now c) base) m" for k and m :: "('a, unit) step"
    using that [of "kept_thread (cl_now c) h k"] by (simp add: thread_ok_def fresh_room_def [abs_def])
  note op = freshness.perform_kept
  show "keeps (all_views (thread_ok (cl_now c) h)) (propagate_own_devices c)"
    unfolding propagate_own_devices_def Let_def
    using op [of c _ "PropagateIn _"]
    by (intro keeps_after keeps_seq keeps_option keeps_if keeps_basic every_room_all room persist_all_views) simp
  show "keeps (all_views (thread_ok (cl_now c) h)) (reconcile_members c)"
    unfolding reconcile_members_def using op [of c _ "ReconcileIn _"]
    by (intro keeps_seq every_room_all room keeps_option keeps_basic persist_all_views) simp
  show "keeps (all_views (thread_ok (cl_now c) h)) (drop_empty_conversations c)"
    by (intro drop_empty_all room fresh_frames)
  show "keeps (all_views (thread_ok (cl_now c) h)) (announcements c answers k)"
    unfolding announcements_def
    using op [of c _ "GossipIn _"] op [of c _ SharePostingKey] op [of c _ "AnnounceProfile _ _ _"]
    by (intro keeps_seq keeps_attempt keeps_after keeps_basic in_room_all room) simp_all
  show "keeps (all_views (thread_ok (cl_now c) h)) (take_turn c answers k)"
    by (rule take_turn_all) (auto simp: thread_ok_def unexpired_def dest: poll_view_unexpired [unfolded unexpired_def])
qed

text \<open>C15. What has expired is gone after a poll, whether or not the server answers. However the poll ends, no
  conversation of the session holds a message past its deadline, and no other message is lost: what each
  thread had and had not expired is still there, in its order, before what the poll added.\<close>

theorem poll_expires_offline:
  assumes "distinct (map fst (views_of h))" and "(k, v) \<in> set (views_of (snd (poll_once c answers h)))"
  shows "(\<forall>m\<in>set (vw_messages v). \<not> is_expired m (cl_now c)) \<and> prefix (kept_thread (cl_now c) h k) (vw_messages v)"
proof -
  define I where "I = (\<lambda>h'. all_views (thread_ok (cl_now c) h) h' \<and> has_keys (fst ` set (views_of h)) h')"
  define J where "J = all_views (thread_ok (cl_now c) h)"
  have "keeps I (attempt (replenish_packages answers))"
    unfolding I_def
    by (rule keepsI) (auto simp: attempt_def replenish_packages_def ask_def all_views_def has_keys_def Let_def throw_def
        give_def split: option.splits if_splits)
  moreover have "keeps I (discover_conversations c answers)"
    unfolding I_def
    by (rule discover_all) (auto simp: thread_ok_def unexpired_def kept_thread_def fresh_view_def
        split: option.splits dest!: map_of_SomeD intro: rev_image_eqI)
  ultimately have "keeps I (seq (attempt (replenish_packages answers)) (discover_conversations c answers))"
    by (rule keeps_seq)
  with sweep_threads [OF assms(1), of c]
  have found: "J (snd (seq (attempt (replenish_packages answers)) (discover_conversations c answers) (snd (sweep_expired c h))))"
    unfolding I_def J_def by (blast dest: keepsD)
  have rest: "keeps J (seq (attempt (propagate_own_devices c)) (seq (attempt (reconcile_members c))
      (seq (drop_empty_conversations c) (seq (after (look (\<lambda>h. map fst (views_of h))) (for_each (announcements c answers)))
        (every_turn c answers)))))"
    unfolding every_turn_def J_def by (intro flow_keeps thread_chores)
  have "J (snd (seq (seq (attempt (replenish_packages answers)) (discover_conversations c answers))
      (seq (attempt (propagate_own_devices c)) (seq (attempt (reconcile_members c))
      (seq (drop_empty_conversations c) (seq (after (look (\<lambda>h. map fst (views_of h))) (for_each (announcements c answers)))
        (every_turn c answers))))) (snd (sweep_expired c h))))"
    by (rule keeps_seq_from [of J, OF _ rest]) (rule found)
  then have "J (snd (poll_once c answers h))"
    by (simp only: poll_once_def seq_assoc sweep_expired_def seq_move snd_move)
  with assms(2) show ?thesis unfolding J_def by (auto simp: all_views_def thread_ok_def unexpired_def)
qed

theorem poll_expires_offline_witness:
  "(let old = \<lparr>ms_seq = 1, ms_sender = None, ms_mine = False, ms_sent_at = Some 1, ms_expires_at = Some 900,
          ms_content = Text []\<rparr>;
        v = rm_view (amys_room []);
        h = \<lparr>ho_session = (new_session (js ''amy'') (js ''phone''))\<lparr>sx_views := [(js ''room'', v\<lparr>vw_messages := [old]\<rparr>)]\<rparr>,
          ho_trust = rm_trust (amys_room []), ho_replies = [], ho_trace = []\<rparr>;
        offline = \<lparr>pl_stock = None, pl_groups = None, pl_fetch = \<lambda>_. None, pl_join = \<lambda>_ _. None,
          pl_turn = undefined, pl_seen = None, pl_settings = Inr []\<rparr>;
        h' = snd (poll_once amy offline h)
    in \<exists>w. views_of h' = [(js ''room'', w)] \<and> old \<notin> set (vw_messages w))"
proof -
  define old where "old = \<lparr>ms_seq = 1, ms_sender = None, ms_mine = False, ms_sent_at = Some 1, ms_expires_at = Some 900,
    ms_content = Text []\<rparr>"
  define h where "h = \<lparr>ho_session = (new_session (js ''amy'') (js ''phone''))\<lparr>sx_views :=
      [(js ''room'', (rm_view (amys_room []))\<lparr>vw_messages := [old]\<rparr>)]\<rparr>,
    ho_trust = rm_trust (amys_room []), ho_replies = [], ho_trace = []\<rparr>"
  define offline :: "tree poll_answers" where "offline = \<lparr>pl_stock = None, pl_groups = None, pl_fetch = \<lambda>_. None,
    pl_join = \<lambda>_ _. None, pl_turn = undefined, pl_seen = None, pl_settings = Inr []\<rparr>"
  have "map fst (views_of (snd (poll_once amy offline h))) = [js ''room'']"
    by (simp add: poll_once_def seq_def after_def sweep_expired_def move_def attempt_def replenish_packages_def
        discover_conversations_def throw_def offline_def drop_expired_views h_def)
  then obtain w where w: "views_of (snd (poll_once amy offline h)) = [(js ''room'', w)]"
    by (cases "views_of (snd (poll_once amy offline h))") auto
  have "is_expired old (cl_now amy)" by (simp add: old_def is_expired_def amy_fields)
  moreover have "\<forall>m\<in>set (vw_messages w). \<not> is_expired m (cl_now amy)"
    using poll_expires_offline [of h "js ''room''" w amy offline] w by (simp add: h_def)
  ultimately have "old \<notin> set (vw_messages w)" by blast
  with w show ?thesis unfolding Let_def old_def [symmetric] h_def [symmetric] offline_def [symmetric] by blast
qed

subsection \<open>Discovery\<close>

lemma welcome_for_Some:
  "welcome_for join rows = Some (n, g) \<Longrightarrow>
     \<exists>payload w tree. (n, payload) \<in> set rows \<and> decode_envelope payload = Inr (Welcome w tree) \<and> join w tree = Some g"
  by (induction join rows rule: welcome_for.induct) (fastforce split: sum.splits envelope.splits option.splits)+

definition discovered :: "'g client \<Rightarrow> 'g poll_answers \<Rightarrow> jsstr \<Rightarrow> 'g view \<Rightarrow> bool" where
  "discovered c answers k v \<longleftrightarrow> (\<exists>rows payload w tree g. pl_fetch answers k = Some rows \<and> (vw_cursor v, payload) \<in> set rows \<and>
     decode_envelope payload = Inr (Welcome w tree) \<and> pl_join answers w tree = Some g \<and> v = fresh_view c k g (vw_cursor v))"

lemma discover_group_cases:
  assumes "discover_group c answers hex h = (x, h')"
  obtains v where "x = Inr ()" "hex \<notin> fst ` set (views_of h)" "discovered c answers hex v"
      "h' = put_views (views_of h @ [(hex, v)]) h"
  | "h' = h" "x = Inr ()" "hex \<in> fst ` set (views_of h) \<or>
      (\<exists>rows. pl_fetch answers hex = Some rows \<and> welcome_for (pl_join answers) rows = None)"
  | "h' = h" "x = Inl RequestFailed" "pl_fetch answers hex = None"
proof (cases "map_of (views_of h) hex")
  case None
  show thesis
  proof (cases "pl_fetch answers hex")
    case fetched: (Some rows)
    show thesis
    proof (cases "welcome_for (pl_join answers) rows")
      case (Some p)
      obtain n g where p: "p = (n, g)" by (cases p)
      from welcome_for_Some [of "pl_join answers" rows n g] Some p have "discovered c answers hex (fresh_view c hex g n)"
        using fetched by (fastforce simp: discovered_def fresh_view_def)
      with that(1) [of "fresh_view c hex g n"] assms None fetched Some p show thesis
        by (simp add: discover_group_def map_of_eq_None_iff)
    qed (use that(2) assms None fetched in \<open>simp add: discover_group_def\<close>)
  qed (use that(3) assms None in \<open>simp add: discover_group_def\<close>)
next
  case (Some v)
  then have "hex \<in> fst ` set (views_of h)" by (metis domI dom_map_of_conv_image_fst)
  with that(2) assms Some show thesis by (simp add: discover_group_def)
qed

lemma discover_all_groups:
  assumes "for_each (discover_group c answers) hexes h = (x, h')"
  shows "\<exists>new. views_of h' = views_of h @ new \<and> (\<forall>(k, v)\<in>set new. k \<in> set hexes \<and> discovered c answers k v) \<and>
    distinct (map fst new) \<and> fst ` set new \<inter> fst ` set (views_of h) = {} \<and> ho_trace h' = ho_trace h \<and>
    (x = Inr () \<longrightarrow> (\<forall>k\<in>set hexes. k \<in> fst ` set (views_of h') \<or>
       (\<exists>rows. pl_fetch answers k = Some rows \<and> welcome_for (pl_join answers) rows = None)))"
  using assms
proof (induction hexes arbitrary: h)
  case (Cons hex hexes)
  obtain y h1 where y: "discover_group c answers hex h = (y, h1)" by (rule prod.exhaust)
  then show ?case
  proof (cases rule: discover_group_cases)
    case (1 v)
    then have "for_each (discover_group c answers) hexes h1 = (x, h')"
      using Cons.prems y by (simp add: seq_def after_def)
    note IH = Cons.IH [OF this]
    have h1: "views_of h1 = views_of h @ [(hex, v)]" "ho_trace h1 = ho_trace h" using 1(4) by (simp_all add: put_views_def)
    from IH obtain new where new: "views_of h' = views_of h1 @ new" "distinct (map fst new)" "ho_trace h' = ho_trace h1"
      "\<forall>(k, v)\<in>set new. k \<in> set hexes \<and> discovered c answers k v" "fst ` set new \<inter> fst ` set (views_of h1) = {}" by blast
    have last: "x = Inr () \<longrightarrow> (\<forall>k\<in>set hexes. k \<in> fst ` set (views_of h') \<or>
        (\<exists>rows. pl_fetch answers k = Some rows \<and> welcome_for (pl_join answers) rows = None))" using IH by blast
    show ?thesis
    proof (intro exI [of _ "(hex, v) # new"] conjI)
      show "distinct (map fst ((hex, v) # new))" using new(2,5) by (auto simp: h1)
      show "fst ` set ((hex, v) # new) \<inter> fst ` set (views_of h) = {}" using new(5) 1(2) by (auto simp: h1)
      show "x = Inr () \<longrightarrow> (\<forall>k\<in>set (hex # hexes). k \<in> fst ` set (views_of h') \<or>
          (\<exists>rows. pl_fetch answers k = Some rows \<and> welcome_for (pl_join answers) rows = None))"
        using last by (simp add: new(1) h1)
    qed (use new 1(3) in \<open>auto simp: h1\<close>)
  next
    case 2
    then have "for_each (discover_group c answers) hexes h = (x, h')"
      using Cons.prems y by (simp add: seq_def after_def)
    from Cons.IH [OF this] obtain new where new: "views_of h' = views_of h @ new"
      "\<forall>(k, v)\<in>set new. k \<in> set hexes \<and> discovered c answers k v" "distinct (map fst new)"
      "fst ` set new \<inter> fst ` set (views_of h) = {}" "ho_trace h' = ho_trace h"
      and last: "x = Inr () \<longrightarrow> (\<forall>k\<in>set hexes. k \<in> fst ` set (views_of h') \<or>
        (\<exists>rows. pl_fetch answers k = Some rows \<and> welcome_for (pl_join answers) rows = None))" by blast
    have "hex \<in> fst ` set (views_of h') \<or> (\<exists>rows. pl_fetch answers hex = Some rows \<and> welcome_for (pl_join answers) rows = None)"
      using 2(3) by (auto simp: new(1))
    with last have "x = Inr () \<longrightarrow> (\<forall>k\<in>set (hex # hexes). k \<in> fst ` set (views_of h') \<or>
        (\<exists>rows. pl_fetch answers k = Some rows \<and> welcome_for (pl_join answers) rows = None))" by simp
    with new show ?thesis by (intro exI [of _ new] conjI) auto
  next
    case 3
    then have "h' = h" "x = Inl RequestFailed" using Cons.prems y by (simp_all add: seq_def after_def)
    then show ?thesis by simp
  qed
qed (simp add: give_def)

text \<open>A conversation joins the list by a Welcome that opens, once. Discovery adds to the list and touches
  nothing in it: each new entry is a group the server listed, which the session did not have, with a fresh view
  whose cursor is the row of a Welcome its group was joined from; nothing is posted. When it returns, every
  group listed is in the session or had no Welcome this device can open.\<close>

theorem discovery_joins_once:
  assumes "discover_conversations c answers h = (result, h')"
  shows "(\<exists>new. views_of h' = views_of h @ new \<and> distinct (map fst new) \<and> fst ` set new \<inter> fst ` set (views_of h) = {} \<and>
      (\<forall>(k, v)\<in>set new. (\<exists>hexes. pl_groups answers = Some hexes \<and> k \<in> set hexes) \<and> discovered c answers k v)) \<and>
    ho_trace h' = ho_trace h \<and>
    (result = Inr () \<longrightarrow> (\<exists>hexes. pl_groups answers = Some hexes \<and> (\<forall>k\<in>set hexes. k \<in> fst ` set (views_of h') \<or>
       (\<exists>rows. pl_fetch answers k = Some rows \<and> welcome_for (pl_join answers) rows = None))))"
proof (cases "pl_groups answers")
  case (Some hexes)
  with assms have "for_each (discover_group c answers) hexes h = (result, h')" by (simp add: discover_conversations_def)
  from discover_all_groups [OF this] Some show ?thesis by fastforce
qed (use assms in \<open>auto simp: discover_conversations_def throw_def\<close>)

theorem discovery_joins_once_witness:
  "(let v = rm_view (amys_room []);
        h = \<lparr>ho_session = new_session (js ''amy'') (js ''phone''), ho_trust = rm_trust (amys_room []), ho_replies = [], ho_trace = []\<rparr>;
        answers = \<lparr>pl_stock = None, pl_groups = Some [js ''room''], pl_fetch = \<lambda>_. Some [(3, encode_welcome [1] [2])],
          pl_join = \<lambda>_ _. Some (vw_group v), pl_turn = undefined, pl_seen = None, pl_settings = Inr []\<rparr>
    in \<exists>w. (js ''room'', w) \<in> set (views_of (snd (discover_conversations amy answers h))) \<and> vw_cursor w = 3)"
proof -
  define v where "v = rm_view (amys_room [])"
  define h :: "tree house" where "h = \<lparr>ho_session = new_session (js ''amy'') (js ''phone''),
    ho_trust = rm_trust (amys_room []), ho_replies = [], ho_trace = []\<rparr>"
  define answers where "answers = \<lparr>pl_stock = None, pl_groups = Some [js ''room''],
    pl_fetch = \<lambda>_. Some [(3, encode_welcome [1] [2])], pl_join = \<lambda>_ _. Some (vw_group v), pl_turn = undefined,
    pl_seen = None, pl_settings = Inr []\<rparr>"
  have opens: "welcome_for (\<lambda>_ _. Some (vw_group v)) [(3, encode_welcome [1] [2])] = Some (3, vw_group v)"
    using decode_encode_envelope [of "Welcome [1] [2]"] by simp
  obtain x h' where run: "discover_conversations amy answers h = (x, h')" by (rule prod.exhaust)
  then have "x = Inr ()"
    by (simp add: discover_conversations_def discover_group_def answers_def h_def new_session_def opens seq_def after_def
        give_def del: welcome_for.simps)
  with discovery_joins_once [OF run] have "js ''room'' \<in> fst ` set (views_of h')"
    by (auto simp: answers_def opens simp del: welcome_for.simps)
  then obtain w where w: "(js ''room'', w) \<in> set (views_of h')" by auto
  then have "discovered amy answers (js ''room'') w"
    using discovery_joins_once [OF run] by (auto simp: h_def new_session_def)
  then have "vw_cursor w = 3" by (auto simp: discovered_def answers_def)
  with w show ?thesis unfolding Let_def v_def [symmetric] h_def [symmetric] answers_def [symmetric] run snd_conv by blast
qed

end
