(* ===== verification/Founding.thy ===== *)
theory Founding
  imports Sweep
begin

text \<open>
  \<open>startConversation\<close> of \<open>session.ts\<close>: the other writer of the list of conversations. Who was named, the
  conversation that already holds them, the vetting of every account before anything is created, then one
  device after the other.
\<close>

subsection \<open>Starting a conversation\<close>

text \<open>One device brought into a group being founded: nobody is there to be told of the first commit, and the
  posting key goes to the server with the first device.\<close>

definition found_with :: "'g client \<Rightarrow> bytes \<Rightarrow> bool \<Rightarrow> device \<Rightarrow> ('g, unit) step" where
  "found_with c key first d =
     after (request (ClaimPackage (dev_id d)) expect_package) (\<lambda>package.
     after (on_group (\<lambda>g. go_invite (cl_ops c) g package)) (\<lambda>(commit, welcome).
     seq (move (log_act (Prepared commit)))
    (seq (request (AddMembers [cl_device c, dev_id d] (if first then Some key else None)) expect_done)
    (seq (provided (\<not> first) (post (Mls commit)))
    (after (on_group (go_apply (cl_ops c))) (\<lambda>tree.
     seq (move (log_act Applied)) (post (Welcome welcome tree))))))))"

fun found_all :: "'g client \<Rightarrow> bytes \<Rightarrow> bool \<Rightarrow> device list \<Rightarrow> ('g, unit) step" where
  "found_all c key first [] = give ()"
| "found_all c key first (d # ds) = seq (found_with c key first d) (found_all c key False ds)"

definition vetted :: "'g client \<Rightarrow> account \<Rightarrow> room_error + resolved_account" where
  "vetted c account =
     (case cl_resolve c account of
        None \<Rightarrow> Inl (Unresolved account)
      | Some peer \<Rightarrow>
          if ra_rejected peer \<noteq> [] then Inl (NotAllowed (Unattested (length (ra_rejected peer))))
          else if ra_devices peer = [] then Inl (NotAllowed NoDevice)
          else Inr peer)"

fun vetted_all :: "'g client \<Rightarrow> account list \<Rightarrow> room_error + resolved_account list" where
  "vetted_all c [] = Inr []"
| "vetted_all c (a # as) =
     (case vetted c a of Inl e \<Rightarrow> Inl e
      | Inr peer \<Rightarrow> (case vetted_all c as of Inl e \<Rightarrow> Inl e | Inr peers \<Rightarrow> Inr (peer # peers)))"

definition conversation_with :: "'g client \<Rightarrow> account list \<Rightarrow> 'g house \<Rightarrow> jsstr option" where
  "conversation_with c wanted h =
     map_option fst (find (\<lambda>(k, v). matching_conversation [listed_view v] wanted (cl_account c) \<noteq> None) (views_of h))"

text \<open>\<open>create\<close> makes the group, administered or flat; \<open>gid\<close> is its identifier and \<open>key\<close> the random posting key.\<close>

definition found_conversation ::
    "'g client \<Rightarrow> (bool \<Rightarrow> 'g) \<Rightarrow> jsstr \<Rightarrow> bytes \<Rightarrow> resolved_account list \<Rightarrow> ('g house, room_error, jsstr) flow" where
  "found_conversation c create gid key peers h =
     (let v = (fresh_view c gid (create (length peers > 1)) 0)\<lparr>vw_accounts := peers, vw_posting_key := Some key\<rparr> in
      case seq (found_all c key True (concat (map ra_devices peers)))
             (seq (for_each note_resolved peers) (refresh_view c)) (room_of v h) of
        (Inl e, r) \<Rightarrow> (Inl e, h\<lparr>ho_trust := rm_trust r, ho_replies := rm_replies r, ho_trace := rm_trace r\<rparr>)
      | (Inr _, r) \<Rightarrow>
          seq persist_all (give gid)
            (put_views (views_of h @ [(gid, rm_view r)])
              (h\<lparr>ho_trust := rm_trust r, ho_replies := rm_replies r, ho_trace := rm_trace r\<rparr>)))"

definition start_conversation ::
    "'g client \<Rightarrow> (bool \<Rightarrow> 'g) \<Rightarrow> jsstr \<Rightarrow> bytes \<Rightarrow> jsstr list \<Rightarrow> ('g house, room_error, jsstr) flow" where
  "start_conversation c create gid key called h =
     (case those (map (cl_directory c) (uniq called)) of
        None \<Rightarrow> (Inl RequestFailed, h)
      | Some accounts \<Rightarrow>
          (let wanted = filter (\<lambda>a. a \<noteq> cl_account c) accounts in
           if wanted = [] then (Inl (NotAllowed NobodyNamed), h)
           else case conversation_with c wanted h of
             Some k \<Rightarrow> (Inr k, h)
           | None \<Rightarrow>
               (case vetted_all c wanted of
                  Inl e \<Rightarrow> (Inl e, h)
                | Inr peers \<Rightarrow> found_conversation c create gid key peers h)))"

subsection \<open>A conversation started\<close>

text \<open>A device founded with, as the trace shows it.\<close>

definition founded :: "'g client \<Rightarrow> bytes \<Rightarrow> bool \<Rightarrow> device \<Rightarrow> 'g act list \<Rightarrow> bool" where
  "founded c key first d t \<longleftrightarrow> (\<exists>package g p w tree n m. fst (go_invite (cl_ops c) g package) = Some (p, w) \<and>
     t = [Asked (ClaimPackage (dev_id d)) (Claimed package), Prepared p,
       Asked (AddMembers [cl_device c, dev_id d] (if first then Some key else None)) Done] @
       (if first then [] else [Asked (PostEnvelope (Mls p)) (Accepted n)]) @
       [Applied, Asked (PostEnvelope (Welcome w tree)) (Accepted m)])"

fun founded_all :: "'g client \<Rightarrow> bytes \<Rightarrow> bool \<Rightarrow> device list \<Rightarrow> 'g act list \<Rightarrow> bool" where
  "founded_all c key first [] t \<longleftrightarrow> t = []"
| "founded_all c key first (d # ds) t \<longleftrightarrow> (\<exists>t1 t2. t = t1 @ t2 \<and> founded c key first d t1 \<and> founded_all c key False ds t2)"

lemma found_with_Inr:
  assumes "found_with c key first d r = (Inr u, r')"
  shows "\<exists>t. rm_trace r' = rm_trace r @ t \<and> founded c key first d t"
proof -
  from assms obtain package g p w tree n m where
    "fst (go_invite (cl_ops c) g package) = Some (p, w)"
    "rm_trace r' = rm_trace r @ [Asked (ClaimPackage (dev_id d)) (Claimed package), Prepared p,
       Asked (AddMembers [cl_device c, dev_id d] (if first then Some key else None)) Done] @
       (if first then [] else [Asked (PostEnvelope (Mls p)) (Accepted n)]) @
       [Applied, Asked (PostEnvelope (Welcome w tree)) (Accepted m)]"
    by (cases first)
      (auto simp: found_with_def flow_Inr request_Inr on_group_Inr provided_def split: prod.splits dest!: post_Inr,
        (metis fst_conv)+)
  then show ?thesis unfolding founded_def by blast
qed

lemma found_all_Inr:
  "found_all c key first ds r = (Inr u, r') \<Longrightarrow> \<exists>t. rm_trace r' = rm_trace r @ t \<and> founded_all c key first ds t"
proof (induction ds arbitrary: r first)
  case (Cons d ds)
  then obtain r1 where d: "found_with c key first d r = (Inr (), r1)" and ds: "found_all c key False ds r1 = (Inr u, r')"
    by (auto simp: seq_Inr)
  from found_with_Inr [OF d] Cons.IH [OF ds] obtain t1 t2 where
    "rm_trace r' = rm_trace r @ (t1 @ t2)" "founded c key first d t1" "founded_all c key False ds t2" by auto
  then show ?case unfolding founded_all.simps by blast
qed (simp add: basic_Inr)

text \<open>What founding leaves: nothing written, and every post marked.\<close>

lemma found_with_keeps:
  assumes "\<And>ids k. keeps I (request (AddMembers ids k) expect_done :: ('g, unit) step)"
    and "\<And>i. keeps I (request (ClaimPackage i) expect_package :: ('g, bytes) step)"
    and "\<And>f. keeps I (on_group f :: ('g, bytes \<times> bytes) step)" and "\<And>f. keeps I (on_group f :: ('g, bytes) step)"
    and "\<And>p. keeps I (move (log_act (Prepared p)) :: ('g, unit) step)" and "keeps I (move (log_act Applied) :: ('g, unit) step)"
    and "\<And>e. keeps I (post e)"
  shows "keeps I (found_with c key first d)"
  unfolding found_with_def
  by (intro keeps_after assms) (auto split: prod.split intro!: keeps_after keeps_seq keeps_provided assms)

lemma found_all_keeps: "(\<And>first d. keeps I (found_with c key first d)) \<Longrightarrow> keeps I (found_all c key first ds)"
  by (induction ds arbitrary: first) (simp_all add: flow_keeps)

lemma found_all_still: "keeps (still is_write x) (found_all c key first ds)"
  by (intro found_all_keeps found_with_keeps) (auto intro: aside_steps)

text \<open>Since the trace \<open>t0\<close>, this device has posted nothing that is not marked as its own.\<close>

definition own_since :: "bytes option \<Rightarrow> 'g act list \<Rightarrow> 'g room \<Rightarrow> bool" where
  "own_since key t0 r \<longleftrightarrow> vw_posting_key (rm_view r) = key \<and>
     (\<exists>t. rm_trace r = t0 @ t \<and> (\<Union>a\<in>set t. posts_of a) \<subseteq> vw_mine (rm_view r))"

lemma own_since_snoc:
  assumes "own_since key t0 r" and "rm_trace r' = rm_trace r @ [a]" and "vw_posting_key (rm_view r') = vw_posting_key (rm_view r)"
    and "posts_of a \<union> vw_mine (rm_view r) \<subseteq> vw_mine (rm_view r')"
  shows "own_since key t0 r'"
proof -
  from assms(1) obtain t where t: "rm_trace r = t0 @ t" "(\<Union>a\<in>set t. posts_of a) \<subseteq> vw_mine (rm_view r)"
    by (auto simp: own_since_def)
  then have "rm_trace r' = t0 @ (t @ [a])" "(\<Union>a\<in>set (t @ [a]). posts_of a) \<subseteq> vw_mine (rm_view r')"
    using assms(2,4) by auto
  then show ?thesis using assms(1,3) unfolding own_since_def by metis
qed

lemma own_since_steps:
  "(\<And>a. posts_of (Asked q a :: 'g act) = {}) \<Longrightarrow> keeps (own_since key t0) (request q expect :: ('g, 'a) step)"
  "keeps (own_since key t0) (on_group f)" "posts_of a = {} \<Longrightarrow> keeps (own_since key t0) (move (log_act a))"
  "keeps (own_since key t0) (post e)"
proof -
  show "keeps (own_since key t0) (request q expect :: ('g, 'a) step)" if "\<And>a. posts_of (Asked q a :: 'g act) = {}"
    unfolding keeps_def by (rule triple_request; erule own_since_snoc) (auto simp: that)
  show "keeps (own_since key t0) (on_group f)"
    unfolding keeps_def by (rule triple_on_group) (simp_all add: own_since_def)
  show "keeps (own_since key t0) (move (log_act a))" if "posts_of a = {}"
    by (rule keeps_move, erule own_since_snoc) (auto simp: that)
  show "keeps (own_since key t0) (post e)"
    unfolding post_def keeps_def change_view_def
    by (rule triple_after [OF triple_request [where
          Q = "\<lambda>n r. own_since key t0 (r\<lparr>rm_view := rm_view r\<lparr>vw_mine := insert n (vw_mine (rm_view r))\<rparr>\<rparr>)"]])
      (auto simp: expect_seq_Some elim: own_since_snoc)
qed

lemma found_all_own: "keeps (own_since k t0) (found_all c key first ds)"
  by (intro found_all_keeps found_with_keeps) (auto intro: own_since_steps)

text \<open>What a step can throw.\<close>

definition throws :: "'e set \<Rightarrow> ('s, 'e, 'a) flow \<Rightarrow> bool" where
  "throws E m \<longleftrightarrow> (\<forall>s e s'. m s = (Inl e, s') \<longrightarrow> e \<in> E)"

lemma throws_steps:
  "throws E (give a)" "throws E (move f)" "throws E m \<Longrightarrow> (\<And>a. throws E (g a)) \<Longrightarrow> throws E (after m g)"
  "throws E m \<Longrightarrow> throws E n \<Longrightarrow> throws E (seq m n)" "throws E k \<Longrightarrow> throws E (provided b k)"
  by (auto simp: throws_def flow_Inl flow_Inr provided_def) blast+

lemma throws_request: "RequestFailed \<in> E \<Longrightarrow> throws E (request q expect)"
  and throws_on_group: "GroupRefused \<in> E \<Longrightarrow> throws E (on_group f)"
  by (auto simp: throws_def dest: step_Inl)

lemma found_all_throws: "throws {RequestFailed, GroupRefused} (found_all c key first ds)"
proof -
  have "throws {RequestFailed, GroupRefused} (found_with c key f d)" for f d
    unfolding found_with_def post_def change_view_def
    by (intro throws_steps throws_request throws_on_group)
      (auto split: prod.split intro!: throws_steps throws_request throws_on_group)
  then show ?thesis by (induction ds arbitrary: first) (simp_all add: throws_steps)
qed

lemma note_all: "for_each note_resolved peers r = (Inr (), r\<lparr>rm_trust := fold (\<lambda>peer. note_devices (ra_handle peer)
    (map dev_id (ra_devices peer))) peers (rm_trust r)\<rparr>)"
  by (induction peers arbitrary: r) (simp_all add: give_def note_resolved_def seq_move)

text \<open>The conversation a founding run puts in the list.\<close>

definition founded_view :: "'g client \<Rightarrow> jsstr \<Rightarrow> bytes \<Rightarrow> resolved_account list \<Rightarrow> 'g act list \<Rightarrow> 'g view \<Rightarrow> bool" where
  "founded_view c gid key peers t v \<longleftrightarrow> vw_key v = gid \<and> vw_accounts v = peers \<and> vw_posting_key v = Some key \<and>
     vw_peers v = mls_peers (cl_mls c) (vw_group v) \<and> vw_epoch v = mls_epoch (cl_mls c) (vw_group v) \<and>
     (\<Union>a\<in>set t. posts_of a) \<subseteq> vw_mine v"

lemma found_all_aside:
  "found_all c key first ds r = (x, r') \<Longrightarrow> aside r' = aside r \<and> of_kind is_write r' = of_kind is_write r"
  using keeps_run [OF found_all_still still_refl] by (fastforce simp: still_def)

lemma found_conversation_run:
  assumes "found_conversation c create gid key peers h = (result, h')"
  obtains e t where "result = Inl e" "e = RequestFailed \<or> e = GroupRefused" "views_of h' = views_of h"
      "ho_trace h' = ho_trace h @ t" "filter is_write t = []"
  | t v where "result = Inr gid" "views_of h' = views_of h @ [(gid, v)]"
      "ho_trace h' = ho_trace h @ t @ map (\<lambda>(k, w). Did (Write w)) (views_of h')"
      "founded_all c key True (concat (map ra_devices peers)) t" "filter is_write t = []"
      "founded_view c gid key peers t v"
proof -
  define start where "start = (fresh_view c gid (create (length peers > 1)) 0)\<lparr>vw_accounts := peers, vw_posting_key := Some key\<rparr>"
  obtain x r where run: "found_all c key True (concat (map ra_devices peers)) (room_of start h) = (x, r)"
    by (rule prod.exhaust)
  note whole = assms [unfolded found_conversation_def Let_def, folded start_def]
  have "own_since (Some key) (ho_trace h) r"
    by (rule keeps_run [OF found_all_own _ run]) (simp add: own_since_def room_of_def start_def)
  then obtain t where t: "rm_trace r = ho_trace h @ t" and own: "(\<Union>a\<in>set t. posts_of a) \<subseteq> vw_mine (rm_view r)"
    and posting: "vw_posting_key (rm_view r) = Some key"
    by (auto simp: own_since_def)
  from t have quiet: "filter is_write t = []"
    using found_all_aside [OF run] by (simp add: of_kind_def room_of_def)
  show thesis
  proof (cases x)
    case (Inl e)
    then have "e = RequestFailed \<or> e = GroupRefused"
      using found_all_throws run by (fastforce simp: throws_def)
    with whole run Inl t quiet show thesis by (intro that(1) [of e t]) (auto simp: seq_def after_def)
  next
    case (Inr u)
    with found_all_Inr [of c key True _ "room_of start h" u r] run t
    have founded: "founded_all c key True (concat (map ra_devices peers)) t" by (auto simp: room_of_def)
    define v where "v = (rm_view r)\<lparr>vw_peers := mls_peers (cl_mls c) (vw_group (rm_view r)),
      vw_epoch := mls_epoch (cl_mls c) (vw_group (rm_view r))\<rparr>"
    have h': "views_of h' = views_of h @ [(gid, v)]" "result = Inr gid"
      "ho_trace h' = rm_trace r @ map (\<lambda>(k, w). Did (Write w)) (views_of h')"
      using whole run Inr note_all [of peers r]
      by (auto simp: seq_def after_def refresh_view_def change_view_def
          move_def v_def persist_all_def give_def put_views_def)
    show thesis
    proof (rule that(2))
      show "founded_view c gid key peers t v"
        using found_all_aside [OF run] own posting
        by (auto simp: founded_view_def v_def aside_def room_of_def start_def fresh_view_def)
    qed (use h' t founded quiet in auto)
  qed
qed

lemma vetted_all_Inr:
  "vetted_all c accounts = Inr peers \<Longrightarrow>
     list_all2 (\<lambda>a p. cl_resolve c a = Some p \<and> ra_rejected p = [] \<and> ra_devices p \<noteq> []) accounts peers"
  by (induction accounts arbitrary: peers) (auto simp: vetted_def split: option.splits sum.splits if_splits)


text \<open>Amy starts a conversation with Bob, whose first device is reached and whose second is not when the server
  answers three times only.\<close>

definition amys_house :: "reply list \<Rightarrow> tree house" where
  "amys_house replies = \<lparr>ho_session = new_session (js ''amy'') (js ''phone''), ho_trust = \<lparr>fingerprints = [], known_devices = []\<rparr>,
     ho_replies = replies, ho_trace = []\<rparr>"

definition flat_tree :: "bool \<Rightarrow> tree" where
  "flat_tree administered = \<lparr>tr_epoch = 0, tr_leaves = [],
     tr_roster = (if administered then Some \<lparr>ro_admin = js ''amy'', ro_moderators = []\<rparr> else None),
     tr_lifetime = None, tr_pending = None\<rparr>"

definition bob_replies :: "reply list" where
  "bob_replies = [Claimed (dev_mls_key (phone_of (js ''bob'') 1)), Done, Accepted 1,
     Claimed (dev_mls_key (phone_of (js ''bob'') 2)), Done, Accepted 2, Accepted 3]"

abbreviation amy_starts :: "nat \<Rightarrow> (room_error + jsstr) \<times> tree house" where
  "amy_starts n \<equiv> start_conversation amy flat_tree (js ''new'') [7] [js ''bob''] (amys_house (take n bob_replies))"

lemmas start_defs = start_conversation_def conversation_with_def vetted_def found_conversation_def amys_house_def flat_tree_def
  bob_replies_def new_session_def room_of_def fresh_view_def found_with_def provided_def persist_all_def put_views_def

lemma amy_starts_run:
  "fst (amy_starts 7) = Inr (js ''new'')" "fst (amy_starts 3) = Inl RequestFailed"
  by (simp_all add: start_defs run_defs js_def)


text \<open>A start that fails half way leaves the other side with a conversation this device has lost: the first
  device of Bob has its Welcome, the list is empty, and nothing reached the disk.\<close>

lemma half_started_strands:
  "(let h' = snd (amy_starts 3) in views_of h' = [] \<and> filter is_write (ho_trace h') = [] \<and>
     (\<exists>w tree. Asked (PostEnvelope (Welcome w tree)) (Accepted 1) \<in> set (ho_trace h')))"
  by (simp add: start_defs run_defs js_def)

end
