(* ===== verification/Stamped.thy ===== *)
theory Stamped
  imports Prelude
begin

text \<open>
  \<open>stamped.ts\<close>: two devices' versions of a keyed preference. Values and stamps are \<open>Record\<close>s,
  association lists here; a patch is what \<open>Object.entries\<close> walks. The stamp is on the entry, and a
  key that is stamped and absent from the values is a removal.
\<close>

type_synonym 'v valmap = "(jsstr \<times> 'v) list"
type_synonym stamps = "(jsstr \<times> int) list"
type_synonym 'v patch = "(jsstr \<times> int \<times> 'v option) list"

record 'v merged =
  merged_values :: "'v valmap"
  merged_stamps :: stamps
  merged_changed :: bool
  stamps_moved :: bool

text \<open>One turn of the loop of \<open>merge\<close>: \<open>stamps\<close> is the map it was called with.\<close>

definition merge_entry :: "stamps \<Rightarrow> jsstr \<times> int \<times> 'v option \<Rightarrow> 'v merged \<Rightarrow> 'v merged" where
  "merge_entry stamps entry m =
     (case entry of (key, at, v) \<Rightarrow>
        if (case map_of stamps key of Some held \<Rightarrow> at \<le> held | None \<Rightarrow> False) then m
        else
          (let m' = m\<lparr>merged_stamps := AList.update key at (merged_stamps m), stamps_moved := True\<rparr> in
           case v of
             None \<Rightarrow> m'\<lparr>merged_changed := merged_changed m \<or> map_of (merged_values m) key \<noteq> None,
                       merged_values := AList.delete key (merged_values m)\<rparr>
           | Some x \<Rightarrow> m'\<lparr>merged_changed := True,
                       merged_values := AList.update key x (merged_values m)\<rparr>))"

definition merge :: "'v valmap \<Rightarrow> stamps \<Rightarrow> 'v patch \<Rightarrow> 'v merged" where
  "merge values stamps patch =
     fold (merge_entry stamps) patch
       \<lparr>merged_values = values, merged_stamps = stamps, merged_changed = False, stamps_moved = False\<rparr>"

definition patch_of :: "'v valmap \<Rightarrow> stamps \<Rightarrow> 'v patch" where
  "patch_of values stamps = map (\<lambda>(key, at). (key, at, map_of values key)) stamps"

definition decide ::
    "'v valmap \<Rightarrow> stamps \<Rightarrow> jsstr \<Rightarrow> 'v option \<Rightarrow> int \<Rightarrow> 'v valmap \<times> stamps" where
  "decide values stamps key v at =
     ((case v of None \<Rightarrow> AList.delete key values | Some x \<Rightarrow> AList.update key x values),
      AList.update key at stamps)"

subsection \<open>What a merge does to one key\<close>

text \<open>What a device holds for a key: the stamp of its last decision, and the value or the removal.\<close>

definition held_in :: "'v valmap \<times> stamps \<Rightarrow> jsstr \<Rightarrow> (int \<times> 'v option) option" where
  "held_in d key = map_option (\<lambda>at. (at, map_of (fst d) key)) (map_of (snd d) key)"

definition pair_of :: "'v merged \<Rightarrow> 'v valmap \<times> stamps" where
  "pair_of m = (merged_values m, merged_stamps m)"

text \<open>A merge of one entry, as a step on what the device holds.\<close>

definition absorb_entry :: "jsstr \<times> int \<times> 'v option \<Rightarrow> 'v valmap \<times> stamps \<Rightarrow> 'v valmap \<times> stamps" where
  "absorb_entry e d = pair_of (merge (fst d) (snd d) [e])"

definition absorb_patch :: "'v patch \<Rightarrow> 'v valmap \<times> stamps \<Rightarrow> 'v valmap \<times> stamps" where
  "absorb_patch p d = pair_of (merge (fst d) (snd d) p)"

lemma merge_entry_simps:
  "map_of (merged_stamps (merge_entry st (key, at, v) m)) k =
     (if k = key \<and> \<not> (\<exists>h. map_of st key = Some h \<and> at \<le> h) then Some at
      else map_of (merged_stamps m) k)"
  "map_of (merged_values (merge_entry st (key, at, v) m)) k =
     (if k = key \<and> \<not> (\<exists>h. map_of st key = Some h \<and> at \<le> h) then v
      else map_of (merged_values m) k)"
  by (auto simp: merge_entry_def Let_def split: option.splits)

lemma newer_stamp [simp]:
  "newer at (map_option (\<lambda>a. (a, v)) h) \<longleftrightarrow> (\<forall>x. h = Some x \<longrightarrow> \<not> at \<le> x)"
  by (cases h) auto

lemma merge_fold_other:
  "key \<notin> fst ` set patch \<Longrightarrow>
     map_of (merged_stamps (fold (merge_entry st) patch m)) key = map_of (merged_stamps m) key \<and>
     map_of (merged_values (fold (merge_entry st) patch m)) key = map_of (merged_values m) key"
  by (induction patch arbitrary: m) (auto simp: merge_entry_simps)

lemma merge_fold_key:
  "distinct (map fst patch) \<Longrightarrow> (key, at, v) \<in> set patch \<Longrightarrow>
     map_of (merged_stamps (fold (merge_entry st) patch m)) key =
       (if \<exists>h. map_of st key = Some h \<and> at \<le> h then map_of (merged_stamps m) key else Some at) \<and>
     map_of (merged_values (fold (merge_entry st) patch m)) key =
       (if \<exists>h. map_of st key = Some h \<and> at \<le> h then map_of (merged_values m) key else v)"
proof (induction patch arbitrary: m)
  case (Cons e patch)
  obtain k a w where e: "e = (k, a, w)" by (cases e) auto
  show ?case
  proof (cases "(key, at, v) = e")
    case True
    with Cons.prems have "key \<notin> fst ` set patch" by (auto simp: image_iff)
    with True show ?thesis by (auto simp: merge_fold_other merge_entry_simps)
  next
    case False
    with Cons.prems have m: "(key, at, v) \<in> set patch" "distinct (map fst patch)" by auto
    from m Cons.prems e have "k \<noteq> key" by (force simp: image_iff)
    then have "map_of (merged_stamps (merge_entry st e m)) key = map_of (merged_stamps m) key"
      "map_of (merged_values (merge_entry st e m)) key = map_of (merged_values m) key"
      by (simp_all add: e merge_entry_simps)
    with Cons.IH [OF m(2,1), of "merge_entry st e m"] show ?thesis
      by (simp only: fold_Cons comp_apply)
  qed
qed simp

lemma absorb_entry_held:
  "held_in (absorb_entry (key, at, v) d) k =
     (if key = k \<and> newer at (held_in d k) then Some (at, v) else held_in d k)"
  by (cases d)
    (auto simp: absorb_entry_def pair_of_def merge_def held_in_def merge_entry_simps
      split: option.splits)

interpretation prefs: lww absorb_entry Some held_in
proof
  fix e :: "jsstr \<times> int \<times> 'a option" and d k
  show "held_in (absorb_entry e d) k =
    (case Some e of
       Some (k', t, v) \<Rightarrow> if k' = k \<and> newer t (held_in d k) then Some (t, v) else held_in d k
     | None \<Rightarrow> held_in d k)"
    by (cases e) (simp add: absorb_entry_held)
qed

lemma absorb_patch_held:
  assumes "distinct (map fst patch)"
  shows "held_in (absorb_patch patch d) k =
     (case map_of patch k of
        Some (at, v) \<Rightarrow> if newer at (held_in d k) then Some (at, v) else held_in d k
      | None \<Rightarrow> held_in d k)"
proof (cases "map_of patch k")
  case None
  then have "k \<notin> fst ` set patch" by (simp add: map_of_eq_None_iff)
  with None show ?thesis
    by (simp add: absorb_patch_def pair_of_def merge_def held_in_def merge_fold_other)
next
  case (Some p)
  then obtain at v where p: "p = (at, v)" "(k, at, v) \<in> set patch" by (cases p) (auto dest: map_of_SomeD)
  show ?thesis
    using merge_fold_key [OF assms p(2), of "snd d"] Some p(1)
    by (cases d) (auto simp: absorb_patch_def pair_of_def merge_def held_in_def split: option.splits)
qed

text \<open>So a patch is its entries, one after the other.\<close>

lemma absorb_patch_fold:
  "distinct (map fst patch) \<Longrightarrow> held_in (absorb_patch patch d) k = held_in (fold absorb_entry patch d) k"
proof (induction patch arbitrary: d)
  case Nil
  then show ?case by (simp add: absorb_patch_held)
next
  case (Cons e patch)
  obtain key at v where e: "e = (key, at, v)" by (cases e) auto
  from Cons.prems have d: "distinct (map fst patch)" and n: "key \<notin> fst ` set patch" by (auto simp: e)
  have none: "map_of patch key = None" using n by (simp add: map_of_eq_None_iff)
  have "held_in (fold absorb_entry (e # patch) d) k = held_in (absorb_patch patch (absorb_entry e d)) k"
    using Cons.IH [OF d] by simp
  also have "\<dots> = held_in (absorb_patch (e # patch) d) k"
    unfolding absorb_patch_held [OF d] absorb_patch_held [OF Cons.prems]
    using none by (auto simp: e absorb_entry_held split: option.splits)
  finally show ?case by simp
qed

subsection \<open>The announcement\<close>

text \<open>What a device announces is exactly what it holds, removals included.\<close>

lemma map_of_patch_of: "map_of (patch_of vs st) k = held_in (vs, st) k"
  by (induction st) (auto simp: patch_of_def held_in_def)

lemma patch_of_keys [simp]: "map fst (patch_of vs st) = map fst st"
  by (simp add: patch_of_def comp_def case_prod_beta)

lemma held_in_decide:
  "held_in (decide vs st key v at) k = (if k = key then Some (at, v) else held_in (vs, st) k)"
  by (auto simp: decide_def held_in_def split: option.splits)

text \<open>Every value is stamped: what \<open>decide\<close> and \<open>merge\<close> keep true.\<close>

definition stamped :: "'v valmap \<times> stamps \<Rightarrow> bool" where
  "stamped d \<longleftrightarrow> distinct (map fst (snd d)) \<and>
     (\<forall>k. map_of (snd d) k = None \<longrightarrow> map_of (fst d) k = None)"

lemma distinct_merge_fold:
  "distinct (map fst (merged_stamps m)) \<Longrightarrow>
     distinct (map fst (merged_stamps (fold (merge_entry st) patch m)))"
  by (induction patch arbitrary: m)
    (auto simp: merge_entry_def Let_def distinct_update split: option.splits)

lemma stamped_absorb_patch: "stamped d \<Longrightarrow> distinct (map fst patch) \<Longrightarrow> stamped (absorb_patch patch d)"
proof -
  assume d: "stamped d" and p: "distinct (map fst patch)"
  have "map_of (snd (absorb_patch patch d)) k = None \<longrightarrow> map_of (fst (absorb_patch patch d)) k = None" for k
  proof (cases "map_of patch k")
    case None
    then have "k \<notin> fst ` set patch" by (simp add: map_of_eq_None_iff)
    with d show ?thesis
      by (simp add: stamped_def absorb_patch_def pair_of_def merge_def merge_fold_other)
  next
    case (Some e)
    then obtain at v where "(k, at, v) \<in> set patch" by (cases e) (auto dest: map_of_SomeD)
    from merge_fold_key [OF p this] d show ?thesis
      by (auto simp: stamped_def absorb_patch_def pair_of_def merge_def)
  qed
  moreover have "distinct (map fst (snd (absorb_patch patch d)))"
    using d by (simp add: stamped_def absorb_patch_def pair_of_def merge_def distinct_merge_fold)
  ultimately show ?thesis by (simp add: stamped_def)
qed

lemma map_of_stamps_held: "map_of (snd d) k = map_option fst (held_in d k)"
  by (simp add: held_in_def map_option.compositionality comp_def map_option.identity)

lemma map_of_values_held: "stamped d \<Longrightarrow> map_of (fst d) k = Option.bind (held_in d k) snd"
  by (cases "map_of (snd d) k") (auto simp: stamped_def held_in_def)

text \<open>When nothing is reported as changed, nothing has: the caller may skip the write.\<close>

lemma merge_fold_unmoved:
  "stamps_moved (fold (merge_entry st) patch m) = False \<Longrightarrow> fold (merge_entry st) patch m = m"
proof (induction patch arbitrary: m)
  case (Cons e patch)
  have "fold (merge_entry st) patch (merge_entry st e m) = merge_entry st e m"
    using Cons.prems by (intro Cons.IH) simp
  moreover from this Cons.prems have "\<not> stamps_moved (merge_entry st e m)" by simp
  then have "merge_entry st e m = m"
    by (auto simp: merge_entry_def Let_def split: option.splits if_splits prod.splits)
  ultimately show ?case by simp
qed simp

lemma merge_entry_unchanged:
  "\<not> merged_changed (merge_entry st e m) \<Longrightarrow>
     map_of (merged_values (merge_entry st e m)) = map_of (merged_values m) \<and> \<not> merged_changed m"
  by (auto simp: merge_entry_def Let_def fun_eq_iff split: option.splits if_splits prod.splits)

lemma merge_fold_unchanged:
  "\<not> merged_changed (fold (merge_entry st) patch m) \<Longrightarrow>
     map_of (merged_values (fold (merge_entry st) patch m)) = map_of (merged_values m) \<and> \<not> merged_changed m"
proof (induction patch arbitrary: m)
  case (Cons e patch)
  then have "map_of (merged_values (fold (merge_entry st) (e # patch) m)) =
      map_of (merged_values (merge_entry st e m))" "\<not> merged_changed (merge_entry st e m)"
    by auto
  with merge_entry_unchanged [of st e m] show ?case by simp
qed simp

text \<open>A patch none of whose entries is later than what is held does nothing at all.\<close>

lemma merge_fold_stale:
  "(\<forall>(key, at, v)\<in>set patch. \<exists>h. map_of st key = Some h \<and> at \<le> h) \<Longrightarrow>
     fold (merge_entry st) patch m = m"
proof (induction patch arbitrary: m)
  case (Cons e patch)
  then have "merge_entry st e m = m" by (auto simp: merge_entry_def split: option.splits)
  with Cons show ?case by simp
qed simp

lemma merge_again:
  assumes "distinct (map fst patch)"
  shows "merge (merged_values (merge vs st patch)) (merged_stamps (merge vs st patch)) patch =
    (merge vs st patch)\<lparr>merged_changed := False, stamps_moved := False\<rparr>"
proof -
  have "\<exists>h. map_of (merged_stamps (merge vs st patch)) key = Some h \<and> at \<le> h"
    if "(key, at, v) \<in> set patch" for key at v
    using merge_fold_key [OF assms that, of st] by (auto simp: merge_def)
  then have "\<forall>(key, at, v)\<in>set patch.
      \<exists>h. map_of (merged_stamps (merge vs st patch)) key = Some h \<and> at \<le> h"
    by blast
  from merge_fold_stale [OF this] show ?thesis
    by (simp add: merge_def [of "merged_values _"])
qed

lemma merge_held:
  "distinct (map fst patch) \<Longrightarrow>
   held_in (merged_values (merge vs st patch), merged_stamps (merge vs st patch)) k =
     (case map_of patch k of
        Some (at, v) \<Rightarrow> if newer at (held_in (vs, st) k) then Some (at, v) else held_in (vs, st) k
      | None \<Rightarrow> held_in (vs, st) k)"
  using absorb_patch_held [of patch "(vs, st)" k] by (simp add: absorb_patch_def pair_of_def)

subsection \<open>Two devices\<close>

text \<open>One full exchange: each merges what the other announced before it.\<close>

definition exchange ::
    "'v valmap \<times> stamps \<Rightarrow> 'v valmap \<times> stamps \<Rightarrow> ('v valmap \<times> stamps) \<times> ('v valmap \<times> stamps)" where
  "exchange a b =
     (absorb_patch (patch_of (fst b) (snd b)) a, absorb_patch (patch_of (fst a) (snd a)) b)"

lemma exchange_held:
  assumes "stamped a" and "stamped b"
  shows "held_in (fst (exchange a b)) k =
      (case held_in b k of
         Some (at, v) \<Rightarrow> if newer at (held_in a k) then Some (at, v) else held_in a k
       | None \<Rightarrow> held_in a k)"
    and "held_in (snd (exchange a b)) k =
      (case held_in a k of
         Some (at, v) \<Rightarrow> if newer at (held_in b k) then Some (at, v) else held_in b k
       | None \<Rightarrow> held_in b k)"
  using assms
  by (simp_all add: exchange_def absorb_patch_held map_of_patch_of stamped_def)

lemma exchange_agree:
  assumes "stamped a" and "stamped b"
    and "\<And>at v w. held_in a k = Some (at, v) \<Longrightarrow> held_in b k = Some (at, w) \<Longrightarrow> v = w"
  shows "held_in (fst (exchange a b)) k = held_in (snd (exchange a b)) k"
  unfolding exchange_held [OF assms(1,2)]
  using assms(3) by (cases "held_in a k"; cases "held_in b k") (auto simp: not_less)

lemma exchange_stamped:
  assumes "stamped a" and "stamped b"
  shows "stamped (fst (exchange a b))" and "stamped (snd (exchange a b))"
  using assms by (auto simp: exchange_def intro!: stamped_absorb_patch) (auto simp: stamped_def)

lemma held_eq_maps:
  assumes "stamped a" and "stamped b" and "held_in a k = held_in b k"
  shows "map_of (fst a) k = map_of (fst b) k" and "map_of (snd a) k = map_of (snd b) k"
  using assms by (simp_all add: map_of_stamps_held map_of_values_held)

text \<open>Merging a patch decides every key on its own: a key takes the incoming decision, a
  removal included, exactly when that decision is strictly later than the one held, and is left
  alone otherwise. The stamp discipline survives, a second merge of the same patch reports neither
  a value nor a stamp moved, and a merge that reports no stamp moved has written nothing.\<close>

theorem merge_decides_per_key:
  assumes "distinct (map fst patch)" and "stamped (vs, st)"
  shows "(let m = merge vs st patch; d = (merged_values m, merged_stamps m) in
    held_in d k =
      (case map_of patch k of
         Some (at, v) \<Rightarrow> if newer at (held_in (vs, st) k) then Some (at, v) else held_in (vs, st) k
       | None \<Rightarrow> held_in (vs, st) k) \<and>
    stamped d \<and>
    merge (merged_values m) (merged_stamps m) patch =
      m\<lparr>merged_changed := False, stamps_moved := False\<rparr> \<and>
    (\<not> stamps_moved m \<longrightarrow> d = (vs, st)) \<and>
    (\<not> merged_changed m \<longrightarrow> map_of (merged_values m) = map_of vs))"
  unfolding Let_def
proof (intro conjI impI)
  show "stamped (merged_values (merge vs st patch), merged_stamps (merge vs st patch))"
    using stamped_absorb_patch [OF assms(2,1)] by (simp add: absorb_patch_def pair_of_def)
next
  assume "\<not> stamps_moved (merge vs st patch)"
  then show "(merged_values (merge vs st patch), merged_stamps (merge vs st patch)) = (vs, st)"
    by (simp add: merge_def merge_fold_unmoved)
next
  assume "\<not> merged_changed (merge vs st patch)"
  then show "map_of (merged_values (merge vs st patch)) = map_of vs"
    using merge_fold_unchanged [of st patch] by (simp add: merge_def)
qed (simp_all add: merge_held merge_again assms(1))

theorem merge_decides_per_key_witness:
  "held_in (let m = merge [(js ''bob'', True)] [(js ''bob'', 5)] [(js ''bob'', 6, None)]
            in (merged_values m, merged_stamps m)) (js ''bob'') = Some (6, None)"
  using merge_decides_per_key
    [of "[(js ''bob'', 6, None)]" "[(js ''bob'', True)]" "[(js ''bob'', 5)]" "js ''bob''"]
  by (auto simp: Let_def stamped_def held_in_def)

text \<open>C31. Two devices that exchange what they hold agree afterwards, on every value and on every
  stamp, provided no key was decided differently on the two at the same instant; decisions on
  different keys are both kept, and of two decisions on one key the later survives on both.\<close>

theorem exchange_converges:
  assumes "stamped a" and "stamped b"
    and "\<forall>k at v w. held_in a k = Some (at, v) \<longrightarrow> held_in b k = Some (at, w) \<longrightarrow> v = w"
  shows "map_of (fst (fst (exchange a b))) = map_of (fst (snd (exchange a b))) \<and>
    map_of (snd (fst (exchange a b))) = map_of (snd (snd (exchange a b))) \<and>
    (\<forall>at v. held_in a k = Some (at, v) \<and> newer at (held_in b k) \<longrightarrow>
       held_in (snd (exchange a b)) k = Some (at, v))"
proof -
  have "held_in (fst (exchange a b)) k = held_in (snd (exchange a b)) k" for k
    using exchange_agree [OF assms(1,2)] assms(3) by blast
  from held_eq_maps [OF exchange_stamped [OF assms(1,2)] this]
  show ?thesis by (simp add: fun_eq_iff exchange_held(2) [OF assms(1,2)])
qed

theorem exchange_converges_witness:
  "map_of (fst (fst (exchange ([(js ''bob'', True)], [(js ''bob'', 1)])
                              ([(js ''carol'', True)], [(js ''carol'', 2)])))) =
   map_of (fst (snd (exchange ([(js ''bob'', True)], [(js ''bob'', 1)])
                              ([(js ''carol'', True)], [(js ''carol'', 2)]))))"
proof -
  let ?a = "([(js ''bob'', True)], [(js ''bob'', 1)]) :: bool valmap \<times> stamps"
  let ?b = "([(js ''carol'', True)], [(js ''carol'', 2)]) :: bool valmap \<times> stamps"
  have "stamped ?a" "stamped ?b" by (simp_all add: stamped_def)
  moreover have "\<forall>k at v w. held_in ?a k = Some (at, v) \<longrightarrow> held_in ?b k = Some (at, w) \<longrightarrow> v = w"
    by (simp add: held_in_def js_def)
  ultimately show ?thesis by (blast dest: exchange_converges)
qed

text \<open>Announcements may reach a device in any order and any number of times: when no two
  decisions on a key share an instant, what it holds for the key at the end depends on the set of
  decisions announced and on nothing else.\<close>

theorem announcements_any_order:
  assumes "set es = set fs"
    and "\<forall>t v v'. (held_in d k = Some (t, v) \<or> (k, t, v) \<in> set es) \<longrightarrow>
           (held_in d k = Some (t, v') \<or> (k, t, v') \<in> set es) \<longrightarrow> v = v'"
  shows "held_in (fold absorb_entry es d) k = held_in (fold absorb_entry fs d) k"
  using assms by (intro prefs.outcome_order) (auto simp: prefs.no_ties_def)

theorem announcements_any_order_witness:
  "held_in (fold absorb_entry [(js ''bob'', 2, Some True), (js ''bob'', 3, None)] ([], [])) (js ''bob'') =
   held_in (fold absorb_entry [(js ''bob'', 3, None), (js ''bob'', 2, Some True)] ([], [])) (js ''bob'')"
  by (rule announcements_any_order) (auto simp: held_in_def)

text \<open>Ties are not resolved: when two devices decide one key differently in the same
  millisecond, an exchange leaves each with its own decision, and so does every later one.\<close>

theorem tie_never_heals:
  "(let a = ([(key, True)], [(key, at)]); b = ([], [(key, at)]) in exchange a b = (a, b))"
  by (simp add: exchange_def absorb_patch_def pair_of_def merge_def patch_of_def merge_entry_def)

end
