(* ===== verification/SignalSync.thy ===== *)
theory SignalSync
  imports Stamped Names Stores Content
begin

text \<open>
  \<open>signal-sync.ts\<close>, and the part of \<open>session.ts\<close> that sends and absorbs it: the settings and preferences
  of an account, sealed for its other devices and posted in every conversation. Nine fixed bytes, then
  the preferences as JSON. \<open>JSON.parse\<close> and AES-GCM are parameters.
\<close>

subsection \<open>What travels\<close>

record synced_signals =
  sy_read_receipts :: bool
  sy_typing :: bool
  sy_presence :: bool
  sy_calls :: bool
  sy_at :: int

record synced_preferences =
  sp_at :: int
  sp_disclose :: bool
  sp_vault :: bool
  sp_flags :: "conversation_flags patch"
  sp_petnames :: "jsstr patch"
  sp_blocked :: "unit patch"

definition iv_len :: nat where "iv_len = 12"
definition plaintext_len :: nat where "plaintext_len = 8 + 1"
definition max_preferences_bytes :: nat where "max_preferences_bytes = 16 * 1024"
definition clock_skew_ms :: int where "clock_skew_ms = 5 * 60 * 1000"

definition bit_read_receipts :: u8 where "bit_read_receipts = 1"
definition bit_typing :: u8 where "bit_typing = 2"
definition bit_presence :: u8 where "bit_presence = 4"
definition bit_calls_off :: u8 where "bit_calls_off = 8"

lemmas sync_bits = bit_read_receipts_def bit_typing_def bit_presence_def bit_calls_off_def
lemmas sync_bounds = iv_len_def plaintext_len_def max_preferences_bytes_def clock_skew_ms_def

text \<open>The JSON text of the preferences: the properties \<open>JSON.stringify\<close> writes, an absent flag left out.\<close>

definition json_of_flags :: "conversation_flags \<Rightarrow> json" where
  "json_of_flags f = JObj (
     (case fl_pinned f of None \<Rightarrow> [] | Some b \<Rightarrow> [(js ''pinned'', JBool b)]) @
     (case fl_archived f of None \<Rightarrow> [] | Some b \<Rightarrow> [(js ''archived'', JBool b)]) @
     (case fl_muted_until f of None \<Rightarrow> [] | Some n \<Rightarrow> [(js ''mutedUntil'', JNum n)]) @
     (case fl_disclose_name f of None \<Rightarrow> [] | Some b \<Rightarrow> [(js ''discloseName'', JBool b)]) @
     (case fl_archive_to_vault f of None \<Rightarrow> [] | Some b \<Rightarrow> [(js ''archiveToVault'', JBool b)]))"

definition json_of_patch :: "('v \<Rightarrow> json) \<Rightarrow> 'v patch \<Rightarrow> json" where
  "json_of_patch j p = JObj (map (\<lambda>(key, at, v).
     (key, JObj [(js ''at'', JNum at), (js ''v'', case v of None \<Rightarrow> JNull | Some x \<Rightarrow> j x)])) p)"

definition json_of_preferences :: "synced_preferences \<Rightarrow> json" where
  "json_of_preferences p = JObj
     [(js ''scalars'', JObj [(js ''at'', JNum (sp_at p)), (js ''disclose'', JBool (sp_disclose p)),
                           (js ''vault'', JBool (sp_vault p))]),
      (js ''flags'', json_of_patch json_of_flags (sp_flags p)),
      (js ''petnames'', json_of_patch JStr (sp_petnames p)),
      (js ''blocked'', json_of_patch (\<lambda>_. JBool True) (sp_blocked p))]"

definition settings_byte :: "synced_signals \<Rightarrow> u8" where
  "settings_byte s =
     or (or (or (if sy_read_receipts s then bit_read_receipts else 0)
                (if sy_typing s then bit_typing else 0))
            (if sy_presence s then bit_presence else 0))
        (if sy_calls s then 0 else bit_calls_off)"

datatype sync_error = SnapshotTooLarge

definition preferences_tail :: "synced_preferences option \<Rightarrow> bytes" where
  "preferences_tail prefs =
     (case prefs of None \<Rightarrow> [] | Some p \<Rightarrow> text_encode (json_text (json_of_preferences p)))"

definition seal_signals ::
    "('k \<Rightarrow> bytes \<Rightarrow> bytes \<Rightarrow> bytes) \<Rightarrow> bytes \<Rightarrow> 'k \<Rightarrow> synced_signals \<Rightarrow> synced_preferences option \<Rightarrow>
     sync_error + bytes" where
  "seal_signals enc iv key signals prefs =
     (let tail = preferences_tail prefs in
      if length tail > max_preferences_bytes then Inl SnapshotTooLarge
      else Inr (seal enc iv key (set_u64 (max 0 (sy_at signals)) @ settings_byte signals # tail)))"

subsection \<open>Reading it back\<close>

text \<open>A boolean or numeric flag: absent, present, or of the wrong type (\<open>None\<close> outside).\<close>

definition optional_bool :: "json option \<Rightarrow> bool option option" where
  "optional_bool v = (case v of None \<Rightarrow> Some None | Some (JBool b) \<Rightarrow> Some (Some b) | _ \<Rightarrow> None)"

definition optional_num :: "json option \<Rightarrow> int option option" where
  "optional_num v = (case v of None \<Rightarrow> Some None | Some (JNum n) \<Rightarrow> Some (Some n) | _ \<Rightarrow> None)"

text \<open>\<open>isFlags\<close>, and the value as the record the client then reads; unknown keys are tolerated.\<close>

definition read_flags :: "json \<Rightarrow> conversation_flags option" where
  "read_flags v =
     (if entries v = None then None
      else case (optional_bool (field v ''pinned''), optional_bool (field v ''archived''),
                 optional_num (field v ''mutedUntil''), optional_bool (field v ''discloseName''),
                 optional_bool (field v ''archiveToVault'')) of
        (Some p, Some a, Some m, Some d, Some t) \<Rightarrow>
          Some \<lparr>fl_pinned = p, fl_archived = a, fl_muted_until = m, fl_disclose_name = d,
                fl_archive_to_vault = t\<rparr>
      | _ \<Rightarrow> None)"

definition read_string :: "json \<Rightarrow> jsstr option" where
  "read_string v = (case v of JStr s \<Rightarrow> Some s | _ \<Rightarrow> None)"

definition read_true :: "json \<Rightarrow> unit option" where
  "read_true v = (if v = JBool True then Some () else None)"

text \<open>One entry of a patch: \<open>null\<close> is a removal, and a missing \<open>v\<close> is neither.\<close>

definition read_entry :: "(int \<Rightarrow> int) \<Rightarrow> (json \<Rightarrow> 'v option) \<Rightarrow> json \<Rightarrow> (int \<times> 'v option) option" where
  "read_entry clamp value entry =
     (case (field entry ''at'', field entry ''v'') of
        (Some (JNum at), Some JNull) \<Rightarrow> Some (clamp at, None)
      | (Some (JNum at), Some v) \<Rightarrow>
          (case value v of None \<Rightarrow> None | Some x \<Rightarrow> Some (clamp at, Some x))
      | _ \<Rightarrow> None)"

fun read_entries ::
    "(int \<Rightarrow> int) \<Rightarrow> (json \<Rightarrow> 'v option) \<Rightarrow> (jsstr \<times> json) list \<Rightarrow> 'v patch \<Rightarrow> 'v patch option" where
  "read_entries clamp value [] acc = Some acc"
| "read_entries clamp value ((key, entry) # rest) acc =
     (case read_entry clamp value entry of
        None \<Rightarrow> None
      | Some e \<Rightarrow> read_entries clamp value rest (AList.update key e acc))"

definition read_patch :: "(int \<Rightarrow> int) \<Rightarrow> (json \<Rightarrow> 'v option) \<Rightarrow> json option \<Rightarrow> 'v patch option" where
  "read_patch clamp value raw =
     (case raw of None \<Rightarrow> None
      | Some j \<Rightarrow> (case entries j of None \<Rightarrow> None | Some kvs \<Rightarrow> read_entries clamp value kvs []))"

definition read_preferences ::
    "(jsstr \<Rightarrow> json option) \<Rightarrow> (int \<Rightarrow> int) \<Rightarrow> bytes \<Rightarrow> synced_preferences option" where
  "read_preferences parse clamp tail =
     (case parse (text_decode tail) of
        None \<Rightarrow> None
      | Some body \<Rightarrow>
          (case field body ''scalars'' of
             None \<Rightarrow> None
           | Some scalars \<Rightarrow>
               (case (field scalars ''at'', field scalars ''disclose'', field scalars ''vault'',
                      read_patch clamp read_flags (field body ''flags''),
                      read_patch clamp read_string (field body ''petnames''),
                      read_patch clamp read_true (field body ''blocked'')) of
                  (Some (JNum at), Some (JBool d), Some (JBool v), Some f, Some p, Some b) \<Rightarrow>
                    Some \<lparr>sp_at = clamp at, sp_disclose = d, sp_vault = v, sp_flags = f, sp_petnames = p,
                          sp_blocked = b\<rparr>
                | _ \<Rightarrow> None)))"

definition clamp_time :: "int \<Rightarrow> int \<Rightarrow> int" where
  "clamp_time now at = (if at > now + clock_skew_ms then now else at)"

definition open_signals ::
    "('k \<Rightarrow> bytes \<Rightarrow> bytes \<Rightarrow> bytes option) \<Rightarrow> (jsstr \<Rightarrow> json option) \<Rightarrow> int \<Rightarrow> 'k \<Rightarrow> bytes \<Rightarrow>
     (synced_signals \<times> synced_preferences option) option" where
  "open_signals dec parse now key sealed =
     (if length sealed \<le> iv_len then None
      else case unseal dec key sealed of
        None \<Rightarrow> None
      | Some plaintext \<Rightarrow>
          if length plaintext < plaintext_len then None
          else
            (let flags = plaintext ! 8;
                 signals = \<lparr>sy_read_receipts = and flags bit_read_receipts \<noteq> 0,
                            sy_typing = and flags bit_typing \<noteq> 0,
                            sy_presence = and flags bit_presence \<noteq> 0,
                            sy_calls = (and flags bit_calls_off = 0),
                            sy_at = clamp_time now (int (js_number (get_u64 plaintext)))\<rparr>;
                 tail = drop plaintext_len plaintext
             in if tail = [] \<or> length tail > max_preferences_bytes then Some (signals, None)
                else Some (signals, read_preferences parse (clamp_time now) tail)))"

subsection \<open>The session's side\<close>

text \<open>
  What \<open>Session\<close> keeps of all this: the settings and when they were decided, the stamps of the
  preferences, and the preferences in the stores that hold them. \<open>sn_vault\<close> is whether the archive
  holds its key, \<open>sn_importing\<close> whether an \<open>enable\<close> is waiting for WebCrypto to import one.
\<close>

record sync_session =
  sn_signals :: signal_settings
  sn_signals_at :: "int option"
  sn_scalars_at :: "int option"
  sn_flag_stamps :: stamps
  sn_petname_stamps :: stamps
  sn_blocked_stamps :: stamps
  sn_disclose :: bool
  sn_vault :: bool
  sn_importing :: bool
  sn_flags :: "conversation_flags valmap"
  sn_petnames :: "jsstr valmap"
  sn_blocked :: "account list"

datatype signal_key = KeyReadReceipts | KeyTyping | KeyPresence | KeyCalls

text \<open>\<open>setSignalSetting\<close>: refusing presence is told to the server first, and nothing is recorded when
  the server does not answer (\<open>None\<close>).\<close>

definition set_signal_setting ::
    "bool \<Rightarrow> signal_key \<Rightarrow> bool \<Rightarrow> int \<Rightarrow> sync_session \<Rightarrow> sync_session option" where
  "set_signal_setting server_ok key v now s =
     (if key = KeyPresence \<and> \<not> server_ok then None
      else Some (s\<lparr>sn_signals :=
        (case key of
           KeyReadReceipts \<Rightarrow> (sn_signals s)\<lparr>ss_read_receipts := v\<rparr>
         | KeyTyping \<Rightarrow> (sn_signals s)\<lparr>ss_typing := v\<rparr>
         | KeyPresence \<Rightarrow> (sn_signals s)\<lparr>ss_presence := Some v\<rparr>
         | KeyCalls \<Rightarrow> (sn_signals s)\<lparr>ss_calls := Some v\<rparr>),
        sn_signals_at := Some now\<rparr>))"

definition set_conversation_flags :: "jsstr \<Rightarrow> conversation_flags \<Rightarrow> int \<Rightarrow> sync_session \<Rightarrow> sync_session" where
  "set_conversation_flags room flags now s =
     s\<lparr>sn_flags := (if flags = no_flags then AList.delete room (sn_flags s)
                    else AList.update room flags (sn_flags s)),
       sn_flag_stamps := AList.update room now (sn_flag_stamps s)\<rparr>"

definition set_blocked :: "account \<Rightarrow> bool \<Rightarrow> int \<Rightarrow> sync_session \<Rightarrow> sync_session" where
  "set_blocked account blocked now s =
     (let rest = filter (\<lambda>known. known \<noteq> account) (sn_blocked s) in
      s\<lparr>sn_blocked := (if blocked then rest @ [account] else rest),
        sn_blocked_stamps := AList.update account now (sn_blocked_stamps s)\<rparr>)"

definition set_disclose_name :: "bool \<Rightarrow> int \<Rightarrow> sync_session \<Rightarrow> sync_session" where
  "set_disclose_name v now s = s\<lparr>sn_disclose := v, sn_scalars_at := Some now\<rparr>"

definition blocked_values :: "sync_session \<Rightarrow> unit valmap" where
  "blocked_values s = map (\<lambda>account. (account, ())) (uniq (sn_blocked s))"

definition synced_preferences_of :: "sync_session \<Rightarrow> synced_preferences option" where
  "synced_preferences_of s =
     (let p = \<lparr>sp_at = (case sn_scalars_at s of None \<Rightarrow> 0 | Some at \<Rightarrow> at),
               sp_disclose = sn_disclose s, sp_vault = sn_vault s,
               sp_flags = patch_of (sn_flags s) (sn_flag_stamps s),
               sp_petnames = patch_of (sn_petnames s) (sn_petname_stamps s),
               sp_blocked = patch_of (blocked_values s) (sn_blocked_stamps s)\<rparr>
      in if length (json_text (json_of_preferences p)) > max_preferences_bytes then None else Some p)"

definition synced_signals_of :: "int \<Rightarrow> sync_session \<Rightarrow> synced_signals" where
  "synced_signals_of now s =
     \<lparr>sy_read_receipts = ss_read_receipts (sn_signals s), sy_typing = ss_typing (sn_signals s),
      sy_presence = (ss_presence (sn_signals s) \<noteq> Some False),
      sy_calls = (ss_calls (sn_signals s) \<noteq> Some False),
      sy_at = (case sn_signals_at s of None \<Rightarrow> now | Some at \<Rightarrow> at)\<rparr>"

text \<open>\<open>emitSignals\<close>, up to the bytes handed to the group: \<open>None\<close> in a room with nobody else.\<close>

definition emit_signals ::
    "('k \<Rightarrow> bytes \<Rightarrow> bytes \<Rightarrow> bytes) \<Rightarrow> bytes \<Rightarrow> 'k \<Rightarrow> 'p list \<Rightarrow> int \<Rightarrow> sync_session \<Rightarrow>
     ((sync_error + content_error) + bytes) option" where
  "emit_signals enc iv key peers now s =
     (if peers = [] then None
      else Some (case seal_signals enc iv key (synced_signals_of now s) (synced_preferences_of s) of
          Inl e \<Rightarrow> Inl (Inl e)
        | Inr sealed \<Rightarrow>
            (case encode_signals sealed of Inl e \<Rightarrow> Inl (Inr e) | Inr out \<Rightarrow> Inr out)))"

definition absorb_settings :: "synced_signals \<Rightarrow> sync_session \<Rightarrow> bool \<times> sync_session" where
  "absorb_settings sig s =
     (if (case sn_signals_at s of None \<Rightarrow> True | Some at \<Rightarrow> sy_at sig > at)
      then (True, s\<lparr>sn_signals := \<lparr>ss_read_receipts = sy_read_receipts sig, ss_typing = sy_typing sig,
                       ss_presence = Some (sy_presence sig), ss_calls = Some (sy_calls sig)\<rparr>,
                     sn_signals_at := Some (sy_at sig)\<rparr>)
      else (False, s))"

definition absorb_scalars :: "synced_preferences \<Rightarrow> sync_session \<Rightarrow> bool \<times> sync_session" where
  "absorb_scalars p s =
     (if (case sn_scalars_at s of None \<Rightarrow> True | Some at \<Rightarrow> sp_at p > at)
      then (True, s\<lparr>sn_disclose := sp_disclose p,
                    sn_vault := (sn_vault s \<and> sp_vault p),
                    sn_importing := (sn_importing s \<or> sp_vault p \<and> \<not> sn_vault s),
                    sn_scalars_at := Some (sp_at p)\<rparr>)
      else (False, s))"

definition absorb_preferences :: "synced_preferences \<Rightarrow> sync_session \<Rightarrow> bool \<times> sync_session" where
  "absorb_preferences p s =
     (let (changed, s1) = absorb_scalars p s;
          f = merge (sn_flags s1) (sn_flag_stamps s1) (sp_flags p);
          n = merge (sn_petnames s1) (sn_petname_stamps s1) (sp_petnames p);
          b = merge (blocked_values s1) (sn_blocked_stamps s1) (sp_blocked p)
      in (changed \<or> merged_changed f \<or> merged_changed n \<or> merged_changed b \<or>
            stamps_moved f \<or> stamps_moved n \<or> stamps_moved b,
          s1\<lparr>sn_flags := (if merged_changed f then merged_values f else sn_flags s1),
             sn_petnames := (if merged_changed n then merged_values n else sn_petnames s1),
             sn_blocked := (if merged_changed b then map fst (merged_values b) else sn_blocked s1),
             sn_flag_stamps := merged_stamps f,
             sn_petname_stamps := merged_stamps n,
             sn_blocked_stamps := merged_stamps b\<rparr>))"

text \<open>\<open>absorbSignals\<close> on what was opened: the new state, and whether it is written to disk.\<close>

definition absorb_signals ::
    "(synced_signals \<times> synced_preferences option) option \<Rightarrow> sync_session \<Rightarrow> bool \<times> sync_session" where
  "absorb_signals opened s =
     (case opened of
        None \<Rightarrow> (False, s)
      | Some (sig, prefs) \<Rightarrow>
          (let (changed, s1) = absorb_settings sig s in
           case prefs of
             None \<Rightarrow> (changed, s1)
           | Some p \<Rightarrow> (let (moved, s2) = absorb_preferences p s1 in (changed \<or> moved, s2))))"

subsection \<open>The seal\<close>

lemma settings_byte_bits:
  "(and (settings_byte s) bit_read_receipts \<noteq> 0) = sy_read_receipts s"
  "(and (settings_byte s) bit_typing \<noteq> 0) = sy_typing s"
  "(and (settings_byte s) bit_presence \<noteq> 0) = sy_presence s"
  "(and (settings_byte s) bit_calls_off = 0) = sy_calls s"
  by (cases "sy_read_receipts s"; cases "sy_typing s"; cases "sy_presence s"; cases "sy_calls s";
      simp add: settings_byte_def sync_bits)+

lemma field_JObj: "field (JObj kvs) k = map_of kvs (js k)"
  by (simp add: field_def)

lemma update_append_new: "key \<notin> fst ` set acc \<Longrightarrow> AList.update key e acc = acc @ [(key, e)]"
  by (induction acc) auto

lemma read_entry_value:
  "w \<noteq> JNull \<Longrightarrow> read_entry clamp read_v (JObj [(js ''at'', JNum at), (js ''v'', w)]) =
     (case read_v w of None \<Rightarrow> None | Some x \<Rightarrow> Some (clamp at, Some x))"
  by (cases w) (simp_all add: read_entry_def field_JObj)

lemma read_entry_removal:
  "read_entry clamp read_v (JObj [(js ''at'', JNum at), (js ''v'', JNull)]) = Some (clamp at, None)"
  by (simp add: read_entry_def field_JObj)

lemma read_entries_json:
  assumes "\<And>x. j x \<noteq> JNull" and "\<And>x. read_v (j x) = Some x"
    and "distinct (map fst acc @ map fst p)"
  shows "read_entries clamp read_v (map (\<lambda>(key, at, v).
      (key, JObj [(js ''at'', JNum at), (js ''v'', case v of None \<Rightarrow> JNull | Some x \<Rightarrow> j x)])) p) acc =
    Some (acc @ map (\<lambda>(key, at, v). (key, clamp at, v)) p)"
  using assms(3)
proof (induction p arbitrary: acc)
  case (Cons e p)
  obtain key at v where e: "e = (key, at, v)" by (cases e) auto
  have "read_entry clamp read_v (JObj [(js ''at'', JNum at), (js ''v'', case v of None \<Rightarrow> JNull | Some x \<Rightarrow> j x)]) =
      Some (clamp at, v)"
    using assms(1,2) by (cases v) (simp_all add: read_entry_value read_entry_removal)
  moreover have "AList.update key (clamp at, v) acc = acc @ [(key, clamp at, v)]"
    using Cons.prems by (intro update_append_new) (auto simp: e)
  ultimately show ?case using Cons.IH [of "acc @ [(key, clamp at, v)]"] Cons.prems by (simp add: e)
qed simp

lemma read_patch_json:
  assumes "\<And>x. j x \<noteq> JNull" and "\<And>x. read_v (j x) = Some x" and "distinct (map fst p)"
  shows "read_patch clamp read_v (Some (json_of_patch j p)) = Some (map (\<lambda>(key, at, v). (key, clamp at, v)) p)"
  using read_entries_json [OF assms(1,2), of "[]" p] assms(3)
  by (simp add: read_patch_def json_of_patch_def entries_def)

lemma read_flags_json: "read_flags (json_of_flags f) = Some f"
  by (cases f)
    (auto simp: read_flags_def json_of_flags_def entries_def field_JObj optional_bool_def optional_num_def
      split: option.splits)

lemma json_of_flags_object [simp]: "json_of_flags f \<noteq> JNull"
  by (simp add: json_of_flags_def)

definition clamp_preferences :: "(int \<Rightarrow> int) \<Rightarrow> synced_preferences \<Rightarrow> synced_preferences" where
  "clamp_preferences clamp p =
     \<lparr>sp_at = clamp (sp_at p), sp_disclose = sp_disclose p, sp_vault = sp_vault p,
      sp_flags = map (\<lambda>(k, at, v). (k, clamp at, v)) (sp_flags p),
      sp_petnames = map (\<lambda>(k, at, v). (k, clamp at, v)) (sp_petnames p),
      sp_blocked = map (\<lambda>(k, at, v). (k, clamp at, v)) (sp_blocked p)\<rparr>"

definition preferences_ok :: "synced_preferences \<Rightarrow> bool" where
  "preferences_ok p \<longleftrightarrow> distinct (map fst (sp_flags p)) \<and> distinct (map fst (sp_petnames p)) \<and>
     distinct (map fst (sp_blocked p)) \<and> plain_text (json_text (json_of_preferences p))"

lemma read_preferences_json:
  assumes "preferences_ok p" and "parse (json_text (json_of_preferences p)) = Some (json_of_preferences p)"
  shows "read_preferences parse clamp (text_encode (json_text (json_of_preferences p))) =
    Some (clamp_preferences clamp p)"
proof -
  have "read_patch clamp read_flags (Some (json_of_patch json_of_flags (sp_flags p))) =
      Some (map (\<lambda>(k, at, v). (k, clamp at, v)) (sp_flags p))"
    using assms(1) by (intro read_patch_json) (auto simp: read_flags_json preferences_ok_def)
  moreover have "read_patch clamp read_string (Some (json_of_patch JStr (sp_petnames p))) =
      Some (map (\<lambda>(k, at, v). (k, clamp at, v)) (sp_petnames p))"
    using assms(1) by (intro read_patch_json) (auto simp: read_string_def preferences_ok_def)
  moreover have "read_patch clamp read_true (Some (json_of_patch (\<lambda>_. JBool True) (sp_blocked p))) =
      Some (map (\<lambda>(k, at, v). (k, clamp at, v)) (sp_blocked p))"
    using assms(1) by (intro read_patch_json) (auto simp: read_true_def preferences_ok_def)
  ultimately show ?thesis
    using assms
    by (simp add: read_preferences_def text_decode_encode preferences_ok_def)
      (simp add: json_of_preferences_def field_JObj clamp_preferences_def)
qed

lemma length_seal_signals:
  assumes "aead enc dec" and "length iv = 12"
    and "seal_signals enc iv key sig prefs = Inr sealed"
  shows "length sealed = length (preferences_tail prefs) + 37"
  using assms length_seal [OF assms(1,2), of key]
  by (auto simp: seal_signals_def Let_def split: if_splits)

lemma open_seal_signals:
  assumes "aead enc dec" and "length iv = 12"
    and "0 \<le> sy_at sig" and "sy_at sig < 2 ^ 53"
    and "seal_signals enc iv key sig prefs = Inr sealed"
  shows "open_signals dec parse now key sealed =
    Some (sig\<lparr>sy_at := clamp_time now (sy_at sig)\<rparr>,
      if preferences_tail prefs = [] then None
      else read_preferences parse (clamp_time now) (preferences_tail prefs))"
proof -
  let ?t = "preferences_tail prefs"
  let ?p = "set_u64 (max 0 (sy_at sig)) @ settings_byte sig # ?t"
  from assms(5) have sealed: "sealed = seal enc iv key ?p" and len: "length ?t \<le> max_preferences_bytes"
    by (auto simp: seal_signals_def Let_def split: if_splits)
  have "unseal dec key sealed = Some ?p" unfolding sealed by (rule unseal_seal [OF assms(1,2)])
  moreover have "\<not> length sealed \<le> iv_len" unfolding sealed length_seal [OF assms(1,2)] by (simp add: iv_len_def)
  moreover have "?p ! 8 = settings_byte sig" by (simp add: nth_append)
  moreover have "get_u64 ?p = nat (sy_at sig)" using get_set_u64 [of "sy_at sig"] assms(3,4) by simp
  moreover have "js_number (nat (sy_at sig)) = nat (sy_at sig)" using assms(3,4) by (intro js_number_exact) simp
  moreover have "drop plaintext_len ?p = ?t" by (simp add: plaintext_len_def)
  ultimately show ?thesis
    using len assms(3)
    by (simp add: open_signals_def settings_byte_bits) (simp add: plaintext_len_def)
qed

text \<open>The settings reach the account's other devices as they were: what one device seals, another
  opens, every switch included, and the preferences with it, each clock clamped to the moment of
  receipt when it runs more than five minutes ahead. A message of the older, nine-byte form is settings
  with no preferences, not a request to clear them.\<close>

theorem settings_roundtrip:
  assumes "aead enc dec" and "length iv = 12" and "0 \<le> sy_at sig" and "sy_at sig < 2 ^ 53"
    and "preferences_ok p" and "parse (json_text (json_of_preferences p)) = Some (json_of_preferences p)"
    and "seal_signals enc iv key sig (Some p) = Inr sealed" and "seal_signals enc iv key sig None = Inr older"
  shows "open_signals dec parse now key sealed =
      Some (sig\<lparr>sy_at := clamp_time now (sy_at sig)\<rparr>, Some (clamp_preferences (clamp_time now) p)) \<and>
    open_signals dec parse now key older = Some (sig\<lparr>sy_at := clamp_time now (sy_at sig)\<rparr>, None)"
proof -
  have "2 \<le> length (json_text (json_of_preferences p))" by (simp add: json_of_preferences_def)
  then have "preferences_tail (Some p) \<noteq> []"
    using length_text_encode_ge [of "json_text (json_of_preferences p)"] by (auto simp: preferences_tail_def)
  then show ?thesis
    using open_seal_signals [OF assms(1-4,7)] open_seal_signals [OF assms(1-4,8)]
      read_preferences_json [of p parse "clamp_time now"] assms(5,6)
    by (simp add: preferences_tail_def)
qed

theorem settings_roundtrip_witness:
  "(let sig = \<lparr>sy_read_receipts = False, sy_typing = True, sy_presence = False, sy_calls = True, sy_at = 9000000\<rparr>;
        p = \<lparr>sp_at = 0, sp_disclose = False, sp_vault = True, sp_flags = [], sp_petnames = [], sp_blocked = []\<rparr>;
        iv = replicate 12 0
    in case seal_signals clear_enc iv () sig (Some p) of
         Inl _ \<Rightarrow> False
       | Inr sealed \<Rightarrow>
           open_signals clear_dec (\<lambda>_. Some (json_of_preferences p)) 5 () sealed = Some (sig\<lparr>sy_at := 5\<rparr>, Some p))"
proof -
  let ?sig = "\<lparr>sy_read_receipts = False, sy_typing = True, sy_presence = False, sy_calls = True, sy_at = 9000000\<rparr>"
  let ?p = "\<lparr>sp_at = 0, sp_disclose = False, sp_vault = True, sp_flags = [], sp_petnames = [], sp_blocked = []\<rparr>"
  have "ascii (json_text (json_of_preferences ?p))"
    by (simp add: json_of_preferences_def json_of_patch_def commas_def decimal_int_def json_string_def
        json_unit_def js_def high_surrogate_def low_surrogate_def ascii_def)
  then have ok: "preferences_ok ?p" and len: "length (preferences_tail (Some ?p)) = length (json_text (json_of_preferences ?p))"
    by (simp_all add: preferences_ok_def plain_text_ascii preferences_tail_def length_text_ascii)
  have "length (preferences_tail (Some ?p)) \<le> max_preferences_bytes"
    unfolding len
    by (simp add: json_of_preferences_def json_of_patch_def commas_def decimal_int_def json_string_def
        json_unit_def js_def high_surrogate_def low_surrogate_def max_preferences_bytes_def)
  then obtain sealed where s: "seal_signals clear_enc (replicate 12 0) () ?sig (Some ?p) = Inr sealed"
    by (simp add: seal_signals_def Let_def)
  obtain older where o: "seal_signals clear_enc (replicate 12 0) () ?sig None = Inr older"
    by (simp add: seal_signals_def preferences_tail_def max_preferences_bytes_def)
  from settings_roundtrip [OF aead_clear _ _ _ ok _ s o, of "\<lambda>_. Some (json_of_preferences ?p)" 5]
  show ?thesis by (simp add: s Let_def clamp_preferences_def clamp_time_def clock_skew_ms_def)
qed

subsection \<open>What fits in a message\<close>

lemma emit_signals_size:
  assumes "aead enc dec" and "length iv = 12" and "peers \<noteq> []"
  shows "(\<exists>out. emit_signals enc iv key peers now s = Some (Inr out)) \<longleftrightarrow>
    length (preferences_tail (synced_preferences_of s)) \<le> 119"
proof (cases "seal_signals enc iv key (synced_signals_of now s) (synced_preferences_of s)")
  case (Inl e)
  then have "length (preferences_tail (synced_preferences_of s)) > max_preferences_bytes"
    by (auto simp: seal_signals_def Let_def split: if_splits)
  then show ?thesis using Inl assms(3) by (simp add: emit_signals_def max_preferences_bytes_def)
next
  case (Inr sealed)
  from length_seal_signals [OF assms(1,2) Inr] show ?thesis
    using Inr assms(3)
    by (auto simp: emit_signals_def encode_signals_def sealed_signals_min_bytes_def sealed_signals_max_bytes_def)
qed

lemma length_json_patch: "2 \<le> length (json_text (json_of_patch j p))"
  by (simp add: json_of_patch_def)

lemma length_commas_mem: "x \<in> set xs \<Longrightarrow> length x \<le> length (commas xs)"
  using member_le_sum_list [of "length x" "map length xs"] by (fastforce simp: length_commas)

lemma length_json_patch_entry:
  assumes "k \<in> fst ` set p"
  shows "length k + 5 \<le> length (json_text (json_of_patch j p))"
proof -
  from assms obtain at v where e: "(k, at, v) \<in> set p" by auto
  define w where "w = json_text (JObj [(js ''at'', JNum at), (js ''v'', case v of None \<Rightarrow> JNull | Some x \<Rightarrow> j x)])"
  have "json_string k @ js '':'' @ w \<in> set (map (\<lambda>(k, v). json_string k @ js '':'' @ json_text v)
      (map (\<lambda>(key, at, v). (key, JObj [(js ''at'', JNum at), (js ''v'', case v of None \<Rightarrow> JNull | Some x \<Rightarrow> j x)])) p))"
    using e by (auto simp: w_def image_iff intro!: bexI [of _ "(k, at, v)"])
  from length_commas_mem [OF this] length_json_string [of k]
  show ?thesis by (simp add: json_of_patch_def del: length_map)
qed

lemma length_json_preferences:
  "length (json_text (json_of_preferences p)) \<ge> 81 +
     length (json_text (json_of_patch json_of_flags (sp_flags p))) +
     length (json_text (json_of_patch JStr (sp_petnames p))) +
     length (json_text (json_of_patch (\<lambda>_. JBool True) (sp_blocked p)))"
proof -
  have s: "length n + 2 \<le> length (json_string (js n))" for n using length_json_string [of "js n"] by simp
  have d: "1 \<le> length (decimal_int n)" for n
    using length_decimal by (simp add: decimal_int_def)
  show ?thesis
    using s [of "''scalars''"] s [of "''at''"] s [of "''disclose''"] s [of "''vault''"] s [of "''flags''"]
      s [of "''petnames''"] s [of "''blocked''"] d [of "sp_at p"]
    by (simp add: json_of_preferences_def commas_def)
qed

text \<open>C33. The announcement stops as soon as there is a preference to announce. A sealed message may carry
  at most 128 bytes of plaintext and nine of them are the settings, so that the JSON has 119: once one
  conversation has flags, one account is blocked or one petname is given, under an identifier of 32
  characters or more, every announcement is refused on this device, and the settings with it.\<close>

theorem preferences_never_fit:
  assumes "aead enc dec" and "length iv = 12" and "peers \<noteq> []"
    and "k \<in> fst ` set (sn_flag_stamps s) \<union> fst ` set (sn_petname_stamps s) \<union> fst ` set (sn_blocked_stamps s)"
    and "32 \<le> length k" and "synced_preferences_of s \<noteq> None"
  shows "\<exists>e. emit_signals enc iv key peers now s = Some (Inl e)"
proof -
  from assms(6) obtain p where p: "synced_preferences_of s = Some p" by auto
  then have keys: "fst ` set (sp_flags p) = fst ` set (sn_flag_stamps s)"
    "fst ` set (sp_petnames p) = fst ` set (sn_petname_stamps s)"
    "fst ` set (sp_blocked p) = fst ` set (sn_blocked_stamps s)"
    by (force simp: synced_preferences_of_def Let_def patch_of_def split: if_splits)+
  have "length (json_text (json_of_preferences p)) > 119"
    using assms(4,5) length_json_preferences [of p]
      length_json_patch [of json_of_flags "sp_flags p"] length_json_patch [of JStr "sp_petnames p"]
      length_json_patch [of "\<lambda>_. JBool True" "sp_blocked p"]
      length_json_patch_entry [of k "sp_flags p" json_of_flags]
      length_json_patch_entry [of k "sp_petnames p" JStr]
      length_json_patch_entry [of k "sp_blocked p" "\<lambda>_. JBool True"]
    unfolding keys by fastforce
  then have "length (preferences_tail (synced_preferences_of s)) > 119"
    using length_text_encode_ge [of "json_text (json_of_preferences p)"] by (simp add: p preferences_tail_def)
  then have "\<nexists>out. emit_signals enc iv key peers now s = Some (Inr out)"
    using emit_signals_size [OF assms(1-3)] by simp
  moreover have "emit_signals enc iv key peers now s \<noteq> None" using assms(3) by (simp add: emit_signals_def)
  ultimately show ?thesis by (metis option.exhaust sum.exhaust)
qed

definition started :: sync_session where
  "started = \<lparr>sn_signals = \<lparr>ss_read_receipts = True, ss_typing = True, ss_presence = None, ss_calls = None\<rparr>,
     sn_signals_at = None, sn_scalars_at = None, sn_flag_stamps = [], sn_petname_stamps = [],
     sn_blocked_stamps = [], sn_disclose = False, sn_vault = False, sn_importing = False, sn_flags = [],
     sn_petnames = [], sn_blocked = []\<rparr>"

theorem preferences_never_fit_witness:
  "\<exists>e. emit_signals clear_enc (replicate 12 0) () [()] 7
     (set_blocked (replicate 32 0x61) True 5 started) = Some (Inl e)"
proof (rule preferences_never_fit [OF aead_clear])
  let ?s = "set_blocked (replicate 32 0x61) True 5 started"
  show "replicate 32 0x61 \<in> fst ` set (sn_flag_stamps ?s) \<union> fst ` set (sn_petname_stamps ?s) \<union>
      fst ` set (sn_blocked_stamps ?s)"
    by (simp add: set_blocked_def started_def)
  have n: "decimal_int 0 = [0x30]" "decimal_int 5 = [0x35]"
    by (simp_all add: decimal_int_def decimal.simps [of 5])
  note l = length_json_string_le [of "js n" for n, unfolded length_js]
  show "synced_preferences_of ?s \<noteq> None"
    using l [of "''scalars''"] l [of "''at''"] l [of "''disclose''"] l [of "''vault''"] l [of "''flags''"]
      l [of "''petnames''"] l [of "''blocked''"] l [of "''v''"] length_json_string_le [of "replicate 32 0x61"]
    by (simp add: synced_preferences_of_def Let_def set_blocked_def started_def json_of_preferences_def
        json_of_patch_def patch_of_def blocked_values_def max_preferences_bytes_def commas_def n)
qed simp_all

subsection \<open>Absorbing what other devices announce\<close>

definition held_settings :: "sync_session \<Rightarrow> unit \<Rightarrow> (int \<times> signal_settings) option" where
  "held_settings s u = map_option (\<lambda>at. (at, sn_signals s)) (sn_signals_at s)"

definition settings_of :: "synced_signals \<Rightarrow> signal_settings" where
  "settings_of sig = \<lparr>ss_read_receipts = sy_read_receipts sig, ss_typing = sy_typing sig,
     ss_presence = Some (sy_presence sig), ss_calls = Some (sy_calls sig)\<rparr>"

interpretation settings: lww "\<lambda>sig s. snd (absorb_settings sig s)" "\<lambda>sig. Some ((), sy_at sig, settings_of sig)"
  held_settings
proof
  fix sig s k
  show "held_settings (snd (absorb_settings sig s)) k =
    (case Some ((), sy_at sig, settings_of sig) of
       Some (k', t, v) \<Rightarrow> if k' = k \<and> newer t (held_settings s k) then Some (t, v) else held_settings s k
     | None \<Rightarrow> held_settings s k)"
    by (cases "sn_signals_at s") (auto simp: held_settings_def absorb_settings_def settings_of_def)
qed

lemma absorb_scalars_frame [frame_simps]:
  "sn_flags (snd (absorb_scalars p s)) = sn_flags s"
  "sn_flag_stamps (snd (absorb_scalars p s)) = sn_flag_stamps s"
  "sn_petnames (snd (absorb_scalars p s)) = sn_petnames s"
  "sn_petname_stamps (snd (absorb_scalars p s)) = sn_petname_stamps s"
  "sn_blocked (snd (absorb_scalars p s)) = sn_blocked s"
  "sn_blocked_stamps (snd (absorb_scalars p s)) = sn_blocked_stamps s"
  "sn_signals (snd (absorb_scalars p s)) = sn_signals s"
  "sn_signals_at (snd (absorb_scalars p s)) = sn_signals_at s"
  by (simp_all add: absorb_scalars_def)

text \<open>Blocks survive the trip through the list they are stored as.\<close>

lemma map_of_blocked: "map_of (map (\<lambda>a. (a, ())) xs) k = (if k \<in> set xs then Some () else None)"
  by (induction xs) auto

definition held_block :: "sync_session \<Rightarrow> account \<Rightarrow> (int \<times> unit option) option" where
  "held_block s k = held_in (blocked_values s, sn_blocked_stamps s) k"

lemma blocked_values_map_fst:
  "map_of (map (\<lambda>a. (a, ())) (uniq (map fst (vs :: unit valmap)))) k = map_of vs k"
proof (cases "map_of vs k")
  case None
  then have "k \<notin> set (map fst vs)" by (simp add: map_of_eq_None_iff)
  with None show ?thesis by (simp only: map_of_blocked set_uniq) simp
next
  case (Some u)
  then have "k \<in> set (map fst vs)" by (force dest: map_of_SomeD)
  with Some show ?thesis by (simp only: map_of_blocked set_uniq) simp
qed

lemma held_block_absorb:
  assumes "distinct (map fst (sp_blocked p))"
  shows "held_block (snd (absorb_preferences p s)) k =
    (case map_of (sp_blocked p) k of
       Some (at, v) \<Rightarrow> if newer at (held_block s k) then Some (at, v) else held_block s k
     | None \<Rightarrow> held_block s k)"
proof -
  let ?s1 = "snd (absorb_scalars p s)"
  let ?m = "merge (blocked_values s) (sn_blocked_stamps s) (sp_blocked p)"
  have vs: "map_of (blocked_values (snd (absorb_preferences p s))) = map_of (merged_values ?m)"
    and st: "sn_blocked_stamps (snd (absorb_preferences p s)) = merged_stamps ?m"
    using merge_fold_unchanged [of "sn_blocked_stamps s" "sp_blocked p"]
    by (auto simp: absorb_preferences_def Let_def case_prod_beta blocked_values_def frame_simps merge_def
        blocked_values_map_fst fun_eq_iff)
  have "held_block (snd (absorb_preferences p s)) k = held_in (merged_values ?m, merged_stamps ?m) k"
    by (simp add: held_block_def held_in_def vs st)
  then show ?thesis unfolding merge_held [OF assms] held_block_def .
qed

text \<open>A block decided on any device reaches every other, whatever the order: absorbing an
  announcement changes who is blocked exactly for the accounts whose announced decision is strictly
  later than the one held here, an unblock included, and the settings likewise as one register.\<close>

theorem blocks_follow_later_decision:
  assumes "distinct (map fst (sp_blocked p))"
  shows "held_block (snd (absorb_signals (Some (sig, Some p)) s)) k =
      (case map_of (sp_blocked p) k of
         Some (at, v) \<Rightarrow> if newer at (held_block s k) then Some (at, v) else held_block s k
       | None \<Rightarrow> held_block s k) \<and>
    held_settings (snd (absorb_signals (Some (sig, None)) s)) () =
      (if newer (sy_at sig) (held_settings s ()) then Some (sy_at sig, settings_of sig) else held_settings s ())"
proof -
  have "held_block (snd (absorb_settings sig s)) k = held_block s k"
    by (simp add: held_block_def absorb_settings_def blocked_values_def)
  moreover note held_block_absorb [OF assms, of "snd (absorb_settings sig s)" k]
  moreover have "held_block (snd (absorb_signals (Some (sig, Some p)) s)) k =
      held_block (snd (absorb_preferences p (snd (absorb_settings sig s)))) k"
    by (simp add: absorb_signals_def case_prod_beta Let_def)
  moreover note settings.held_put [of sig s "()"]
  moreover have "snd (absorb_signals (Some (sig, None)) s) = snd (absorb_settings sig s)"
    by (simp add: absorb_signals_def case_prod_beta Let_def)
  ultimately show ?thesis by (simp only: option.case prod.case simp_thms)
qed

theorem blocks_follow_later_decision_witness:
  "held_block (snd (absorb_signals (Some (synced_signals_of 7 started,
      Some \<lparr>sp_at = 0, sp_disclose = False, sp_vault = False, sp_flags = [], sp_petnames = [],
            sp_blocked = [(js ''eve'', 9, None)]\<rparr>))
     (set_blocked (js ''eve'') True 5 started))) (js ''eve'') = Some (9, None)"
proof -
  let ?p = "\<lparr>sp_at = 0, sp_disclose = False, sp_vault = False, sp_flags = [], sp_petnames = [],
            sp_blocked = [(js ''eve'', 9, None)]\<rparr>"
  have "distinct (map fst (sp_blocked ?p))" by simp
  from blocks_follow_later_decision [OF this, of "synced_signals_of 7 started" "set_blocked (js ''eve'') True 5 started" "js ''eve''"]
  show ?thesis
    by (simp add: held_block_def held_in_def set_blocked_def started_def)
qed

text \<open>A device whose clock is stuck in the future wins every merge, not one: its stamp is clamped to
  the moment of each receipt, so that the second receipt of the very same announcement overrides a
  decision made in between.\<close>

theorem stuck_clock_wins_again:
  assumes "n1 < t" and "t < n2" and "n2 + clock_skew_ms < declared" and "n1 + clock_skew_ms < declared"
  shows "(let at = \<lambda>now. sig\<lparr>sy_at := clamp_time now declared\<rparr>;
      s1 = snd (absorb_settings (at n1) s);
      s2 = the (set_signal_setting True KeyReadReceipts v t s1);
      s3 = snd (absorb_settings (at n2) s2)
    in ss_read_receipts (sn_signals s2) = v \<and> ss_read_receipts (sn_signals s3) = sy_read_receipts sig)"
  using assms by (simp add: Let_def absorb_settings_def set_signal_setting_def clamp_time_def)

theorem stuck_clock_wins_again_witness:
  "ss_read_receipts (sn_signals (snd (absorb_settings
     \<lparr>sy_read_receipts = False, sy_typing = True, sy_presence = True, sy_calls = True, sy_at = clamp_time 30 9000000\<rparr>
     (the (set_signal_setting True KeyReadReceipts True 20 (snd (absorb_settings
       \<lparr>sy_read_receipts = False, sy_typing = True, sy_presence = True, sy_calls = True, sy_at = clamp_time 10 9000000\<rparr>
       started))))))) = False"
  using stuck_clock_wins_again
    [of 10 20 30 9000000 "\<lparr>sy_read_receipts = False, sy_typing = True, sy_presence = True, sy_calls = True, sy_at = 0\<rparr>"
      started True]
  by (simp add: Let_def clock_skew_ms_def)

text \<open>Two decisions nobody made. A device that never decided the two scalar preferences announces
  them at time zero, and a device that holds them without a stamp takes that for a decision. And when
  another device turns the vault on, the state written down with the new stamp still says that it is
  off, because the key is imported after the write.\<close>

theorem scalars_decided_by_nobody:
  "(let p = the (synced_preferences_of started);
        s = snd (absorb_scalars p (started\<lparr>sn_disclose := True\<rparr>))
    in sp_at p = 0 \<and> \<not> sn_disclose s) \<and>
   (sn_vault s0 = False \<and> sp_vault p0 \<and> newer (sp_at p0) (map_option (\<lambda>at. (at, ())) (sn_scalars_at s0)) \<longrightarrow>
      (let s = snd (absorb_preferences p0 s0) in sn_scalars_at s = Some (sp_at p0) \<and> \<not> sn_vault s \<and> sn_importing s))"
proof (intro conjI impI)
  show "let p = the (synced_preferences_of started);
        s = snd (absorb_scalars p (started\<lparr>sn_disclose := True\<rparr>))
    in sp_at p = 0 \<and> \<not> sn_disclose s"
    by (simp add: Let_def synced_preferences_of_def started_def absorb_scalars_def json_of_preferences_def
        json_of_patch_def patch_of_def blocked_values_def commas_def max_preferences_bytes_def
        decimal_int_def decimal_0 json_string_def json_unit_def js_def high_surrogate_def low_surrogate_def)
next
  assume "sn_vault s0 = False \<and> sp_vault p0 \<and> newer (sp_at p0) (map_option (\<lambda>at. (at, ())) (sn_scalars_at s0))"
  then show "let s = snd (absorb_preferences p0 s0) in sn_scalars_at s = Some (sp_at p0) \<and> \<not> sn_vault s \<and> sn_importing s"
    by (cases "sn_scalars_at s0")
      (simp_all add: absorb_preferences_def absorb_scalars_def Let_def not_le)
qed

theorem scalars_decided_by_nobody_witness:
  "(let p = \<lparr>sp_at = 9, sp_disclose = False, sp_vault = True, sp_flags = [], sp_petnames = [], sp_blocked = []\<rparr>;
        s = snd (absorb_preferences p started)
    in sn_scalars_at s = Some 9 \<and> \<not> sn_vault s)"
proof -
  let ?p = "\<lparr>sp_at = 9, sp_disclose = False, sp_vault = True, sp_flags = [], sp_petnames = [], sp_blocked = []\<rparr>"
  have "sn_vault started = False \<and> sp_vault ?p \<and> newer (sp_at ?p) (map_option (\<lambda>at. (at, ())) (sn_scalars_at started))"
    by (simp add: started_def)
  with scalars_decided_by_nobody [of started ?p] show ?thesis by (simp add: Let_def)
qed

end
