(* ===== verification/Json.thy ===== *)
theory Json
  imports Platform
begin

text \<open>
  Records, maps and arrays as the stores of the client write them in JSON, and the readers that take them
  back: what the codecs of the session, of its history and of the archive have in common.
\<close>

text \<open>\<open>JSON.stringify\<close> leaves out a property that is \<open>undefined\<close>.\<close>

definition json_object :: "(string \<times> json option) list \<Rightarrow> json" where
  "json_object ps = JObj (concat (map (\<lambda>(k, v). case v of None \<Rightarrow> [] | Some j \<Rightarrow> [(js k, j)]) ps))"

lemma field_json_object:
  "distinct (map fst ps) \<Longrightarrow> field (json_object ps) k = (case map_of ps k of None \<Rightarrow> None | Some v \<Rightarrow> v)"
proof (induction ps)
  case (Cons p ps)
  obtain k' v where p: "p = (k', v)" by (cases p)
  have "k' \<notin> fst ` set ps" using Cons.prems by (simp add: p)
  then have "map_of ps k' = None" by (simp add: map_of_eq_None_iff)
  with Cons show ?case by (cases v) (auto simp: p json_object_def field_def)
qed (simp add: json_object_def field_def)

definition json_map :: "('v \<Rightarrow> json) \<Rightarrow> (jsstr \<times> 'v) list \<Rightarrow> json" where
  "json_map f kvs = JObj (map (\<lambda>(k, v). (k, f v)) kvs)"

definition json_list :: "('v \<Rightarrow> json) \<Rightarrow> 'v list \<Rightarrow> json" where
  "json_list f xs = JArr (map f xs)"

fun read_all :: "('j \<Rightarrow> 'v option) \<Rightarrow> 'j list \<Rightarrow> 'v list option" where
  "read_all r [] = Some []"
| "read_all r (j # rest) =
     (case r j of None \<Rightarrow> None | Some v \<Rightarrow> map_option (\<lambda>vs. v # vs) (read_all r rest))"

definition read_map :: "(json \<Rightarrow> 'v option) \<Rightarrow> json \<Rightarrow> (jsstr \<times> 'v) list option" where
  "read_map r j = (case j of JObj kvs \<Rightarrow> read_all (\<lambda>(k, v). map_option (Pair k) (r v)) kvs | _ \<Rightarrow> None)"

definition read_list :: "(json \<Rightarrow> 'v option) \<Rightarrow> json \<Rightarrow> 'v list option" where
  "read_list r j = (case j of JArr items \<Rightarrow> read_all r items | _ \<Rightarrow> None)"

definition read_num :: "json \<Rightarrow> int option" where
  "read_num j = (case j of JNum n \<Rightarrow> Some n | _ \<Rightarrow> None)"

definition read_nat :: "json \<Rightarrow> nat option" where
  "read_nat j = (case j of JNum n \<Rightarrow> Some (nat n) | _ \<Rightarrow> None)"

definition read_bool :: "json \<Rightarrow> bool option" where
  "read_bool j = (case j of JBool b \<Rightarrow> Some b | _ \<Rightarrow> None)"

text \<open>A field that is kept only when it is a number.\<close>

definition number_field :: "json option \<Rightarrow> int option" where
  "number_field v = (case v of Some (JNum n) \<Rightarrow> Some n | _ \<Rightarrow> None)"

lemma number_field_back [simp]: "number_field (map_option JNum n) = n" "number_field (Some (JNum k)) = Some k"
  by (cases n) (simp_all add: number_field_def)

lemma read_all_back: "(\<And>x. x \<in> set xs \<Longrightarrow> r (f x) = Some x) \<Longrightarrow> read_all r (map f xs) = Some xs"
  by (induction xs) auto

lemma read_map_back: "(\<And>v. r (f v) = Some v) \<Longrightarrow> read_map r (json_map f kvs) = Some kvs"
  unfolding read_map_def json_map_def json.case by (rule read_all_back) auto

lemma read_list_back: "(\<And>v. r (f v) = Some v) \<Longrightarrow> read_list r (json_list f xs) = Some xs"
  by (simp add: read_list_def json_list_def read_all_back)

lemma read_basic [simp]:
  "read_num (JNum n) = Some n" "read_nat (JNum (int k)) = Some k" "read_bool (JBool b) = Some b"
  by (simp_all add: read_num_def read_nat_def read_bool_def)

end
