(* ===== verification/SessionCodec.thy ===== *)
theory SessionCodec
  imports SignalSync Trust Json
begin

text \<open>
  \<open>session-codec.ts\<close>, which turns a \<open>StoredSession\<close> into the bytes of a file, \<open>storage-native.ts\<close>, which
  seals them, and the door of \<open>Session.open\<close>. \<open>JSON.parse\<close> and the device cipher are parameters. Several
  fields of the parsed value are cast to their type without a check; the model follows them on the
  shape this module writes, and any other shape is \<open>OtherShape\<close>.
\<close>

subsection \<open>The fields\<close>

record lock_envelope =
  le_salt :: jsstr
  le_wrapped :: jsstr

definition json_of_lock :: "lock_envelope \<Rightarrow> json" where
  "json_of_lock l = json_object [(''salt'', Some (JStr (le_salt l))), (''wrapped'', Some (JStr (le_wrapped l)))]"

definition read_lock :: "json \<Rightarrow> lock_envelope option" where
  "read_lock j =
     (case (Option.bind (field j ''salt'') read_string, Option.bind (field j ''wrapped'') read_string) of
        (Some s, Some w) \<Rightarrow> Some \<lparr>le_salt = s, le_wrapped = w\<rparr> | _ \<Rightarrow> None)"

definition json_of_signals :: "signal_settings \<Rightarrow> json" where
  "json_of_signals s = json_object
     [(''readReceipts'', Some (JBool (ss_read_receipts s))), (''typingIndicator'', Some (JBool (ss_typing s))),
      (''presence'', map_option JBool (ss_presence s)), (''calls'', map_option JBool (ss_calls s))]"

definition read_signals :: "json \<Rightarrow> signal_settings option" where
  "read_signals j =
     (case (Option.bind (field j ''readReceipts'') read_bool, Option.bind (field j ''typingIndicator'') read_bool,
            optional_bool (field j ''presence''), optional_bool (field j ''calls'')) of
        (Some r, Some t, Some p, Some c) \<Rightarrow>
          Some \<lparr>ss_read_receipts = r, ss_typing = t, ss_presence = p, ss_calls = c\<rparr>
      | _ \<Rightarrow> None)"

definition json_of_stamps :: "preference_stamps \<Rightarrow> json" where
  "json_of_stamps p = json_object
     [(''scalars'', map_option JNum (pst_scalars p)), (''flags'', map_option (json_map JNum) (pst_flags p)),
      (''petnames'', map_option (json_map JNum) (pst_petnames p)),
      (''blocked'', map_option (json_map JNum) (pst_blocked p))]"

definition optional_map :: "json option \<Rightarrow> (jsstr \<times> int) list option option" where
  "optional_map v = (case v of None \<Rightarrow> Some None | Some j \<Rightarrow> map_option Some (read_map read_num j))"

definition read_stamps :: "json \<Rightarrow> preference_stamps option" where
  "read_stamps j =
     (case (optional_num (field j ''scalars''), optional_map (field j ''flags''),
            optional_map (field j ''petnames''), optional_map (field j ''blocked'')) of
        (Some s, Some f, Some p, Some b) \<Rightarrow>
          Some \<lparr>pst_scalars = s, pst_flags = f, pst_petnames = p, pst_blocked = b\<rparr>
      | _ \<Rightarrow> None)"

definition json_of_head :: "log_head \<Rightarrow> json" where
  "json_of_head h = json_object
     [(''size'', Some (JNum (int (lh_size h)))), (''root'', Some (JStr (lh_root h))), (''logKey'', Some (JStr (lh_key h)))]"

definition read_head :: "json \<Rightarrow> log_head option" where
  "read_head j =
     (case (Option.bind (field j ''size'') read_nat, Option.bind (field j ''root'') read_string,
            Option.bind (field j ''logKey'') read_string) of
        (Some s, Some r, Some k) \<Rightarrow> Some \<lparr>lh_size = s, lh_root = r, lh_key = k\<rparr> | _ \<Rightarrow> None)"

definition json_of_range :: "nat \<times> nat \<Rightarrow> json" where
  "json_of_range r = json_object [(''from'', Some (JNum (int (fst r)))), (''to'', Some (JNum (int (snd r))))]"

definition read_range :: "json \<Rightarrow> (nat \<times> nat) option" where
  "read_range j =
     (case (Option.bind (field j ''from'') read_nat, Option.bind (field j ''to'') read_nat) of
        (Some a, Some b) \<Rightarrow> Some (a, b) | _ \<Rightarrow> None)"

definition json_of_policy :: "contact_policy \<Rightarrow> json" where
  "json_of_policy p = JStr (case p of PolicyOpen \<Rightarrow> js ''open'' | PolicyKnown \<Rightarrow> js ''known'' | PolicyClosed \<Rightarrow> js ''closed'')"

definition read_policy :: "json \<Rightarrow> contact_policy option" where
  "read_policy j =
     (if j = JStr (js ''open'') then Some PolicyOpen else if j = JStr (js ''known'') then Some PolicyKnown
      else if j = JStr (js ''closed'') then Some PolicyClosed else None)"

definition json_of_profile :: "profile \<Rightarrow> json" where
  "json_of_profile p = json_object [(''name'', Some (JStr (prof_name p))), (''at'', Some (JNum (prof_at p)))]"

definition read_profile :: "json \<Rightarrow> profile option" where
  "read_profile j =
     (case (Option.bind (field j ''name'') read_string, Option.bind (field j ''at'') read_num) of
        (Some n, Some t) \<Rightarrow> Some \<lparr>prof_name = n, prof_at = t\<rparr> | _ \<Rightarrow> None)"

lemma read_string_back [simp]: "read_string (JStr s) = Some s"
  by (simp add: read_string_def)

lemma optional_back [simp]:
  "optional_bool (map_option JBool b) = Some b" "optional_num (map_option JNum n) = Some n"
  "optional_map (map_option (json_map JNum) m) = Some m"
proof -
  show "optional_bool (map_option JBool b) = Some b" by (cases b) (simp_all add: optional_bool_def)
  show "optional_num (map_option JNum n) = Some n" by (cases n) (simp_all add: optional_num_def)
  show "optional_map (map_option (json_map JNum) m) = Some m"
    by (cases m) (simp_all add: optional_map_def read_map_back)
qed

lemma read_flags_back [simp]: "read_flags (json_of_flags f) = Some f"
proof -
  have "json_of_flags f = json_object
    [(''pinned'', map_option JBool (fl_pinned f)), (''archived'', map_option JBool (fl_archived f)),
     (''mutedUntil'', map_option JNum (fl_muted_until f)), (''discloseName'', map_option JBool (fl_disclose_name f)),
     (''archiveToVault'', map_option JBool (fl_archive_to_vault f))]"
    by (simp add: json_of_flags_def json_object_def split: option.splits)
  then show ?thesis by (simp add: read_flags_def field_json_object) (simp add: json_object_def entries_def)
qed

lemma readers_back [simp]:
  "read_lock (json_of_lock l) = Some l" "read_signals (json_of_signals s) = Some s"
  "read_stamps (json_of_stamps t) = Some t" "read_head (json_of_head h) = Some h"
  "read_range (json_of_range r) = Some r" "read_policy (json_of_policy p) = Some p"
  "read_profile (json_of_profile q) = Some q"
  by (simp_all add: read_lock_def json_of_lock_def read_signals_def json_of_signals_def read_stamps_def
      json_of_stamps_def read_head_def json_of_head_def read_range_def json_of_range_def read_profile_def
      json_of_profile_def field_json_object)
    (cases p; simp add: read_policy_def json_of_policy_def)

subsection \<open>The session\<close>

datatype codec_error =
    NotJson
  | RootNotObject
  | WrongVersion "json option"
  | NotAString string
  | NotAnArray string
  | NotAnObject string
  | NotBase64 base64_error
  | OtherShape string

definition session_version :: int where "session_version = 1"

definition json_of_session :: "lock_envelope stored_session \<Rightarrow> json" where
  "json_of_session s = json_object
     [(''v'', Some (JNum session_version)),
      (''deviceId'', Some (JStr (st_device_id s))),
      (''handle'', Some (JStr (st_handle s))),
      (''accountSeed'', Some (JStr (to_base64 (st_seed s)))),
      (''lock'', map_option json_of_lock (st_lock s)),
      (''vaultEnabled'', map_option JBool (st_vault_enabled s)),
      (''state'', map_option (\<lambda>b. JStr (to_base64 b)) (st_state s)),
      (''groupIds'', Some (json_list (\<lambda>b. JStr (to_base64 b)) (st_group_ids s))),
      (''verified'', Some (json_map JStr (st_verified s))),
      (''cursors'', Some (json_map (\<lambda>n. JNum (int n)) (st_cursors s))),
      (''knownDevices'', Some (json_map (json_list JStr) (st_known_devices s))),
      (''signals'', map_option json_of_signals (st_signals s)),
      (''signalsAt'', map_option JNum (st_signals_at s)),
      (''prefStamps'', map_option json_of_stamps (st_pref_stamps s)),
      (''postingKeys'', map_option (json_map JStr) (st_posting_keys s)),
      (''logHead'', map_option json_of_head (st_log_head s)),
      (''history'', map_option (\<lambda>b. JStr (to_base64 b)) (st_history s)),
      (''discloseConversationName'', map_option JBool (st_disclose s)),
      (''conversationFlags'', map_option (json_map json_of_flags) (st_flags s)),
      (''locale'', map_option JStr (st_locale s)),
      (''searchCoverage'', map_option (json_map json_of_range) (st_coverage s)),
      (''contactPolicy'', map_option json_of_policy (st_contact_policy s)),
      (''blocked'', map_option (json_list JStr) (st_blocked s)),
      (''recentEmojis'', map_option (json_list JStr) (st_recent_emojis s)),
      (''skinTone'', map_option (\<lambda>n. JNum (int n)) (st_skin_tone s)),
      (''displayName'', map_option JStr (st_display_name s)),
      (''profiles'', map_option (json_map json_of_profile) (st_profiles s)),
      (''petnames'', map_option (json_map JStr) (st_petnames s))]"

definition encode_session :: "lock_envelope stored_session \<Rightarrow> bytes" where
  "encode_session s = text_encode (json_text (json_of_session s))"

definition require_string :: "json option \<Rightarrow> string \<Rightarrow> codec_error + jsstr" where
  "require_string v name = (case v of Some (JStr s) \<Rightarrow> Inr s | _ \<Rightarrow> Inl (NotAString name))"

definition require_array :: "json option \<Rightarrow> string \<Rightarrow> codec_error + json list" where
  "require_array v name = (case v of Some (JArr items) \<Rightarrow> Inr items | _ \<Rightarrow> Inl (NotAnArray name))"

definition require_object :: "json option \<Rightarrow> string \<Rightarrow> codec_error + json" where
  "require_object v name = (case v of Some (JObj kvs) \<Rightarrow> Inr (JObj kvs) | _ \<Rightarrow> Inl (NotAnObject name))"

definition and_then :: "'e + 'a \<Rightarrow> ('a \<Rightarrow> 'e + 'b) \<Rightarrow> 'e + 'b" where
  "and_then r f = (case r of Inl e \<Rightarrow> Inl e | Inr a \<Rightarrow> f a)"

definition from_text :: "jsstr \<Rightarrow> codec_error + bytes" where
  "from_text s = (case from_base64 s of Inl e \<Rightarrow> Inl (NotBase64 e) | Inr b \<Rightarrow> Inr b)"

definition cast_as :: "(json \<Rightarrow> 'v option) \<Rightarrow> string \<Rightarrow> json \<Rightarrow> codec_error + 'v" where
  "cast_as r name j = (case r j of None \<Rightarrow> Inl (OtherShape name) | Some v \<Rightarrow> Inr v)"

definition unless_absent :: "json option \<Rightarrow> (json \<Rightarrow> codec_error + 'v) \<Rightarrow> codec_error + 'v option" where
  "unless_absent v f = (case v of None \<Rightarrow> Inr None | Some j \<Rightarrow> and_then (f j) (\<lambda>x. Inr (Some x)))"

fun each :: "('j \<Rightarrow> codec_error + 'v) \<Rightarrow> 'j list \<Rightarrow> codec_error + 'v list" where
  "each f [] = Inr []"
| "each f (j # rest) = and_then (f j) (\<lambda>v. and_then (each f rest) (\<lambda>vs. Inr (v # vs)))"

text \<open>The error of an element names its array; the code names the index as well.\<close>

definition bytes_field :: "string \<Rightarrow> json \<Rightarrow> codec_error + bytes" where
  "bytes_field name j = and_then (require_string (Some j) name) from_text"

definition strings_field :: "string \<Rightarrow> json \<Rightarrow> codec_error + jsstr list" where
  "strings_field name j =
     and_then (require_array (Some j) name) (each (\<lambda>v. require_string (Some v) name))"

definition read_session :: "json \<Rightarrow> codec_error + lock_envelope stored_session" where
  "read_session j =
    and_then (require_string (field j ''deviceId'') ''deviceId'') (\<lambda>device.
    and_then (require_string (field j ''handle'') ''handle'') (\<lambda>handle.
    and_then (and_then (require_string (field j ''accountSeed'') ''accountSeed'') from_text) (\<lambda>seed.
    and_then (unless_absent (field j ''lock'') (cast_as read_lock ''lock'')) (\<lambda>lock.
    and_then (unless_absent (field j ''vaultEnabled'') (cast_as read_bool ''vaultEnabled'')) (\<lambda>vault.
    and_then (unless_absent (field j ''state'') (bytes_field ''state'')) (\<lambda>state.
    and_then (and_then (require_array (field j ''groupIds'') ''groupIds'') (each (bytes_field ''groupIds''))) (\<lambda>groups.
    and_then (and_then (require_object (field j ''verified'') ''verified'') (cast_as (read_map read_string) ''verified'')) (\<lambda>verified.
    and_then (and_then (require_object (field j ''cursors'') ''cursors'') (cast_as (read_map read_nat) ''cursors'')) (\<lambda>cursors.
    and_then (and_then (require_object (field j ''knownDevices'') ''knownDevices'')
      (cast_as (read_map (read_list read_string)) ''knownDevices'')) (\<lambda>known.
    and_then (unless_absent (field j ''signals'') (cast_as read_signals ''signals'')) (\<lambda>signals.
    and_then (unless_absent (field j ''prefStamps'') (cast_as read_stamps ''prefStamps'')) (\<lambda>stamps.
    and_then (unless_absent (field j ''postingKeys'') (cast_as (read_map read_string) ''postingKeys'')) (\<lambda>posting.
    and_then (unless_absent (field j ''logHead'') (cast_as read_head ''logHead'')) (\<lambda>head.
    and_then (unless_absent (field j ''history'') (bytes_field ''history'')) (\<lambda>history.
    and_then (unless_absent (field j ''discloseConversationName'') (cast_as read_bool ''discloseConversationName'')) (\<lambda>disclose.
    and_then (unless_absent (field j ''conversationFlags'') (cast_as (read_map read_flags) ''conversationFlags'')) (\<lambda>flags.
    and_then (unless_absent (field j ''locale'') (\<lambda>v. require_string (Some v) ''locale'')) (\<lambda>locale.
    and_then (unless_absent (field j ''searchCoverage'') (cast_as (read_map read_range) ''searchCoverage'')) (\<lambda>coverage.
    and_then (unless_absent (field j ''contactPolicy'') (cast_as read_policy ''contactPolicy'')) (\<lambda>policy.
    and_then (unless_absent (field j ''blocked'') (strings_field ''blocked'')) (\<lambda>blocked.
    and_then (unless_absent (field j ''recentEmojis'') (strings_field ''recentEmojis'')) (\<lambda>recents.
    and_then (unless_absent (field j ''skinTone'') (cast_as read_nat ''skinTone'')) (\<lambda>tone.
    and_then (unless_absent (field j ''displayName'') (\<lambda>v. require_string (Some v) ''displayName'')) (\<lambda>name.
    and_then (unless_absent (field j ''profiles'')
      (\<lambda>v. and_then (require_object (Some v) ''profiles'') (cast_as (read_map read_profile) ''profiles''))) (\<lambda>profiles.
    and_then (unless_absent (field j ''petnames'')
      (\<lambda>v. and_then (require_object (Some v) ''petnames'') (cast_as (read_map read_string) ''petnames''))) (\<lambda>petnames.
    Inr \<lparr>st_device_id = device, st_account = None, st_handle = handle, st_handles = None, st_seed = seed,
      st_lock = lock, st_vault_enabled = vault, st_state = state, st_group_ids = groups,
      st_verified = verified, st_cursors = cursors, st_known_devices = known, st_signals = signals,
      st_signals_at = number_field (field j ''signalsAt''),
      st_pref_stamps = stamps, st_posting_keys = posting, st_log_head = head, st_history = history,
      st_disclose = disclose, st_flags = flags, st_locale = locale, st_coverage = coverage,
      st_contact_policy = policy, st_blocked = blocked, st_recent_emojis = recents, st_skin_tone = tone,
      st_display_name = name, st_profiles = profiles, st_petnames = petnames\<rparr>))))))))))))))))))))))))))"

definition decode_session :: "(jsstr \<Rightarrow> json option) \<Rightarrow> bytes \<Rightarrow> codec_error + lock_envelope stored_session" where
  "decode_session parse bs =
     (case parse (text_decode bs) of
        None \<Rightarrow> Inl NotJson
      | Some j \<Rightarrow>
          if entries j = None then Inl RootNotObject
          else if field j ''v'' \<noteq> Some (JNum session_version) then Inl (WrongVersion (field j ''v''))
          else read_session j)"

subsection \<open>What comes back\<close>

lemma and_then_Inr [simp]: "and_then (Inr a) f = f a" "and_then (Inl e) f = Inl e"
  by (simp_all add: and_then_def)

lemma unless_absent_back: "(\<And>x. g (f x) = Inr x) \<Longrightarrow> unless_absent (map_option f v) g = Inr v"
  by (cases v) (simp_all add: unless_absent_def)

lemma each_back: "(\<And>x. g (f x) = Inr x) \<Longrightarrow> each g (map f xs) = Inr xs"
  by (induction xs) simp_all

lemma require_back [simp]:
  "require_string (Some (JStr s)) name = Inr s" "require_array (Some (json_list f xs)) name = Inr (map f xs)"
  "require_object (Some (json_map g kvs)) name = Inr (json_map g kvs)"
  by (simp_all add: require_string_def require_array_def require_object_def json_list_def json_map_def)

lemma from_text_back [simp]: "from_text (to_base64 b) = Inr b"
  by (simp add: from_text_def from_to_base64)

lemma cast_back: "r j = Some v \<Longrightarrow> cast_as r name j = Inr v"
  by (simp add: cast_as_def)

lemma fields_back [simp]:
  "bytes_field name (JStr (to_base64 b)) = Inr b"
  "strings_field name (json_list JStr xs) = Inr xs"
  "cast_as (read_map read_string) name (json_map JStr m) = Inr m"
  "cast_as (read_map read_nat) name (json_map (\<lambda>n. JNum (int n)) c) = Inr c"
  "cast_as (read_map (read_list read_string)) name (json_map (json_list JStr) d) = Inr d"
  "cast_as (read_map read_flags) name (json_map json_of_flags f) = Inr f"
  "cast_as (read_map read_range) name (json_map json_of_range r) = Inr r"
  "cast_as (read_map read_profile) name (json_map json_of_profile p) = Inr p"
  "each (bytes_field name) (map (\<lambda>b. JStr (to_base64 b)) bs) = Inr bs"
  by (simp_all add: bytes_field_def strings_field_def cast_back read_map_back read_list_back each_back)

lemma field_json_of_session:
  "field (json_of_session s) k = (case map_of
     [(''v'', Some (JNum session_version)),
      (''deviceId'', Some (JStr (st_device_id s))),
      (''handle'', Some (JStr (st_handle s))),
      (''accountSeed'', Some (JStr (to_base64 (st_seed s)))),
      (''lock'', map_option json_of_lock (st_lock s)),
      (''vaultEnabled'', map_option JBool (st_vault_enabled s)),
      (''state'', map_option (\<lambda>b. JStr (to_base64 b)) (st_state s)),
      (''groupIds'', Some (json_list (\<lambda>b. JStr (to_base64 b)) (st_group_ids s))),
      (''verified'', Some (json_map JStr (st_verified s))),
      (''cursors'', Some (json_map (\<lambda>n. JNum (int n)) (st_cursors s))),
      (''knownDevices'', Some (json_map (json_list JStr) (st_known_devices s))),
      (''signals'', map_option json_of_signals (st_signals s)),
      (''signalsAt'', map_option JNum (st_signals_at s)),
      (''prefStamps'', map_option json_of_stamps (st_pref_stamps s)),
      (''postingKeys'', map_option (json_map JStr) (st_posting_keys s)),
      (''logHead'', map_option json_of_head (st_log_head s)),
      (''history'', map_option (\<lambda>b. JStr (to_base64 b)) (st_history s)),
      (''discloseConversationName'', map_option JBool (st_disclose s)),
      (''conversationFlags'', map_option (json_map json_of_flags) (st_flags s)),
      (''locale'', map_option JStr (st_locale s)),
      (''searchCoverage'', map_option (json_map json_of_range) (st_coverage s)),
      (''contactPolicy'', map_option json_of_policy (st_contact_policy s)),
      (''blocked'', map_option (json_list JStr) (st_blocked s)),
      (''recentEmojis'', map_option (json_list JStr) (st_recent_emojis s)),
      (''skinTone'', map_option (\<lambda>n. JNum (int n)) (st_skin_tone s)),
      (''displayName'', map_option JStr (st_display_name s)),
      (''profiles'', map_option (json_map json_of_profile) (st_profiles s)),
      (''petnames'', map_option (json_map JStr) (st_petnames s))] k of None \<Rightarrow> None | Some v \<Rightarrow> v)"
  unfolding json_of_session_def by (rule field_json_object) simp

lemma read_json_of_session:
  "read_session (json_of_session s) = Inr (s\<lparr>st_account := None, st_handles := None\<rparr>)"
proof -
  show ?thesis
    unfolding read_session_def
    by (simp add: field_json_of_session unless_absent_back cast_back)
qed

lemma decode_encode_session:
  assumes "plain_text (json_text (json_of_session s))"
    and "parse (json_text (json_of_session s)) = Some (json_of_session s)"
  shows "decode_session parse (encode_session s) = Inr (s\<lparr>st_account := None, st_handles := None\<rparr>)"
proof -
  have "entries (json_of_session s) \<noteq> None" by (simp add: entries_def json_of_session_def json_object_def)
  moreover have "field (json_of_session s) ''v'' = Some (JNum session_version)" by (simp add: field_json_of_session)
  ultimately show ?thesis
    by (simp add: decode_session_def encode_session_def text_decode_encode [OF assms(1)] assms(2) read_json_of_session)
qed

subsection \<open>The native store, and the door\<close>

definition native_save :: "(bytes \<Rightarrow> bytes) \<Rightarrow> lock_envelope stored_session \<Rightarrow> jsstr" where
  "native_save seal_state s = to_base64 (seal_state (encode_session s))"

datatype load_error = Codec codec_error | FileDoesNotOpen

definition native_load ::
    "(jsstr \<Rightarrow> json option) \<Rightarrow> (bytes \<Rightarrow> bytes option) \<Rightarrow> jsstr option \<Rightarrow>
     load_error + lock_envelope stored_session option" where
  "native_load parse open_state content =
     (case content of
        None \<Rightarrow> Inr None
      | Some text \<Rightarrow>
          (case from_base64 text of
             Inl e \<Rightarrow> Inl (Codec (NotBase64 e))
           | Inr blob \<Rightarrow>
               (case open_state blob of
                  None \<Rightarrow> Inl FileDoesNotOpen
                | Some bs \<Rightarrow>
                    (case decode_session parse bs of Inl e \<Rightarrow> Inl (Codec e) | Inr s \<Rightarrow> Inr (Some s)))))"

text \<open>What \<open>Session.open\<close> does with what the store gives, before it opens anything.\<close>

datatype door = NothingStored | TooOld | OpensAs account

definition open_door :: "'l stored_session option \<Rightarrow> door" where
  "open_door stored =
     (case stored of
        None \<Rightarrow> NothingStored
      | Some s \<Rightarrow>
          if st_state s = None then NothingStored
          else case st_account s of
            None \<Rightarrow> TooOld
          | Some a \<Rightarrow> if is_account_id a then OpensAs a else TooOld)"

text \<open>The file codec. What \<open>encodeSession\<close> writes, \<open>decodeSession\<close> reads back field by field, the
  three states of \<open>vaultEnabled\<close> and of every optional field included, for any session whose JSON text is
  well-formed UTF-16; and what is not an object of version 1 is refused. Two fields do not make the
  journey: the account, and the handles peers claimed.\<close>

theorem session_codec:
  "(plain_text (json_text (json_of_session s)) \<and> parse (json_text (json_of_session s)) = Some (json_of_session s) \<longrightarrow>
      decode_session parse (encode_session s) = Inr (s\<lparr>st_account := None, st_handles := None\<rparr>)) \<and>
   (decode_session parse bs = Inr s' \<longrightarrow> st_account s' = None \<and> st_handles s' = None \<and>
      (\<exists>j. parse (text_decode bs) = Some j \<and> entries j \<noteq> None \<and> field j ''v'' = Some (JNum 1)))"
proof (intro conjI impI)
  assume d: "decode_session parse bs = Inr s'"
  then show "\<exists>j. parse (text_decode bs) = Some j \<and> entries j \<noteq> None \<and> field j ''v'' = Some (JNum 1)"
    by (auto simp: decode_session_def session_version_def split: option.splits if_splits)
  from d obtain j where "read_session j = Inr s'"
    by (auto simp: decode_session_def split: option.splits if_splits)
  then show "st_account s' = None" "st_handles s' = None"
    by (auto simp: read_session_def and_then_def split: sum.splits)
qed (use decode_encode_session in blast)

text \<open>A session as a device writes it.\<close>

definition a_session :: "lock_envelope stored_session" where
  "a_session = blank_session\<lparr>st_account := Some (replicate 32 0x61), st_state := Some [1, 2, 3],
     st_vault_enabled := Some False\<rparr>"

lemma plain_a_session: "plain_text (json_text (json_of_session a_session))"
  by (rule plain_text_ascii)
    (simp add: a_session_def blank_session_def json_of_session_def json_object_def json_map_def json_list_def
      commas_def json_string_def js_def json_unit_def u_escape_def ascii_def session_version_def decimal_int_def
      decimal.simps [of "Suc 0"] to_base64_def b64_char_def high_surrogate_def low_surrogate_def)

theorem session_codec_witness:
  "decode_session (\<lambda>_. Some (json_of_session a_session)) (encode_session a_session) =
     Inr (a_session\<lparr>st_account := None, st_handles := None\<rparr>)"
  using session_codec [of a_session "\<lambda>_. Some (json_of_session a_session)"] plain_a_session by simp

text \<open>C22. A session saved by the native store never opens again. The state is sealed, written, read and
  decoded without an error, but the account it belongs to is not in it, so the door that refuses states
  from before accounts had identifiers refuses every one of them; the same session kept as it is opens.\<close>

theorem native_never_reopens:
  assumes "plain_text (json_text (json_of_session s))"
    and "parse (json_text (json_of_session s)) = Some (json_of_session s)"
    and "\<forall>b. open_state (seal_state b) = Some b" and "st_state s \<noteq> None"
    and "st_account s = Some a" and "is_account_id a"
  shows "open_door (Some s) = OpensAs a \<and>
    (\<exists>s'. native_load parse open_state (Some (native_save seal_state s)) = Inr (Some s') \<and> open_door (Some s') = TooOld)"
  using assms by (simp add: open_door_def native_load_def native_save_def from_to_base64 decode_encode_session)

theorem native_never_reopens_witness:
  "open_door (Some a_session) = OpensAs (replicate 32 0x61) \<and>
   (\<exists>s'. native_load (\<lambda>_. Some (json_of_session a_session)) Some (Some (native_save (\<lambda>b. b) a_session)) = Inr (Some s') \<and>
      open_door (Some s') = TooOld)"
  by (rule native_never_reopens [OF plain_a_session])
    (simp_all add: a_session_def is_account_id_def blank_session_def list_all_iff)

end
