(* ===== verification/Lock.thy ===== *)
theory Lock
  imports SessionCodec
begin

text \<open>
  \<open>lock.ts\<close>, the envelope that keeps a master key under a password, \<open>session-lock.ts\<close>, the policy of the lock,
  and the ciphers of \<open>cipher.ts\<close> it chooses between. Argon2id and AES-GCM are parameters; random bytes are
  arguments. A master key is extractable and is its bytes.
\<close>

subsection \<open>The envelope\<close>

record 'k lock_crypto =
  lk_derive :: "jsstr \<Rightarrow> bytes \<Rightarrow> 'k"
  lk_key :: "bytes \<Rightarrow> 'k"
  lk_enc :: "'k \<Rightarrow> bytes \<Rightarrow> bytes \<Rightarrow> bytes"
  lk_dec :: "'k \<Rightarrow> bytes \<Rightarrow> bytes \<Rightarrow> bytes option"

datatype lock_error = NotBase64 | WrongPassword | NotAKey

definition seal_master :: "'k lock_crypto \<Rightarrow> jsstr \<Rightarrow> bytes \<Rightarrow> bytes \<Rightarrow> bytes \<Rightarrow> jsstr" where
  "seal_master c password salt iv master = to_base64 (seal (lk_enc c) iv (lk_derive c password salt) master)"

definition create_lock :: "'k lock_crypto \<Rightarrow> jsstr \<Rightarrow> bytes \<Rightarrow> bytes \<Rightarrow> bytes \<Rightarrow> lock_envelope \<times> bytes" where
  "create_lock c password salt iv master =
     (\<lparr>le_salt = to_base64 salt, le_wrapped = seal_master c password salt iv master\<rparr>, master)"

text \<open>\<open>importKey\<close> takes sixteen, twenty-four or thirty-two bytes.\<close>

definition open_lock :: "'k lock_crypto \<Rightarrow> lock_envelope \<Rightarrow> jsstr \<Rightarrow> lock_error + bytes" where
  "open_lock c envelope password =
     (case (from_base64 (le_salt envelope), from_base64 (le_wrapped envelope)) of
        (Inr salt, Inr blob) \<Rightarrow>
          (case unseal (lk_dec c) (lk_derive c password salt) blob of
             None \<Rightarrow> Inl WrongPassword
           | Some master \<Rightarrow> if length master \<in> {16, 24, 32} then Inr master else Inl NotAKey)
      | _ \<Rightarrow> Inl NotBase64)"

definition change_password ::
    "'k lock_crypto \<Rightarrow> lock_envelope \<Rightarrow> jsstr \<Rightarrow> jsstr \<Rightarrow> bytes \<Rightarrow> bytes \<Rightarrow> lock_error + lock_envelope" where
  "change_password c envelope before new salt iv =
     (case open_lock c envelope before of
        Inl e \<Rightarrow> Inl e
      | Inr raw \<Rightarrow> Inr \<lparr>le_salt = to_base64 salt, le_wrapped = seal_master c new salt iv raw\<rparr>)"

subsection \<open>The box\<close>

text \<open>What seals: the device's own cipher, or the one that wraps it with the master key.\<close>

datatype sealing = Signing | Wrapped bytes

record lockbox =
  lb_sealing :: sealing
  lb_envelope :: "lock_envelope option"
  lb_master :: "bytes option"

datatype opener = Password jsstr | KeptKey bytes

datatype box_error = Locked | LockFailed lock_error | AlreadySet | NoLock | NoMaster | NotDropped

definition no_lockbox :: lockbox where
  "no_lockbox = \<lparr>lb_sealing = Signing, lb_envelope = None, lb_master = None\<rparr>"

definition engaged :: "lockbox \<Rightarrow> bool" where
  "engaged b \<longleftrightarrow> lb_envelope b \<noteq> None"

definition lockbox_open :: "'k lock_crypto \<Rightarrow> lock_envelope option \<Rightarrow> opener option \<Rightarrow> box_error + lockbox" where
  "lockbox_open c stored opener =
     (case stored of
        None \<Rightarrow> Inr no_lockbox
      | Some envelope \<Rightarrow>
          (case opener of
             None \<Rightarrow> Inl Locked
           | Some opening \<Rightarrow>
               (case (case opening of Password p \<Rightarrow> open_lock c envelope p | KeptKey k \<Rightarrow> Inr k) of
                  Inl e \<Rightarrow> Inl (LockFailed e)
                | Inr master \<Rightarrow>
                    Inr \<lparr>lb_sealing = Wrapped master, lb_envelope = Some envelope, lb_master = Some master\<rparr>)))"

text \<open>\<open>seal\<close> and \<open>open\<close> of \<open>WebCryptoCipher\<close>, under the key of the device, and of \<open>LockedCipher\<close>.\<close>

definition cipher_key :: "'k lock_crypto \<Rightarrow> 'k \<Rightarrow> sealing \<Rightarrow> 'k" where
  "cipher_key c device s = (case s of Signing \<Rightarrow> device | Wrapped master \<Rightarrow> lk_key c master)"

definition cipher_seal :: "'k lock_crypto \<Rightarrow> 'k \<Rightarrow> lockbox \<Rightarrow> bytes \<Rightarrow> bytes \<Rightarrow> bytes" where
  "cipher_seal c device b iv plaintext = wrap_state (lk_enc c) iv (cipher_key c device (lb_sealing b)) plaintext"

definition cipher_open :: "'k lock_crypto \<Rightarrow> 'k \<Rightarrow> lockbox \<Rightarrow> bytes \<Rightarrow> state_error + bytes" where
  "cipher_open c device b blob = unwrap_state (lk_dec c) (cipher_key c device (lb_sealing b)) blob"

subsection \<open>The operations\<close>

text \<open>The box and the key the system keeps behind the biometric prompt.\<close>

record keeper =
  kp_box :: lockbox
  kp_kept :: "bytes option"

definition lock_enable :: "'k lock_crypto \<Rightarrow> jsstr \<Rightarrow> bytes \<Rightarrow> bytes \<Rightarrow> bytes \<Rightarrow> keeper \<Rightarrow> box_error option \<times> keeper" where
  "lock_enable c password salt iv fresh k =
     (if lb_envelope (kp_box k) \<noteq> None then (Some AlreadySet, k)
      else (case create_lock c password salt iv fresh of
              (envelope, master) \<Rightarrow>
                (None, k\<lparr>kp_box := \<lparr>lb_sealing = Wrapped master, lb_envelope = Some envelope, lb_master = Some master\<rparr>\<rparr>)))"

text \<open>\<open>dropped\<close>: whether the system let go of the key. \<open>disable\<close> swallows a refusal, \<open>disableBiometric\<close> does not.\<close>

definition drop_kept :: "bool \<Rightarrow> keeper \<Rightarrow> keeper" where
  "drop_kept dropped k = (if dropped then k\<lparr>kp_kept := None\<rparr> else k)"

definition lock_disable :: "'k lock_crypto \<Rightarrow> jsstr \<Rightarrow> bool \<Rightarrow> keeper \<Rightarrow> box_error option \<times> keeper" where
  "lock_disable c password dropped k =
     (case lb_envelope (kp_box k) of
        None \<Rightarrow> (None, k)
      | Some envelope \<Rightarrow>
          (case open_lock c envelope password of
             Inl e \<Rightarrow> (Some (LockFailed e), k)
           | Inr _ \<Rightarrow> (None, drop_kept dropped (k\<lparr>kp_box := no_lockbox\<rparr>))))"

definition lock_change :: "'k lock_crypto \<Rightarrow> jsstr \<Rightarrow> jsstr \<Rightarrow> bytes \<Rightarrow> bytes \<Rightarrow> keeper \<Rightarrow> box_error option \<times> keeper" where
  "lock_change c current new salt iv k =
     (case lb_envelope (kp_box k) of
        None \<Rightarrow> (Some NoLock, k)
      | Some envelope \<Rightarrow>
          (case change_password c envelope current new salt iv of
             Inl e \<Rightarrow> (Some (LockFailed e), k)
           | Inr envelope' \<Rightarrow> (None, k\<lparr>kp_box := (kp_box k)\<lparr>lb_envelope := Some envelope'\<rparr>\<rparr>)))"

definition enable_biometric :: "keeper \<Rightarrow> box_error option \<times> keeper" where
  "enable_biometric k =
     (case lb_master (kp_box k) of None \<Rightarrow> (Some NoMaster, k) | Some m \<Rightarrow> (None, k\<lparr>kp_kept := Some m\<rparr>))"

definition disable_biometric :: "bool \<Rightarrow> keeper \<Rightarrow> box_error option \<times> keeper" where
  "disable_biometric dropped k = (if dropped then None else Some NotDropped, drop_kept dropped k)"

datatype lock_op =
    EnableLock jsstr bytes bytes bytes
  | DisableLock jsstr bool
  | ChangeLock jsstr jsstr bytes bytes
  | EnableBiometric
  | DisableBiometric bool

fun lock_step :: "'k lock_crypto \<Rightarrow> lock_op \<Rightarrow> keeper \<Rightarrow> box_error option \<times> keeper" where
  "lock_step c (EnableLock p salt iv fresh) k = lock_enable c p salt iv fresh k"
| "lock_step c (DisableLock p dropped) k = lock_disable c p dropped k"
| "lock_step c (ChangeLock p q salt iv) k = lock_change c p q salt iv k"
| "lock_step c EnableBiometric k = enable_biometric k"
| "lock_step c (DisableBiometric dropped) k = disable_biometric dropped k"

fun lock_run :: "'k lock_crypto \<Rightarrow> lock_op list \<Rightarrow> keeper \<Rightarrow> box_error option list \<times> keeper" where
  "lock_run c [] k = ([], k)"
| "lock_run c (op # ops) k =
     (case lock_step c op k of (e, k') \<Rightarrow> (case lock_run c ops k' of (es, k'') \<Rightarrow> (e # es, k'')))"

subsection \<open>What a lock is: a password, or none\<close>

text \<open>The abstract lock, and whether it takes an operation.\<close>

fun spec_step :: "lock_op \<Rightarrow> jsstr option \<Rightarrow> bool \<times> jsstr option" where
  "spec_step (EnableLock p salt iv fresh) s = (if s = None then (True, Some p) else (False, s))"
| "spec_step (DisableLock p dropped) s = (if s \<in> {None, Some p} then (True, None) else (False, s))"
| "spec_step (ChangeLock p q salt iv) s = (if s = Some p then (True, Some q) else (False, s))"
| "spec_step EnableBiometric s = (s \<noteq> None, s)"
| "spec_step (DisableBiometric dropped) s = (dropped, s)"

fun spec_run :: "lock_op list \<Rightarrow> jsstr option \<Rightarrow> bool list \<times> jsstr option" where
  "spec_run [] s = ([], s)"
| "spec_run (op # ops) s = (case spec_step op s of (a, s') \<Rightarrow> (case spec_run ops s' of (as, s'') \<Rightarrow> (a # as, s'')))"

text \<open>The operations as the platform makes them: a nonce of twelve bytes, a key of thirty-two, passwords of \<open>P\<close>.\<close>

fun op_ok :: "jsstr set \<Rightarrow> lock_op \<Rightarrow> bool" where
  "op_ok P (EnableLock p salt iv fresh) \<longleftrightarrow> p \<in> P \<and> length iv = 12 \<and> length fresh = 32"
| "op_ok P (DisableLock p dropped) \<longleftrightarrow> p \<in> P"
| "op_ok P (ChangeLock p q salt iv) \<longleftrightarrow> p \<in> P \<and> q \<in> P \<and> length iv = 12"
| "op_ok P _ \<longleftrightarrow> True"

text \<open>What the encryption is relied on for: a key derived from another of the passwords does not open.\<close>

definition wrong_password_fails :: "'k lock_crypto \<Rightarrow> jsstr set \<Rightarrow> bool" where
  "wrong_password_fails c P \<longleftrightarrow> (\<forall>p\<in>P. \<forall>q\<in>P. p \<noteq> q \<longrightarrow>
     (\<forall>salt iv m. lk_dec c (lk_derive c q salt) iv (lk_enc c (lk_derive c p salt) iv m) = None))"

definition opens_with :: "'k lock_crypto \<Rightarrow> jsstr set \<Rightarrow> lock_envelope \<Rightarrow> jsstr \<Rightarrow> bytes \<Rightarrow> bool" where
  "opens_with c P envelope p m \<longleftrightarrow> p \<in> P \<and> length m = 32 \<and>
     (\<forall>q\<in>P. open_lock c envelope q = (if q = p then Inr m else Inl WrongPassword))"

definition represents :: "'k lock_crypto \<Rightarrow> jsstr set \<Rightarrow> jsstr option \<Rightarrow> lockbox \<Rightarrow> bool" where
  "represents c P s b \<longleftrightarrow>
     (case s of
        None \<Rightarrow> b = no_lockbox
      | Some p \<Rightarrow> \<exists>envelope m. b = \<lparr>lb_sealing = Wrapped m, lb_envelope = Some envelope, lb_master = Some m\<rparr> \<and>
          opens_with c P envelope p m)"

lemma sealed_opens:
  assumes "aead (lk_enc c) (lk_dec c)" and "wrong_password_fails c P" and "p \<in> P" and "length iv = 12" and "length m = 32"
  shows "opens_with c P \<lparr>le_salt = to_base64 salt, le_wrapped = seal_master c p salt iv m\<rparr> p m"
proof -
  have "unseal (lk_dec c) (lk_derive c q salt) (seal (lk_enc c) iv (lk_derive c p salt) m) =
      (if q = p then Some m else None)" if "q \<in> P" for q
    using assms that unseal_seal [OF assms(1,4)]
    by (auto simp: wrong_password_fails_def unseal_def seal_def)
  then show ?thesis using assms(3,5) by (simp add: opens_with_def open_lock_def seal_master_def from_to_base64)
qed

lemma opens_withD:
  assumes "opens_with c P envelope p m" and "q \<in> P"
  shows "open_lock c envelope q = (if q = p then Inr m else Inl WrongPassword)" and "length m = 32"
  using assms by (simp_all add: opens_with_def)

lemma lock_step_refines:
  assumes crypto: "aead (lk_enc c) (lk_dec c)" "wrong_password_fails c P" and op: "op_ok P op"
    and rel: "represents c P s (kp_box k)" and run: "lock_step c op k = (e, k')"
  shows "(e = None) = fst (spec_step op s) \<and> represents c P (snd (spec_step op s)) (kp_box k')"
proof (cases op)
  case (EnableLock p salt iv fresh)
  with op run rel sealed_opens [OF crypto, of p iv fresh salt] show ?thesis
    by (auto simp: lock_enable_def create_lock_def represents_def no_lockbox_def split: option.splits)
next
  case (DisableLock p dropped)
  with op run rel show ?thesis
    by (auto simp: lock_disable_def drop_kept_def represents_def no_lockbox_def opens_withD split: option.splits if_splits)
next
  case (ChangeLock p q salt iv)
  with op run rel sealed_opens [OF crypto, of q iv _ salt] show ?thesis
    by (auto simp: lock_change_def change_password_def represents_def no_lockbox_def opens_withD
        split: option.splits if_splits)
qed (use run rel in \<open>auto simp: enable_biometric_def disable_biometric_def drop_kept_def represents_def no_lockbox_def
      split: option.splits if_splits\<close>)

lemma lock_run_refines:
  assumes "aead (lk_enc c) (lk_dec c)" and "wrong_password_fails c P" and "list_all (op_ok P) ops"
    and "represents c P s (kp_box k)" and "lock_run c ops k = (es, k')"
  shows "map (\<lambda>e. e = None) es = fst (spec_run ops s) \<and> represents c P (snd (spec_run ops s)) (kp_box k')"
  using assms(3-)
proof (induction ops arbitrary: s k es)
  case (Cons op ops)
  obtain e k1 where step: "lock_step c op k = (e, k1)" by (rule prod.exhaust)
  obtain es1 where run: "lock_run c ops k1 = (es1, k')" "es = e # es1"
    using Cons.prems(3) step by (auto split: prod.splits)
  have "(e = None) = fst (spec_step op s) \<and> represents c P (snd (spec_step op s)) (kp_box k1)"
    using lock_step_refines [OF assms(1,2) _ Cons.prems(2) step] Cons.prems(1) by simp
  with Cons.IH [of "snd (spec_step op s)" k1 es1] Cons.prems(1) run show ?case
    by (auto split: prod.splits)
qed simp

lemma represents_opens:
  assumes "represents c P s b"
  shows "engaged b = (s \<noteq> None)" and "lockbox_open c (lb_envelope b) None = (if s = None then Inr b else Inl Locked)"
    and "q \<in> P \<Longrightarrow> lockbox_open c (lb_envelope b) (Some (Password q)) =
      (if s \<in> {None, Some q} then Inr b else Inl (LockFailed WrongPassword))"
  using assms by (auto simp: represents_def engaged_def no_lockbox_def lockbox_open_def opens_withD split: option.splits)

text \<open>The key kept for biometrics: the master key of the box, or one that a lock removed since should have
  taken with it.\<close>

definition kept_ok :: "keeper \<Rightarrow> bool" where
  "kept_ok k \<longleftrightarrow> (lb_envelope (kp_box k) = None \<longleftrightarrow> lb_master (kp_box k) = None) \<and>
     kp_kept k \<in> {None, lb_master (kp_box k)}"

lemma lock_run_kept:
  "lock_run c ops k = (es, k') \<Longrightarrow> \<forall>p. DisableLock p False \<notin> set ops \<Longrightarrow> kept_ok k \<Longrightarrow> kept_ok k'"
proof (induction ops arbitrary: k es)
  case (Cons op ops)
  obtain e k1 where step: "lock_step c op k = (e, k1)" by (rule prod.exhaust)
  obtain es1 where run: "lock_run c ops k1 = (es1, k')"
    using Cons.prems(1) step by (auto split: prod.splits)
  have "kept_ok k1"
    using step Cons.prems(2,3)
    by (cases op) (auto simp: kept_ok_def lock_enable_def lock_disable_def lock_change_def enable_biometric_def
        disable_biometric_def drop_kept_def create_lock_def no_lockbox_def split: option.splits sum.splits if_splits prod.splits)
  with Cons.IH [OF run] Cons.prems(2) show ?case by auto
qed simp

definition no_keeper :: keeper where
  "no_keeper = \<lparr>kp_box = no_lockbox, kp_kept = None\<rparr>"


text \<open>Changing the password changes what opens the box and not what seals the state: a state sealed before
  the change is opened, after a restart, with the new password.\<close>

theorem password_change_keeps_state:
  assumes "aead (lk_enc c) (lk_dec c)" and "wrong_password_fails c P" and "list_all (op_ok P) ops"
    and "op_ok P (ChangeLock p q salt iv)" and "lock_run c ops no_keeper = (es, k)"
    and "lock_change c p q salt iv k = (None, k')" and "length iv' = 12"
  shows "\<exists>b. lockbox_open c (lb_envelope (kp_box k')) (Some (Password q)) = Inr b \<and>
    cipher_open c device b (cipher_seal c device (kp_box k) iv' state) = Inr state"
proof -
  have "represents c P None (kp_box no_keeper)" by (simp add: represents_def no_keeper_def)
  then have rep: "represents c P (snd (spec_run ops None)) (kp_box k)"
    using lock_run_refines [OF assms(1-3)] assms(5) by blast
  have step: "lock_step c (ChangeLock p q salt iv) k = (None, k')" using assms(6) by simp
  have "snd (spec_step (ChangeLock p q salt iv) (snd (spec_run ops None))) = Some q"
    using lock_step_refines [OF assms(1,2,4) rep step] by (auto split: if_splits)
  then have "represents c P (Some q) (kp_box k')"
    using lock_step_refines [OF assms(1,2,4) rep step] by simp
  then have "lockbox_open c (lb_envelope (kp_box k')) (Some (Password q)) = Inr (kp_box k')"
    using represents_opens(3) assms(4) by fastforce
  moreover have "lb_sealing (kp_box k') = lb_sealing (kp_box k)"
    using assms(6) by (auto simp: lock_change_def split: option.splits sum.splits)
  ultimately show ?thesis
    using unwrap_wrap_state [OF assms(1,7)] by (simp add: cipher_open_def cipher_seal_def)
qed

subsection \<open>Two passwords\<close>

text \<open>A cipher whose tag is the key, a byte, and two passwords that derive to two bytes.\<close>

definition byte_crypto :: "u8 lock_crypto" where
  "byte_crypto = \<lparr>lk_derive = (\<lambda>p salt. if p = js ''new'' then 1 else 0), lk_key = (\<lambda>m. 2),
     lk_enc = (\<lambda>k iv p. p @ replicate 16 k),
     lk_dec = (\<lambda>k iv c. if 16 \<le> length c \<and> drop (length c - 16) c = replicate 16 k
       then Some (take (length c - 16) c) else None)\<rparr>"

abbreviation two_passwords :: "jsstr set" where
  "two_passwords \<equiv> {js ''old'', js ''new''}"

lemma byte_crypto_ok: "aead (lk_enc byte_crypto) (lk_dec byte_crypto)" "wrong_password_fails byte_crypto two_passwords"
  by (auto simp: byte_crypto_def aead_def wrong_password_fails_def js_def)

abbreviation locks :: "lock_op list" where
  "locks \<equiv> [EnableBiometric, EnableLock (js ''old'') [1] (replicate 12 0) (replicate 32 7), DisableLock (js ''new'') True,
     EnableBiometric]"


theorem password_change_keeps_state_witness:
  "(let k = snd (lock_run byte_crypto [EnableLock (js ''old'') [1] (replicate 12 0) (replicate 32 7)] no_keeper);
        k' = snd (lock_change byte_crypto (js ''old'') (js ''new'') [2] (replicate 12 0) k)
    in \<exists>b. lockbox_open byte_crypto (lb_envelope (kp_box k')) (Some (Password (js ''new''))) = Inr b \<and>
      cipher_open byte_crypto 9 b (cipher_seal byte_crypto 9 (kp_box k) (replicate 12 0) [1, 2, 3]) = Inr [1, 2, 3])"
proof -
  let ?ops = "[EnableLock (js ''old'') [1] (replicate 12 0) (replicate 32 7)]"
  obtain es k where run: "lock_run byte_crypto ?ops no_keeper = (es, k)" by (rule prod.exhaust)
  obtain e k' where change: "lock_change byte_crypto (js ''old'') (js ''new'') [2] (replicate 12 0) k = (e, k')"
    by (rule prod.exhaust)
  have "opens_with byte_crypto two_passwords (fst (create_lock byte_crypto (js ''old'') [1] (replicate 12 0) (replicate 32 7)))
      (js ''old'') (replicate 32 7)"
    using sealed_opens [OF byte_crypto_ok, of "js ''old''" "replicate 12 0" "replicate 32 7" "[1]"]
    by (simp add: create_lock_def)
  then have "e = None"
    using run change opens_withD(1) [of byte_crypto two_passwords _ "js ''old''" "replicate 32 7" "js ''old''"]
    by (auto simp: lock_enable_def create_lock_def no_keeper_def no_lockbox_def lock_change_def change_password_def)
  with password_change_keeps_state [OF byte_crypto_ok _ _ run, of "js ''old''" "js ''new''" "[2]" "replicate 12 0" k'
      "replicate 12 0" 9 "[1, 2, 3]"] change
  show ?thesis unfolding Let_def run snd_conv change by simp
qed

end
