(* ===== verification/History.thy ===== *)
theory History
  imports Json Vault
begin

text \<open>
  \<open>history.ts\<close>: the recent thread, the outbox and the reading position of each conversation, as the sealed
  cache that survives a restart. \<open>JSON.parse\<close> is a parameter.
\<close>

definition recent_per_conversation :: nat where "recent_per_conversation = 200"

record cached =
  cd_messages :: "message list"
  cd_outbox :: "pending list"
  cd_read_cursor :: nat

definition nothing_cached :: cached where
  "nothing_cached = \<lparr>cd_messages = [], cd_outbox = [], cd_read_cursor = 0\<rparr>"

subsection \<open>Writing\<close>

definition recent :: "message list \<Rightarrow> message list" where
  "recent ms = (let sorted = sort_key ms_seq ms in drop (length sorted - recent_per_conversation) sorted)"

definition json_of_stored :: "message \<Rightarrow> bytes \<Rightarrow> json" where
  "json_of_stored m body = json_object
     [(''seq'', Some (JNum (int (ms_seq m)))),
      (''sender'', Some (case ms_sender m of None \<Rightarrow> JNull | Some s \<Rightarrow> JStr s)),
      (''mine'', Some (JBool (ms_mine m))),
      (''body'', Some (JArr (map (\<lambda>b. JNum (uint b)) body))),
      (''expiresAt'', map_option JNum (ms_expires_at m))]"

definition json_of_pending :: "pending \<Rightarrow> json" where
  "json_of_pending e = json_object
     [(''localId'', Some (JStr (pn_local_id e))), (''text'', Some (JStr (pn_text e))),
      (''sentAt'', Some (JNum (pn_sent_at e))),
      (''state'', Some (JStr (case pn_state e of Sending \<Rightarrow> js ''sending'' | Failed \<Rightarrow> js ''failed'')))]"

text \<open>The bodies of a conversation; one that cannot be encoded throws for the whole cache.\<close>

fun stored_rows :: "(attachment_ref \<Rightarrow> jsstr) \<Rightarrow> message list \<Rightarrow> content_error + json list" where
  "stored_rows stringify [] = Inr []"
| "stored_rows stringify (m # ms) =
     (case encode stringify (ms_content m) (ms_sent_at m) of
        Inl e \<Rightarrow> Inl e
      | Inr body \<Rightarrow>
          (case stored_rows stringify ms of Inl e \<Rightarrow> Inl e | Inr rows \<Rightarrow> Inr (json_of_stored m body # rows)))"

fun stored_conversations ::
    "(attachment_ref \<Rightarrow> jsstr) \<Rightarrow> (jsstr \<times> cached) list \<Rightarrow> content_error + (jsstr \<times> json) list" where
  "stored_conversations stringify [] = Inr []"
| "stored_conversations stringify ((key, c) # rest) =
     (case stored_rows stringify (recent (cd_messages c)) of
        Inl e \<Rightarrow> Inl e
      | Inr rows \<Rightarrow>
          (case stored_conversations stringify rest of
             Inl e \<Rightarrow> Inl e
           | Inr out \<Rightarrow> Inr (if recent (cd_messages c) = [] then out else (key, JArr rows) # out)))"

definition json_of_history :: "(jsstr \<times> cached) list \<Rightarrow> (jsstr \<times> json) list \<Rightarrow> json" where
  "json_of_history cs out = json_object
     [(''v'', Some (JNum 1)),
      (''conversations'', Some (JObj out)),
      (''outbox'', Some (JObj (map (\<lambda>(k, c). (k, JArr (map json_of_pending (cd_outbox c))))
         (filter (\<lambda>(k, c). cd_outbox c \<noteq> []) cs)))),
      (''read'', Some (JObj (map (\<lambda>(k, c). (k, JNum (int (cd_read_cursor c))))
         (filter (\<lambda>(k, c). cd_read_cursor c > 0) cs))))]"

definition encode_history :: "(attachment_ref \<Rightarrow> jsstr) \<Rightarrow> (jsstr \<times> cached) list \<Rightarrow> content_error + bytes" where
  "encode_history stringify cs =
     (case stored_conversations stringify cs of
        Inl e \<Rightarrow> Inl e
      | Inr out \<Rightarrow> Inr (text_encode (json_text (json_of_history cs out))))"

subsection \<open>Reading\<close>

text \<open>An entry of the thread, on the shape this module writes; any other is dropped, as one whose body does
  not decode is.\<close>

definition read_stored :: "(jsstr \<Rightarrow> raw_ref option) \<Rightarrow> int \<Rightarrow> json \<Rightarrow> message option" where
  "read_stored parse_ref now j =
     (case (Option.bind (field j ''seq'') read_nat, Option.bind (field j ''sender'') read_sender,
            Option.bind (field j ''mine'') read_bool, field j ''body'') of
        (Some seq, Some sender, Some mine, Some (JArr body)) \<Rightarrow>
          (case json_bytes body of
             None \<Rightarrow> None
           | Some bs \<Rightarrow>
               (case decode parse_ref now bs of
                  Inl e \<Rightarrow> None
                | Inr d \<Rightarrow> Some \<lparr>ms_seq = seq, ms_sender = sender, ms_mine = mine, ms_sent_at = stamped_at d,
                    ms_expires_at = number_field (field j ''expiresAt''),
                    ms_content = stamped_body d\<rparr>))
      | _ \<Rightarrow> None)"

text \<open>A queued entry always comes back failed.\<close>

definition read_pending :: "json \<Rightarrow> pending option" where
  "read_pending j =
     (case (field j ''localId'', field j ''text'') of
        (Some (JStr l), Some (JStr t)) \<Rightarrow>
          Some \<lparr>pn_local_id = l, pn_text = t,
                pn_sent_at = (case number_field (field j ''sentAt'') of Some n \<Rightarrow> n | None \<Rightarrow> 0), pn_state = Failed\<rparr>
      | _ \<Rightarrow> None)"

definition cached_at :: "(jsstr \<times> cached) list \<Rightarrow> jsstr \<Rightarrow> cached" where
  "cached_at restored key = (case map_of restored key of None \<Rightarrow> nothing_cached | Some c \<Rightarrow> c)"

text \<open>One of the two loops: an array of entries under each key, each pushed when it can be read.\<close>

fun push_all ::
    "(json \<Rightarrow> 'e option) \<Rightarrow> ('e \<Rightarrow> cached \<Rightarrow> cached) \<Rightarrow> jsstr \<times> json \<Rightarrow> (jsstr \<times> cached) list \<Rightarrow> (jsstr \<times> cached) list" where
  "push_all read add (key, JArr items) restored =
     fold (\<lambda>item r. case read item of None \<Rightarrow> r
        | Some e \<Rightarrow> AList.update key (add e (cached_at r key)) r) items restored"
| "push_all read add (key, _) restored = restored"

definition add_message :: "message \<Rightarrow> cached \<Rightarrow> cached" where
  "add_message m c = c\<lparr>cd_messages := cd_messages c @ [m]\<rparr>"

definition add_pending :: "pending \<Rightarrow> cached \<Rightarrow> cached" where
  "add_pending e c = c\<lparr>cd_outbox := cd_outbox c @ [e]\<rparr>"

definition set_read :: "jsstr \<times> json \<Rightarrow> (jsstr \<times> cached) list \<Rightarrow> (jsstr \<times> cached) list" where
  "set_read row restored =
     (case (snd row, map_of restored (fst row)) of
        (JNum n, Some c) \<Rightarrow> AList.update (fst row) (c\<lparr>cd_read_cursor := nat n\<rparr>) restored
      | _ \<Rightarrow> restored)"

definition entries_or_none :: "json option \<Rightarrow> (jsstr \<times> json) list" where
  "entries_or_none v = (case Option.bind v entries of None \<Rightarrow> [] | Some kvs \<Rightarrow> kvs)"

text \<open>\<open>None\<close> is the one throw: \<open>typeof null\<close> is \<open>"object"\<close>, and \<open>null\<close> has no entries.\<close>

definition decode_history ::
    "(jsstr \<Rightarrow> json option) \<Rightarrow> (jsstr \<Rightarrow> raw_ref option) \<Rightarrow> int \<Rightarrow> bytes \<Rightarrow> (jsstr \<times> cached) list option" where
  "decode_history parse parse_ref now bs =
     (case parse (text_decode bs) of
        None \<Rightarrow> Some []
      | Some j \<Rightarrow>
          if field j ''v'' \<noteq> Some (JNum 1) then Some []
          else (case field j ''conversations'' of
              Some JNull \<Rightarrow> None
            | Some c \<Rightarrow>
                (case entries c of
                   None \<Rightarrow> Some []
                 | Some kvs \<Rightarrow>
                     (let r1 = fold (push_all (read_stored parse_ref now) add_message) kvs [];
                          r2 = fold (push_all read_pending add_pending) (entries_or_none (field j ''outbox'')) r1;
                          r3 = fold set_read (entries_or_none (field j ''read'')) r2
                      in Some (filter (\<lambda>(k, c). \<not> (cd_messages c = [] \<and> cd_outbox c = [])) r3)))
            | None \<Rightarrow> Some []))"

subsection \<open>One row back\<close>

lemma read_pending_back: "read_pending (json_of_pending e) = Some (e\<lparr>pn_state := Failed\<rparr>)"
  by (simp add: read_pending_def json_of_pending_def field_json_object)

lemma read_stored_back:
  assumes "decode parse_ref now body = Inr \<lparr>stamped_body = ms_content m, stamped_at = ms_sent_at m\<rparr>"
  shows "read_stored parse_ref now (json_of_stored m body) = Some m"
proof -
  have s: "read_sender (case s of None \<Rightarrow> JNull | Some s \<Rightarrow> JStr s) = Some s" for s
    by (cases s) (simp_all add: read_sender_def)
  show ?thesis
    by (simp add: read_stored_def json_of_stored_def field_json_object json_bytes_back assms s)
qed

lemma map_of_push_all:
  assumes "\<forall>j\<in>set items. read j \<noteq> None"
  shows "map_of (push_all read add (key, JArr items) r) k =
    (if k = key \<and> items \<noteq> [] then Some (fold (\<lambda>j c. add (the (read j)) c) items (cached_at r key)) else map_of r k)"
  using assms
proof (induction items arbitrary: r)
  case (Cons j items)
  then obtain e where e: "read j = Some e" by auto
  have "push_all read add (key, JArr (j # items)) r =
      push_all read add (key, JArr items) (AList.update key (add e (cached_at r key)) r)"
    by (simp add: e)
  with Cons show ?case by (simp add: e cached_at_def)
qed simp

text \<open>One loop over distinct keys.\<close>

lemma map_of_push_rows:
  assumes "\<forall>(k, items)\<in>set rows. \<forall>j\<in>set items. read j \<noteq> None" and "distinct (map fst rows)"
  shows "map_of (fold (push_all read add) (map (\<lambda>(k, items). (k, JArr items)) rows) r) k =
    (case map_of rows k of
       None \<Rightarrow> map_of r k
     | Some items \<Rightarrow> if items = [] then map_of r k
         else Some (fold (\<lambda>j c. add (the (read j)) c) items (cached_at r k)))"
  using assms
proof (induction rows arbitrary: r)
  case (Cons row rows)
  obtain key items where row: "row = (key, items)" by (cases row)
  let ?r = "push_all read add (key, JArr items) r"
  have m: "map_of ?r k' = (if k' = key \<and> items \<noteq> [] then Some (fold (\<lambda>j c. add (the (read j)) c) items (cached_at r key))
      else map_of r k')" for k'
    using Cons.prems(1) by (intro map_of_push_all) (auto simp: row)
  have "key \<notin> fst ` set rows" using Cons.prems(2) by (simp add: row)
  then have n: "map_of rows key = None" by (simp add: map_of_eq_None_iff)
  have "map_of (fold (push_all read add) (map (\<lambda>(k, items). (k, JArr items)) rows) ?r) k =
      (case map_of rows k of
         None \<Rightarrow> map_of ?r k
       | Some items \<Rightarrow> if items = [] then map_of ?r k
           else Some (fold (\<lambda>j c. add (the (read j)) c) items (cached_at ?r k)))"
    using Cons.prems by (intro Cons.IH) (auto simp: row)
  then show ?case using n m by (auto simp: row cached_at_def split: option.splits)
qed simp

lemma map_of_set_read:
  "map_of (set_read (key, JNum n) r) k =
    (case map_of r k of None \<Rightarrow> None | Some c \<Rightarrow> Some (if k = key then c\<lparr>cd_read_cursor := nat n\<rparr> else c))"
  by (auto simp: set_read_def split: option.splits)

lemma map_of_set_reads:
  "distinct (map fst rows) \<Longrightarrow>
   map_of (fold set_read (map (\<lambda>(k, n). (k, JNum (int n))) rows) r) k =
    (case map_of r k of None \<Rightarrow> None
     | Some c \<Rightarrow> Some (case map_of rows k of None \<Rightarrow> c | Some n \<Rightarrow> c\<lparr>cd_read_cursor := n\<rparr>))"
proof (induction rows arbitrary: r)
  case (Cons row rows)
  obtain key n where row: "row = (key, n)" by (cases row)
  have "key \<notin> fst ` set rows" using Cons.prems by (simp add: row)
  then have n: "map_of rows key = None" by (simp add: map_of_eq_None_iff)
  from Cons show ?case
    using n by (auto simp: row map_of_set_read split: option.splits)
qed (simp split: option.splits)

lemma map_of_filter_values:
  "distinct (map fst xs) \<Longrightarrow> map_of (filter (\<lambda>(k, v). P v) xs) k =
     (case map_of xs k of None \<Rightarrow> None | Some v \<Rightarrow> if P v then Some v else None)"
proof (induction xs)
  case (Cons x xs)
  obtain key v where x: "x = (key, v)" by (cases x)
  have "key \<notin> fst ` set xs" using Cons.prems by (simp add: x)
  then have "map_of xs key = None" by (simp add: map_of_eq_None_iff)
  with Cons show ?case by (auto simp: x split: option.splits)
qed simp

lemma distinct_filter_keys: "distinct (map fst xs) \<Longrightarrow> distinct (map fst (filter P xs))"
  by (induction xs) auto

lemma distinct_push_all: "distinct (map fst r) \<Longrightarrow> distinct (map fst (push_all read add row r))"
proof (induction read add row r rule: push_all.induct)
  case (1 read add key items r)
  then show ?case
    by (simp only: push_all.simps)
      (induction items arbitrary: r; auto simp: distinct_update split: option.splits)
qed simp_all

lemma distinct_push_rows: "distinct (map fst r) \<Longrightarrow> distinct (map fst (fold (push_all read add) rows r))"
  by (induction rows arbitrary: r) (auto intro: distinct_push_all)

lemma distinct_set_reads: "distinct (map fst r) \<Longrightarrow> distinct (map fst (fold set_read rows r))"
  by (induction rows arbitrary: r)
    (auto simp: set_read_def distinct_update split: json.splits option.splits)

subsection \<open>The cache back\<close>

definition message_carried ::
    "(attachment_ref \<Rightarrow> jsstr) \<Rightarrow> (jsstr \<Rightarrow> raw_ref option) \<Rightarrow> int \<Rightarrow> message \<Rightarrow> bool" where
  "message_carried stringify parse_ref now m \<longleftrightarrow>
     message_ok stringify parse_ref now \<lparr>stamped_body = ms_content m, stamped_at = ms_sent_at m\<rparr>"

definition rows_of :: "(attachment_ref \<Rightarrow> jsstr) \<Rightarrow> cached \<Rightarrow> json list" where
  "rows_of stringify c = map (\<lambda>m. json_of_stored m
     (encode_message stringify \<lparr>stamped_body = ms_content m, stamped_at = ms_sent_at m\<rparr>)) (recent (cd_messages c))"

lemma recent_Nil [simp]: "recent ms = [] \<longleftrightarrow> ms = []"
proof (cases "ms = []")
  case False
  then have "0 < length ms" by simp
  then have "\<not> length ms \<le> length ms - 200" by arith
  with False show ?thesis by (simp add: recent_def recent_per_conversation_def Let_def)
qed (simp add: recent_def)

lemma recent_of_Nil [simp]: "recent [] = []"
  by (simp only: recent_Nil)

lemma set_recent: "set (recent ms) \<subseteq> set ms"
  using set_drop_subset [of "length ms - recent_per_conversation" "sort_key ms_seq ms"] by (simp add: recent_def Let_def)

lemma stored_rows_ok:
  "\<forall>m\<in>set ms. message_carried stringify parse_ref now m \<Longrightarrow>
   stored_rows stringify ms = Inr (map (\<lambda>m. json_of_stored m
     (encode_message stringify \<lparr>stamped_body = ms_content m, stamped_at = ms_sent_at m\<rparr>)) ms)"
  by (induction ms) (auto simp: message_carried_def encode_message_Inr)

lemma stored_conversations_ok:
  "\<forall>(k, c)\<in>set cs. \<forall>m\<in>set (cd_messages c). message_carried stringify parse_ref now m \<Longrightarrow>
   stored_conversations stringify cs =
     Inr (map (\<lambda>(k, items). (k, JArr items)) (map (\<lambda>(k, c). (k, rows_of stringify c))
       (filter (\<lambda>(k, c). cd_messages c \<noteq> []) cs)))"
proof (induction cs)
  case (Cons p cs)
  obtain k c where p: "p = (k, c)" by (cases p)
  have "\<forall>m\<in>set (recent (cd_messages c)). message_carried stringify parse_ref now m"
    using Cons.prems set_recent [of "cd_messages c"] by (auto simp: p)
  from stored_rows_ok [OF this] Cons show ?case by (auto simp: p rows_of_def)
qed simp

lemma fold_add_message:
  "(\<And>m. m \<in> set ms \<Longrightarrow> read (f m) = Some m) \<Longrightarrow>
   fold (\<lambda>j c. add_message (the (read j)) c) (map f ms) c = c\<lparr>cd_messages := cd_messages c @ ms\<rparr>"
  by (induction ms arbitrary: c) (simp_all add: add_message_def)

lemma fold_add_pending:
  "fold (\<lambda>j c. add_pending (the (read_pending j)) c) (map json_of_pending es) c =
     c\<lparr>cd_outbox := cd_outbox c @ map (\<lambda>e. e\<lparr>pn_state := Failed\<rparr>) es\<rparr>"
  by (induction es arbitrary: c) (simp_all add: add_pending_def read_pending_back)

lemma map_of_values: "map_of (map (\<lambda>(k, v). (k, f v)) xs) k = map_option f (map_of xs k)"
  using map_of_map_snd [of "\<lambda>k. f" xs k] by simp

text \<open>The cache of the threads comes back. For conversations whose messages the content codec carries,
  what \<open>encodeHistory\<close> writes is read back as: the last two hundred messages of each in the order of their
  numbers, deadlines included; the whole outbox, every entry marked failed; the reading position. A
  conversation with neither messages nor outbox has no entry.\<close>

theorem history_roundtrip:
  assumes keys: "distinct (map fst cs)"
    and ok: "\<forall>(k, c)\<in>set cs. \<forall>m\<in>set (cd_messages c). message_carried stringify parse_ref now m"
    and json: "\<forall>out. stored_conversations stringify cs = Inr out \<longrightarrow>
      plain_text (json_text (json_of_history cs out)) \<and>
      parse (json_text (json_of_history cs out)) = Some (json_of_history cs out)"
  shows "\<exists>bs r. encode_history stringify cs = Inr bs \<and> decode_history parse parse_ref now bs = Some r \<and>
    (\<forall>k. map_of r k = (case map_of cs k of None \<Rightarrow> None
       | Some c \<Rightarrow> if cd_messages c = [] \<and> cd_outbox c = [] then None
           else Some \<lparr>cd_messages = recent (cd_messages c),
             cd_outbox = map (\<lambda>e. e\<lparr>pn_state := Failed\<rparr>) (cd_outbox c), cd_read_cursor = cd_read_cursor c\<rparr>))"
proof -
  let ?rows = "map (\<lambda>(k, c). (k, rows_of stringify c)) (filter (\<lambda>(k, c). cd_messages c \<noteq> []) cs)"
  let ?queued = "map (\<lambda>(k, c). (k, map json_of_pending (cd_outbox c))) (filter (\<lambda>(k, c). cd_outbox c \<noteq> []) cs)"
  let ?reads = "map (\<lambda>(k, c). (k, cd_read_cursor c)) (filter (\<lambda>(k, c). cd_read_cursor c > 0) cs)"
  let ?arr = "map (\<lambda>(k, items). (k, JArr items))"
  let ?num = "map (\<lambda>(k, n). (k, JNum (int n)))"
  let ?read = "read_stored parse_ref now"
  note out = stored_conversations_ok [OF ok]
  let ?j = "json_of_history cs (?arr ?rows)"
  from json out have j: "plain_text (json_text ?j)" "parse (json_text ?j) = Some ?j" by blast+
  have f: "field ?j ''v'' = Some (JNum 1)" "field ?j ''conversations'' = Some (JObj (?arr ?rows))"
      "field ?j ''outbox'' = Some (JObj (?arr ?queued))" "field ?j ''read'' = Some (JObj (?num ?reads))"
    by (simp_all add: json_of_history_def field_json_object case_prod_unfold comp_def)
  have again: "?read (json_of_stored m (encode_message stringify \<lparr>stamped_body = ms_content m, stamped_at = ms_sent_at m\<rparr>)) = Some m"
    if "m \<in> set (recent (cd_messages c))" and "(k, c) \<in> set cs" for k c m
  proof -
    have "message_carried stringify parse_ref now m" using ok that set_recent [of "cd_messages c"] by fastforce
    then show ?thesis by (intro read_stored_back) (simp add: message_carried_def decode_encode_message)
  qed
  define r1 where "r1 = fold (push_all ?read add_message) (?arr ?rows) []"
  define r2 where "r2 = fold (push_all read_pending add_pending) (?arr ?queued) r1"
  define r3 where "r3 = fold set_read (?num ?reads) r2"
  have m1: "map_of r1 k = (case map_of cs k of None \<Rightarrow> None
      | Some c \<Rightarrow> if cd_messages c = [] then None else Some (nothing_cached\<lparr>cd_messages := recent (cd_messages c)\<rparr>))" for k
  proof -
    have "map_of r1 k = (case map_of ?rows k of None \<Rightarrow> map_of [] k
      | Some items \<Rightarrow> if items = [] then map_of [] k
          else Some (fold (\<lambda>j c. add_message (the (?read j)) c) items (cached_at [] k)))"
      unfolding r1_def using again keys by (intro map_of_push_rows) (auto simp: rows_of_def distinct_filter_keys comp_def case_prod_unfold)
    moreover have "fold (\<lambda>j c. add_message (the (?read j)) c) (rows_of stringify c) d = d\<lparr>cd_messages := cd_messages d @ recent (cd_messages c)\<rparr>"
      if "map_of cs k = Some c" for c d
      unfolding rows_of_def using again map_of_SomeD [OF that] by (intro fold_add_message)
    ultimately show ?thesis
      using keys by (auto simp: map_of_values map_of_filter_values rows_of_def cached_at_def nothing_cached_def split: option.splits)
  qed
  have m2: "map_of r2 k = (case map_of cs k of None \<Rightarrow> None
      | Some c \<Rightarrow> if cd_messages c = [] \<and> cd_outbox c = [] then None
          else Some (nothing_cached\<lparr>cd_messages := recent (cd_messages c),
            cd_outbox := map (\<lambda>e. e\<lparr>pn_state := Failed\<rparr>) (cd_outbox c)\<rparr>))" for k
  proof -
    have "map_of r2 k = (case map_of ?queued k of None \<Rightarrow> map_of r1 k
      | Some items \<Rightarrow> if items = [] then map_of r1 k
          else Some (fold (\<lambda>j c. add_pending (the (read_pending j)) c) items (cached_at r1 k)))"
      unfolding r2_def using keys by (intro map_of_push_rows) (auto simp: read_pending_back distinct_filter_keys comp_def case_prod_unfold)
    then show ?thesis
      using keys
      by (auto simp: map_of_values map_of_filter_values fold_add_pending cached_at_def m1 nothing_cached_def split: option.splits)
  qed
  have m3: "map_of r3 k = (case map_of cs k of None \<Rightarrow> None
      | Some c \<Rightarrow> if cd_messages c = [] \<and> cd_outbox c = [] then None
          else Some \<lparr>cd_messages = recent (cd_messages c),
            cd_outbox = map (\<lambda>e. e\<lparr>pn_state := Failed\<rparr>) (cd_outbox c), cd_read_cursor = cd_read_cursor c\<rparr>)" for k
  proof -
    have "distinct (map fst ?reads)" using keys by (simp add: distinct_filter_keys comp_def case_prod_unfold)
    from map_of_set_reads [OF this] show ?thesis
      unfolding r3_def using keys by (auto simp: m2 map_of_values map_of_filter_values nothing_cached_def split: option.splits)
  qed
  have "distinct (map fst r3)" unfolding r3_def r2_def r1_def by (intro distinct_set_reads distinct_push_rows) simp
  then have "map_of (filter (\<lambda>(k, c). \<not> (cd_messages c = [] \<and> cd_outbox c = [])) r3) k = map_of r3 k" for k
    by (auto simp: map_of_filter_values m3 split: option.splits)
  moreover have "decode_history parse parse_ref now (text_encode (json_text ?j)) =
      Some (filter (\<lambda>(k, c). \<not> (cd_messages c = [] \<and> cd_outbox c = [])) r3)"
    by (simp add: decode_history_def text_decode_encode [OF j(1)] j(2) f entries_or_none_def entries_def Let_def
        r1_def r2_def r3_def del: map_map)
  moreover have "encode_history stringify cs = Inr (text_encode (json_text ?j))"
    by (simp add: encode_history_def out)
  ultimately show ?thesis using m3 by auto
qed

text \<open>A conversation with one entry waiting.\<close>

definition waiting :: "(jsstr \<times> cached) list" where
  "waiting = [(js ''room'', \<lparr>cd_messages = [], cd_outbox =
     [\<lparr>pn_local_id = js ''u1'', pn_text = js ''hi'', pn_sent_at = 0, pn_state = Sending\<rparr>], cd_read_cursor = 0\<rparr>)]"

theorem history_roundtrip_witness:
  "\<exists>bs r. encode_history (\<lambda>_. []) waiting = Inr bs \<and>
     decode_history (\<lambda>_. Some (json_of_history waiting [])) (\<lambda>_. None) 9 bs = Some r \<and>
     map_of r (js ''room'') = Some \<lparr>cd_messages = [], cd_outbox =
       [\<lparr>pn_local_id = js ''u1'', pn_text = js ''hi'', pn_sent_at = 0, pn_state = Failed\<rparr>], cd_read_cursor = 0\<rparr>"
proof -
  have "plain_text (json_text (json_of_history waiting []))"
    by (rule plain_text_ascii)
      (simp add: waiting_def json_of_history_def json_of_pending_def json_object_def commas_def json_string_def js_def
        json_unit_def u_escape_def ascii_def decimal_int_def decimal.simps [of "Suc 0"] high_surrogate_def low_surrogate_def)
  then have json: "\<forall>out. stored_conversations (\<lambda>_. []) waiting = Inr out \<longrightarrow>
      plain_text (json_text (json_of_history waiting out)) \<and>
      (\<lambda>_. Some (json_of_history waiting [])) (json_text (json_of_history waiting out)) = Some (json_of_history waiting out)"
    by (simp add: waiting_def)
  from history_roundtrip [OF _ _ json, of "\<lambda>_. None" 9] show ?thesis by (auto simp: waiting_def)
qed

end
