(* ===== verification/Restart.thy ===== *)
theory Restart
  imports Lock History Delivery
begin

text \<open>
  \<open>session-persist.ts\<close>, what a session writes down, and \<open>Session.open\<close> of \<open>session.ts\<close>, which rebuilds it: the two
  halves of the mapping, related. The MLS client is restored by a parameter; \<open>JSON.parse\<close>, the ciphers and the
  clock are arguments.
\<close>

subsection \<open>What is running\<close>

text \<open>A session with what it reaches besides its conversations. \<open>rn_groups\<close> is the content of the MLS client by
  raw group id, in the order \<open>conversationIds\<close> lists it.\<close>

record ('g, 'k) running =
  rn_session :: "'g session"
  rn_groups :: "(bytes \<times> 'g) list"
  rn_seed :: bytes
  rn_trust :: trust_store
  rn_witness :: log_witness
  rn_box :: lockbox
  rn_archive :: "'k archive"
  rn_disclose :: bool
  rn_signals_at :: "int option"
  rn_stamps :: preference_stamps

text \<open>The platform under it: the cipher of the device, the export and the restoration of the MLS state, the
  vault key an account derives, imported or refused.\<close>

record ('g, 'k, 'c) platform =
  pt_crypto :: "'c lock_crypto"
  pt_device_key :: 'c
  pt_export :: "(bytes \<times> 'g) list \<Rightarrow> bytes"
  pt_restore :: "bytes \<Rightarrow> bytes list \<Rightarrow> (bytes \<times> 'g) list option"
  pt_seed_ok :: "bytes \<Rightarrow> bool"
  pt_vault_key :: "bytes \<Rightarrow> 'k option"
  pt_mls :: "'g mls"
  pt_texts :: texts
  pt_parse :: "jsstr \<Rightarrow> json option"

definition settings_of :: "('g, 'k) running \<Rightarrow> preferences_store" where
  "settings_of x = \<lparr>ps_preferences = sx_preferences (rn_session x), ps_disclose = rn_disclose x\<rparr>"

subsection \<open>What is written\<close>

definition cached_view :: "'g view \<Rightarrow> cached" where
  "cached_view v = \<lparr>cd_messages = vw_messages v, cd_outbox = vw_outbox v, cd_read_cursor = vw_read_cursor v\<rparr>"

definition posting_keys :: "(jsstr \<times> 'g view) list \<Rightarrow> (jsstr \<times> jsstr) list" where
  "posting_keys vs = concat (map (\<lambda>(k, v). case vw_posting_key v of None \<Rightarrow> [] | Some key \<Rightarrow> [(vw_key v, to_base64 key)]) vs)"

text \<open>\<open>composeStored\<close>, with the nonces of its three seals. The slices write disjoint fields.\<close>

definition compose_stored ::
    "('g, 'k, 'c) platform \<Rightarrow> bytes \<times> bytes \<times> bytes \<Rightarrow> ('g, 'k) running \<Rightarrow> content_error + lock_envelope stored_session" where
  "compose_stored pt ivs x =
     (let s = rn_session x; vs = sx_views s; sealed = cipher_seal (pt_crypto pt) (pt_device_key pt) (rn_box x) in
      case encode_history (tx_stringify (pt_texts pt)) (map (\<lambda>(k, v). (k, cached_view v)) vs) of
        Inl e \<Rightarrow> Inl e
      | Inr history \<Rightarrow>
          Inr (witness_snapshot (rn_witness x) (names_snapshot (sx_names s) (preferences_snapshot (settings_of x)
            (trust_snapshot (rn_trust x)
              (blank_session\<lparr>st_cursors := map (\<lambda>(k, v). (vw_key v, vw_cursor v)) vs,
                 st_device_id := sx_device s, st_account := Some (sx_account s), st_handle := sx_handle s,
                 st_seed := sealed (fst ivs) (rn_seed x), st_lock := lb_envelope (rn_box x),
                 st_vault_enabled := Some (archive_snapshot (rn_archive x)),
                 st_state := Some (sealed (fst (snd ivs)) (pt_export pt (rn_groups x))),
                 st_group_ids := map fst (rn_groups x), st_signals := Some (sx_signals s),
                 st_signals_at := rn_signals_at x, st_pref_stamps := Some (rn_stamps x),
                 st_posting_keys := Some (posting_keys vs),
                 st_history := Some (sealed (snd (snd ivs)) history)\<rparr>))))))"

subsection \<open>What is rebuilt\<close>

datatype open_error =
    StoredSessionTooOld
  | BoxDoesNotOpen box_error
  | SealDoesNotOpen state_error
  | ClientNotRestored
  | SeedRefused
  | HistoryThrows
  | KeyNotBase64

text \<open>\<open>fromBase64\<close> of the posting key: an empty text is no key.\<close>

definition posting_key_in :: "lock_envelope stored_session \<Rightarrow> jsstr \<Rightarrow> open_error + bytes option" where
  "posting_key_in r key =
     (case Option.bind (st_posting_keys r) (\<lambda>ks. map_of ks key) of
        None \<Rightarrow> Inr None
      | Some t \<Rightarrow> if t = [] then Inr None
          else case from_base64 t of Inl _ \<Rightarrow> Inl KeyNotBase64 | Inr b \<Rightarrow> Inr (Some b))"

text \<open>One view, before its deadlines are stamped.\<close>

definition rebuilt_view ::
    "'g mls \<Rightarrow> lock_envelope stored_session \<Rightarrow> (jsstr \<times> cached) list \<Rightarrow> bytes option \<Rightarrow> bytes \<Rightarrow> 'g \<Rightarrow> 'g view" where
  "rebuilt_view m r cached posting gid g =
     (let key = to_hex gid; c = cached_at cached key in
      (new_view key g)\<lparr>vw_messages := cd_messages c, vw_peers := mls_peers m g, vw_epoch := mls_epoch m g,
        vw_cursor := (case map_of (st_cursors r) key of None \<Rightarrow> 0 | Some n \<Rightarrow> n), vw_posting_key := posting,
        vw_outbox := cd_outbox c, vw_read_cursor := cd_read_cursor c\<rparr>)"

fun rebuilt_views ::
    "'g mls \<Rightarrow> lock_envelope stored_session \<Rightarrow> (jsstr \<times> cached) list \<Rightarrow> (bytes \<times> 'g) list \<Rightarrow>
     open_error + (jsstr \<times> 'g view) list" where
  "rebuilt_views m r cached [] = Inr []"
| "rebuilt_views m r cached ((gid, g) # groups) =
     (case posting_key_in r (to_hex gid) of
        Inl e \<Rightarrow> Inl e
      | Inr posting \<Rightarrow>
          (case rebuilt_views m r cached groups of
             Inl e \<Rightarrow> Inl e
           | Inr vs \<Rightarrow> Inr ((to_hex gid, rebuilt_view m r cached posting gid g) # vs)))"

text \<open>The deadline a cached message never got, and the ones already past.\<close>

definition stamped_late :: "int \<Rightarrow> int \<Rightarrow> message \<Rightarrow> message" where
  "stamped_late now lifetime m =
     (if ms_expires_at m \<noteq> None then m else m\<lparr>ms_expires_at := expiry_of (ms_sent_at m) now lifetime\<rparr>)"

definition aged :: "'g mls \<Rightarrow> int \<Rightarrow> 'g view \<Rightarrow> 'g view" where
  "aged m now v =
     (let lifetime = lifetime_seconds m v in
      if lifetime = 0 then v
      else v\<lparr>vw_messages := prune (map (stamped_late now lifetime) (vw_messages v)) now\<rparr>)"

definition signals_in :: "lock_envelope stored_session \<Rightarrow> signal_settings" where
  "signals_in r =
     (case st_signals r of
        None \<Rightarrow> \<lparr>ss_read_receipts = True, ss_typing = True, ss_presence = None, ss_calls = Some True\<rparr>
      | Some s \<Rightarrow> s\<lparr>ss_calls := (case ss_calls s of None \<Rightarrow> Some True | c \<Rightarrow> c)\<rparr>)"

definition no_stamps :: preference_stamps where
  "no_stamps = \<lparr>pst_scalars = None, pst_flags = None, pst_petnames = None, pst_blocked = None\<rparr>"

definition archive_in :: "('g, 'k, 'c) platform \<Rightarrow> bytes \<Rightarrow> lock_envelope stored_session \<Rightarrow> 'k archive" where
  "archive_in pt seed r =
     (if st_vault_enabled r = Some False then archive_off else archive_open (pt_vault_key pt seed))"

definition history_in ::
    "('g, 'k, 'c) platform \<Rightarrow> int \<Rightarrow> lockbox \<Rightarrow> lock_envelope stored_session \<Rightarrow> open_error + (jsstr \<times> cached) list" where
  "history_in pt now b r =
     (case st_history r of
        None \<Rightarrow> Inr []
      | Some blob \<Rightarrow>
          (case cipher_open (pt_crypto pt) (pt_device_key pt) b blob of
             Inl e \<Rightarrow> Inl (SealDoesNotOpen e)
           | Inr bs \<Rightarrow>
               (case decode_history (pt_parse pt) (tx_parse (pt_texts pt)) now bs of
                  None \<Rightarrow> Inl HistoryThrows | Some h \<Rightarrow> Inr h)))"

text \<open>\<open>Session.open\<close>: \<open>Inr None\<close> when nothing was stored.\<close>

definition open_session ::
    "('g, 'k, 'c) platform \<Rightarrow> int \<Rightarrow> opener option \<Rightarrow> lock_envelope stored_session option \<Rightarrow>
     open_error + ('g, 'k) running option" where
  "open_session pt now opener stored =
     (case open_door stored of
        NothingStored \<Rightarrow> Inr None
      | TooOld \<Rightarrow> Inl StoredSessionTooOld
      | OpensAs account \<Rightarrow>
          (let r = the stored; open_blob = cipher_open (pt_crypto pt) (pt_device_key pt) in
           case lockbox_open (pt_crypto pt) (st_lock r) opener of
             Inl e \<Rightarrow> Inl (BoxDoesNotOpen e)
           | Inr b \<Rightarrow>
           (case open_blob b (the (st_state r)) of
             Inl e \<Rightarrow> Inl (SealDoesNotOpen e)
           | Inr state \<Rightarrow>
           (case pt_restore pt state (st_group_ids r) of
             None \<Rightarrow> Inl ClientNotRestored
           | Some groups \<Rightarrow>
           (case open_blob b (st_seed r) of
             Inl e \<Rightarrow> Inl (SealDoesNotOpen e)
           | Inr seed \<Rightarrow>
           if \<not> pt_seed_ok pt seed then Inl SeedRefused else
           (case history_in pt now b r of
             Inl e \<Rightarrow> Inl e
           | Inr cached \<Rightarrow>
           (case rebuilt_views (pt_mls pt) r cached groups of
             Inl e \<Rightarrow> Inl e
           | Inr vs \<Rightarrow>
           (case witness_hydrate (Some r) of
             Inl _ \<Rightarrow> Inl KeyNotBase64
           | Inr w \<Rightarrow>
             Inr (Some
               \<lparr>rn_session = \<lparr>sx_account = account, sx_device = st_device_id r, sx_handle = st_handle r,
                  sx_views = map (\<lambda>(k, v). (k, aged (pt_mls pt) now v)) vs, sx_signals = signals_in r,
                  sx_preferences = ps_preferences (preferences_hydrate (Some r)), sx_names = names_hydrate (Some r),
                  sx_calls = no_calls, sx_drops_owed = {}\<rparr>,
                rn_groups = groups, rn_seed = seed, rn_trust = trust_hydrate (Some r), rn_witness = w, rn_box = b,
                rn_archive = archive_in pt seed r, rn_disclose = ps_disclose (preferences_hydrate (Some r)),
                rn_signals_at = st_signals_at r,
                rn_stamps = (case st_pref_stamps r of None \<Rightarrow> no_stamps | Some p \<Rightarrow> p)\<rparr>)))))))))"

subsection \<open>A restart\<close>

text \<open>What a session must be for its record to be its own: the conversations are groups of the client, under the
  text of their id; the account is an id; no alert is standing.\<close>

definition well_kept :: "('g, 'k, 'c) platform \<Rightarrow> ('g, 'k) running \<Rightarrow> bool" where
  "well_kept pt x \<longleftrightarrow> distinct (map fst (rn_groups x)) \<and> distinct (map fst (sx_views (rn_session x))) \<and>
     (\<forall>(k, v)\<in>set (sx_views (rn_session x)). vw_key v = k \<and> (\<exists>gid. k = to_hex gid \<and> map_of (rn_groups x) gid = Some (vw_group v)) \<and>
       vw_posting_key v \<noteq> Some []) \<and>
     is_account_id (sx_account (rn_session x)) \<and> pt_seed_ok pt (rn_seed x) \<and> lw_alerts (rn_witness x) = []"

text \<open>What is relied on: the ciphers, the restoration of what was exported, and JSON and the content codec on
  the threads of this session.\<close>

definition platform_ok :: "('g, 'k, 'c) platform \<Rightarrow> bool" where
  "platform_ok pt \<longleftrightarrow> aead (lk_enc (pt_crypto pt)) (lk_dec (pt_crypto pt)) \<and>
     (\<forall>gs. distinct (map fst gs) \<longrightarrow> pt_restore pt (pt_export pt gs) (map fst gs) = Some gs)"

definition threads_carried :: "('g, 'k, 'c) platform \<Rightarrow> int \<Rightarrow> ('g, 'k) running \<Rightarrow> bool" where
  "threads_carried pt now x \<longleftrightarrow>
     (let cs = map (\<lambda>(k, v). (k, cached_view v)) (sx_views (rn_session x)); t = pt_texts pt in
      (\<forall>(k, c)\<in>set cs. \<forall>m\<in>set (cd_messages c). message_carried (tx_stringify t) (tx_parse t) now m) \<and>
      (\<forall>out. stored_conversations (tx_stringify t) cs = Inr out \<longrightarrow>
        plain_text (json_text (json_of_history cs out)) \<and>
        pt_parse pt (json_text (json_of_history cs out)) = Some (json_of_history cs out)))"

text \<open>A conversation as the next start shows it.\<close>

definition reopened :: "'g mls \<Rightarrow> int \<Rightarrow> 'g view \<Rightarrow> 'g view" where
  "reopened m now v =
     aged m now ((new_view (vw_key v) (vw_group v))\<lparr>vw_messages := recent (vw_messages v), vw_peers := mls_peers m (vw_group v),
       vw_epoch := mls_epoch m (vw_group v), vw_cursor := vw_cursor v, vw_posting_key := vw_posting_key v,
       vw_outbox := map (\<lambda>e. e\<lparr>pn_state := Failed\<rparr>) (vw_outbox v),
       vw_read_cursor := (if vw_messages v = [] \<and> vw_outbox v = [] then 0 else vw_read_cursor v)\<rparr>)"

lemma snapshots_apart:
  "names_hydrate (Some (witness_snapshot w (names_snapshot n r))) = n"
  "preferences_hydrate (Some (witness_snapshot w (names_snapshot n (preferences_snapshot p r)))) = p"
  "trust_hydrate (Some (witness_snapshot w (names_snapshot n (preferences_snapshot p (trust_snapshot t r))))) = t"
  using names_back [of n r] preferences_back [of p r] trust_back [of t r]
  by (simp_all add: names_hydrate_def names_snapshot_def preferences_hydrate_def preferences_snapshot_def
      trust_hydrate_def trust_snapshot_def witness_snapshot_def Let_def)

text \<open>The other fields of the record come through the slices.\<close>

lemma slices_frame:
  "st_device_id (witness_snapshot w (names_snapshot n (preferences_snapshot p (trust_snapshot t r)))) = st_device_id r"
  "st_account (witness_snapshot w (names_snapshot n (preferences_snapshot p (trust_snapshot t r)))) = st_account r"
  "st_handle (witness_snapshot w (names_snapshot n (preferences_snapshot p (trust_snapshot t r)))) = st_handle r"
  "st_seed (witness_snapshot w (names_snapshot n (preferences_snapshot p (trust_snapshot t r)))) = st_seed r"
  "st_lock (witness_snapshot w (names_snapshot n (preferences_snapshot p (trust_snapshot t r)))) = st_lock r"
  "st_vault_enabled (witness_snapshot w (names_snapshot n (preferences_snapshot p (trust_snapshot t r)))) = st_vault_enabled r"
  "st_state (witness_snapshot w (names_snapshot n (preferences_snapshot p (trust_snapshot t r)))) = st_state r"
  "st_group_ids (witness_snapshot w (names_snapshot n (preferences_snapshot p (trust_snapshot t r)))) = st_group_ids r"
  "st_cursors (witness_snapshot w (names_snapshot n (preferences_snapshot p (trust_snapshot t r)))) = st_cursors r"
  "st_signals (witness_snapshot w (names_snapshot n (preferences_snapshot p (trust_snapshot t r)))) = st_signals r"
  "st_signals_at (witness_snapshot w (names_snapshot n (preferences_snapshot p (trust_snapshot t r)))) = st_signals_at r"
  "st_pref_stamps (witness_snapshot w (names_snapshot n (preferences_snapshot p (trust_snapshot t r)))) = st_pref_stamps r"
  "st_posting_keys (witness_snapshot w (names_snapshot n (preferences_snapshot p (trust_snapshot t r)))) = st_posting_keys r"
  "st_history (witness_snapshot w (names_snapshot n (preferences_snapshot p (trust_snapshot t r)))) = st_history r"
  by (simp_all add: witness_snapshot_def names_snapshot_def preferences_snapshot_def trust_snapshot_def Let_def)

lemma keys_of_posting_keys:
  assumes "\<forall>(k, v)\<in>set vs. vw_key v = k"
  shows "fst ` set (posting_keys vs) \<subseteq> fst ` set vs"
proof
  fix k assume "k \<in> fst ` set (posting_keys vs)"
  then obtain k' v where "(k', v) \<in> set vs" "k = vw_key v"
    by (auto simp: posting_keys_def split: option.splits)
  with assms show "k \<in> fst ` set vs" by force
qed

lemma map_of_posting_keys:
  "distinct (map fst vs) \<Longrightarrow> \<forall>(k, v)\<in>set vs. vw_key v = k \<Longrightarrow>
     map_of (posting_keys vs) k = Option.bind (map_of vs k) (\<lambda>v. map_option to_base64 (vw_posting_key v))"
proof (induction vs)
  case (Cons kv vs)
  obtain k' v where kv: "kv = (k', v)" by (cases kv)
  have "map_of (posting_keys vs) k' = None" if "k' \<notin> fst ` set vs"
    using keys_of_posting_keys [of vs] Cons.prems(2) that by (auto simp: map_of_eq_None_iff)
  with Cons kv show ?case
    by (cases "vw_posting_key v") (auto simp: posting_keys_def)
qed (simp add: posting_keys_def)

lemma map_of_cursors:
  "\<forall>(k, v)\<in>set vs. vw_key v = k \<Longrightarrow> map_of (map (\<lambda>(k, v). (vw_key v, vw_cursor v)) vs) k = map_option vw_cursor (map_of vs k)"
  by (induction vs) auto

lemma rebuilt_views_Inr:
  "\<forall>(gid, g)\<in>set groups. posting_key_in r (to_hex gid) = Inr (posting gid) \<Longrightarrow>
     rebuilt_views m r cached groups =
       Inr (map (\<lambda>(gid, g). (to_hex gid, rebuilt_view m r cached (posting gid) gid g)) groups)"
  by (induction groups) auto

abbreviation threads_of :: "('g, 'k) running \<Rightarrow> (jsstr \<times> cached) list" where
  "threads_of x \<equiv> map (\<lambda>(k, v). (k, cached_view v)) (sx_views (rn_session x))"

lemma composed:
  assumes "encode_history (tx_stringify (pt_texts pt)) (threads_of x) = Inr bs" and "lw_alerts (rn_witness x) = []"
  obtains r where "compose_stored pt (i1, i2, i3) x = Inr r"
    and "st_account r = Some (sx_account (rn_session x))" "st_device_id r = sx_device (rn_session x)"
      "st_handle r = sx_handle (rn_session x)" "st_lock r = lb_envelope (rn_box x)" "st_group_ids r = map fst (rn_groups x)"
      "st_seed r = cipher_seal (pt_crypto pt) (pt_device_key pt) (rn_box x) i1 (rn_seed x)"
      "st_state r = Some (cipher_seal (pt_crypto pt) (pt_device_key pt) (rn_box x) i2 (pt_export pt (rn_groups x)))"
      "st_history r = Some (cipher_seal (pt_crypto pt) (pt_device_key pt) (rn_box x) i3 bs)"
    and "st_vault_enabled r = Some (archive_snapshot (rn_archive x))" "st_signals r = Some (sx_signals (rn_session x))"
      "st_signals_at r = rn_signals_at x" "st_pref_stamps r = Some (rn_stamps x)"
    and "st_cursors r = map (\<lambda>(k, v). (vw_key v, vw_cursor v)) (sx_views (rn_session x))"
      "st_posting_keys r = Some (posting_keys (sx_views (rn_session x)))"
    and "names_hydrate (Some r) = sx_names (rn_session x)" "preferences_hydrate (Some r) = settings_of x"
      "trust_hydrate (Some r) = rn_trust x" "witness_hydrate (Some r) = Inr (rn_witness x)"
proof -
  obtain r where r: "compose_stored pt (i1, i2, i3) x = Inr r" using assms by (simp add: compose_stored_def Let_def)
  show thesis
    by (rule that [of r])
      (use r assms in \<open>auto simp: compose_stored_def Let_def slices_frame snapshots_apart witness_back\<close>)
qed

text \<open>The threads the next start reads, for the key of any group.\<close>

definition read_back :: "('g, 'k) running \<Rightarrow> (jsstr \<times> cached) list \<Rightarrow> bool" where
  "read_back x h \<longleftrightarrow> (\<forall>k. cached_at h k = (case map_of (sx_views (rn_session x)) k of
     None \<Rightarrow> nothing_cached
   | Some v \<Rightarrow> \<lparr>cd_messages = recent (vw_messages v), cd_outbox = map (\<lambda>e. e\<lparr>pn_state := Failed\<rparr>) (vw_outbox v),
       cd_read_cursor = (if vw_messages v = [] \<and> vw_outbox v = [] then 0 else vw_read_cursor v)\<rparr>))"

lemma threads_read_back:
  assumes "distinct (map fst (sx_views (rn_session x)))" and "threads_carried pt now x"
  obtains bs h where "encode_history (tx_stringify (pt_texts pt)) (threads_of x) = Inr bs"
    and "decode_history (pt_parse pt) (tx_parse (pt_texts pt)) now bs = Some h" and "read_back x h"
proof -
  have "distinct (map fst (threads_of x))" using assms(1) by (simp add: case_prod_beta comp_def)
  with history_roundtrip [of "threads_of x" "tx_stringify (pt_texts pt)" "tx_parse (pt_texts pt)" now "pt_parse pt"] assms(2)
  obtain bs h where bs: "encode_history (tx_stringify (pt_texts pt)) (threads_of x) = Inr bs"
    "decode_history (pt_parse pt) (tx_parse (pt_texts pt)) now bs = Some h"
    and hist: "\<forall>k. map_of h k = (case map_of (threads_of x) k of None \<Rightarrow> None
       | Some c \<Rightarrow> if cd_messages c = [] \<and> cd_outbox c = [] then None
           else Some \<lparr>cd_messages = recent (cd_messages c),
             cd_outbox = map (\<lambda>e. e\<lparr>pn_state := Failed\<rparr>) (cd_outbox c), cd_read_cursor = cd_read_cursor c\<rparr>)"
    unfolding threads_carried_def Let_def by blast
  have "read_back x h"
    unfolding read_back_def cached_at_def
    by (auto simp: hist map_of_values cached_view_def nothing_cached_def recent_def split: option.splits)
  with bs that show thesis by blast
qed

text \<open>The conversation a group of the client becomes: the one the session had, or one it did not have.\<close>

definition view_for :: "('g, 'k) running \<Rightarrow> bytes \<times> 'g \<Rightarrow> 'g view" where
  "view_for x entry = (case map_of (sx_views (rn_session x)) (to_hex (fst entry)) of
     None \<Rightarrow> new_view (to_hex (fst entry)) (snd entry) | Some v \<Rightarrow> v)"

lemma to_hex_inject [simp]: "to_hex a = to_hex b \<longleftrightarrow> a = b"
  by (simp add: hex.enc_inject)

lemma to_base64_Nil: "to_base64 b = [] \<longleftrightarrow> b = []"
  using base64.enc_inject [of b "[]"] by (simp add: to_base64_def)

lemma well_keptD:
  assumes "well_kept pt x" and "map_of (sx_views (rn_session x)) (to_hex gid) = Some v"
  shows "vw_key v = to_hex gid" and "vw_posting_key v \<noteq> Some []" and "map_of (rn_groups x) gid = Some (vw_group v)"
proof -
  from assms map_of_SomeD [OF assms(2)] obtain gid' where "vw_key v = to_hex gid" "vw_posting_key v \<noteq> Some []"
    "to_hex gid = to_hex gid'" "map_of (rn_groups x) gid' = Some (vw_group v)"
    unfolding well_kept_def by blast
  then show "vw_key v = to_hex gid" "vw_posting_key v \<noteq> Some []" "map_of (rn_groups x) gid = Some (vw_group v)"
    by simp_all
qed

lemma view_of_group:
  assumes "well_kept pt x" and "(gid, g) \<in> set (rn_groups x)"
  shows "vw_group (view_for x (gid, g)) = g" and "vw_key (view_for x (gid, g)) = to_hex gid"
    and "vw_posting_key (view_for x (gid, g)) \<noteq> Some []"
proof -
  have g: "map_of (rn_groups x) gid = Some g" using assms by (simp add: well_kept_def)
  have "vw_group (view_for x (gid, g)) = g \<and> vw_key (view_for x (gid, g)) = to_hex gid \<and>
      vw_posting_key (view_for x (gid, g)) \<noteq> Some []"
  proof (cases "map_of (sx_views (rn_session x)) (to_hex gid)")
    case (Some v)
    then show ?thesis using well_keptD [OF assms(1) Some] g by (simp add: view_for_def)
  qed (simp add: view_for_def new_view_def)
  then show "vw_group (view_for x (gid, g)) = g" "vw_key (view_for x (gid, g)) = to_hex gid"
    "vw_posting_key (view_for x (gid, g)) \<noteq> Some []"
    by blast+
qed

lemma rebuilt_is_reopened:
  assumes kept: "well_kept pt x" and held: "(gid, g) \<in> set (rn_groups x)" and read: "read_back x h"
    and r: "st_cursors r = map (\<lambda>(k, v). (vw_key v, vw_cursor v)) (sx_views (rn_session x))"
      "st_posting_keys r = Some (posting_keys (sx_views (rn_session x)))"
  shows "posting_key_in r (to_hex gid) = Inr (vw_posting_key (view_for x (gid, g)))"
    and "aged m now (rebuilt_view m r h (vw_posting_key (view_for x (gid, g))) gid g) = reopened m now (view_for x (gid, g))"
proof -
  let ?vs = "sx_views (rn_session x)"
  have keys: "distinct (map fst ?vs)" "\<forall>(k, v)\<in>set ?vs. vw_key v = k" using kept by (auto simp: well_kept_def)
  show "posting_key_in r (to_hex gid) = Inr (vw_posting_key (view_for x (gid, g)))"
    using view_of_group(3) [OF kept held]
    by (auto simp: posting_key_in_def r map_of_posting_keys [OF keys] view_for_def new_view_def to_base64_Nil
        from_to_base64 bind_eq_Some_conv split: option.splits)
  show "aged m now (rebuilt_view m r h (vw_posting_key (view_for x (gid, g))) gid g) = reopened m now (view_for x (gid, g))"
    using view_of_group(1,2) [OF kept held] read
    by (auto simp: rebuilt_view_def reopened_def read_back_def r map_of_cursors [OF keys(2)] view_for_def new_view_def
        nothing_cached_def recent_def split: option.splits)
qed

lemma sealed_back:
  "platform_ok pt \<Longrightarrow> length iv = 12 \<Longrightarrow>
     cipher_open (pt_crypto pt) k b (cipher_seal (pt_crypto pt) k b iv p) = Inr p"
  by (simp add: platform_ok_def cipher_open_def cipher_seal_def unwrap_wrap_state)

text \<open>The session the next start has: the same but for what is not written.\<close>

definition restarted :: "('g, 'k, 'c) platform \<Rightarrow> int \<Rightarrow> ('g, 'k) running \<Rightarrow> ('g, 'k) running" where
  "restarted pt now x =
     (let s = rn_session x; signals = sx_signals s in
      x\<lparr>rn_session := s\<lparr>sx_views := map (\<lambda>(gid, g). (to_hex gid, reopened (pt_mls pt) now (view_for x (gid, g)))) (rn_groups x),
            sx_signals := signals\<lparr>ss_calls := (case ss_calls signals of None \<Rightarrow> Some True | c \<Rightarrow> c)\<rparr>,
            sx_calls := no_calls, sx_drops_owed := {}\<rparr>,
        rn_archive := (if av_key (rn_archive x) = None then archive_off else archive_open (pt_vault_key pt (rn_seed x)))\<rparr>)"

lemma restarted_fields:
  assumes "vs = map (\<lambda>(gid, g). (to_hex gid, reopened (pt_mls pt) now (view_for x (gid, g)))) (rn_groups x)"
  shows "restarted pt now x =
    \<lparr>rn_session = \<lparr>sx_account = sx_account (rn_session x), sx_device = sx_device (rn_session x),
        sx_handle = sx_handle (rn_session x), sx_views = vs,
        sx_signals = (sx_signals (rn_session x))\<lparr>ss_calls := (case ss_calls (sx_signals (rn_session x)) of
          None \<Rightarrow> Some True | c \<Rightarrow> c)\<rparr>,
        sx_preferences = sx_preferences (rn_session x), sx_names = sx_names (rn_session x), sx_calls = no_calls,
        sx_drops_owed = {}\<rparr>,
      rn_groups = rn_groups x, rn_seed = rn_seed x, rn_trust = rn_trust x, rn_witness = rn_witness x, rn_box = rn_box x,
      rn_archive = (if av_key (rn_archive x) = None then archive_off else archive_open (pt_vault_key pt (rn_seed x))),
      rn_disclose = rn_disclose x, rn_signals_at = rn_signals_at x, rn_stamps = rn_stamps x\<rparr>"
  unfolding assms by (cases x; cases "rn_session x") (simp add: restarted_def Let_def)

text \<open>C23. What a session writes down is what the next one starts from. For a platform that keeps its promises,
  \<open>composeStored\<close> succeeds and \<open>Session.open\<close>, given what opens the lock, rebuilds the session: identity, seed,
  names, preferences, trust, log head, lock, settings with their stamps, and each conversation with its group,
  cursor, posting key, reading position, its last two hundred messages less the expired, and its outbox, failed.
  What is not written starts afresh: receipts, what was said once per session, the numbers of our own
  envelopes, the ringing call, the archives still to erase. The conversations are the groups of the MLS client.\<close>

theorem restart_returns_session:
  assumes "platform_ok pt" and "well_kept pt x" and "threads_carried pt now x"
    and "length i1 = 12" and "length i2 = 12" and "length i3 = 12"
    and "lockbox_open (pt_crypto pt) (lb_envelope (rn_box x)) opener = Inr (rn_box x)"
  shows "\<exists>r. compose_stored pt (i1, i2, i3) x = Inr r \<and> open_session pt now opener (Some r) = Inr (Some (restarted pt now x))"
proof -
  have "distinct (map fst (sx_views (rn_session x)))" and alerts: "lw_alerts (rn_witness x) = []"
    using assms(2) by (simp_all add: well_kept_def)
  then obtain bs h where bs: "encode_history (tx_stringify (pt_texts pt)) (threads_of x) = Inr bs"
    and h: "decode_history (pt_parse pt) (tx_parse (pt_texts pt)) now bs = Some h" "read_back x h"
    using threads_read_back assms(3) by metis
  from composed [OF bs alerts, of i1 i2 i3] obtain r where r: "compose_stored pt (i1, i2, i3) x = Inr r"
    and ids: "st_account r = Some (sx_account (rn_session x))" "st_device_id r = sx_device (rn_session x)"
      "st_handle r = sx_handle (rn_session x)" "st_lock r = lb_envelope (rn_box x)" "st_group_ids r = map fst (rn_groups x)"
    and sealed: "st_seed r = cipher_seal (pt_crypto pt) (pt_device_key pt) (rn_box x) i1 (rn_seed x)"
      "st_state r = Some (cipher_seal (pt_crypto pt) (pt_device_key pt) (rn_box x) i2 (pt_export pt (rn_groups x)))"
      "st_history r = Some (cipher_seal (pt_crypto pt) (pt_device_key pt) (rn_box x) i3 bs)"
    and plain: "st_vault_enabled r = Some (archive_snapshot (rn_archive x))" "st_signals r = Some (sx_signals (rn_session x))"
      "st_signals_at r = rn_signals_at x" "st_pref_stamps r = Some (rn_stamps x)"
    and views: "st_cursors r = map (\<lambda>(k, v). (vw_key v, vw_cursor v)) (sx_views (rn_session x))"
      "st_posting_keys r = Some (posting_keys (sx_views (rn_session x)))"
    and slices: "names_hydrate (Some r) = sx_names (rn_session x)" "preferences_hydrate (Some r) = settings_of x"
      "trust_hydrate (Some r) = rn_trust x" "witness_hydrate (Some r) = Inr (rn_witness x)" .
  note reopen = rebuilt_is_reopened [OF assms(2) _ h(2) views]
  have rebuilt: "rebuilt_views (pt_mls pt) r h (rn_groups x) = Inr (map (\<lambda>(gid, g). (to_hex gid,
      rebuilt_view (pt_mls pt) r h (vw_posting_key (view_for x (gid, g))) gid g)) (rn_groups x))"
    by (rule rebuilt_views_Inr [where posting = "\<lambda>gid. vw_posting_key (view_for x (gid, the (map_of (rn_groups x) gid)))", THEN trans])
      (use assms(2) reopen(1) in \<open>auto simp: well_kept_def\<close>)
  have aged_views: "map ((\<lambda>(k, v). (k, aged (pt_mls pt) now v)) \<circ> (\<lambda>(gid, g). (to_hex gid,
      rebuilt_view (pt_mls pt) r h (vw_posting_key (view_for x (gid, g))) gid g))) (rn_groups x) =
      map (\<lambda>(gid, g). (to_hex gid, reopened (pt_mls pt) now (view_for x (gid, g)))) (rn_groups x)"
    using reopen(2) by auto
  have "open_session pt now opener (Some r) = Inr (Some (restarted pt now x))"
    using assms(1,2,7) sealed_back [OF assms(1,4)] sealed_back [OF assms(1,5)] sealed_back [OF assms(1,6)]
    by (simp add: open_session_def open_door_def ids sealed plain slices history_in_def h(1) rebuilt well_kept_def
        platform_ok_def restarted_fields [OF aged_views] signals_in_def settings_of_def archive_in_def archive_snapshot_def)
  with r show ?thesis by blast
qed

lemma map_of_reopened:
  "distinct (map fst gs) \<Longrightarrow> (gid, g) \<in> set gs \<Longrightarrow>
     map_of (map (\<lambda>(gid, g). (to_hex gid, f gid g)) gs) (to_hex gid) = Some (f gid g)"
  by (induction gs) (auto simp: image_iff)

text \<open>The list of conversations is rebuilt from the groups of the MLS client, and nothing takes a group out of
  the client. A conversation that left the list (dropped as empty, or never entered for want of its second
  device) is back at the next start: empty, at the beginning of its envelopes, without its posting key.\<close>

theorem dropped_conversation_returns:
  assumes "distinct (map fst (rn_groups x))" and "(gid, g) \<in> set (rn_groups x)"
    and "map_of (sx_views (rn_session x)) (to_hex gid) = None"
  shows "\<exists>v. map_of (sx_views (rn_session (restarted pt now x))) (to_hex gid) = Some v \<and> vw_group v = g \<and>
    vw_messages v = [] \<and> vw_outbox v = [] \<and> vw_cursor v = 0 \<and> vw_posting_key v = None"
proof -
  have "map_of (sx_views (rn_session (restarted pt now x))) (to_hex gid) =
      Some (reopened (pt_mls pt) now (new_view (to_hex gid) g))"
    using map_of_reopened [OF assms(1,2), of "\<lambda>gid g. reopened (pt_mls pt) now (view_for x (gid, g))"] assms(3)
    by (simp add: restarted_def Let_def view_for_def)
  then show ?thesis by (simp add: reopened_def aged_def new_view_def recent_def prune_def Let_def)
qed

subsection \<open>A device with two groups, one of them listed\<close>

definition unsent :: "pending_state \<Rightarrow> pending" where
  "unsent st = \<lparr>pn_local_id = js ''u1'', pn_text = js ''hi'', pn_sent_at = 0, pn_state = st\<rparr>"

abbreviation unsent_threads :: "(jsstr \<times> cached) list" where
  "unsent_threads \<equiv> [(js ''01'', \<lparr>cd_messages = [], cd_outbox = [unsent Sending], cd_read_cursor = 0\<rparr>)]"

definition plain_platform :: "(unit, unit, unit) platform" where
  "plain_platform = \<lparr>pt_crypto = \<lparr>lk_derive = (\<lambda>p salt. ()), lk_key = (\<lambda>m. ()), lk_enc = clear_enc, lk_dec = clear_dec\<rparr>,
     pt_device_key = (), pt_export = (\<lambda>gs. []), pt_restore = (\<lambda>state ids. Some (map (\<lambda>i. (i, ())) ids)),
     pt_seed_ok = (\<lambda>seed. True), pt_vault_key = (\<lambda>seed. Some ()),
     pt_mls = \<lparr>mls_process = (\<lambda>g p r. (None, g)), mls_encrypt = (\<lambda>g p. (None, g)), mls_epoch = (\<lambda>g. 0),
       mls_peers = (\<lambda>g. []), mls_lifetime = (\<lambda>g. None), mls_roster = (\<lambda>g. None)\<rparr>,
     pt_texts = plain_texts, pt_parse = (\<lambda>t. Some (json_of_history unsent_threads []))\<rparr>"

definition plain_running :: "(unit, unit) running" where
  "plain_running = \<lparr>rn_session = (new_session (replicate 32 0x61) (js ''phone''))\<lparr>sx_views := [(js ''01'',
       (new_view (js ''01'') ())\<lparr>vw_outbox := [unsent Sending]\<rparr>)]\<rparr>,
     rn_groups = [([1], ()), ([2], ())], rn_seed = [9], rn_trust = \<lparr>fingerprints = [], known_devices = []\<rparr>,
     rn_witness = no_witness, rn_box = no_lockbox, rn_archive = archive_off, rn_disclose = False, rn_signals_at = None,
     rn_stamps = no_stamps\<rparr>"

lemma hex_01: "to_hex [1] = js ''01''" "to_hex [2] = js ''02''"
  by (simp_all add: to_hex_def js_def hex_digit_def)

lemma plain_runs:
  "platform_ok plain_platform" "well_kept plain_platform plain_running" "threads_carried plain_platform 0 plain_running"
proof -
  show "platform_ok plain_platform"
    using aead_clear by (auto simp: platform_ok_def plain_platform_def intro!: map_idI)
  show "well_kept plain_platform plain_running"
    by (auto simp: well_kept_def plain_running_def plain_platform_def new_session_def new_view_def no_witness_def
        is_account_id_def list_all_iff hex_01 [symmetric])
  have "plain_text (json_text (json_of_history unsent_threads []))"
    by (rule plain_text_ascii)
      (simp add: unsent_def json_of_history_def json_of_pending_def json_object_def commas_def json_string_def js_def
        json_unit_def u_escape_def ascii_def decimal_int_def decimal.simps [of "Suc 0"] high_surrogate_def low_surrogate_def)
  then show "threads_carried plain_platform 0 plain_running"
    by (simp add: threads_carried_def plain_running_def plain_platform_def new_session_def cached_view_def new_view_def)
qed

theorem restart_returns_session_witness:
  "\<exists>r x'. compose_stored plain_platform (replicate 12 0, replicate 12 0, replicate 12 0) plain_running = Inr r \<and>
     open_session plain_platform 0 None (Some r) = Inr (Some x') \<and>
     (\<exists>v. map_of (sx_views (rn_session x')) (js ''01'') = Some v \<and> vw_outbox v = [unsent Failed])"
proof -
  have "lockbox_open (pt_crypto plain_platform) (lb_envelope (rn_box plain_running)) None = Inr (rn_box plain_running)"
    by (simp add: lockbox_open_def plain_running_def no_lockbox_def)
  from restart_returns_session [OF plain_runs _ _ _ this] obtain r where
    "compose_stored plain_platform (replicate 12 0, replicate 12 0, replicate 12 0) plain_running = Inr r"
    "open_session plain_platform 0 None (Some r) = Inr (Some (restarted plain_platform 0 plain_running))" by force
  moreover have "\<exists>v. map_of (sx_views (rn_session (restarted plain_platform 0 plain_running))) (js ''01'') = Some v \<and>
      vw_outbox v = [unsent Failed]"
    by (simp add: restarted_def plain_running_def plain_platform_def view_for_def hex_01 reopened_def aged_def
        lifetime_seconds_def unsent_def Let_def new_session_def)
  ultimately show ?thesis by blast
qed

theorem dropped_conversation_returns_witness:
  "\<exists>v. map_of (sx_views (rn_session (restarted plain_platform 0 plain_running))) (to_hex [2]) = Some v \<and> vw_messages v = []"
proof -
  have "map_of (sx_views (rn_session plain_running)) (to_hex [2]) = None"
    by (simp add: plain_running_def hex_01 js_def)
  with dropped_conversation_returns [of plain_running "[2]" "()" plain_platform 0] show ?thesis
    by (auto simp: plain_running_def)
qed

end
