(* ===== verification/Account.thy ===== *)
theory Account
  imports Restart Flow
begin

text \<open>
  An account and its keys, from \<open>session.ts\<close>: how a device is registered (\<open>create\<close>, \<open>fromSeed\<close>,
  \<open>restoreFromPhrase\<close>, \<open>restoreFromEscrow\<close>, \<open>attach\<close>, with the names of \<open>device.ts\<close>), and what a running
  session does of its account (\<open>rotateAccount\<close>, \<open>revokeOwnDevice\<close>, \<open>renameHandle\<close>, \<open>setDisplayName\<close>,
  \<open>setContactPolicy\<close>, \<open>resolve\<close>, \<open>deviceSyncKey\<close>). Each request takes the next reply of the server, each write
  the next reply of the disk. The keys an account derives and the random seed of a new one are parameters.
\<close>

subsection \<open>Requests\<close>

text \<open>\<open>kr_restore\<close> is \<open>AccountKey.restore\<close>, by seed; \<open>kr_policy\<close> and the texts are those of the requests.\<close>

record 'k keyring =
  kr_identity :: "bytes \<Rightarrow> bytes"
  kr_phrase :: "bytes \<Rightarrow> jsstr"
  kr_restore :: "jsstr \<Rightarrow> bytes option"
  kr_account_id :: "bytes \<Rightarrow> account"
  kr_attest :: "bytes \<Rightarrow> account \<Rightarrow> jsstr \<Rightarrow> bytes \<Rightarrow> bytes \<Rightarrow> bytes"
  kr_rotate :: "bytes \<Rightarrow> account \<Rightarrow> bytes \<Rightarrow> int \<Rightarrow> bytes"
  kr_revoke :: "bytes \<Rightarrow> account \<Rightarrow> jsstr \<Rightarrow> int \<Rightarrow> bytes"
  kr_sync :: "bytes \<Rightarrow> bytes"
  kr_vault :: "bytes \<Rightarrow> 'k option"

datatype account_call =
    CreateAccount jsstr bytes
  | ResolveHandle jsstr
  | RegisterDevice jsstr account bytes bytes bytes
  | PublishPackages nat
  | RotateAccount account bytes bytes int
  | RevokeDevice jsstr bytes int
  | RenameAccount account jsstr
  | ForgetPasswordRecovery
  | PutContactPolicy contact_policy
  | WriteSession jsstr account jsstr bytes bool
  | PollAll
  | EmitProfile jsstr jsstr "jsstr option"

datatype reply = Answered jsstr | Status nat | Unreached

datatype account_error =
    Denied nat
  | NoServer
  | NamedOtherwise
  | TooManyDevices
  | BadPhrase
  | SelfRevocation
  | BadHandle handle_error
  | BadName display_name_error
  | VaultRefused
  | LogRefused account refusal

text \<open>What a session has of its account, as far as these operations go.\<close>

record 'k holding =
  hg_device :: jsstr
  hg_account :: account
  hg_handle :: jsstr
  hg_seed :: bytes
  hg_sync :: "bytes option"
  hg_auth :: bytes
  hg_mls :: bytes
  hg_archive :: "'k archive"
  hg_preferences :: preferences
  hg_names :: names
  hg_signals :: signal_settings
  hg_witness :: log_witness
  hg_views :: "jsstr list"

record 'k desk_top =
  dt_held :: "'k holding option"
  dt_calls :: "account_call list"
  dt_replies :: "reply list"

type_synonym ('k, 'a) account_step = "('k desk_top, account_error, 'a) flow"

definition request :: "account_call \<Rightarrow> ('k, jsstr) account_step" where
  "request c s =
     (let s = s\<lparr>dt_calls := dt_calls s @ [c]\<rparr> in
      case dt_replies s of
        [] \<Rightarrow> (Inl NoServer, s)
      | Unreached # rest \<Rightarrow> (Inl NoServer, s\<lparr>dt_replies := rest\<rparr>)
      | Status n # rest \<Rightarrow> (Inl (Denied n), s\<lparr>dt_replies := rest\<rparr>)
      | Answered t # rest \<Rightarrow> (Inr t, s\<lparr>dt_replies := rest\<rparr>))"

definition send_request :: "account_call \<Rightarrow> ('k, unit) account_step" where
  "send_request c = seq (request c) (give ())"

text \<open>\<open>try { m } catch (e) { h }\<close>.\<close>

definition rescue :: "('k, 'a) account_step \<Rightarrow> (account_error \<Rightarrow> ('k, 'a) account_step) \<Rightarrow> ('k, 'a) account_step" where
  "rescue m h = (\<lambda>s. case m s of (Inl e, s') \<Rightarrow> h e s' | r \<Rightarrow> r)"

definition held :: "('k holding \<Rightarrow> 'a) \<Rightarrow> ('k, 'a) account_step" where
  "held f = look (\<lambda>s. f (the (dt_held s)))"

definition change_held :: "('k holding \<Rightarrow> 'k holding) \<Rightarrow> ('k, unit) account_step" where
  "change_held f = move (\<lambda>s. s\<lparr>dt_held := map_option f (dt_held s)\<rparr>)"

text \<open>\<open>persist\<close>, as far as these operations go: under which identity the next start opens.\<close>

definition write_session :: "('k, unit) account_step" where
  "write_session =
     after (held id) (\<lambda>h. send_request (WriteSession (hg_device h) (hg_account h) (hg_handle h) (hg_seed h)
       (archive_snapshot (hg_archive h))))"

subsection \<open>A device is registered\<close>

datatype device_kind = Desktop | Mobile

fun kind_name :: "device_kind \<Rightarrow> jsstr" where
  "kind_name Desktop = js ''desktop''"
| "kind_name Mobile = js ''mobile''"

definition device_name_candidates :: "device_kind \<Rightarrow> jsstr list" where
  "device_name_candidates kind =
     kind_name kind # map (\<lambda>n. kind_name kind @ js ''-'' @ decimal n) [2..<21]"

definition package_target :: nat where "package_target = 10"

text \<open>The loop over the names: each turn has an MLS client of its own, a name that is taken (409) leads to the next.\<close>

fun register_first :: "'k keyring \<Rightarrow> bytes \<Rightarrow> account \<Rightarrow> bytes \<Rightarrow> (nat \<Rightarrow> bytes) \<Rightarrow> nat \<Rightarrow> jsstr list \<Rightarrow>
    ('k, jsstr \<times> bytes) account_step" where
  "register_first kr seed acc auth mls n [] = throw TooManyDevices"
| "register_first kr seed acc auth mls n (name # names) =
     (let device = acc @ js '':'' @ name in
      rescue (seq (send_request (RegisterDevice device acc auth (mls n) (kr_attest kr seed acc device auth (mls n))))
                  (give (device, mls n)))
        (\<lambda>e. if e = Denied 409 then register_first kr seed acc auth mls (Suc n) names else throw e))"

text \<open>\<open>attach\<close>; \<open>auth\<close> is the public key of the anchor. A session that was not returned is gone.\<close>

definition attach :: "'k keyring \<Rightarrow> device_kind \<Rightarrow> bytes \<Rightarrow> (nat \<Rightarrow> bytes) \<Rightarrow> bytes \<Rightarrow> account \<Rightarrow> jsstr \<Rightarrow> ('k, unit) account_step" where
  "attach kr kind auth mls seed acc handle =
     after (register_first kr seed acc auth mls 0 (device_name_candidates kind)) (\<lambda>(device, key).
     seq (move (\<lambda>s. s\<lparr>dt_held := Some
         \<lparr>hg_device = device, hg_account = acc, hg_handle = handle, hg_seed = seed, hg_sync = None, hg_auth = auth,
          hg_mls = key, hg_archive = archive_open (kr_vault kr seed), hg_preferences = fresh_preferences,
          hg_names = no_names, hg_signals = signals_in blank_session, hg_witness = no_witness, hg_views = []\<rparr>\<rparr>))
         (rescue (seq (send_request (PublishPackages package_target)) write_session)
            (\<lambda>e. seq (move (\<lambda>s. s\<lparr>dt_held := None\<rparr>)) (throw e))))"

text \<open>\<open>create\<close>: the phrase is returned with the session, and only with it. \<open>fresh\<close> is the seed drawn.\<close>

definition create_account :: "'k keyring \<Rightarrow> device_kind \<Rightarrow> bytes \<Rightarrow> (nat \<Rightarrow> bytes) \<Rightarrow> bytes \<Rightarrow> jsstr \<Rightarrow> ('k, jsstr) account_step" where
  "create_account kr kind auth mls fresh handle =
     after (request (CreateAccount handle (kr_identity kr fresh))) (\<lambda>acc.
     case kr_restore kr (kr_phrase kr fresh) of
       None \<Rightarrow> throw BadPhrase
     | Some seed \<Rightarrow>
         seq (demand (kr_account_id kr (kr_identity kr fresh) = acc) NamedOtherwise)
        (seq (attach kr kind auth mls seed acc handle)
             (give (kr_phrase kr fresh))))"

definition from_seed :: "'k keyring \<Rightarrow> device_kind \<Rightarrow> bytes \<Rightarrow> (nat \<Rightarrow> bytes) \<Rightarrow> jsstr \<Rightarrow> bytes \<Rightarrow> ('k, unit) account_step" where
  "from_seed kr kind auth mls handle seed =
     after (request (ResolveHandle handle)) (\<lambda>acc. attach kr kind auth mls seed acc handle)"

definition restore_from_phrase :: "'k keyring \<Rightarrow> device_kind \<Rightarrow> bytes \<Rightarrow> (nat \<Rightarrow> bytes) \<Rightarrow> jsstr \<Rightarrow> jsstr \<Rightarrow> ('k, unit) account_step" where
  "restore_from_phrase kr kind auth mls handle phrase =
     (case kr_restore kr (trim phrase) of
        None \<Rightarrow> throw BadPhrase
      | Some seed \<Rightarrow> from_seed kr kind auth mls handle seed)"

definition restore_from_escrow :: "'k keyring \<Rightarrow> device_kind \<Rightarrow> bytes \<Rightarrow> (nat \<Rightarrow> bytes) \<Rightarrow> account \<Rightarrow> jsstr \<Rightarrow> bytes \<Rightarrow> ('k, unit) account_step" where
  "restore_from_escrow kr kind auth mls account handle seed = attach kr kind auth mls seed account handle"

subsection \<open>What a session does of its account\<close>

text \<open>\<open>rotateAccount\<close>, the whole of it: the request, the new key in memory, the new attestation, the vault, the
  write, the phrase.\<close>

definition rotate_account :: "'k keyring \<Rightarrow> bytes \<Rightarrow> int \<Rightarrow> ('k, jsstr) account_step" where
  "rotate_account kr fresh now =
     after (held id) (\<lambda>h.
     seq (send_request (RotateAccount (hg_account h) (kr_identity kr fresh)
           (kr_rotate kr (hg_seed h) (hg_account h) (kr_identity kr fresh) now) now))
    (case kr_restore kr (kr_phrase kr fresh) of
       None \<Rightarrow> throw BadPhrase
     | Some seed \<Rightarrow>
         seq (change_held (\<lambda>h. h\<lparr>hg_seed := seed\<rparr>))
        (seq (send_request (RegisterDevice (hg_device h) (hg_account h) (hg_auth h) (hg_mls h)
               (kr_attest kr seed (hg_account h) (hg_device h) (hg_auth h) (hg_mls h))))
        (seq (if archive_snapshot (hg_archive h)
              then (case archive_enable (kr_vault kr seed) (hg_archive h) of
                      None \<Rightarrow> throw VaultRefused
                    | Some a \<Rightarrow> change_held (\<lambda>h. h\<lparr>hg_archive := a\<rparr>))
              else give ())
        (seq write_session
             (give (kr_phrase kr fresh)))))))"

text \<open>\<open>deviceSyncKey\<close>: derived once and kept.\<close>

definition device_sync_key :: "'k keyring \<Rightarrow> ('k, bytes) account_step" where
  "device_sync_key kr =
     after (held id) (\<lambda>h.
       case hg_sync h of
         Some key \<Rightarrow> give key
       | None \<Rightarrow> seq (change_held (\<lambda>h. h\<lparr>hg_sync := Some (kr_sync kr (hg_seed h))\<rparr>)) (give (kr_sync kr (hg_seed h))))"

definition revoke_own_device :: "'k keyring \<Rightarrow> jsstr \<Rightarrow> int \<Rightarrow> ('k, unit) account_step" where
  "revoke_own_device kr device now =
     after (held id) (\<lambda>h.
     seq (demand (device \<noteq> hg_device h) SelfRevocation)
    (seq (send_request (RevokeDevice device (kr_revoke kr (hg_seed h) (hg_account h) device now) now))
         (send_request PollAll)))"

text \<open>The announcement of a name in every conversation, the failure of each swallowed.\<close>

definition announce_names :: "('k, unit) account_step" where
  "announce_names =
     after (held id) (\<lambda>h. for_each (\<lambda>view. attempt (send_request (EmitProfile view (hg_handle h) (nm_own (hg_names h)))))
       (hg_views h))"

definition rename_handle :: "(jsstr \<Rightarrow> jsstr) \<Rightarrow> (jsstr \<Rightarrow> jsstr) \<Rightarrow> jsstr \<Rightarrow> ('k, unit) account_step" where
  "rename_handle nfkc lower wish =
     (let wanted = normalize nfkc lower wish in
      case validate_handle wanted of
        Some problem \<Rightarrow> throw (BadHandle problem)
      | None \<Rightarrow>
          after (held id) (\<lambda>h.
          if wanted = hg_handle h then give ()
          else seq (send_request (RenameAccount (hg_account h) wanted))
              (seq (attempt (send_request ForgetPasswordRecovery))
              (seq (change_held (\<lambda>h. h\<lparr>hg_handle := wanted\<rparr>))
              (seq write_session announce_names)))))"

definition set_display_name :: "(jsstr \<Rightarrow> jsstr) \<Rightarrow> jsstr \<Rightarrow> ('k, unit) account_step" where
  "set_display_name nfc wish =
     after (held hg_names) (\<lambda>n.
       case set_mine nfc wish n of
         Inl e \<Rightarrow> throw (BadName e)
       | Inr n' \<Rightarrow> seq (change_held (\<lambda>h. h\<lparr>hg_names := n'\<rparr>)) (seq write_session announce_names))"

definition set_contact_policy :: "contact_policy \<Rightarrow> ('k, unit) account_step" where
  "set_contact_policy policy =
     seq (send_request (PutContactPolicy policy))
    (seq (change_held (\<lambda>h. h\<lparr>hg_preferences := (hg_preferences h)\<lparr>pf_contact_policy := Some policy\<rparr>\<rparr>))
         write_session)"

text \<open>
  \<open>resolve\<close>: what the server holds of our own account, its contact policy and its presence, is copied; the log is
  checked for every account. \<open>served\<close> is the answer to \<open>listAccountDevices\<close>, \<open>checks\<close> the proofs.
\<close>

record served_account =
  sa_key :: bytes
  sa_devices :: "device list"
  sa_policy :: "contact_policy option"
  sa_optout :: "bool option"

definition copy_policy :: "contact_policy option \<Rightarrow> ('k, unit) account_step" where
  "copy_policy policy =
     after (held hg_preferences) (\<lambda>pref.
       case policy of
         None \<Rightarrow> give ()
       | Some p \<Rightarrow>
           provided (pf_contact_policy pref \<noteq> Some p)
             (seq (change_held (\<lambda>h. h\<lparr>hg_preferences := (hg_preferences h)\<lparr>pf_contact_policy := Some p\<rparr>\<rparr>)) write_session))"

definition copy_presence :: "bool option \<Rightarrow> ('k, unit) account_step" where
  "copy_presence optout =
     after (held hg_signals) (\<lambda>signals.
       case optout of
         None \<Rightarrow> give ()
       | Some out \<Rightarrow>
           provided (ss_presence signals \<noteq> Some (\<not> out))
             (seq (change_held (\<lambda>h. h\<lparr>hg_signals := (hg_signals h)\<lparr>ss_presence := Some (\<not> out)\<rparr>\<rparr>)) write_session))"

definition resolve ::
    "account_crypto \<Rightarrow> (account \<Rightarrow> served_account option) \<Rightarrow>
     (account \<Rightarrow> bytes \<Rightarrow> seen_head option \<Rightarrow> (verdict \<times> seen_head option) option) \<Rightarrow>
     account \<Rightarrow> ('k, resolved_account) account_step" where
  "resolve c served checks account =
     (case served account of
        None \<Rightarrow> throw NoServer
      | Some sa \<Rightarrow>
          after (held hg_account) (\<lambda>own.
          seq (provided (account = own) (copy_policy (sa_policy sa)))
         (seq (provided (account = own) (copy_presence (sa_optout sa)))
         (after (held hg_witness) (\<lambda>w.
            case check checks account (sa_key sa) w of
              (ProofRefused a r, w') \<Rightarrow> seq (change_held (\<lambda>h. h\<lparr>hg_witness := w'\<rparr>)) (throw (LogRefused a r))
            | (Advanced moved, w') \<Rightarrow>
                seq (change_held (\<lambda>h. h\<lparr>hg_witness := w'\<rparr>))
               (seq (provided moved write_session)
                    (give (resolve_account c account (sa_key sa, sa_devices sa)))))))))"

subsection \<open>Registration\<close>

lemma request_answers:
  "dt_replies s = Answered t # rest \<Longrightarrow>
     send_request c s = (Inr (), s\<lparr>dt_calls := dt_calls s @ [c], dt_replies := rest\<rparr>)"
  "dt_replies s = Status n # rest \<Longrightarrow>
     send_request c s = (Inl (Denied n), s\<lparr>dt_calls := dt_calls s @ [c], dt_replies := rest\<rparr>)"
  "dt_replies s = Unreached # rest \<Longrightarrow>
     send_request c s = (Inl NoServer, s\<lparr>dt_calls := dt_calls s @ [c], dt_replies := rest\<rparr>)"
  by (simp_all add: send_request_def request_def seq_def after_def give_def Let_def)

lemma request_answered:
  "dt_replies s = Answered t # rest \<Longrightarrow>
     request c s = (Inr t, s\<lparr>dt_calls := dt_calls s @ [c], dt_replies := rest\<rparr>)"
  by (simp add: request_def Let_def)

lemmas account_run = request_answers request_answered rescue_def seq_def after_def give_def throw_def look_def move_def
  held_def change_held_def demand_def write_session_def

definition registration :: "'k keyring \<Rightarrow> bytes \<Rightarrow> account \<Rightarrow> bytes \<Rightarrow> (nat \<Rightarrow> bytes) \<Rightarrow> nat \<Rightarrow> jsstr \<Rightarrow> account_call" where
  "registration kr seed acc auth mls n name =
     (let device = acc @ js '':'' @ name in RegisterDevice device acc auth (mls n) (kr_attest kr seed acc device auth (mls n)))"

text \<open>What the names already taken cost, before the reply that decides.\<close>

fun registrations :: "'k keyring \<Rightarrow> bytes \<Rightarrow> account \<Rightarrow> bytes \<Rightarrow> (nat \<Rightarrow> bytes) \<Rightarrow> nat \<Rightarrow> jsstr list \<Rightarrow> account_call list" where
  "registrations kr seed acc auth mls n [] = []"
| "registrations kr seed acc auth mls n (name # names) =
     registration kr seed acc auth mls n name # registrations kr seed acc auth mls (Suc n) names"

lemma register_first_skips:
  "dt_replies s = replicate (length taken) (Status 409) @ rest \<Longrightarrow>
   register_first kr seed acc auth mls n (taken @ names) s =
     register_first kr seed acc auth mls (n + length taken) names
       (s\<lparr>dt_calls := dt_calls s @ registrations kr seed acc auth mls n taken, dt_replies := rest\<rparr>)"
proof (induction taken arbitrary: n s)
  case (Cons name taken)
  from Cons.prems have r: "dt_replies s = Status 409 # replicate (length taken) (Status 409) @ rest" by simp
  let ?s = "s\<lparr>dt_calls := dt_calls s @ [registration kr seed acc auth mls n name],
    dt_replies := replicate (length taken) (Status 409) @ rest\<rparr>"
  have "register_first kr seed acc auth mls n ((name # taken) @ names) s = register_first kr seed acc auth mls (Suc n) (taken @ names) ?s"
    by (simp add: account_run r registration_def Let_def)
  also have "\<dots> = register_first kr seed acc auth mls (Suc n + length taken) names
      (?s\<lparr>dt_calls := dt_calls ?s @ registrations kr seed acc auth mls (Suc n) taken, dt_replies := rest\<rparr>)"
    by (rule Cons.IH) simp
  finally show ?case by simp
next
  case Nil
  then show ?case by (cases s) simp
qed

definition registered :: "'k keyring \<Rightarrow> bytes \<Rightarrow> account \<Rightarrow> bytes \<Rightarrow> bytes \<Rightarrow> jsstr \<Rightarrow> jsstr \<Rightarrow> 'k holding" where
  "registered kr seed acc auth key handle name =
     \<lparr>hg_device = acc @ js '':'' @ name, hg_account = acc, hg_handle = handle, hg_seed = seed, hg_sync = None,
      hg_auth = auth, hg_mls = key, hg_archive = archive_open (kr_vault kr seed), hg_preferences = fresh_preferences,
      hg_names = no_names, hg_signals = signals_in blank_session, hg_witness = no_witness, hg_views = []\<rparr>"

text \<open>A device takes the first name its account has not taken, trying each name once, in order, under an
  attestation of both its keys and of that name; another refusal ends the attempt at once, and twenty taken names
  end it (\<open>session.ts\<close>, \<open>attach\<close>; \<open>device.ts\<close>, \<open>deviceNameCandidates\<close>).\<close>

theorem attach_takes_first_free:
  fixes kr :: "'k keyring" and seed acc auth mls
  assumes "device_name_candidates kind = taken @ free"
    and "dt_replies s = replicate (length taken) (Status 409) @ answer # Answered b # Answered c # rest"
  defines "calls \<equiv> \<lambda>names. dt_calls s @ registrations kr seed acc auth mls 0 names"
  shows "case free of
      [] \<Rightarrow> attach kr kind auth mls seed acc handle s =
        (Inl TooManyDevices, s\<lparr>dt_calls := calls taken, dt_replies := answer # Answered b # Answered c # rest\<rparr>)
    | name # _ \<Rightarrow>
        (case answer of
           Answered a \<Rightarrow> \<exists>h. h = registered kr seed acc auth (mls (length taken)) handle name \<and>
             attach kr kind auth mls seed acc handle s = (Inr (), s\<lparr>dt_held := Some h, dt_calls := calls (taken @ [name]) @
               [PublishPackages 10, WriteSession (hg_device h) acc handle seed (archive_snapshot (hg_archive h))], dt_replies := rest\<rparr>)
         | Status n \<Rightarrow> n = 409 \<or> attach kr kind auth mls seed acc handle s =
             (Inl (Denied n), s\<lparr>dt_calls := calls (taken @ [name]), dt_replies := Answered b # Answered c # rest\<rparr>)
         | Unreached \<Rightarrow> attach kr kind auth mls seed acc handle s =
             (Inl NoServer, s\<lparr>dt_calls := calls (taken @ [name]), dt_replies := Answered b # Answered c # rest\<rparr>))"
proof -
  have more: "registrations kr seed acc auth mls n (xs @ [y]) =
      registrations kr seed acc auth mls n xs @ [registration kr seed acc auth mls (n + length xs) y]" for n xs y
    by (induction xs arbitrary: n) simp_all
  note skip = register_first_skips [OF assms(2), of kr seed acc auth mls 0 free, folded assms(1)]
  show ?thesis
    by (cases free; cases answer)
      (simp_all add: attach_def account_run skip calls_def more registration_def registered_def package_target_def Let_def)
qed

definition plain_keyring :: "bytes keyring" where
  "plain_keyring = \<lparr>kr_identity = Cons 1, kr_phrase = (\<lambda>seed. map ucast seed), kr_restore = (\<lambda>p. Some (map ucast p)),
     kr_account_id = (\<lambda>k. map ucast k), kr_attest = (\<lambda>seed _ _ auth mls. seed @ auth @ mls),
     kr_rotate = (\<lambda>seed _ new _. seed @ new), kr_revoke = (\<lambda>seed _ _ _. seed), kr_sync = Cons 2, kr_vault = (\<lambda>seed. Some seed)\<rparr>"

definition empty_top :: "reply list \<Rightarrow> bytes desk_top" where
  "empty_top replies = \<lparr>dt_held = None, dt_calls = [], dt_replies = replies\<rparr>"

lemma attach_takes_first_free_witness:
  "attach plain_keyring Mobile [7] (\<lambda>n. [of_nat n]) [9] (js ''a'') (js ''anna'')
       (empty_top [Status 409, Answered [], Answered [], Answered []]) =
     (Inr (), \<lparr>dt_held = Some (registered plain_keyring [9] (js ''a'') [7] [1] (js ''anna'') (js ''mobile-2'')),
       dt_calls = registrations plain_keyring [9] (js ''a'') [7] (\<lambda>n. [of_nat n]) 0 [js ''mobile'', js ''mobile-2''] @
         [PublishPackages 10, WriteSession (js ''a'' @ js '':'' @ js ''mobile-2'') (js ''a'') (js ''anna'') [9] True],
       dt_replies = []\<rparr>)"
proof -
  have two: "kind_name Mobile @ js ''-'' @ decimal 2 = js ''mobile-2''"
    by (simp add: js_def decimal.simps)
  have "[2..<21] = 2 # [3..<21]" by (simp add: upt_conv_Cons)
  then have "device_name_candidates Mobile = [js ''mobile''] @ js ''mobile-2'' # map (\<lambda>n. kind_name Mobile @ js ''-'' @ decimal n) [3..<21]"
    using two by (simp add: device_name_candidates_def)
  from attach_takes_first_free [OF this, where s = "empty_top [Status 409, Answered [], Answered [], Answered []]"
      and answer = "Answered []" and b = "[]" and c = "[]" and rest = "[]" and kr = plain_keyring and seed = "[9]"
      and acc = "js ''a''" and auth = "[7]" and mls = "\<lambda>n. [of_nat n]" and handle = "js ''anna''"]
  show ?thesis
    by (simp add: empty_top_def registered_def archive_open_def archive_off_def archive_snapshot_def plain_keyring_def)
qed

subsection \<open>Creation\<close>

lemma rescue_Inr:
  "rescue m h s = (Inr a, s') \<longleftrightarrow> m s = (Inr a, s') \<or> (\<exists>e s1. m s = (Inl e, s1) \<and> h e s1 = (Inr a, s'))"
  by (auto simp: rescue_def split: prod.splits sum.splits)

lemma send_request_Inr:
  "send_request c s = (Inr u, s') \<longleftrightarrow>
     (\<exists>t rest. dt_replies s = Answered t # rest \<and> s' = s\<lparr>dt_calls := dt_calls s @ [c], dt_replies := rest\<rparr>)"
  by (auto simp: send_request_def request_def seq_Inr basic_Inr Let_def split: list.splits reply.splits)

text \<open>An \<open>attach\<close> that returns has written the identity it holds.\<close>

lemma attach_writes:
  assumes "attach kr kind auth mls seed acc handle s = (Inr u, s')"
  shows "\<exists>h. dt_held s' = Some h \<and> hg_seed h = seed \<and> hg_account h = acc \<and> hg_handle h = handle \<and>
    last (dt_calls s') = WriteSession (hg_device h) acc handle seed (archive_snapshot (hg_archive h))"
  using assms
  by (auto simp: attach_def after_Inr seq_Inr basic_Inr write_session_def rescue_Inr held_def send_request_Inr)

text \<open>The recovery phrase is returned only with a session written under the seed it restores, for an account
  the server named after its key (\<open>session.ts\<close>, \<open>create\<close>).\<close>

theorem created_phrase_opens_account:
  assumes "create_account kr kind auth mls fresh handle s = (Inr phrase, s')"
  shows "\<exists>h. dt_held s' = Some h \<and> kr_restore kr phrase = Some (hg_seed h) \<and> hg_handle h = handle \<and>
    hg_account h = kr_account_id kr (kr_identity kr fresh) \<and>
    last (dt_calls s') = WriteSession (hg_device h) (hg_account h) handle (hg_seed h) (archive_snapshot (hg_archive h))"
  using assms
  by (auto simp: create_account_def after_Inr seq_Inr basic_Inr split: option.splits dest!: attach_writes)

lemma created_phrase_opens_account_witness:
  "\<exists>h. kr_restore plain_keyring (kr_phrase plain_keyring [9]) = Some (hg_seed h) \<and>
     hg_account h = kr_account_id plain_keyring (kr_identity plain_keyring [9]) \<and>
     dt_held (snd (create_account plain_keyring Desktop [7] (\<lambda>n. [of_nat n]) [9] (js ''anna'')
       (empty_top [Answered [1, 9], Answered [], Answered [], Answered []]))) = Some h"
proof -
  let ?s = "empty_top [Answered [1, 9], Answered [], Answered [], Answered []]"
  have "fst (create_account plain_keyring Desktop [7] (\<lambda>n. [of_nat n]) [9] (js ''anna'') ?s) = Inr (kr_phrase plain_keyring [9])"
    by (simp add: create_account_def account_run empty_top_def plain_keyring_def attach_def device_name_candidates_def Let_def)
  then obtain s' where "create_account plain_keyring Desktop [7] (\<lambda>n. [of_nat n]) [9] (js ''anna'') ?s = (Inr (kr_phrase plain_keyring [9]), s')"
    by (cases "create_account plain_keyring Desktop [7] (\<lambda>n. [of_nat n]) [9] (js ''anna'') ?s") simp
  with created_phrase_opens_account [OF this] show ?thesis by auto
qed

text \<open>An account registered on the server whose device is not: the name is taken, and its phrase is lost with the
  exception.\<close>

lemma created_account_lost:
  "kr_restore kr (kr_phrase kr fresh) = Some seed \<Longrightarrow>
   dt_replies s = [Answered (kr_account_id kr (kr_identity kr fresh)), Unreached] \<Longrightarrow>
   \<exists>calls. create_account kr kind auth mls fresh handle s = (Inl NoServer, s\<lparr>dt_calls :=
     dt_calls s @ CreateAccount handle (kr_identity kr fresh) # calls, dt_replies := []\<rparr>)"
  by (simp add: create_account_def account_run attach_def device_name_candidates_def Let_def) (rule exI, rule refl)

subsection \<open>Rotation\<close>

definition rotation_call :: "'k keyring \<Rightarrow> bytes \<Rightarrow> int \<Rightarrow> 'k holding \<Rightarrow> account_call" where
  "rotation_call kr fresh now h =
     RotateAccount (hg_account h) (kr_identity kr fresh) (kr_rotate kr (hg_seed h) (hg_account h) (kr_identity kr fresh) now) now"

definition reattestation :: "'k keyring \<Rightarrow> bytes \<Rightarrow> 'k holding \<Rightarrow> account_call" where
  "reattestation kr seed h =
     RegisterDevice (hg_device h) (hg_account h) (hg_auth h) (hg_mls h)
       (kr_attest kr seed (hg_account h) (hg_device h) (hg_auth h) (hg_mls h))"

text \<open>A rotation that is answered replaces the key by one the old key named, attests this device again under it,
  moves the vault to it when there is one, writes it, and returns the phrase that restores it
  (\<open>session.ts\<close>, \<open>rotateAccount\<close>).\<close>

theorem rotation_completes:
  assumes "dt_held s = Some h" and "dt_replies s = Answered a # Answered b # Answered c # rest"
    and "kr_restore kr (kr_phrase kr fresh) = Some seed" and "kr_vault kr seed = Some v"
  defines "h' \<equiv> h\<lparr>hg_seed := seed, hg_archive := (if archive_snapshot (hg_archive h)
      then (hg_archive h)\<lparr>av_key := Some v\<rparr> else hg_archive h)\<rparr>"
  shows "rotate_account kr fresh now s = (Inr (kr_phrase kr fresh), s\<lparr>dt_held := Some h',
    dt_calls := dt_calls s @ [rotation_call kr fresh now h, reattestation kr seed h,
      WriteSession (hg_device h) (hg_account h) (hg_handle h) seed (archive_snapshot (hg_archive h))], dt_replies := rest\<rparr>)"
  using assms(1-4)
  by (simp add: rotate_account_def account_run h'_def rotation_call_def reattestation_def archive_enable_def archive_snapshot_def)

definition at_home :: "reply list \<Rightarrow> bytes desk_top" where
  "at_home replies = \<lparr>dt_held = Some ((registered plain_keyring [9] (js ''a'') [7] [1] (js ''anna'') (js ''mobile''))
     \<lparr>hg_views := [js ''g'', js ''h'']\<rparr>), dt_calls = [], dt_replies = replies\<rparr>"

lemma plain_keyring_restores: "kr_restore plain_keyring (kr_phrase plain_keyring seed) = Some seed"
  by (simp add: plain_keyring_def map_idI ucast_up_ucast_id is_up)

lemma rotation_completes_witness:
  "fst (rotate_account plain_keyring [5] 100 (at_home [Answered [], Answered [], Answered []])) = Inr (kr_phrase plain_keyring [5])"
  using rotation_completes [of "at_home [Answered [], Answered [], Answered []]"
      "(registered plain_keyring [9] (js ''a'') [7] [1] (js ''anna'') (js ''mobile''))\<lparr>hg_views := [js ''g'', js ''h'']\<rparr>"
      "[]" "[]" "[]" "[]" plain_keyring "[5]" "[5]" "[5]" 100]
  by (simp add: at_home_def plain_keyring_restores) (simp add: plain_keyring_def)

text \<open>A rotation the server accepted and whose next request fails has no way on: nothing of the new key is
  written, its phrase is not returned, the next start opens under the key the server has retired
  (\<open>session.ts\<close>, \<open>rotateAccount\<close> writes last).\<close>

theorem half_rotation_loses_key:
  assumes "dt_held s = Some h" and "dt_replies s = Answered a # failure # rest" and "\<forall>t. failure \<noteq> Answered t"
    and "kr_restore kr (kr_phrase kr fresh) = Some seed"
  shows "\<exists>e. rotate_account kr fresh now s = (Inl e, s\<lparr>dt_held := Some (h\<lparr>hg_seed := seed\<rparr>),
    dt_calls := dt_calls s @ [rotation_call kr fresh now h, reattestation kr seed h], dt_replies := rest\<rparr>)"
  using assms
  by (cases failure) (simp_all add: rotate_account_def account_run rotation_call_def reattestation_def)

lemma half_rotation_loses_key_witness:
  "\<exists>e s'. rotate_account plain_keyring [5] 100 (at_home [Answered [], Unreached]) = (Inl e, s') \<and>
     (\<forall>d acc handle seed on. WriteSession d acc handle seed on \<notin> set (dt_calls s'))"
proof -
  note lost = half_rotation_loses_key [of "at_home [Answered [], Unreached]"
      "(registered plain_keyring [9] (js ''a'') [7] [1] (js ''anna'') (js ''mobile''))\<lparr>hg_views := [js ''g'', js ''h'']\<rparr>"
      "[]" Unreached "[]" plain_keyring "[5]" "[5]" 100]
  then show ?thesis
    by (auto simp: at_home_def plain_keyring_restores rotation_call_def reattestation_def)
qed

text \<open>The key the devices share is not the rotated account's: once derived, it stays that of the retired key
  after a rotation, so settings go on being sealed for whoever holds the old seed and not for a device paired
  since (\<open>session.ts\<close>, \<open>deviceSyncKey\<close> keeps the first key it derives).\<close>

theorem rotation_keeps_sync_key:
  assumes "dt_held s = Some h" and "rotate_account kr fresh now (snd (device_sync_key kr s)) = (Inr phrase, s')"
    and "hg_sync h = None"
  shows "fst (device_sync_key kr s') = Inr (kr_sync kr (hg_seed h)) \<and>
    kr_restore kr phrase = Some (hg_seed (the (dt_held s')))"
proof -
  have "snd (device_sync_key kr s) = s\<lparr>dt_held := Some (h\<lparr>hg_sync := Some (kr_sync kr (hg_seed h))\<rparr>)\<rparr>"
    by (simp add: device_sync_key_def account_run assms)
  with assms(2) have "hg_sync (the (dt_held s')) = Some (kr_sync kr (hg_seed h))"
    and "kr_restore kr phrase = Some (hg_seed (the (dt_held s')))"
    by (auto simp: rotate_account_def after_Inr seq_Inr basic_Inr held_def change_held_def write_session_def send_request_Inr
        split: option.splits if_splits)
  then show ?thesis by (simp add: device_sync_key_def account_run)
qed

lemma rotation_keeps_sync_key_witness:
  "\<exists>s'. rotate_account plain_keyring [5] 100 (snd (device_sync_key plain_keyring (at_home [Answered [], Answered [], Answered []])))
       = (Inr (kr_phrase plain_keyring [5]), s') \<and>
     fst (device_sync_key plain_keyring s') = Inr (kr_sync plain_keyring [9]) \<and>
     kr_sync plain_keyring [9] \<noteq> kr_sync plain_keyring (hg_seed (the (dt_held s')))"
proof -
  let ?h = "(registered plain_keyring [9] (js ''a'') [7] [1] (js ''anna'') (js ''mobile''))\<lparr>hg_views := [js ''g'', js ''h'']\<rparr>"
  let ?s = "at_home [Answered [], Answered [], Answered []]"
  have s: "snd (device_sync_key plain_keyring ?s) = ?s\<lparr>dt_held := Some (?h\<lparr>hg_sync := Some (kr_sync plain_keyring [9])\<rparr>)\<rparr>"
    by (simp add: at_home_def device_sync_key_def account_run registered_def)
  have "fst (rotate_account plain_keyring [5] 100 (snd (device_sync_key plain_keyring ?s))) = Inr (kr_phrase plain_keyring [5])"
    using rotation_completes [of "snd (device_sync_key plain_keyring ?s)" "?h\<lparr>hg_sync := Some (kr_sync plain_keyring [9])\<rparr>"
        "[]" "[]" "[]" "[]" plain_keyring "[5]" "[5]" "[5]" 100]
    by (simp add: s plain_keyring_restores) (simp add: at_home_def plain_keyring_def)
  then obtain s' where s': "rotate_account plain_keyring [5] 100 (snd (device_sync_key plain_keyring ?s))
      = (Inr (kr_phrase plain_keyring [5]), s')"
    by (cases "rotate_account plain_keyring [5] 100 (snd (device_sync_key plain_keyring ?s))") simp
  have "dt_held ?s = Some ?h" "hg_sync ?h = None" "hg_seed ?h = [9]" by (simp_all add: at_home_def registered_def)
  then have "fst (device_sync_key plain_keyring s') = Inr (kr_sync plain_keyring [9]) \<and>
      kr_restore plain_keyring (kr_phrase plain_keyring [5]) = Some (hg_seed (the (dt_held s')))"
    using rotation_keeps_sync_key [OF _ s', of ?h] by simp
  then have "fst (device_sync_key plain_keyring s') = Inr (kr_sync plain_keyring [9])" "hg_seed (the (dt_held s')) = [5]"
    by (simp_all only: plain_keyring_restores option.inject)
  moreover have "kr_sync plain_keyring [9] \<noteq> kr_sync plain_keyring [5]" by (simp add: plain_keyring_def)
  ultimately show ?thesis using s' by simp
qed

subsection \<open>Names of the account\<close>

lemma attempted_request:
  "attempt (send_request c) s = (Inr (), s\<lparr>dt_calls := dt_calls s @ [c], dt_replies := tl (dt_replies s)\<rparr>)"
proof (cases "dt_replies s")
  case Nil
  then show ?thesis by (cases s) (simp add: attempt_def send_request_def request_def seq_def after_def Let_def)
next
  case (Cons r rest)
  then show ?thesis by (cases r) (simp_all add: attempt_def request_answers)
qed

lemma announce_each:
  "for_each (\<lambda>view. attempt (send_request (f view))) views s =
     (Inr (), s\<lparr>dt_calls := dt_calls s @ map f views, dt_replies := drop (length views) (dt_replies s)\<rparr>)"
  by (induction views arbitrary: s) (simp_all add: give_def seq_def after_def attempted_request drop_Suc)

text \<open>A rename asks the server first and keeps the old name when it is refused. Accepted, it is this session's,
  written and announced under the new name in every conversation, whatever the recovery, and each announcement,
  meet on the way (\<open>session.ts\<close>, \<open>renameHandle\<close>).\<close>

theorem rename_follows_server:
  assumes "dt_held s = Some h" and "validate_handle (normalize nfkc lower wish) = None"
    and "normalize nfkc lower wish \<noteq> hg_handle h" and "dt_replies s = answer # recovery # Answered w # rest"
  defines "wanted \<equiv> normalize nfkc lower wish"
  shows "case answer of
      Answered a \<Rightarrow> \<exists>rest'. rename_handle nfkc lower wish s = (Inr (), s\<lparr>dt_held := Some (h\<lparr>hg_handle := wanted\<rparr>),
        dt_calls := dt_calls s @ [RenameAccount (hg_account h) wanted, ForgetPasswordRecovery,
          WriteSession (hg_device h) (hg_account h) wanted (hg_seed h) (archive_snapshot (hg_archive h))] @
          map (\<lambda>view. EmitProfile view wanted (nm_own (hg_names h))) (hg_views h), dt_replies := rest'\<rparr>)
    | _ \<Rightarrow> dt_held (snd (rename_handle nfkc lower wish s)) = Some h \<and> (\<exists>e. fst (rename_handle nfkc lower wish s) = Inl e)
        \<and> dt_calls (snd (rename_handle nfkc lower wish s)) = dt_calls s @ [RenameAccount (hg_account h) wanted]"
  using assms(1-4)
  by (cases answer)
    (auto simp: rename_handle_def Let_def announce_names_def account_run attempted_request announce_each wanted_def [symmetric])

definition same_text :: "jsstr \<Rightarrow> jsstr" where "same_text t = t"

lemma rename_follows_server_witness:
  "(\<exists>s'. rename_handle same_text same_text (js ''annabel'') (at_home [Answered [], Unreached, Answered [], Unreached]) = (Inr (), s')
      \<and> hg_handle (the (dt_held s')) = js ''annabel'')
   \<and> hg_handle (the (dt_held (snd (rename_handle same_text same_text (js ''annabel'') (at_home [Status 409, Unreached, Answered []]))))) = js ''anna''"
proof -
  let ?h = "(registered plain_keyring [9] (js ''a'') [7] [1] (js ''anna'') (js ''mobile''))\<lparr>hg_views := [js ''g'', js ''h'']\<rparr>"
  have n: "normalize same_text same_text (js ''annabel'') = js ''annabel''" and v: "validate_handle (js ''annabel'') = None"
    by code_simp+
  have h: "hg_handle ?h = js ''anna''" by (simp add: registered_def)
  note rename = rename_follows_server [where h = ?h and nfkc = same_text and lower = same_text and wish = "js ''annabel''"
      and s = "at_home rs" and w = "[]" for rs, unfolded n, simplified v h]
  show ?thesis
    using rename [of "[Answered [], Unreached, Answered [], Unreached]" "Answered []" Unreached "[Unreached]"]
      rename [of "[Status 409, Unreached, Answered []]" "Status 409" Unreached "[]"]
    by (auto simp: at_home_def h)
qed

text \<open>A rename does not reach the other devices of the account, whose sessions go on announcing the old handle
  with a later time: the last announcement wins with every correspondent, so the handle given up comes back
  (\<open>session.ts\<close>, \<open>emitProfile\<close> announces \<open>this.handle\<close>; \<open>session-naming.ts\<close>, \<open>absorbHandle\<close>).\<close>

theorem sibling_restores_old_handle:
  assumes "at < at'" and "validate_handle (normalize nfkc lower old) = None"
    and "case held_handle n account of Some (t, _) \<Rightarrow> t < at | None \<Rightarrow> True"
  shows "map_of (handles (snd (absorb_handle nfkc lower account old at'
    (snd (absorb_handle nfkc lower account new at n))))) account = Some (normalize nfkc lower old)"
proof -
  let ?n = "snd (absorb_handle nfkc lower account new at n)"
  have "\<not> (case map_of (nm_claimed ?n) account of Some known \<Rightarrow> prof_at known \<ge> at' | None \<Rightarrow> False)"
    using assms(1,3) by (auto simp: absorb_handle_def held_handle_def Let_def update_conv' split: option.splits)
  then have "held_handle (snd (absorb_handle nfkc lower account old at' ?n)) account = Some (at', normalize nfkc lower old)"
    using assms(2) by (simp add: absorb_handle_def held_handle_def Let_def update_conv')
  then show ?thesis
    by (auto simp: held_handle_def handles_def map_of_map)
qed

lemma sibling_restores_old_handle_witness:
  "map_of (handles (snd (absorb_handle (\<lambda>t. t) (\<lambda>t. t) (js ''a'') (js ''anna'') 20
    (snd (absorb_handle (\<lambda>t. t) (\<lambda>t. t) (js ''a'') (js ''annabel'') 10 no_names))))) (js ''a'') = Some (js ''anna'')"
proof -
  have n: "normalize (\<lambda>t. t) (\<lambda>t. t) (js ''anna'') = js ''anna''" and v: "validate_handle (js ''anna'') = None"
    by code_simp+
  show ?thesis
    using sibling_restores_old_handle [of 10 20 "\<lambda>t. t" "\<lambda>t. t" "js ''anna''" no_names "js ''a''" "js ''annabel''"]
    by (simp add: n v held_handle_def no_names_def)
qed

subsection \<open>What the server holds of our account\<close>

text \<open>Copying moves the one field, and writes when it moved it.\<close>

definition with_policy :: "contact_policy option \<Rightarrow> 'k holding \<Rightarrow> 'k holding" where
  "with_policy policy h = (case policy of None \<Rightarrow> h
     | p \<Rightarrow> h\<lparr>hg_preferences := (hg_preferences h)\<lparr>pf_contact_policy := p\<rparr>\<rparr>)"

definition with_presence :: "bool option \<Rightarrow> 'k holding \<Rightarrow> 'k holding" where
  "with_presence optout h = (case optout of None \<Rightarrow> h
     | Some out \<Rightarrow> h\<lparr>hg_signals := (hg_signals h)\<lparr>ss_presence := Some (\<not> out)\<rparr>\<rparr>)"

lemma copies_Inr:
  "dt_held s = Some h \<Longrightarrow> copy_policy policy s = (Inr u, s') \<Longrightarrow>
     dt_held s' = Some (with_policy policy h) \<and> (\<exists>cs. dt_calls s' = dt_calls s @ cs \<and> (cs = [] \<longrightarrow> with_policy policy h = h))"
  "dt_held s = Some h \<Longrightarrow> copy_presence optout s = (Inr u, s') \<Longrightarrow>
     dt_held s' = Some (with_presence optout h) \<and> (\<exists>cs. dt_calls s' = dt_calls s @ cs \<and> (cs = [] \<longrightarrow> with_presence optout h = h))"
  by (cases h; auto simp: copy_policy_def copy_presence_def provided_def after_Inr seq_Inr basic_Inr held_def change_held_def
      write_session_def send_request_Inr with_policy_def with_presence_def split: option.splits if_splits)+

lemma witnessed_Inr:
  assumes "dt_held s = Some h"
    and "after (held hg_witness) (\<lambda>w. case check checks account key w of
            (ProofRefused a r, w') \<Rightarrow> seq (change_held (\<lambda>h. h\<lparr>hg_witness := w'\<rparr>)) (throw (LogRefused a r))
          | (Advanced moved, w') \<Rightarrow>
              seq (change_held (\<lambda>h. h\<lparr>hg_witness := w'\<rparr>)) (seq (provided moved write_session) (give resolved))) s = (Inr r, s')"
  shows "r = resolved \<and> (\<exists>w cs. dt_held s' = Some (h\<lparr>hg_witness := w\<rparr>) \<and> dt_calls s' = dt_calls s @ cs)"
  using assms
  by (auto simp: provided_def after_Inr seq_Inr basic_Inr held_def change_held_def write_session_def send_request_Inr
      split: prod.splits check_result.splits if_splits)

text \<open>After a resolution of our own account that returned, the contact policy and the presence this session has
  are the server's where it gives them, and a session they moved has been written; the resolution of another
  account moves neither (\<open>session.ts\<close>, \<open>resolve\<close>).\<close>

theorem resolve_copies_server:
  assumes "dt_held s = Some h" and "served account = Some sa" and "resolve c served checks account s = (Inr r, s')"
  defines "h' \<equiv> if account = hg_account h then with_presence (sa_optout sa) (with_policy (sa_policy sa) h) else h"
  shows "r = resolve_account c account (sa_key sa, sa_devices sa) \<and>
    (\<exists>w. dt_held s' = Some (h'\<lparr>hg_witness := w\<rparr>)) \<and> (dt_calls s' = dt_calls s \<longrightarrow> h' = h)"
proof -
  let ?own = "account = hg_account h"
  obtain s1 s2 where 1: "provided ?own (copy_policy (sa_policy sa)) s = (Inr (), s1)"
    and 2: "provided ?own (copy_presence (sa_optout sa)) s1 = (Inr (), s2)"
    and 3: "after (held hg_witness) (\<lambda>w. case check checks account (sa_key sa) w of
            (ProofRefused a r, w') \<Rightarrow> seq (change_held (\<lambda>h. h\<lparr>hg_witness := w'\<rparr>)) (throw (LogRefused a r))
          | (Advanced moved, w') \<Rightarrow> seq (change_held (\<lambda>h. h\<lparr>hg_witness := w'\<rparr>)) (seq (provided moved write_session)
                (give (resolve_account c account (sa_key sa, sa_devices sa))))) s2 = (Inr r, s')"
    using assms(1-3) by (auto simp: resolve_def after_Inr seq_Inr basic_Inr held_def)
  define h1 where "h1 = (if ?own then with_policy (sa_policy sa) h else h)"
  have s1: "dt_held s1 = Some h1 \<and> (\<exists>cs. dt_calls s1 = dt_calls s @ cs \<and> (cs = [] \<longrightarrow> h1 = h))"
    using 1 copies_Inr(1) [OF assms(1), of "sa_policy sa"] assms(1)
    by (auto simp: h1_def provided_def basic_Inr split: if_splits)
  have s2: "dt_held s2 = Some h' \<and> (\<exists>cs. dt_calls s2 = dt_calls s1 @ cs \<and> (cs = [] \<longrightarrow> h' = h1))"
    using 2 copies_Inr(2) [of s1 h1 "sa_optout sa"] s1
    by (auto simp: h1_def h'_def provided_def basic_Inr split: if_splits)
  from witnessed_Inr [OF _ 3, of h'] s1 s2 show ?thesis by auto
qed

definition our_account :: served_account where
  "our_account = \<lparr>sa_key = [1], sa_devices = [], sa_policy = Some PolicyClosed, sa_optout = Some True\<rparr>"

lemma resolve_copies_server_witness:
  "\<exists>r s'. resolve \<lparr>verify_attestation = \<lambda>_ _ _ _ _ _. True, verify_revocation = \<lambda>_ _ _ _ _. True, account_fingerprint = \<lambda>_. []\<rparr>
      (\<lambda>_. Some our_account) (\<lambda>_ _ _. None) (js ''a'') (at_home [Answered [], Answered []]) = (Inr r, s') \<and>
    pf_contact_policy (hg_preferences (the (dt_held s'))) = Some PolicyClosed \<and> ss_presence (hg_signals (the (dt_held s'))) = Some False"
proof -
  let ?c = "\<lparr>verify_attestation = \<lambda>_ _ _ _ _ _. True, verify_revocation = \<lambda>_ _ _ _ _. True, account_fingerprint = \<lambda>_. []\<rparr>"
  let ?h = "(registered plain_keyring [9] (js ''a'') [7] [1] (js ''anna'') (js ''mobile''))\<lparr>hg_views := [js ''g'', js ''h'']\<rparr>"
  let ?run = "resolve ?c (\<lambda>_. Some our_account) (\<lambda>_ _ _. None) (js ''a'') (at_home [Answered [], Answered []])"
  obtain r s' where run: "?run = (Inr r, s')"
  proof (cases ?run)
    case (Pair x s')
    moreover have "\<exists>r. fst ?run = Inr r"
      by (simp add: resolve_def at_home_def our_account_def copy_policy_def copy_presence_def provided_def account_run
          registered_def fresh_preferences_def signals_in_def blank_session_def check_def check_return_def)
    ultimately show ?thesis using that by auto
  qed
  have "dt_held (at_home [Answered [], Answered []]) = Some ?h" "hg_account ?h = js ''a''"
    by (simp_all add: at_home_def registered_def)
  with resolve_copies_server [OF _ _ run, of ?h] obtain w
    where "dt_held s' = Some ((with_presence (Some True) (with_policy (Some PolicyClosed) ?h))\<lparr>hg_witness := w\<rparr>)"
    by (auto simp: our_account_def)
  then have "pf_contact_policy (hg_preferences (the (dt_held s'))) = Some PolicyClosed"
    "ss_presence (hg_signals (the (dt_held s'))) = Some False"
    by (simp_all add: with_policy_def with_presence_def)
  with run show ?thesis by blast
qed

end
