(* ===== verification/Gateway.thy ===== *)
theory Gateway
  imports Conversation
begin

text \<open>
  \<open>gateway.ts\<close>, the session with the gateway, as a machine: its events are the calls of the client and what the
  platform reports of the socket, its effects what it asks. The frames are parsed by the platform; the handlers
  \<open>startStream\<close> of \<open>session.ts\<close> gives it are at the end, with \<open>lifecycle.ts\<close> and \<open>singleton.ts\<close>.
\<close>

subsection \<open>The machine\<close>

text \<open>\<open>Live\<close> is \<open>readyState === OPEN\<close>.\<close>

datatype wire = NoWire | Connecting | Live

datatype retry = Stopped | InSession | Waiting nat

record gateway =
  gw_closed :: bool
  gw_wire :: wire
  gw_signing :: "jsstr option"
  gw_attempt :: nat
  gw_beating :: "int option"
  gw_heartbeat :: int
  gw_scope :: "jsstr list"
  gw_loop :: retry

datatype server_frame =
    Hello jsstr "int option"
  | Ready "jsstr list option"
  | EnvelopeAt jsstr nat
  | GapAt jsstr nat
  | SignalFrom jsstr jsstr
  | OtherFrame

datatype client_frame =
    SubscribeTo jsstr
  | UnsubscribeFrom jsstr
  | SignalTo jsstr jsstr
  | IdentifyWith jsstr "(jsstr \<times> nat) list"
  | Heartbeat

datatype gateway_event =
    CloseIt
  | Subscribe jsstr
  | Unsubscribe jsstr
  | SendSignal jsstr jsstr
  | SocketOpened
  | SocketFailed
  | SocketClosed
  | WaitOver
  | Received "server_frame option"
  | Signed "(jsstr \<times> nat) list"
  | Beat

datatype gateway_effect =
    Connect
  | Disconnect
  | Send client_frame
  | WaitFor nat
  | EnvelopeSeen jsstr nat
  | GapSeen jsstr nat
  | SignalSeen jsstr jsstr

definition max_backoff :: nat where "max_backoff = 30000"

definition backoff :: "nat \<Rightarrow> nat" where
  "backoff n = min max_backoff (500 * 2 ^ n)"

definition new_gateway :: gateway where
  "new_gateway = \<lparr>gw_closed = False, gw_wire = NoWire, gw_signing = None, gw_attempt = 0, gw_beating = None,
     gw_heartbeat = 30000, gw_scope = [], gw_loop = Stopped\<rparr>"

text \<open>\<open>start\<close>: the loop opens its first session at once.\<close>

definition start_gateway :: "gateway \<Rightarrow> gateway \<times> gateway_effect list" where
  "start_gateway g = (g\<lparr>gw_closed := False, gw_wire := Connecting, gw_loop := InSession\<rparr>, [Connect])"

definition send_frame :: "gateway \<Rightarrow> client_frame \<Rightarrow> gateway_effect list" where
  "send_frame g f = (if gw_wire g = Live then [Send f] else [])"

text \<open>The end of a session, with the number of attempts it leaves: the loop stops, or waits.\<close>

definition end_session :: "nat \<Rightarrow> gateway \<Rightarrow> gateway \<times> gateway_effect list" where
  "end_session tried g =
     (if gw_loop g \<noteq> InSession then (g, [])
      else if gw_closed g then (g\<lparr>gw_attempt := tried, gw_loop := Stopped\<rparr>, [])
      else (g\<lparr>gw_attempt := tried + 1, gw_loop := Waiting (backoff tried)\<rparr>, [WaitFor (backoff tried)]))"

text \<open>\<open>dispatch\<close>. \<open>hello\<close> takes the pace and waits for the signature.\<close>

definition dispatch :: "server_frame \<Rightarrow> gateway \<Rightarrow> gateway \<times> gateway_effect list" where
  "dispatch f g =
     (case f of
        Hello nonce pace \<Rightarrow>
          (g\<lparr>gw_heartbeat := (case pace of Some n \<Rightarrow> if 0 < n then n else gw_heartbeat g | None \<Rightarrow> gw_heartbeat g),
             gw_signing := Some nonce\<rparr>, [])
      | Ready groups \<Rightarrow>
          (let served = (case groups of Some gs \<Rightarrow> gs | None \<Rightarrow> []) in
           (g\<lparr>gw_attempt := 0, gw_scope := gw_scope g @ filter (\<lambda>k. k \<notin> set (gw_scope g)) (uniq served),
              gw_beating := Some (gw_heartbeat g)\<rparr>,
            concat (map (\<lambda>k. if k \<in> set served then [] else send_frame g (SubscribeTo k)) (gw_scope g))))
      | EnvelopeAt k n \<Rightarrow> (g, [EnvelopeSeen k n])
      | GapAt k n \<Rightarrow> (g, [GapSeen k n])
      | SignalFrom k p \<Rightarrow> (g, [SignalSeen k p])
      | OtherFrame \<Rightarrow> (g, []))"

fun gateway_step :: "gateway_event \<Rightarrow> gateway \<Rightarrow> gateway \<times> gateway_effect list" where
  "gateway_step CloseIt g =
     (g\<lparr>gw_closed := True, gw_beating := None, gw_wire := NoWire, gw_signing := None\<rparr>,
      if gw_wire g = NoWire then [] else [Disconnect])"
| "gateway_step (Subscribe k) g =
     (if k \<in> set (gw_scope g) then (g, []) else (g\<lparr>gw_scope := gw_scope g @ [k]\<rparr>, send_frame g (SubscribeTo k)))"
| "gateway_step (Unsubscribe k) g =
     (if k \<notin> set (gw_scope g) then (g, [])
      else (g\<lparr>gw_scope := filter (\<lambda>k'. k' \<noteq> k) (gw_scope g)\<rparr>, send_frame g (UnsubscribeFrom k)))"
| "gateway_step (SendSignal k p) g = (g, send_frame g (SignalTo k p))"
| "gateway_step SocketOpened g = (if gw_wire g = Connecting then g\<lparr>gw_wire := Live\<rparr> else g, [])"
| "gateway_step SocketFailed g = end_session (gw_attempt g) (g\<lparr>gw_wire := NoWire\<rparr>)"
| "gateway_step SocketClosed g = end_session 0 (g\<lparr>gw_beating := None, gw_wire := NoWire, gw_signing := None\<rparr>)"
| "gateway_step WaitOver g =
     (case gw_loop g of
        Waiting n \<Rightarrow>
          if gw_closed g then (g\<lparr>gw_loop := Stopped\<rparr>, [])
          else (g\<lparr>gw_loop := InSession, gw_wire := Connecting\<rparr>, [Connect])
      | _ \<Rightarrow> (g, []))"
| "gateway_step (Received f) g = (case f of None \<Rightarrow> (g, []) | Some f \<Rightarrow> if gw_wire g = Live then dispatch f g else (g, []))"
| "gateway_step (Signed cursors) g =
     (case gw_signing g of
        None \<Rightarrow> (g, [])
      | Some nonce \<Rightarrow> (g\<lparr>gw_signing := None\<rparr>, send_frame g (IdentifyWith nonce cursors)))"
| "gateway_step Beat g = (g, if gw_beating g = None then [] else send_frame g Heartbeat)"

text \<open>\<open>signal\<close> answers whether the frame went out.\<close>

definition signal_sent :: "gateway \<Rightarrow> bool" where
  "signal_sent g \<longleftrightarrow> gw_wire g = Live"

fun gateway_run :: "gateway_event list \<Rightarrow> gateway \<Rightarrow> gateway \<times> gateway_effect list" where
  "gateway_run [] g = (g, [])"
| "gateway_run (e # es) g =
     (case gateway_step e g of (g1, out1) \<Rightarrow> case gateway_run es g1 of (g2, out2) \<Rightarrow> (g2, out1 @ out2))"

lemma gateway_run_append:
  "gateway_run (es @ es') g =
     (case gateway_run es g of (g1, out1) \<Rightarrow> case gateway_run es' g1 of (g2, out2) \<Rightarrow> (g2, out1 @ out2))"
  by (induction es arbitrary: g) (auto split: prod.splits)

subsection \<open>A closed gateway\<close>

definition shut :: "gateway \<Rightarrow> bool" where
  "shut g \<longleftrightarrow> gw_closed g \<and> gw_wire g = NoWire"

definition quiet :: "gateway_effect \<Rightarrow> bool" where
  "quiet x \<longleftrightarrow> (case x of Connect \<Rightarrow> False | Send f \<Rightarrow> False | _ \<Rightarrow> True)"

lemma shut_step: "shut g \<Longrightarrow> shut (fst (gateway_step e g)) \<and> list_all quiet (snd (gateway_step e g))"
  by (cases e) (auto simp: shut_def quiet_def send_frame_def end_session_def split: option.split retry.split)

lemma shut_run: "shut g \<Longrightarrow> list_all quiet (snd (gateway_run es g))"
proof (induction es arbitrary: g)
  case (Cons e es)
  from shut_step [OF Cons(2), of e] Cons(1) [of "fst (gateway_step e g)"] show ?case
    by (auto split: prod.split)
qed simp

text \<open>A gateway that was closed asks nothing more of the network, whatever the platform still reports of its
  socket and of its timers: no connection, no frame.\<close>

theorem closed_is_quiet:
  "list_all quiet (snd (gateway_run es (fst (gateway_step CloseIt g))))"
  by (rule shut_run) (simp add: shut_def)

subsection \<open>What the server serves\<close>

text \<open>The groups the server was told of on this connection, from its \<open>ready\<close> on.\<close>

definition told :: "gateway_effect \<Rightarrow> jsstr set \<Rightarrow> jsstr set" where
  "told x served =
     (case x of Send (SubscribeTo k) \<Rightarrow> insert k served | Send (UnsubscribeFrom k) \<Rightarrow> served - {k} | _ \<Rightarrow> served)"

definition serves :: "gateway_event \<Rightarrow> gateway \<Rightarrow> jsstr set option \<Rightarrow> jsstr set option" where
  "serves e g served =
     (let heard = (case e of
          Received (Some (Ready groups)) \<Rightarrow>
            if gw_wire g = Live then Some (set (case groups of Some gs \<Rightarrow> gs | None \<Rightarrow> [])) else served
        | SocketFailed \<Rightarrow> None | SocketClosed \<Rightarrow> None | CloseIt \<Rightarrow> None
        | _ \<Rightarrow> served) in
      map_option (fold told (snd (gateway_step e g))) heard)"

inductive reaches :: "gateway \<Rightarrow> jsstr set option \<Rightarrow> bool" where
  started: "reaches (fst (start_gateway new_gateway)) None"
| stepped: "reaches g served \<Longrightarrow> reaches (fst (gateway_step e g)) (serves e g served)"

definition in_step :: "gateway \<Rightarrow> jsstr set option \<Rightarrow> bool" where
  "in_step g served \<longleftrightarrow> (gw_wire g \<noteq> NoWire \<longrightarrow> gw_loop g = InSession) \<and>
     (case served of None \<Rightarrow> True
      | Some S \<Rightarrow> gw_wire g = Live \<and> S = set (gw_scope g) \<and> gw_beating g \<noteq> None)"

lemma fold_told: "fold told (concat (map (\<lambda>k. if k \<in> A then [] else [Send (SubscribeTo k)]) ks)) S = S \<union> (set ks - A)"
  by (induction ks arbitrary: S) (auto simp: told_def)

lemma in_step_step:
  assumes "in_step g served"
  shows "in_step (fst (gateway_step e g)) (serves e g served)"
proof (cases e)
  case (Received f)
  show ?thesis
  proof (cases "\<exists>groups. f = Some (Ready groups) \<and> gw_wire g = Live")
    case True
    then obtain groups where f: "f = Some (Ready groups)" and live: "gw_wire g = Live" by blast
    let ?served = "case groups of Some gs \<Rightarrow> gs | None \<Rightarrow> []"
    have out: "snd (gateway_step e g) =
        concat (map (\<lambda>k. if k \<in> set ?served then [] else [Send (SubscribeTo k)]) (gw_scope g))"
      using Received f live by (simp add: dispatch_def send_frame_def Let_def cong: if_cong)
    have "serves e g served = Some (set ?served \<union> (set (gw_scope g) - set ?served))"
      unfolding serves_def out fold_told Let_def using Received f live by simp
    then show ?thesis using assms Received f live by (auto simp: in_step_def dispatch_def Let_def)
  next
    case False
    then show ?thesis using assms Received
      by (cases f) (auto simp: in_step_def serves_def dispatch_def told_def Let_def split: option.splits server_frame.splits)
  qed
qed (use assms in \<open>auto simp: in_step_def serves_def told_def send_frame_def end_session_def Let_def
  split: option.splits retry.splits\<close>)

text \<open>C27. From \<open>ready\<close> on and as long as the connection holds, the groups the server was told of are those of the
  session, however conversations come and go and however often the connection was lost; and the session beats.\<close>

theorem gateway_serves_scope:
  assumes "reaches g (Some S)"
  shows "S = set (gw_scope g) \<and> gw_wire g = Live \<and> gw_beating g \<noteq> None"
proof -
  have "in_step g served" if "reaches g served" for g served
    using that by induction (simp add: in_step_def start_gateway_def, rule in_step_step)
  from this [OF assms] show ?thesis by (simp add: in_step_def)
qed

lemma reaches_run: "reaches g served \<Longrightarrow> \<exists>served'. reaches (fst (gateway_run es g)) served'"
proof (induction es arbitrary: g served)
  case (Cons e es)
  from Cons(1) [OF stepped [OF Cons(2), of e]] show ?case by (simp split: prod.split) (metis fst_conv)
qed auto

theorem gateway_serves_scope_witness:
  "\<exists>g. reaches g (Some {js ''01'', js ''02''}) \<and> set (gw_scope g) = {js ''01'', js ''02''}"
proof -
  let ?g0 = "fst (start_gateway new_gateway)"
  let ?g1 = "fst (gateway_step SocketOpened ?g0)"
  let ?g2 = "fst (gateway_step (Subscribe (js ''01'')) ?g1)"
  let ?g3 = "fst (gateway_step (Received (Some (Ready (Some [js ''02''])))) ?g2)"
  have "reaches ?g3 (serves (Received (Some (Ready (Some [js ''02''])))) ?g2
      (serves (Subscribe (js ''01'')) ?g1 (serves SocketOpened ?g0 None)))"
    by (intro reaches.intros)
  moreover have "serves (Received (Some (Ready (Some [js ''02''])))) ?g2
      (serves (Subscribe (js ''01'')) ?g1 (serves SocketOpened ?g0 None)) = Some {js ''01'', js ''02''}"
    by (simp add: serves_def start_gateway_def new_gateway_def dispatch_def send_frame_def told_def Let_def)
  ultimately have r: "reaches ?g3 (Some {js ''01'', js ''02''})" by simp
  from gateway_serves_scope [OF r] r show ?thesis by metis
qed

subsection \<open>How long it waits\<close>

definition waits :: "gateway_effect list \<Rightarrow> nat list" where
  "waits out = concat (map (\<lambda>x. case x of WaitFor n \<Rightarrow> [n] | _ \<Rightarrow> []) out)"

lemma waits_append [simp]: "waits (out @ out') = waits out @ waits out'" "waits [] = []"
  by (simp_all add: waits_def)

lemma backoff_bounds: "500 \<le> backoff n" "backoff n \<le> 30000" "m \<le> n \<Longrightarrow> backoff m \<le> backoff n"
  by (auto simp: backoff_def max_backoff_def min_le_iff_disj intro: power_increasing)

text \<open>Connections that fail, and sessions the server refuses: it says why and closes, which is an ordinary close.\<close>

definition failing :: "gateway_event list" where
  "failing = [SocketFailed, SocketClosed, WaitOver]"

definition refused :: "gateway_event list" where
  "refused = [SocketOpened, Received (Some (Hello (js ''n'') None)), Signed [], Received (Some OtherFrame), SocketClosed, WaitOver]"

definition trying :: "nat \<Rightarrow> gateway \<Rightarrow> bool" where
  "trying n g \<longleftrightarrow> \<not> gw_closed g \<and> gw_wire g = Connecting \<and> gw_loop g = InSession \<and> gw_attempt g = n"

lemma failing_once:
  assumes "trying n g"
  shows "trying (Suc n) (fst (gateway_run failing g)) \<and> waits (snd (gateway_run failing g)) = [backoff n]"
  using assms by (simp add: failing_def trying_def end_session_def waits_def)

lemma refused_once:
  assumes "trying n g"
  shows "trying 1 (fst (gateway_run refused g)) \<and> waits (snd (gateway_run refused g)) = [500]"
  using assms by (simp add: refused_def trying_def end_session_def waits_def dispatch_def send_frame_def backoff_def max_backoff_def)

lemma waits_run_append:
  "waits (snd (gateway_run (es @ es') g)) =
     waits (snd (gateway_run es g)) @ waits (snd (gateway_run es' (fst (gateway_run es g))))"
  by (simp add: gateway_run_append split: prod.split)

lemma failing_waits: "trying m g \<Longrightarrow> waits (snd (gateway_run (concat (replicate n failing)) g)) = map backoff [m..<m + n]"
proof (induction n arbitrary: m g)
  case (Suc n)
  note once = failing_once [OF Suc(2)]
  have "waits (snd (gateway_run (concat (replicate (Suc n) failing)) g)) = backoff m # map backoff [Suc m..<Suc m + n]"
    using once Suc(1) [OF conjunct1 [OF once]] by (simp add: waits_run_append del: upt_Suc)
  then show ?case by (simp add: upt_conv_Cons del: upt_Suc)
qed simp

lemma refused_waits: "trying m g \<Longrightarrow> waits (snd (gateway_run (concat (replicate n refused)) g)) = replicate n 500"
proof (induction n arbitrary: m g)
  case (Suc n)
  note once = refused_once [OF Suc(2)]
  from once Suc(1) [OF conjunct1 [OF once]] show ?case by (simp add: waits_run_append)
qed simp

text \<open>A server out of reach is tried again later and later, from half a second to thirty. A server that refuses
  the session is tried again every half second for ever: it closes the socket, and a close is taken for the
  ordinary end of a session.\<close>

theorem refusal_defeats_backoff:
  "waits (snd (gateway_run (concat (replicate n failing)) (fst (start_gateway new_gateway)))) = map backoff [0..<n] \<and>
   waits (snd (gateway_run (concat (replicate n refused)) (fst (start_gateway new_gateway)))) = replicate n 500"
proof -
  have "trying 0 (fst (start_gateway new_gateway))" by (simp add: trying_def start_gateway_def new_gateway_def)
  from failing_waits [OF this] refused_waits [OF this] show ?thesis by simp
qed

text \<open>Between the opening of the socket and the answer to the challenge the connection counts as live, and the
  server reads the first frame as that answer: a signal sent then is reported as gone, and ends the session.\<close>

lemma frame_before_identify:
  "\<exists>g. reaches g None \<and> signal_sent g \<and> gw_signing g = Some nonce \<and>
     snd (gateway_step (SendSignal k p) g) = [Send (SignalTo k p)]"
proof -
  let ?g1 = "fst (gateway_step SocketOpened (fst (start_gateway new_gateway)))"
  let ?g2 = "fst (gateway_step (Received (Some (Hello nonce None))) ?g1)"
  have "reaches ?g2 (serves (Received (Some (Hello nonce None))) ?g1 (serves SocketOpened (fst (start_gateway new_gateway)) None))"
    by (intro reaches.intros)
  then have "reaches ?g2 None" by (simp add: serves_def)
  moreover have "signal_sent ?g2" "gw_signing ?g2 = Some nonce" "snd (gateway_step (SendSignal k p) ?g2) = [Send (SignalTo k p)]"
    by (simp_all add: signal_sent_def start_gateway_def new_gateway_def dispatch_def send_frame_def)
  ultimately show ?thesis by blast
qed

subsection \<open>The session behind it\<close>

text \<open>The handlers of \<open>startStream\<close>: an announced envelope asks for a poll of its own conversations only; a gap
  is believed only if the cursor is still under it.\<close>

definition poll_asked :: "'g session \<Rightarrow> jsstr \<Rightarrow> bool" where
  "poll_asked s key \<longleftrightarrow> map_of (sx_views s) key \<noteq> None"

definition gap_heard :: "nat \<Rightarrow> 'g view \<Rightarrow> 'g view" where
  "gap_heard oldest v = (if oldest \<le> vw_cursor v + 1 then v else v\<lparr>vw_stale := True\<rparr>)"

definition cursors_of :: "'g session \<Rightarrow> (jsstr \<times> nat) list" where
  "cursors_of s = map (\<lambda>(k, v). (vw_key v, vw_cursor v)) (sx_views s)"

definition sync_scope :: "'g session \<Rightarrow> gateway \<Rightarrow> gateway \<times> gateway_effect list" where
  "sync_scope s g = gateway_run (map (Subscribe \<circ> vw_key \<circ> snd) (sx_views s)) g"

lemma fst_gateway_run: "fst (gateway_run (e # es) g) = fst (gateway_run es (fst (gateway_step e g)))"
  by (simp split: prod.split)

lemma scope_grows: "set (gw_scope g) \<union> set ks \<subseteq> set (gw_scope (fst (gateway_run (map Subscribe ks) g)))"
proof (induction ks arbitrary: g)
  case (Cons k ks)
  let ?g = "fst (gateway_step (Subscribe k) g)"
  have "set (gw_scope g) \<union> {k} \<subseteq> set (gw_scope ?g)" by auto
  with Cons [of ?g] show ?case unfolding list.map fst_gateway_run by auto
qed simp

lemma synced:
  assumes "(k, v) \<in> set (sx_views s)"
  shows "vw_key v \<in> set (gw_scope (fst (sync_scope s g)))"
proof -
  have "vw_key v \<in> set (map (vw_key \<circ> snd) (sx_views s))" using assms by force
  then show ?thesis using scope_grows [of g "map (vw_key \<circ> snd) (sx_views s)"]
    by (auto simp: sync_scope_def comp_assoc)
qed

subsection \<open>Left alone\<close>

definition relock_ms :: int where "relock_ms = 5 * 60 * 1000"

text \<open>\<open>observeIdle\<close>: a touch or a tick of the clock, each at its time; the answer is whether it relocks.\<close>

datatype presence_event = Touched int | Tick int

fun idle_step :: "int \<Rightarrow> presence_event \<Rightarrow> int \<Rightarrow> int \<times> bool" where
  "idle_step delay (Touched now) seen = (now, False)"
| "idle_step delay (Tick now) seen = (if now - seen < delay then (seen, False) else (now, True))"

fun idle_run :: "int \<Rightarrow> int \<Rightarrow> presence_event list \<Rightarrow> int list" where
  "idle_run delay seen [] = []"
| "idle_run delay seen (e # es) =
     (case idle_step delay e seen of (seen', relock) \<Rightarrow>
        (if relock then [seen'] else []) @ idle_run delay seen' es)"

definition time_of :: "presence_event \<Rightarrow> int" where
  "time_of e = (case e of Touched t \<Rightarrow> t | Tick t \<Rightarrow> t)"

lemma idle_after: "0 \<le> delay \<Longrightarrow> sorted (seen # map time_of es) \<Longrightarrow> t \<in> set (idle_run delay seen es) \<Longrightarrow> seen + delay \<le> t"
proof (induction es arbitrary: seen)
  case (Cons e es)
  obtain seen' relock where step: "idle_step delay e seen = (seen', relock)" by fastforce
  then have "seen \<le> seen'" "seen' \<le> time_of e" "relock \<Longrightarrow> seen + delay \<le> seen'"
    using Cons(3) by (cases e; auto simp: time_of_def split: if_splits)+
  moreover have "sorted (seen' # map time_of es)" using Cons(3) calculation(2) by auto
  moreover have "t \<in> set (idle_run delay seen' es) \<or> relock \<and> t = seen'" using Cons(4) step by (auto split: if_splits)
  ultimately show ?case using Cons(1) [OF Cons(2), of seen'] by auto
qed simp

text \<open>A device is relocked only after it was left alone for the whole delay, and by the first tick after it.\<close>

lemma relocked_left_alone:
  assumes "0 \<le> delay" and "sorted (seen # map time_of (es @ Touched u # es'))" and "t \<in> set (idle_run delay u es')"
  shows "u + delay \<le> t"
  using idle_after [OF assms(1) _ assms(3)] assms(2) by (auto simp: time_of_def sorted_append)

lemma left_alone_relocks:
  assumes "list_all (\<lambda>t. t - seen < delay) ts" and "delay \<le> t - seen"
  shows "idle_run delay seen (map Tick ts @ [Tick t]) = [t]"
  using assms by (induction ts) auto

text \<open>\<open>observeLifecycle\<close>, and what \<open>App\<close> does of a transition.\<close>

datatype transition = Resume int | Hidden | NetworkBack

datatype visibility = HiddenAt int | ShownAt int | OnlineAgain

fun lifecycle_step :: "visibility \<Rightarrow> int \<Rightarrow> int \<times> transition" where
  "lifecycle_step (HiddenAt now) since = (now, Hidden)"
| "lifecycle_step (ShownAt now) since = (since, Resume (now - since))"
| "lifecycle_step OnlineAgain since = (since, NetworkBack)"

datatype reaction = NoReaction | Relock | CatchUp

definition reaction_to :: "bool \<Rightarrow> transition \<Rightarrow> reaction" where
  "reaction_to locked t =
     (case t of Hidden \<Rightarrow> NoReaction
      | NetworkBack \<Rightarrow> CatchUp
      | Resume away \<Rightarrow> if locked \<and> relock_ms < away then Relock else CatchUp)"

subsection \<open>One tab\<close>

text \<open>\<open>claim\<close>: the manager of locks grants the name to one tab at a time, for as long as it lives; without a manager
  every tab claims.\<close>

record tabs =
  tb_lock :: "nat option"
  tb_running :: "nat set"

datatype tab_event = Claim nat | Release nat

definition tab_step :: "bool \<Rightarrow> tab_event \<Rightarrow> tabs \<Rightarrow> tabs" where
  "tab_step managed e s =
     (case e of
        Claim n \<Rightarrow>
          if \<not> managed then s\<lparr>tb_running := insert n (tb_running s)\<rparr>
          else if tb_lock s = None then s\<lparr>tb_lock := Some n, tb_running := insert n (tb_running s)\<rparr>
          else s
      | Release n \<Rightarrow>
          s\<lparr>tb_lock := (if tb_lock s = Some n then None else tb_lock s), tb_running := tb_running s - {n}\<rparr>)"

lemma one_tab: "tb_running (fold (tab_step True) es \<lparr>tb_lock = None, tb_running = {}\<rparr>) =
    set_option (tb_lock (fold (tab_step True) es \<lparr>tb_lock = None, tb_running = {}\<rparr>))"
proof -
  have "tb_running s = set_option (tb_lock s) \<Longrightarrow>
      tb_running (fold (tab_step True) es s) = set_option (tb_lock (fold (tab_step True) es s))" for s
    by (induction es arbitrary: s) (auto simp: tab_step_def split: tab_event.splits)
  then show ?thesis by simp
qed

end
