(* ===== verification/Requests.thy ===== *)
theory Requests
  imports Account SessionCodec
begin

text \<open>
  \<open>api.ts\<close>: the requests of the client to the delivery service, as the values that reach \<open>fetch\<close>, and what is
  read of the answers. \<open>fetch\<close>, \<open>JSON.parse\<close>, SHA-256, the signature of the device and the MAC of a group are
  parameters. TypeScript casts an answer to its type without looking; here an answer that has not that type is the
  outcome \<open>Untyped\<close>, about which nothing is claimed.
\<close>

subsection \<open>Addresses\<close>

definition configure_api :: "jsstr \<Rightarrow> jsstr" where
  "configure_api origin = rev (dropWhile (\<lambda>u. u = 0x2F) (rev origin))"

definition socket_url :: "jsstr \<Rightarrow> jsstr \<Rightarrow> jsstr \<Rightarrow> jsstr" where
  "socket_url base location path =
     (let origin = (if base = [] then location else base) in
      (if take 4 origin = js ''http'' then js ''ws'' @ drop 4 origin else origin) @ path)"

text \<open>\<open>encodeURIComponent\<close>: what is not unreserved is the UTF-8 of its scalar value, a byte at a time; a lone
  surrogate is an error.\<close>

definition unreserved :: "nat \<Rightarrow> bool" where
  "unreserved c \<longleftrightarrow> (48 \<le> c \<and> c \<le> 57) \<or> (65 \<le> c \<and> c \<le> 90) \<or> (97 \<le> c \<and> c \<le> 122) \<or>
     c \<in> {33, 39, 40, 41, 42, 45, 46, 95, 126}"

definition upper_hex :: "nat \<Rightarrow> 16 word" where
  "upper_hex n = of_nat (if n < 10 then 48 + n else 55 + n)"

definition percent :: "nat \<Rightarrow> jsstr" where
  "percent b = [0x25, upper_hex (b div 16), upper_hex (b mod 16)]"

definition encode_uri_component :: "jsstr \<Rightarrow> jsstr option" where
  "encode_uri_component s =
     (if well_formed s
      then Some (concat (map (\<lambda>c. if unreserved c then [of_nat c] else concat (map percent (utf8_scalar c))) (scalars_of (map unat s))))
      else None)"

subsection \<open>What is sent\<close>

datatype http_method = HttpGet | HttpPost | HttpDelete

definition method_name :: "http_method \<Rightarrow> jsstr" where
  "method_name m = js (case m of HttpGet \<Rightarrow> ''GET'' | HttpPost \<Rightarrow> ''POST'' | HttpDelete \<Rightarrow> ''DELETE'')"

record http_request =
  hr_method :: http_method
  hr_url :: jsstr
  hr_headers :: "(string \<times> jsstr) list"
  hr_body :: "bytes option"

record http_response =
  hs_status :: nat
  hs_body :: bytes

text \<open>The surroundings of one call: the clock, in milliseconds, and the sixteen bytes it draws.\<close>

record net =
  nt_base :: jsstr
  nt_fetch :: "http_request \<Rightarrow> http_response option"
  nt_now :: nat
  nt_nonce :: bytes
  nt_digest :: "bytes \<Rightarrow> bytes"
  nt_parse :: "jsstr \<Rightarrow> json option"

record sender =
  sn_id :: jsstr
  sn_sign :: "bytes \<Rightarrow> jsstr"

record posting =
  po_key :: bytes
  po_mac :: "bytes \<Rightarrow> bytes \<Rightarrow> bytes \<Rightarrow> bytes \<Rightarrow> bytes"

datatype api_failure =
    Unreachable
  | Refused nat jsstr
  | NotJsonReply
  | Untyped codec_error
  | LoneSurrogate

definition newline :: jsstr where "newline = [0x0A]"

definition signing_payload :: "(bytes \<Rightarrow> bytes) \<Rightarrow> jsstr \<Rightarrow> jsstr \<Rightarrow> nat \<Rightarrow> bytes \<Rightarrow> bytes \<Rightarrow> bytes" where
  "signing_payload digest method path timestamp nonce body =
     text_encode (method @ newline @ path @ newline @ decimal timestamp @ newline) @ nonce @ text_encode newline @ digest body"

definition signed_request :: "net \<Rightarrow> sender \<Rightarrow> http_method \<Rightarrow> jsstr \<Rightarrow> bytes \<Rightarrow> http_request" where
  "signed_request n d m path body =
     (let timestamp = nt_now n div 1000 in
      \<lparr>hr_method = m, hr_url = nt_base n @ path,
       hr_headers =
         [(''content-type'', js ''application/octet-stream''), (''x-device-id'', sn_id d),
          (''x-timestamp'', decimal timestamp),
          (''x-signature'', sn_sign d (signing_payload (nt_digest n) (method_name m) path timestamp (nt_nonce n) body)),
          (''x-nonce'', to_base64 (nt_nonce n))],
       hr_body = (if m = HttpPost then Some body else None)\<rparr>)"

definition group_request :: "net \<Rightarrow> string \<Rightarrow> jsstr \<Rightarrow> bytes \<Rightarrow> bytes \<Rightarrow> http_request" where
  "group_request n kind path mac body =
     \<lparr>hr_method = HttpPost, hr_url = nt_base n @ path,
      hr_headers = [(''content-type'', js kind), (''x-group-nonce'', to_base64 (nt_nonce n)), (''x-group-mac'', to_base64 mac)],
      hr_body = Some body\<rparr>"

definition open_request :: "net \<Rightarrow> http_method \<Rightarrow> jsstr \<Rightarrow> json option \<Rightarrow> http_request" where
  "open_request n m path body =
     \<lparr>hr_method = m, hr_url = nt_base n @ path,
      hr_headers = (if body = None then [] else [(''content-type'', js ''application/json'')]),
      hr_body = map_option (\<lambda>j. text_encode (json_text j)) body\<rparr>"

subsection \<open>What is read\<close>

definition responded :: "net \<Rightarrow> http_request \<Rightarrow> api_failure + http_response" where
  "responded n rq = (case nt_fetch n rq of None \<Rightarrow> Inl Unreachable | Some r \<Rightarrow> Inr r)"

definition accepted :: "http_response \<Rightarrow> api_failure + http_response" where
  "accepted r =
     (if 200 \<le> hs_status r \<and> hs_status r \<le> 299 then Inr r else Inl (Refused (hs_status r) (text_decode (hs_body r))))"

definition read_reply :: "net \<Rightarrow> (json \<Rightarrow> codec_error + 'a) \<Rightarrow> http_response \<Rightarrow> api_failure + 'a" where
  "read_reply n reader r =
     (case nt_parse n (text_decode (hs_body r)) of
        None \<Rightarrow> Inl NotJsonReply
      | Some j \<Rightarrow> (case reader j of Inl e \<Rightarrow> Inl (Untyped e) | Inr a \<Rightarrow> Inr a))"

definition request_bytes :: "net \<Rightarrow> sender \<Rightarrow> http_method \<Rightarrow> jsstr \<Rightarrow> bytes \<Rightarrow> api_failure + http_response" where
  "request_bytes n d m path body = and_then (responded n (signed_request n d m path body)) accepted"

definition body_of :: "json option \<Rightarrow> bytes" where
  "body_of body = (case body of None \<Rightarrow> [] | Some j \<Rightarrow> text_encode (json_text j))"

definition request_json ::
    "net \<Rightarrow> sender \<Rightarrow> http_method \<Rightarrow> jsstr \<Rightarrow> json option \<Rightarrow> (json \<Rightarrow> codec_error + 'a) \<Rightarrow> api_failure + 'a" where
  "request_json n d m path body reader = and_then (request_bytes n d m path (body_of body)) (read_reply n reader)"

text \<open>A path with a component of it percent-encoded.\<close>

definition around :: "string \<Rightarrow> jsstr \<Rightarrow> string \<Rightarrow> api_failure + jsstr" where
  "around before component behind =
     (case encode_uri_component component of
        None \<Rightarrow> Inl LoneSurrogate | Some c \<Rightarrow> Inr (js before @ c @ js behind))"

definition group_path :: "bytes \<Rightarrow> string \<Rightarrow> jsstr" where
  "group_path g behind = js ''/v1/groups/'' @ to_hex g @ js behind"

text \<open>The fields of an answer.\<close>

definition text_in :: "string \<Rightarrow> json \<Rightarrow> codec_error + jsstr" where
  "text_in name j = require_string (field j name) name"

definition bytes_in :: "string \<Rightarrow> json \<Rightarrow> codec_error + bytes" where
  "bytes_in name j = and_then (text_in name j) from_text"

definition number_in :: "string \<Rightarrow> json \<Rightarrow> codec_error + nat" where
  "number_in name j = (case field j name of Some v \<Rightarrow> cast_as read_nat name v | None \<Rightarrow> Inl (OtherShape name))"

definition array_in :: "string \<Rightarrow> (json \<Rightarrow> codec_error + 'a) \<Rightarrow> json \<Rightarrow> codec_error + 'a list" where
  "array_in name reader j = and_then (require_array (field j name) name) (each reader)"

definition array_of :: "(json \<Rightarrow> codec_error + 'a) \<Rightarrow> json \<Rightarrow> codec_error + 'a list" where
  "array_of reader j = and_then (require_array (Some j) ''reply'') (each reader)"

definition bytes_item :: "json \<Rightarrow> codec_error + bytes" where
  "bytes_item j = and_then (require_string (Some j) ''item'') from_text"

definition text_item :: "json \<Rightarrow> codec_error + jsstr" where
  "text_item j = require_string (Some j) ''item''"

definition nothing_read :: "json \<Rightarrow> codec_error + unit" where
  "nothing_read j = Inr ()"

definition base64_json :: "bytes \<Rightarrow> json" where
  "base64_json b = JStr (to_base64 b)"

definition nat_json :: "nat \<Rightarrow> json" where
  "nat_json k = JNum (int k)"

subsection \<open>Accounts and devices\<close>

text \<open>A refusal whose sentence the client chooses by its status; the status stays.\<close>

definition worded :: "nat \<Rightarrow> string \<Rightarrow> api_failure + 'a \<Rightarrow> api_failure + 'a" where
  "worded status sentence r =
     (case r of Inl (Refused s t) \<Rightarrow> Inl (Refused s (if s = status then js sentence else t)) | _ \<Rightarrow> r)"

definition post_account :: "net \<Rightarrow> jsstr \<Rightarrow> bytes \<Rightarrow> api_failure + jsstr" where
  "post_account n handle key =
     and_then (responded n (open_request n HttpPost (js ''/v1/accounts'')
        (Some (json_object [(''handle'', Some (JStr handle)), (''identity_key'', Some (base64_json key))])))) (\<lambda>r.
     and_then (worded 409 ''handle already taken by another account'' (accepted r)) (read_reply n (text_in ''account'')))"

definition post_device :: "net \<Rightarrow> jsstr \<Rightarrow> jsstr \<Rightarrow> bytes \<Rightarrow> bytes \<Rightarrow> bytes \<Rightarrow> api_failure + unit" where
  "post_device n device account auth mls attestation =
     and_then (responded n (open_request n HttpPost (js ''/v1/devices'')
        (Some (json_object
           [(''id'', Some (JStr device)), (''account'', Some (JStr account)), (''auth_key'', Some (base64_json auth)),
            (''mls_key'', Some (base64_json mls)), (''attestation'', Some (base64_json attestation))])))) (\<lambda>r.
     and_then (worded 409 ''id already taken by another device'' (accepted r)) (\<lambda>_. Inr ()))"

definition publish_key_packages :: "net \<Rightarrow> sender \<Rightarrow> bytes list \<Rightarrow> api_failure + nat" where
  "publish_key_packages n d packages =
     request_json n d HttpPost (js ''/v1/key-packages'') (Some (json_object [(''packages'', Some (json_list base64_json packages))]))
       (number_in ''published'')"

definition key_package_stock :: "net \<Rightarrow> sender \<Rightarrow> api_failure + nat" where
  "key_package_stock n d = request_json n d HttpGet (js ''/v1/key-packages/stock'') None (number_in ''remaining'')"

definition claim_key_package :: "net \<Rightarrow> sender \<Rightarrow> jsstr \<Rightarrow> api_failure + bytes \<times> nat" where
  "claim_key_package n d device =
     and_then (around ''/v1/key-packages/'' device ''/claim'') (\<lambda>path.
       request_json n d HttpPost path None
         (\<lambda>j. and_then (bytes_in ''package'' j) (\<lambda>package. and_then (number_in ''remaining'' j) (\<lambda>left. Inr (package, left)))))"

definition policy_in :: "json \<Rightarrow> contact_policy option" where
  "policy_in j =
     (case field j ''contact_policy'' of
        Some (JStr s) \<Rightarrow>
          (if s = js ''open'' then Some PolicyOpen else if s = js ''known'' then Some PolicyKnown
           else if s = js ''closed'' then Some PolicyClosed else None)
      | _ \<Rightarrow> None)"

text \<open>A device as it is served, with when it was last seen; an empty revocation counts as none.\<close>

definition read_device :: "json \<Rightarrow> codec_error + device \<times> nat option" where
  "read_device j =
     and_then (text_in ''id'' j) (\<lambda>i. and_then (bytes_in ''auth_key'' j) (\<lambda>auth. and_then (bytes_in ''mls_key'' j) (\<lambda>mls.
     and_then (bytes_in ''attestation'' j) (\<lambda>attestation.
     and_then (unless_absent (field j ''revoked_at'') (cast_as read_nat ''revoked_at'')) (\<lambda>revoked.
     and_then (unless_absent (case field j ''revocation'' of Some (JStr []) \<Rightarrow> None | v \<Rightarrow> v) (bytes_field ''revocation'')) (\<lambda>revocation.
     and_then (unless_absent (field j ''last_seen'') (cast_as read_nat ''last_seen'')) (\<lambda>seen.
       Inr (\<lparr>dev_id = i, dev_auth_key = auth, dev_mls_key = mls, dev_attestation = attestation,
             dev_revoked_at = revoked, dev_revocation = revocation\<rparr>, seen))))))))"

definition read_listing :: "json \<Rightarrow> codec_error + served_account \<times> nat option list" where
  "read_listing j =
     and_then (bytes_in ''identity_key'' j) (\<lambda>key.
     and_then (unless_absent (field j ''presence_optout'') (cast_as read_bool ''presence_optout'')) (\<lambda>optout.
     and_then (array_in ''devices'' read_device j) (\<lambda>devices.
       Inr (\<lparr>sa_key = key, sa_devices = map fst devices, sa_policy = policy_in j, sa_optout = optout\<rparr>, map snd devices))))"

definition list_account_devices :: "net \<Rightarrow> sender \<Rightarrow> jsstr \<Rightarrow> api_failure + served_account \<times> nat option list" where
  "list_account_devices n d account =
     and_then (around ''/v1/accounts/'' account ''/devices'') (\<lambda>path. request_json n d HttpGet path None read_listing)"

definition revoke_device :: "net \<Rightarrow> sender \<Rightarrow> jsstr \<Rightarrow> bytes \<Rightarrow> nat \<Rightarrow> api_failure + jsstr" where
  "revoke_device n d device revocation at =
     and_then (around ''/v1/devices/'' device ''/revoke'') (\<lambda>path.
       request_json n d HttpPost path
         (Some (json_object [(''revocation'', Some (base64_json revocation)), (''revoked_at'', Some (nat_json at))])) (text_in ''revoked''))"

definition post_rotation :: "net \<Rightarrow> sender \<Rightarrow> jsstr \<Rightarrow> bytes \<Rightarrow> bytes \<Rightarrow> nat \<Rightarrow> api_failure + jsstr" where
  "post_rotation n d account key rotation at =
     and_then (around ''/v1/accounts/'' account ''/rotate'') (\<lambda>path.
       request_json n d HttpPost path
         (Some (json_object [(''new_identity_key'', Some (base64_json key)), (''rotation'', Some (base64_json rotation)),
            (''rotated_at'', Some (nat_json at))])) (text_in ''account''))"

definition resolve_handle :: "net \<Rightarrow> jsstr \<Rightarrow> api_failure + jsstr" where
  "resolve_handle n handle =
     and_then (around ''/v1/handles/'' handle []) (\<lambda>path.
     and_then (responded n (open_request n HttpGet path None)) (\<lambda>r.
     and_then (worded 410 ''that handle has been retired and cannot be used again''
        (worded 404 ''nobody goes by that handle'' (accepted r))) (read_reply n (text_in ''account''))))"

definition rename_account :: "net \<Rightarrow> sender \<Rightarrow> jsstr \<Rightarrow> jsstr \<Rightarrow> api_failure + jsstr \<times> jsstr option" where
  "rename_account n d account handle =
     and_then (around ''/v1/accounts/'' account ''/handle'') (\<lambda>path.
       request_json n d HttpPost path (Some (json_object [(''handle'', Some (JStr handle))]))
         (\<lambda>j. and_then (text_in ''handle'' j) (\<lambda>h. Inr (h, case field j ''retired'' of Some (JStr t) \<Rightarrow> Some t | _ \<Rightarrow> None))))"

subsection \<open>The transparency log\<close>

definition decode_head :: "json \<Rightarrow> codec_error + signed_head" where
  "decode_head j =
     and_then (number_in ''size'' j) (\<lambda>size. and_then (bytes_in ''root'' j) (\<lambda>root.
     and_then (number_in ''timestamp'' j) (\<lambda>at. and_then (bytes_in ''signature'' j) (\<lambda>signature.
     and_then (bytes_in ''log_key'' j) (\<lambda>key.
       Inr \<lparr>sh_size = size, sh_root = root, sh_key = key, sh_timestamp = at, sh_signature = signature\<rparr>)))))"

definition head_in :: "json \<Rightarrow> codec_error + signed_head" where
  "head_in j = and_then (require_object (field j ''head'') ''head'') decode_head"

definition log_head :: "net \<Rightarrow> sender \<Rightarrow> api_failure + signed_head" where
  "log_head n d = request_json n d HttpGet (js ''/v1/log/sth'') None decode_head"

definition read_proof :: "json \<Rightarrow> codec_error + log_proof" where
  "read_proof j =
     and_then (bytes_in ''identity_key'' j) (\<lambda>key. and_then (number_in ''index'' j) (\<lambda>index.
     and_then (array_in ''proof'' bytes_item j) (\<lambda>path. and_then (head_in j) (\<lambda>h.
       Inr \<lparr>lp_index = index, lp_head = h, lp_proof = path, lp_key = key\<rparr>))))"

definition log_proof_of :: "net \<Rightarrow> sender \<Rightarrow> jsstr \<Rightarrow> api_failure + log_proof" where
  "log_proof_of n d account =
     and_then (around ''/v1/log/proof/'' account []) (\<lambda>path. request_json n d HttpGet path None read_proof)"

definition log_consistency :: "net \<Rightarrow> sender \<Rightarrow> nat \<Rightarrow> api_failure + bytes list \<times> signed_head" where
  "log_consistency n d start =
     request_json n d HttpGet (js ''/v1/log/consistency?from='' @ decimal start) None
       (\<lambda>j. and_then (array_in ''proof'' bytes_item j) (\<lambda>path. and_then (head_in j) (\<lambda>h. Inr (path, h))))"

subsection \<open>Pairing and recovery\<close>

definition deposit_pairing :: "net \<Rightarrow> sender \<Rightarrow> bytes \<Rightarrow> bytes \<Rightarrow> api_failure + json" where
  "deposit_pairing n d rendezvous payload =
     request_json n d HttpPost (js ''/v1/pairings/'' @ to_hex rendezvous)
       (Some (json_object [(''payload'', Some (base64_json payload))])) Inr"

definition claim_pairing :: "net \<Rightarrow> bytes \<Rightarrow> api_failure + bytes option" where
  "claim_pairing n rendezvous =
     and_then (responded n (open_request n HttpGet (js ''/v1/pairings/'' @ to_hex rendezvous) None)) (\<lambda>r.
       if hs_status r = 404 then Inr None
       else and_then (accepted r) (\<lambda>r. and_then (read_reply n (bytes_in ''payload'') r) (\<lambda>b. Inr (Some b))))"

datatype recovery_kind = PasswordRecovery | PasskeyRecovery

definition recovery_name :: "recovery_kind \<Rightarrow> jsstr" where
  "recovery_name k = js (case k of PasswordRecovery \<Rightarrow> ''password'' | PasskeyRecovery \<Rightarrow> ''passkey'')"

definition set_recovery :: "net \<Rightarrow> sender \<Rightarrow> recovery_kind \<Rightarrow> bytes \<Rightarrow> bytes \<Rightarrow> bytes \<Rightarrow> api_failure + json" where
  "set_recovery n d kind lookup params sealed =
     request_json n d HttpPost (js ''/v1/recovery'')
       (Some (json_object [(''kind'', Some (JStr (recovery_name kind))), (''lookup'', Some (base64_json lookup)),
          (''params'', Some (base64_json params)), (''sealed'', Some (base64_json sealed))])) Inr"

definition list_recovery :: "net \<Rightarrow> sender \<Rightarrow> api_failure + (jsstr \<times> nat) list" where
  "list_recovery n d =
     request_json n d HttpGet (js ''/v1/recovery'') None
       (array_of (\<lambda>j. and_then (text_in ''kind'' j) (\<lambda>k. and_then (number_in ''created_at'' j) (\<lambda>at. Inr (k, at)))))"

definition forget_recovery :: "net \<Rightarrow> sender \<Rightarrow> recovery_kind \<Rightarrow> api_failure + nat" where
  "forget_recovery n d kind =
     request_json n d HttpPost (js ''/v1/recovery/forget'') (Some (json_object [(''kind'', Some (JStr (recovery_name kind)))]))
       (number_in ''forgotten'')"

record claimed_recovery =
  cr_account :: jsstr
  cr_handle :: "jsstr option"
  cr_kind :: jsstr
  cr_params :: bytes
  cr_sealed :: bytes

definition read_recovery :: "json \<Rightarrow> codec_error + claimed_recovery" where
  "read_recovery j =
     and_then (text_in ''account'' j) (\<lambda>account. and_then (text_in ''kind'' j) (\<lambda>kind.
     and_then (bytes_in ''params'' j) (\<lambda>params. and_then (bytes_in ''sealed'' j) (\<lambda>sealed.
       Inr \<lparr>cr_account = account, cr_handle = (case field j ''handle'' of Some (JStr h) \<Rightarrow> Some h | _ \<Rightarrow> None),
            cr_kind = kind, cr_params = params, cr_sealed = sealed\<rparr>))))"

definition claim_recovery :: "net \<Rightarrow> bytes \<Rightarrow> api_failure + claimed_recovery option" where
  "claim_recovery n lookup =
     and_then (responded n (open_request n HttpPost (js ''/v1/recovery/claim'') (Some (json_object [(''lookup'', Some (base64_json lookup))])))) (\<lambda>r.
       if hs_status r = 404 then Inr None
       else and_then (accepted r) (\<lambda>r. and_then (read_reply n read_recovery r) (\<lambda>c. Inr (Some c))))"

subsection \<open>Groups, their archive and their mailbox\<close>

definition list_groups :: "net \<Rightarrow> sender \<Rightarrow> api_failure + jsstr list" where
  "list_groups n d = request_json n d HttpGet (js ''/v1/groups'') None (array_of text_item)"

definition add_members :: "net \<Rightarrow> sender \<Rightarrow> bytes \<Rightarrow> jsstr list \<Rightarrow> bytes option \<Rightarrow> api_failure + nat" where
  "add_members n d g devices key =
     request_json n d HttpPost (group_path g ''/members'')
       (Some (json_object [(''device_ids'', Some (json_list JStr devices)), (''posting_key'', map_option base64_json key)]))
       (number_in ''added'')"

definition remove_group_members :: "net \<Rightarrow> sender \<Rightarrow> bytes \<Rightarrow> jsstr list \<Rightarrow> api_failure + nat" where
  "remove_group_members n d g devices =
     request_json n d HttpPost (group_path g ''/members/remove'') (Some (json_object [(''device_ids'', Some (json_list JStr devices))]))
       (number_in ''removed'')"

definition vault_path :: "bytes \<Rightarrow> jsstr" where
  "vault_path g = js ''/v1/vault/'' @ to_hex g"

definition numbered_json :: "nat \<times> bytes \<Rightarrow> json" where
  "numbered_json row = json_object [(''seq'', Some (nat_json (fst row))), (''payload'', Some (base64_json (snd row)))]"

definition numbered :: "json \<Rightarrow> codec_error + nat \<times> bytes" where
  "numbered j = and_then (number_in ''seq'' j) (\<lambda>n. and_then (bytes_in ''payload'' j) (\<lambda>b. Inr (n, b)))"

definition store_vault :: "net \<Rightarrow> sender \<Rightarrow> bytes \<Rightarrow> (nat \<times> bytes) list \<Rightarrow> api_failure + nat" where
  "store_vault n d g rows =
     request_json n d HttpPost (vault_path g) (Some (json_object [(''entries'', Some (json_list numbered_json rows))])) (number_in ''stored'')"

definition drop_vault :: "net \<Rightarrow> sender \<Rightarrow> bytes \<Rightarrow> api_failure + nat" where
  "drop_vault n d g = request_json n d HttpDelete (vault_path g) None (number_in ''removed'')"

definition fetch_vault :: "net \<Rightarrow> sender \<Rightarrow> bytes \<Rightarrow> nat \<Rightarrow> api_failure + (nat \<times> bytes) list" where
  "fetch_vault n d g start =
     request_json n d HttpGet (vault_path g @ js ''?after='' @ decimal start) None (array_of numbered)"

definition fetch_envelopes :: "net \<Rightarrow> sender \<Rightarrow> bytes \<Rightarrow> nat \<Rightarrow> api_failure + nat \<times> (nat \<times> bytes) list" where
  "fetch_envelopes n d g start =
     request_json n d HttpGet (group_path g ''/envelopes?after='' @ decimal start) None
       (\<lambda>j. and_then (number_in ''oldest'' j) (\<lambda>oldest. and_then (array_in ''envelopes'' numbered j) (\<lambda>rows. Inr (oldest, rows))))"

definition upload_attachment :: "net \<Rightarrow> sender \<Rightarrow> bytes \<Rightarrow> bytes \<Rightarrow> api_failure + jsstr" where
  "upload_attachment n d g ciphertext =
     and_then (request_bytes n d HttpPost (group_path g ''/attachments'') ciphertext) (read_reply n (text_in ''id''))"

definition download_attachment :: "net \<Rightarrow> sender \<Rightarrow> bytes \<Rightarrow> jsstr \<Rightarrow> api_failure + bytes" where
  "download_attachment n d g name =
     and_then (case encode_uri_component name of None \<Rightarrow> Inl LoneSurrogate | Some c \<Rightarrow> Inr (group_path g ''/attachments/'' @ c)) (\<lambda>path.
     and_then (request_bytes n d HttpGet path []) (\<lambda>r. Inr (hs_body r)))"

subsection \<open>Presence, push and policy\<close>

definition presence_request :: "net \<Rightarrow> sender \<Rightarrow> jsstr list \<Rightarrow> api_failure + nat \<times> (jsstr \<times> nat) list" where
  "presence_request n d accounts =
     request_json n d HttpPost (js ''/v1/presence'') (Some (json_object [(''accounts'', Some (json_list JStr accounts))]))
       (\<lambda>j. and_then (number_in ''now'' j) (\<lambda>now. and_then (array_in ''accounts''
          (\<lambda>a. and_then (text_in ''account'' a) (\<lambda>x. and_then (number_in ''last_seen'' a) (\<lambda>at. Inr (x, at)))) j) (\<lambda>xs. Inr (now, xs))))"

definition set_push_token :: "net \<Rightarrow> sender \<Rightarrow> jsstr \<Rightarrow> jsstr \<Rightarrow> api_failure + unit" where
  "set_push_token n d provider token =
     request_json n d HttpPost (js ''/v1/push/token'') (Some (json_object [(''provider'', Some (JStr provider)), (''token'', Some (JStr token))])) nothing_read"

definition forget_push_token :: "net \<Rightarrow> sender \<Rightarrow> api_failure + unit" where
  "forget_push_token n d = request_json n d HttpPost (js ''/v1/push/forget'') (Some (JObj [])) nothing_read"

definition vapid_public_key :: "net \<Rightarrow> api_failure + jsstr option" where
  "vapid_public_key n =
     and_then (responded n (open_request n HttpGet (js ''/v1/push/vapid'') None)) (\<lambda>r.
       if hs_status r = 503 then Inr None
       else and_then (accepted r) (\<lambda>r. and_then (read_reply n (text_in ''key'') r) (\<lambda>k. Inr (Some k))))"

definition set_presence_optout :: "net \<Rightarrow> sender \<Rightarrow> bool \<Rightarrow> api_failure + unit" where
  "set_presence_optout n d out =
     request_json n d HttpPost (js ''/v1/presence/optout'') (Some (json_object [(''optout'', Some (JBool out))])) nothing_read"

definition put_contact_policy :: "net \<Rightarrow> sender \<Rightarrow> contact_policy \<Rightarrow> api_failure + unit" where
  "put_contact_policy n d policy =
     request_json n d HttpPost (js ''/v1/contact-policy'')
       (Some (json_object [(''policy'', Some (JStr (js (case policy of PolicyOpen \<Rightarrow> ''open'' | PolicyKnown \<Rightarrow> ''known'' | PolicyClosed \<Rightarrow> ''closed''))))]))
       nothing_read"

subsection \<open>Posting to a group\<close>

definition anonymous :: "net \<Rightarrow> jsstr \<Rightarrow> bytes \<Rightarrow> bytes \<Rightarrow> (json \<Rightarrow> codec_error + 'a) \<Rightarrow> api_failure + 'a" where
  "anonymous n path body mac reader =
     and_then (responded n (group_request n ''application/octet-stream'' path mac body)) (\<lambda>r.
     and_then (accepted r) (read_reply n reader))"

definition post_envelope :: "net \<Rightarrow> sender \<Rightarrow> bytes \<Rightarrow> bytes \<Rightarrow> posting option \<Rightarrow> api_failure + nat" where
  "post_envelope n d g payload key =
     (let path = group_path g ''/envelopes''; body = json_object [(''payload'', Some (base64_json payload))] in
      case key of
        None \<Rightarrow> request_json n d HttpPost path (Some body) (number_in ''seq'')
      | Some p \<Rightarrow>
          (let encoded = text_encode (json_text body) in
           anonymous n path encoded (po_mac p (po_key p) g (nt_nonce n) encoded) (number_in ''seq'')))"

definition post_signal :: "net \<Rightarrow> sender \<Rightarrow> bytes \<Rightarrow> bytes \<Rightarrow> posting \<Rightarrow> api_failure + unit" where
  "post_signal n d g payload p =
     and_then (responded n (group_request n ''application/octet-stream'' (group_path g ''/signals'')
        (po_mac p (po_key p) g (nt_nonce n) payload) payload)) (\<lambda>r. and_then (accepted r) (\<lambda>_. Inr ()))"

text \<open>Admission to a call: the answer is handed on as it is; 503 means that there is no media server.\<close>

definition call_admission :: "net \<Rightarrow> sender \<Rightarrow> bytes \<Rightarrow> jsstr \<Rightarrow> jsstr \<Rightarrow> posting \<Rightarrow> api_failure + json option" where
  "call_admission n d g call identity p =
     (let payload = text_encode (json_text (json_object [(''call'', Some (JStr call)), (''identity'', Some (JStr identity))])) in
      and_then (responded n (group_request n ''application/json'' (group_path g ''/call/token'')
        (po_mac p (po_key p) g (nt_nonce n) payload) payload)) (\<lambda>r.
        if hs_status r = 503 then Inr None
        else and_then (accepted r) (\<lambda>r. and_then (read_reply n Inr r) (\<lambda>j. Inr (Some j)))))"

definition sign_gateway_challenge :: "sender \<Rightarrow> bytes \<Rightarrow> (jsstr \<Rightarrow> bytes \<Rightarrow> bytes) \<Rightarrow> jsstr" where
  "sign_gateway_challenge d nonce challenge = sn_sign d (challenge (sn_id d) nonce)"

subsection \<open>What the signature covers\<close>

definition plain_path :: "jsstr \<Rightarrow> bool" where
  "plain_path p \<longleftrightarrow> list_all (\<lambda>u. unat u < 128 \<and> u \<noteq> 0x0A) p"

lemma plain_path_append [simp]: "plain_path (p @ q) \<longleftrightarrow> plain_path p \<and> plain_path q"
  by (simp add: plain_path_def)

lemma no_newline: "plain_path p \<Longrightarrow> 0x0A \<notin> set p"
  by (auto simp: plain_path_def list_all_iff)

lemma text_encode_inject:
  assumes "ascii s" and "ascii t" and "text_encode s = text_encode t"
  shows "s = t"
  using assms text_decode_encode plain_text_ascii by metis

lemma decimal_bounded: "u \<in> set (decimal n) \<Longrightarrow> unat u < 128 \<and> u \<noteq> 0x0A"
  using decimal_digits [of u n] by (auto simp: word_le_nat_alt)

lemma decimal_plain: "plain_path (decimal n)"
  using decimal_bounded by (auto simp: plain_path_def list_all_iff)

fun numeral_of :: "jsstr \<Rightarrow> nat" where
  "numeral_of [] = 0" 
| "numeral_of (u # us) = (unat u - 48) * 10 ^ length us + numeral_of us"

lemma numeral_of_append: "numeral_of (a @ [d]) = 10 * numeral_of a + (unat d - 48)"
  by (induction a) simp_all

lemma numeral_of_decimal: "numeral_of (decimal n) = n"
proof (induction n rule: decimal.induct)
  case (1 n)
  have digit: "unat (of_nat (48 + m) :: 16 word) - 48 = m" if "m < 10" for m
    using that by (simp add: unat_of_nat del: of_nat_add)
  show ?case
  proof (cases "n < 10")
    case True
    with digit [of n] show ?thesis by (subst decimal.simps) simp
  next
    case False
    with 1 digit [of "n mod 10"] show ?thesis by (subst decimal.simps) (simp add: numeral_of_append)
  qed
qed

lemma decimal_inject: "decimal m = decimal n \<Longrightarrow> m = n"
  using numeral_of_decimal by metis

lemma hex_digit_bounded: "n < 16 \<Longrightarrow> unat (hex_digit n) < 128 \<and> hex_digit n \<noteq> 0x0A"
  using hex_digit_lt16 [of n] by (auto simp: hex_digit_def)

lemma to_hex_plain: "plain_path (to_hex b)"
proof -
  have "unat x div 16 < 16" "unat x mod 16 < 16" for x :: "8 word"
    using unsigned_less [where 'b = 8 and 'a = nat, of x] by simp_all
  then show ?thesis by (auto simp: to_hex_def plain_path_def list_all_iff hex_digit_bounded)
qed

lemma method_plain: "plain_path (method_name m)"
  by (cases m) (simp_all add: method_name_def plain_path_def js_def)

lemma method_name_inject: "method_name m = method_name k \<Longrightarrow> m = k"
  by (cases m; cases k) (simp_all add: method_name_def js_def)

lemma split_at_newline:
  "0x0A \<notin> set a \<Longrightarrow> 0x0A \<notin> set b \<Longrightarrow> a @ newline @ x = b @ newline @ y \<Longrightarrow> a = b \<and> x = (y :: jsstr)"
proof (induction a arbitrary: b)
  case Nil
  then show ?case by (cases b) (auto simp: newline_def)
next
  case (Cons u a)
  then show ?case by (cases b) (auto simp: newline_def)
qed

lemma signing_payload_inject:
  assumes eq: "signing_payload dg (method_name m) path ts nonce body = signing_payload dg' (method_name m') path' ts' nonce' body'"
    and plain: "plain_path path" "plain_path path'"
    and sizes: "length nonce = length nonce'" "length (dg body) = length (dg' body')"
  shows "m = m' \<and> path = path' \<and> ts = ts' \<and> nonce = nonce' \<and> dg body = dg' body'"
proof -
  let ?line = "\<lambda>m p t. method_name m @ newline @ p @ newline @ decimal t @ newline"
  have ascii: "ascii (?line m p t)" if "plain_path p" for m p t
    using that method_plain [of m] decimal_plain [of t]
    by (auto simp: plain_path_def list_all_iff ascii_def newline_def)
  have "text_encode (?line m path ts) @ (nonce @ text_encode newline @ dg body) =
      text_encode (?line m' path' ts') @ (nonce' @ text_encode newline @ dg' body')"
    using eq by (simp add: signing_payload_def)
  moreover have "length (nonce @ text_encode newline @ dg body) = length (nonce' @ text_encode newline @ dg' body')"
    using sizes by simp
  ultimately have "text_encode (?line m path ts) = text_encode (?line m' path' ts')"
    and rest: "nonce @ text_encode newline @ dg body = nonce' @ text_encode newline @ dg' body'"
    by (simp_all add: append_eq_append_conv)
  then have "?line m path ts = ?line m' path' ts'" using ascii plain text_encode_inject by blast
  moreover have newline_free: "0x0A \<notin> set (method_name m)" "0x0A \<notin> set (method_name m')" "0x0A \<notin> set path" "0x0A \<notin> set path'"
      "0x0A \<notin> set (decimal ts)" "0x0A \<notin> set (decimal ts')"
    using method_plain plain decimal_plain no_newline by blast+
  ultimately have "method_name m = method_name m'" "path = path'" "decimal ts = decimal ts'"
    using split_at_newline [of "decimal ts" "decimal ts'" "[]" "[]"] split_at_newline by (metis append_Nil2)+
  with rest sizes show ?thesis using method_name_inject decimal_inject by simp
qed

lemma hex_upper_bounded: "n < 16 \<Longrightarrow> unat (upper_hex n) < 128 \<and> upper_hex n \<notin> {0x0A, 0x23, 0x2F, 0x3F}"
  using hex_digit_lt16 [of n] by (auto simp: upper_hex_def)

lemma component_stays_inside:
  assumes "encode_uri_component s = Some c" and "u \<in> set c"
  shows "unat u < 128 \<and> u \<notin> {0x0A, 0x23, 0x2F, 0x3F}"
proof -
  from assms consider (unreserved) k where "unreserved k" "u = of_nat k"
    | (percent) k b where "k \<in> set (scalars_of (map unat s))" "b \<in> set (utf8_scalar k)" "u \<in> set (percent b)"
    by (auto simp: encode_uri_component_def split: if_splits)
  then show ?thesis
  proof cases
    case unreserved
    then have "k < 128" by (auto simp: unreserved_def)
    then have k: "unat u = k" using unreserved(2) by (simp add: unat_of_nat)
    have "k \<notin> {10, 35, 47, 63}" using unreserved(1) by (auto simp: unreserved_def)
    with k \<open>k < 128\<close> show ?thesis by auto
  next
    case percent
    then have "b < 256" using set_scalars_of [of s] utf8_scalar_bound by blast
    then have "b div 16 < 16" by simp
    then show ?thesis using percent(3) hex_upper_bounded [of "b div 16"] hex_upper_bounded [of "b mod 16"]
      by (auto simp: percent_def)
  qed
qed

subsection \<open>Which requests a call makes\<close>

text \<open>A call asks only what \<open>ok\<close> holds of when another \<open>fetch\<close> that agrees on those requests gives it the same answer.\<close>

definition asks_only :: "(net \<Rightarrow> http_request \<Rightarrow> bool) \<Rightarrow> (net \<Rightarrow> 'a) \<Rightarrow> bool" where
  "asks_only ok call \<longleftrightarrow> (\<forall>n f. (\<forall>rq. ok n rq \<longrightarrow> f rq = nt_fetch n rq) \<longrightarrow> call (n\<lparr>nt_fetch := f\<rparr>) = call n)"

definition signed_by :: "sender \<Rightarrow> net \<Rightarrow> http_request \<Rightarrow> bool" where
  "signed_by d n rq \<longleftrightarrow> (\<exists>m path body. plain_path path \<and> rq = signed_request n d m path body)"

definition names_no_device :: "net \<Rightarrow> http_request \<Rightarrow> bool" where
  "names_no_device n rq \<longleftrightarrow> list_all (\<lambda>h. h \<notin> {''x-device-id'', ''x-timestamp'', ''x-signature'', ''x-nonce''}) (map fst (hr_headers rq))"

lemma signed_request_fetch [simp]: "signed_request (n\<lparr>nt_fetch := f\<rparr>) d m path body = signed_request n d m path body"
  by (simp add: signed_request_def Let_def)

lemma asks_request_bytes:
  assumes "plain_path path"
  shows "asks_only (signed_by d) (\<lambda>n. request_bytes n d m path body)"
  unfolding asks_only_def
proof (intro allI impI)
  fix n f
  assume "\<forall>rq. signed_by d n rq \<longrightarrow> f rq = nt_fetch n rq"
  moreover have "signed_by d n (signed_request n d m path body)" using assms unfolding signed_by_def by blast
  ultimately show "request_bytes (n\<lparr>nt_fetch := f\<rparr>) d m path body = request_bytes n d m path body"
    by (simp add: request_bytes_def responded_def)
qed

lemma asks_read: "asks_only ok call \<Longrightarrow> (\<And>n f. reader (n\<lparr>nt_fetch := f\<rparr>) = reader n) \<Longrightarrow> asks_only ok (\<lambda>n. and_then (call n) (reader n))"
  by (simp add: asks_only_def)

lemma read_reply_fetch [simp]: "read_reply (n\<lparr>nt_fetch := f\<rparr>) = read_reply n"
  by (intro ext) (simp add: read_reply_def)

lemma asks_request_json: "plain_path path \<Longrightarrow> asks_only (signed_by d) (\<lambda>n. request_json n d m path body reader)"
  unfolding request_json_def by (intro asks_read asks_request_bytes) simp_all

lemma asks_at:
  "(\<And>path. route = Inr path \<Longrightarrow> asks_only ok (\<lambda>n. call n path)) \<Longrightarrow> asks_only ok (\<lambda>n. and_then route (call n))"
  by (cases route) (simp_all add: asks_only_def and_then_def)

lemma component_plain: "encode_uri_component s = Some c \<Longrightarrow> plain_path c"
  using component_stays_inside [of s c] by (auto simp: plain_path_def list_all_iff)

lemma around_plain: "around before c behind = Inr path \<Longrightarrow> plain_path (js before) \<Longrightarrow> plain_path (js behind) \<Longrightarrow> plain_path path"
  using component_plain by (auto simp: around_def split: option.splits)

lemma group_path_plain: "plain_path (js behind) \<Longrightarrow> plain_path (group_path g behind)"
  by (simp add: group_path_def to_hex_plain) (simp add: plain_path_def js_def)

lemmas signed_calls = publish_key_packages_def key_package_stock_def claim_key_package_def list_account_devices_def revoke_device_def
  post_rotation_def rename_account_def log_head_def log_proof_of_def log_consistency_def deposit_pairing_def set_recovery_def
  list_recovery_def forget_recovery_def list_groups_def add_members_def remove_group_members_def store_vault_def drop_vault_def
  fetch_vault_def fetch_envelopes_def presence_request_def set_push_token_def forget_push_token_def set_presence_optout_def
  put_contact_policy_def vault_path_def

lemmas asks = asks_request_json asks_at asks_read asks_request_bytes

lemma js_plain [simp]:
  "plain_path (js [])"
  "plain_path (js (c # s)) \<longleftrightarrow> unat (of_char c :: 16 word) < 128 \<and> (of_char c :: 16 word) \<noteq> 0x0A \<and> plain_path (js s)"
  by (simp_all add: plain_path_def js_def)

text \<open>Every call a device makes in its own name reaches the server as requests it signed, on plain paths.\<close>

lemma device_calls_signed:
  "asks_only (signed_by d) (\<lambda>n. publish_key_packages n d packages)"
  "asks_only (signed_by d) (\<lambda>n. key_package_stock n d)"
  "asks_only (signed_by d) (\<lambda>n. claim_key_package n d device)"
  "asks_only (signed_by d) (\<lambda>n. list_account_devices n d account)"
  "asks_only (signed_by d) (\<lambda>n. revoke_device n d device certificate at)"
  "asks_only (signed_by d) (\<lambda>n. post_rotation n d account key certificate at)"
  "asks_only (signed_by d) (\<lambda>n. rename_account n d account handle)"
  "asks_only (signed_by d) (\<lambda>n. log_head n d)"
  "asks_only (signed_by d) (\<lambda>n. log_proof_of n d account)"
  "asks_only (signed_by d) (\<lambda>n. log_consistency n d start)"
  "asks_only (signed_by d) (\<lambda>n. deposit_pairing n d rendezvous payload)"
  "asks_only (signed_by d) (\<lambda>n. set_recovery n d kind lookup params sealed)"
  "asks_only (signed_by d) (\<lambda>n. list_recovery n d)"
  "asks_only (signed_by d) (\<lambda>n. forget_recovery n d kind)"
  by (auto simp: signed_calls to_hex_plain decimal_plain intro!: asks group_path_plain dest: around_plain)

lemma device_group_calls_signed:
  "asks_only (signed_by d) (\<lambda>n. list_groups n d)"
  "asks_only (signed_by d) (\<lambda>n. add_members n d g devices posting_key)"
  "asks_only (signed_by d) (\<lambda>n. remove_group_members n d g devices)"
  "asks_only (signed_by d) (\<lambda>n. store_vault n d g rows)"
  "asks_only (signed_by d) (\<lambda>n. drop_vault n d g)"
  "asks_only (signed_by d) (\<lambda>n. fetch_vault n d g start)"
  "asks_only (signed_by d) (\<lambda>n. fetch_envelopes n d g start)"
  "asks_only (signed_by d) (\<lambda>n. upload_attachment n d g ciphertext)"
  "asks_only (signed_by d) (\<lambda>n. presence_request n d accounts)"
  "asks_only (signed_by d) (\<lambda>n. set_push_token n d provider token)"
  "asks_only (signed_by d) (\<lambda>n. forget_push_token n d)"
  "asks_only (signed_by d) (\<lambda>n. set_presence_optout n d out)"
  "asks_only (signed_by d) (\<lambda>n. put_contact_policy n d policy)"
  "asks_only (signed_by d) (\<lambda>n. post_envelope n d g payload None)"
  by (auto simp: signed_calls to_hex_plain decimal_plain component_plain upload_attachment_def download_attachment_def
      post_envelope_def Let_def intro!: asks group_path_plain)

lemma download_signed: "asks_only (signed_by d) (\<lambda>n. download_attachment n d g name)"
  unfolding download_attachment_def
  by (intro asks) (auto simp: component_plain group_path_plain split: option.splits)

text \<open>What the server stored of an archive is read back as it was sent.\<close>

lemma number_in_row: "number_in ''seq'' (numbered_json row) = Inr (fst row)"
  by (simp add: number_in_def numbered_json_def field_json_object nat_json_def cast_as_def read_nat_def)

lemma bytes_in_row: "bytes_in ''payload'' (numbered_json row) = Inr (snd row)"
  by (simp add: bytes_in_def text_in_def numbered_json_def field_json_object base64_json_def require_string_def and_then_def
      from_text_def from_to_base64)

lemma numbered_rows_back: "array_of numbered (json_list numbered_json rows) = Inr rows"
proof -
  have "numbered (numbered_json row) = Inr row" for row
    by (simp add: numbered_def number_in_row bytes_in_row and_then_def)
  then have "each numbered (map numbered_json rows) = Inr rows" by (induction rows) (simp_all add: and_then_def)
  then show ?thesis by (simp add: array_of_def json_list_def require_array_def and_then_def)
qed

text \<open>C10. What a device signs fixes its request: two signed requests whose messages are the same bytes have the same
  method, path, second, nonce and body digest, so a captured signature opens nothing else
  (\<open>api.ts\<close>, \<open>signingPayload\<close> and \<open>requestRaw\<close>).\<close>

theorem signed_message_binds:
  assumes "plain_path path" and "plain_path path'"
    and "length (nt_nonce n) = 16" and "length (nt_nonce n') = 16"
    and "\<And>b. length (nt_digest n b) = 32" and "\<And>b. length (nt_digest n' b) = 32"
    and "signing_payload (nt_digest n) (method_name m) path (nt_now n div 1000) (nt_nonce n) body =
         signing_payload (nt_digest n') (method_name m') path' (nt_now n' div 1000) (nt_nonce n') body'"
  shows "hr_method (signed_request n d m path body) = hr_method (signed_request n' d m' path' body') \<and> path = path' \<and>
    nt_now n div 1000 = nt_now n' div 1000 \<and> nt_nonce n = nt_nonce n' \<and> nt_digest n body = nt_digest n' body'"
  using signing_payload_inject [OF assms(7,1,2)] assms(3-6) by (simp add: signed_request_def Let_def)

definition quiet_net :: net where
  "quiet_net = \<lparr>nt_base = [], nt_fetch = (\<lambda>rq. None), nt_now = 61000, nt_nonce = replicate 16 7,
     nt_digest = (\<lambda>b. take 32 (b @ replicate 32 0)), nt_parse = (\<lambda>s. None)\<rparr>"

lemma signed_message_binds_witness:
  "hr_method (signed_request quiet_net \<lparr>sn_id = js ''d'', sn_sign = (\<lambda>b. [])\<rparr> HttpPost (js ''/v1/presence'') []) = HttpPost"
proof -
  have "plain_path (js ''/v1/presence'')" by simp
  from signed_message_binds [OF this this, of quiet_net quiet_net HttpPost "[]" HttpPost "[]"]
  show ?thesis by (simp add: quiet_net_def signed_request_def Let_def)
qed

text \<open>C9. What is posted under a group's key does not say who posts: the answer is the same whichever device asks, and no
  request names a device or carries its signature (\<open>api.ts\<close>, \<open>postEnvelope\<close>, \<open>postSignal\<close>, \<open>callAdmission\<close>).\<close>

theorem group_posts_hide_device:
  "post_envelope n d g payload (Some p) = post_envelope n d' g payload (Some p) \<and>
   post_signal n d g payload p = post_signal n d' g payload p \<and>
   call_admission n d g call identity p = call_admission n d' g call identity p \<and>
   asks_only names_no_device (\<lambda>n. post_envelope n d g payload (Some p)) \<and>
   asks_only names_no_device (\<lambda>n. post_signal n d g payload p) \<and>
   asks_only names_no_device (\<lambda>n. call_admission n d g call identity p)"
proof -
  have group: "asks_only names_no_device (\<lambda>n. responded n (group_request n kind path (mac n) (body n)))"
    if "\<And>n f. mac (n\<lparr>nt_fetch := f\<rparr>) = mac n" "\<And>n f. body (n\<lparr>nt_fetch := f\<rparr>) = body n" for kind path mac body
    using that by (auto simp: asks_only_def responded_def group_request_def names_no_device_def)
  show ?thesis
    unfolding post_envelope_def post_signal_def call_admission_def anonymous_def Let_def option.case
    by (intro conjI refl asks_read group) (simp_all cong: if_cong)
qed

end
