(* ===== verification/Signalling.thy ===== *)
theory Signalling
  imports Calls Gateway Keys Requests Signals SignalSync
begin

text \<open>
  What a session says of itself while it happens: who is online (\<open>session-presence.ts\<close>, \<open>refreshPresence\<close>,
  \<open>setSignalSetting\<close>), who is typing, and the frames, the admission and the key of a call (\<open>session.ts\<close>,
  \<open>session-call.ts\<close>, \<open>call.ts\<close>).
\<close>

subsection \<open>Presence\<close>

record tracker =
  tr_seen :: "(account \<times> nat) list"
  tr_clock :: nat

definition no_tracker :: tracker where
  "no_tracker = \<lparr>tr_seen = [], tr_clock = 0\<rparr>"

definition max_per_request :: nat where "max_per_request = 64"

definition last_seen :: "account \<Rightarrow> tracker \<Rightarrow> nat option" where
  "last_seen a t = map_of (tr_seen t) a"

text \<open>\<open>refresh\<close>: the accounts asked about, and what an answer leaves, in seconds on the wire.\<close>

definition refresh_asks :: "account list \<Rightarrow> account list option" where
  "refresh_asks accounts = (if accounts = [] then None else Some (take max_per_request accounts))"

definition refreshed :: "nat \<times> (account \<times> nat) list \<Rightarrow> tracker \<Rightarrow> tracker" where
  "refreshed answer t =
     t\<lparr>tr_clock := fst answer * 1000,
       tr_seen := fold (\<lambda>(a, at). AList.update a (at * 1000)) (snd answer) []\<rparr>"

definition clear_tracker :: "tracker \<Rightarrow> tracker" where
  "clear_tracker t = t\<lparr>tr_seen := []\<rparr>"

text \<open>The session around it: the setting (absent means on), and the requests still to be answered.\<close>

record presence_desk =
  pd_on :: "bool option"
  pd_tracker :: tracker
  pd_waiting :: "account list list"
  pd_asked :: "account list list"

datatype presence_event =
    PresenceDue "account list"                              \<comment> \<open>the members of every conversation\<close>
  | PresenceAnswered "(nat \<times> (account \<times> nat) list) option"  \<comment> \<open>the oldest request, answered or failed\<close>
  | PresenceSet bool bool                                   \<comment> \<open>the setting, and whether the server took it\<close>
  | PresenceCopied bool                                     \<comment> \<open>a sibling's decision, or the server's\<close>

definition presence_handles :: "account \<Rightarrow> account list \<Rightarrow> account list" where
  "presence_handles self members = uniq (filter (\<lambda>a. a \<noteq> self) members)"

definition refresh_presence :: "account \<Rightarrow> account list \<Rightarrow> presence_desk \<Rightarrow> presence_desk" where
  "refresh_presence self members s =
     (if pd_on s \<noteq> Some True then s
      else case refresh_asks (presence_handles self members) of
        None \<Rightarrow> s
      | Some asked \<Rightarrow> s\<lparr>pd_waiting := pd_waiting s @ [asked], pd_asked := pd_asked s @ [asked]\<rparr>)"

fun presence_step :: "account \<Rightarrow> presence_event \<Rightarrow> presence_desk \<Rightarrow> presence_desk" where
  "presence_step self (PresenceDue members) s = refresh_presence self members s"
| "presence_step self (PresenceAnswered answer) s =
     (case pd_waiting s of
        [] \<Rightarrow> s
      | _ # later \<Rightarrow> s\<lparr>pd_waiting := later,
          pd_tracker := (case answer of None \<Rightarrow> pd_tracker s | Some a \<Rightarrow> refreshed a (pd_tracker s))\<rparr>)"
| "presence_step self (PresenceSet v taken) s =
     (if \<not> taken then s else s\<lparr>pd_on := Some v, pd_tracker := clear_tracker (pd_tracker s)\<rparr>)"
| "presence_step self (PresenceCopied v) s = s\<lparr>pd_on := Some v\<rparr>"

definition presence_run :: "account \<Rightarrow> presence_event list \<Rightarrow> presence_desk \<Rightarrow> presence_desk" where
  "presence_run self es s = fold (presence_step self) es s"

subsection \<open>Ephemeral frames\<close>

text \<open>What the session asks of its MLS client and of the cryptography for them.\<close>

record 'g frames =
  fr_signal_key :: "'g \<Rightarrow> bytes"
  fr_call_key :: "'g \<Rightarrow> bytes \<Rightarrow> bytes"
  fr_id :: "'g \<Rightarrow> bytes"
  fr_mac :: "bytes \<Rightarrow> bytes \<Rightarrow> bytes \<Rightarrow> bytes \<Rightarrow> bytes"
  fr_enc :: "bytes \<Rightarrow> bytes \<Rightarrow> bytes \<Rightarrow> bytes"
  fr_dec :: "bytes \<Rightarrow> bytes \<Rightarrow> bytes \<Rightarrow> bytes option"
  fr_digest :: "bytes \<Rightarrow> bytes"

definition signal_posting :: "'g frames \<Rightarrow> 'g view \<Rightarrow> posting option" where
  "signal_posting fr v = map_option (\<lambda>k. \<lparr>po_key = k, po_mac = fr_mac fr\<rparr>) (vw_posting_key v)"

text \<open>\<open>emitSignal\<close>: over the open session, or over HTTP.\<close>

datatype signal_route = OverStream bytes bytes bytes bytes | OverHttp "api_failure + unit"

definition emit_signal :: "net \<Rightarrow> sender \<Rightarrow> gateway option \<Rightarrow> bytes \<Rightarrow> bytes \<Rightarrow> posting \<Rightarrow> signal_route" where
  "emit_signal n d gw g payload p =
     (if (case gw of Some w \<Rightarrow> signal_sent w | None \<Rightarrow> False)
      then OverStream g (nt_nonce n) (po_mac p (po_key p) g (nt_nonce n) payload) payload
      else OverHttp (post_signal n d g payload p))"

definition sealed_for :: "'g frames \<Rightarrow> bytes \<Rightarrow> 'g \<Rightarrow> signal \<Rightarrow> bytes" where
  "sealed_for fr iv g s = seal_signal (fr_enc fr) iv (fr_signal_key fr g) s"

definition notify_typing_in ::
    "'g frames \<Rightarrow> net \<Rightarrow> sender \<Rightarrow> gateway option \<Rightarrow> bytes \<Rightarrow> int \<Rightarrow> 'g session \<Rightarrow> 'g view \<Rightarrow> signal_route option \<times> 'g view" where
  "notify_typing_in fr n d gw iv now s v =
     (let (emits, at) = notify_typing (ss_typing (sx_signals s)) (signal_posting fr v \<noteq> None) (vw_typing_sent_at v) now in
      (case signal_posting fr v of
         Some p \<Rightarrow> if emits then Some (emit_signal n d gw (fr_id fr (vw_group v)) (sealed_for fr iv (vw_group v) (TypingSignal (sx_account s))) p)
           else None
       | None \<Rightarrow> None, v\<lparr>vw_typing_sent_at := at\<rparr>))"

definition emit_call_signal ::
    "'g frames \<Rightarrow> net \<Rightarrow> sender \<Rightarrow> gateway option \<Rightarrow> bytes \<Rightarrow> jsstr \<Rightarrow> call_signal_event \<Rightarrow> jsstr \<Rightarrow> 'g session \<Rightarrow> signal_route option" where
  "emit_call_signal fr n d gw iv group_key event call s =
     (case map_of (sx_views s) group_key of
        None \<Rightarrow> None
      | Some v \<Rightarrow>
          (case signal_posting fr v of
             None \<Rightarrow> None
           | Some p \<Rightarrow> Some (emit_signal n d gw (fr_id fr (vw_group v))
               (sealed_for fr iv (vw_group v) (CallSignal event call (sx_device s) (sx_account s))) p)))"

text \<open>\<open>absorbSignal\<close>.\<close>

definition absorb_signal ::
    "'g frames \<Rightarrow> int \<Rightarrow> int \<Rightarrow> jsstr \<Rightarrow> bytes \<Rightarrow> 'g session \<Rightarrow> call_effect list \<times> 'g session" where
  "absorb_signal fr now later group_key payload s =
     (case map_of (sx_views s) group_key of
        None \<Rightarrow> ([], s)
      | Some v \<Rightarrow>
          (case open_signal (fr_dec fr) (fr_signal_key fr (vw_group v)) payload of
             None \<Rightarrow> ([], s)
           | Some (CallSignal event call device account) \<Rightarrow>
               (let (es, c) = absorb_call now later event call device (sx_device s) account (sx_calls s) in (es, s\<lparr>sx_calls := c\<rparr>))
           | Some (TypingSignal account) \<Rightarrow>
               ([], s\<lparr>sx_views := AList.update group_key
                  (v\<lparr>vw_typing := absorb_typing (ss_typing (sx_signals s)) (sx_account s) account now (vw_typing v)\<rparr>) (sx_views s)\<rparr>)))"

subsection \<open>Admission to a call, and its key\<close>

definition identity_for :: "(bytes \<Rightarrow> bytes) \<Rightarrow> bytes \<Rightarrow> jsstr \<Rightarrow> jsstr" where
  "identity_for digest key device = to_hex (take 8 (digest (key @ text_encode (js ''wac-call-peer-v1'' @ device))))"

datatype admit_error = ConversationGone | NoPostingKey | BadCallId hex_error | AdmissionRefused api_failure | NoCallsHere

definition admit_to_call ::
    "'g frames \<Rightarrow> net \<Rightarrow> sender \<Rightarrow> jsstr \<Rightarrow> jsstr \<Rightarrow> 'g session \<Rightarrow> admit_error + json \<times> bytes" where
  "admit_to_call fr n d group_key call s =
     (case map_of (sx_views s) group_key of
        None \<Rightarrow> Inl ConversationGone
      | Some v \<Rightarrow>
          (case signal_posting fr v of
             None \<Rightarrow> Inl NoPostingKey
           | Some p \<Rightarrow>
               (case from_hex call of
                  Inl e \<Rightarrow> Inl (BadCallId e)
                | Inr call_id \<Rightarrow>
                    (let key = fr_call_key fr (vw_group v) call_id in
                     case call_admission n d (fr_id fr (vw_group v)) call (identity_for (fr_digest fr) key (sx_device s)) p of
                       Inl e \<Rightarrow> Inl (AdmissionRefused e)
                     | Inr None \<Rightarrow> Inl NoCallsHere
                     | Inr (Some admission) \<Rightarrow> Inr (admission, key)))))"

definition place_call :: "jsstr \<Rightarrow> int \<Rightarrow> 'g view \<Rightarrow> 'g session \<Rightarrow> call_effect list \<times> 'g session" where
  "place_call new_id now v s =
     (if \<not> calls_allowed s then ([], s)
      else (let (es, c) = place new_id now (vw_key v) (sx_account s) (length (vw_accounts v)) (sx_calls s) in (es, s\<lparr>sx_calls := c\<rparr>)))"

text \<open>\<open>tickCall\<close>: the key of the current epoch is compared with the one last handed over.\<close>

definition current_call_key :: "'g frames \<Rightarrow> 'g session \<Rightarrow> hex_error + bytes option" where
  "current_call_key fr s =
     (let st = ca_state (sx_calls s) in
      if cl_phase st = Idle then Inr None
      else case map_of (sx_views s) (cl_group st) of
        None \<Rightarrow> Inr None
      | Some v \<Rightarrow> (case from_hex (cl_call st) of Inl e \<Rightarrow> Inl e | Inr i \<Rightarrow> Inr (Some (fr_call_key fr (vw_group v) i))))"

definition tick_session ::
    "'g frames \<Rightarrow> int \<Rightarrow> int \<Rightarrow> 'g session \<times> bytes option \<Rightarrow> call_effect list \<times> 'g session \<times> bytes option" where
  "tick_session fr now later st =
     (let (s, in_use) = st in
      case current_call_key fr s of
        Inl e \<Rightarrow> ([], s, in_use)
      | Inr current \<Rightarrow>
          (let rekeys = (case current of None \<Rightarrow> False | Some key \<Rightarrow> in_use \<noteq> Some key);
               (es1, c1) = (if rekeys then rekey_call (the current) (sx_calls s) else ([], sx_calls s));
               (es2, c2) = tick_call now later c1
           in (es1 @ es2, s\<lparr>sx_calls := c2\<rparr>, if rekeys then current else in_use)))"

text \<open>The key the media room encrypts under: the one it was joined with, then each it is handed.\<close>

fun room_keyed :: "call_effect list \<Rightarrow> (jsstr \<times> bytes) option \<Rightarrow> (jsstr \<times> bytes) option" where
  "room_keyed [] k = k"
| "room_keyed (RekeyRoom r key # es) k = room_keyed es (case k of Some (r', _) \<Rightarrow> if r = r' then Some (r, key) else k | None \<Rightarrow> None)"
| "room_keyed (LeaveRoom r # es) k = room_keyed es (case k of Some (r', _) \<Rightarrow> if r = r' then None else k | None \<Rightarrow> None)"
| "room_keyed (_ # es) k = room_keyed es k"

subsection \<open>Presence turned off\<close>

lemma off_asks_nothing: "pd_on s \<noteq> Some True \<Longrightarrow> refresh_presence self members s = s"
  by (simp add: refresh_presence_def)

definition keeps_off :: "presence_event \<Rightarrow> bool" where
  "keeps_off e \<longleftrightarrow> (case e of PresenceSet v _ \<Rightarrow> \<not> v | PresenceCopied v \<Rightarrow> \<not> v | _ \<Rightarrow> True)"

lemma off_step:
  "keeps_off e \<Longrightarrow> pd_on s = Some False \<and> pd_waiting s = [] \<and> tr_seen (pd_tracker s) = [] \<and> pd_asked s = asked \<Longrightarrow>
   pd_on (presence_step self e s) = Some False \<and> pd_waiting (presence_step self e s) = [] \<and>
   tr_seen (pd_tracker (presence_step self e s)) = [] \<and> pd_asked (presence_step self e s) = asked"
  by (cases e) (auto simp: keeps_off_def off_asks_nothing clear_tracker_def)

text \<open>C38. Once presence is turned off on this device, with no request under way, nothing is shown of anybody and nobody is
  asked about until it is turned on again, whatever polls run meanwhile (\<open>setSignalSetting\<close>, \<open>refreshPresence\<close>).\<close>

theorem presence_off_forgets:
  assumes "pd_waiting s = []" and "list_all keeps_off es"
  shows "last_seen a (pd_tracker (presence_run self (PresenceSet False True # es) s)) = None \<and>
    pd_asked (presence_run self (PresenceSet False True # es) s) = pd_asked s"
proof -
  have "pd_on (fold (presence_step self) es t) = Some False \<and> pd_waiting (fold (presence_step self) es t) = [] \<and>
      tr_seen (pd_tracker (fold (presence_step self) es t)) = [] \<and> pd_asked (fold (presence_step self) es t) = pd_asked s"
    if "pd_on t = Some False \<and> pd_waiting t = [] \<and> tr_seen (pd_tracker t) = [] \<and> pd_asked t = pd_asked s" for t
    using that assms(2)
  proof (induction es arbitrary: t)
    case (Cons e es)
    then have "keeps_off e" "list_all keeps_off es" by simp_all
    with Cons.IH [OF off_step [OF \<open>keeps_off e\<close> Cons.prems(1)]] show ?case by simp
  qed simp
  from this [of "presence_step self (PresenceSet False True) s"] assms(1) show ?thesis
    by (simp add: presence_run_def last_seen_def clear_tracker_def)
qed

definition watching :: presence_desk where
  "watching = \<lparr>pd_on = Some True, pd_tracker = refreshed (10, [(js ''bob'', 9)]) no_tracker, pd_waiting = [], pd_asked = []\<rparr>"

lemma presence_off_forgets_witness:
  "last_seen (js ''bob'') (pd_tracker (presence_run (js ''amy'') [PresenceSet False True, PresenceDue [js ''bob'']] watching)) = None"
  using presence_off_forgets [of watching "[PresenceDue [js ''bob'']]" "js ''bob''" "js ''amy''"]
  by (simp add: watching_def keeps_off_def)

text \<open>An answer that was under way when the setting was turned off puts everybody back, and a decision taken on a sibling
  device forgets nobody; in both cases no later poll corrects it.\<close>

lemma late_presence_answer:
  "last_seen (js ''bob'') (pd_tracker (presence_run (js ''amy'')
     [PresenceDue [js ''bob''], PresenceSet False True, PresenceAnswered (Some (11, [(js ''bob'', 10)])), PresenceDue [js ''bob'']]
     watching)) = Some 10000"
  by (simp add: presence_run_def watching_def refresh_presence_def refresh_asks_def presence_handles_def max_per_request_def
      refreshed_def last_seen_def clear_tracker_def no_tracker_def js_def)

lemma sibling_presence_kept:
  "last_seen (js ''bob'') (pd_tracker (presence_run (js ''amy'') [PresenceCopied False, PresenceDue [js ''bob'']] watching)) = Some 9000"
  by (simp add: presence_run_def watching_def refresh_presence_def refreshed_def last_seen_def no_tracker_def)

text \<open>A setting that was never written is announced as on and polls nothing.\<close>

lemma absent_presence_unasked:
  "refresh_presence self members (s\<lparr>pd_on := None\<rparr>) = s\<lparr>pd_on := None\<rparr> \<and>
   (ss_presence (sn_signals t) = None \<longrightarrow> sy_presence (synced_signals_of now t))"
  by (simp add: refresh_presence_def synced_signals_of_def)

text \<open>What a request may name.\<close>

definition ask_ok :: "account \<Rightarrow> account list \<Rightarrow> bool" where
  "ask_ok self asked \<longleftrightarrow> asked \<noteq> [] \<and> length asked \<le> max_per_request \<and> distinct asked \<and> self \<notin> set asked"

lemma refresh_ask_ok: "refresh_asks (presence_handles self members) = Some asked \<Longrightarrow> ask_ok self asked"
  by (auto simp: refresh_asks_def presence_handles_def ask_ok_def max_per_request_def dest: in_set_takeD split: if_splits)

text \<open>A presence request names between one and sixty-four accounts, each once and never our own, and none leaves unless
  the setting is on (\<open>refreshPresence\<close>, \<open>session-presence.ts\<close>).\<close>

theorem presence_asks_little:
  "list_all (ask_ok self) (pd_asked (presence_run self es \<lparr>pd_on = on, pd_tracker = no_tracker, pd_waiting = [], pd_asked = []\<rparr>)) \<and>
   (pd_on s \<noteq> Some True \<longrightarrow> pd_asked (presence_step self (PresenceDue members) s) = pd_asked s)"
proof -
  have "list_all (ask_ok self) (pd_asked (fold (presence_step self) es t))" if "list_all (ask_ok self) (pd_asked t)" for t
    using that
  proof (induction es arbitrary: t)
    case (Cons e es)
    then have "list_all (ask_ok self) (pd_asked (presence_step self e t))"
      by (cases e) (auto simp: refresh_presence_def refresh_ask_ok split: list.splits option.splits)
    with Cons.IH show ?case by simp
  qed simp
  then show ?thesis by (simp add: presence_run_def off_asks_nothing)
qed

subsection \<open>Frames arrive, and none without the key of the group\<close>

text \<open>C11. A frame of a call that one member emits is absorbed by another member of the same epoch as the event it was, from
  the account and the device that emitted it, by whichever way it travels (\<open>emitCallSignal\<close>, \<open>absorbSignal\<close>).\<close>

theorem call_frame_arrives:
  assumes "aead (fr_enc fr) (fr_dec fr)" and "length iv = 12" and "signal_ok (CallSignal event call (sx_device s) (sx_account s))"
    and "map_of (sx_views s) k = Some v" and "vw_posting_key v = Some key"
    and "map_of (sx_views t) k = Some u" and "fr_signal_key fr (vw_group u) = fr_signal_key fr (vw_group v)"
  defines "payload \<equiv> sealed_for fr iv (vw_group v) (CallSignal event call (sx_device s) (sx_account s))"
  shows "emit_call_signal fr n d gw iv k event call s =
      Some (emit_signal n d gw (fr_id fr (vw_group v)) payload \<lparr>po_key = key, po_mac = fr_mac fr\<rparr>) \<and>
    absorb_signal fr now later k payload t =
      (let (es, c) = absorb_call now later event call (sx_device s) (sx_device t) (sx_account s) (sx_calls t) in (es, t\<lparr>sx_calls := c\<rparr>))"
proof -
  have "open_signal (fr_dec fr) (fr_signal_key fr (vw_group v))
      (sealed_for fr iv (vw_group v) (CallSignal event call (sx_device s) (sx_account s))) =
    Some (CallSignal event call (sx_device s) (sx_account s))"
    unfolding sealed_for_def using signal_roundtrip [OF assms(1,2,3,3)] by blast
  then show ?thesis using assms(4-7) by (simp add: payload_def emit_call_signal_def signal_posting_def absorb_signal_def)
qed

text \<open>The answers of a server that accepts everything, and the two ends of a group whose secrets are its number.\<close>

definition plain_frames :: "nat frames" where
  "plain_frames = \<lparr>fr_signal_key = (\<lambda>g. []), fr_call_key = (\<lambda>g c. word_of_nat g # c), fr_id = (\<lambda>g. []), fr_mac = (\<lambda>k g n p. k),
     fr_enc = clear_enc, fr_dec = clear_dec, fr_digest = (\<lambda>b. take 32 (b @ replicate 32 0))\<rparr>"

definition in_group :: "account \<Rightarrow> jsstr \<Rightarrow> nat session" where
  "in_group a device = (new_session a device)\<lparr>sx_views := [(js ''c1'', (new_view (js ''c1'') 0)\<lparr>vw_posting_key := Some [7]\<rparr>)]\<rparr>"

lemma call_frame_arrives_witness:
  "absorb_signal plain_frames 5 6 (js ''c1'') (sealed_for plain_frames (replicate 12 0) 0 (CallSignal SigAlive (js ''ab'') (js ''d1'') (js ''bob'')))
     (in_group (js ''amy'') (js ''d2'')) =
   (let (es, c) = absorb_call 5 6 SigAlive (js ''ab'') (js ''d1'') (js ''d2'') (js ''bob'') no_calls
    in (es, (in_group (js ''amy'') (js ''d2''))\<lparr>sx_calls := c\<rparr>))"
proof -
  let ?s = "in_group (js ''bob'') (js ''d1'')" and ?v = "(new_view (js ''c1'') 0)\<lparr>vw_posting_key := Some [7]\<rparr>"
  have "ascii (js ''ab'')" "ascii (js ''d1'')" "ascii (js ''bob'')" by (simp_all add: ascii_def js_def)
  then have "signal_ok (CallSignal SigAlive (js ''ab'') (sx_device ?s) (sx_account ?s))"
    by (simp add: in_group_def new_session_def plain_text_ascii length_text_ascii)
  from call_frame_arrives [OF _ _ this, of plain_frames "replicate 12 0" "js ''c1''" ?v "[7]" "in_group (js ''amy'') (js ''d2'')" ?v]
  show ?thesis by (simp add: plain_frames_def aead_clear in_group_def new_session_def new_view_def)
qed

text \<open>Without the key of the group nothing ephemeral leaves: typing is not told, a call emits no frame and is not
  admitted; and with the setting off typing is not told either (\<open>signalPosting\<close>).\<close>

theorem unkeyed_group_silent:
  assumes "vw_posting_key v = None" and "map_of (sx_views s) k = Some v"
  shows "fst (notify_typing_in fr n d gw iv now s v) = None \<and> emit_call_signal fr n d gw iv k event call s = None \<and>
    admit_to_call fr n d k call s = Inl NoPostingKey"
  using assms by (simp add: notify_typing_in_def signal_posting_def emit_call_signal_def admit_to_call_def split: prod.splits)

lemma unkeyed_group_silent_witness:
  "admit_to_call plain_frames quiet_net \<lparr>sn_id = js ''d'', sn_sign = (\<lambda>b. [])\<rparr> (js ''c1'') (js ''ab'')
     ((new_session (js ''bob'') (js ''d1''))\<lparr>sx_views := [(js ''c1'', new_view (js ''c1'') 0)]\<rparr>) = Inl NoPostingKey"
proof -
  let ?s = "(new_session (js ''bob'') (js ''d1''))\<lparr>sx_views := [(js ''c1'', new_view (js ''c1'') (0::nat))]\<rparr>"
  have "vw_posting_key (new_view (js ''c1'') (0::nat)) = None" "map_of (sx_views ?s) (js ''c1'') = Some (new_view (js ''c1'') 0)"
    by (simp_all add: new_view_def)
  from conjunct2 [OF conjunct2 [OF unkeyed_group_silent [OF this]]] show ?thesis .
qed

lemma typing_off_silent: "\<not> ss_typing (sx_signals s) \<Longrightarrow> fst (notify_typing_in fr n d gw iv now s v) = None"
  by (simp add: notify_typing_in_def notify_typing_def split: option.splits)

text \<open>Refusing calls is refusing to place them.\<close>

lemma refused_calls_unplaced: "ss_calls (sx_signals s) = Some False \<Longrightarrow> place_call new_id now v s = ([], s)"
  by (simp add: place_call_def calls_allowed_def)

subsection \<open>The key of a call\<close>

lemma tick_call_room:
  "tick_call now later c = (es, c') \<Longrightarrow> ca_room c = Some r \<Longrightarrow>
   ca_room c' = None \<or> ca_room c' = Some r \<and> room_keyed es (Some (r, key)) = Some (r, key)"
  by (auto simp: tick_call_def Let_def hang_def close_call_def split: if_splits)


definition ringing_in :: "jsstr \<Rightarrow> jsstr option \<Rightarrow> nat session" where
  "ringing_in call room = (in_group (js ''amy'') (js ''d2''))\<lparr>sx_calls :=
     no_calls\<lparr>ca_room := room, ca_state := idle_call\<lparr>cl_phase := Connected, cl_call := call, cl_group := js ''c1''\<rparr>\<rparr>\<rparr>"

lemma from_hex_ab: "from_hex (js ''ab'') = Inr [0xAB]"
  by (simp add: from_hex_def js_def parse_int16_def white_def strip_0x_def parse_hex_digits_def hex_value_def)

lemma from_hex_odd: "from_hex (js ''z'') = Inl OddLength"
  by (simp add: from_hex_def js_def)

lemma current_key_ringing: "current_call_key plain_frames (ringing_in (js ''ab'') room) = Inr (Some [0, 0xAB])"
  by (simp add: current_call_key_def ringing_in_def in_group_def from_hex_ab plain_frames_def new_view_def)


text \<open>A tick that comes while the room is being joined counts its key as handed over although there is no room to take it:
  the room opens under the key of the admission, and no later tick of that epoch replaces it.\<close>

lemma early_tick_keeps_old_key:
  assumes "current_call_key fr s = Inr (Some key)" and "ca_room (sx_calls s) = None"
    and "tick_session fr now later (s, in_use) = (es, s', in_use')"
    and "current_call_key fr t = Inr (Some key)" and "ca_room (sx_calls t) = Some r"
    and "tick_session fr now' later' (t, in_use') = (es', t', in_use'')"
  shows "ca_room (sx_calls t') = None \<or> room_keyed es' (Some (r, old)) = Some (r, old)"
proof -
  from assms(1-3) have "in_use' = Some key"
    by (auto simp: tick_session_def Let_def rekey_call_def split: prod.splits if_splits)
  with assms(4-6) show ?thesis using tick_call_room [of now' later' "sx_calls t" _ _ r old]
    by (auto simp: tick_session_def Let_def split: prod.splits)
qed

text \<open>Whoever invites chooses the id of the call, and nothing checks it: one that is not hexadecimal makes every tick throw
  before it looks at the clock, so that the device rings for good.\<close>

lemma bad_id_never_ticks:
  "cl_phase (ca_state (sx_calls s)) \<noteq> Idle \<Longrightarrow> map_of (sx_views s) (cl_group (ca_state (sx_calls s))) = Some v \<Longrightarrow>
   from_hex (cl_call (ca_state (sx_calls s))) = Inl e \<Longrightarrow> tick_session fr now later (s, k) = ([], s, k)"
  by (simp add: tick_session_def current_call_key_def)

lemma bad_id_rings_on:
  "let s = (in_group (js ''amy'') (js ''d2''))\<lparr>sx_calls := snd (receive_call 0 (js ''c1'') (js ''z'') (js ''bob'') no_calls)\<rparr>
   in cl_phase (ca_state (sx_calls s)) = Incoming \<and> tick_session fr now later (s, k) = ([], s, k)"
  by (simp add: tick_session_def current_call_key_def receive_call_def busy_def no_calls_def idle_call_def in_group_def from_hex_odd)

end
