(* ===== verification/Decisions.thy ===== *)
theory Decisions
  imports Flow Lock Names SignalSync Signalling Stores
begin

text \<open>
  What the user decides, from \<open>session.ts\<close>: the setters behind the settings screens, the lock screen, the petnames,
  the blocks. Each changes a store, writes the session, and, where the decision travels, tells the other devices of the
  account through every conversation. Each request and each write takes the next answer; the trace is what was asked,
  saved and told, in order. Also here: \<open>poll\<close>, which runs one sweep at a time.
\<close>

subsection \<open>The state, the answers and the trace\<close>

type_synonym saved = "sync_session \<times> trust_store \<times> preferences_store \<times> lockbox"

datatype happening =
    OptoutAsked bool
  | Saved saved
  | Told jsstr sync_session
  | Untold jsstr
  | Cleared

text \<open>\<open>se_rooms\<close> is the conversations, each with whether anybody else is in it (\<open>peers\<close>); \<open>se_own\<close> the preferences that
  stay on this device, \<open>se_repainted\<close> how many times every view was touched.\<close>

record steering =
  se_sync :: sync_session
  se_trust :: trust_store
  se_own :: preferences_store
  se_keeper :: keeper
  se_tracker :: tracker
  se_rooms :: "(jsstr \<times> bool) list"
  se_drafts :: "(jsstr \<times> jsstr) list"
  se_forgotten :: bool
  se_repainted :: nat
  se_answers :: "bool list"
  se_trace :: "happening list"

datatype deed_error =
    DiskFailed
  | ServerRefused
  | VaultKeyRefused
  | NameRefused display_name_error
  | LockRefused box_error
  | Unresolved
  | ClearFailed

type_synonym 'a deed_step = "(steering, deed_error, 'a) flow"

text \<open>What a session holds, apart from what it has asked and been answered.\<close>

definition held_part :: "steering \<Rightarrow> steering" where
  "held_part s = s\<lparr>se_answers := [], se_trace := []\<rparr>"

definition answered :: "bool deed_step" where
  "answered s =
     (case se_answers s of [] \<Rightarrow> (Inr False, s) | ok # later \<Rightarrow> (Inr ok, s\<lparr>se_answers := later\<rparr>))"

definition happens :: "happening \<Rightarrow> unit deed_step" where
  "happens h = move (\<lambda>s. s\<lparr>se_trace := se_trace s @ [h]\<rparr>)"

definition saved_of :: "steering \<Rightarrow> saved" where
  "saved_of s = (se_sync s, se_trust s, se_own s, kp_box (se_keeper s))"

text \<open>\<open>persist\<close>: a forgotten session writes nothing, and says nothing of it.\<close>

definition save_session :: "unit deed_step" where
  "save_session s =
     (if se_forgotten s then give () s
      else after answered (\<lambda>ok. if ok then happens (Saved (saved_of s)) else throw DiskFailed) s)"

text \<open>\<open>emitSignals\<close> in one room, and \<open>announceSignalsEverywhere\<close>, which swallows each failure.\<close>

definition tell_room :: "jsstr \<times> bool \<Rightarrow> unit deed_step" where
  "tell_room room s =
     (if \<not> snd room then give () s
      else after answered (\<lambda>ok. if ok then happens (Told (fst room) (se_sync s)) else seq (happens (Untold (fst room))) (throw ServerRefused)) s)"

definition tell_siblings :: "unit deed_step" where
  "tell_siblings = after (look se_rooms) (for_each (\<lambda>room. attempt (tell_room room)))"

definition decide_synced :: "(sync_session \<Rightarrow> sync_session) \<Rightarrow> unit deed_step" where
  "decide_synced f = seq (move (\<lambda>s. s\<lparr>se_sync := f (se_sync s)\<rparr>)) (seq save_session tell_siblings)"

subsection \<open>The decisions that travel\<close>

text \<open>\<open>setSignalSetting\<close>: presence is asked of the server first, and what was known is cleared once it agreed.\<close>

definition decide_setting :: "signal_key \<Rightarrow> bool \<Rightarrow> int \<Rightarrow> unit deed_step" where
  "decide_setting key v now =
     seq (provided (key = KeyPresence)
           (seq (happens (OptoutAsked (\<not> v)))
                (after answered (\<lambda>ok. if ok then move (\<lambda>s. s\<lparr>se_tracker := clear_tracker (se_tracker s)\<rparr>) else throw ServerRefused))))
         (decide_synced (\<lambda>y. the (set_signal_setting True key v now y)))"

definition decide_flags :: "jsstr \<Rightarrow> conversation_flags \<Rightarrow> int \<Rightarrow> unit deed_step" where
  "decide_flags room flags now = decide_synced (set_conversation_flags room flags now)"

definition decide_block :: "account \<Rightarrow> bool \<Rightarrow> int \<Rightarrow> unit deed_step" where
  "decide_block account blocked now = decide_synced (set_blocked account blocked now)"

definition decide_disclose :: "bool \<Rightarrow> int \<Rightarrow> unit deed_step" where
  "decide_disclose v now = decide_synced (set_disclose_name v now)"

text \<open>\<open>enableVault\<close>, whose key may be refused by WebCrypto, and \<open>disableVault\<close>.\<close>

definition enable_vault :: "bool \<Rightarrow> int \<Rightarrow> unit deed_step" where
  "enable_vault imported now =
     seq (demand imported VaultKeyRefused) (decide_synced (\<lambda>y. y\<lparr>sn_vault := True, sn_scalars_at := Some now\<rparr>))"

definition disable_vault :: "int \<Rightarrow> unit deed_step" where
  "disable_vault now = decide_synced (\<lambda>y. y\<lparr>sn_vault := False, sn_scalars_at := Some now\<rparr>)"

definition petname_decided :: "account \<Rightarrow> jsstr option \<Rightarrow> int \<Rightarrow> sync_session \<Rightarrow> sync_session" where
  "petname_decided account cleaned now y =
     y\<lparr>sn_petnames := (case cleaned of None \<Rightarrow> AList.delete account (sn_petnames y) | Some c \<Rightarrow> AList.update account c (sn_petnames y)),
       sn_petname_stamps := AList.update account now (sn_petname_stamps y)\<rparr>"

definition decide_petname :: "(jsstr \<Rightarrow> jsstr) \<Rightarrow> account \<Rightarrow> jsstr \<Rightarrow> int \<Rightarrow> unit deed_step" where
  "decide_petname nfc account name now =
     (case clean nfc name of
        Inl e \<Rightarrow> throw (NameRefused e)
      | Inr cleaned \<Rightarrow>
          seq (decide_synced (petname_decided account cleaned now)) (move (\<lambda>s. s\<lparr>se_repainted := Suc (se_repainted s)\<rparr>)))"

subsection \<open>The decisions that stay\<close>

definition verify_account_shown :: "account \<Rightarrow> jsstr \<Rightarrow> unit deed_step" where
  "verify_account_shown account fingerprint =
     seq (move (\<lambda>s. s\<lparr>se_trust := mark_verified account fingerprint (se_trust s)\<rparr>)) save_session"

text \<open>\<open>newDevicesOf\<close>, on the devices the account resolved to.\<close>

definition new_devices_of :: "account \<Rightarrow> jsstr list option \<Rightarrow> jsstr list deed_step" where
  "new_devices_of account resolved =
     (case resolved of
        None \<Rightarrow> throw Unresolved
      | Some ids \<Rightarrow>
          after (look (\<lambda>s. new_devices_in account ids (se_trust s))) (\<lambda>(fresh, t).
          seq (move (\<lambda>s. s\<lparr>se_trust := t\<rparr>)) (seq (provided (fresh \<noteq> []) save_session) (give fresh))))"

definition note_emoji_use :: "jsstr \<Rightarrow> unit deed_step" where
  "note_emoji_use emoji =
     after (look (\<lambda>s. note_emoji emoji (se_own s))) (\<lambda>(changed, p).
     seq (move (\<lambda>s. s\<lparr>se_own := p\<rparr>)) (provided changed save_session))"

definition change_preferences :: "(preferences \<Rightarrow> preferences) \<Rightarrow> unit deed_step" where
  "change_preferences f = seq (move (\<lambda>s. s\<lparr>se_own := update_preferences f (se_own s)\<rparr>)) save_session"

text \<open>The lock screen: the box first, then the write that seals under it. The biometric switches write nothing.\<close>

definition box_step :: "(keeper \<Rightarrow> box_error option \<times> keeper) \<Rightarrow> unit deed_step" where
  "box_step f =
     after (look (\<lambda>s. f (se_keeper s))) (\<lambda>(e, k).
     seq (move (\<lambda>s. s\<lparr>se_keeper := k\<rparr>)) (case e of None \<Rightarrow> give () | Some e \<Rightarrow> throw (LockRefused e)))"

definition enable_lock :: "'k lock_crypto \<Rightarrow> jsstr \<Rightarrow> bytes \<Rightarrow> bytes \<Rightarrow> bytes \<Rightarrow> unit deed_step" where
  "enable_lock c password salt iv fresh = seq (box_step (lock_enable c password salt iv fresh)) save_session"

definition disable_lock :: "'k lock_crypto \<Rightarrow> jsstr \<Rightarrow> bool \<Rightarrow> unit deed_step" where
  "disable_lock c password dropped = seq (box_step (lock_disable c password dropped)) save_session"

definition change_lock :: "'k lock_crypto \<Rightarrow> jsstr \<Rightarrow> jsstr \<Rightarrow> bytes \<Rightarrow> bytes \<Rightarrow> unit deed_step" where
  "change_lock c current new salt iv = seq (box_step (lock_change c current new salt iv)) save_session"

definition biometric_on :: "unit deed_step" where
  "biometric_on = box_step enable_biometric"

definition biometric_off :: "bool \<Rightarrow> unit deed_step" where
  "biometric_off dropped = box_step (disable_biometric dropped)"

text \<open>\<open>forget\<close>: nothing is written from here on.\<close>

definition forget_session :: "unit deed_step" where
  "forget_session =
     seq (move (\<lambda>s. s\<lparr>se_forgotten := True, se_sync := (se_sync s)\<lparr>sn_petnames := []\<rparr>\<rparr>))
         (after answered (\<lambda>ok. if ok then happens Cleared else throw ClearFailed))"

definition draft_in :: "steering \<Rightarrow> jsstr \<Rightarrow> jsstr" where
  "draft_in s room = (case map_of (se_drafts s) room of Some t \<Rightarrow> t | None \<Rightarrow> [])"

definition set_draft :: "jsstr \<Rightarrow> jsstr \<Rightarrow> unit deed_step" where
  "set_draft room t =
     move (\<lambda>s. s\<lparr>se_drafts := (if t = [] then AList.delete room (se_drafts s) else AList.update room t (se_drafts s))\<rparr>)"

subsection \<open>A session decides\<close>

datatype deed =
    SetSetting signal_key bool int
  | SetFlags jsstr conversation_flags int
  | SetBlocked account bool int
  | SetDisclosed bool int
  | VaultOn bool int
  | VaultOff int
  | SetPetname account jsstr int
  | VerifyAccount account jsstr
  | AskDevices account "jsstr list option"
  | UseEmoji jsstr
  | ChangeOwn "preferences \<Rightarrow> preferences"
  | EnableLock jsstr bytes bytes bytes
  | DisableLock jsstr bool
  | ChangeLock jsstr jsstr bytes bytes
  | BiometricOn
  | BiometricOff bool
  | SetDraft jsstr jsstr

fun perform :: "'k lock_crypto \<Rightarrow> (jsstr \<Rightarrow> jsstr) \<Rightarrow> deed \<Rightarrow> unit deed_step" where
  "perform c nfc (SetSetting key v now) = decide_setting key v now"
| "perform c nfc (SetFlags room flags now) = decide_flags room flags now"
| "perform c nfc (SetBlocked account blocked now) = decide_block account blocked now"
| "perform c nfc (SetDisclosed v now) = decide_disclose v now"
| "perform c nfc (VaultOn imported now) = enable_vault imported now"
| "perform c nfc (VaultOff now) = disable_vault now"
| "perform c nfc (SetPetname account name now) = decide_petname nfc account name now"
| "perform c nfc (VerifyAccount account fingerprint) = verify_account_shown account fingerprint"
| "perform c nfc (AskDevices account resolved) = seq (new_devices_of account resolved) (give ())"
| "perform c nfc (UseEmoji emoji) = note_emoji_use emoji"
| "perform c nfc (ChangeOwn f) = change_preferences f"
| "perform c nfc (EnableLock password salt iv fresh) = enable_lock c password salt iv fresh"
| "perform c nfc (DisableLock password dropped) = disable_lock c password dropped"
| "perform c nfc (ChangeLock current new salt iv) = change_lock c current new salt iv"
| "perform c nfc BiometricOn = biometric_on"
| "perform c nfc (BiometricOff dropped) = biometric_off dropped"
| "perform c nfc (SetDraft room t) = set_draft room t"

definition perform_all :: "'k lock_crypto \<Rightarrow> (jsstr \<Rightarrow> jsstr) \<Rightarrow> deed list \<Rightarrow> unit deed_step" where
  "perform_all c nfc = for_each (\<lambda>d. attempt (perform c nfc d))"

subsection \<open>What siblings are told is on the disk\<close>

text \<open>The last state saved, and a trace in which every state told is the last one saved.\<close>

fun last_saved :: "sync_session option \<Rightarrow> happening list \<Rightarrow> sync_session option" where
  "last_saved y [] = y"
| "last_saved y (Saved sv # hs) = last_saved (Some (fst sv)) hs"
| "last_saved y (_ # hs) = last_saved y hs"

fun told_as_saved :: "sync_session option \<Rightarrow> happening list \<Rightarrow> bool" where
  "told_as_saved y [] = True"
| "told_as_saved y (Saved sv # hs) = told_as_saved (Some (fst sv)) hs"
| "told_as_saved y (Told room z # hs) = (y = Some z \<and> told_as_saved y hs)"
| "told_as_saved y (_ # hs) = told_as_saved y hs"

lemma last_saved_snoc [simp]:
  "last_saved y (hs @ [h]) = (case h of Saved sv \<Rightarrow> Some (fst sv) | _ \<Rightarrow> last_saved y hs)"
  by (induction y hs rule: last_saved.induct) (auto split: happening.split)

lemma told_as_saved_snoc [simp]:
  "told_as_saved y (hs @ [h]) \<longleftrightarrow> told_as_saved y hs \<and> (case h of Told room z \<Rightarrow> last_saved y hs = Some z | _ \<Rightarrow> True)"
  by (induction y hs rule: told_as_saved.induct) (auto split: happening.split)

definition sound :: "steering \<Rightarrow> bool" where
  "sound s \<longleftrightarrow> \<not> se_forgotten s \<and> told_as_saved None (se_trace s)"

definition current :: "steering \<Rightarrow> bool" where
  "current s \<longleftrightarrow> sound s \<and> last_saved None (se_trace s) = Some (se_sync s)"

lemma keeps_answered: "(\<And>s as. I s \<Longrightarrow> I (s\<lparr>se_answers := as\<rparr>)) \<Longrightarrow> keeps I answered"
  by (rule keepsI) (auto simp: answered_def split: list.splits)

lemma sound_answered [flow_keeps]: "keeps sound answered"
  by (rule keeps_answered) (simp add: sound_def)

lemma current_answered [flow_keeps]: "keeps current answered"
  by (rule keeps_answered) (simp add: current_def sound_def)

lemma sound_move: "(\<And>s. se_trace (f s) = se_trace s \<and> se_forgotten (f s) = se_forgotten s) \<Longrightarrow> keeps sound (move f)"
  by (rule keeps_move) (simp add: sound_def)

lemma sound_asked [flow_keeps]: "keeps sound (happens (OptoutAsked b))"
  unfolding happens_def by (rule keeps_move) (simp add: sound_def)

lemma triple_save: "triple sound save_session (\<lambda>_. current) sound"
  unfolding triple_def save_session_def answered_def after_def happens_def move_def throw_def saved_of_def
  by (auto simp: current_def sound_def split: list.split)

lemma current_tell_room: "keeps current (tell_room room)"
  by (rule keepsI)
    (auto simp: tell_room_def answered_def after_def happens_def move_def throw_def give_def seq_def current_def sound_def
      split: if_splits list.splits)

lemma current_tell_siblings: "keeps current tell_siblings"
  unfolding tell_siblings_def by (intro flow_keeps current_tell_room)

lemma triple_decide: "triple sound (decide_synced f) (\<lambda>_. sound) sound"
proof -
  have w: "triple sound (seq save_session tell_siblings) (\<lambda>_. current) sound"
    by (rule triple_seq [OF triple_save], rule keeps_triple [OF current_tell_siblings]) (simp add: current_def)
  have "triple sound (seq (move (\<lambda>s. s\<lparr>se_sync := f (se_sync s)\<rparr>)) (seq save_session tell_siblings)) (\<lambda>_. current) sound"
    by (rule triple_seq [OF _ w]) (simp add: sound_def)
  then show ?thesis unfolding decide_synced_def by (rule triple_post) (simp_all add: current_def)
qed

lemma sound_decide [flow_keeps]: "keeps sound (decide_synced f)"
  unfolding keeps_def by (rule triple_decide)

lemma sound_save [flow_keeps]: "keeps sound save_session"
  unfolding keeps_def by (rule triple_post [OF triple_save]) (simp_all add: current_def)

lemma sound_box [flow_keeps]: "keeps sound (box_step f)"
  unfolding box_step_def by (auto intro!: flow_keeps sound_move split: prod.split)

lemmas deed_defs = decide_setting_def decide_flags_def decide_block_def decide_disclose_def enable_vault_def disable_vault_def
  decide_petname_def verify_account_shown_def new_devices_of_def note_emoji_use_def change_preferences_def enable_lock_def
  disable_lock_def change_lock_def biometric_on_def biometric_off_def set_draft_def

lemma sound_perform: "keeps sound (perform c nfc d)"
  by (cases d) (auto simp: deed_defs intro!: flow_keeps sound_move split: option.split sum.split prod.split)


text \<open>A session that decides three times, with a disk that fails once and a room that fails once.\<close>

definition steady :: steering where
  "steady =
     \<lparr>se_sync = started, se_trust = \<lparr>fingerprints = [], known_devices = []\<rparr>, se_own = \<lparr>ps_preferences = fresh_preferences, ps_disclose = False\<rparr>,
      se_keeper = \<lparr>kp_box = no_lockbox, kp_kept = None\<rparr>, se_tracker = no_tracker, se_rooms = [(js ''a'', True), (js ''b'', False), (js ''c'', True)],
      se_drafts = [], se_forgotten = False, se_repainted = 0, se_answers = [True, False, True, False, True, True, True], se_trace = []\<rparr>"


subsection \<open>A decision does not wait for its siblings\<close>

text \<open>What a round of announcements leaves in the trace, answer by answer.\<close>

fun tellings :: "sync_session \<Rightarrow> bool list \<Rightarrow> (jsstr \<times> bool) list \<Rightarrow> happening list" where
  "tellings y as [] = []"
| "tellings y as ((room, others) # rooms) =
     (if \<not> others then tellings y as rooms
      else case as of
        [] \<Rightarrow> Untold room # tellings y [] rooms
      | ok # later \<Rightarrow> (if ok then Told room y else Untold room) # tellings y later rooms)"

lemma tell_room_run:
  "tell_room (room, others) s =
     (if \<not> others then (Inr (), s)
      else case se_answers s of
        [] \<Rightarrow> (Inl ServerRefused, s\<lparr>se_trace := se_trace s @ [Untold room]\<rparr>)
      | ok # later \<Rightarrow>
          if ok then (Inr (), s\<lparr>se_answers := later, se_trace := se_trace s @ [Told room (se_sync s)]\<rparr>)
          else (Inl ServerRefused, s\<lparr>se_answers := later, se_trace := se_trace s @ [Untold room]\<rparr>))"
  by (auto simp: tell_room_def answered_def after_def happens_def move_def throw_def give_def seq_def split: list.split)

lemma for_each_attempt: "for_each (\<lambda>x. attempt (m x)) (x # xs) s = for_each (\<lambda>x. attempt (m x)) xs (snd (m x s))"
  by (simp add: seq_def after_def attempt_def)

lemma tell_rooms_run:
  "for_each (\<lambda>room. attempt (tell_room room)) rooms s =
     (Inr (), s\<lparr>se_answers := drop (length (filter snd rooms)) (se_answers s),
               se_trace := se_trace s @ tellings (se_sync s) (se_answers s) rooms\<rparr>)"
proof (induction rooms arbitrary: s)
  case Nil
  then show ?case by (simp add: give_def)
next
  case (Cons r rooms)
  obtain room others where r: "r = (room, others)" by (cases r)
  show ?case
    unfolding for_each_attempt Cons.IH by (cases "se_answers s") (auto simp: r tell_room_run)
qed

text \<open>A decision that travels is taken once it is on the disk: it then returns, holds, and every conversation with
  somebody else in it is tried exactly once with the decided state, in order, whichever of those announcements fail
  (\<open>setConversationFlags\<close>, \<open>setBlocked\<close>, \<open>setDiscloseConversationName\<close>, \<open>announceSignalsEverywhere\<close>).\<close>

theorem decision_waits_for_nobody:
  assumes "\<not> se_forgotten s" and "se_answers s = True # later"
  shows "decide_synced f s =
    (Inr (), s\<lparr>se_sync := f (se_sync s), se_answers := drop (length (filter snd (se_rooms s))) later,
       se_trace := se_trace s @ Saved (f (se_sync s), se_trust s, se_own s, kp_box (se_keeper s)) # tellings (f (se_sync s)) later (se_rooms s)\<rparr>)"
  using assms
  by (simp add: decide_synced_def seq_def after_def move_def save_session_def answered_def happens_def saved_of_def
      tell_siblings_def look_def tell_rooms_run)

lemma decision_waits_for_nobody_witness:
  "se_trace (snd (decide_block (js ''eve'') True 5 steady)) =
    (let y = set_blocked (js ''eve'') True 5 started in
     [Saved (y, \<lparr>fingerprints = [], known_devices = []\<rparr>, \<lparr>ps_preferences = fresh_preferences, ps_disclose = False\<rparr>, no_lockbox),
      Untold (js ''a''), Told (js ''c'') y])"
  unfolding decide_block_def
  using decision_waits_for_nobody [of steady "[False, True, False, True, True, True]" "set_blocked (js ''eve'') True 5"]
  by (simp add: steady_def Let_def)

subsection \<open>What was refused was not decided\<close>

text \<open>A step that leaves what is held, and asks at most for the presence of the account to be hidden.\<close>

fun asked_only :: "happening \<Rightarrow> bool" where
  "asked_only (OptoutAsked b) = True"
| "asked_only h = False"

lemma save_session_error: "save_session s = (Inl e, s') \<Longrightarrow> e = DiskFailed"
  by (auto simp: save_session_def answered_def after_def happens_def move_def throw_def give_def split: if_splits list.splits)

lemma tell_siblings_returns: "tell_siblings s \<noteq> (Inl e, s')"
  by (simp add: tell_siblings_def after_def look_def tell_rooms_run)

lemma seq_error: "seq m n s = (Inl e, s') \<longleftrightarrow> m s = (Inl e, s') \<or> (\<exists>a t. m s = (Inr a, t) \<and> n t = (Inl e, s'))"
  by (auto simp: seq_def after_def split: prod.splits sum.splits)

lemma decide_synced_error: "decide_synced f s = (Inl e, s') \<Longrightarrow> e = DiskFailed"
  by (auto simp: decide_synced_def seq_error move_def tell_siblings_returns dest: save_session_error)

lemma box_step_error: "box_step f s = (Inl e, s') \<Longrightarrow> \<exists>b. e = LockRefused b \<and> f (se_keeper s) = (Some b, se_keeper s')
    \<and> s' = s\<lparr>se_keeper := se_keeper s'\<rparr>"
  by (auto simp: box_step_def after_def look_def seq_def move_def give_def throw_def split: prod.splits option.splits)

lemma lock_refusals:
  "lock_enable c password salt iv fresh k = (Some b, k') \<Longrightarrow> k' = k"
  "lock_disable c password dropped k = (Some b, k') \<Longrightarrow> k' = k"
  "lock_change c was new salt iv k = (Some b, k') \<Longrightarrow> k' = k"
  "enable_biometric k = (Some b, k') \<Longrightarrow> k' = k"
  "disable_biometric dropped k = (Some b, k') \<Longrightarrow> k' = k"
  by (auto simp: lock_enable_def lock_disable_def lock_change_def enable_biometric_def disable_biometric_def drop_kept_def
      split: if_splits option.splits sum.splits prod.splits)

lemma seq_save_error: "seq (box_step f) save_session s = (Inl e, s') \<Longrightarrow> e \<noteq> DiskFailed \<Longrightarrow> box_step f s = (Inl e, s')"
  using save_session_error by (auto simp: seq_error)

text \<open>C18. A decision that is refused, by the server, by WebCrypto, by the rules of a name or by the lock, changes nothing the
  session holds, writes nothing and tells nobody; only a disk that fails leaves a decision in force
  (\<open>setSignalSetting\<close>, \<open>enableVault\<close>, \<open>setPetname\<close>, \<open>enableLock\<close>, \<open>disableLock\<close>, \<open>changeLockPassword\<close>).\<close>

theorem refused_changes_nothing:
  assumes "perform c nfc d s = (Inl e, s')" and "e \<noteq> DiskFailed"
  shows "held_part s' = held_part s \<and> list_all asked_only (drop (length (se_trace s)) (se_trace s'))"
proof -
  have box: "s' = s" if "box_step f s = (Inl e, s')" "\<And>b k'. f (se_keeper s) = (Some b, k') \<Longrightarrow> k' = se_keeper s" for f
    using box_step_error [OF that(1)] that(2) by fastforce
  show ?thesis
  proof (cases d)
    case (SetSetting key v now)
    with assms show ?thesis
      by (auto simp: decide_setting_def seq_error provided_def give_def happens_def move_def after_def answered_def throw_def
          held_part_def dest: decide_synced_error split: if_splits list.splits)
  next
    case (EnableLock password salt iv fresh)
    with assms have "box_step (lock_enable c password salt iv fresh) s = (Inl e, s')"
      by (auto simp: enable_lock_def dest: seq_save_error)
    then show ?thesis using box lock_refusals by fastforce
  next
    case (DisableLock password dropped)
    with assms have "box_step (lock_disable c password dropped) s = (Inl e, s')"
      by (auto simp: disable_lock_def dest: seq_save_error)
    then show ?thesis using box lock_refusals by fastforce
  next
    case (ChangeLock was new salt iv)
    with assms have "box_step (lock_change c was new salt iv) s = (Inl e, s')"
      by (auto simp: change_lock_def dest: seq_save_error)
    then show ?thesis using box lock_refusals by fastforce
  next
    case BiometricOn
    with assms show ?thesis using box lock_refusals by (fastforce simp: biometric_on_def)
  next
    case (BiometricOff dropped)
    with assms show ?thesis using box lock_refusals by (fastforce simp: biometric_off_def)
  qed (use assms in \<open>auto simp: deed_defs seq_error demand_def give_def throw_def move_def after_def look_def held_part_def provided_def
      dest: decide_synced_error save_session_error split: if_splits option.splits sum.splits prod.splits\<close>)
qed

text \<open>A presence the server would not hide, and a lock that is already set.\<close>

lemma refused_changes_nothing_witness:
  "(let s = steady\<lparr>se_answers := [False]\<rparr>; s' = snd (perform (undefined :: unit lock_crypto) (\<lambda>t. t) (SetSetting KeyPresence False 5) s)
    in held_part s' = held_part s \<and> list_all asked_only (drop (length (se_trace s)) (se_trace s')))"
proof -
  let ?s = "steady\<lparr>se_answers := [False]\<rparr>"
  have run: "perform (undefined :: unit lock_crypto) (\<lambda>t. t) (SetSetting KeyPresence False 5) ?s =
      (Inl ServerRefused, steady\<lparr>se_answers := [], se_trace := [OptoutAsked True]\<rparr>)"
    by (simp add: steady_def decide_setting_def seq_def after_def provided_def happens_def move_def answered_def throw_def)
  from refused_changes_nothing [OF run] show ?thesis
    unfolding Let_def run snd_conv by simp
qed

text \<open>The disk is the exception: the lock below reads as set, and nothing was sealed under it.\<close>

lemma unsaved_lock_reads_set:
  assumes "create_lock c password salt iv fresh = (envelope, master)"
  shows "(let (r, s) = perform c nfc (EnableLock password salt iv fresh) (steady\<lparr>se_answers := [False]\<rparr>)
    in r = Inl DiskFailed \<and> lb_envelope (kp_box (se_keeper s)) = Some envelope \<and> se_trace s = [])"
  using assms
  by (simp add: enable_lock_def seq_def after_def box_step_def look_def move_def lock_enable_def steady_def no_lockbox_def
      give_def save_session_def answered_def throw_def Let_def)

text \<open>A forgotten session writes nothing, and yet tells its siblings what is decided on it.\<close>

lemma forgotten_still_tells:
  "se_trace (snd (decide_synced f (steady\<lparr>se_forgotten := True, se_answers := [True, True]\<rparr>))) =
    [Told (js ''a'') (f started), Told (js ''c'') (f started)]"
  by (simp add: steady_def decide_synced_def seq_def after_def move_def save_session_def give_def tell_siblings_def look_def tell_rooms_run)

subsection \<open>A decision reaches the other devices\<close>

lemma absorbed_both:
  "snd (absorb_signals (Some (sig, Some p)) z) = snd (absorb_preferences p (snd (absorb_settings sig z)))"
  by (simp add: absorb_signals_def split_def Let_def)

lemma map_of_clamped: "map_of (map (\<lambda>(k, at, v). (k, g at, v)) xs) k = map_option (\<lambda>(at, v). (g at, v)) (map_of xs k)"
  by (induction xs) auto



subsection \<open>One sweep at a time\<close>

text \<open>\<open>poll\<close>: callers wait on the sweep in flight, or start one. A sweep that ends answers those that wait.\<close>

record poller =
  po_running :: bool
  po_waiting :: "nat list"
  po_started :: nat
  po_answered :: "(nat \<times> nat \<times> bool) list"

datatype poll_event = PollCalled nat | PollEnded bool

definition no_poll :: poller where
  "no_poll = \<lparr>po_running = False, po_waiting = [], po_started = 0, po_answered = []\<rparr>"

fun poll_event_step :: "poll_event \<Rightarrow> poller \<Rightarrow> poller" where
  "poll_event_step (PollCalled caller) p =
     (if po_running p then p\<lparr>po_waiting := po_waiting p @ [caller]\<rparr>
      else p\<lparr>po_running := True, po_waiting := [caller], po_started := Suc (po_started p)\<rparr>)"
| "poll_event_step (PollEnded ok) p =
     (if \<not> po_running p then p
      else p\<lparr>po_running := False, po_waiting := [],
             po_answered := po_answered p @ map (\<lambda>caller. (caller, po_started p, ok)) (po_waiting p)\<rparr>)"

definition polls :: "poll_event list \<Rightarrow> poller" where
  "polls es = fold poll_event_step es no_poll"

definition callers :: "poll_event list \<Rightarrow> nat list" where
  "callers es = List.map_filter (\<lambda>e. case e of PollCalled c \<Rightarrow> Some c | _ \<Rightarrow> None) es"

lemma polls_snoc: "polls (es @ [e]) = poll_event_step e (polls es)"
  by (simp add: polls_def)

lemma callers_snoc: "callers (es @ [e]) = callers es @ (case e of PollCalled c \<Rightarrow> [c] | _ \<Rightarrow> [])"
  by (simp add: callers_def map_filter_def split: poll_event.split)

text \<open>Sweeps never overlap, and nobody is forgotten: every call is answered once, in the order of the calls, by one
  sweep, all that wait by the same; when none is in flight nobody waits (\<open>session.ts\<close>, \<open>poll\<close>).\<close>

theorem one_sweep_at_a_time:
  "map fst (po_answered (polls es)) @ po_waiting (polls es) = callers es \<and>
   (po_running (polls es) = (po_waiting (polls es) \<noteq> [])) \<and>
   list_all (\<lambda>(caller, run, ok). run \<le> po_started (polls es) - (if po_running (polls es) then 1 else 0)) (po_answered (polls es)) \<and>
   sorted (map (fst \<circ> snd) (po_answered (polls es)))"
proof (induction es rule: rev_induct)
  case Nil
  then show ?case by (simp add: polls_def no_poll_def callers_def map_filter_def)
next
  case (snoc e es)
  then show ?case
    by (cases e) (auto simp: polls_snoc callers_snoc comp_def list_all_iff sorted_append split_def map_replicate_const)
qed

text \<open>What was announced while a sweep was in flight waits on that sweep, which may have read the conversation already.\<close>

lemma wake_up_shares_old_sweep:
  "po_answered (polls [PollCalled 1, PollCalled 2, PollEnded True]) = [(1, 1, True), (2, 1, True)]"
  by (simp add: polls_def no_poll_def)

end
