(* ===== verification/Disk.thy ===== *)
theory Disk
  imports Prelude
begin

text \<open>
  The writes of \<open>Session.persist\<close> (\<open>session.ts\<close>) beside the operations that run while one is on its way:
  \<open>composeStored\<close> (\<open>session-persist.ts\<close>) awaits three seals, so another operation may move the session, change
  the lock or forget the identity between two of them, and several writes may be on their way at once. The core
  (\<open>'c\<close>) stands for what is read before the first seal, the MLS state with its groups, the cursors and the
  snapshots; the thread (\<open>'t\<close>) for what is read after the second, the posting keys and the cached history; the
  key (\<open>'k\<close>) for the cipher of the lockbox, whose envelope is part of the core.
\<close>

subsection \<open>Writes\<close>

record ('c, 't, 'k) saved =
  sv_core :: 'c
  sv_lock :: 'k
  sv_seed_key :: 'k
  sv_state_key :: 'k
  sv_history_key :: 'k
  sv_thread :: 't

text \<open>A write by the seal it awaits; \<open>Composed\<close> is the call of \<open>store.save\<close>.\<close>

datatype ('c, 't, 'k) pending_write =
    SealsSeed 'c 'k 'k
  | SealsState 'c 'k 'k 'k
  | SealsHistory 'c 'k 'k 'k 'k 't
  | Composed "('c, 't, 'k) saved"

record ('c, 't, 'k) desk =
  dk_core :: 'c
  dk_thread :: 't
  dk_key :: 'k
  dk_forgotten :: bool
  dk_writes :: "('c, 't, 'k) pending_write list"
  dk_disk :: "('c, 't, 'k) saved option"

text \<open>
  What happens next: the session moves, the lockbox changes its key, \<open>persist\<close> is called, write \<open>i\<close> resolves or
  rejects what it awaits, \<open>forget\<close> raises its flag, and its \<open>store.clear\<close> lands.
\<close>

datatype ('c, 't, 'k) desk_event =
  Moves 'c 't | Rekeys 'k | Persists | Resolves nat | Rejects nat | Forgets | Clears

definition begin_write :: "('c, 't, 'k) desk \<Rightarrow> ('c, 't, 'k) desk" where
  "begin_write s =
     (if dk_forgotten s then s
      else s\<lparr>dk_writes := dk_writes s @ [SealsSeed (dk_core s) (dk_key s) (dk_key s)]\<rparr>)"

fun advance_write :: "('c, 't, 'k) desk \<Rightarrow> ('c, 't, 'k) pending_write \<Rightarrow> ('c, 't, 'k) pending_write option" where
  "advance_write s (SealsSeed c l k1) = Some (SealsState c l k1 (dk_key s))"
| "advance_write s (SealsState c l k1 k2) = Some (SealsHistory c l k1 k2 (dk_key s) (dk_thread s))"
| "advance_write s (SealsHistory c l k1 k2 k3 t) = Some (Composed \<lparr>sv_core = c, sv_lock = l, sv_seed_key = k1,
     sv_state_key = k2, sv_history_key = k3, sv_thread = t\<rparr>)"
| "advance_write s (Composed v) = None"

definition without_nth :: "nat \<Rightarrow> 'a list \<Rightarrow> 'a list" where
  "without_nth i xs = take i xs @ drop (Suc i) xs"

definition resolve_write :: "nat \<Rightarrow> ('c, 't, 'k) desk \<Rightarrow> ('c, 't, 'k) desk" where
  "resolve_write i s =
     (if i < length (dk_writes s) then
        case dk_writes s ! i of
          Composed v \<Rightarrow> s\<lparr>dk_disk := Some v, dk_writes := without_nth i (dk_writes s)\<rparr>
        | w \<Rightarrow> s\<lparr>dk_writes := (dk_writes s)[i := the (advance_write s w)]\<rparr>
      else s)"

fun desk_step :: "('c, 't, 'k) desk_event \<Rightarrow> ('c, 't, 'k) desk \<Rightarrow> ('c, 't, 'k) desk" where
  "desk_step (Moves c t) s = s\<lparr>dk_core := c, dk_thread := t\<rparr>"
| "desk_step (Rekeys k) s = s\<lparr>dk_key := k\<rparr>"
| "desk_step Persists s = begin_write s"
| "desk_step (Resolves i) s = resolve_write i s"
| "desk_step (Rejects i) s = s\<lparr>dk_writes := without_nth i (dk_writes s)\<rparr>"
| "desk_step Forgets s = s\<lparr>dk_forgotten := True\<rparr>"
| "desk_step Clears s = s\<lparr>dk_disk := None\<rparr>"

definition desk_run :: "('c, 't, 'k) desk_event list \<Rightarrow> ('c, 't, 'k) desk \<Rightarrow> ('c, 't, 'k) desk" where
  "desk_run es s = fold desk_step es s"

lemma set_without_nth: "set (without_nth i xs) \<subseteq> set xs"
  by (auto simp: without_nth_def dest: in_set_takeD in_set_dropD)

lemma without_nth_Nil [simp]: "without_nth i [] = []"
  by (simp add: without_nth_def)

lemma desk_run_Nil [simp]: "desk_run [] s = s"
  by (simp add: desk_run_def)

lemma desk_run_Cons [simp]: "desk_run (e # es) s = desk_run es (desk_step e s)"
  by (simp add: desk_run_def)

lemma desk_run_append [simp]: "desk_run (es @ fs) s = desk_run fs (desk_run es s)"
  by (simp add: desk_run_def)

lemma desk_run_keeps: "(\<And>e s. e \<in> set es \<Longrightarrow> I s \<Longrightarrow> I (desk_step e s)) \<Longrightarrow> I s \<Longrightarrow> I (desk_run es s)"
  by (induction es arbitrary: s) simp_all

subsection \<open>Forgetting\<close>

text \<open>Nothing on its way, nothing to come: the erased disk stays erased.\<close>

lemma quiet_desk_step:
  "dk_forgotten s \<and> dk_writes s = [] \<Longrightarrow> dk_forgotten (desk_step e s) \<and> dk_writes (desk_step e s) = []"
  by (cases e) (simp_all add: begin_write_def resolve_write_def)

lemma erased_desk_step:
  "dk_forgotten s \<and> dk_writes s = [] \<and> dk_disk s = None \<Longrightarrow>
   dk_forgotten (desk_step e s) \<and> dk_writes (desk_step e s) = [] \<and> dk_disk (desk_step e s) = None"
  by (cases e) (simp_all add: begin_write_def resolve_write_def)

text \<open>Once \<open>forget\<close> has raised its flag with no write on its way and its erasure has landed, nothing that runs
  later, before or after the erasure, brings the identity back (\<open>session.ts\<close>, \<open>forget\<close> and \<open>persist\<close>).\<close>

theorem forgotten_stays_erased:
  assumes "dk_writes s = []"
  shows "dk_disk (desk_run (Forgets # es @ Clears # fs) s) = None"
proof -
  let ?f = "desk_run es (desk_step Forgets s)"
  have "dk_forgotten ?f \<and> dk_writes ?f = []"
    by (rule desk_run_keeps) (auto simp: quiet_desk_step assms)
  then have "dk_forgotten (desk_step Clears ?f) \<and> dk_writes (desk_step Clears ?f) = [] \<and> dk_disk (desk_step Clears ?f) = None"
    by simp
  then have "dk_forgotten (desk_run fs (desk_step Clears ?f)) \<and> dk_writes (desk_run fs (desk_step Clears ?f)) = []
      \<and> dk_disk (desk_run fs (desk_step Clears ?f)) = None"
    by (intro desk_run_keeps [where I = "\<lambda>s. dk_forgotten s \<and> dk_writes s = [] \<and> dk_disk s = None"])
      (auto simp: erased_desk_step)
  then show ?thesis by simp
qed

fun seals_left :: "('c, 't, 'k) pending_write \<Rightarrow> nat" where
  "seals_left (SealsSeed c l k) = 3"
| "seals_left (SealsState c l k k') = 2"
| "seals_left (SealsHistory c l k k' k'' t) = 1"
| "seals_left (Composed v) = 0"

fun core_of_write :: "('c, 't, 'k) pending_write \<Rightarrow> 'c" where
  "core_of_write (SealsSeed c l k) = c"
| "core_of_write (SealsState c l k k') = c"
| "core_of_write (SealsHistory c l k k' k'' t) = c"
| "core_of_write (Composed v) = sv_core v"

lemma write_lands:
  "i < length (dk_writes s) \<Longrightarrow>
   \<exists>v. dk_disk (desk_run (replicate (Suc (seals_left (dk_writes s ! i))) (Resolves i)) s) = Some v
     \<and> sv_core v = core_of_write (dk_writes s ! i)"
proof (induction "seals_left (dk_writes s ! i)" arbitrary: s)
  case 0
  then obtain v where "dk_writes s ! i = Composed v" by (cases "dk_writes s ! i") auto
  with 0(2) show ?case by (simp add: resolve_write_def)
next
  case (Suc n)
  let ?w = "dk_writes s ! i" and ?s = "resolve_write i s"
  obtain w where w: "advance_write s ?w = Some w" "seals_left w = n" "core_of_write w = core_of_write ?w"
    and s: "?s = s\<lparr>dk_writes := (dk_writes s)[i := w]\<rparr>"
    using Suc.hyps(2) Suc.prems by (cases ?w) (auto simp: resolve_write_def)
  have at: "i < length (dk_writes ?s)" "dk_writes ?s ! i = w" using Suc.prems by (simp_all add: s)
  from Suc.hyps(1) [of ?s] at w show ?case by (simp add: Suc.hyps(2) [symmetric])
qed

text \<open>A write on its way when \<open>forget\<close> is called is not condemned by its flag: it lands after the erasure, and the
  identity is back on the disk (\<open>session.ts\<close>, \<open>persist\<close> reads the flag once, before its seals).\<close>

theorem write_outlives_forget:
  assumes "i < length (dk_writes s)"
  shows "\<exists>v. dk_disk (desk_run (Forgets # Clears # replicate (Suc (seals_left (dk_writes s ! i))) (Resolves i)) s) = Some v
     \<and> sv_core v = core_of_write (dk_writes s ! i)"
  using write_lands [of i "desk_step Clears (desk_step Forgets s)"] assms by simp

definition plain_desk :: "(nat, nat, nat) desk" where
  "plain_desk = \<lparr>dk_core = 1, dk_thread = 1, dk_key = 0, dk_forgotten = False, dk_writes = [], dk_disk = None\<rparr>"

lemma forgotten_stays_erased_witness:
  "dk_disk (desk_run [Persists, Resolves 0, Resolves 0, Resolves 0, Resolves 0] plain_desk) \<noteq> None
   \<and> dk_disk (desk_run (Forgets # [Persists, Resolves 0] @ Clears # [Persists, Resolves 0, Resolves 0, Resolves 0, Resolves 0])
       (desk_run [Persists, Resolves 0, Resolves 0, Resolves 0, Resolves 0] plain_desk)) = None"
proof -
  let ?s = "desk_run [Persists, Resolves 0, Resolves 0, Resolves 0, Resolves 0] plain_desk"
  have "dk_writes ?s = []" "dk_disk ?s \<noteq> None"
    by (simp_all add: plain_desk_def begin_write_def resolve_write_def without_nth_def)
  with forgotten_stays_erased [of ?s "[Persists, Resolves 0]" "[Persists, Resolves 0, Resolves 0, Resolves 0, Resolves 0]"]
  show ?thesis by (simp del: desk_step.simps)
qed

lemma write_outlives_forget_witness:
  "dk_disk (desk_run [Persists, Forgets, Clears, Resolves 0, Resolves 0, Resolves 0, Resolves 0] plain_desk) \<noteq> None"
  using write_outlives_forget [of 0 "desk_step Persists plain_desk"]
  by (auto simp: plain_desk_def begin_write_def eval_nat_numeral)

subsection \<open>One key\<close>

text \<open>What the next start can open: the three seals are of the key its lock envelope yields.\<close>

definition opens_all :: "('c, 't, 'k) saved \<Rightarrow> bool" where
  "opens_all v \<longleftrightarrow> sv_seed_key v = sv_lock v \<and> sv_state_key v = sv_lock v \<and> sv_history_key v = sv_lock v"

text \<open>The lockbox changes its key only while no write is on its way.\<close>

fun calm :: "('c, 't, 'k) desk_event list \<Rightarrow> ('c, 't, 'k) desk \<Rightarrow> bool" where
  "calm [] s = True"
| "calm (e # es) s = ((case e of Rekeys k \<Rightarrow> dk_writes s = [] | _ \<Rightarrow> True) \<and> calm es (desk_step e s))"

fun keyed :: "'k \<Rightarrow> ('c, 't, 'k) pending_write \<Rightarrow> bool" where
  "keyed k (SealsSeed c l k1) \<longleftrightarrow> l = k \<and> k1 = k"
| "keyed k (SealsState c l k1 k2) \<longleftrightarrow> l = k \<and> k1 = k \<and> k2 = k"
| "keyed k (SealsHistory c l k1 k2 k3 t) \<longleftrightarrow> l = k \<and> k1 = k \<and> k2 = k \<and> k3 = k"
| "keyed k (Composed v) \<longleftrightarrow> sv_lock v = k \<and> opens_all v"

definition one_key :: "('c, 't, 'k) desk \<Rightarrow> bool" where
  "one_key s \<longleftrightarrow> list_all (keyed (dk_key s)) (dk_writes s) \<and> (\<forall>v. dk_disk s = Some v \<longrightarrow> opens_all v)"

lemma list_all_without_nth: "list_all P xs \<Longrightarrow> list_all P (without_nth i xs)"
  unfolding list_all_iff using set_without_nth by fast

lemma advance_keyed: "keyed (dk_key s) w \<Longrightarrow> advance_write s w = Some w' \<Longrightarrow> keyed (dk_key s) w'"
  by (cases w) (auto simp: opens_all_def)

lemma resolve_one_key: "one_key s \<Longrightarrow> one_key (resolve_write i s)"
proof (cases "i < length (dk_writes s)")
  case True
  assume one: "one_key s"
  with True have w: "keyed (dk_key s) (dk_writes s ! i)" by (simp add: one_key_def list_all_length)
  show ?thesis
  proof (cases "advance_write s (dk_writes s ! i)")
    case None
    then obtain v where "dk_writes s ! i = Composed v" by (cases "dk_writes s ! i") auto
    with w one True show ?thesis by (simp add: resolve_write_def one_key_def list_all_without_nth)
  next
    case (Some w')
    then have "resolve_write i s = s\<lparr>dk_writes := (dk_writes s)[i := w']\<rparr>"
      using True by (cases "dk_writes s ! i") (simp_all add: resolve_write_def)
    moreover have "keyed (dk_key s) w'" by (rule advance_keyed [OF w Some])
    ultimately show ?thesis
      using one True unfolding one_key_def list_all_iff by (auto dest: set_update_subset_insert [THEN subsetD])
  qed
qed (simp add: resolve_write_def)

lemma desk_step_one_key:
  "one_key s \<Longrightarrow> (case e of Rekeys k \<Rightarrow> dk_writes s = [] | _ \<Rightarrow> True) \<Longrightarrow> one_key (desk_step e s)"
proof (cases e)
  case (Resolves i)
  then show "one_key s \<Longrightarrow> ?thesis" by (simp add: resolve_one_key)
qed (auto simp: one_key_def begin_write_def list_all_without_nth)

text \<open>C25. While the lock changes only between two writes, whatever reaches the disk can be opened by the next start:
  its seed, state and history are sealed under the key of the envelope written beside them
  (\<open>session.ts\<close>, \<open>persist\<close>; \<open>session-persist.ts\<close>, \<open>composeStored\<close>).\<close>

theorem disk_opens:
  assumes "one_key s" and "calm es s"
  shows "one_key (desk_run es s)"
  using assms by (induction es arbitrary: s) (simp_all add: desk_step_one_key)

lemma disk_opens_witness:
  "one_key (desk_run [Persists, Resolves 0, Moves 2 2, Persists, Resolves 0, Resolves 1, Resolves 0, Resolves 0,
     Resolves 0, Resolves 0, Resolves 0, Rekeys 5, Persists, Resolves 0] plain_desk)"
  by (rule disk_opens)
    (simp_all add: plain_desk_def one_key_def begin_write_def resolve_write_def without_nth_def)

text \<open>A lock set while a write awaits its first seal leaves the disk, between that write and the next, with a state
  sealed under the new key beside no envelope for it: the next start cannot open it
  (\<open>session-persist.ts\<close>, \<open>composeStored\<close> seals with the cipher of the moment).\<close>

theorem lock_set_mid_write:
  assumes "dk_writes s = []" and "\<not> dk_forgotten s" and "k \<noteq> dk_key s"
  shows "\<exists>v. dk_disk (desk_run [Persists, Rekeys k, Resolves 0, Resolves 0, Resolves 0, Resolves 0] s) = Some v
    \<and> sv_lock v = dk_key s \<and> sv_state_key v = k \<and> \<not> opens_all v"
  using assms by (simp add: begin_write_def resolve_write_def opens_all_def)

lemma lock_set_mid_write_witness:
  "\<exists>v. dk_disk (desk_run [Persists, Rekeys 7, Resolves 0, Resolves 0, Resolves 0, Resolves 0] plain_desk) = Some v \<and> \<not> opens_all v"
  using lock_set_mid_write [of plain_desk 7] by (fastforce simp: plain_desk_def)

subsection \<open>One moment\<close>

text \<open>
  The core and the thread counted by the messages they account for: a session that absorbs moves both
  together, and never back.
\<close>

fun rising :: "(nat, nat, 'k) desk_event list \<Rightarrow> nat \<Rightarrow> bool" where
  "rising [] n = True"
| "rising (Moves c t # es) n = (t = c \<and> n \<le> c \<and> rising es c)"
| "rising (_ # es) n = rising es n"

fun thread_ahead :: "nat \<Rightarrow> (nat, nat, 'k) pending_write \<Rightarrow> bool" where
  "thread_ahead n (SealsHistory c l k1 k2 k3 t) \<longleftrightarrow> c \<le> t"
| "thread_ahead n (Composed v) \<longleftrightarrow> sv_core v \<le> sv_thread v"
| "thread_ahead n w \<longleftrightarrow> core_of_write w \<le> n"

definition in_step :: "(nat, nat, 'k) desk \<Rightarrow> bool" where
  "in_step s \<longleftrightarrow> dk_thread s = dk_core s \<and> list_all (thread_ahead (dk_core s)) (dk_writes s)
     \<and> (\<forall>v. dk_disk s = Some v \<longrightarrow> sv_core v \<le> sv_thread v)"

lemma thread_ahead_mono: "thread_ahead n w \<Longrightarrow> n \<le> m \<Longrightarrow> thread_ahead m w"
  by (cases w) simp_all

lemma advance_thread_ahead:
  "thread_ahead (dk_core s) w \<Longrightarrow> dk_thread s = dk_core s \<Longrightarrow> advance_write s w = Some w' \<Longrightarrow> thread_ahead (dk_core s) w'"
  by (cases w) auto

lemma resolve_in_step: "in_step s \<Longrightarrow> in_step (resolve_write i s)"
proof (cases "i < length (dk_writes s)")
  case True
  assume one: "in_step s"
  with True have w: "thread_ahead (dk_core s) (dk_writes s ! i)" by (simp add: in_step_def list_all_length)
  show ?thesis
  proof (cases "advance_write s (dk_writes s ! i)")
    case None
    then obtain v where "dk_writes s ! i = Composed v" by (cases "dk_writes s ! i") auto
    with w one True show ?thesis by (simp add: resolve_write_def in_step_def list_all_without_nth)
  next
    case (Some w')
    then have "resolve_write i s = s\<lparr>dk_writes := (dk_writes s)[i := w']\<rparr>"
      using True by (cases "dk_writes s ! i") (simp_all add: resolve_write_def)
    moreover have "thread_ahead (dk_core s) w'"
      using one advance_thread_ahead [OF w _ Some] by (simp add: in_step_def)
    ultimately show ?thesis
      using one True unfolding in_step_def list_all_iff by (auto dest: set_update_subset_insert [THEN subsetD])
  qed
qed (simp add: resolve_write_def)

lemma desk_step_in_step:
  assumes "in_step s" and "rising (e # es) (dk_core s)"
  shows "in_step (desk_step e s) \<and> rising es (dk_core (desk_step e s))"
proof (cases e)
  case (Moves c t)
  with assms have "list_all (thread_ahead c) (dk_writes s)"
    by (auto simp: in_step_def list_all_iff intro: thread_ahead_mono)
  with assms Moves show ?thesis by (simp add: in_step_def)
next
  case (Resolves i)
  moreover have "dk_core (resolve_write i s) = dk_core s"
    by (auto simp: resolve_write_def split: pending_write.splits)
  ultimately show ?thesis using assms by (simp add: resolve_in_step)
qed (use assms in \<open>auto simp: in_step_def begin_write_def list_all_without_nth\<close>)

text \<open>However writes and absorbed messages interleave, no write that reaches the disk holds a cursor ahead of its
  thread: a restart may read a message again and never misses one the cursor has passed (\<open>session-persist.ts\<close>,
  \<open>composeStored\<close> reads the cursors first and the thread last).\<close>

theorem saved_thread_not_behind:
  assumes "in_step s" and "rising es (dk_core s)" and "dk_disk (desk_run es s) = Some v"
  shows "sv_core v \<le> sv_thread v"
proof -
  have "in_step (desk_run es s)"
    using assms(1,2)
  proof (induction es arbitrary: s)
    case (Cons e es)
    from Cons.IH desk_step_in_step [OF Cons.prems] show ?case by simp
  qed simp
  with assms(3) show ?thesis by (simp add: in_step_def)
qed

text \<open>And the pair need not be of one moment: a message absorbed between two seals is in the thread and not in the cursor.\<close>

definition torn_write :: "(nat, nat, nat) desk_event list" where
  "torn_write = [Persists, Moves 2 2, Resolves 0, Resolves 0, Resolves 0, Resolves 0]"

lemma saved_thread_not_behind_witness:
  "\<exists>v. dk_disk (desk_run torn_write plain_desk) = Some v \<and> sv_core v = 1 \<and> sv_thread v = 2 \<and> sv_core v \<le> sv_thread v"
proof -
  obtain v where v: "dk_disk (desk_run torn_write plain_desk) = Some v" "sv_core v = 1" "sv_thread v = 2"
    by (simp add: torn_write_def plain_desk_def begin_write_def resolve_write_def)
  moreover have "in_step plain_desk" "rising torn_write (dk_core plain_desk)"
    by (simp_all add: plain_desk_def in_step_def torn_write_def)
  ultimately show ?thesis using saved_thread_not_behind by blast
qed

end
