(* ===== verification/Doors.thy ===== *)
theory Doors
  imports Gateway Naming
begin

text \<open>
  The way into a session: the gates of \<open>App.tsx\<close> (\<open>Boot\<close>), the lock screen (\<open>Lock.tsx\<close>, \<open>Unlock\<close>), what closes a
  locked session again (\<open>Frame\<close>), and the first screen in the mode that creates an account (\<open>Onboarding.tsx\<close>,
  \<open>enrol\<close>). A machine for the gates, whose
  events are the promises that settle and what the screens call back; a session and a proposed migration are numbers.
\<close>

subsection \<open>The gates\<close>

text \<open>What \<open>start\<close> gives back: a session, a migration to propose, the reason there is none; or how it failed.\<close>

datatype start_answer =
    Started "nat option" "nat option" "jsstr option"
  | StateTooOld
  | StateUnreadable

text \<open>\<open>bt_checking\<close>: \<open>Session.isLocked\<close> is awaited; \<open>bt_starting\<close>: \<open>start\<close> is. \<open>bt_reads\<close> counts what was begun of either.\<close>

record boot =
  bt_busy :: bool
  bt_alone :: "bool option"
  bt_locked :: bool
  bt_session :: "nat option"
  bt_migration :: "nat option"
  bt_fallback :: "jsstr option"
  bt_error :: "bool option"
  bt_checking :: bool
  bt_starting :: bool
  bt_reads :: nat

datatype boot_event =
    ClaimSettled bool
  | LockRead "bool option"
  | StartSettled start_answer
  | UnlockSettled start_answer
  | Enrolled nat
  | Relocked
  | MigrationDone nat
  | FallbackDismissed

text \<open>Both effects of the mount have run: the tab is claimed and the lock is being read.\<close>

definition mounted :: boot where
  "mounted = \<lparr>bt_busy = True, bt_alone = None, bt_locked = False, bt_session = None, bt_migration = None, bt_fallback = None,
     bt_error = None, bt_checking = True, bt_starting = False, bt_reads = 1\<rparr>"

text \<open>\<open>bt_error\<close>: whether what is said is that the state is too old.\<close>

fun started_with :: "start_answer \<Rightarrow> boot \<Rightarrow> boot" where
  "started_with (Started s m f) b =
     b\<lparr>bt_busy := False, bt_session := s, bt_migration := (if m = None then bt_migration b else m),
       bt_fallback := (if f = None then bt_fallback b else f)\<rparr>"
| "started_with StateTooOld b = b\<lparr>bt_busy := False, bt_error := Some True\<rparr>"
| "started_with StateUnreadable b = b\<lparr>bt_busy := False, bt_error := Some False\<rparr>"

text \<open>\<open>Unlock\<close>: an error is a wrong password, and a \<open>start\<close> that found no session says nothing; then \<open>onUnlocked\<close>.\<close>

definition unlock_refused :: "start_answer \<Rightarrow> bool" where
  "unlock_refused a \<longleftrightarrow> (case a of Started _ _ _ \<Rightarrow> False | _ \<Rightarrow> True)"

definition unlocked_with :: "start_answer \<Rightarrow> boot \<Rightarrow> boot" where
  "unlocked_with a b =
     (case a of
        Started (Some s) m f \<Rightarrow>
          b\<lparr>bt_session := Some s, bt_migration := (if m = None then bt_migration b else m), bt_locked := False\<rparr>
      | _ \<Rightarrow> b)"

fun boot_step :: "boot_event \<Rightarrow> boot \<Rightarrow> boot" where
  "boot_step (ClaimSettled held) b = (if bt_alone b = None then b\<lparr>bt_alone := Some held\<rparr> else b)"
| "boot_step (LockRead answer) b =
     (if \<not> bt_checking b then b
      else (case answer of
          None \<Rightarrow> b\<lparr>bt_checking := False, bt_busy := False, bt_error := Some False\<rparr>
        | Some True \<Rightarrow> b\<lparr>bt_checking := False, bt_busy := False, bt_locked := True, bt_session := None\<rparr>
        | Some False \<Rightarrow> b\<lparr>bt_checking := False, bt_starting := True, bt_reads := Suc (bt_reads b)\<rparr>))"
| "boot_step (StartSettled answer) b = (if bt_starting b then started_with answer (b\<lparr>bt_starting := False\<rparr>) else b)"
| "boot_step (UnlockSettled answer) b = unlocked_with answer b"
| "boot_step (Enrolled s) b = b\<lparr>bt_session := Some s\<rparr>"
| "boot_step Relocked b = b\<lparr>bt_session := None, bt_locked := True\<rparr>"
| "boot_step (MigrationDone s) b = b\<lparr>bt_migration := None, bt_session := Some s\<rparr>"
| "boot_step FallbackDismissed b = b\<lparr>bt_fallback := None\<rparr>"

definition boot_run :: "boot_event list \<Rightarrow> boot \<Rightarrow> boot" where
  "boot_run es b = fold boot_step es b"

datatype gate = Loading | AlreadyOpen | LockScreen | FirstScreen | Running nat

definition shown_gate :: "boot \<Rightarrow> gate" where
  "shown_gate b =
     (if bt_busy b \<or> bt_alone b = None then Loading
      else if bt_alone b = Some False then AlreadyOpen
      else case bt_session b of
        None \<Rightarrow> if bt_locked b then LockScreen else FirstScreen
      | Some s \<Rightarrow> Running s)"

subsection \<open>What locks a session again\<close>

text \<open>\<open>Frame\<close> reads \<open>session.locked\<close> when a device resumes; the watch for a device left alone is armed by the effect of the
  mount, which runs again for another session only.\<close>

record watch =
  wt_locked :: bool
  wt_armed :: bool

datatype watch_event = LockSet | LockRemoved | LeftAlone | Resumed int

definition watch_mounted :: "bool \<Rightarrow> watch" where
  "watch_mounted locked = \<lparr>wt_locked = locked, wt_armed = locked\<rparr>"

fun watch_step :: "watch_event \<Rightarrow> watch \<Rightarrow> bool \<times> watch" where
  "watch_step LockSet w = (False, w\<lparr>wt_locked := True\<rparr>)"
| "watch_step LockRemoved w = (False, w\<lparr>wt_locked := False\<rparr>)"
| "watch_step LeftAlone w = (wt_armed w, w)"
| "watch_step (Resumed away) w = (wt_locked w \<and> away > relock_ms, w)"

fun relocks :: "watch_event list \<Rightarrow> watch \<Rightarrow> bool list" where
  "relocks [] w = []"
| "relocks (e # es) w = (case watch_step e w of (now, w') \<Rightarrow> now # relocks es w')"

subsection \<open>The first screen\<close>

definition max_suggestions :: nat where "max_suggestions = 3"

text \<open>The answer to a creation: the phrase and whether the name was recorded after it, a handle that is taken, or a failure.\<close>

datatype create_answer = AccountMade jsstr bool | HandleTaken | CreateFailed

text \<open>\<open>en_random\<close> is what \<open>draw\<close> will give, scaled as \<open>suggest\<close> scales it, \<open>en_drawn\<close> how many were drawn.
  \<open>en_claims\<close> are the handles asked for, \<open>en_made\<close> the accounts there are of it.\<close>

record enrolment =
  en_name :: jsstr
  en_custom :: bool
  en_seed :: nat
  en_offered :: nat
  en_alternative :: "jsstr option"
  en_phrase :: "jsstr option"
  en_failed :: bool
  en_busy :: bool
  en_random :: "nat \<Rightarrow> nat"
  en_drawn :: nat
  en_answers :: "create_answer list"
  en_claims :: "jsstr list"
  en_made :: "jsstr list"

definition derived_handle :: "(jsstr \<Rightarrow> jsstr) \<Rightarrow> (jsstr \<Rightarrow> jsstr) \<Rightarrow> enrolment \<Rightarrow> jsstr" where
  "derived_handle nfkc lower s = suggest nfkc lower (en_name s) (en_seed s)"

definition next_answer_of :: "enrolment \<Rightarrow> create_answer \<times> enrolment" where
  "next_answer_of s = (case en_answers s of [] \<Rightarrow> (CreateFailed, s) | a # as \<Rightarrow> (a, s\<lparr>en_answers := as\<rparr>))"

definition claimed :: "jsstr \<Rightarrow> enrolment \<Rightarrow> enrolment" where
  "claimed claiming s = s\<lparr>en_busy := True, en_alternative := None, en_claims := en_claims s @ [claiming]\<rparr>"

definition offer_alternative :: "(jsstr \<Rightarrow> jsstr) \<Rightarrow> (jsstr \<Rightarrow> jsstr) \<Rightarrow> jsstr \<Rightarrow> enrolment \<Rightarrow> enrolment" where
  "offer_alternative nfkc lower claiming s =
     s\<lparr>en_alternative := Some (suggest nfkc lower claiming (en_random s (en_drawn s))),
       en_drawn := Suc (en_drawn s), en_offered := Suc (en_offered s)\<rparr>"

function enrol :: "(jsstr \<Rightarrow> jsstr) \<Rightarrow> (jsstr \<Rightarrow> jsstr) \<Rightarrow> jsstr \<Rightarrow> nat \<Rightarrow> enrolment \<Rightarrow> enrolment" where
  "enrol nfkc lower claiming tried s =
     (case next_answer_of (claimed claiming s) of
        (AccountMade phrase named, s) \<Rightarrow>
          (let s = s\<lparr>en_made := en_made s @ [claiming]\<rparr>
           in if named then s\<lparr>en_phrase := Some phrase, en_busy := False\<rparr> else s\<lparr>en_failed := True, en_busy := False\<rparr>)
      | (CreateFailed, s) \<Rightarrow> s\<lparr>en_failed := True, en_busy := False\<rparr>
      | (HandleTaken, s) \<Rightarrow>
          if \<not> en_custom s \<and> tried < max_suggestions
          then (let next = en_random s (en_drawn s) in
             enrol nfkc lower (suggest nfkc lower (en_name s) next) (Suc tried)
               (s\<lparr>en_seed := next, en_drawn := Suc (en_drawn s), en_busy := False\<rparr>))
          else (if en_custom s \<and> en_offered s < max_suggestions then offer_alternative nfkc lower claiming s else s)
            \<lparr>en_failed := True, en_busy := False\<rparr>)"
  by pat_completeness auto

termination
  by (relation "measure (\<lambda>(nfkc, lower, claiming, tried, s). max_suggestions - tried)") auto

declare enrol.simps [simp del]

subsection \<open>A door that was shut stays shut\<close>

lemma boot_run_append: "boot_run (es @ es') b = boot_run es' (boot_run es b)"
  by (simp add: boot_run_def)

lemma boot_run_Nil: "boot_run [] b = b"
  by (simp add: boot_run_def)

lemma boot_run_Cons: "boot_run (e # es) b = boot_run es (boot_step e b)"
  by (simp add: boot_run_def)

text \<open>What is awaited at the start keeps the screen loading.\<close>

definition awaits :: "boot \<Rightarrow> bool" where
  "awaits b \<longleftrightarrow> (bt_checking b \<or> bt_starting b \<longrightarrow> bt_busy b) \<and> \<not> (bt_checking b \<and> bt_starting b)"

lemma awaits_step: "awaits b \<Longrightarrow> awaits (boot_step e b)"
proof (cases e)
  case (StartSettled a)
  then show "awaits b \<Longrightarrow> ?thesis" by (cases a) (auto simp: awaits_def)
next
  case (UnlockSettled a)
  then show "awaits b \<Longrightarrow> ?thesis" by (auto simp: awaits_def unlocked_with_def split: start_answer.split option.split)
qed (auto simp: awaits_def split: option.split bool.split)

lemma awaits_run: "awaits b \<Longrightarrow> awaits (boot_run es b)"
  by (induction es arbitrary: b) (simp_all add: boot_run_def awaits_step)

lemma running_settled:
  assumes "shown_gate (boot_run es mounted) = Running s"
  shows "\<not> bt_busy (boot_run es mounted)" and "bt_alone (boot_run es mounted) = Some True"
    and "\<not> bt_checking (boot_run es mounted)" and "\<not> bt_starting (boot_run es mounted)"
  using assms awaits_run [of mounted es]
  by (auto simp: shown_gate_def awaits_def mounted_def split: if_splits option.splits)

text \<open>What happens behind a lock screen when nobody opens it.\<close>

fun stays_shut :: "boot_event \<Rightarrow> bool" where
  "stays_shut (UnlockSettled (Started (Some s) m f)) = False"
| "stays_shut (Enrolled s) = False"
| "stays_shut (MigrationDone s) = False"
| "stays_shut e = True"

definition shut :: "boot \<Rightarrow> bool" where
  "shut b \<longleftrightarrow> \<not> bt_busy b \<and> bt_alone b = Some True \<and> \<not> bt_checking b \<and> \<not> bt_starting b \<and> bt_locked b \<and> bt_session b = None"

lemma door_shut_step: "shut b \<Longrightarrow> stays_shut e \<Longrightarrow> shut (boot_step e b)"
  by (cases e rule: stays_shut.cases) (auto simp: shut_def unlocked_with_def)

lemma door_shut_run: "shut b \<Longrightarrow> list_all stays_shut es \<Longrightarrow> shut (boot_run es b)"
  by (induction es arbitrary: b) (simp_all add: boot_run_def door_shut_step)



text \<open>The migration is the exception: it ends after the session was closed, and what it hands back is shown.\<close>

lemma migration_opens_shut_door:
  assumes "shown_gate (boot_run es mounted) = Running s"
  shows "shown_gate (boot_run (es @ [Relocked, MigrationDone s']) mounted) = Running s'"
  using running_settled [OF assms] by (simp add: boot_run_append boot_run_Cons boot_run_Nil shown_gate_def)

text \<open>A tab that is told another one holds the account never shows a session, in whatever order its start settles
  (\<open>App.tsx\<close>, \<open>claim\<close>).\<close>

theorem second_tab_shows_nothing:
  assumes "list_all (\<lambda>e. case e of ClaimSettled held \<Rightarrow> False | _ \<Rightarrow> True) es"
  shows "shown_gate (boot_run es mounted) = Loading \<and> shown_gate (boot_run (es @ ClaimSettled False # es') mounted) \<in> {Loading, AlreadyOpen}"
proof -
  have step: "bt_alone (boot_step e b) = bt_alone b" if "case e of ClaimSettled held \<Rightarrow> False | _ \<Rightarrow> True" for e b
  proof (cases e)
    case (StartSettled a)
    then show ?thesis by (cases a) auto
  next
    case (UnlockSettled a)
    then show ?thesis by (auto simp: unlocked_with_def split: start_answer.split option.split)
  qed (use that in \<open>auto split: option.split bool.split\<close>)
  have kept: "bt_alone (boot_step e b) = Some held" if "bt_alone b = Some held" for e b held
  proof (cases "case e of ClaimSettled h \<Rightarrow> False | _ \<Rightarrow> True")
    case True
    with that step show ?thesis by simp
  next
    case False
    with that show ?thesis by (cases e) simp_all
  qed
  have "bt_alone (boot_run es b) = bt_alone b" if "list_all (\<lambda>e. case e of ClaimSettled held \<Rightarrow> False | _ \<Rightarrow> True) es" for es b
    using that by (induction es arbitrary: b) (simp_all add: boot_run_def step)
  then have before: "bt_alone (boot_run es mounted) = None" using assms by (simp add: mounted_def)
  have "bt_alone (boot_run es' b) = Some False" if "bt_alone b = Some False" for b
    using that by (induction es' arbitrary: b) (simp_all add: boot_run_def kept)
  then have "bt_alone (boot_run (es @ ClaimSettled False # es') mounted) = Some False"
    by (simp add: boot_run_append boot_run_Cons before)
  with before show ?thesis by (simp add: shown_gate_def)
qed

text \<open>And yet it has read the disk and opened the session: the start does not wait for the claim.\<close>

lemma second_tab_opens_session:
  "(let b = boot_run [ClaimSettled False, LockRead (Some False), StartSettled (Started (Some 1) None None)] mounted
    in shown_gate b = AlreadyOpen \<and> bt_session b = Some 1 \<and> bt_reads b = 2)"
  by (simp add: boot_run_def mounted_def shown_gate_def)

lemma second_tab_shows_nothing_witness:
  "shown_gate (boot_run ([LockRead (Some False)] @ ClaimSettled False # [StartSettled (Started (Some 1) None None)]) mounted) \<in> {Loading, AlreadyOpen}"
  using second_tab_shows_nothing [of "[LockRead (Some False)]" "[StartSettled (Started (Some 1) None None)]"] by simp

text \<open>The reason a migration is impossible is said at a start without a lock, and dropped at one with a lock.\<close>

lemma unlocked_fallback_dropped:
  "bt_fallback (boot_run [ClaimSettled True, LockRead (Some False), StartSettled (Started (Some 1) None (Some why))] mounted) = Some why"
  "bt_fallback (boot_run [ClaimSettled True, LockRead (Some True), UnlockSettled (Started (Some 1) None (Some why))] mounted) = None"
  by (simp_all add: boot_run_def mounted_def unlocked_with_def)

text \<open>A lock set while the session runs is not watched, and one removed still is.\<close>

lemma lock_set_later_not_watched:
  "relocks [LockSet, LeftAlone, Resumed (relock_ms + 1)] (watch_mounted False) = [False, False, True]"
  "relocks [LockRemoved, LeftAlone] (watch_mounted True) = [False, True]"
  by (simp_all add: watch_mounted_def)

subsection \<open>A handle is claimed\<close>

lemma enrol_taken_again:
  assumes "en_answers s = HandleTaken # as" and "\<not> en_custom s" and "tried < max_suggestions"
  shows "enrol nfkc lower claiming tried s =
    enrol nfkc lower (suggest nfkc lower (en_name s) (en_random s (en_drawn s))) (Suc tried)
      (s\<lparr>en_alternative := None, en_claims := en_claims s @ [claiming], en_answers := as,
         en_seed := en_random s (en_drawn s), en_drawn := Suc (en_drawn s), en_busy := False\<rparr>)"
  using assms by (subst enrol.simps) (simp add: next_answer_of_def claimed_def Let_def)

definition enrolled_well :: "(jsstr \<Rightarrow> jsstr) \<Rightarrow> (jsstr \<Rightarrow> jsstr) \<Rightarrow> nat \<Rightarrow> jsstr \<Rightarrow> enrolment \<Rightarrow> enrolment \<Rightarrow> bool" where
  "enrolled_well nfkc lower left claiming s s' \<longleftrightarrow>
     (\<exists>again. en_claims s' = en_claims s @ claiming # again \<and> length again \<le> (if en_custom s then 0 else left)) \<and>
     (claiming = derived_handle nfkc lower s \<longrightarrow> last (en_claims s') = derived_handle nfkc lower s') \<and>
     (en_made s' = en_made s \<or> en_made s' = en_made s @ [last (en_claims s')]) \<and>
     (\<not> en_failed s \<and> en_phrase s = None \<longrightarrow>
        (en_phrase s' \<noteq> None) = (\<not> en_failed s') \<and> (en_phrase s' \<noteq> None \<longrightarrow> en_made s' = en_made s @ [last (en_claims s')]))"

lemma enrol_well: "tried \<le> max_suggestions \<Longrightarrow> enrolled_well nfkc lower (max_suggestions - tried) claiming s (enrol nfkc lower claiming tried s)"
proof (induction "max_suggestions - tried" arbitrary: claiming tried s rule: less_induct)
  case less
  show ?case
  proof (cases "en_answers s")
    case Nil
    then show ?thesis
      by (subst enrol.simps) (simp add: next_answer_of_def claimed_def enrolled_well_def derived_handle_def)
  next
    case (Cons a as)
    show ?thesis
    proof (cases "a = HandleTaken \<and> \<not> en_custom s \<and> tried < max_suggestions")
      case True
      let ?next = "en_random s (en_drawn s)"
      let ?t = "s\<lparr>en_alternative := None, en_claims := en_claims s @ [claiming], en_answers := as,
         en_seed := ?next, en_drawn := Suc (en_drawn s), en_busy := False\<rparr>"
      let ?s' = "enrol nfkc lower (suggest nfkc lower (en_name s) ?next) (Suc tried) ?t"
      have "enrolled_well nfkc lower (max_suggestions - Suc tried) (suggest nfkc lower (en_name s) ?next) ?t ?s'"
        using True by (intro less.hyps) (auto intro: diff_less_mono2)
      then obtain again where "en_claims ?s' = en_claims s @ claiming # suggest nfkc lower (en_name s) ?next # again"
          "length again \<le> max_suggestions - Suc tried" "last (en_claims ?s') = derived_handle nfkc lower ?s'"
          "en_made ?s' = en_made s \<or> en_made ?s' = en_made s @ [last (en_claims ?s')]"
          "\<not> en_failed s \<and> en_phrase s = None \<longrightarrow>
            (en_phrase ?s' \<noteq> None) = (\<not> en_failed ?s') \<and> (en_phrase ?s' \<noteq> None \<longrightarrow> en_made ?s' = en_made s @ [last (en_claims ?s')])"
        using True by (auto simp: enrolled_well_def derived_handle_def)
      moreover have "enrol nfkc lower claiming tried s = ?s'" using True Cons by (intro enrol_taken_again) auto
      ultimately show ?thesis using True by (auto simp: enrolled_well_def)
    next
      case False
      with Cons show ?thesis
        by (subst enrol.simps)
          (cases a; auto simp: next_answer_of_def claimed_def enrolled_well_def derived_handle_def offer_alternative_def Let_def)
    qed
  qed
qed


definition first_screen :: "create_answer list \<Rightarrow> enrolment" where
  "first_screen as =
     \<lparr>en_name = js ''Bob'', en_custom = False, en_seed = 4821, en_offered = 0, en_alternative = None, en_phrase = None, en_failed = False,
      en_busy = False, en_random = (\<lambda>i. 1000 + i), en_drawn = 0, en_answers = as, en_claims = [], en_made = []\<rparr>"


text \<open>When the name cannot be recorded the account exists and its phrase is never shown; trying again makes another one.\<close>

lemma phrase_lost_with_name:
  "(let s = enrol nfkc lower h 0 (first_screen [AccountMade words False, AccountMade words' True]);
        s' = enrol nfkc lower h 0 s
    in en_phrase s = None \<and> en_failed s \<and> en_made s = [h] \<and> en_phrase s' = Some words' \<and> en_made s' = [h, h])"
  by (simp add: enrol.simps first_screen_def next_answer_of_def claimed_def Let_def)

end
