(* ===== verification/Scan.thy ===== *)
theory Scan
  imports Naming
begin

text \<open>
  The string operations the scanners of a message share: slices, prefixes, \<open>split\<close>, \<open>join\<close>, \<open>indexOf\<close>, and the
  character classes of their regular expressions.
\<close>

text \<open>\<open>text.slice(i, j)\<close>.\<close>

definition substr :: "nat \<Rightarrow> nat \<Rightarrow> 'a list \<Rightarrow> 'a list" where
  "substr i j s = take (j - i) (drop i s)"

definition starts_with :: "jsstr \<Rightarrow> jsstr \<Rightarrow> bool" where
  "starts_with p s \<longleftrightarrow> take (length p) s = p"

text \<open>\<open>text.split(sep)\<close>, for a separator of one unit; \<open>joined [sep]\<close> is the \<open>join\<close> that undoes it.\<close>

fun split_on :: "'a \<Rightarrow> 'a list \<Rightarrow> 'a list list" where
  "split_on c [] = [[]]"
| "split_on c (u # s) =
     (if u = c then [] # split_on c s
      else case split_on c s of piece # rest \<Rightarrow> (u # piece) # rest | [] \<Rightarrow> [[u]])"

text \<open>\<open>text.indexOf(c, from)\<close>, with no \<open>-1\<close>.\<close>

definition index_from :: "'a \<Rightarrow> nat \<Rightarrow> 'a list \<Rightarrow> nat option" where
  "index_from c n s =
     (let k = n + length (takeWhile (\<lambda>u. u \<noteq> c) (drop n s)) in if k < length s then Some k else None)"

definition lower_letter :: "16 word \<Rightarrow> bool" where
  "lower_letter u \<longleftrightarrow> 0x61 \<le> u \<and> u \<le> 0x7A"

definition upper_letter :: "16 word \<Rightarrow> bool" where
  "upper_letter u \<longleftrightarrow> 0x41 \<le> u \<and> u \<le> 0x5A"

definition digit :: "16 word \<Rightarrow> bool" where
  "digit u \<longleftrightarrow> 0x30 \<le> u \<and> u \<le> 0x39"

text \<open>\<open>\w\<close>, and what may stand before a token that opens: \<open>[\s([{]\<close>.\<close>

definition word_char :: "16 word \<Rightarrow> bool" where
  "word_char u \<longleftrightarrow> lower_letter u \<or> upper_letter u \<or> digit u \<or> u = 0x5F"

definition opener_char :: "16 word \<Rightarrow> bool" where
  "opener_char u \<longleftrightarrow> white u \<or> u = 0x28 \<or> u = 0x5B \<or> u = 0x7B"

text \<open>\<open>(?:^|[\s([{])\<close> before what ends the text.\<close>

definition opened :: "jsstr \<Rightarrow> bool" where
  "opened before \<longleftrightarrow> before = [] \<or> opener_char (last before)"

subsection \<open>Slices\<close>

lemma length_substr [simp]: "length (substr i j s) = min (j - i) (length s - i)"
  by (simp add: substr_def min.commute)

lemma substr_nil [simp]: "j \<le> i \<Longrightarrow> substr i j s = []"
  by (simp add: substr_def)

lemma substr_whole [simp]: "substr 0 (length s) s = s"
  by (simp add: substr_def)

lemma substr_append: "i \<le> j \<Longrightarrow> j \<le> k \<Longrightarrow> substr i j s @ substr j k s = substr i k s"
  using take_add [of "j - i" "k - j" "drop i s"] by (simp add: substr_def add.commute)

lemma take_substr: "i \<le> j \<Longrightarrow> take i s @ substr i j s = take j s"
  using substr_append [of 0 i j s] by (simp add: substr_def)

lemma substr_drop: "i \<le> j \<Longrightarrow> substr i j s @ drop j s = drop i s"
  using append_take_drop_id [of "j - i" "drop i s"] by (simp add: substr_def)

lemma substr_Suc [simp]: "i < length s \<Longrightarrow> substr i (Suc i) s = [s ! i]"
  by (simp add: substr_def take_Suc_conv_app_nth)

lemma take_Suc_nth: "i < length s \<Longrightarrow> take (Suc i) s = take i s @ [s ! i]"
  by (rule take_Suc_conv_app_nth)

subsection \<open>Splitting and searching\<close>

lemma split_on_nonempty [simp]: "split_on c s \<noteq> []"
  by (induction s) (auto split: list.splits)

lemma joined_cons: "xs \<noteq> [] \<Longrightarrow> joined sep (x # xs) = x @ sep @ joined sep xs"
  by (cases xs) (simp_all add: joined_def)

lemma joined_single [simp]: "joined sep [x] = x" "joined sep [] = []"
  by (simp_all add: joined_def)

lemma joined_append:
  "xs \<noteq> [] \<Longrightarrow> ys \<noteq> [] \<Longrightarrow> joined sep (xs @ ys) = joined sep xs @ sep @ joined sep ys"
proof (induction xs)
  case (Cons x xs)
  then show ?case by (cases "xs = []") (simp_all add: joined_cons)
qed simp

lemma joined_first: "joined sep ((u # x) # xs) = u # joined sep (x # xs)"
  by (simp add: joined_def)

lemma joined_split_on: "joined [c] (split_on c s) = s"
  by (induction s) (auto simp: joined_cons joined_first split: list.splits)

lemma split_on_pieces: "p \<in> set (split_on c s) \<Longrightarrow> c \<notin> set p"
  by (induction s arbitrary: p) (auto split: list.splits if_splits)

lemma split_on_subset: "p \<in> set (split_on c s) \<Longrightarrow> set p \<subseteq> set s"
  by (induction s arbitrary: p) (auto split: list.splits if_splits, blast+)

lemma index_from_Some:
  assumes "index_from c n s = Some k"
  shows "n \<le> k" and "k < length s" and "s ! k = c"
proof -
  let ?r = "drop n s"
  from assms have k: "k = n + length (takeWhile (\<lambda>u. u \<noteq> c) ?r)" "k < length s"
    by (auto simp: index_from_def Let_def split: if_splits)
  then show "n \<le> k" and "k < length s" by simp_all
  have "length (takeWhile (\<lambda>u. u \<noteq> c) ?r) < length ?r" using k by simp
  then show "s ! k = c" using nth_length_takeWhile [of "\<lambda>u. u \<noteq> c" ?r] k by simp
qed

lemma index_from_None:
  assumes "index_from c n s = None"
  shows "c \<notin> set (drop n s)"
proof
  assume "c \<in> set (drop n s)"
  then have "length (takeWhile (\<lambda>u. u \<noteq> c) (drop n s)) < length (drop n s)"
    using length_takeWhile_le [of "\<lambda>u. u \<noteq> c" "drop n s"] takeWhile_eq_all_conv [of "\<lambda>u. u \<noteq> c" "drop n s"]
      takeWhile_eq_take [of "\<lambda>u. u \<noteq> c" "drop n s"] by (metis le_neq_implies_less take_all_iff order_refl)
  with assms show False by (simp add: index_from_def Let_def split: if_splits)
qed

end
