(* ===== verification/Emoji.thy ===== *)
theory Emoji
  imports Keys Scan Stores
begin

text \<open>
  Emoji: the key and the sheet their artwork is filed under (\<open>emoji.ts\<close>, \<open>emoji-sprite.ts\<close>), the runs of a message, the
  search of the picker (\<open>EmojiPicker.tsx\<close>) and the shortcodes of the composer (\<open>shortcode.ts\<close>). The segmentation into
  graphemes and the properties of Unicode are parameters.
\<close>

subsection \<open>Code points and keys\<close>

text \<open>\<open>[...char]\<close> with \<open>codePointAt(0)\<close>: a surrogate with no partner is itself.\<close>

fun points_of :: "nat list \<Rightarrow> nat list" where
  "points_of (u # v # us) =
     (if high_surrogate u \<and> low_surrogate v then (65536 + (u - 55296) * 1024 + (v - 56320)) # points_of us
      else u # points_of (v # us))"
| "points_of us = us"

definition point_list :: "jsstr \<Rightarrow> nat list" where
  "point_list s = points_of (map unat s)"

text \<open>\<open>toString(16)\<close>.\<close>

fun hex_text :: "nat \<Rightarrow> jsstr" where
  "hex_text n = (if n < 16 then [hex_digit n] else hex_text (n div 16) @ [hex_digit (n mod 16)])"

declare hex_text.simps [simp del]

definition drawn_points :: "jsstr \<Rightarrow> nat list" where
  "drawn_points s = filter (\<lambda>c. 0x200D \<in> set (point_list s) \<or> c \<noteq> 0xFE0F) (point_list s)"

definition key_exceptions :: "jsstr \<Rightarrow> jsstr option" where
  "key_exceptions key = (if key = js ''1f441-fe0f-200d-1f5e8-fe0f'' then Some (js ''1f441-200d-1f5e8'') else None)"

definition plain_key :: "jsstr \<Rightarrow> jsstr" where
  "plain_key s = joined [0x2D] (map hex_text (drawn_points s))"

definition key_of :: "jsstr \<Rightarrow> jsstr" where
  "key_of s = (case key_exceptions (plain_key s) of Some k \<Rightarrow> k | None \<Rightarrow> plain_key s)"

datatype shard = BaseSheet | ToneSheet nat | MixedSheet

definition modifiers :: "nat list" where
  "modifiers = [0x1F3FB, 0x1F3FC, 0x1F3FD, 0x1F3FE, 0x1F3FF]"

definition shard_of :: "jsstr \<Rightarrow> shard" where
  "shard_of s =
     (case uniq (filter (\<lambda>c. c \<in> set modifiers) (point_list s)) of
        [] \<Rightarrow> BaseSheet
      | [c] \<Rightarrow> ToneSheet (length (takeWhile (\<lambda>m. m \<noteq> c) modifiers) + 1)
      | _ \<Rightarrow> MixedSheet)"

subsection \<open>Runs\<close>

datatype emoji_run = ProseRun jsstr | EmojiRun jsstr

text \<open>\<open>depicts\<close>: \<open>Extended_Pictographic\<close> or \<open>Regional_Indicator\<close> of a code point.\<close>

definition pictographic :: "(nat \<Rightarrow> bool) \<Rightarrow> jsstr \<Rightarrow> bool" where
  "pictographic depicts g \<longleftrightarrow>
     \<not> (\<exists>u. g = [u] \<and> (digit u \<or> u = 0x23 \<or> u = 0x2A)) \<and> list_ex (\<lambda>c. depicts c \<or> c = 0x20E3) (point_list g)"

lemma pictographic_code [code]:
  "pictographic depicts g \<longleftrightarrow>
     \<not> (case g of [u] \<Rightarrow> digit u \<or> u = 0x23 \<or> u = 0x2A | _ \<Rightarrow> False) \<and> list_ex (\<lambda>c. depicts c \<or> c = 0x20E3) (point_list g)"
  by (auto simp: pictographic_def split: list.splits)

definition flush_prose :: "jsstr \<Rightarrow> emoji_run list" where
  "flush_prose p = (if p = [] then [] else [ProseRun p])"

fun segments_from :: "(nat \<Rightarrow> bool) \<Rightarrow> jsstr \<Rightarrow> jsstr list \<Rightarrow> emoji_run list" where
  "segments_from depicts p [] = flush_prose p"
| "segments_from depicts p (g # gs) =
     (if pictographic depicts g then flush_prose p @ EmojiRun g # segments_from depicts [] gs
      else segments_from depicts (p @ g) gs)"

definition segment_text :: "(nat \<Rightarrow> bool) \<Rightarrow> (jsstr \<Rightarrow> jsstr list) \<Rightarrow> jsstr \<Rightarrow> emoji_run list" where
  "segment_text depicts graphemes text = segments_from depicts [] (graphemes text)"

definition only_emoji :: "(nat \<Rightarrow> bool) \<Rightarrow> (jsstr \<Rightarrow> jsstr list) \<Rightarrow> jsstr \<Rightarrow> bool" where
  "only_emoji depicts graphemes text =
     (let rs = segment_text depicts graphemes (trim text) in
      rs \<noteq> [] \<and> list_ex (\<lambda>r. case r of EmojiRun _ \<Rightarrow> True | _ \<Rightarrow> False) rs \<and>
      list_all (\<lambda>r. case r of EmojiRun _ \<Rightarrow> True | ProseRun t \<Rightarrow> trim t = []) rs)"

subsection \<open>The catalogue, searched\<close>

record emoji_entry =
  em_char :: jsstr
  em_label :: jsstr
  em_keywords :: "jsstr list"
  em_group :: nat
  em_codes :: "jsstr list"
  em_tones :: "jsstr list"

function split_white :: "jsstr \<Rightarrow> jsstr list" where
  "split_white s =
     (let piece = takeWhile (\<lambda>u. \<not> white u) s; rest = dropWhile (\<lambda>u. \<not> white u) s in
      if rest = [] then [piece] else piece # split_white (dropWhile white rest))"
  by pat_completeness auto
termination
proof (relation "measure length")
  fix s piece rest
  assume "rest = dropWhile (\<lambda>u. \<not> white u) s" "rest \<noteq> []"
  then have "white (hd rest)" and "rest \<noteq> []" using hd_dropWhile [of "\<lambda>u. \<not> white u" s] by auto
  then have "length (dropWhile white rest) < length rest"
    by (cases rest) (auto simp: le_imp_less_Suc length_dropWhile_le)
  also have "length rest \<le> length s" using \<open>rest = _\<close> by (simp add: length_dropWhile_le)
  finally show "(dropWhile white rest, s) \<in> measure length" by simp
qed simp

text \<open>The tier an entry is found in: the name, its beginning, inside it, or every term somewhere.\<close>

definition search_tier :: "(jsstr \<Rightarrow> jsstr) \<Rightarrow> jsstr \<Rightarrow> emoji_entry \<Rightarrow> nat option" where
  "search_tier fold_text needle e =
     (let label = fold_text (em_label e) in
      if label = needle then Some 0
      else if starts_with needle label then Some 1
      else if includes_text label needle then Some 2
      else if list_all (includes_text (label @ [0x20] @ joined [0x20] (map fold_text (em_keywords e @ em_codes e)))) (split_white needle)
      then Some 3 else None)"

fun search_from :: "(jsstr \<Rightarrow> jsstr) \<Rightarrow> jsstr \<Rightarrow> emoji_entry list \<Rightarrow>
    emoji_entry list \<times> emoji_entry list \<times> emoji_entry list \<times> emoji_entry list \<Rightarrow> emoji_entry list" where
  "search_from fold_text needle [] (exact, prefixed, loose, scattered) = exact @ prefixed @ loose @ scattered"
| "search_from fold_text needle (e # es) (exact, prefixed, loose, scattered) =
     search_from fold_text needle es
       (case search_tier fold_text needle e of
          None \<Rightarrow> (exact, prefixed, loose, scattered)
        | Some t \<Rightarrow>
            if t = 0 then (exact @ [e], prefixed, loose, scattered)
            else if t = 1 then (exact, prefixed @ [e], loose, scattered)
            else if t = 2 then (exact, prefixed, loose @ [e], scattered)
            else (exact, prefixed, loose, scattered @ [e]))"

definition search_emoji :: "(jsstr \<Rightarrow> jsstr) \<Rightarrow> emoji_entry list \<Rightarrow> jsstr \<Rightarrow> emoji_entry list" where
  "search_emoji fold_text cat query =
     (let needle = fold_text (trim query) in
      if needle = [] then [] else search_from fold_text needle cat ([], [], [], []))"

definition apply_tone :: "emoji_entry \<Rightarrow> nat \<Rightarrow> jsstr" where
  "apply_tone e tone =
     (if tone = 0 then em_char e else if tone - 1 < length (em_tones e) then em_tones e ! (tone - 1) else em_char e)"

subsection \<open>The grid\<close>

definition grid_columns :: nat where "grid_columns = 12"

fun rows_of :: "'a list \<Rightarrow> 'a list list" where
  "rows_of [] = []"
| "rows_of (x # xs) = take grid_columns (x # xs) # rows_of (drop (grid_columns - 1) xs)"

definition sections_of :: "jsstr list \<Rightarrow> emoji_entry list \<Rightarrow> emoji_entry list \<Rightarrow> (jsstr \<times> emoji_entry list) list" where
  "sections_of groups cat recents =
     (if recents \<noteq> [] then [(js ''Recently used'', recents)] else []) @
     filter (\<lambda>(label, es). es \<noteq> [])
       (map (\<lambda>i. (groups ! i, filter (\<lambda>e. em_group e = i) cat)) [0..<length groups])"

text \<open>The arrows move over the cells of all sections as one list.\<close>

datatype grid_move = ArrowRight | ArrowLeft | ArrowDown | ArrowUp

definition grid_step :: "grid_move \<Rightarrow> int" where
  "grid_step m = (case m of ArrowRight \<Rightarrow> 1 | ArrowLeft \<Rightarrow> -1 | ArrowDown \<Rightarrow> int grid_columns | ArrowUp \<Rightarrow> - int grid_columns)"

definition grid_to :: "nat \<Rightarrow> nat \<Rightarrow> grid_move \<Rightarrow> nat option" where
  "grid_to cells at m =
     (let to = int at + grid_step m in if to < 0 \<or> int cells \<le> to then None else Some (nat to))"

subsection \<open>Shortcodes\<close>

record typed_code =
  tc_from :: nat
  tc_to :: nat
  tc_query :: jsstr

definition code_char :: "16 word \<Rightarrow> bool" where
  "code_char u \<longleftrightarrow> lower_letter u \<or> digit u \<or> u = 0x5F \<or> u = 0x2B \<or> u = 0x2D"

definition shortest_code :: nat where "shortest_code = 2"

text \<open>\<open>(?:^|[\s([{])(:[a-z0-9_+-]*)$\<close>: the code characters at the end, the colon before them, and what opens it.\<close>

definition token_at_end :: "jsstr \<Rightarrow> jsstr option" where
  "token_at_end before =
     (let name = rev (takeWhile code_char (rev before)) in
      case dropWhile code_char (rev before) of
        [] \<Rightarrow> None
      | u # rest \<Rightarrow> if u = 0x3A \<and> (rest = [] \<or> opener_char (hd rest)) then Some name else None)"

definition typed_shortcode :: "jsstr \<Rightarrow> nat \<Rightarrow> typed_code option" where
  "typed_shortcode text caret =
     (case token_at_end (take caret text) of
        None \<Rightarrow> None
      | Some query \<Rightarrow>
          if length query < shortest_code then None
          else Some \<lparr>tc_from = caret - Suc (length query), tc_to = caret, tc_query = query\<rparr>)"

text \<open>The best name of an entry: the loop over its codes, with what it has found so far.\<close>

datatype code_match = Exactly | Beginning | Within

fun best_code :: "jsstr \<Rightarrow> (code_match \<times> jsstr) option \<Rightarrow> jsstr list \<Rightarrow> (code_match \<times> jsstr) option" where
  "best_code needle best [] = best"
| "best_code needle best (c # cs) =
     (if c = needle then Some (Exactly, c)
      else if starts_with needle c
      then best_code needle (case best of Some (Beginning, _) \<Rightarrow> best | _ \<Rightarrow> Some (Beginning, c)) cs
      else if includes_text c needle \<and> best = None then best_code needle (Some (Within, c)) cs
      else best_code needle best cs)"

definition code_completions :: "(jsstr \<Rightarrow> jsstr) \<Rightarrow> emoji_entry list \<Rightarrow> jsstr \<Rightarrow> nat \<Rightarrow> (emoji_entry \<times> jsstr) list" where
  "code_completions lower cat query limit =
     (let needle = lower query;
          found = (\<lambda>k. List.map_filter (\<lambda>e. case best_code needle None (em_codes e) of
             Some (k', c) \<Rightarrow> if k' = k then Some (e, c) else None | None \<Rightarrow> None) cat)
      in take limit (found Exactly @ found Beginning @ found Within))"

definition closed_shortcode :: "emoji_entry list \<Rightarrow> jsstr \<Rightarrow> nat \<Rightarrow> (typed_code \<times> jsstr) option" where
  "closed_shortcode cat text caret =
     (case rev (take caret text) of
        [] \<Rightarrow> None
      | u # earlier \<Rightarrow>
          if u \<noteq> 0x3A then None
          else (case token_at_end (rev earlier) of
              None \<Rightarrow> None
            | Some name \<Rightarrow>
                if length name < shortest_code then None
                else (case find (\<lambda>e. name \<in> set (em_codes e)) cat of
                    None \<Rightarrow> None
                  | Some e \<Rightarrow> Some (\<lparr>tc_from = caret - (length name + 2), tc_to = caret, tc_query = name\<rparr>, em_char e))))"

subsection \<open>Runs are the text\<close>

fun run_said :: "emoji_run \<Rightarrow> jsstr" where
  "run_said (ProseRun t) = t"
| "run_said (EmojiRun g) = g"

lemma segments_said: "concat (map run_said (segments_from depicts p gs)) = p @ concat gs"
  by (induction gs arbitrary: p) (simp_all add: flush_prose_def)

text \<open>The runs of a message are its text, cut and not changed: put back together they are what was written, every emoji
  among them is a grapheme of the text that Unicode calls one, and no run is empty (\<open>emoji.ts\<close>, \<open>segment\<close>).\<close>

theorem runs_are_the_text:
  assumes "concat (graphemes text) = text" and "[] \<notin> set (graphemes text)"
  shows "concat (map run_said (segment_text depicts graphemes text)) = text \<and>
    list_all (\<lambda>r. run_said r \<noteq> [] \<and> (case r of EmojiRun g \<Rightarrow> g \<in> set (graphemes text) \<and> pictographic depicts g | _ \<Rightarrow> True))
      (segment_text depicts graphemes text)"
proof -
  have "list_all (\<lambda>r. run_said r \<noteq> [] \<and> (case r of EmojiRun g \<Rightarrow> g \<in> G \<and> pictographic depicts g | _ \<Rightarrow> True))
      (segments_from depicts p gs)" if "set gs \<subseteq> G" "[] \<notin> G" for p gs G
    using that by (induction gs arbitrary: p) (auto simp: flush_prose_def)
  with assms show ?thesis by (simp add: segment_text_def segments_said)
qed

lemma runs_are_the_text_witness:
  "concat (map run_said (segment_text (\<lambda>c. c = 0x1F44D) (\<lambda>t. [[0x68], [0xD83D, 0xDC4D]]) [0x68, 0xD83D, 0xDC4D])) = [0x68, 0xD83D, 0xDC4D]"
  using runs_are_the_text [of "\<lambda>t. [[0x68], [0xD83D, 0xDC4D]]" "[0x68, 0xD83D, 0xDC4D]" "\<lambda>c. c = 0x1F44D"] by simp

subsection \<open>Keys\<close>

text \<open>Without a joiner the selector changes nothing: the sequence is filed where the one without it is.\<close>

lemma selector_ignored:
  assumes "0x200D \<notin> set (point_list s)" and "point_list t = filter (\<lambda>c. c \<noteq> 0xFE0F) (point_list s)"
  shows "key_of s = key_of t"
proof -
  have "drawn_points s = drawn_points t" using assms by (simp add: drawn_points_def)
  then have "plain_key s = plain_key t" by (simp add: plain_key_def)
  then show ?thesis unfolding key_of_def by metis
qed

lemma hex_digit_inject: "m < 16 \<Longrightarrow> n < 16 \<Longrightarrow> hex_digit m = hex_digit n \<longleftrightarrow> m = n"
  by (metis hex_value_digit option.inject)

lemma hex_text_steps:
  "n < 16 \<Longrightarrow> hex_text n = [hex_digit n]" "16 \<le> n \<Longrightarrow> hex_text n = hex_text (n div 16) @ [hex_digit (n mod 16)]"
  by (subst hex_text.simps, simp)+

lemma hex_text_nonempty [simp]: "hex_text n \<noteq> []"
  by (subst hex_text.simps) simp

lemma hex_text_inject: "hex_text m = hex_text n \<Longrightarrow> m = n"
proof (induction m arbitrary: n rule: less_induct)
  case (less m)
  have short: "length (hex_text k) = 1 \<longleftrightarrow> k < 16" for k
    by (subst hex_text.simps) auto
  show ?case
  proof (cases "m < 16")
    case True
    with less.prems short have "n < 16" by metis
    with True less.prems show ?thesis by (simp add: hex_text.simps hex_digit_inject)
  next
    case False
    with less.prems short have "\<not> n < 16" by metis
    with False less.prems have "hex_text (m div 16) = hex_text (n div 16)" "hex_digit (m mod 16) = hex_digit (n mod 16)"
      using hex_text.simps [of m] hex_text.simps [of n] by simp_all
    with less.IH [of "m div 16" "n div 16"] False have "m div 16 = n div 16" "m mod 16 = n mod 16"
      by (simp_all add: hex_digit_inject)
    then show ?thesis by (metis div_mult_mod_eq)
  qed
qed

lemma hex_text_no_dash: "0x2D \<notin> set (hex_text n)"
proof (induction n rule: hex_text.induct)
  case (1 n)
  have "hex_digit k \<noteq> 0x2D" if "k < 16" for k
    using that hex_value_digit [OF that] by (auto simp: hex_value_def split: if_splits)
  with 1 show ?case by (subst hex_text.simps) auto
qed

lemma split_on_first: "c \<notin> set x \<Longrightarrow> split_on c (x @ c # s) = x # split_on c s"
  by (induction x) auto

lemma typed_none_split: "c \<notin> set x \<Longrightarrow> split_on c x = [x]"
  by (induction x) auto

lemma split_on_joined: "xs \<noteq> [] \<Longrightarrow> \<forall>x\<in>set xs. c \<notin> set x \<Longrightarrow> split_on c (joined [c] xs) = xs"
proof (induction xs rule: list_nonempty_induct)
  case (cons x xs)
  then show ?case by (simp add: joined_cons split_on_first)
qed (simp add: typed_none_split)

lemma dashed_inject: "joined [0x2D] (map hex_text ms) = joined [0x2D] (map hex_text ns) \<longleftrightarrow> ms = ns"
proof
  assume same: "joined [0x2D] (map hex_text ms) = joined [0x2D] (map hex_text ns)"
  have none: "joined [0x2D] (map hex_text ks) = [] \<longleftrightarrow> ks = []" for ks
    by (cases ks) (simp_all add: joined_def)
  show "ms = ns"
  proof (cases "ms = [] \<or> ns = []")
    case True
    with same none show ?thesis by metis
  next
    case False
    have pieces: "split_on 0x2D (joined [0x2D] (map hex_text ks)) = map hex_text ks" if "ks \<noteq> []" for ks
      using that hex_text_no_dash by (intro split_on_joined) auto
    from False have kept: "ms \<noteq> []" "ns \<noteq> []" by auto
    from arg_cong [OF same, of "split_on 0x2D"] have "map hex_text ms = map hex_text ns"
      unfolding pieces [OF kept(1)] pieces [OF kept(2)] .
    moreover have "inj hex_text" by (rule injI) (rule hex_text_inject)
    ultimately show ?thesis by (simp add: inj_map_eq_map)
  qed
qed simp

definition filed_points :: "jsstr \<Rightarrow> nat list" where
  "filed_points s =
     (if drawn_points s = [0x1F441, 0xFE0F, 0x200D, 0x1F5E8, 0xFE0F] then [0x1F441, 0x200D, 0x1F5E8] else drawn_points s)"

lemma exception_keys:
  "joined [0x2D] (map hex_text [0x1F441, 0xFE0F, 0x200D, 0x1F5E8, 0xFE0F]) = js ''1f441-fe0f-200d-1f5e8-fe0f''"
  "joined [0x2D] (map hex_text [0x1F441, 0x200D, 0x1F5E8]) = js ''1f441-200d-1f5e8''"
  by (simp_all add: hex_text_steps hex_digit_def joined_def js_def)

lemma key_of_filed: "key_of s = joined [0x2D] (map hex_text (filed_points s))"
proof -
  have "plain_key s = js ''1f441-fe0f-200d-1f5e8-fe0f'' \<longleftrightarrow> drawn_points s = [0x1F441, 0xFE0F, 0x200D, 0x1F5E8, 0xFE0F]"
    unfolding plain_key_def exception_keys(1) [symmetric] by (rule dashed_inject)
  then show ?thesis
    unfolding key_of_def key_exceptions_def filed_points_def using exception_keys(2) by (simp add: plain_key_def)
qed

text \<open>Two sequences share their artwork exactly when they are the same code points once the selectors that do not
  count are left out, the one exception of the sheets included: no key is ambiguous (\<open>emoji.ts\<close>, \<open>keyOf\<close>).\<close>

theorem key_names_sequence: "key_of s = key_of t \<longleftrightarrow> filed_points s = filed_points t"
  unfolding key_of_filed by (rule dashed_inject)

subsection \<open>The best first\<close>

lemma search_from_tiers:
  "search_from fold_text needle es (a, b, c, d) =
     a @ filter (\<lambda>e. search_tier fold_text needle e = Some 0) es @ b @ filter (\<lambda>e. search_tier fold_text needle e = Some 1) es @
     c @ filter (\<lambda>e. search_tier fold_text needle e = Some 2) es @ d @ filter (\<lambda>e. search_tier fold_text needle e = Some 3) es"
proof (induction es arbitrary: a b c d)
  case (Cons e es)
  have "search_tier fold_text needle e \<in> {None, Some 0, Some 1, Some 2, Some 3}" by (simp add: search_tier_def Let_def)
  with Cons show ?case by auto
qed simp

text \<open>A search gives the entries it matches and no other, the better matches first and the catalogue's order among
  equals: a name, then what begins with the query, then what contains it, then what has all its words
  (\<open>emoji.ts\<close>, \<open>search\<close>).\<close>

theorem search_best_first:
  assumes "fold_text (trim query) \<noteq> []"
  shows "filter (\<lambda>e. search_tier fold_text (fold_text (trim query)) e = Some k) (search_emoji fold_text cat query) =
      filter (\<lambda>e. search_tier fold_text (fold_text (trim query)) e = Some k) cat \<and>
    sorted (map (\<lambda>e. the (search_tier fold_text (fold_text (trim query)) e)) (search_emoji fold_text cat query)) \<and>
    list_all (\<lambda>e. search_tier fold_text (fold_text (trim query)) e \<noteq> None) (search_emoji fold_text cat query)"
proof -
  let ?tier = "search_tier fold_text (fold_text (trim query))"
  have found: "search_emoji fold_text cat query = filter (\<lambda>e. ?tier e = Some 0) cat @ filter (\<lambda>e. ?tier e = Some 1) cat @
      filter (\<lambda>e. ?tier e = Some 2) cat @ filter (\<lambda>e. ?tier e = Some 3) cat"
    using assms by (simp add: search_emoji_def search_from_tiers Let_def)
  have tiers: "?tier e \<in> {None, Some 0, Some 1, Some 2, Some 3}" for e by (simp add: search_tier_def Let_def)
  have "filter (\<lambda>e. ?tier e = Some k) (filter (\<lambda>e. ?tier e = Some j) cat) = (if j = k then filter (\<lambda>e. ?tier e = Some k) cat else [])" for j
    by (auto simp: filter_empty_conv intro: filter_cong)
  moreover have "filter (\<lambda>e. ?tier e = Some k) cat = []" if "k \<notin> {0, 1, 2, 3}"
  proof -
    have "?tier e \<noteq> Some k" for e using tiers [of e] that by auto
    then show ?thesis by simp
  qed
  ultimately have "filter (\<lambda>e. ?tier e = Some k) (search_emoji fold_text cat query) = filter (\<lambda>e. ?tier e = Some k) cat"
    unfolding found by (cases "k \<in> {0, 1, 2, 3}") auto
  moreover have level: "map (\<lambda>e. the (?tier e)) (filter (\<lambda>e. ?tier e = Some j) cat) = replicate (length (filter (\<lambda>e. ?tier e = Some j) cat)) j" for j
    by (induction cat) auto
  have "sorted (map (\<lambda>e. the (?tier e)) (search_emoji fold_text cat query))"
    unfolding found map_append level by (auto simp: sorted_append sorted_replicate)
  moreover have "list_all (\<lambda>e. ?tier e \<noteq> None) (search_emoji fold_text cat query)"
    unfolding found by (auto simp: list_all_iff)
  ultimately show ?thesis by blast
qed

definition pizza :: emoji_entry where
  "pizza = \<lparr>em_char = [0xD83C, 0xDF55], em_label = js ''pizza'', em_keywords = [js ''slice''], em_group = 0,
     em_codes = [js ''pizza''], em_tones = []\<rparr>"

lemma search_best_first_witness:
  "filter (\<lambda>e. search_tier (\<lambda>t. t) (trim (js ''pizza'')) e = Some 0) (search_emoji (\<lambda>t. t) [pizza] (js ''pizza'')) = [pizza]"
proof -
  have needle: "trim (js ''pizza'') = js ''pizza''" by (simp add: trim_def white_def js_def)
  then have "trim (js ''pizza'') \<noteq> []" by (simp add: js_def)
  from conjunct1 [OF search_best_first [of "\<lambda>t. t", OF this, of 0 "[pizza]"]] show ?thesis
    by (simp add: needle search_tier_def pizza_def)
qed

text \<open>The name an entry is proposed under is the best one it has: the name itself, else the first that begins with what was
  typed, else the first that contains it.\<close>

lemma best_code_is_best:
  "best_code needle None codes =
     (if needle \<in> set codes then Some (Exactly, needle)
      else case find (starts_with needle) codes of
        Some c \<Rightarrow> Some (Beginning, c)
      | None \<Rightarrow> map_option (Pair Within) (find (\<lambda>c. includes_text c needle) codes))"
proof -
  have begun: "best_code needle (Some (Beginning, b)) cs = (if needle \<in> set cs then Some (Exactly, needle) else Some (Beginning, b))" for b cs
    by (induction cs) auto
  have within: "best_code needle (Some (Within, b)) cs =
      (if needle \<in> set cs then Some (Exactly, needle)
       else case find (starts_with needle) cs of Some c \<Rightarrow> Some (Beginning, c) | None \<Rightarrow> Some (Within, b))" for b cs
    by (induction cs) (auto simp: begun)
  show ?thesis by (induction codes) (auto simp: begun within split: option.splits)
qed

subsection \<open>What a shortcode replaces\<close>

lemma token_at_end_Some:
  "token_at_end before = Some name \<Longrightarrow>
   \<exists>p. before = p @ 0x3A # name \<and> list_all code_char name \<and> (p = [] \<or> opener_char (last p))"
proof -
  assume "token_at_end before = Some name"
  then obtain rest where rest: "dropWhile code_char (rev before) = 0x3A # rest" "rest = [] \<or> opener_char (hd rest)"
      "name = rev (takeWhile code_char (rev before))"
    by (auto simp: token_at_end_def Let_def split: list.splits if_splits)
  have "rev before = rev name @ 0x3A # rest" using rest(1,3) by (metis rev_rev_ident takeWhile_dropWhile_id)
  then have "before = rev rest @ 0x3A # name" by (metis append.assoc append_Cons append_Nil rev.simps(2) rev_append rev_rev_ident)
  moreover have "list_all code_char name" unfolding rest(3) by (auto simp: list_all_iff dest: set_takeWhileD)
  moreover have "rev rest = [] \<or> opener_char (last (rev rest))" using rest(2) by (auto simp: last_rev)
  ultimately show ?thesis by blast
qed

text \<open>What a closed shortcode replaces is the name between its two colons, at the start of the text or after what opens
  a token, and it becomes an emoji that bears exactly that name (\<open>shortcode.ts\<close>, \<open>closed\<close>).\<close>

theorem closed_is_exact:
  assumes "closed_shortcode cat text caret = Some (t, char)" and "caret \<le> length text"
  shows "\<exists>p. take caret text = p @ 0x3A # tc_query t @ [0x3A] \<and> length p = tc_from t \<and> tc_to t = caret \<and>
    shortest_code \<le> length (tc_query t) \<and> (p = [] \<or> opener_char (last p)) \<and>
    (\<exists>e. e \<in> set cat \<and> em_char e = char \<and> tc_query t \<in> set (em_codes e))"
proof -
  from assms(1) obtain earlier name e where
    parts: "rev (take caret text) = 0x3A # earlier" "token_at_end (rev earlier) = Some name"
      "shortest_code \<le> length name" "find (\<lambda>e. name \<in> set (em_codes e)) cat = Some e"
      "t = \<lparr>tc_from = caret - (length name + 2), tc_to = caret, tc_query = name\<rparr>" "char = em_char e"
    by (auto simp: closed_shortcode_def split: list.splits option.splits if_splits)
  from token_at_end_Some [OF parts(2)] obtain p where
    p: "rev earlier = p @ 0x3A # name" "p = [] \<or> opener_char (last p)" by blast
  have cut: "take caret text = p @ 0x3A # name @ [0x3A]"
    using parts(1) p(1) by (metis append.assoc append_Cons rev.simps(2) rev_rev_ident)
  from arg_cong [OF cut, of length] assms(2) have "length p = caret - (length name + 2)" by simp
  moreover have "e \<in> set cat" "name \<in> set (em_codes e)" using parts(4) by (auto simp: find_Some_iff)
  ultimately show ?thesis using cut p(2) parts(3,5,6) by (intro exI [of _ p]) auto
qed

lemma closed_is_exact_witness:
  "\<exists>p. take 7 (js '':pizza:'') = p @ 0x3A # js ''pizza'' @ [0x3A] \<and> (p = [] \<or> opener_char (last p))"
proof -
  have "closed_shortcode [pizza] (js '':pizza:'') 7 = Some (\<lparr>tc_from = 0, tc_to = 7, tc_query = js ''pizza''\<rparr>, [0xD83C, 0xDF55])"
    by (simp add: closed_shortcode_def token_at_end_def pizza_def code_char_def lower_letter_def digit_def shortest_code_def js_def)
  from closed_is_exact [OF this] show ?thesis by (simp add: js_def)
qed

lemma typed_token:
  assumes "typed_shortcode text caret = Some t" and "caret \<le> length text"
  shows "\<exists>p. take caret text = p @ 0x3A # tc_query t \<and> length p = tc_from t \<and> tc_to t = caret \<and> (p = [] \<or> opener_char (last p))"
proof -
  from assms(1) obtain query where
    query: "token_at_end (take caret text) = Some query" "t = \<lparr>tc_from = caret - Suc (length query), tc_to = caret, tc_query = query\<rparr>"
    by (auto simp: typed_shortcode_def split: option.splits if_splits)
  from token_at_end_Some [OF query(1)] obtain p where p: "take caret text = p @ 0x3A # query" "p = [] \<or> opener_char (last p)" by blast
  from arg_cong [OF p(1), of length] assms(2) have "length p = caret - Suc (length query)" by simp
  with p query(2) show ?thesis by (intro exI [of _ p]) auto
qed

subsection \<open>The grid\<close>

lemma rows_concat: "concat (rows_of xs) = xs"
  by (induction xs rule: rows_of.induct) (simp_all add: grid_columns_def take_Cons' drop_Cons')

text \<open>Down moves twelve cells on, whatever section they are in: under a section that does not fill its last row it comes down
  in another column.\<close>

lemma grid_down_slants:
  "rows_of [0..<5::nat] = [[0, 1, 2, 3, 4]] \<and> grid_to (5 + 24) 0 ArrowDown = Some 12 \<and> (12 - 5) mod grid_columns = 7"
  by (simp add: grid_to_def grid_step_def grid_columns_def upt_conv_Cons)

text \<open>A sequence is on a tone's sheet however often it carries that tone.\<close>

lemma shard_of_tone:
  "point_list s = [c, m, 0x200D, c, m] \<Longrightarrow> m \<in> set modifiers \<Longrightarrow> c \<notin> set modifiers \<Longrightarrow>
   shard_of s = ToneSheet (length (takeWhile (\<lambda>x. x \<noteq> m) modifiers) + 1)"
  by (auto simp: shard_of_def modifiers_def)

end
