(* ===== verification/Files.thy ===== *)
theory Files
  imports Content Keys Padding Platform Scan
begin

text \<open>
  The files of a conversation: \<open>attachments.ts\<close>, which pads, encrypts and uploads one and brings it back, and what
  a received file is shown with (\<open>viewer.ts\<close>, \<open>textfile.ts\<close>, \<open>preview.ts\<close>). AES-GCM and the server are parameters.
\<close>

subsection \<open>Sending a file\<close>

definition server_ceiling :: nat where "server_ceiling = 25 * 1024 * 1024"
definition gcm_tag :: nat where "gcm_tag = 16"
definition top_bucket :: nat where "top_bucket = server_ceiling - gcm_tag"
definition max_attachment_bytes :: nat where "max_attachment_bytes = top_bucket - 1"

record sent_file =
  fl_name :: jsstr
  fl_mime :: jsstr
  fl_bytes :: bytes

datatype file_error = FileTooLarge | FileDoesNotPad padding_error | UploadFailed

text \<open>\<open>encryptAndUpload\<close>, with the key and the nonce it draws; \<open>upload\<close> answers with the id of what it keeps.\<close>

definition encrypt_and_upload ::
    "(bytes \<Rightarrow> bytes \<Rightarrow> bytes \<Rightarrow> bytes) \<Rightarrow> bytes \<Rightarrow> bytes \<Rightarrow> (bytes \<Rightarrow> jsstr option) \<Rightarrow> sent_file \<Rightarrow> file_error + attachment_ref" where
  "encrypt_and_upload enc key iv upload f =
     (if length (fl_bytes f) > max_attachment_bytes then Inl FileTooLarge
      else case pad (Some top_bucket) (fl_bytes f) of
        Inl e \<Rightarrow> Inl (FileDoesNotPad e)
      | Inr plaintext \<Rightarrow>
          (case upload (enc key iv plaintext) of
             None \<Rightarrow> Inl UploadFailed
           | Some name \<Rightarrow>
               Inr \<lparr>ref_id = name, ref_key = to_base64 key, ref_iv = to_base64 iv, ref_name = fl_name f,
                 ref_mime = (if fl_mime f = [] then js ''application/octet-stream'' else fl_mime f),
                 ref_size = length (fl_bytes f), ref_padded = True\<rparr>))"

datatype download_error = NotServed | NotBase64Ref | DoesNotDecrypt | BadPadding padding_error

text \<open>\<open>downloadAndDecrypt\<close>: the type and the bytes of the blob.\<close>

definition download_and_decrypt ::
    "(bytes \<Rightarrow> bytes \<Rightarrow> bytes \<Rightarrow> bytes option) \<Rightarrow> (jsstr \<Rightarrow> bytes option) \<Rightarrow> attachment_ref \<Rightarrow> download_error + jsstr \<times> bytes" where
  "download_and_decrypt dec fetch r =
     (case fetch (ref_id r) of
        None \<Rightarrow> Inl NotServed
      | Some ciphertext \<Rightarrow>
          (case (from_base64 (ref_key r), from_base64 (ref_iv r)) of
             (Inr key, Inr iv) \<Rightarrow>
               (case dec key iv ciphertext of
                  None \<Rightarrow> Inl DoesNotDecrypt
                | Some decrypted \<Rightarrow>
                    if ref_padded r then (case unpad decrypted of Inl e \<Rightarrow> Inl (BadPadding e) | Inr p \<Rightarrow> Inr (ref_mime r, p))
                    else Inr (ref_mime r, decrypted))
           | _ \<Rightarrow> Inl NotBase64Ref))"

lemma fits_iff: "length b \<le> max_attachment_bytes \<longleftrightarrow> below (length b) (Some top_bucket)"
  by (simp add: max_attachment_bytes_def below_def top_bucket_def server_ceiling_def gcm_tag_def) linarith

text \<open>A file within the limit is never refused by its padding, what is uploaded is never above what the server
  takes, and a file uploaded and kept is downloaded as it was, under the type it declared
  (\<open>attachments.ts\<close>, \<open>encryptAndUpload\<close> and \<open>downloadAndDecrypt\<close>).\<close>

theorem attachment_comes_back:
  assumes "aead enc dec" and "length iv = 12" and "length (fl_bytes f) \<le> max_attachment_bytes"
    and "\<And>c. length c \<le> server_ceiling \<Longrightarrow> \<exists>name. upload c = Some name \<and> fetch name = Some c"
  shows "\<exists>r. encrypt_and_upload enc key iv upload f = Inr r \<and> ref_size r = length (fl_bytes f) \<and>
    download_and_decrypt dec fetch r = Inr (ref_mime r, fl_bytes f)"
proof -
  from assms(3) obtain p where p: "pad (Some top_bucket) (fl_bytes f) = Inr p"
    unfolding fits_iff by (simp add: pad_def)
  have "length p \<le> top_bucket" using length_pad [OF p] bucket_le_ceiling by simp
  then have "length (enc key iv p) \<le> server_ceiling"
    using assms(1,2) by (simp add: aead_def top_bucket_def gcm_tag_def server_ceiling_def)
  then obtain name where name: "upload (enc key iv p) = Some name" "fetch name = Some (enc key iv p)"
    using assms(4) by blast
  have "dec key iv (enc key iv p) = Some p" using assms(1,2) by (simp add: aead_def)
  then show ?thesis
    using assms(3) p name
    by (simp add: encrypt_and_upload_def download_and_decrypt_def unpad_pad [OF p] from_to_base64)
qed

text \<open>What the server sees of a file is its bucket.\<close>

lemma upload_shows_bucket:
  "aead enc dec \<Longrightarrow> length iv = 12 \<Longrightarrow> pad (Some top_bucket) b = Inr p \<Longrightarrow>
     length (enc key iv p) = bucket (length b + 1) (Some top_bucket) + 16"
  using length_pad by (simp add: aead_def)

definition plain_file :: sent_file where
  "plain_file = \<lparr>fl_name = js ''a.txt'', fl_mime = [], fl_bytes = [1, 2, 3]\<rparr>"

lemma attachment_comes_back_witness:
  "\<exists>r. encrypt_and_upload clear_enc [9] (replicate 12 0) (\<lambda>c. Some (map ucast c)) plain_file = Inr r \<and>
     download_and_decrypt clear_dec (\<lambda>n. Some (map ucast n)) r = Inr (ref_mime r, [1, 2, 3])"
proof -
  have "\<exists>name. (\<lambda>c. Some (map ucast c :: jsstr)) c = Some name \<and> (\<lambda>n. Some (map ucast n :: bytes)) name = Some c" for c :: bytes
    by (simp add: map_idI ucast_up_ucast_id is_up)
  from attachment_comes_back [OF aead_clear _ _ this, of "replicate 12 0" plain_file "[9]"]
  show ?thesis by (auto simp: plain_file_def max_attachment_bytes_def top_bucket_def server_ceiling_def gcm_tag_def)
qed

subsection \<open>Which viewer\<close>

datatype viewer_kind = ImageViewer | TextViewer | AudioViewer | PdfViewer

definition base_type :: "(jsstr \<Rightarrow> jsstr) \<Rightarrow> jsstr \<Rightarrow> jsstr" where
  "base_type lower mime = lower (trim (hd (split_on 0x3B mime)))"

text \<open>The last segment of a name, and what follows its last full stop unless it begins the segment.\<close>

definition last_segment :: "jsstr \<Rightarrow> jsstr" where
  "last_segment name = rev (takeWhile (\<lambda>u. u \<noteq> 0x2F \<and> u \<noteq> 0x5C) (rev name))"

definition raw_extension :: "jsstr \<Rightarrow> jsstr option" where
  "raw_extension name =
     (let base = last_segment name; ext = rev (takeWhile (\<lambda>u. u \<noteq> 0x2E) (rev base)) in
      if length ext + 1 < length base then Some ext else None)"

definition extension_of :: "(jsstr \<Rightarrow> jsstr) \<Rightarrow> jsstr \<Rightarrow> jsstr" where
  "extension_of lower name = (case raw_extension name of None \<Rightarrow> [] | Some ext \<Rightarrow> lower ext)"

definition pdf_types :: "jsstr list" where
  "pdf_types = [js ''application/pdf'', js ''application/x-pdf'']"

definition audio_extensions :: "jsstr list" where
  "audio_extensions = map js [''mp3'', ''m4a'', ''aac'', ''ogg'', ''oga'', ''opus'', ''wav'', ''flac'', ''weba'', ''webm'']"

definition text_types :: "jsstr list" where
  "text_types = map js [''application/json'', ''application/xml'', ''application/javascript'', ''application/ecmascript'',
     ''application/x-sh'', ''application/x-shellscript'', ''application/toml'', ''application/yaml'', ''application/x-yaml'']"

definition text_extensions :: "jsstr list" where
  "text_extensions = map js
    [''txt'', ''text'', ''log'', ''md'', ''markdown'', ''rst'', ''adoc'',
     ''csv'', ''tsv'', ''json'', ''jsonl'', ''ndjson'', ''xml'', ''yaml'', ''yml'', ''toml'', ''ini'', ''cfg'', ''conf'', ''env'',
     ''ts'', ''tsx'', ''js'', ''jsx'', ''mjs'', ''cjs'', ''rs'', ''py'', ''rb'', ''go'', ''java'', ''kt'', ''kts'', ''swift'',
     ''c'', ''h'', ''cc'', ''cpp'', ''hpp'', ''cs'', ''php'', ''pl'', ''lua'', ''sh'', ''bash'', ''zsh'', ''fish'', ''ps1'',
     ''sql'', ''graphql'', ''gql'', ''proto'', ''css'', ''scss'', ''sass'', ''less'', ''html'', ''htm'', ''xhtml'', ''svg'',
     ''vue'', ''svelte'', ''astro'', ''diff'', ''patch'', ''gitignore'', ''dockerfile'', ''makefile'', ''lock'']"

definition text_names :: "jsstr list" where
  "text_names = map js
    [''readme'', ''license'', ''licence'', ''changelog'', ''authors'', ''contributing'', ''notice'',
     ''makefile'', ''dockerfile'', ''gemfile'', ''rakefile'', ''procfile'', ''justfile'',
     ''.gitignore'', ''.gitattributes'', ''.dockerignore'', ''.editorconfig'', ''.env'', ''.npmrc'', ''.nvmrc'']"

definition ends_with :: "jsstr \<Rightarrow> jsstr \<Rightarrow> bool" where
  "ends_with e s \<longleftrightarrow> starts_with (rev e) (rev s)"

definition looks_like_pdf :: "(jsstr \<Rightarrow> jsstr) \<Rightarrow> jsstr \<Rightarrow> jsstr \<Rightarrow> bool" where
  "looks_like_pdf lower mime name \<longleftrightarrow> base_type lower mime \<in> set pdf_types \<or> extension_of lower name = js ''pdf''"

definition looks_like_audio :: "(jsstr \<Rightarrow> jsstr) \<Rightarrow> jsstr \<Rightarrow> jsstr \<Rightarrow> bool" where
  "looks_like_audio lower mime name \<longleftrightarrow>
     starts_with (js ''audio/'') (base_type lower mime) \<or> extension_of lower name \<in> set audio_extensions"

definition looks_like_image :: "(jsstr \<Rightarrow> jsstr) \<Rightarrow> jsstr \<Rightarrow> bool" where
  "looks_like_image lower mime \<longleftrightarrow> starts_with (js ''image/'') (base_type lower mime)"

definition looks_like_text :: "(jsstr \<Rightarrow> jsstr) \<Rightarrow> jsstr \<Rightarrow> jsstr \<Rightarrow> bool" where
  "looks_like_text lower mime name \<longleftrightarrow>
     (let type = base_type lower mime in
      starts_with (js ''text/'') type \<or> type \<in> set text_types \<or> ends_with (js ''+json'') type \<or> ends_with (js ''+xml'') type \<or>
      extension_of lower name \<in> set text_extensions \<or> lower (last_segment name) \<in> set text_names)"

definition choose_viewer :: "(jsstr \<Rightarrow> jsstr) \<Rightarrow> jsstr \<Rightarrow> jsstr \<Rightarrow> viewer_kind option" where
  "choose_viewer lower mime name =
     (if looks_like_pdf lower mime name then Some PdfViewer
      else if looks_like_audio lower mime name then Some AudioViewer
      else if looks_like_image lower mime then Some ImageViewer
      else if looks_like_text lower mime name then Some TextViewer
      else None)"

text \<open>The system decoders are reached only by what announces itself: a sound by its type or its name, an image by its
  type alone. Markup no one called an image is shown as source or not at all.\<close>

theorem viewers_are_announced:
  "(choose_viewer lower mime name = Some AudioViewer \<longrightarrow>
      starts_with (js ''audio/'') (base_type lower mime) \<or> extension_of lower name \<in> set audio_extensions) \<and>
   (choose_viewer lower mime name = Some ImageViewer \<longrightarrow> starts_with (js ''image/'') (base_type lower mime)) \<and>
   (base_type lower mime = js ''text/html'' \<longrightarrow> choose_viewer lower mime name \<noteq> Some ImageViewer)"
  by (auto simp: choose_viewer_def looks_like_audio_def looks_like_image_def starts_with_def js_def)

subsection \<open>Pictures\<close>

definition max_preview_pixels :: nat where "max_preview_pixels = 80000000"

definition animatable :: "jsstr list" where
  "animatable = map js [''image/gif'', ''image/apng'', ''image/webp'', ''image/avif'']"

definition may_animate :: "(jsstr \<Rightarrow> jsstr) \<Rightarrow> jsstr \<Rightarrow> bool" where
  "may_animate lower mime \<longleftrightarrow> base_type lower mime \<in> set animatable"

definition within_pixel_budget :: "nat \<Rightarrow> nat \<Rightarrow> bool" where
  "within_pixel_budget w h \<longleftrightarrow> 0 < w \<and> 0 < h \<and> w * h \<le> max_preview_pixels"

lemma may_animate_image: "may_animate lower mime \<Longrightarrow> looks_like_image lower mime"
  by (auto simp: may_animate_def looks_like_image_def animatable_def starts_with_def js_def)

subsection \<open>Text files\<close>

definition max_text_bytes :: nat where "max_text_bytes = 1024 * 1024"
definition max_text_lines :: nat where "max_text_lines = 4000"
definition max_line_chars :: nat where "max_line_chars = 2000"

record text_file =
  tf_lines :: "jsstr list"
  tf_lang :: "jsstr option"
  tf_fewer_lines :: bool
  tf_shorter_lines :: bool

definition forbidden :: "16 word \<Rightarrow> bool" where
  "forbidden u \<longleftrightarrow> u \<le> 0x08 \<or> u = 0x0B \<or> u = 0x0C \<or> (0x0E \<le> u \<and> u \<le> 0x1F) \<or> u = 0x7F \<or>
     (0x202A \<le> u \<and> u \<le> 0x202E) \<or> (0x2066 \<le> u \<and> u \<le> 0x2069)"

text \<open>A fatal decoder: the replacing one, refused where what it read does not encode to the bytes it was given.\<close>

definition fatal_decode :: "bytes \<Rightarrow> jsstr option" where
  "fatal_decode bs =
     (let s = text_decode bs in if map unat (text_encode s) = without_bom (map unat bs) then Some s else None)"

definition decode_text :: "bytes \<Rightarrow> jsstr option" where
  "decode_text bs =
     (case fatal_decode bs of None \<Rightarrow> None | Some s \<Rightarrow> if list_ex forbidden s then None else Some s)"

definition lang_of :: "(jsstr \<Rightarrow> jsstr) \<Rightarrow> jsstr \<Rightarrow> jsstr option" where
  "lang_of lower name = map_option lower (raw_extension name)"

text \<open>\<open>text.split(/\r\n|\n|\r/)\<close>.\<close>

function split_lines :: "jsstr \<Rightarrow> jsstr list" where
  "split_lines [] = [[]]"
| "split_lines (u # s) =
     (if u = 0x0A then [] # split_lines s
      else if u = 0x0D then [] # split_lines (if s \<noteq> [] \<and> hd s = 0x0A then tl s else s)
      else case split_lines s of line # rest \<Rightarrow> (u # line) # rest | [] \<Rightarrow> [[u]])"
  by pat_completeness auto
termination by (relation "measure length") auto

definition prepare_text :: "(jsstr \<Rightarrow> jsstr) \<Rightarrow> jsstr \<Rightarrow> jsstr \<Rightarrow> text_file" where
  "prepare_text lower s name =
     (let all = split_lines s; kept = (if length all > max_text_lines then take max_text_lines all else all) in
      \<lparr>tf_lines = map (\<lambda>line. if length line \<le> max_line_chars then line else take max_line_chars line) kept,
       tf_lang = lang_of lower name,
       tf_fewer_lines = (length all > max_text_lines),
       tf_shorter_lines = list_ex (\<lambda>line. length line > max_line_chars) kept\<rparr>)"

definition read_text :: "(jsstr \<Rightarrow> jsstr) \<Rightarrow> bytes \<Rightarrow> jsstr \<Rightarrow> text_file option" where
  "read_text lower blob name =
     (if length blob > max_text_bytes then None
      else map_option (\<lambda>s. prepare_text lower s name) (decode_text blob))"

lemma split_lines_nonempty [simp]: "split_lines s \<noteq> []"
  by (induction s rule: split_lines.induct) (auto split: list.splits)

lemma split_lines_clean: "list_all (\<lambda>line. 0x0A \<notin> set line \<and> 0x0D \<notin> set line) (split_lines s)"
  by (induction s rule: split_lines.induct) (auto split: list.splits)

lemma split_lines_newline: "0x0D \<notin> set s \<Longrightarrow> split_lines s = split_on 0x0A s"
  by (induction s rule: split_lines.induct) auto

lemma prepare_whole:
  assumes "\<not> tf_fewer_lines (prepare_text lower s name)" and "\<not> tf_shorter_lines (prepare_text lower s name)"
  shows "tf_lines (prepare_text lower s name) = split_lines s"
proof -
  have "tf_lines (prepare_text lower s name) =
      map (\<lambda>line. if length line \<le> max_line_chars then line else take max_line_chars line) (split_lines s)"
    using assms(1) by (simp add: prepare_text_def Let_def)
  also have "\<dots> = split_lines s"
    using assms by (intro map_idI) (auto simp: prepare_text_def Let_def list_ex_iff)
  finally show ?thesis .
qed

text \<open>A file that is UTF-8, that carries no control character and that breaks its lines with line feeds is shown as
  what it is, unless the viewer says that it left lines or columns out; whatever it is, what is shown is bounded,
  with no line break inside a line (\<open>textfile.ts\<close>, \<open>readText\<close>).\<close>

theorem text_file_shown:
  assumes "plain_text s" and "\<not> list_ex forbidden s" and "0x0D \<notin> set s" and "length (text_encode s) \<le> max_text_bytes"
  shows "\<exists>f. read_text lower (text_encode s) name = Some f \<and>
    (tf_fewer_lines f \<or> tf_shorter_lines f \<or> joined [0x0A] (tf_lines f) = s)"
proof -
  have "fatal_decode (text_encode s) = Some s"
    using assms(1) by (simp add: fatal_decode_def text_decode_encode without_bom_text)
  then have "read_text lower (text_encode s) name = Some (prepare_text lower s name)"
    using assms(2,4) by (simp add: read_text_def decode_text_def)
  moreover have "tf_fewer_lines (prepare_text lower s name) \<or> tf_shorter_lines (prepare_text lower s name) \<or>
      joined [0x0A] (tf_lines (prepare_text lower s name)) = s"
    using prepare_whole [of lower s name] split_lines_newline [OF assms(3)] joined_split_on [of "0x0A" s] by force
  ultimately show ?thesis by blast
qed

lemma text_file_bounded:
  "read_text lower blob name = Some f \<Longrightarrow>
     length (tf_lines f) \<le> max_text_lines \<and>
     list_all (\<lambda>line. length line \<le> max_line_chars \<and> 0x0A \<notin> set line \<and> 0x0D \<notin> set line) (tf_lines f)"
proof -
  assume "read_text lower blob name = Some f"
  then obtain s where f: "f = prepare_text lower s name" by (auto simp: read_text_def split: if_splits)
  have "\<exists>l \<in> set (split_lines s). line = take max_line_chars l" if "line \<in> set (tf_lines f)" for line
  proof -
    have "(if length l \<le> max_line_chars then l else take max_line_chars l) = take max_line_chars l" for l :: jsstr by simp
    then have "tf_lines f = map (take max_line_chars) (take max_text_lines (split_lines s))"
      by (simp add: f prepare_text_def Let_def)
    with that show ?thesis using in_set_takeD by fastforce
  qed
  then have "list_all (\<lambda>line. length line \<le> max_line_chars \<and> 0x0A \<notin> set line \<and> 0x0D \<notin> set line) (tf_lines f)"
    using split_lines_clean [of s] by (fastforce simp: list_all_iff dest: in_set_takeD)
  moreover have "length (tf_lines f) \<le> max_text_lines" by (simp add: f prepare_text_def Let_def)
  ultimately show ?thesis by blast
qed

end
