(* ===== verification/Highlight.thy ===== *)
theory Highlight
  imports Scan
begin

text \<open>
  \<open>highlight.ts\<close>: the colouring of a code block, a tokeniser over the grammars of its table. The loop is a
  \<open>partial_function\<close>, so that a loop that did not advance would have no value; that it always has one, whose tokens
  are the code, is what the theory proves.
\<close>

datatype kind = CommentToken | StringToken | KeywordToken | NumberToken | PunctToken | PlainToken

record token =
  tk_kind :: kind
  tk_text :: jsstr

definition max_highlight :: nat where "max_highlight = 20000"
definition max_tokens :: nat where "max_tokens = 5000"

record string_rule =
  sr_open :: jsstr
  sr_close :: jsstr
  sr_escape :: "jsstr option"

record grammar =
  gr_line_comment :: "jsstr list"
  gr_block_comment :: "(jsstr \<times> jsstr) list"
  gr_strings :: "string_rule list"
  gr_keywords :: "jsstr list"

subsection \<open>The table\<close>

definition word_list :: "string \<Rightarrow> jsstr list" where
  "word_list s = split_on 0x20 (js s)"

definition quoted_by :: "string \<Rightarrow> string_rule" where
  "quoted_by q = \<lparr>sr_open = js q, sr_close = js q, sr_escape = Some [0x5C]\<rparr>"

definition raw_by :: "string \<Rightarrow> string_rule" where
  "raw_by q = \<lparr>sr_open = js q, sr_close = js q, sr_escape = None\<rparr>"

definition double_quote :: string where "double_quote = [CHR 0x22]"
definition single_quote :: string where "single_quote = [CHR 0x27]"
definition backtick :: string where "backtick = [CHR 0x60]"

definition both_quotes :: "string_rule list" where
  "both_quotes = [quoted_by double_quote, quoted_by single_quote]"

definition c_comments :: "(jsstr \<times> jsstr) list" where
  "c_comments = [(js ''/*'', js ''*/'')]"

definition grammar_of ::
    "string list \<Rightarrow> (jsstr \<times> jsstr) list \<Rightarrow> string_rule list \<Rightarrow> string \<Rightarrow> grammar" where
  "grammar_of lines blocks strings keywords =
     \<lparr>gr_line_comment = map js lines, gr_block_comment = blocks, gr_strings = strings, gr_keywords = word_list keywords\<rparr>"

definition grammars :: "(jsstr \<times> grammar) list" where
  "grammars =
    [(js ''ts'', grammar_of [''//''] c_comments (both_quotes @ [quoted_by backtick])
        ''abstract as async await break case catch class const continue declare default delete do else enum export extends false finally for from function get if implements import in instanceof interface is keyof let new null of private protected public readonly return satisfies set static super switch this throw true try type typeof undefined var void while yield''),
     (js ''rust'', grammar_of [''//''] c_comments [quoted_by double_quote]
        ''as async await break const continue crate dyn else enum extern false fn for if impl in let loop match mod move mut pub ref return self Self static struct super trait true type unsafe use where while''),
     (js ''python'', grammar_of [''#''] [] ([raw_by (concat (replicate 3 double_quote)), raw_by (concat (replicate 3 single_quote))] @ both_quotes)
        ''and as assert async await break class continue def del elif else except False finally for from global if import in is lambda None nonlocal not or pass raise return True try while with yield''),
     (js ''go'', grammar_of [''//''] c_comments (both_quotes @ [raw_by backtick])
        ''break case chan const continue default defer else fallthrough for func go goto if import interface map package range return select struct switch type var nil true false''),
     (js ''json'', grammar_of [] [] [quoted_by double_quote] ''true false null''),
     (js ''sql'', grammar_of [''--''] c_comments [quoted_by single_quote]
        ''add all alter and as asc between by case create delete desc distinct drop else end exists from full group having if in index inner insert into is join left limit not null on or order outer primary references right select set table then union unique update values where''),
     (js ''bash'', grammar_of [''#''] [] both_quotes
        ''case do done elif else esac export fi for function if in local return then until while echo cd set unset source''),
     (js ''css'', grammar_of [] c_comments both_quotes ''important media import supports keyframes from to and not only''),
     (js ''yaml'', grammar_of [''#''] [] both_quotes ''true false null yes no on off''),
     (js ''html'', grammar_of [] [(js ''<!--'', js ''-->'')] both_quotes '''')]"

definition aliases :: "(jsstr \<times> jsstr) list" where
  "aliases = map (\<lambda>(a, g). (js a, js g))
    [(''typescript'', ''ts''), (''tsx'', ''ts''), (''js'', ''ts''), (''javascript'', ''ts''), (''jsx'', ''ts''),
     (''mjs'', ''ts''), (''cjs'', ''ts''), (''rs'', ''rust''), (''py'', ''python''), (''golang'', ''go''),
     (''sh'', ''bash''), (''shell'', ''bash''), (''zsh'', ''bash''), (''yml'', ''yaml''), (''scss'', ''css''),
     (''xml'', ''html''), (''svg'', ''html''), (''jsonc'', ''json''), (''postgres'', ''sql''), (''psql'', ''sql'')]"

definition grammar_for :: "(jsstr \<Rightarrow> jsstr) \<Rightarrow> jsstr option \<Rightarrow> grammar option" where
  "grammar_for lower lang =
     (case lang of
        None \<Rightarrow> None
      | Some l \<Rightarrow> map_of grammars (case map_of aliases (lower l) of Some g \<Rightarrow> g | None \<Rightarrow> lower l))"

subsection \<open>One token\<close>

definition ident_start :: "16 word \<Rightarrow> bool" where
  "ident_start u \<longleftrightarrow> lower_letter u \<or> upper_letter u \<or> u = 0x5F \<or> u = 0x24"

definition ident_char :: "16 word \<Rightarrow> bool" where
  "ident_char u \<longleftrightarrow> ident_start u \<or> digit u"

text \<open>\<open>[0-9A-Fa-fxXoObB._]\<close> and \<open>PUNCT\<close>.\<close>

definition number_char :: "16 word \<Rightarrow> bool" where
  "number_char u \<longleftrightarrow> digit u \<or> (0x41 \<le> u \<and> u \<le> 0x46) \<or> (0x61 \<le> u \<and> u \<le> 0x66) \<or> u \<in> set (js ''xXoObB._'')"

definition punct_char :: "16 word \<Rightarrow> bool" where
  "punct_char u \<longleftrightarrow> u \<in> set (js ''{}()[];:,.<>+-*/%=!&|^~?@#'')"

text \<open>Where \<open>t\<close> first occurs in \<open>s\<close>.\<close>

fun find_text :: "jsstr \<Rightarrow> jsstr \<Rightarrow> nat option" where
  "find_text t [] = (if t = [] then Some 0 else None)"
| "find_text t (u # s) = (if starts_with t (u # s) then Some 0 else map_option Suc (find_text t s))"

text \<open>How far a string goes, from its opening on: past its close, or to the end.\<close>

function string_length :: "string_rule \<Rightarrow> jsstr \<Rightarrow> nat" where
  "string_length r [] = 0"
| "string_length r (u # s) =
     (case sr_escape r of
        Some e \<Rightarrow>
          if starts_with e (u # s) then length e + 1 + string_length r (drop (length e) s)
          else if starts_with (sr_close r) (u # s) then length (sr_close r)
          else Suc (string_length r s)
      | None \<Rightarrow> if starts_with (sr_close r) (u # s) then length (sr_close r) else Suc (string_length r s))"
  by pat_completeness auto
termination by (relation "measure (\<lambda>(r, s). length s)") auto

text \<open>The kind and the length of the token at the head of \<open>s\<close>; \<open>PlainToken\<close> joins the text around it.\<close>

definition next_token :: "grammar \<Rightarrow> jsstr \<Rightarrow> kind \<times> nat" where
  "next_token g s =
     (case find (\<lambda>(opening, closing). starts_with opening s) (gr_block_comment g) of
        Some (opening, closing) \<Rightarrow>
          (CommentToken, case find_text closing (drop (length opening) s) of
             None \<Rightarrow> length s | Some n \<Rightarrow> length opening + n + length closing)
      | None \<Rightarrow>
     (case find (\<lambda>opening. starts_with opening s) (gr_line_comment g) of
        Some opening \<Rightarrow> (CommentToken, case index_from 0x0A 0 s of None \<Rightarrow> length s | Some n \<Rightarrow> n)
      | None \<Rightarrow>
     (case find (\<lambda>r. starts_with (sr_open r) s) (sort_key (\<lambda>r. - int (length (sr_open r))) (gr_strings g)) of
        Some r \<Rightarrow> (StringToken, min (length (sr_open r) + string_length r (drop (length (sr_open r)) s)) (length s))
      | None \<Rightarrow>
     (let u = hd s in
      if digit u then (NumberToken, length (takeWhile number_char s))
      else if ident_start u then
        (let word = takeWhile ident_char s in
         (if word \<in> set (gr_keywords g) then KeywordToken else PlainToken, length word))
      else if punct_char u then (PunctToken, 1)
      else (PlainToken, 1)))))"

subsection \<open>The loop\<close>

definition flush_plain :: "jsstr \<Rightarrow> token list \<Rightarrow> token list" where
  "flush_plain text out = (if text = [] then out else out @ [\<lparr>tk_kind = PlainToken, tk_text = text\<rparr>])"

definition whole :: "jsstr \<Rightarrow> token list" where
  "whole code = [\<lparr>tk_kind = PlainToken, tk_text = code\<rparr>]"

partial_function (option) read_code :: "grammar \<Rightarrow> jsstr \<Rightarrow> jsstr \<Rightarrow> token list \<Rightarrow> jsstr \<Rightarrow> token list option" where
  "read_code g code s out gathered =
     (if s = [] then Some (flush_plain gathered out)
      else if length out > max_tokens then Some (whole code)
      else (case next_token g s of
        (k, n) \<Rightarrow>
          if k = PlainToken then read_code g code (drop n s) out (gathered @ take n s)
          else read_code g code (drop n s) (flush_plain gathered out @ [\<lparr>tk_kind = k, tk_text = take n s\<rparr>]) []))"

definition tokenize :: "(jsstr \<Rightarrow> jsstr) \<Rightarrow> jsstr \<Rightarrow> jsstr option \<Rightarrow> token list option" where
  "tokenize lower code lang =
     (case grammar_for lower lang of
        None \<Rightarrow> Some (if code = [] then [] else whole code)
      | Some g \<Rightarrow>
          if length code > max_highlight then Some (if code = [] then [] else whole code)
          else read_code g code code [] [])"

subsection \<open>Every turn advances\<close>

definition opens_visibly :: "grammar \<Rightarrow> bool" where
  "opens_visibly g \<longleftrightarrow> list_all (\<lambda>(opening, closing). opening \<noteq> []) (gr_block_comment g) \<and>
     list_all (\<lambda>opening. opening \<noteq> [] \<and> 0x0A \<notin> set opening) (gr_line_comment g) \<and>
     list_all (\<lambda>r. sr_open r \<noteq> []) (gr_strings g)"

lemma grammars_open: "list_all (\<lambda>(name, g). opens_visibly g) grammars"
  by (simp add: grammars_def opens_visibly_def grammar_of_def c_comments_def both_quotes_def quoted_by_def raw_by_def
      double_quote_def single_quote_def backtick_def js_def)

lemma grammar_for_open: "grammar_for lower lang = Some g \<Longrightarrow> opens_visibly g"
  using grammars_open
  by (auto simp: grammar_for_def list_all_iff split: option.splits dest!: map_of_SomeD)

lemma starts_with_length: "starts_with p s \<Longrightarrow> length p \<le> length s"
  unfolding starts_with_def by (metis length_take min.cobounded2 min_def take_all_iff nat_le_linear)

lemma find_openings:
  "find (\<lambda>(a, b). starts_with a s) xs = Some (x, y) \<Longrightarrow> list_all (\<lambda>(a, b). a \<noteq> []) xs \<Longrightarrow> x \<noteq> [] \<and> starts_with x s"
  "find (\<lambda>a. starts_with a s) ls = Some l \<Longrightarrow> list_all (\<lambda>a. a \<noteq> [] \<and> Q a) ls \<Longrightarrow> l \<noteq> [] \<and> Q l \<and> starts_with l s"
  "find (\<lambda>r. starts_with (sr_open r) s) rs = Some r \<Longrightarrow> list_all (\<lambda>r. sr_open r \<noteq> []) rs \<Longrightarrow>
     sr_open r \<noteq> [] \<and> starts_with (sr_open r) s"
  by (auto simp: find_Some_iff list_all_length)

lemma find_text_bound: "find_text t s = Some n \<Longrightarrow> n + length t \<le> length s"
  by (induction t s arbitrary: n rule: find_text.induct) (auto split: if_splits dest: starts_with_length)

lemma index_from_later:
  assumes "starts_with p s" and "p \<noteq> []" and "c \<notin> set p" and "index_from c 0 s = Some n"
  shows "0 < n \<and> n < length s"
proof -
  have "s ! n = c" "n < length s" using index_from_Some [OF assms(4)] by simp_all
  moreover have "s ! 0 \<in> set p"
    using assms(1,2) by (metis starts_with_def length_greater_0_conv nth_mem nth_take)
  ultimately show ?thesis using assms(3) by (cases n) auto
qed

text \<open>A token takes something of what is left, and nothing more.\<close>

lemma next_token_bounds:
  assumes "opens_visibly g" and "s \<noteq> []" and "next_token g s = (k, n)"
  shows "0 < n \<and> n \<le> length s"
proof -
  note open_ok = assms(1) [unfolded opens_visibly_def]
  have sorted: "list_all (\<lambda>r. sr_open r \<noteq> []) (sort_key (\<lambda>r. - int (length (sr_open r))) (gr_strings g))"
    using open_ok by (simp add: list_all_iff)
  have run: "0 < length (takeWhile P s) \<and> length (takeWhile P s) \<le> length s" if "P (hd s)" for P
    using assms(2) that by (cases s) (simp_all add: length_takeWhile_le)
  show ?thesis
  proof (cases "find (\<lambda>(opening, closing). starts_with opening s) (gr_block_comment g)")
    case (Some oc)
    obtain a b where oc: "oc = (a, b)" by (cases oc)
    from find_openings(1) [OF Some [unfolded oc] conjunct1 [OF open_ok]]
    have ab: "oc = (a, b)" "a \<noteq> []" "starts_with a s" using oc by simp_all
    have "length a \<le> length s" "0 < length a" using starts_with_length [OF ab(3)] ab(2) by simp_all
    moreover have "n = (case find_text b (drop (length a) s) of None \<Rightarrow> length s | Some m \<Rightarrow> length a + m + length b)"
      using assms(3) unfolding next_token_def Some ab(1) by simp
    ultimately show ?thesis
      using find_text_bound [of b "drop (length a) s"] by (cases "find_text b (drop (length a) s)") auto
  next
    case no_block: None
    show ?thesis
    proof (cases "find (\<lambda>opening. starts_with opening s) (gr_line_comment g)")
      case (Some l)
      from find_openings(2) [OF Some conjunct1 [OF conjunct2 [OF open_ok]]]
      have "l \<noteq> [] \<and> 0x0A \<notin> set l \<and> starts_with l s" .
      moreover have "n = (case index_from 0x0A 0 s of None \<Rightarrow> length s | Some m \<Rightarrow> m)"
        using assms(3) unfolding next_token_def no_block Some by simp
      ultimately show ?thesis
        using index_from_later [of l s "0x0A"] assms(2) by (cases "index_from 0x0A 0 s") auto
    next
      case no_line: None
      show ?thesis
      proof (cases "find (\<lambda>r. starts_with (sr_open r) s) (sort_key (\<lambda>r. - int (length (sr_open r))) (gr_strings g))")
        case (Some r)
        have "n = min (length (sr_open r) + string_length r (drop (length (sr_open r)) s)) (length s)"
          using assms(3) unfolding next_token_def no_block no_line Some by simp
        with find_openings(3) [OF Some sorted] assms(2) show ?thesis by simp
      next
        case None
        have chars: "digit u \<Longrightarrow> number_char u" "ident_start u \<Longrightarrow> ident_char u" for u
          by (simp_all add: number_char_def ident_char_def)
        have "1 \<le> length s" using assms(2) by (cases s) simp_all
        then show ?thesis
          using assms(3) run [of number_char] run [of ident_char] chars [of "hd s"]
          unfolding next_token_def no_block no_line None option.case Let_def
          by (cases "digit (hd s)"; cases "ident_start (hd s)"; cases "punct_char (hd s)"; simp; force)
      qed
    qed
  qed
qed

subsection \<open>The tokens are the code\<close>

definition texts :: "token list \<Rightarrow> jsstr" where
  "texts ts = concat (map tk_text ts)"

lemma texts_flush_plain: "texts (flush_plain t out) = texts out @ t"
  by (simp add: texts_def flush_plain_def)

text \<open>The loop has a value, which is the code cut up, in no more tokens than the ceiling and the turn that meets it.\<close>

lemma read_code_whole:
  assumes "opens_visibly g" and "texts out @ gathered @ s = code" and "list_all (\<lambda>t. tk_text t \<noteq> []) out" and "code \<noteq> []"
    and "length out + (if gathered = [] then 0 else 1) \<le> max_tokens + 2"
  shows "\<exists>ts. read_code g code s out gathered = Some ts \<and> texts ts = code \<and> list_all (\<lambda>t. tk_text t \<noteq> []) ts
    \<and> length ts \<le> max_tokens + 2"
  using assms(2,3,5)
proof (induction "length s" arbitrary: s out gathered rule: less_induct)
  case less
  show ?case
  proof (cases "s = []")
    case True
    then show ?thesis
      using less.prems by (subst read_code.simps) (simp add: texts_flush_plain, auto simp: flush_plain_def split: if_splits)
  next
    case False
    obtain k n where tok: "next_token g s = (k, n)" by (cases "next_token g s")
    from next_token_bounds [OF assms(1) False tok] have n: "0 < n" "n \<le> length s" by simp_all
    then have shorter: "length (drop n s) < length s" and some: "take n s \<noteq> []" using False by simp_all
    show ?thesis
    proof (cases "length out > max_tokens")
      case True
      with False assms(4) show ?thesis
        by (subst read_code.simps) (simp add: texts_def whole_def max_tokens_def)
    next
      case few: False
      show ?thesis
      proof (cases "k = PlainToken")
        case True
        have "\<exists>ts. read_code g code (drop n s) out (gathered @ take n s) = Some ts \<and> texts ts = code \<and>
            list_all (\<lambda>t. tk_text t \<noteq> []) ts \<and> length ts \<le> max_tokens + 2"
          by (rule less.hyps [OF shorter]) (use less.prems few in simp_all)
        with False few tok True show ?thesis by (subst read_code.simps) simp
      next
        case other: False
        let ?out = "flush_plain gathered out @ [\<lparr>tk_kind = k, tk_text = take n s\<rparr>]"
        have "\<exists>ts. read_code g code (drop n s) ?out [] = Some ts \<and> texts ts = code \<and>
            list_all (\<lambda>t. tk_text t \<noteq> []) ts \<and> length ts \<le> max_tokens + 2"
        proof (rule less.hyps [OF shorter])
          show "texts ?out @ [] @ drop n s = code"
            using less.prems(1) texts_flush_plain [of gathered out] by (simp add: texts_def)
          show "list_all (\<lambda>t. tk_text t \<noteq> []) ?out" using less.prems(2) some by (simp add: flush_plain_def)
          show "length ?out + (if [] = [] then 0 else 1) \<le> max_tokens + 2" using few by (simp add: flush_plain_def)
        qed
        with False few tok other show ?thesis by (subst read_code.simps) simp
      qed
    qed
  qed
qed

text \<open>Colouring a block always ends, and neither loses, adds nor moves a character of it, whatever the language it
  names and whatever it leaves unterminated; no token is empty and they are two more than the ceiling at most
  (\<open>highlight.ts\<close>, \<open>tokenize\<close>).\<close>

theorem highlight_keeps_code:
  "\<exists>ts. tokenize lower code lang = Some ts \<and> concat (map tk_text ts) = code \<and>
     list_all (\<lambda>t. tk_text t \<noteq> []) ts \<and> length ts \<le> max_tokens + 2"
proof (cases "grammar_for lower lang")
  case None
  then show ?thesis by (simp add: tokenize_def whole_def max_tokens_def)
next
  case (Some g)
  show ?thesis
  proof (cases "length code > max_highlight \<or> code = []")
    case True
    then show ?thesis
      using Some by (auto simp: tokenize_def whole_def max_tokens_def read_code.simps flush_plain_def)
  next
    case False
    from read_code_whole [OF grammar_for_open [OF Some], of "[]" "[]" code code] False Some show ?thesis
      by (simp add: tokenize_def texts_def)
  qed
qed

end
