(* ===== verification/Keyboard.thy ===== *)
theory Keyboard
  imports Scan
begin

text \<open>
  The keyboard of the client: how a shortcut is written, shown and recognised (\<open>shortcuts.ts\<close>), the table of them
  (\<open>keymap.ts\<close>), who answers one (\<open>Shortcuts.tsx\<close>) and how the arrows move in a list (\<open>roving.ts\<close>, \<open>useRoving.ts\<close>).
  Lower and upper casing are parameters.
\<close>

subsection \<open>Combos\<close>

record combo =
  co_mod :: bool
  co_ctrl :: bool
  co_alt :: bool
  co_shift :: bool
  co_key :: jsstr

datatype combo_error = TwoKeys | NoKey

definition no_combo :: combo where
  "no_combo = \<lparr>co_mod = False, co_ctrl = False, co_alt = False, co_shift = False, co_key = []\<rparr>"

definition modifier_names :: "jsstr list" where
  "modifier_names = map js [''mod'', ''ctrl'', ''control'', ''alt'', ''option'', ''shift'', ''meta'', ''cmd'', ''command'']"

definition key_alias :: "jsstr \<Rightarrow> jsstr" where
  "key_alias token =
     (if token = js ''esc'' then js ''escape'' else if token = js ''return'' then js ''enter''
      else if token = js ''space'' \<or> token = js ''spacebar'' then js '' '' else token)"

definition take_modifier :: "jsstr \<Rightarrow> combo \<Rightarrow> combo" where
  "take_modifier token c =
     (if token \<in> {js ''meta'', js ''cmd'', js ''command''} then c\<lparr>co_mod := True\<rparr>
      else if token \<in> {js ''ctrl'', js ''control''} then c\<lparr>co_ctrl := True\<rparr>
      else if token \<in> {js ''alt'', js ''option''} then c\<lparr>co_alt := True\<rparr>
      else if token = js ''shift'' then c\<lparr>co_shift := True\<rparr>
      else c\<lparr>co_mod := True\<rparr>)"

fun parse_tokens :: "jsstr list \<Rightarrow> combo \<Rightarrow> combo_error + combo" where
  "parse_tokens [] c = (if co_key c = [] then Inl NoKey else Inr c)"
| "parse_tokens (token # tokens) c =
     (if token \<notin> set modifier_names
      then if co_key c \<noteq> [] then Inl TwoKeys else parse_tokens tokens (c\<lparr>co_key := key_alias token\<rparr>)
      else parse_tokens tokens (take_modifier token c))"

definition parse_combo :: "(jsstr \<Rightarrow> jsstr) \<Rightarrow> jsstr \<Rightarrow> combo_error + combo" where
  "parse_combo lower text =
     parse_tokens (filter (\<lambda>t. t \<noteq> []) (map (\<lambda>t. lower (trim t)) (split_on 0x2B text))) no_combo"

definition key_label :: "(jsstr \<Rightarrow> jsstr) \<Rightarrow> jsstr \<Rightarrow> jsstr" where
  "key_label upper key =
     (case map_of [(js '' '', js ''Space''), (js ''arrowdown'', [0x2193]), (js ''arrowleft'', [0x2190]), (js ''arrowright'', [0x2192]),
         (js ''arrowup'', [0x2191]), (js ''backspace'', [0x232B]), (js ''enter'', [0x21B5]), (js ''escape'', js ''Esc''),
         (js ''tab'', [0x21E5])] key of
        Some label \<Rightarrow> label | None \<Rightarrow> upper key)"

definition shown_combo :: "(jsstr \<Rightarrow> jsstr) \<Rightarrow> bool \<Rightarrow> combo \<Rightarrow> jsstr" where
  "shown_combo upper apple c =
     (if apple
      then (if co_ctrl c then [0x2303] else []) @ (if co_alt c then [0x2325] else []) @ (if co_shift c then [0x21E7] else []) @
        (if co_mod c then [0x2318] else []) @ key_label upper (co_key c)
      else joined [0x2B] ((if co_mod c \<or> co_ctrl c then [js ''Ctrl''] else []) @ (if co_alt c then [js ''Alt''] else []) @
        (if co_shift c then [js ''Shift''] else []) @ [key_label upper (co_key c)]))"

definition format_shortcut :: "(jsstr \<Rightarrow> jsstr) \<Rightarrow> (jsstr \<Rightarrow> jsstr) \<Rightarrow> jsstr \<Rightarrow> bool \<Rightarrow> combo_error + jsstr" where
  "format_shortcut lower upper text apple = map_sum id (shown_combo upper apple) (parse_combo lower text)"

record chord =
  ch_key :: jsstr
  ch_meta :: bool
  ch_ctrl :: bool
  ch_alt :: bool
  ch_shift :: bool

definition punctuation_key :: "jsstr \<Rightarrow> bool" where
  "punctuation_key key \<longleftrightarrow> length key = 1 \<and> \<not> (lower_letter (hd key) \<or> digit (hd key))"

definition chord_matches :: "(jsstr \<Rightarrow> jsstr) \<Rightarrow> combo \<Rightarrow> chord \<Rightarrow> bool \<Rightarrow> bool" where
  "chord_matches lower c k apple \<longleftrightarrow>
     lower (ch_key k) = co_key c \<and>
     ch_meta k = (apple \<and> co_mod c) \<and>
     ch_ctrl k = (co_ctrl c \<or> \<not> apple \<and> co_mod c) \<and>
     ch_alt k = co_alt c \<and>
     (punctuation_key (co_key c) \<or> ch_shift k = co_shift c)"

text \<open>\<open>react\<close>: a press that repeats, or that belongs to a field being typed in, is left to it.\<close>

definition reacts_to :: "(jsstr \<Rightarrow> jsstr) \<Rightarrow> combo \<Rightarrow> bool \<Rightarrow> bool \<Rightarrow> bool \<Rightarrow> chord \<Rightarrow> bool" where
  "reacts_to lower c apple repeats editing k \<longleftrightarrow>
     \<not> repeats \<and> \<not> (\<not> co_mod c \<and> \<not> co_ctrl c \<and> \<not> co_alt c \<and> editing) \<and> chord_matches lower c k apple"

subsection \<open>The table\<close>

datatype binding_id = RailFilter | DetailToggle | SettingsOpen | HelpShortcuts
datatype binding_group = Navigation | Panels | Help

record binding =
  bi_id :: binding_id
  bi_combo :: jsstr
  bi_label :: jsstr
  bi_group :: binding_group

definition keymap :: "binding list" where
  "keymap =
     [\<lparr>bi_id = RailFilter, bi_combo = js ''mod+k'', bi_label = js ''Go to a conversation'', bi_group = Navigation\<rparr>,
      \<lparr>bi_id = DetailToggle, bi_combo = js ''mod+i'', bi_label = js ''Show conversation details'', bi_group = Panels\<rparr>,
      \<lparr>bi_id = SettingsOpen, bi_combo = js ''mod+,'', bi_label = js ''Open settings'', bi_group = Panels\<rparr>,
      \<lparr>bi_id = HelpShortcuts, bi_combo = js ''?'', bi_label = js ''Keyboard shortcuts'', bi_group = Help\<rparr>]"

definition binding_of :: "binding_id \<Rightarrow> binding option" where
  "binding_of i = find (\<lambda>b. bi_id b = i) keymap"

definition grouped_bindings :: "binding_id list \<Rightarrow> (binding_group \<times> binding list) list" where
  "grouped_bindings ids =
     filter (\<lambda>(g, bs). bs \<noteq> [])
       (map (\<lambda>g. (g, filter (\<lambda>b. bi_group b = g \<and> bi_id b \<in> set ids) keymap)) [Navigation, Panels, Help])"

subsection \<open>Who answers\<close>

text \<open>The stacks of \<open>ShortcutsProvider\<close>: handlers are told apart by the closure \<open>useBinding\<close> makes for each claim.\<close>

type_synonym stacks = "(binding_id \<times> nat list) list"

definition stack_of :: "binding_id \<Rightarrow> stacks \<Rightarrow> nat list" where
  "stack_of i s = (case map_of s i of Some hs \<Rightarrow> hs | None \<Rightarrow> [])"

definition claim_binding :: "binding_id \<Rightarrow> nat \<Rightarrow> stacks \<Rightarrow> stacks" where
  "claim_binding i h s = AList.update i (stack_of i s @ [h]) s"

definition release_binding :: "binding_id \<Rightarrow> nat \<Rightarrow> stacks \<Rightarrow> stacks" where
  "release_binding i h s =
     (let remaining = filter (\<lambda>one. one \<noteq> h) (stack_of i s) in
      if remaining = [] then AList.delete i s else AList.update i remaining s)"

definition fire_binding :: "binding_id \<Rightarrow> stacks \<Rightarrow> nat option" where
  "fire_binding i s = (if stack_of i s = [] then None else Some (last (stack_of i s)))"

definition mounted_bindings :: "stacks \<Rightarrow> binding_id list" where
  "mounted_bindings s = map fst s"

datatype registry_event = Claimed binding_id nat | Released binding_id nat

fun registry_step :: "registry_event \<Rightarrow> stacks \<Rightarrow> stacks" where
  "registry_step (Claimed i h) s = claim_binding i h s"
| "registry_step (Released i h) s = release_binding i h s"

text \<open>The whole way of a press: the bindings that are mounted, the one whose combo it is, the handler that answers.\<close>

definition pressed :: "(jsstr \<Rightarrow> jsstr) \<Rightarrow> bool \<Rightarrow> bool \<Rightarrow> bool \<Rightarrow> chord \<Rightarrow> stacks \<Rightarrow> nat list" where
  "pressed lower apple repeats editing k s =
     List.map_filter (\<lambda>b. case parse_combo lower (bi_combo b) of
         Inl _ \<Rightarrow> None
       | Inr c \<Rightarrow> if reacts_to lower c apple repeats editing k then fire_binding (bi_id b) s else None)
       (filter (\<lambda>b. bi_id b \<in> set (mounted_bindings s)) keymap)"

subsection \<open>Roving\<close>

datatype orientation = Vertical | Horizontal

definition forward_key :: "orientation \<Rightarrow> jsstr" where
  "forward_key r = (case r of Vertical \<Rightarrow> js ''ArrowDown'' | Horizontal \<Rightarrow> js ''ArrowRight'')"

definition backward_key :: "orientation \<Rightarrow> jsstr" where
  "backward_key r = (case r of Vertical \<Rightarrow> js ''ArrowUp'' | Horizontal \<Rightarrow> js ''ArrowLeft'')"

definition position_of :: "'a list \<Rightarrow> 'a \<Rightarrow> nat option" where
  "position_of xs x = (if x \<in> set xs then Some (length (takeWhile (\<lambda>y. y \<noteq> x) xs)) else None)"

definition move_in :: "jsstr list \<Rightarrow> jsstr option \<Rightarrow> jsstr \<Rightarrow> orientation \<Rightarrow> bool \<Rightarrow> jsstr option" where
  "move_in items current key r wrap =
     (if items = [] then None
      else if key = js ''Home'' then (if current = Some (hd items) then None else Some (hd items))
      else if key = js ''End'' then (if current = Some (last items) then None else Some (last items))
      else if key \<noteq> forward_key r \<and> key \<noteq> backward_key r then None
      else
        (let forward = (key = forward_key r); wrapped = (if forward then hd items else last items) in
         case Option.bind current (position_of items) of
           None \<Rightarrow> Some wrapped
         | Some at \<Rightarrow>
             if forward \<and> at + 1 < length items then Some (items ! (at + 1))
             else if \<not> forward \<and> 0 < at then Some (items ! (at - 1))
             else if \<not> wrap \<or> current = Some wrapped then None else Some wrapped))"

text \<open>Where the one tab stop of a list is.\<close>

definition tab_stop :: "jsstr list \<Rightarrow> jsstr option \<Rightarrow> jsstr option \<Rightarrow> jsstr option" where
  "tab_stop ids anchor preferred =
     (let held = (\<lambda>i. case i of Some x \<Rightarrow> if x \<in> set ids then Some x else None | None \<Rightarrow> None) in
      case held anchor of Some x \<Rightarrow> Some x
      | None \<Rightarrow> (case held preferred of Some x \<Rightarrow> Some x | None \<Rightarrow> if ids = [] then None else Some (hd ids)))"

subsection \<open>A press answers one shortcut\<close>

definition lowers_ascii :: "(jsstr \<Rightarrow> jsstr) \<Rightarrow> bool" where
  "lowers_ascii lower \<longleftrightarrow> list_all (\<lambda>s. lower (js s) = js s) [''mod'', ''k'', ''i'', '','', ''?'']"

lemma split_ascii: "split_on 0x2B (js ''mod+k'') = [js ''mod'', js ''k'']" "split_on 0x2B (js ''mod+i'') = [js ''mod'', js ''i'']"
  "split_on 0x2B (js ''mod+,'') = [js ''mod'', js '','']" "split_on 0x2B (js ''?'') = [js ''?'']"
  by (simp_all add: js_def)

lemma trim_ascii: "trim (js ''mod'') = js ''mod''" "trim (js ''k'') = js ''k''" "trim (js ''i'') = js ''i''"
  "trim (js '','') = js '',''" "trim (js ''?'') = js ''?''"
  by (simp_all add: trim_def white_def js_def)

lemma parsed_keymap:
  assumes "lowers_ascii lower"
  shows "map (\<lambda>b. parse_combo lower (bi_combo b)) keymap =
    [Inr (no_combo\<lparr>co_mod := True, co_key := js ''k''\<rparr>), Inr (no_combo\<lparr>co_mod := True, co_key := js ''i''\<rparr>),
     Inr (no_combo\<lparr>co_mod := True, co_key := js '',''\<rparr>), Inr (no_combo\<lparr>co_key := js ''?''\<rparr>)]"
proof -
  have "lower (js ''mod'') = js ''mod''" "lower (js ''k'') = js ''k''" "lower (js ''i'') = js ''i''" "lower (js '','') = js '',''"
      "lower (js ''?'') = js ''?''"
    using assms by (simp_all add: lowers_ascii_def)
  moreover have "js s \<noteq> [] \<longleftrightarrow> s \<noteq> []" for s by (simp add: js_def)
  ultimately show ?thesis
    by (simp add: keymap_def parse_combo_def split_ascii trim_ascii modifier_names_def take_modifier_def key_alias_def no_combo_def)
qed

text \<open>A press answers at most one shortcut, on every platform and wherever the focus is: no two combos of the table are
  the same press (\<open>keymap.ts\<close>, \<open>shortcuts.ts\<close>, \<open>matches\<close>).\<close>

theorem press_answers_once:
  assumes "lowers_ascii lower"
  shows "length (pressed lower apple repeats editing k s) \<le> 1"
proof -
  have keys: "js ''k'' \<noteq> js ''i''" "js ''k'' \<noteq> js '',''" "js ''k'' \<noteq> js ''?''" "js ''i'' \<noteq> js '',''" "js ''i'' \<noteq> js ''?''" "js '','' \<noteq> js ''?''"
    by simp_all
  have parsed: "parse_combo lower (js ''mod+k'') = Inr (no_combo\<lparr>co_mod := True, co_key := js ''k''\<rparr>)"
      "parse_combo lower (js ''mod+i'') = Inr (no_combo\<lparr>co_mod := True, co_key := js ''i''\<rparr>)"
      "parse_combo lower (js ''mod+,'') = Inr (no_combo\<lparr>co_mod := True, co_key := js '',''\<rparr>)"
      "parse_combo lower (js ''?'') = Inr (no_combo\<lparr>co_key := js ''?''\<rparr>)"
    using parsed_keymap [OF assms] by (simp_all add: keymap_def)
  have one: "reacts_to lower c apple repeats editing k \<Longrightarrow> lower (ch_key k) = co_key c" for c
    by (simp add: reacts_to_def chord_matches_def)
  show ?thesis
    unfolding pressed_def keymap_def
    using one [of "no_combo\<lparr>co_mod := True, co_key := js ''k''\<rparr>"] one [of "no_combo\<lparr>co_mod := True, co_key := js ''i''\<rparr>"]
      one [of "no_combo\<lparr>co_mod := True, co_key := js '',''\<rparr>"] one [of "no_combo\<lparr>co_key := js ''?''\<rparr>"] keys
    by (auto simp: map_filter_simps parsed fire_binding_def split: if_splits)
qed

lemma press_answers_once_witness:
  "length (pressed (\<lambda>t. t) False False True \<lparr>ch_key = js ''k'', ch_meta = False, ch_ctrl = True, ch_alt = False, ch_shift = False\<rparr>
     [(RailFilter, [1, 2])]) \<le> 1"
  by (rule press_answers_once) (simp add: lowers_ascii_def)

text \<open>The one shortcut without a modifier is left to whoever is typing.\<close>

lemma question_typed: "\<not> reacts_to lower (no_combo\<lparr>co_key := js ''?''\<rparr>) apple repeats True k"
  by (simp add: reacts_to_def no_combo_def)

subsection \<open>The latest claim answers\<close>

text \<open>The claims that stand, in the order they were made.\<close>

fun live_claims :: "registry_event list \<Rightarrow> (binding_id \<times> nat) list \<Rightarrow> (binding_id \<times> nat) list" where
  "live_claims [] ls = ls"
| "live_claims (Claimed i h # es) ls = live_claims es (ls @ [(i, h)])"
| "live_claims (Released i h # es) ls = live_claims es (filter (\<lambda>c. c \<noteq> (i, h)) ls)"

definition represents_claims :: "stacks \<Rightarrow> (binding_id \<times> nat) list \<Rightarrow> bool" where
  "represents_claims s ls \<longleftrightarrow> (\<forall>i. stack_of i s = map snd (filter (\<lambda>c. fst c = i) ls)) \<and> (\<forall>i. map_of s i \<noteq> Some [])"

lemma represents_step:
  "represents_claims s ls \<Longrightarrow> represents_claims (claim_binding i h s) (ls @ [(i, h)])"
  "represents_claims s ls \<Longrightarrow> represents_claims (release_binding i h s) (filter (\<lambda>c. c \<noteq> (i, h)) ls)"
proof -
  assume r: "represents_claims s ls"
  then show "represents_claims (claim_binding i h s) (ls @ [(i, h)])"
    by (auto simp: represents_claims_def claim_binding_def stack_of_def update_conv')
  have kept: "map snd (filter (\<lambda>c. fst c = i) (filter (\<lambda>c. c \<noteq> (i, h)) ls)) = filter (\<lambda>one. one \<noteq> h) (map snd (filter (\<lambda>c. fst c = i) ls))"
    by (induction ls) auto
  have other: "filter (\<lambda>c. fst c = j) (filter (\<lambda>c. c \<noteq> (i, h)) ls) = filter (\<lambda>c. fst c = j) ls" if "j \<noteq> i" for j
    using that by (induction ls) auto
  show "represents_claims (release_binding i h s) (filter (\<lambda>c. c \<noteq> (i, h)) ls)"
    unfolding represents_claims_def
  proof (intro conjI allI)
    fix j
    show "stack_of j (release_binding i h s) = map snd (filter (\<lambda>c. fst c = j) (filter (\<lambda>c. c \<noteq> (i, h)) ls))"
    proof (cases "j = i")
      case True
      have "stack_of i (release_binding i h s) = filter (\<lambda>one. one \<noteq> h) (stack_of i s)"
        by (simp add: release_binding_def Let_def) (simp add: stack_of_def update_conv' delete_conv')
      with r show ?thesis unfolding True kept by (simp add: represents_claims_def)
    next
      case False
      have "stack_of j (release_binding i h s) = stack_of j s"
        using False by (simp add: release_binding_def Let_def stack_of_def update_conv' delete_conv')
      with r show ?thesis unfolding other [OF False] by (simp only: represents_claims_def)
    qed
    show "map_of (release_binding i h s) j \<noteq> Some []"
      using r by (auto simp: release_binding_def Let_def update_conv' delete_conv' represents_claims_def)
  qed
qed

lemma represents_run: "represents_claims s ls \<Longrightarrow> represents_claims (fold registry_step es s) (live_claims es ls)"
  by (induction es ls arbitrary: s rule: live_claims.induct) (simp_all add: represents_step)

text \<open>Whatever components come and go, a shortcut runs the handler claimed last among those still there, and none when
  nobody claims it; the help lists exactly the shortcuts somebody answers (\<open>Shortcuts.tsx\<close>).\<close>

theorem latest_claim_answers:
  "fire_binding i (fold registry_step es []) = map_option snd (List.find (\<lambda>c. fst c = i) (rev (live_claims es []))) \<and>
   (i \<in> set (mounted_bindings (fold registry_step es [])) \<longleftrightarrow> i \<in> fst ` set (live_claims es []))"
proof -
  let ?s = "fold registry_step es []" and ?ls = "live_claims es []"
  have r: "represents_claims ?s ?ls" by (rule represents_run) (simp add: represents_claims_def stack_of_def)
  have last_found: "map_option snd (List.find (\<lambda>c. fst c = i) (rev ls)) =
      (let hs = map snd (filter (\<lambda>c. fst c = i) ls) in if hs = [] then None else Some (last hs))" for ls :: "(binding_id \<times> nat) list"
    by (induction ls rule: rev_induct) (auto simp: Let_def)
  have stack: "stack_of i ?s = map snd (filter (\<lambda>c. fst c = i) ?ls)" using r by (simp add: represents_claims_def)
  have "fire_binding i ?s = map_option snd (List.find (\<lambda>c. fst c = i) (rev ?ls))"
    unfolding fire_binding_def last_found stack by (simp add: Let_def)
  moreover have "i \<in> set (mounted_bindings ?s) \<longleftrightarrow> map_of ?s i \<noteq> None"
    by (simp add: mounted_bindings_def map_of_eq_None_iff)
  moreover have "map_of ?s i \<noteq> None \<longleftrightarrow> stack_of i ?s \<noteq> []"
    using r unfolding represents_claims_def stack_of_def by (cases "map_of ?s i") auto
  moreover have "stack_of i ?s \<noteq> [] \<longleftrightarrow> i \<in> fst ` set ?ls"
    unfolding stack by (auto simp: filter_empty_conv)
  ultimately show ?thesis by blast
qed

subsection \<open>The arrows reach every item\<close>

lemma position_of_nth: "distinct xs \<Longrightarrow> i < length xs \<Longrightarrow> position_of xs (xs ! i) = Some i"
proof -
  assume d: "distinct xs" "i < length xs"
  then have "takeWhile (\<lambda>y. y \<noteq> xs ! i) xs = take i xs"
    by (intro takeWhile_eq_take_P_nth) (auto simp: nth_eq_iff_index_eq)
  with d show ?thesis by (simp add: position_of_def)
qed

lemma arrow_keys [simp]: "forward_key r \<noteq> js ''Home''" "forward_key r \<noteq> js ''End''" "backward_key r \<noteq> js ''Home''"
  "backward_key r \<noteq> js ''End''" "forward_key r \<noteq> backward_key r" "backward_key r \<noteq> forward_key r"
  by (cases r; simp add: forward_key_def backward_key_def)+

lemma move_forward: "distinct items \<Longrightarrow> Suc i < length items \<Longrightarrow> move_in items (Some (items ! i)) (forward_key r) r wrap = Some (items ! Suc i)"
  by (auto simp: move_in_def position_of_nth)

lemma move_first: "items \<noteq> [] \<Longrightarrow> move_in items None (forward_key r) r wrap = Some (items ! 0)"
  by (simp add: move_in_def hd_conv_nth)

text \<open>The arrows reach every item of a list: pressing the one that goes forward as many times as there are items before
  one, and once more, stands on it, and the one that goes back returns to the item before
  (\<open>roving.ts\<close>, \<open>move\<close>).\<close>

theorem arrows_reach_every_item:
  assumes "distinct items" and "i < length items"
  shows "((\<lambda>at. case move_in items at (forward_key r) r wrap of None \<Rightarrow> at | Some x \<Rightarrow> Some x) ^^ Suc i) None = Some (items ! i) \<and>
    move_in items (Some (items ! i)) (backward_key r) r False = (if i = 0 then None else Some (items ! (i - 1)))"
proof
  show "((\<lambda>at. case move_in items at (forward_key r) r wrap of None \<Rightarrow> at | Some x \<Rightarrow> Some x) ^^ Suc i) None = Some (items ! i)"
    using assms(2)
  proof (induction i)
    case 0
    then show ?case by (auto simp: move_first)
  next
    case (Suc i)
    then show ?case using move_forward [OF assms(1), of i r wrap] by simp
  qed
  show "move_in items (Some (items ! i)) (backward_key r) r False = (if i = 0 then None else Some (items ! (i - 1)))"
    using assms by (auto simp: move_in_def position_of_nth)
qed

lemma arrows_reach_every_item_witness:
  "((\<lambda>at. case move_in [js ''a'', js ''b''] at (js ''ArrowDown'') Vertical False of None \<Rightarrow> at | Some x \<Rightarrow> Some x) ^^ Suc 1) None = Some (js ''b'')"
  using arrows_reach_every_item [of "[js ''a'', js ''b'']" 1 Vertical False] by (simp add: forward_key_def)

text \<open>A list with an item always has one that the Tab key reaches.\<close>

lemma tab_stop_in: "ids \<noteq> [] \<Longrightarrow> \<exists>x. tab_stop ids anchor preferred = Some x \<and> x \<in> set ids"
  by (auto simp: tab_stop_def Let_def split: option.splits)

end
