(* ===== verification/Links.thy ===== *)
theory Links
  imports Scan
begin

text \<open>
  \<open>link.ts\<close>, the addresses a message holds and which of them may be pressed, and \<open>contactable\<close> of
  \<open>link-preview.ts\<close>. The parser of addresses (\<open>new URL\<close>) and the scripts of Unicode are the platform's.
\<close>

subsection \<open>The platform\<close>

record url =
  ur_protocol :: jsstr
  ur_hostname :: jsstr
  ur_username :: jsstr
  ur_password :: jsstr
  ur_href :: jsstr

record web =
  wb_url :: "jsstr \<Rightarrow> url option"
  wb_latin :: "nat \<Rightarrow> bool"
  wb_cyrillic :: "nat \<Rightarrow> bool"
  wb_greek :: "nat \<Rightarrow> bool"

datatype deception = Userinfo | MixedScript | Punycode

record link =
  ln_raw :: jsstr
  ln_href :: jsstr
  ln_host :: jsstr
  ln_deception :: "deception option"

subsection \<open>Where a candidate starts and stops\<close>

text \<open>A letter of the scheme in either case. Under \<open>/iu\<close> the long s folds to \<open>s\<close> too.\<close>

definition letter :: "16 word \<Rightarrow> 16 word \<Rightarrow> bool" where
  "letter c u \<longleftrightarrow> u = c \<or> u + 0x20 = c \<and> lower_letter c"

definition folds_to :: "16 word \<Rightarrow> 16 word \<Rightarrow> bool" where
  "folds_to c u \<longleftrightarrow> letter c u \<or> c = 0x73 \<and> u = 0x17F"

text \<open>What follows a prefix matched unit by unit.\<close>

fun after :: "(16 word \<Rightarrow> 16 word \<Rightarrow> bool) \<Rightarrow> jsstr \<Rightarrow> jsstr \<Rightarrow> jsstr option" where
  "after eq [] s = Some s"
| "after eq (c # p) [] = None"
| "after eq (c # p) (u # s) = (if eq c u then after eq p s else None)"

definition after_scheme :: "(16 word \<Rightarrow> 16 word \<Rightarrow> bool) \<Rightarrow> jsstr \<Rightarrow> jsstr option" where
  "after_scheme eq s =
     (case after eq (js ''https://'') s of Some r \<Rightarrow> Some r | None \<Rightarrow> after eq (js ''http://'') s)"

definition stops :: "16 word \<Rightarrow> bool" where
  "stops u \<longleftrightarrow> white u \<or> (0x202A \<le> u \<and> u \<le> 0x202E) \<or> (0x2066 \<le> u \<and> u \<le> 0x2069)"

text \<open>\<open>SCAN\<close> at the head of \<open>s\<close>: the match, empty when there is none.\<close>

definition candidate :: "jsstr \<Rightarrow> jsstr" where
  "candidate s =
     (case (case after_scheme folds_to s of Some r \<Rightarrow> Some r | None \<Rightarrow> after folds_to (js ''www.'') s) of
        None \<Rightarrow> []
      | Some r \<Rightarrow>
          (let run = takeWhile (\<lambda>u. \<not> stops u) r in if run = [] then [] else take (length s - length r) s @ run))"

subsection \<open>What belongs to the sentence\<close>

text \<open>\<open>[.,;:!?'"]\<close>.\<close>

definition ends_sentence :: "16 word \<Rightarrow> bool" where
  "ends_sentence u \<longleftrightarrow> u \<in> {0x2E, 0x2C, 0x3B, 0x3A, 0x21, 0x3F, 0x27, 0x22}"

definition without_sentence :: "jsstr \<Rightarrow> jsstr" where
  "without_sentence s = rev (dropWhile ends_sentence (rev s))"

function without_closers :: "16 word \<Rightarrow> 16 word \<Rightarrow> jsstr \<Rightarrow> jsstr" where
  "without_closers start stop s =
     (if s \<noteq> [] \<and> last s = stop \<and> count_list s start < count_list s stop
      then without_closers start stop (butlast s) else s)"
  by pat_completeness auto
termination by (relation "measure (\<lambda>(start, stop, s). length s)") auto

declare without_closers.simps [simp del]

definition trim_trailing :: "jsstr \<Rightarrow> jsstr" where
  "trim_trailing raw =
     without_sentence (without_closers 0x7B 0x7D (without_closers 0x5B 0x5D (without_closers 0x28 0x29
       (without_sentence raw))))"

subsection \<open>Whether an address may be pressed\<close>

definition mixes_scripts :: "web \<Rightarrow> jsstr \<Rightarrow> bool" where
  "mixes_scripts w host \<longleftrightarrow>
     list_ex (\<lambda>label. let points = scalars_of (map unat label) in
         list_ex (wb_latin w) points \<and> (list_ex (wb_cyrillic w) points \<or> list_ex (wb_greek w) points))
       (split_on 0x2E host)"

definition is_http :: "jsstr \<Rightarrow> bool" where
  "is_http protocol \<longleftrightarrow> protocol = js ''http:'' \<or> protocol = js ''https:''"

definition written_authority :: "jsstr \<Rightarrow> jsstr" where
  "written_authority s =
     takeWhile (\<lambda>u. u \<notin> {0x2F, 0x3F, 0x23}) (case after_scheme letter s of Some r \<Rightarrow> r | None \<Rightarrow> s)"

definition deception_of :: "web \<Rightarrow> jsstr \<Rightarrow> url \<Rightarrow> deception option" where
  "deception_of w typed u =
     (if ur_username u \<noteq> [] \<or> ur_password u \<noteq> [] then Some Userinfo
      else if mixes_scripts w (last (split_on 0x40 (written_authority typed))) then Some MixedScript
      else if list_ex (starts_with (js ''xn--'')) (split_on 0x2E (ur_hostname u)) then Some Punycode
      else None)"

definition classify :: "web \<Rightarrow> jsstr \<Rightarrow> link option" where
  "classify w raw =
     (let typed = (if after letter (js ''www.'') raw \<noteq> None then js ''https://'' @ raw else raw) in
      case wb_url w typed of
        None \<Rightarrow> None
      | Some u \<Rightarrow>
          if \<not> is_http (ur_protocol u) then None
          else if ur_hostname u = [] then None
          else Some \<lparr>ln_raw = raw, ln_href = ur_href u, ln_host = ur_hostname u, ln_deception = deception_of w typed u\<rparr>)"

text \<open>\<open>LinkText\<close> makes an anchor of these only; \<open>contactable\<close> offers to fetch these only.\<close>

definition pressable :: "web \<Rightarrow> jsstr \<Rightarrow> jsstr option" where
  "pressable w raw =
     (case classify w raw of None \<Rightarrow> None | Some l \<Rightarrow> if ln_deception l = None then Some (ln_href l) else None)"

definition contactable :: "web \<Rightarrow> jsstr \<Rightarrow> bool" where
  "contactable w raw \<longleftrightarrow>
     (case classify w raw of
        None \<Rightarrow> False | Some l \<Rightarrow> ln_deception l = None \<and> starts_with (js ''https://'') (ln_href l))"

subsection \<open>Every address of a text\<close>

record found =
  fd_from :: nat
  fd_to :: nat
  fd_link :: link

text \<open>The loop of \<open>scan\<close>: \<open>i\<close> is \<open>lastIndex\<close> and \<open>s\<close> what is left of the text from there.\<close>

function scan_from :: "web \<Rightarrow> nat \<Rightarrow> jsstr \<Rightarrow> found list" where
  "scan_from w i s =
     (if s = [] then []
      else let match = candidate s in
        if match = [] then scan_from w (Suc i) (tl s)
        else
          let raw = trim_trailing match; later = scan_from w (i + length match) (drop (length match) s) in
          if raw = [] then later
          else (case classify w raw of
                  None \<Rightarrow> later
                | Some l \<Rightarrow> \<lparr>fd_from = i, fd_to = i + length raw, fd_link = l\<rparr> # later))"
  by pat_completeness auto
termination by (relation "measure (\<lambda>(w, i, s). length s)") auto

declare scan_from.simps [simp del]

definition scan :: "web \<Rightarrow> jsstr \<Rightarrow> found list" where
  "scan w text = scan_from w 0 text"

subsection \<open>An address is a stretch of the text\<close>

lemma after_rest: "after eq p s = Some r \<Longrightarrow> s = take (length p) s @ r \<and> length p \<le> length s"
  by (induction eq p s rule: after.induct) (auto split: if_splits)

lemma candidate_parts:
  assumes "candidate s \<noteq> []"
  obtains r where "after_scheme folds_to s = Some r \<or> after folds_to (js ''www.'') s = Some r"
    and "s = take (length s - length r) s @ r" and "r \<noteq> []"
    and "candidate s = take (length s - length r) s @ takeWhile (\<lambda>u. \<not> stops u) r"
proof -
  from assms obtain r where r: "after_scheme folds_to s = Some r \<or> after folds_to (js ''www.'') s = Some r"
    and run: "takeWhile (\<lambda>u. \<not> stops u) r \<noteq> []" "candidate s = take (length s - length r) s @ takeWhile (\<lambda>u. \<not> stops u) r"
    by (auto simp: candidate_def Let_def split: option.splits if_splits)
  from r obtain p where "after folds_to p s = Some r"
    by (auto simp: after_scheme_def split: option.splits)
  from after_rest [OF this] obtain h where h: "s = h @ r" by blast
  have "s = take (length s - length r) s @ r" by (simp add: h)
  moreover have "r \<noteq> []" using run(1) by auto
  ultimately show thesis using that r run(2) by blast
qed

lemma candidate_prefix: "\<exists>t. s = candidate s @ t"
proof (cases "candidate s = []")
  case False
  then obtain r where "s = take (length s - length r) s @ r"
    "candidate s = take (length s - length r) s @ takeWhile (\<lambda>u. \<not> stops u) r" by (rule candidate_parts) blast
  then have "s = candidate s @ dropWhile (\<lambda>u. \<not> stops u) r"
    by (metis append.assoc takeWhile_dropWhile_id)
  then show ?thesis by blast
qed simp

text \<open>A unit that folds to one of the schemes is no blank and no override.\<close>

lemma folds_not_stops: "folds_to c u \<Longrightarrow> c \<in> set (js ''htps:/w.'') \<Longrightarrow> \<not> stops u"
proof -
  assume eq: "folds_to c u" and "c \<in> set (js ''htps:/w.'')"
  then have "u = 0x17F \<or> u = c \<or> u = c - 0x20" by (auto simp: folds_to_def letter_def eq_diff_eq)
  with \<open>c \<in> set _\<close> show ?thesis by (auto simp: js_def stops_def white_def)
qed

lemma after_not_stops:
  "after folds_to p s = Some r \<Longrightarrow> set p \<subseteq> set (js ''htps:/w.'') \<Longrightarrow>
     list_all (\<lambda>u. \<not> stops u) (take (length s - length r) s)"
proof (induction folds_to p s rule: after.induct)
  case (3 c p u s)
  then have "folds_to c u" and r: "after folds_to p s = Some r" by (auto split: if_splits)
  moreover from after_rest [OF r] have "length r \<le> length s" by (metis append_eq_conv_conj length_append le_add2)
  ultimately show ?case using 3 folds_not_stops [of c u] by (simp add: Suc_diff_le)
qed auto

lemma candidate_unbroken: "list_all (\<lambda>u. \<not> stops u) (candidate s)"
proof (cases "candidate s = []")
  case False
  then obtain r where r: "after_scheme folds_to s = Some r \<or> after folds_to (js ''www.'') s = Some r"
    "candidate s = take (length s - length r) s @ takeWhile (\<lambda>u. \<not> stops u) r" by (rule candidate_parts) blast
  from r(1) obtain p where "after folds_to p s = Some r" "set p \<subseteq> set (js ''htps:/w.'')"
    by (auto simp: after_scheme_def js_def split: option.splits)
  from after_not_stops [OF this] show ?thesis
    unfolding r(2) by (auto simp: list_all_iff dest: set_takeWhileD)
qed simp

lemma without_sentence_prefix: "\<exists>t. s = without_sentence s @ t"
  unfolding without_sentence_def by (metis rev_append rev_rev_ident takeWhile_dropWhile_id)

lemma without_sentence_last: "without_sentence s \<noteq> [] \<Longrightarrow> \<not> ends_sentence (last (without_sentence s))"
  unfolding without_sentence_def by (simp add: last_rev hd_dropWhile)

lemma without_closers_prefix: "\<exists>t. s = without_closers start stop s @ t"
proof (induction start stop s rule: without_closers.induct)
  case (1 start stop s)
  show ?case
  proof (cases "s \<noteq> [] \<and> last s = stop \<and> count_list s start < count_list s stop")
    case True
    with 1 obtain t where "butlast s = without_closers start stop (butlast s) @ t" by blast
    then have "s = without_closers start stop (butlast s) @ t @ [last s]"
      using True by (metis append.assoc append_butlast_last_id)
    with True have "s = without_closers start stop s @ t @ [last s]" by (simp add: without_closers.simps [of start stop s])
    then show ?thesis by blast
  next
    case False
    then show ?thesis by (simp only: without_closers.simps [of start stop s] if_False) simp
  qed
qed

lemma trim_trailing_prefix: "\<exists>t. s = trim_trailing s @ t"
  unfolding trim_trailing_def
  by (metis append.assoc without_sentence_prefix without_closers_prefix)

lemma classify_raw: "classify w raw = Some l \<Longrightarrow> ln_raw l = raw"
  by (auto simp: classify_def Let_def split: option.splits if_splits)

definition addresses_in :: "web \<Rightarrow> jsstr \<Rightarrow> found \<Rightarrow> bool" where
  "addresses_in w text f \<longleftrightarrow> fd_from f < fd_to f \<and> fd_to f \<le> length text \<and>
     ln_raw (fd_link f) = substr (fd_from f) (fd_to f) text \<and> classify w (ln_raw (fd_link f)) = Some (fd_link f) \<and>
     list_all (\<lambda>u. \<not> stops u) (ln_raw (fd_link f)) \<and> \<not> ends_sentence (last (ln_raw (fd_link f)))"

lemma match_in_text:
  assumes "drop i text \<noteq> []" and "candidate (drop i text) \<noteq> []"
    and "trim_trailing (candidate (drop i text)) = raw" and "raw \<noteq> []" and "classify w raw = Some l"
  shows "addresses_in w text \<lparr>fd_from = i, fd_to = i + length raw, fd_link = l\<rparr>"
    and "length raw \<le> length (candidate (drop i text))"
proof -
  obtain t where t: "candidate (drop i text) = raw @ t" using trim_trailing_prefix assms(3) by metis
  obtain t' where t': "drop i text = candidate (drop i text) @ t'" using candidate_prefix by blast
  have "drop i text = raw @ t @ t'" using t t' by simp
  then have len: "length raw \<le> length (drop i text)" and piece: "substr i (i + length raw) text = raw"
    by (simp_all add: substr_def)
  have "i < length text" using assms(1) by simp
  with len have "i + length raw \<le> length text" by simp
  moreover have "list_all (\<lambda>u. \<not> stops u) raw" using candidate_unbroken [of "drop i text"] t by simp
  moreover have "\<not> ends_sentence (last raw)"
    using without_sentence_last assms(3,4) by (metis trim_trailing_def)
  ultimately show "addresses_in w text \<lparr>fd_from = i, fd_to = i + length raw, fd_link = l\<rparr>"
    using assms(4,5) piece by (simp add: addresses_in_def classify_raw)
  show "length raw \<le> length (candidate (drop i text))" by (simp add: t)
qed

lemma scan_from_in_text:
  "s = drop i text \<Longrightarrow> (\<forall>f\<in>set (scan_from w i s). i \<le> fd_from f \<and> addresses_in w text f) \<and>
     sorted_wrt (\<lambda>f g. fd_to f \<le> fd_from g) (scan_from w i s)"
proof (induction w i s rule: scan_from.induct)
  case (1 w i s)
  let ?m = "candidate s" and ?raw = "trim_trailing (candidate s)"
  show ?case
  proof (cases "s = []")
    case True then show ?thesis by (simp add: scan_from.simps)
  next
    case False
    note ne = False
    show ?thesis
    proof (cases "?m = []")
      case True
      have "tl s = drop (Suc i) text" by (simp add: 1(3) drop_Suc tl_drop)
      from 1(1) [OF ne refl True this] show ?thesis
        using ne True by (subst (1 2) scan_from.simps) (auto simp: Suc_le_eq)
    next
      case False
      have rest: "drop (length ?m) s = drop (i + length ?m) text" by (simp add: 1(3) add.commute)
      note IH = 1(2) [OF ne refl False refl rest]
      show ?thesis
      proof (cases "?raw = [] \<or> classify w ?raw = None")
        case True
        with ne False have "scan_from w i s = scan_from w (i + length ?m) (drop (length ?m) s)"
          by (subst scan_from.simps) (auto simp: Let_def)
        with IH show ?thesis by fastforce
      next
        case found: False
        then obtain l where l: "classify w ?raw = Some l" by auto
        have now: "addresses_in w text \<lparr>fd_from = i, fd_to = i + length ?raw, fd_link = l\<rparr>"
          and len: "length ?raw \<le> length ?m"
          using match_in_text [of i "text" ?raw w l] ne False found l 1(3) by auto
        have "scan_from w i s = \<lparr>fd_from = i, fd_to = i + length ?raw, fd_link = l\<rparr> #
            scan_from w (i + length ?m) (drop (length ?m) s)"
          using ne False found l by (subst scan_from.simps) (auto simp: Let_def)
        with IH now len show ?thesis by fastforce
      qed
    qed
  qed
qed

text \<open>Every address found in a text is a stretch of it, whole: it holds no blank and none of the marks that
  reorder what follows, does not end on the punctuation of the sentence, and leads to a server over HTTP. The
  stretches are in order and do not overlap.\<close>

theorem addresses_are_text:
  shows "\<forall>f\<in>set (scan w text). addresses_in w text f"
    and "sorted_wrt (\<lambda>f g. fd_to f \<le> fd_from g) (scan w text)"
  using scan_from_in_text [of "text" 0 "text" w] by (simp_all add: scan_def)

text \<open>What is pressed goes where it says: no credentials, no punycode, no mixed label, over HTTP.\<close>

lemma pressed_is_honest:
  assumes "pressable w raw = Some href"
  obtains u typed where "wb_url w typed = Some u" and "ur_href u = href" and "is_http (ur_protocol u)"
    and "ur_hostname u \<noteq> []" and "ur_username u = []" and "ur_password u = []"
    and "\<not> mixes_scripts w (last (split_on 0x40 (written_authority typed)))"
    and "\<not> list_ex (starts_with (js ''xn--'')) (split_on 0x2E (ur_hostname u))"
  using assms
  by (auto simp: pressable_def classify_def deception_of_def Let_def split: option.splits if_splits)

lemma contactable_pressable: "contactable w raw \<Longrightarrow> \<exists>href. pressable w raw = Some href \<and> starts_with (js ''https://'') href"
  by (auto simp: contactable_def pressable_def split: option.splits)

text \<open>No address without a colon or a full stop.\<close>

lemma after_in: "after eq p s \<noteq> None \<Longrightarrow> c \<in> set p \<Longrightarrow> \<exists>u\<in>set s. eq c u"
  by (induction eq p s rule: after.induct) (auto split: if_splits)

lemma folds_to_punctuation [simp]: "folds_to 0x3A u \<longleftrightarrow> u = 0x3A" "folds_to 0x2E u \<longleftrightarrow> u = 0x2E"
  by (auto simp: folds_to_def letter_def lower_letter_def)

lemma no_candidate:
  assumes "0x3A \<notin> set s" and "0x2E \<notin> set s"
  shows "candidate s = []"
proof -
  have "after folds_to (js ''https://'') s = None" "after folds_to (js ''http://'') s = None"
    using assms(1) after_in [of folds_to _ s "0x3A"] by (fastforce simp: js_def)+
  moreover have "after folds_to (js ''www.'') s = None"
    using assms(2) after_in [of folds_to _ s "0x2E"] by (fastforce simp: js_def)
  ultimately show ?thesis by (simp add: candidate_def after_scheme_def)
qed

lemma no_addresses: "0x3A \<notin> set text \<Longrightarrow> 0x2E \<notin> set text \<Longrightarrow> scan w text = []"
proof -
  have "0x3A \<notin> set s \<Longrightarrow> 0x2E \<notin> set s \<Longrightarrow> scan_from w i s = []" for i s
    by (induction s arbitrary: i) (simp_all add: scan_from.simps no_candidate)
  then show "0x3A \<notin> set text \<Longrightarrow> 0x2E \<notin> set text \<Longrightarrow> scan w text = []" by (simp add: scan_def)
qed

subsection \<open>A closer that stays\<close>

text \<open>The parentheses are counted before the brackets: in \<open>[see (https://x.y/a)]\<close> the address keeps a closing
  parenthesis that is the sentence's.\<close>

lemma nested_closer_stays:
  "trim_trailing (js ''https://x.y/a)]'') = js ''https://x.y/a)''"
  "trim_trailing (js ''https://x.y/a])'') = js ''https://x.y/a''"
  by (simp_all add: js_def trim_trailing_def without_sentence_def ends_sentence_def without_closers.simps)

end
