(* ===== verification/Markdown.thy ===== *)
theory Markdown
  imports Links
begin

text \<open>
  \<open>markdown.ts\<close>: the tree a message is read into, the ranges of a message that are prose, and its one line of
  plain text. The recursion of \<open>parseInline\<close> on what a span holds is bounded by \<open>max_depth\<close>; here it is on the
  levels left.
\<close>

subsection \<open>The tree\<close>

datatype mark = Strong | Em | Strike | Spoiler

datatype inl =
    Prose jsstr
  | Span mark "inl list"
  | CodeSpan jsstr
  | LinkSpan jsstr

datatype block =
    Paragraph "inl list"
  | Quote "inl list"
  | Fenced "jsstr option" jsstr

definition max_source :: nat where "max_source = 64 * 1024"
definition max_nodes :: nat where "max_nodes = 2000"
definition max_depth :: nat where "max_depth = 6"

text \<open>\<open>ESCAPABLE\<close> and \<open>MARKERS\<close>.\<close>

definition escapable :: "16 word \<Rightarrow> bool" where
  "escapable u \<longleftrightarrow> u \<in> {0x2A, 0x7E, 0x7C, 0x60, 0x5C, 0x3E}"

definition markers :: "(jsstr \<times> mark) list" where
  "markers = [(js ''**'', Strong), (js ''~~'', Strike), (js ''||'', Spoiler), (js ''*'', Em)]"

subsection \<open>Inline\<close>

record open_span =
  os_marker :: jsstr
  os_mark :: mark
  os_at :: nat
  os_out :: nat

record scanner =
  sc_out :: "inl list"
  sc_stack :: "open_span list"
  sc_buffer :: jsstr

definition put :: "16 word \<Rightarrow> scanner \<Rightarrow> scanner" where
  "put u s = s\<lparr>sc_buffer := sc_buffer s @ [u]\<rparr>"

definition flush :: "scanner \<Rightarrow> scanner" where
  "flush s = (if sc_buffer s = [] then s else s\<lparr>sc_out := sc_out s @ [Prose (sc_buffer s)], sc_buffer := []\<rparr>)"

definition emit :: "inl \<Rightarrow> scanner \<Rightarrow> scanner" where
  "emit node s = (let s1 = flush s in s1\<lparr>sc_out := sc_out s1 @ [node]\<rparr>)"

definition opens :: "jsstr \<Rightarrow> nat \<Rightarrow> jsstr \<Rightarrow> bool" where
  "opens text i token \<longleftrightarrow>
     i + length token < length text \<and> \<not> white (text ! (i + length token)) \<and> text ! (i + length token) \<noteq> hd token"

definition closes :: "jsstr \<Rightarrow> nat \<Rightarrow> bool" where
  "closes text i \<longleftrightarrow> 0 < i \<and> \<not> white (text ! (i - 1))"

definition marker_at :: "jsstr \<Rightarrow> nat \<Rightarrow> (jsstr \<times> mark) option" where
  "marker_at text i = find (\<lambda>(m, k). starts_with m (drop i text)) markers"

text \<open>The last entry of the stack with this marker.\<close>

definition last_open :: "jsstr \<Rightarrow> open_span list \<Rightarrow> nat option" where
  "last_open token stack =
     (case filter (\<lambda>k. os_marker (stack ! k) = token) [0..<length stack] of [] \<Rightarrow> None | ks \<Rightarrow> Some (last ks))"

definition link_at :: "web \<Rightarrow> jsstr \<Rightarrow> nat \<Rightarrow> found option" where
  "link_at w text i = find (\<lambda>f. fd_from f = i) (scan w text)"

definition code_at :: "jsstr \<Rightarrow> nat \<Rightarrow> nat option" where
  "code_at text i = (if text ! i = 0x60 then index_from 0x60 (Suc i) text else None)"

text \<open>A marker: closes the span it matches, or opens one, or is prose. \<open>reader\<close> reads what a span holds.\<close>

definition marker_step ::
    "(jsstr \<Rightarrow> inl list) \<Rightarrow> jsstr \<Rightarrow> nat \<Rightarrow> jsstr \<Rightarrow> mark \<Rightarrow> scanner \<Rightarrow> (nat \<times> scanner) option" where
  "marker_step reader text i token kind s =
     (let opening = (if opens text i token
            then (let s1 = flush s in
              Some (i + length token, s1\<lparr>sc_stack := sc_stack s1 @
                [\<lparr>os_marker = token, os_mark = kind, os_at = i + length token, os_out = length (sc_out s1)\<rparr>]\<rparr>))
            else None) in
      case last_open token (sc_stack s) of
        None \<Rightarrow> opening
      | Some k \<Rightarrow>
          if closes text i
          then (let entry = sc_stack s ! k; inner = substr (os_at entry) i text; s1 = flush s in
            Some (i + length token,
              s1\<lparr>sc_out := take (os_out entry) (sc_out s1) @ [Span kind (reader inner)], sc_stack := take k (sc_stack s1)\<rparr>))
          else opening)"

text \<open>One turn of the loop. \<open>reader\<close> is \<open>None\<close> at the deepest level, where markers are prose.\<close>

definition inline_step ::
    "web \<Rightarrow> (jsstr \<Rightarrow> inl list) option \<Rightarrow> jsstr \<Rightarrow> nat \<Rightarrow> scanner \<Rightarrow> nat \<times> scanner" where
  "inline_step w reader text i s =
     (if text ! i = 0x5C
      then (if Suc i < length text \<and> escapable (text ! Suc i) then (i + 2, put (text ! Suc i) s)
            else (Suc i, put (text ! i) s))
      else case code_at text i of
        Some e \<Rightarrow> (Suc e, emit (CodeSpan (substr (Suc i) e text)) s)
      | None \<Rightarrow>
          (case link_at w text i of
             Some l \<Rightarrow> (fd_to l, emit (LinkSpan (ln_raw (fd_link l))) s)
           | None \<Rightarrow>
               (case (case (reader, marker_at text i) of
                       (Some r, Some (token, kind)) \<Rightarrow> marker_step r text i token kind s
                     | _ \<Rightarrow> None) of
                  Some moved \<Rightarrow> moved
                | None \<Rightarrow> (Suc i, put (text ! i) s))))"

lemma markers_nonempty: "(token, kind) \<in> set markers \<Longrightarrow> 0 < length token"
  by (auto simp: markers_def js_def)

lemma marker_at_Some:
  assumes "marker_at text i = Some (token, kind)"
  shows "0 < length token" and "(token, kind) \<in> set markers" and "take (length token) (drop i text) = token"
proof -
  from assms have "(token, kind) \<in> set markers" and "starts_with token (drop i text)"
    unfolding marker_at_def by (auto simp: find_Some_iff) (metis nth_mem)
  then show "0 < length token" and "(token, kind) \<in> set markers" and "take (length token) (drop i text) = token"
    using markers_nonempty by (auto simp: starts_with_def)
qed

lemma link_at_Some:
  assumes "link_at w text i = Some l"
  shows "fd_from l = i" and "addresses_in w text l"
proof -
  from assms have "l \<in> set (scan w text)" and "fd_from l = i"
    unfolding link_at_def by (auto simp: find_Some_iff)
  with scan_from_in_text [of "text" 0 "text" w] show "fd_from l = i" and "addresses_in w text l"
    by (simp_all add: scan_def)
qed

lemma marker_step_moves: "marker_step r text i token kind s = Some (j, s') \<Longrightarrow> j = i + length token"
  by (auto simp: marker_step_def Let_def split: option.splits if_splits)

lemma inline_step_cases [consumes 1, case_names Char Escaped Code Link Mark]:
  assumes "inline_step w reader text i s = (j, s')"
  obtains "j = Suc i" "s' = put (text ! i) s"
  | "j = i + 2" "text ! i = 0x5C" "Suc i < length text" "escapable (text ! Suc i)" "s' = put (text ! Suc i) s"
  | e where "text ! i = 0x60" "i < e" "e < length text" "text ! e = 0x60" "j = Suc e"
      "s' = emit (CodeSpan (substr (Suc i) e text)) s"
  | l where "addresses_in w text l" "fd_from l = i" "j = fd_to l" "s' = emit (LinkSpan (ln_raw (fd_link l))) s"
  | r token kind where "reader = Some r" "marker_at text i = Some (token, kind)"
      "marker_step r text i token kind s = Some (j, s')"
proof (cases "text ! i = 0x5C")
  case True
  with assms that(1,2) show thesis by (auto simp: inline_step_def split: if_splits)
next
  case plain: False
  show thesis
  proof (cases "code_at text i")
    case (Some e)
    then have tick: "text ! i = 0x60" and e: "index_from 0x60 (Suc i) text = Some e"
      by (auto simp: code_at_def split: if_splits)
    have "j = Suc e" "s' = emit (CodeSpan (substr (Suc i) e text)) s" using assms plain Some by (simp_all add: inline_step_def)
    with that(3) [OF tick _ _ index_from_Some(3) [OF e]] index_from_Some(1,2) [OF e] show thesis by simp
  next
    case None
    note no_code = None
    show thesis
    proof (cases "link_at w text i")
      case (Some l)
      have "j = fd_to l" "s' = emit (LinkSpan (ln_raw (fd_link l))) s"
        using assms plain no_code Some by (simp_all add: inline_step_def)
      with that(4) link_at_Some [OF Some] show thesis by blast
    next
      case None
      with assms plain no_code that(1,5) show thesis
        by (auto simp: inline_step_def split: option.splits prod.splits)
    qed
  qed
qed

lemma inline_step_moves:
  assumes "inline_step w reader text i s = (j, s')"
  shows "i < j"
  using assms
proof (cases rule: inline_step_cases)
  case (Link l)
  then show ?thesis by (simp add: addresses_in_def)
next
  case (Mark r token kind)
  then show ?thesis using marker_at_Some(1) [OF Mark(2)] marker_step_moves [OF Mark(3)] by simp
qed auto

function read_inline ::
    "web \<Rightarrow> (jsstr \<Rightarrow> inl list) option \<Rightarrow> jsstr \<Rightarrow> nat \<Rightarrow> scanner \<Rightarrow> scanner" where
  "read_inline w reader text i s =
     (if length text \<le> i then s
      else (case inline_step w reader text i s of (j, s') \<Rightarrow> read_inline w reader text j s'))"
  by pat_completeness auto
termination
  by (relation "measure (\<lambda>(w, reader, text, i, s). length text - i)")
    (auto intro!: diff_less_mono2 split: prod.splits dest: inline_step_moves)

declare read_inline.simps [simp del]

text \<open>What never closed is prose, from the first opener on.\<close>

definition finish_inline :: "jsstr \<Rightarrow> scanner \<Rightarrow> inl list" where
  "finish_inline text s =
     (let s1 = flush s in
      case sc_stack s1 of
        [] \<Rightarrow> sc_out s1
      | first # rest \<Rightarrow>
          (let tail = drop (os_at first - length (os_marker first)) text in
           take (os_out first) (sc_out s1) @ (if tail = [] then [] else [Prose tail])))"

definition inline_of :: "web \<Rightarrow> (jsstr \<Rightarrow> inl list) option \<Rightarrow> jsstr \<Rightarrow> inl list" where
  "inline_of w reader text =
     finish_inline text (read_inline w reader text 0 \<lparr>sc_out = [], sc_stack = [], sc_buffer = []\<rparr>)"

text \<open>\<open>parseInline\<close> with the levels left: \<open>max_depth - depth\<close>.\<close>

primrec inlines :: "web \<Rightarrow> nat \<Rightarrow> jsstr \<Rightarrow> inl list" where
  "inlines w 0 = inline_of w None"
| "inlines w (Suc levels) = inline_of w (Some (inlines w levels))"

definition parse_inline :: "web \<Rightarrow> jsstr \<Rightarrow> inl list" where
  "parse_inline w text = inlines w max_depth text"

subsection \<open>Blocks\<close>

definition lang_char :: "16 word \<Rightarrow> bool" where
  "lang_char u \<longleftrightarrow> word_char u \<or> u = 0x2B \<or> u = 0x2D"

text \<open>\<open>FENCE\<close>: the language it names, empty when it names none.\<close>

definition fence :: "jsstr \<Rightarrow> jsstr option" where
  "fence line =
     (let rest = drop 3 line; lang = takeWhile lang_char rest in
      if take 3 line = js ''```'' \<and> length lang \<le> 20 \<and> list_all (\<lambda>u. u = 0x20 \<or> u = 9) (drop (length lang) rest)
      then Some lang else None)"

definition fence_lang :: "jsstr \<Rightarrow> jsstr option" where
  "fence_lang lang = (if lang = [] then None else Some (map (\<lambda>u. if upper_letter u then u + 0x20 else u) lang))"

definition quoted :: "jsstr \<Rightarrow> jsstr option" where
  "quoted line =
     (if starts_with (js ''> '') line then Some (drop 2 line)
      else if starts_with (js ''>'') line then Some (drop 1 line) else None)"

definition flush_paragraph :: "web \<Rightarrow> jsstr list \<Rightarrow> block list" where
  "flush_paragraph w ls = (if ls = [] then [] else [Paragraph (parse_inline w (joined [0xA] ls))])"

definition flush_quote :: "web \<Rightarrow> jsstr list \<Rightarrow> block list" where
  "flush_quote w ls = (if ls = [] then [] else [Quote (parse_inline w (joined [0xA] ls))])"

definition not_fence :: "jsstr \<Rightarrow> bool" where
  "not_fence line \<longleftrightarrow> fence line = None"

text \<open>The loop of \<open>parseBlocks\<close> over the lines left, with the para and the quote being gathered.\<close>

function read_blocks :: "web \<Rightarrow> jsstr list \<Rightarrow> jsstr list \<Rightarrow> jsstr list \<Rightarrow> block list" where
  "read_blocks w [] para quote = flush_paragraph w para @ flush_quote w quote"
| "read_blocks w (line # ls) para quote =
     (case fence line of
        Some lang \<Rightarrow>
          flush_paragraph w para @ flush_quote w quote @
          Fenced (fence_lang lang) (joined [0xA] (takeWhile not_fence ls)) #
          read_blocks w (drop 1 (dropWhile not_fence ls)) [] []
      | None \<Rightarrow>
          (case quoted line of
             Some inside \<Rightarrow> flush_paragraph w para @ read_blocks w ls [] (quote @ [inside])
           | None \<Rightarrow> flush_quote w quote @ read_blocks w ls (para @ [line]) []))"
  by pat_completeness auto
termination
  by (relation "measure (\<lambda>(w, ls, para, quote). length ls)")
    (auto simp: less_Suc_eq_le intro: le_trans [OF diff_le_self length_dropWhile_le])

definition parse_blocks :: "web \<Rightarrow> jsstr \<Rightarrow> block list" where
  "parse_blocks w text = read_blocks w (split_on 0xA text) [] []"

fun inline_nodes :: "inl \<Rightarrow> nat" where
  "inline_nodes (Span k children) = Suc (sum_list (map inline_nodes children))"
| "inline_nodes node = 1"

definition block_nodes :: "block \<Rightarrow> nat" where
  "block_nodes b = (case b of
       Paragraph children \<Rightarrow> Suc (sum_list (map inline_nodes children))
     | Quote children \<Rightarrow> Suc (sum_list (map inline_nodes children))
     | Fenced lang code \<Rightarrow> 1)"

definition parse_message :: "web \<Rightarrow> jsstr \<Rightarrow> block list" where
  "parse_message w text =
     (if max_source < length text then [Paragraph [Prose text]]
      else let blocks = parse_blocks w text in
        if max_nodes < sum_list (map block_nodes blocks) then [Paragraph [Prose text]] else blocks)"

subsection \<open>One line\<close>

fun inline_text :: "bool \<Rightarrow> inl \<Rightarrow> jsstr" where
  "inline_text hidden (Prose t) = t"
| "inline_text hidden (CodeSpan t) = t"
| "inline_text hidden (LinkSpan t) = t"
| "inline_text hidden (Span k children) =
     (if k = Spoiler \<and> hidden then js ''spoiler'' else concat (map (inline_text hidden) children))"

fun block_text :: "bool \<Rightarrow> block \<Rightarrow> jsstr" where
  "block_text hidden (Paragraph children) = concat (map (inline_text hidden) children)"
| "block_text hidden (Quote children) = concat (map (inline_text hidden) children)"
| "block_text hidden (Fenced lang code) = code"

definition plain :: "web \<Rightarrow> bool \<Rightarrow> jsstr \<Rightarrow> jsstr" where
  "plain w hidden text = joined [0xA] (map (block_text hidden) (parse_message w text))"

subsection \<open>No word is lost\<close>

text \<open>The units a scanner may drop, as markup; every other one is a word's.\<close>

definition wordy :: "16 word \<Rightarrow> bool" where
  "wordy u \<longleftrightarrow> u \<notin> {0x2A, 0x7E, 0x7C, 0x60, 0x5C}"

abbreviation words :: "jsstr \<Rightarrow> jsstr" where
  "words \<equiv> filter wordy"

abbreviation inline_words :: "inl list \<Rightarrow> jsstr" where
  "inline_words nodes \<equiv> words (concat (map (inline_text False) nodes))"

text \<open>A span left open: the nodes before it hold the words before its marker.\<close>

definition opened_at :: "jsstr \<Rightarrow> nat \<Rightarrow> inl list \<Rightarrow> open_span \<Rightarrow> bool" where
  "opened_at text i nodes e \<longleftrightarrow> os_out e \<le> length nodes \<and> os_at e \<le> i \<and> length (os_marker e) \<le> os_at e \<and>
     inline_words (take (os_out e) nodes) = words (take (os_at e) text) \<and>
     inline_words (take (os_out e) nodes) = words (take (os_at e - length (os_marker e)) text)"

text \<open>What a scanner at \<open>i\<close> has kept: the words up to there, and what its open spans need.\<close>

definition keeps_words :: "jsstr \<Rightarrow> nat \<Rightarrow> scanner \<Rightarrow> bool" where
  "keeps_words text i s \<longleftrightarrow>
     inline_words (sc_out s) @ words (sc_buffer s) = words (take i text) \<and>
     sorted (map os_out (sc_stack s)) \<and> (\<forall>e\<in>set (sc_stack s). opened_at text i (sc_out s) e)"

lemma opened_at_later:
  "opened_at text i nodes e \<Longrightarrow> i \<le> j \<Longrightarrow> os_out e \<le> length nodes' \<Longrightarrow> take (os_out e) nodes' = take (os_out e) nodes \<Longrightarrow>
     opened_at text j nodes' e"
  by (auto simp: opened_at_def)

lemma opened_at_more: "opened_at text i nodes e \<Longrightarrow> i \<le> j \<Longrightarrow> opened_at text j (nodes @ new) e"
  by (rule opened_at_later) (auto simp: opened_at_def)

lemma flush_fields [simp]:
  "sc_buffer (flush s) = []" "sc_stack (flush s) = sc_stack s" "length (sc_out s) \<le> length (sc_out (flush s))"
  by (simp_all add: flush_def)

lemma flush_out: "sc_out (flush s) = sc_out s @ (if sc_buffer s = [] then [] else [Prose (sc_buffer s)])"
  by (simp add: flush_def)

lemma flush_words: "inline_words (sc_out (flush s)) = inline_words (sc_out s) @ words (sc_buffer s)"
  by (simp add: flush_out)

lemma markers_dropped: "(token, k) \<in> set markers \<Longrightarrow> words token = []"
  by (auto simp: markers_def js_def wordy_def)

lemma words_take: "i \<le> j \<Longrightarrow> words (take j text) = words (take i text) @ words (substr i j text)"
  using take_substr [of i j "text"] by (metis filter_append)

lemma keeps_put:
  assumes "keeps_words text i s" and "i \<le> j" and "words (substr i j text) = words [u]"
  shows "keeps_words text j (put u s)"
  using assms words_take [of i j "text"] opened_at_more [of "text" i "sc_out s" _ j "[]"]
  by (auto simp: keeps_words_def put_def)

lemma keeps_emit:
  assumes "keeps_words text i s" and "i \<le> j" and "words (substr i j text) = words (inline_text False node)"
  shows "keeps_words text j (emit node s)"
proof -
  have "words (take j text) = inline_words (sc_out (flush s) @ [node])"
    using assms words_take [of i j "text"] by (simp add: flush_words keeps_words_def flip: append_assoc)
  then show ?thesis using assms(1,2) unfolding keeps_words_def
    by (auto simp: emit_def Let_def flush_out intro: opened_at_more)
qed

lemma last_open_Some:
  assumes "last_open token stack = Some k"
  shows "k < length stack" and "os_marker (stack ! k) = token"
proof -
  let ?ks = "filter (\<lambda>k. os_marker (stack ! k) = token) [0..<length stack]"
  from assms have "?ks \<noteq> []" and "k = last ?ks" by (auto simp: last_open_def split: list.splits)
  then have "k \<in> set ?ks" using last_in_set by blast
  then show "k < length stack" and "os_marker (stack ! k) = token" by simp_all
qed

lemma keeps_opened:
  assumes "keeps_words text i s" and "words (take (i + length token) text) = words (take i text)"
  shows "keeps_words text (i + length token) ((flush s)\<lparr>sc_stack := sc_stack (flush s) @
      [\<lparr>os_marker = token, os_mark = kind, os_at = i + length token, os_out = length (sc_out (flush s))\<rparr>]\<rparr>)"
proof -
  have kept: "inline_words (sc_out (flush s)) = words (take i text)"
    using assms(1) by (simp add: keeps_words_def flush_words)
  have old: "opened_at text (i + length token) (sc_out (flush s)) e" if "e \<in> set (sc_stack s)" for e
    using assms(1) that unfolding flush_out keeps_words_def by (intro opened_at_more [of _ i]) auto
  then have "os_out e \<le> length (sc_out (flush s))" if "e \<in> set (sc_stack s)" for e
    using that by (simp add: opened_at_def)
  then show ?thesis using assms kept old unfolding keeps_words_def
    by (auto simp: sorted_append opened_at_def)
qed

lemma keeps_closed:
  assumes kept: "keeps_words text i s" and k: "k < length (sc_stack s)" and "i \<le> j"
    and here: "words (take j text) = words (take i text)"
    and inner: "inline_words [node] = words (substr (os_at (sc_stack s ! k)) i text)"
  shows "keeps_words text j ((flush s)\<lparr>sc_out := take (os_out (sc_stack s ! k)) (sc_out (flush s)) @ [node],
    sc_stack := take k (sc_stack (flush s))\<rparr>)"
proof -
  let ?e = "sc_stack s ! k" and ?nodes = "take (os_out (sc_stack s ! k)) (sc_out (flush s))"
  have e: "opened_at text i (sc_out s) ?e" using kept k by (simp add: keeps_words_def)
  then have nodes: "?nodes = take (os_out ?e) (sc_out s)" by (simp add: opened_at_def flush_out)
  have "inline_words (?nodes @ [node]) = words (take j text)"
    using e inner words_take [of "os_at ?e" i "text"] here unfolding nodes opened_at_def by simp
  moreover have "opened_at text j (?nodes @ [node]) e'" if "e' \<in> set (take k (sc_stack s))" for e'
  proof -
    from that obtain m where m: "m < k" "e' = sc_stack s ! m" by (auto simp: in_set_conv_nth)
    then have "os_out e' \<le> os_out ?e" using kept k sorted_nth_mono [of "map os_out (sc_stack s)" m k] by (simp add: keeps_words_def)
    moreover have "opened_at text i (sc_out s) e'" using kept m k by (simp add: keeps_words_def)
    ultimately show ?thesis using e \<open>i \<le> j\<close> unfolding nodes by (auto simp: opened_at_def min_def)
  qed
  ultimately show ?thesis using kept by (simp add: keeps_words_def sorted_wrt_take take_map [symmetric])
qed

lemma keeps_marker:
  assumes "keeps_words text i s" and "marker_at text i = Some (token, kind)"
    and "marker_step r text i token kind s = Some (j, s')" and reader: "\<And>t. inline_words (r t) = words t"
  shows "keeps_words text j s'"
proof -
  have j: "j = i + length token" using marker_step_moves [OF assms(3)] .
  have here: "words (take j text) = words (take i text)"
    using words_take [of i j "text"] marker_at_Some [OF assms(2)] markers_dropped [of token kind] by (simp add: j substr_def)
  show ?thesis
  proof (cases "\<exists>k. last_open token (sc_stack s) = Some k \<and> closes text i")
    case True
    then obtain k where k: "last_open token (sc_stack s) = Some k" "closes text i" by blast
    let ?node = "Span kind (r (substr (os_at (sc_stack s ! k)) i text))"
    have "s' = (flush s)\<lparr>sc_out := take (os_out (sc_stack s ! k)) (sc_out (flush s)) @ [?node], sc_stack := take k (sc_stack (flush s))\<rparr>"
      using assms(3) k by (simp add: marker_step_def Let_def)
    moreover have "inline_words [?node] = words (substr (os_at (sc_stack s ! k)) i text)" using reader by simp
    ultimately show ?thesis
      using keeps_closed [OF assms(1) last_open_Some(1) [OF k(1)] _ here] j by simp
  next
    case False
    with assms(3) j have "s' = (flush s)\<lparr>sc_stack := sc_stack (flush s) @
        [\<lparr>os_marker = token, os_mark = kind, os_at = i + length token, os_out = length (sc_out (flush s))\<rparr>]\<rparr>"
      by (auto simp: marker_step_def Let_def split: option.splits if_splits)
    with keeps_opened [OF assms(1)] here j show ?thesis by simp
  qed
qed

lemma keeps_step:
  assumes "keeps_words text i s" and "inline_step w reader text i s = (j, s')" and "i < length text"
    and reader: "\<And>r t. reader = Some r \<Longrightarrow> inline_words (r t) = words t"
  shows "keeps_words text j s'"
  using assms(2)
proof (cases rule: inline_step_cases)
  case Char
  then show ?thesis using assms(1,3) by (auto intro!: keeps_put [OF assms(1)] simp: substr_def take_Suc_conv_app_nth)
next
  case Escaped
  then have "substr i j text = [0x5C, text ! Suc i]"
    using substr_append [of i "Suc i" "Suc (Suc i)" "text"] by simp
  then show ?thesis using Escaped by (auto intro!: keeps_put [OF assms(1)] simp: wordy_def)
next
  case (Code e)
  have "substr i (Suc e) text = [0x60] @ substr (Suc i) e text @ [0x60]"
    using substr_append [of i "Suc i" "Suc e" "text"] substr_append [of "Suc i" e "Suc e" "text"] Code assms(3) by simp
  then have "words (substr i (Suc e) text) = words (substr (Suc i) e text)" by (simp add: wordy_def)
  then show ?thesis unfolding Code(5,6) using Code(2) by (intro keeps_emit [OF assms(1)]) auto
next
  case (Link l)
  then show ?thesis by (auto intro!: keeps_emit [OF assms(1)] simp: addresses_in_def)
next
  case (Mark r token kind)
  then show ?thesis using keeps_marker [OF assms(1)] reader by blast
qed

lemma keeps_read:
  assumes "keeps_words text i s" and "\<And>r t. reader = Some r \<Longrightarrow> inline_words (r t) = words t"
  shows "\<exists>j\<ge>length text. keeps_words text j (read_inline w reader text i s)"
  using assms
proof (induction w reader "text" i s rule: read_inline.induct)
  case (1 w reader "text" i s)
  show ?case
  proof (cases "length text \<le> i")
    case True
    with 1(2) show ?thesis by (auto simp: read_inline.simps [of w reader "text" i s])
  next
    case False
    obtain j s' where step: "inline_step w reader text i s = (j, s')" by fastforce
    have "keeps_words text j s'" by (rule keeps_step [OF 1(2) step]) (use False 1(3) in auto)
    with 1(1) [OF False step [symmetric]] 1(3) show ?thesis
      using False step by (simp add: read_inline.simps [of w reader "text" i s])
  qed
qed

lemma finish_words:
  assumes "keeps_words text j s" and "length text \<le> j"
  shows "inline_words (finish_inline text s) = words text"
proof (cases "sc_stack s")
  case Nil
  with assms show ?thesis by (simp add: finish_inline_def Let_def flush_words keeps_words_def)
next
  case (Cons e rest)
  then have e: "opened_at text j (sc_out s) e" using assms(1) by (simp add: keeps_words_def)
  let ?n = "os_at e - length (os_marker e)"
  have "take (os_out e) (sc_out (flush s)) = take (os_out e) (sc_out s)" using e by (simp add: opened_at_def flush_out)
  moreover have "words text = words (take ?n text) @ words (drop ?n text)" by (metis append_take_drop_id filter_append)
  moreover have "inline_words (take (os_out e) (sc_out s)) = words (take ?n text)" using e unfolding opened_at_def by blast
  ultimately show ?thesis using Cons by (simp add: finish_inline_def Let_def)
qed

lemma inline_of_words:
  assumes "\<And>r t. reader = Some r \<Longrightarrow> inline_words (r t) = words t"
  shows "inline_words (inline_of w reader text) = words text"
proof -
  have "keeps_words text 0 \<lparr>sc_out = [], sc_stack = [], sc_buffer = []\<rparr>" by (simp add: keeps_words_def)
  from keeps_read [OF this, of reader w] assms show ?thesis unfolding inline_of_def using finish_words by blast
qed

lemma inlines_words: "inline_words (inlines w levels text) = words text"
proof (induction levels arbitrary: "text")
  case 0
  show ?case unfolding inlines.simps by (rule inline_of_words) simp
next
  case (Suc levels)
  show ?case unfolding inlines.simps by (rule inline_of_words) (use Suc in auto)
qed

subsection \<open>No word of a message is lost\<close>

text \<open>Blocks also consume the sign of a quote, the blank after it and the ends of the lines.\<close>

definition lettered :: "16 word \<Rightarrow> bool" where
  "lettered u \<longleftrightarrow> wordy u \<and> u \<notin> {0x3E, 0x20, 0xA}"

abbreviation letters :: "jsstr \<Rightarrow> jsstr" where
  "letters \<equiv> filter lettered"

lemma letters_words: "letters (words t) = letters t"
  by (induction t) (auto simp: lettered_def)

lemma letters_inline: "letters (concat (map (inline_text False) (parse_inline w t))) = letters t"
  using inlines_words [of w max_depth t] letters_words by (metis parse_inline_def)

lemma letters_joined: "letters (joined [0xA] ls) = letters (concat ls)"
  by (cases ls) (auto simp: joined_def filter_concat lettered_def comp_def)

lemma letters_quoted: "quoted line = Some inside \<Longrightarrow> letters line = letters inside"
proof -
  assume "quoted line = Some inside"
  then obtain p where "line = p @ inside" "letters p = []"
    by (cases line; cases "tl line")
      (auto simp: quoted_def starts_with_def js_def lettered_def split: if_splits)
  then show ?thesis by simp
qed

lemma letters_flush:
  "letters (concat (map (block_text False) (flush_paragraph w ls))) = letters (concat ls)"
  "letters (concat (map (block_text False) (flush_quote w ls))) = letters (concat ls)"
  by (simp_all add: flush_paragraph_def flush_quote_def letters_inline letters_joined)

lemma fence_lines: "filter not_fence ls = takeWhile not_fence ls @ filter not_fence (drop 1 (dropWhile not_fence ls))"
  by (induction ls) auto

lemma letters_blocks:
  "para = [] \<or> quote = [] \<Longrightarrow>
     letters (concat (map (block_text False) (read_blocks w ls para quote))) =
     letters (concat para) @ letters (concat quote) @ letters (concat (filter not_fence ls))"
proof (induction w ls para quote rule: read_blocks.induct)
  case (1 w para quote)
  then show ?case by (simp add: letters_flush)
next
  case (2 w line ls para quote)
  show ?case
  proof (cases "fence line")
    case (Some lang)
    with 2(3) [OF Some] show ?thesis
      using fence_lines [of ls] by (simp add: letters_flush letters_joined not_fence_def [of line])
  next
    case None
    show ?thesis
    proof (cases "quoted line")
      case (Some inside)
      with 2(2) [OF None Some] None letters_quoted [OF Some] show ?thesis
        using 2(4) by (simp add: letters_flush not_fence_def [of line])
    next
      case q: None
      with 2(1) [OF None q] None show ?thesis
        using 2(4) by (auto simp: letters_flush not_fence_def [of line])
    qed
  qed
qed

text \<open>No letter of a message is lost, invented or moved by its reading: whatever markup it carries, closed or
  not, the letters of what is shown are those of its lines, the fences aside. A message too long or too
  tangled is shown as it was written.\<close>

theorem message_keeps_letters:
  "plain w False text = text \<or>
   letters (plain w False text) = letters (concat (filter not_fence (split_on 0xA text)))"
proof (cases "parse_message w text = parse_blocks w text")
  case True
  then show ?thesis
    by (simp add: plain_def letters_joined parse_blocks_def letters_blocks)
next
  case False
  then have "parse_message w text = [Paragraph [Prose text]]" by (auto simp: parse_message_def Let_def split: if_splits)
  then show ?thesis by (simp add: plain_def)
qed

subsection \<open>What a message may cost\<close>

fun span_depth :: "inl \<Rightarrow> nat" where
  "span_depth (Span k children) = Suc (foldr max (map span_depth children) 0)"
| "span_depth node = 0"

definition block_children :: "block \<Rightarrow> inl list" where
  "block_children b = (case b of Paragraph children \<Rightarrow> children | Quote children \<Rightarrow> children | Fenced lang code \<Rightarrow> [])"

definition depth_within :: "nat \<Rightarrow> inl list \<Rightarrow> bool" where
  "depth_within n nodes \<longleftrightarrow> (\<forall>x\<in>set nodes. span_depth x \<le> n)"

lemma depth_Span: "depth_within n nodes \<Longrightarrow> span_depth (Span k nodes) \<le> Suc n"
  by (induction nodes) (auto simp: depth_within_def)

lemma depth_simps [simp]:
  "depth_within n []" "depth_within n (xs @ ys) \<longleftrightarrow> depth_within n xs \<and> depth_within n ys"
  "depth_within n (x # xs) \<longleftrightarrow> span_depth x \<le> n \<and> depth_within n xs"
  "depth_within n xs \<Longrightarrow> depth_within n (take k xs)"
  by (auto simp: depth_within_def dest: in_set_takeD)

lemma depth_flush [simp]: "depth_within n (sc_out (flush s)) \<longleftrightarrow> depth_within n (sc_out s)"
  by (simp add: flush_out)

lemma depth_step:
  assumes "inline_step w reader text i s = (j, s')" and "depth_within n (sc_out s)"
    and "\<And>r t. reader = Some r \<Longrightarrow> \<exists>m. n = Suc m \<and> depth_within m (r t)"
  shows "depth_within n (sc_out s')"
  using assms(1)
proof (cases rule: inline_step_cases)
  case (Mark r token kind)
  have "span_depth (Span k (r t)) \<le> n" for k t using assms(3) [OF Mark(1), of t] depth_Span by blast
  with Mark(3) assms(2) show ?thesis
    by (auto simp: marker_step_def Let_def split: option.splits if_splits)
qed (use assms(2) in \<open>simp_all add: put_def emit_def Let_def\<close>)

lemma depth_read:
  assumes "depth_within n (sc_out s)" and "\<And>r t. reader = Some r \<Longrightarrow> \<exists>m. n = Suc m \<and> depth_within m (r t)"
  shows "depth_within n (sc_out (read_inline w reader text i s))"
  using assms
proof (induction w reader "text" i s rule: read_inline.induct)
  case (1 w reader "text" i s)
  show ?case
  proof (cases "length text \<le> i")
    case True
    with 1(2) show ?thesis by (simp add: read_inline.simps [of w reader "text" i s])
  next
    case False
    obtain j s' where step: "inline_step w reader text i s = (j, s')" by fastforce
    have "depth_within n (sc_out s')" by (rule depth_step [OF step 1(2)]) (use 1(3) in auto)
    with 1(1) [OF False step [symmetric]] 1(3) show ?thesis
      using False step by (simp add: read_inline.simps [of w reader "text" i s])
  qed
qed

lemma depth_inline_of:
  assumes "\<And>r t. reader = Some r \<Longrightarrow> \<exists>m. n = Suc m \<and> depth_within m (r t)"
  shows "depth_within n (inline_of w reader text)"
proof -
  have "depth_within n (sc_out (read_inline w reader text 0 \<lparr>sc_out = [], sc_stack = [], sc_buffer = []\<rparr>))"
    by (rule depth_read) (use assms in auto)
  then show ?thesis by (simp add: inline_of_def finish_inline_def Let_def split: list.split)
qed

lemma depth_inlines: "depth_within levels (inlines w levels text)"
proof (induction levels arbitrary: "text")
  case 0
  show ?case unfolding inlines.simps by (rule depth_inline_of) simp
next
  case (Suc levels)
  show ?case unfolding inlines.simps by (rule depth_inline_of) (use Suc in auto)
qed

lemma depth_flushed:
  "b \<in> set (flush_paragraph w ls) \<union> set (flush_quote w ls) \<Longrightarrow> depth_within max_depth (block_children b)"
  by (auto simp: flush_paragraph_def flush_quote_def block_children_def parse_inline_def depth_inlines split: if_splits)

lemma depth_blocks: "b \<in> set (read_blocks w ls para quote) \<Longrightarrow> depth_within max_depth (block_children b)"
proof (induction w ls para quote rule: read_blocks.induct)
  case (1 w para quote)
  then show ?case using depth_flushed by auto
next
  case (2 w line ls para quote)
  have "depth_within max_depth (block_children (Fenced lang code))" for lang code by (simp add: block_children_def)
  with 2 depth_flushed show ?case by (auto split: option.splits)
qed

lemma read_blocks_nonempty: "ls \<noteq> [] \<or> para \<noteq> [] \<or> quote \<noteq> [] \<Longrightarrow> read_blocks w ls para quote \<noteq> []"
  by (induction w ls para quote rule: read_blocks.induct)
    (auto simp: flush_paragraph_def flush_quote_def split: option.splits)

text \<open>Whatever a peer writes, what it is read into is never empty, holds at most two thousand nodes, and no
  emphasis nests more than six deep.\<close>

theorem message_bounded:
  "parse_message w text \<noteq> [] \<and> sum_list (map block_nodes (parse_message w text)) \<le> max_nodes \<and>
   list_all (\<lambda>b. depth_within max_depth (block_children b)) (parse_message w text)"
proof -
  have "sum_list (map block_nodes [Paragraph [Prose text]]) \<le> max_nodes" by (simp add: block_nodes_def max_nodes_def)
  moreover have "depth_within max_depth (block_children (Paragraph [Prose text]))" by (simp add: block_children_def)
  moreover have "parse_blocks w text \<noteq> []" by (simp add: parse_blocks_def read_blocks_nonempty)
  ultimately show ?thesis using depth_blocks [of _ w "split_on 0xA text"]
    by (auto simp: parse_message_def Let_def parse_blocks_def not_less list_all_iff)
qed

subsection \<open>Text without markup\<close>

definition unmarked :: "web \<Rightarrow> jsstr \<Rightarrow> bool" where
  "unmarked w text \<longleftrightarrow> text \<noteq> [] \<and> length text \<le> max_source \<and> list_all wordy text \<and> scan w text = [] \<and>
     list_all (\<lambda>line. quoted line = None) (split_on 0xA text)"

lemma wordy_nth: "list_all wordy text \<Longrightarrow> i < length text \<Longrightarrow> text ! i \<notin> {0x2A, 0x7E, 0x7C, 0x60, 0x5C}"
  by (simp add: list_all_length wordy_def)

lemma unmarked_step:
  assumes "list_all wordy text" and "scan w text = []" and "i < length text"
  shows "inline_step w reader text i s = (Suc i, put (text ! i) s)"
proof -
  have c: "text ! i \<notin> {0x2A, 0x7E, 0x7C, 0x60, 0x5C}" by (rule wordy_nth [OF assms(1,3)])
  have "take 1 (drop i text) = [text ! i]" using assms(3) by (simp add: take_Suc_conv_app_nth)
  then have "\<not> starts_with (u # p) (drop i text)" if "u \<in> {0x2A, 0x7E, 0x7C}" for u p
    using c that by (cases "drop i text") (auto simp: starts_with_def)
  then have "marker_at text i = None"
    by (auto simp: marker_at_def find_None_iff markers_def js_def)
  moreover have "link_at w text i = None" by (simp add: link_at_def assms(2))
  ultimately show ?thesis using c by (simp add: inline_step_def code_at_def split: option.split)
qed

lemma unmarked_read:
  assumes "list_all wordy text" and "scan w text = []"
  shows "sc_stack s = [] \<Longrightarrow> read_inline w reader text i s = s\<lparr>sc_buffer := sc_buffer s @ drop i text\<rparr>"
proof (induction "length text - i" arbitrary: i s)
  case 0
  then show ?case by (simp add: read_inline.simps [of w reader "text" i s])
next
  case (Suc n)
  then have i: "i < length text" by simp
  have "read_inline w reader text i s = read_inline w reader text (Suc i) (put (text ! i) s)"
    using i unmarked_step [OF assms i] by (simp add: read_inline.simps [of w reader "text" i s])
  also have "\<dots> = s\<lparr>sc_buffer := sc_buffer s @ drop i text\<rparr>"
    using Suc i by (simp add: put_def Cons_nth_drop_Suc)
  finally show ?case .
qed

lemma unmarked_inlines:
  assumes "list_all wordy text" and "scan w text = []" and "text \<noteq> []"
  shows "inlines w levels text = [Prose text]" and "parse_inline w text = [Prose text]"
proof -
  show all: "inlines w levels text = [Prose text]" for levels
    using unmarked_read [OF assms(1,2)] assms(3)
    by (cases levels) (simp_all add: inline_of_def finish_inline_def flush_def)
  show "parse_inline w text = [Prose text]" by (simp add: parse_inline_def all)
qed

lemma no_fences: "list_all wordy text \<Longrightarrow> line \<in> set (split_on 0xA text) \<Longrightarrow> fence line = None"
proof (rule ccontr)
  assume wordy: "list_all wordy text" and line: "line \<in> set (split_on 0xA text)" and "fence line \<noteq> None"
  then have "take 3 line = js ''```''" by (auto simp: fence_def Let_def split: if_splits)
  then have "0x60 \<in> set (take 3 line)" by (simp add: js_def)
  then have "0x60 \<in> set line" by (rule in_set_takeD)
  then show False using wordy split_on_subset [OF line] by (auto simp: list_all_iff wordy_def)
qed

lemma unfenced_blocks:
  "list_all (\<lambda>line. fence line = None \<and> quoted line = None) ls \<Longrightarrow> read_blocks w ls para [] = flush_paragraph w (para @ ls)"
  by (induction ls arbitrary: para) (simp_all add: flush_quote_def)

lemma unmarked_message:
  assumes "unmarked w text"
  shows "parse_message w text = [Paragraph [Prose text]]"
proof -
  have "list_all (\<lambda>line. fence line = None \<and> quoted line = None) (split_on 0xA text)"
    using assms no_fences by (auto simp: unmarked_def list_all_iff)
  then have "parse_blocks w text = [Paragraph [Prose text]]"
    using assms unmarked_inlines by (simp add: parse_blocks_def unfenced_blocks flush_paragraph_def joined_split_on unmarked_def)
  then show ?thesis by (simp add: parse_message_def)
qed

subsection \<open>The prose of a message\<close>

text \<open>The loop of \<open>prose\<close> over the lines: \<open>n\<close> is the length of the message.\<close>

fun unfenced :: "nat \<Rightarrow> jsstr list \<Rightarrow> nat \<Rightarrow> nat \<Rightarrow> bool \<Rightarrow> (nat \<times> nat) list" where
  "unfenced n [] offset start inside = (if \<not> inside \<and> start < n then [(start, n)] else [])"
| "unfenced n (line # ls) offset start inside =
     (let next = offset + length line + 1 in
      if fence line \<noteq> None
      then (if \<not> inside \<and> start < offset then [(start, offset)] else []) @
        unfenced n ls next (if inside then next else start) (\<not> inside)
      else unfenced n ls next start inside)"

function uncoded :: "jsstr \<Rightarrow> nat \<Rightarrow> nat \<Rightarrow> nat \<Rightarrow> (nat \<times> nat) list" where
  "uncoded text till start i =
     (let rest = (if start < till then [(start, till)] else []) in
      if till \<le> i then rest
      else if text ! i = 0x5C then uncoded text till start (i + 2)
      else if text ! i = 0x60
      then (case index_from 0x60 (Suc i) text of
              None \<Rightarrow> rest
            | Some e \<Rightarrow>
                if till \<le> e then rest
                else (if start < i then [(start, i)] else []) @ uncoded text till (Suc e) (Suc e))
      else uncoded text till start (Suc i))"
  by pat_completeness auto
termination
  by (relation "measure (\<lambda>(text, till, start, i). till - i)") (auto dest: index_from_Some(1) intro: diff_less_mono2)

declare uncoded.simps [simp del]

definition prose :: "jsstr \<Rightarrow> (nat \<times> nat) list" where
  "prose text =
     concat (map (\<lambda>(start, till). uncoded text till start start) (unfenced (length text) (split_on 0xA text) 0 0 False))"

text \<open>Ranges of a stretch: nonempty, in order, apart.\<close>

fun ordered :: "nat \<Rightarrow> nat \<Rightarrow> (nat \<times> nat) list \<Rightarrow> bool" where
  "ordered a b [] \<longleftrightarrow> a \<le> b"
| "ordered a b ((i, j) # rs) \<longleftrightarrow> a \<le> i \<and> i < j \<and> ordered j b rs"

lemma ordered_le: "ordered a b rs \<Longrightarrow> a \<le> b"
  by (induction a b rs rule: ordered.induct) auto

lemma ordered_less: "ordered a b rs \<Longrightarrow> a' \<le> a \<Longrightarrow> ordered a' b rs"
  by (cases rs) auto

lemma ordered_append: "ordered a m xs \<Longrightarrow> ordered m b ys \<Longrightarrow> ordered a b (xs @ ys)"
  by (induction a m xs rule: ordered.induct) (auto intro: ordered_less)

lemma ordered_uncoded: "start \<le> i \<Longrightarrow> start \<le> till \<Longrightarrow> ordered start till (uncoded text till start i)"
proof (induction "text" till start i rule: uncoded.induct)
  case (1 "text" till start i)
  have rest: "ordered start till (if start < till then [(start, till)] else [])" using 1(5) by simp
  show ?case
  proof (cases "till \<le> i \<or> text ! i \<noteq> 0x60")
    case True
    with 1 rest show ?thesis by (subst uncoded.simps) (auto simp: Let_def)
  next
    case False
    show ?thesis
    proof (cases "index_from 0x60 (Suc i) text")
      case None
      with False rest show ?thesis by (subst uncoded.simps) (auto simp: Let_def)
    next
      case (Some e)
      note e = index_from_Some(1) [OF Some]
      show ?thesis
      proof (cases "till \<le> e")
        case True
        with False Some rest show ?thesis by (subst uncoded.simps) (auto simp: Let_def)
      next
        case within: False
        have "ordered (Suc e) till (uncoded text till (Suc e) (Suc e))"
          using 1(2) [OF refl _ _ _ Some] False within by simp
        then have "ordered start till ((if start < i then [(start, i)] else []) @ uncoded text till (Suc e) (Suc e))"
          using 1(4) e by (auto intro: ordered_less)
        with False within Some show ?thesis by (subst uncoded.simps) (simp add: Let_def)
      qed
    qed
  qed
qed

text \<open>From \<open>a\<close>, which may be past the end: then there is nothing left.\<close>

definition within :: "nat \<Rightarrow> nat \<Rightarrow> (nat \<times> nat) list \<Rightarrow> bool" where
  "within a n rs \<longleftrightarrow> (if a \<le> n then ordered a n rs else rs = [])"

lemma within_less: "within a n rs \<Longrightarrow> a' \<le> a \<Longrightarrow> a' \<le> n \<Longrightarrow> ordered a' n rs"
  by (auto simp: within_def intro: ordered_less split: if_splits)

lemma within_unfenced:
  "start \<le> offset \<Longrightarrow> (if ls = [] then offset = Suc n else offset + length (joined [0xA] ls) = n) \<Longrightarrow>
     within (if inside then offset else start) n (unfenced n ls offset start inside)"
proof (induction n ls offset start inside rule: unfenced.induct)
  case (1 n offset start inside)
  then show ?case by (simp add: within_def)
next
  case (2 n line ls offset start inside)
  define later where "later = offset + length line + 1"
  have later_ok: "if ls = [] then later = Suc n else later + length (joined [0xA] ls) = n"
    using 2(4) by (cases ls) (auto simp: joined_def later_def)
  have offset: "offset \<le> n" "offset \<le> later" using 2(4) by (simp_all add: later_def split: if_splits)
  show ?case
  proof (cases "fence line = None")
    case True
    have "within (if inside then later else start) n (unfenced n ls later start inside)"
      by (rule 2(2) [OF later_def]) (use True 2(3) later_ok offset in simp_all)
    from within_less [OF this] offset 2(3) True show ?thesis
      by (cases inside) (simp_all add: Let_def later_def within_def)
  next
    case False
    have "within later n (unfenced n ls later (if inside then later else start) (\<not> inside))"
      using 2(1) [OF later_def False _ later_ok] 2(3) offset by (cases inside) simp_all
    from within_less [OF this offset(2,1)]
    have "ordered offset n (unfenced n ls later (if inside then later else start) (\<not> inside))" .
    then show ?thesis using False offset 2(3)
      by (cases inside) (auto simp: Let_def later_def within_def intro: ordered_less)
  qed
qed

lemma ordered_concat:
  "ordered a b rs \<Longrightarrow> (\<And>i j. i < j \<Longrightarrow> ordered i j (f (i, j))) \<Longrightarrow> ordered a b (concat (map f rs))"
  by (induction a b rs rule: ordered.induct) (auto intro: ordered_append ordered_less)

lemma ordered_prose: "ordered 0 (length text) (prose text)"
proof -
  have "split_on 0xA text \<noteq> []" by simp
  then have "within 0 (length text) (unfenced (length text) (split_on 0xA text) 0 0 False)"
    using within_unfenced [of 0 0 "split_on 0xA text" "length text" False] by (simp add: joined_split_on)
  then have "ordered 0 (length text) (unfenced (length text) (split_on 0xA text) 0 0 False)" by (simp add: within_def)
  then show ?thesis unfolding prose_def by (rule ordered_concat) (auto intro: ordered_uncoded)
qed

text \<open>Without a backtick everything is prose.\<close>

lemma uncoded_plain: "0x60 \<notin> set text \<Longrightarrow> till \<le> length text \<Longrightarrow>
    uncoded text till start i = (if start < till then [(start, till)] else [])"
proof (induction "text" till start i rule: uncoded.induct)
  case (1 "text" till start i)
  show ?case
  proof (cases "till \<le> i")
    case True
    then show ?thesis by (subst uncoded.simps) simp
  next
    case False
    then have "text ! i \<noteq> 0x60" using 1(4,5) by (metis le_trans not_le nth_mem order_less_le_trans)
    with False 1 show ?thesis by (subst uncoded.simps) (auto simp: Let_def)
  qed
qed

lemma unfenced_plain:
  "list_all (\<lambda>line. fence line = None) ls \<Longrightarrow> unfenced n ls offset start False = (if start < n then [(start, n)] else [])"
  by (induction ls arbitrary: offset) (simp_all add: Let_def)

lemma prose_plain:
  assumes "0x60 \<notin> set text"
  shows "prose text = (if text = [] then [] else [(0, length text)])"
proof -
  have "list_all (\<lambda>line. fence line = None) (split_on 0xA text)"
  proof (unfold list_all_iff, intro ballI, rule ccontr)
    fix line assume line: "line \<in> set (split_on 0xA text)" and "fence line \<noteq> None"
    then have "0x60 \<in> set (take 3 line)" by (auto simp: fence_def Let_def js_def split: if_splits)
    then show False using assms split_on_subset [OF line] by (auto dest: in_set_takeD)
  qed
  then show ?thesis using assms by (simp add: prose_def unfenced_plain uncoded_plain)
qed

subsection \<open>Two messages\<close>

definition no_web :: web where
  "no_web = \<lparr>wb_url = (\<lambda>t. None), wb_latin = (\<lambda>c. False), wb_cyrillic = (\<lambda>c. False), wb_greek = (\<lambda>c. False)\<rparr>"

text \<open>What follows an emphasis that never closes is not read any more: one stray star, and a spoiler further on is
  shown to whoever reads the line.\<close>

lemma read_done: "length text \<le> i \<Longrightarrow> read_inline w reader text i s = s"
  by (simp add: read_inline.simps)

lemma read_more:
  "i < length text \<Longrightarrow> read_inline w reader text i s =
     read_inline w reader text (fst (inline_step w reader text i s)) (snd (inline_step w reader text i s))"
  by (simp add: read_inline.simps [of w reader "text" i s] split: prod.split)

lemma parse_inline_top: "parse_inline w = inline_of w (Some (inlines w 5))"
  by (rule ext) (simp add: parse_inline_def max_depth_def numeral_eq_Suc)

lemmas run_inline = parse_inline_top inline_of_def finish_inline_def flush_def put_def emit_def
  inline_step_def code_at_def link_at_def no_addresses marker_at_def markers_def starts_with_def js_def marker_step_def
  last_open_def opens_def closes_def white_def substr_def escapable_def upt_rec unmarked_inlines wordy_def

lemma stray_star_unmasks:
  "parse_inline w (js ''a ||b||'') = [Prose (js ''a ''), Span Spoiler [Prose (js ''b'')]]"
  "parse_inline w (js ''*a ||b||'') = [Prose (js ''*a ||b||'')]"
  by (simp_all add: run_inline read_done read_more)

end
