(* ===== verification/Mentions.thy ===== *)
theory Mentions
  imports Markdown Conversation "HOL-Library.Sorting_Algorithms"
begin

text \<open>
  \<open>mention.ts\<close>: who a message addresses, what is being typed, and the substitution of accounts for handles on the
  way out (\<open>address\<close> of \<open>session.ts\<close>), with the runs \<open>RichText.tsx\<close> draws. The order of a locale is a parameter.
\<close>

subsection \<open>What is being typed\<close>

record typed =
  ty_from :: nat
  ty_to :: nat
  ty_query :: jsstr

text \<open>\<open>TOKEN\<close> on what precedes the caret: the last sigil, if nothing blank follows it and something opens it.\<close>

definition typed_mention :: "jsstr \<Rightarrow> nat \<Rightarrow> typed option" where
  "typed_mention text caret =
     (let before = take caret text;
          query = rev (takeWhile (\<lambda>u. \<not> white u \<and> u \<noteq> 0x40) (rev before));
          rest = take (length before - length query) before in
      if rest \<noteq> [] \<and> last rest = 0x40 \<and> opened (butlast rest)
      then Some \<lparr>ty_from = caret - length query - 1, ty_to = caret, ty_query = query\<rparr> else None)"

text \<open>The tier a candidate falls in: exact, by handle, by name, loose; \<open>None\<close> is no match.\<close>

definition tier ::
    "(jsstr \<Rightarrow> jsstr) \<Rightarrow> name_sources \<Rightarrow> account list \<Rightarrow> jsstr \<Rightarrow> account \<Rightarrow> nat option" where
  "tier lower sources candidates needle handle =
     (if needle = [] then Some 1
      else if handle = needle then Some 0
      else if starts_with needle handle then Some 1
      else if starts_with needle (lower (compact_name_of lower handle sources candidates)) then Some 2
      else if name_matches lower handle sources needle then Some 3
      else None)"

definition completions ::
    "(jsstr \<Rightarrow> jsstr) \<Rightarrow> jsstr comparator \<Rightarrow> account list \<Rightarrow> name_sources \<Rightarrow> jsstr \<Rightarrow> nat \<Rightarrow> account list" where
  "completions lower locale_order among sources query limit =
     (let needle = lower (without_sigil (trim query));
          at = (\<lambda>n. filter (\<lambda>h. tier lower sources among needle h = Some n) (uniq among)) in
      take limit (at 0 @ Sorting_Algorithms.sort locale_order (at 1) @ Sorting_Algorithms.sort locale_order (at 2) @
        Sorting_Algorithms.sort locale_order (at 3)))"

subsection \<open>Runs\<close>

datatype run = Said jsstr | Named jsstr

text \<open>\<open>SCAN\<close> after a sigil: between three and thirty-two characters of a handle, as many as there are.\<close>

definition token_after :: "jsstr \<Rightarrow> jsstr option" where
  "token_after s =
     (let token = take 32 (takeWhile handle_char s) in if 3 \<le> length token then Some token else None)"

definition said :: "jsstr \<Rightarrow> run list" where
  "said t = (if t = [] then [] else [Said t])"

text \<open>The loop of \<open>runs\<close>: \<open>prev\<close> is the unit before, \<open>kept\<close> the prose since the last mention.\<close>

function runs_from :: "(jsstr \<Rightarrow> bool) \<Rightarrow> 16 word option \<Rightarrow> jsstr \<Rightarrow> jsstr \<Rightarrow> run list" where
  "runs_from known prev kept [] = said kept"
| "runs_from known prev kept (u # s) =
     (case (if u = 0x40 then token_after s else None) of
        None \<Rightarrow> runs_from known (Some u) (kept @ [u]) s
      | Some token \<Rightarrow>
          (let rest = drop (length token) s in
           if (case prev of None \<Rightarrow> False | Some p \<Rightarrow> word_char p \<or> p = 0x40) \<or> \<not> known token
           then runs_from known (Some (last token)) (kept @ u # token) rest
           else said kept @ Named token # runs_from known (Some (last token)) [] rest))"
  by pat_completeness auto
termination by (relation "measure (\<lambda>(known, prev, kept, s). length s)") auto

definition runs :: "jsstr \<Rightarrow> (jsstr \<Rightarrow> bool) \<Rightarrow> run list" where
  "runs text known = runs_from known None [] text"

definition addresses :: "jsstr \<Rightarrow> account \<Rightarrow> (jsstr \<Rightarrow> bool) \<Rightarrow> bool" where
  "addresses text handle known \<longleftrightarrow> list_ex (\<lambda>(i, j). Named handle \<in> set (runs (substr i j text) known)) (prose text)"

datatype address = AsMention | AsReply

text \<open>The loop of \<open>addressedIn\<close>, with the reply found so far.\<close>

fun addressed_from ::
    "nat \<Rightarrow> account \<Rightarrow> (account \<Rightarrow> bool) \<Rightarrow> nat set \<Rightarrow> address option \<Rightarrow> message list \<Rightarrow> address option" where
  "addressed_from beyond self known mine reply [] = reply"
| "addressed_from beyond self known mine reply (m # ms) =
     (if ms_seq m \<le> beyond \<or> ms_mine m then addressed_from beyond self known mine reply ms
      else (case ms_content m of
          Text t \<Rightarrow> if addresses t self known then Some AsMention else addressed_from beyond self known mine reply ms
        | Reply target t \<Rightarrow>
            if addresses t self known then Some AsMention
            else addressed_from beyond self known mine (if target \<in> mine then Some AsReply else reply) ms
        | _ \<Rightarrow> addressed_from beyond self known mine reply ms))"

definition addressed_in :: "message list \<Rightarrow> nat \<Rightarrow> account \<Rightarrow> account list \<Rightarrow> address option" where
  "addressed_in ms beyond self among =
     addressed_from beyond self (\<lambda>h. h \<in> set among) (ms_seq ` set (filter ms_mine ms)) None ms"

subsection \<open>On the way out\<close>

definition run_text :: "(jsstr \<Rightarrow> account option) \<Rightarrow> run \<Rightarrow> jsstr" where
  "run_text directory r =
     (case r of Said t \<Rightarrow> t | Named h \<Rightarrow> 0x40 # (case directory h of Some a \<Rightarrow> a | None \<Rightarrow> h))"

definition resolved_part :: "(jsstr \<Rightarrow> account option) \<Rightarrow> jsstr \<Rightarrow> jsstr" where
  "resolved_part directory s = concat (map (run_text directory) (runs s (\<lambda>h. directory h \<noteq> None)))"

fun resolved_from :: "(jsstr \<Rightarrow> account option) \<Rightarrow> jsstr \<Rightarrow> nat \<Rightarrow> (nat \<times> nat) list \<Rightarrow> jsstr" where
  "resolved_from directory text start [] = drop start text"
| "resolved_from directory text start ((i, j) # ranges) =
     substr start i text @ resolved_part directory (substr i j text) @ resolved_from directory text j ranges"

definition resolve :: "jsstr \<Rightarrow> (jsstr \<Rightarrow> account option) \<Rightarrow> jsstr" where
  "resolve text directory = resolved_from directory text 0 (prose text)"

text \<open>\<open>address\<close> of \<open>session.ts\<close>: the handles of the members as they claim them, and one's own last.\<close>

definition directory_of :: "'g session \<Rightarrow> 'g view \<Rightarrow> (jsstr \<times> account) list" where
  "directory_of s v =
     (let members = uniq (map ra_handle (vw_accounts v) @ map pr_name (vw_peers v)) in
      AList.update (sx_handle s) (sx_account s)
        (fold (\<lambda>account d. case map_of (handles (sx_names s)) account of
             None \<Rightarrow> d | Some handle \<Rightarrow> AList.update handle account d) members []))"

definition address_text :: "'g session \<Rightarrow> 'g view \<Rightarrow> jsstr \<Rightarrow> jsstr" where
  "address_text s v text = resolve text (map_of (directory_of s v))"

subsection \<open>On the screen\<close>

text \<open>\<open>RichText\<close>: the mentions of a message that is one unmarked run, or of each prose of its tree.\<close>

fun drawn_in :: "(jsstr \<Rightarrow> bool) \<Rightarrow> inl \<Rightarrow> run list" where
  "drawn_in known (Prose t) = runs t known"
| "drawn_in known (Span k children) = concat (map (drawn_in known) children)"
| "drawn_in known (CodeSpan t) = [Said t]"
| "drawn_in known (LinkSpan t) = [Said t]"

definition drawn :: "web \<Rightarrow> jsstr \<Rightarrow> (jsstr \<Rightarrow> bool) \<Rightarrow> run list" where
  "drawn w text known =
     (case parse_message w text of
        [Paragraph [Prose t]] \<Rightarrow> runs text known
      | blocks \<Rightarrow> concat (map (\<lambda>b. case b of Fenced lang code \<Rightarrow> [Said code]
          | _ \<Rightarrow> concat (map (drawn_in known) (block_children b))) blocks))"

subsection \<open>Runs are the text\<close>

lemma token_after_Some:
  assumes "token_after s = Some token"
  shows "token = take 32 (takeWhile handle_char s)" and "3 \<le> length token" and "s = token @ drop (length token) s"
    and "list_all handle_char token"
proof -
  show t: "token = take 32 (takeWhile handle_char s)" "3 \<le> length token"
    using assms by (auto simp: token_after_def Let_def split: if_splits)
  have "s = takeWhile handle_char s @ dropWhile handle_char s" by simp
  then show "s = token @ drop (length token) s" unfolding t(1)
    by (metis append.assoc append_eq_conv_conj append_take_drop_id)
  show "list_all handle_char token" unfolding t(1) by (auto simp: list_all_iff dest!: in_set_takeD set_takeWhileD)
qed

definition blocks_mention :: "16 word option \<Rightarrow> bool" where
  "blocks_mention prev \<longleftrightarrow> (case prev of None \<Rightarrow> False | Some p \<Rightarrow> word_char p \<or> p = 0x40)"

lemma runs_from_Cons:
  "runs_from known prev kept (u # s) =
     (case (if u = 0x40 then token_after s else None) of
        None \<Rightarrow> runs_from known (Some u) (kept @ [u]) s
      | Some token \<Rightarrow>
           if blocks_mention prev \<or> \<not> known token
           then runs_from known (Some (last token)) (kept @ u # token) (drop (length token) s)
           else said kept @ Named token # runs_from known (Some (last token)) [] (drop (length token) s))"
  by (simp add: blocks_mention_def Let_def split: option.split)

declare runs_from.simps(2) [simp del]

text \<open>What is sent for a stretch, written without the runs.\<close>

function swapped :: "(jsstr \<Rightarrow> account option) \<Rightarrow> 16 word option \<Rightarrow> jsstr \<Rightarrow> jsstr" where
  "swapped d prev [] = []"
| "swapped d prev (u # s) =
     (case (if u = 0x40 then token_after s else None) of
        None \<Rightarrow> u # swapped d (Some u) s
      | Some token \<Rightarrow>
          u # (if blocks_mention prev then token else case d token of None \<Rightarrow> token | Some a \<Rightarrow> a) @
          swapped d (Some (last token)) (drop (length token) s))"
  by pat_completeness auto
termination by (relation "measure (\<lambda>(d, prev, s). length s)") auto

lemma said_text: "concat (map (run_text d) (said t)) = t"
  by (simp add: said_def run_text_def)

lemma runs_swapped: "concat (map (run_text d) (runs_from (\<lambda>h. d h \<noteq> None) prev kept s)) = kept @ swapped d prev s"
proof (induction "\<lambda>h. d h \<noteq> None" prev kept s rule: runs_from.induct)
  case (1 prev kept)
  show ?case by (simp add: said_text)
next
  case (2 prev kept u s)
  then show ?case
    by (auto simp: runs_from_Cons blocks_mention_def Let_def said_text run_text_def split: option.splits if_splits)
qed

lemma resolved_swapped: "resolved_part d s = swapped d None s"
  by (simp only: resolved_part_def runs_def runs_swapped append_Nil)

lemma handle_char_sigil [simp]: "\<not> handle_char 0x40"
  by (simp add: handle_char_def)

lemma token_after_same: "takeWhile handle_char s = takeWhile handle_char t \<Longrightarrow> token_after s = token_after t"
  by (simp add: token_after_def)

lemma swapped_start: "takeWhile handle_char (swapped d prev s) = takeWhile handle_char s"
  by (induction d prev s rule: swapped.induct) (auto split: option.split)

subsection \<open>What is sent is read back\<close>

definition as_account :: "(jsstr \<Rightarrow> account option) \<Rightarrow> run \<Rightarrow> run" where
  "as_account d r = (case r of Said t \<Rightarrow> Said t | Named h \<Rightarrow> Named (the (d h)))"

definition unnamed :: "run list \<Rightarrow> bool" where
  "unnamed rs \<longleftrightarrow> list_all (\<lambda>r. case r of Said t \<Rightarrow> True | Named h \<Rightarrow> False) rs"

lemma unnamed_simps [simp]:
  "unnamed []" "unnamed (Said t # rs) \<longleftrightarrow> unnamed rs" "\<not> unnamed (Named h # rs)"
  "unnamed (rs @ rs') \<longleftrightarrow> unnamed rs \<and> unnamed rs'" "unnamed (said t)"
  by (simp_all add: unnamed_def said_def)

lemma unnamed_kept: "unnamed (runs_from known prev kept s) \<longleftrightarrow> unnamed (runs_from known prev kept' s)"
proof (induction known prev kept s arbitrary: kept' rule: runs_from.induct)
  case (2 known prev kept u s)
  show ?case
  proof (cases "if u = 0x40 then token_after s else None")
    case None
    with 2(1) [OF None, of "kept' @ [u]"] show ?thesis by (simp add: runs_from_Cons)
  next
    case (Some token)
    with 2(2) [OF Some refl, of "kept' @ u # token"] show ?thesis
      by (auto simp: runs_from_Cons blocks_mention_def)
  qed
qed simp

lemma account_token: "is_account_id a \<Longrightarrow> list_all handle_char a \<and> length a = 32"
proof -
  have "u \<le> 0x7A" if "u \<le> 0x66" for u :: "16 word" using that by (rule order_trans) simp
  then show "is_account_id a \<Longrightarrow> list_all handle_char a \<and> length a = 32"
    by (auto simp: is_account_id_def list_all_iff handle_char_def)
qed

lemma take_while_all: "list_all P xs \<Longrightarrow> takeWhile P (xs @ ys) = xs @ takeWhile P ys"
  by (induction xs) auto

lemma handle_char_word: "handle_char u \<Longrightarrow> word_char u"
  by (auto simp: handle_char_def word_char_def lower_letter_def digit_def)

lemma blocks_after: "list_all handle_char t \<Longrightarrow> t \<noteq> [] \<Longrightarrow> blocks_mention (Some (last t))"
  by (simp add: blocks_mention_def handle_char_word list_all_iff)

definition accounts_of :: "(jsstr \<Rightarrow> account option) \<Rightarrow> account \<Rightarrow> bool" where
  "accounts_of d a \<longleftrightarrow> a \<in> ran d"

definition directory_ok :: "(jsstr \<Rightarrow> account option) \<Rightarrow> bool" where
  "directory_ok d \<longleftrightarrow> (\<forall>a\<in>ran d. is_account_id a)"

text \<open>A token put where another was is read back as itself.\<close>

lemma token_kept:
  assumes "token_after s = Some token"
  shows "token_after (token @ swapped d p (drop (length token) s)) = Some token"
proof -
  note t = token_after_Some [OF assms]
  have "takeWhile handle_char (token @ swapped d p (drop (length token) s)) = token @ takeWhile handle_char (drop (length token) s)"
    using take_while_all [OF t(4)] swapped_start by simp
  also have "\<dots> = takeWhile handle_char (token @ drop (length token) s)" using take_while_all [OF t(4)] by simp
  finally show ?thesis using token_after_same assms t(3) by metis
qed

lemma account_kept: "is_account_id a \<Longrightarrow> token_after (a @ s) = Some a"
  using account_token [of a] by (simp add: token_after_def take_while_all)

lemma swapped_read_back:
  assumes "directory_ok d"
  shows "(blocks_mention prev \<longleftrightarrow> blocks_mention prev') \<Longrightarrow> unnamed (runs_from (accounts_of d) prev kept s) \<Longrightarrow>
     runs_from (accounts_of d) prev' kept (swapped d prev s) =
       map (as_account d) (runs_from (\<lambda>h. d h \<noteq> None) prev kept s)"
  using assms
proof (induction d prev s arbitrary: prev' kept rule: swapped.induct)
  case (1 d prev)
  then show ?case by (simp add: said_def as_account_def)
next
  case (2 d prev u s)
  show ?case
  proof (cases "if u = 0x40 then token_after s else None")
    case None
    have "(if u = 0x40 then token_after (swapped d (Some u) s) else None) = None"
      using None token_after_same [OF swapped_start [of d "Some u" s]] by (auto split: if_splits)
    with None 2(1) [OF None refl] 2(4,5) show ?thesis by (simp add: runs_from_Cons)
  next
    case (Some token)
    then have u: "u = 0x40" and token: "token_after s = Some token" by (auto split: if_splits)
    note t = token_after_Some [OF token]
    let ?rest = "drop (length token) s"
    have after: "unnamed (runs_from (accounts_of d) (Some (last token)) k ?rest)" for k
      using 2(4) Some unnamed_kept [of _ _ k, where kept' = "kept @ u # token"] by (auto simp: runs_from_Cons split: if_splits)
    have "token \<noteq> []" using t(2) by auto
    show ?thesis
    proof (cases "blocks_mention prev \<or> d token = None")
      case True
      have "blocks_mention prev' \<or> \<not> accounts_of d token"
        using True 2(3,4) Some by (auto simp: runs_from_Cons split: if_splits)
      then have "runs_from (accounts_of d) prev' kept (swapped d prev (u # s)) =
          runs_from (accounts_of d) (Some (last token)) (kept @ u # token) (swapped d (Some (last token)) ?rest)"
        using Some True u token_kept [OF token] by (auto simp: runs_from_Cons)
      also have "\<dots> = map (as_account d) (runs_from (\<lambda>h. d h \<noteq> None) (Some (last token)) (kept @ u # token) ?rest)"
        by (rule 2(2) [OF Some refl after 2(5)])
      also have "\<dots> = map (as_account d) (runs_from (\<lambda>h. d h \<noteq> None) prev kept (u # s))"
        using Some True by (auto simp: runs_from_Cons)
      finally show ?thesis .
    next
      case False
      then obtain a where a: "d token = Some a" by blast
      then have account: "is_account_id a" "accounts_of d a"
        using 2(5) by (auto simp: directory_ok_def accounts_of_def ran_def)
      have last: "blocks_mention (Some (last token))" "blocks_mention (Some (last a))"
        using blocks_after t(4) \<open>token \<noteq> []\<close> account_token [OF account(1)] by (auto intro!: blocks_after)
      have "runs_from (accounts_of d) prev' kept (swapped d prev (u # s)) =
          said kept @ Named a # runs_from (accounts_of d) (Some (last a)) [] (swapped d (Some (last token)) ?rest)"
        using Some False a u account_kept [OF account(1)] account(2) 2(3) by (auto simp: runs_from_Cons)
      also have "runs_from (accounts_of d) (Some (last a)) [] (swapped d (Some (last token)) ?rest) =
          map (as_account d) (runs_from (\<lambda>h. d h \<noteq> None) (Some (last token)) [] ?rest)"
        by (rule 2(2) [OF Some _ after 2(5)]) (simp add: last)
      also have "said kept @ Named a # map (as_account d) (runs_from (\<lambda>h. d h \<noteq> None) (Some (last token)) [] ?rest) =
          map (as_account d) (runs_from (\<lambda>h. d h \<noteq> None) prev kept (u # s))"
        using Some False a by (auto simp: runs_from_Cons as_account_def said_def)
      finally show ?thesis .
    qed
  qed
qed

text \<open>What a writer sees addressed is what the room reads addressed. In a message without code, every handle of
  the directory leaves as its account, and whoever scans what was sent for those accounts finds the same runs,
  in the same places, each under the account of its handle; unless the writer had typed an account in full.\<close>

theorem mention_read_back:
  assumes "directory_ok d" and "0x60 \<notin> set text" and "unnamed (runs text (accounts_of d))"
  shows "runs (resolve text d) (accounts_of d) = map (as_account d) (runs text (\<lambda>h. d h \<noteq> None))"
proof -
  have "resolve text d = resolved_part d text"
    using prose_plain [OF assms(2)] by (auto simp: resolve_def resolved_part_def runs_def said_def)
  then show ?thesis
    using swapped_read_back [OF assms(1), of None None "[]" "text"] assms(3) by (simp add: resolved_swapped runs_def)
qed

definition bob_account :: account where
  "bob_account = replicate 32 0x61"

lemma bob_directory: "directory_ok [js ''bob'' \<mapsto> bob_account]"
  by (simp add: directory_ok_def is_account_id_def bob_account_def list_all_iff)

lemmas run_runs = runs_def runs_from_Cons said_def blocks_mention_def word_char_def lower_letter_def upper_letter_def
  digit_def token_after_def handle_char_def js_def

lemma one_mention:
  "runs (js ''hi @bob!'') known =
     (if known (js ''bob'') then [Said (js ''hi ''), Named (js ''bob''), Said (js ''!'')] else [Said (js ''hi @bob!'')])"
  by (simp add: run_runs)

theorem mention_read_back_witness:
  "runs (resolve (js ''hi @bob!'') [js ''bob'' \<mapsto> bob_account]) (accounts_of [js ''bob'' \<mapsto> bob_account]) =
     [Said (js ''hi ''), Named bob_account, Said (js ''!'')]"
proof -
  have plain: "0x60 \<notin> set (js ''hi @bob!'')" by (simp add: js_def)
  have "js ''bob'' \<noteq> bob_account" by (simp add: js_def bob_account_def numeral_eq_Suc)
  then have "\<not> accounts_of [js ''bob'' \<mapsto> bob_account] (js ''bob'')" by (simp add: accounts_of_def)
  then have "unnamed (runs (js ''hi @bob!'') (accounts_of [js ''bob'' \<mapsto> bob_account]))" by (simp add: one_mention)
  from mention_read_back [OF bob_directory plain this] show ?thesis by (simp add: one_mention as_account_def)
qed

subsection \<open>What is not resolved is not touched\<close>

lemma runs_text: "unnamed (runs_from known prev kept s) \<Longrightarrow> concat (map (run_text d) (runs_from known prev kept s)) = kept @ s"
proof (induction known prev kept s rule: runs_from.induct)
  case (2 known prev kept u s)
  show ?case
  proof (cases "if u = 0x40 then token_after s else None")
    case None
    with 2 show ?thesis by (simp add: runs_from_Cons)
  next
    case (Some token)
    with 2(2) [OF Some refl] 2(4) token_after_Some(3) [of s token] show ?thesis
      by (auto simp: runs_from_Cons blocks_mention_def split: if_splits)
  qed
qed (simp add: said_text)

lemma resolved_from_same:
  assumes "ordered start (length text) ranges"
    and "\<And>i j. (i, j) \<in> set ranges \<Longrightarrow> unnamed (runs (substr i j text) (\<lambda>h. d h \<noteq> None))"
  shows "resolved_from d text start ranges = drop start text"
  using assms
proof (induction d "text" start ranges rule: resolved_from.induct)
  case (2 d "text" start i j ranges)
  have "resolved_part d (substr i j text) = substr i j text"
    using 2(3) [of i j] runs_text [of _ None "[]" "substr i j text" d] by (simp add: resolved_part_def runs_def)
  moreover have "resolved_from d text j ranges = drop j text"
    by (rule 2(1)) (use 2(2,3) in auto)
  moreover have "substr start i text @ substr i j text @ drop j text = drop start text"
    using 2(2) substr_drop [of i j "text"] substr_drop [of start i "text"] by simp
  ultimately show ?case by simp
qed simp

text \<open>A message that addresses nobody of the conversation leaves byte for byte as it was written, whatever
  code it holds.\<close>

theorem unaddressed_unchanged:
  assumes "\<And>i j. (i, j) \<in> set (prose text) \<Longrightarrow> unnamed (runs (substr i j text) (\<lambda>h. d h \<noteq> None))"
  shows "resolve text d = text"
  using resolved_from_same [OF ordered_prose assms] by (simp add: resolve_def)

theorem unaddressed_unchanged_witness: "resolve (js ''hi @bob!'') Map.empty = js ''hi @bob!''"
proof (rule unaddressed_unchanged)
  fix i j assume "(i, j) \<in> set (prose (js ''hi @bob!''))"
  moreover have "prose (js ''hi @bob!'') = [(0, length (js ''hi @bob!''))]"
    using prose_plain [of "js ''hi @bob!''"] by (simp add: js_def)
  ultimately have "substr i j (js ''hi @bob!'') = js ''hi @bob!''" by (simp add: substr_def js_def)
  then show "unnamed (runs (substr i j (js ''hi @bob!'')) (\<lambda>h. Map.empty h \<noteq> None))" by (simp add: one_mention)
qed

subsection \<open>One rule for the notice and for the screen\<close>

lemma wordy_no_tick: "list_all wordy text \<Longrightarrow> 0x60 \<notin> set text"
  by (auto simp: list_all_iff wordy_def)

lemma addresses_plain:
  assumes "0x60 \<notin> set text"
  shows "addresses text h known \<longleftrightarrow> Named h \<in> set (runs text known)"
  using prose_plain [OF assms] by (auto simp: addresses_def runs_def said_def)

text \<open>A message without markup raises a notice for an account exactly when the screen draws it addressed.\<close>

theorem notice_is_drawn:
  assumes "unmarked w text"
  shows "addresses text h known \<longleftrightarrow> Named h \<in> set (drawn w text known)"
  using assms wordy_no_tick [of "text"] unmarked_message [OF assms] addresses_plain
  by (simp add: unmarked_def drawn_def)

theorem notice_is_drawn_witness:
  "Named (js ''bob'') \<in> set (drawn no_web (js ''hi @bob!'') (\<lambda>h. h = js ''bob''))"
proof -
  have "unmarked no_web (js ''hi @bob!'')"
    using no_addresses [of "js ''hi @bob!''" no_web]
    by (simp add: unmarked_def js_def max_source_def wordy_def quoted_def starts_with_def)
  moreover have "addresses (js ''hi @bob!'') (js ''bob'') (\<lambda>h. h = js ''bob'')"
    by (subst addresses_plain) (simp_all add: one_mention, simp add: js_def)
  ultimately show ?thesis using notice_is_drawn by blast
qed

text \<open>With markup the two part ways: what follows an emphasis that never closes is drawn as prose, its code included, so
  the screen draws a mention the notice never saw.\<close>

lemma drawn_without_notice:
  "drawn w (js ''*a `@bob`'') (\<lambda>h. h = js ''bob'') = [Said (js ''*a `''), Named (js ''bob''), Said (js ''`'')]"
  "\<not> addresses (js ''*a `@bob`'') (js ''bob'') known"
proof -
  have "parse_inline w (js ''*a `@bob`'') = [Prose (js ''*a `@bob`'')]"
    by (simp add: run_inline read_done read_more index_from_def)
  moreover have "split_on 0xA (js ''*a `@bob`'') = [js ''*a `@bob`'']" by (simp add: js_def)
  moreover have "fence (js ''*a `@bob`'') = None" "quoted (js ''*a `@bob`'') = None"
    by (simp_all add: fence_def quoted_def starts_with_def js_def)
  ultimately have "parse_message w (js ''*a `@bob`'') = [Paragraph [Prose (js ''*a `@bob`'')]]"
    by (simp add: parse_message_def parse_blocks_def flush_paragraph_def flush_quote_def)
  then show "drawn w (js ''*a `@bob`'') (\<lambda>h. h = js ''bob'') = [Said (js ''*a `''), Named (js ''bob''), Said (js ''`'')]"
    by (simp add: drawn_def run_runs)
  have "fence [0x2A, 0x61, 0x20, 0x60, 0x40, 0x62, 0x6F, 0x62, 0x60] = None" by (simp add: fence_def js_def)
  then have "prose (js ''*a `@bob`'') = [(0, 3)]"
    by (simp add: prose_def js_def uncoded.simps index_from_def)
  then show "\<not> addresses (js ''*a `@bob`'') (js ''bob'') known"
    by (simp add: addresses_def substr_def run_runs)
qed

subsection \<open>Whose handle it is\<close>

text \<open>\<open>address\<close> reads the claims of the members as they are. When two claim the same handle, the mention goes to
  the one listed last; the handle of the writer is always the writer's.\<close>

definition claims :: "names \<Rightarrow> account list \<Rightarrow> (jsstr \<times> account) list" where
  "claims n members = fold (\<lambda>account d. case map_of (handles n) account of
     None \<Rightarrow> d | Some handle \<Rightarrow> AList.update handle account d) members []"

lemma last_claim_wins:
  assumes "map_of (handles n) a = Some handle"
    and "\<And>b. b \<in> set later \<Longrightarrow> map_of (handles n) b \<noteq> Some handle"
  shows "map_of (claims n (earlier @ a # later)) handle = Some a"
proof -
  have "map_of (fold (\<lambda>account d. case map_of (handles n) account of
      None \<Rightarrow> d | Some h \<Rightarrow> AList.update h account d) later d) handle = map_of d handle" for d
    using assms(2) by (induction later arbitrary: d) (auto split: option.split)
  with assms(1) show ?thesis by (simp add: claims_def)
qed

lemma directory_claims:
  "map_of (directory_of s v) = (map_of (claims (sx_names s) (uniq (map ra_handle (vw_accounts v) @ map pr_name (vw_peers v)))))
     (sx_handle s \<mapsto> sx_account s)"
  by (simp add: directory_of_def claims_def Let_def)

text \<open>A handle claimed by two members is resolved to whichever the roster lists last, whoever holds it at the
  server: a mention of the first is sent to the second, who is drawn in its place.\<close>

theorem contested_handle_resolved:
  assumes "uniq (map ra_handle (vw_accounts v) @ map pr_name (vw_peers v)) = earlier @ a # later"
    and "map_of (handles (sx_names s)) a = Some handle" and "handle \<noteq> sx_handle s"
    and "\<And>b. b \<in> set later \<Longrightarrow> map_of (handles (sx_names s)) b \<noteq> Some handle"
  shows "map_of (directory_of s v) handle = Some a"
  using assms last_claim_wins [OF assms(2,4)] by (simp add: directory_claims)

theorem contested_handle_resolved_witness:
  "map_of (directory_of
     ((new_session (js ''me'') (js ''phone''))\<lparr>sx_handle := js ''carol'', sx_names := no_names\<lparr>nm_claimed :=
        [(js ''a1'', \<lparr>prof_name = js ''alice'', prof_at = 1\<rparr>), (js ''a2'', \<lparr>prof_name = js ''alice'', prof_at = 2\<rparr>)]\<rparr>\<rparr>)
     ((new_view (js ''01'') ())\<lparr>vw_peers := [\<lparr>pr_name = js ''a1'', pr_fingerprint = []\<rparr>, \<lparr>pr_name = js ''a2'', pr_fingerprint = []\<rparr>]\<rparr>))
     (js ''alice'') = Some (js ''a2'')"
  by (rule contested_handle_resolved [where earlier = "[js ''a1'']" and later = "[]"])
    (simp_all add: new_view_def new_session_def handles_def)

subsection \<open>What is offered\<close>

lemma distinct_sorted [simp]: "distinct (Sorting_Algorithms.sort cmp xs) \<longleftrightarrow> distinct xs"
  by (metis mset_eq_imp_distinct_iff mset_sort)

lemma tier_cases: "tier lower sources among needle h = Some n \<Longrightarrow> n \<in> {0, 1, 2, 3}"
  by (auto simp: tier_def split: if_splits)

lemma tiers_ranked:
  fixes t :: "account \<Rightarrow> nat option" and among :: "account list" and order :: "account comparator"
  assumes "\<And>h n. t h = Some n \<Longrightarrow> n \<in> {0, 1, 2, 3 :: nat}"
  defines "at \<equiv> \<lambda>n. filter (\<lambda>h. t h = Some n) (uniq among)"
  defines "all \<equiv> at 0 @ Sorting_Algorithms.sort order (at 1) @ Sorting_Algorithms.sort order (at 2) @ Sorting_Algorithms.sort order (at 3)"
  shows "distinct all" and "set all = {h \<in> set among. t h \<noteq> None}" and "sorted_wrt (\<lambda>a b. the (t a) \<le> the (t b)) all"
proof -
  show "distinct all" by (auto simp: all_def at_def)
  show "set all = {h \<in> set among. t h \<noteq> None}" using assms(1) by (fastforce simp: all_def at_def)
  have "sorted_wrt (\<lambda>a b. the (t a) \<le> the (t b)) xs" if "\<And>h. h \<in> set xs \<Longrightarrow> t h = Some n" for xs n
    using that by (induction xs) auto
  note level = this
  have "sorted_wrt (\<lambda>a b. the (t a) \<le> the (t b)) (at n)" for n by (rule level [of _ n]) (simp add: at_def)
  moreover have "sorted_wrt (\<lambda>a b. the (t a) \<le> the (t b)) (Sorting_Algorithms.sort order (at n))" for n
    by (rule level [of _ n]) (simp add: at_def)
  ultimately show "sorted_wrt (\<lambda>a b. the (t a) \<le> the (t b)) all" by (auto simp: all_def sorted_wrt_append at_def)
qed

text \<open>What the menu offers is ranked: nobody twice, no more than the limit, everybody who matches unless the
  limit cuts, and the tiers in order, the exact handle first.\<close>

theorem completions_ranked:
  "let t = tier lower sources among (lower (without_sigil (trim query)));
       cs = completions lower locale_order among sources query limit
   in distinct cs \<and> length cs \<le> limit \<and> sorted_wrt (\<lambda>a b. the (t a) \<le> the (t b)) cs \<and>
     set cs \<subseteq> {h \<in> set among. t h \<noteq> None} \<and> (limit = length cs \<or> set cs = {h \<in> set among. t h \<noteq> None})"
proof -
  define t where "t = tier lower sources among (lower (without_sigil (trim query)))"
  define all where "all = (let at = (\<lambda>n. filter (\<lambda>h. t h = Some n) (uniq among)) in
    at 0 @ Sorting_Algorithms.sort locale_order (at 1) @ Sorting_Algorithms.sort locale_order (at 2) @
      Sorting_Algorithms.sort locale_order (at 3))"
  have range: "\<And>h n. t h = Some n \<Longrightarrow> n \<in> {0, 1, 2, 3}" unfolding t_def by (rule tier_cases)
  have cs: "completions lower locale_order among sources query limit = take limit all"
    by (simp add: completions_def all_def t_def Let_def)
  note ranked = tiers_ranked [of t among locale_order, OF range, folded all_def [unfolded Let_def]]
  then have "limit = length (take limit all) \<or> set (take limit all) = {h \<in> set among. t h \<noteq> None}"
    by (cases "limit \<le> length all") simp_all
  moreover have "set (take limit all) \<subseteq> {h \<in> set among. t h \<noteq> None}" using ranked(2) set_take_subset by fast
  ultimately show ?thesis unfolding Let_def cs t_def [symmetric] using ranked by (simp add: sorted_wrt_take)
qed

end
