(* ===== verification/Migration.thy ===== *)
theory Migration
  imports Flow
begin

text \<open>
  \<open>migration.ts\<close>, moving a desktop install over to native storage, with the steps \<open>migrateToNative\<close> of
  \<open>session.ts\<close> gives it. A step that asks the server or the disk takes the next answer. The server refuses the
  mailbox of a conversation to a revoked device (\<open>require_membership\<close> of \<open>crates/server/src/routes.rs\<close>), and
  \<open>pollOnce\<close> lets the refusal of a mailbox escape, for every conversation that is not interrupted: the poll of a
  revoked device that still has one throws.
\<close>

subsection \<open>The decision\<close>

record kept_session =
  ks_handle :: jsstr
  ks_vault :: "bool option"

datatype fallback_reason = NoVault | Conflict

datatype decision = Fresh | Native | Start jsstr | Resume jsstr | Fallback fallback_reason

definition decide :: "kept_session option \<Rightarrow> kept_session option \<Rightarrow> decision" where
  "decide web native =
     (case web of
        None \<Rightarrow> (case native of None \<Rightarrow> Fresh | Some n \<Rightarrow> Native)
      | Some w \<Rightarrow>
          (case native of
             None \<Rightarrow> if ks_vault w = Some False then Fallback NoVault else Start (ks_handle w)
           | Some n \<Rightarrow> if ks_handle n \<noteq> ks_handle w then Fallback Conflict else Resume (ks_handle w)))"

subsection \<open>The install\<close>

text \<open>
  An answer: a failure, a success, or what the conversations of the new device are after its poll. A
  conversation of the old device is held with whether it was interrupted (\<open>view.stale\<close>).
\<close>

datatype answer = Fails | Works | Joined "jsstr list"

datatype migration_act = Registered | Propagated | Counted nat nat | Restored | Revoked | Erased

record install =
  in_web :: "kept_session option"
  in_native :: "kept_session option"
  in_old :: "(jsstr \<times> bool) list"
  in_new :: "jsstr list"
  in_revoked :: bool
  in_answers :: "answer list"
  in_trace :: "migration_act list"

datatype migration_error = StepFailed | PropagationIncomplete nat nat

type_synonym 'a migration_step = "(install, migration_error, 'a) flow"

definition next_answer :: "answer migration_step" where
  "next_answer s = (case in_answers s of [] \<Rightarrow> (Inl StepFailed, s)
     | Fails # rest \<Rightarrow> (Inl StepFailed, s\<lparr>in_answers := rest\<rparr>)
     | a # rest \<Rightarrow> (Inr a, s\<lparr>in_answers := rest\<rparr>))"

definition done_act :: "migration_act \<Rightarrow> unit migration_step" where
  "done_act a = move (\<lambda>s. s\<lparr>in_trace := in_trace s @ [a]\<rparr>)"

text \<open>\<open>registerNativeDevice\<close>: \<open>fromSeed\<close> under the handle of the old session, kept natively.\<close>

definition register_native :: "unit migration_step" where
  "register_native =
     seq next_answer
    (seq (move (\<lambda>s. s\<lparr>in_native := map_option (\<lambda>w. \<lparr>ks_handle = ks_handle w, ks_vault = Some True\<rparr>) (in_web s), in_new := []\<rparr>))
         (done_act Registered))"

text \<open>A poll of the old device, which the server refuses once it is revoked.\<close>

definition refused :: "install \<Rightarrow> bool" where
  "refused s \<longleftrightarrow> in_revoked s \<and> list_ex (\<lambda>(g, stale). \<not> stale) (in_old s)"

definition propagate_from_old :: "unit migration_step" where
  "propagate_from_old =
     after (look refused) (\<lambda>no. seq (demand (\<not> no) StepFailed) (seq next_answer (done_act Propagated)))"

definition count_joined :: "(nat \<times> nat) migration_step" where
  "count_joined =
     after next_answer (\<lambda>a.
     seq (move (\<lambda>s. s\<lparr>in_new := (case a of Joined gs \<Rightarrow> gs | _ \<Rightarrow> in_new s)\<rparr>))
    (after (look (\<lambda>s. (length (in_new s), length (in_old s)))) (\<lambda>(joined, expected).
     seq (done_act (Counted joined expected)) (give (joined, expected)))))"

definition restore_history :: "unit migration_step" where
  "restore_history = done_act Restored"

text \<open>\<open>revokeOwnDevice\<close> of the old device, from the new one: the certificate, then a poll.\<close>

definition revoke_old :: "unit migration_step" where
  "revoke_old =
     after (look in_native) (\<lambda>native.
     seq (demand (native \<noteq> None) StepFailed)
    (seq next_answer
    (seq (move (\<lambda>s. s\<lparr>in_revoked := True\<rparr>))
    (seq (done_act Revoked)
    (seq next_answer (give ()))))))"

definition forget_web :: "unit migration_step" where
  "forget_web = seq next_answer (seq (move (\<lambda>s. s\<lparr>in_web := None\<rparr>)) (done_act Erased))"

subsection \<open>The sequence\<close>

definition max_rounds :: nat where "max_rounds = 20"

text \<open>The loop over the rounds; \<open>left\<close> is \<open>MAX_ROUNDS - round\<close>.\<close>

fun transfer :: "nat \<Rightarrow> unit migration_step" where
  "transfer left =
     after count_joined (\<lambda>(joined, expected).
       if joined \<ge> expected then give ()
       else case left of
         0 \<Rightarrow> throw (PropagationIncomplete joined expected)
       | Suc n \<Rightarrow> seq propagate_from_old (transfer n))"

declare transfer.simps [simp del]

definition migrate :: "decision \<Rightarrow> unit migration_step" where
  "migrate d =
     (let rest = seq propagate_from_old (seq (transfer max_rounds) (seq restore_history (seq revoke_old forget_web))) in
      case d of
        Start handle \<Rightarrow> seq register_native rest
      | Resume handle \<Rightarrow> rest
      | _ \<Rightarrow> give ())"

text \<open>What a start of the application does of what is kept.\<close>

definition start_up :: "unit migration_step" where
  "start_up = after (look (\<lambda>s. decide (in_web s) (in_native s))) migrate"

subsection \<open>What every start leaves\<close>

text \<open>An account is kept somewhere, and the old device is revoked only under a new one.\<close>

definition sound_install :: "install \<Rightarrow> bool" where
  "sound_install s \<longleftrightarrow> (in_web s \<noteq> None \<or> in_native s \<noteq> None) \<and> (in_revoked s \<longrightarrow> in_native s \<noteq> None)"

definition succeeded_install :: "install \<Rightarrow> bool" where
  "succeeded_install s \<longleftrightarrow> sound_install s \<and> in_native s \<noteq> None"

lemma keeps_next_answer:
  "(\<And>s as. I s \<Longrightarrow> I (s\<lparr>in_answers := as\<rparr>)) \<Longrightarrow> keeps I next_answer"
  by (rule keepsI) (auto simp: next_answer_def split: list.splits answer.splits)

lemma keeps_done_act:
  "(\<And>s t. I s \<Longrightarrow> I (s\<lparr>in_trace := t\<rparr>)) \<Longrightarrow> keeps I (done_act a)"
  unfolding done_act_def by (rule keeps_move)

lemmas migration_keeps = flow_keeps keeps_next_answer keeps_done_act keeps_move

lemma keeps_count_joined:
  "(\<And>s as. I s \<Longrightarrow> I (s\<lparr>in_answers := as\<rparr>)) \<Longrightarrow> (\<And>s t. I s \<Longrightarrow> I (s\<lparr>in_trace := t\<rparr>)) \<Longrightarrow>
   (\<And>s gs. I s \<Longrightarrow> I (s\<lparr>in_new := gs\<rparr>)) \<Longrightarrow> keeps I count_joined"
  unfolding count_joined_def case_prod_beta by (intro migration_keeps)

lemma keeps_transfer:
  "(\<And>s as. I s \<Longrightarrow> I (s\<lparr>in_answers := as\<rparr>)) \<Longrightarrow> (\<And>s t. I s \<Longrightarrow> I (s\<lparr>in_trace := t\<rparr>)) \<Longrightarrow>
   (\<And>s gs. I s \<Longrightarrow> I (s\<lparr>in_new := gs\<rparr>)) \<Longrightarrow> keeps I (transfer n)"
proof (induction n)
  case 0
  show ?case
    unfolding transfer.simps [of 0] case_prod_beta nat.case by (intro migration_keeps keeps_count_joined 0)
next
  case (Suc n)
  note IH = Suc.IH [OF Suc.prems]
  show ?case
    unfolding transfer.simps [of "Suc n"] case_prod_beta nat.case propagate_from_old_def
    by (intro migration_keeps keeps_count_joined Suc.prems IH)
qed

text \<open>The account is kept whatever fails, from whichever decision.\<close>

lemma keeps_propagate_from_old:
  "(\<And>s as. I s \<Longrightarrow> I (s\<lparr>in_answers := as\<rparr>)) \<Longrightarrow> (\<And>s t. I s \<Longrightarrow> I (s\<lparr>in_trace := t\<rparr>)) \<Longrightarrow> keeps I propagate_from_old"
  unfolding propagate_from_old_def by (intro migration_keeps)

lemma revoke_old_sound: "triple sound_install revoke_old (\<lambda>_. succeeded_install) sound_install"
  by (auto simp: triple_def revoke_old_def after_def seq_def look_def demand_def give_def throw_def move_def done_act_def
      next_answer_def sound_install_def succeeded_install_def split: list.splits answer.splits)

lemma forget_web_sound: "triple succeeded_install forget_web (\<lambda>_. sound_install) sound_install"
  by (auto simp: triple_def forget_web_def after_def seq_def give_def throw_def move_def done_act_def
      next_answer_def sound_install_def succeeded_install_def split: list.splits answer.splits)

lemma register_native_sound: "keeps (\<lambda>s. sound_install s \<and> in_web s \<noteq> None) register_native"
  unfolding register_native_def
  by (intro migration_keeps) (auto simp: sound_install_def)

lemma rest_sound:
  "triple sound_install (seq propagate_from_old (seq (transfer n) (seq restore_history (seq revoke_old forget_web))))
     (\<lambda>_. sound_install) sound_install"
proof -
  have plain: "sound_install (s\<lparr>in_answers := as\<rparr>)" "sound_install (s\<lparr>in_trace := t\<rparr>)" "sound_install (s\<lparr>in_new := gs\<rparr>)"
    if "sound_install s" for s as t gs
    using that by (simp_all add: sound_install_def)
  show ?thesis
    unfolding restore_history_def
    by (intro triple_seq [OF keeps_triple] keeps_propagate_from_old keeps_transfer keeps_done_act
        triple_seq [OF revoke_old_sound forget_web_sound]) (simp_all add: plain)
qed


definition desktop :: install where
  "desktop = \<lparr>in_web = Some \<lparr>ks_handle = js ''anna'', ks_vault = None\<rparr>, in_native = None, in_old = [(js ''g'', False)],
     in_new = [], in_revoked = False,
     in_answers = [Works, Works, Joined [], Works, Joined [js ''g''], Works, Works, Works], in_trace = []\<rparr>"


subsection \<open>The order of the acts\<close>

definition early :: "migration_act list \<Rightarrow> bool" where
  "early t \<longleftrightarrow> list_all (\<lambda>a. a \<notin> {Restored, Revoked, Erased}) t"

definition waited :: "migration_act list \<Rightarrow> bool" where
  "waited t \<longleftrightarrow> (\<exists>p j e. t = p @ [Counted j e] \<and> early t \<and> e \<le> j)"

definition in_order :: "install \<Rightarrow> bool" where
  "in_order s \<longleftrightarrow>
     (in_web s \<noteq> None \<and> early (in_trace s)) \<or>
     (\<exists>p. waited p \<and> (in_web s \<noteq> None \<and> in_trace s \<in> {p @ [Restored], p @ [Restored, Revoked]}
        \<or> in_native s \<noteq> None \<and> in_trace s = p @ [Restored, Revoked, Erased]))"

definition before_wait :: "install \<Rightarrow> bool" where
  "before_wait s \<longleftrightarrow> in_web s \<noteq> None \<and> early (in_trace s)"

lemma before_wait_plain:
  "before_wait s \<Longrightarrow> before_wait (s\<lparr>in_answers := as\<rparr>)" "before_wait s \<Longrightarrow> before_wait (s\<lparr>in_new := gs\<rparr>)"
  "before_wait s \<Longrightarrow> a \<in> {Registered, Propagated, Counted j e} \<Longrightarrow> before_wait (s\<lparr>in_trace := in_trace s @ [a]\<rparr>)"
  by (auto simp: before_wait_def early_def)

lemma before_wait_steps:
  "triple before_wait next_answer (\<lambda>_. before_wait) before_wait"
  "triple before_wait propagate_from_old (\<lambda>_. before_wait) before_wait"
  "triple before_wait register_native (\<lambda>_. before_wait) before_wait"
  by (auto simp: triple_def next_answer_def propagate_from_old_def register_native_def after_def seq_def look_def
      demand_def give_def throw_def move_def done_act_def before_wait_def early_def split: list.splits answer.splits)

lemma count_joined_waits:
  "triple before_wait count_joined
     (\<lambda>(j, e) s. before_wait s \<and> (e \<le> j \<longrightarrow> waited (in_trace s))) before_wait"
  by (auto simp: triple_def next_answer_def count_joined_def after_def seq_def look_def
      give_def throw_def move_def done_act_def before_wait_def early_def waited_def split: list.splits answer.splits)

lemma transfer_waits: "triple before_wait (transfer n) (\<lambda>_ s. in_web s \<noteq> None \<and> waited (in_trace s)) before_wait"
proof (induction n)
  case 0
  show ?case
    unfolding transfer.simps [of 0]
    by (rule triple_after [OF count_joined_waits]) (auto simp: before_wait_def)
next
  case (Suc n)
  have "triple before_wait (seq propagate_from_old (transfer n)) (\<lambda>_ s. in_web s \<noteq> None \<and> waited (in_trace s)) before_wait"
    by (rule triple_seq [OF before_wait_steps(2) Suc.IH])
  from triple_pre [OF this] show ?case
    unfolding transfer.simps [of "Suc n"]
    by (intro triple_after [OF count_joined_waits]) (auto simp: before_wait_def)
qed

lemma finish_in_order:
  "triple (\<lambda>s. in_web s \<noteq> None \<and> waited (in_trace s)) (seq restore_history (seq revoke_old forget_web))
     (\<lambda>_ s. in_order s \<and> in_web s = None) in_order"
proof -
  have restore: "triple (\<lambda>s. in_web s \<noteq> None \<and> waited (in_trace s)) restore_history
      (\<lambda>_ s. in_web s \<noteq> None \<and> (\<exists>p. waited p \<and> in_trace s = p @ [Restored])) in_order"
    by (auto simp: restore_history_def done_act_def)
  have revoke: "triple (\<lambda>s. in_web s \<noteq> None \<and> (\<exists>p. waited p \<and> in_trace s = p @ [Restored])) revoke_old
      (\<lambda>_ s. in_web s \<noteq> None \<and> in_native s \<noteq> None \<and> (\<exists>p. waited p \<and> in_trace s = p @ [Restored, Revoked])) in_order"
    by (auto simp: triple_def revoke_old_def after_def seq_def look_def demand_def give_def throw_def move_def done_act_def
        next_answer_def in_order_def split: list.splits answer.splits)
  have erase: "triple (\<lambda>s. in_web s \<noteq> None \<and> in_native s \<noteq> None \<and> (\<exists>p. waited p \<and> in_trace s = p @ [Restored, Revoked]))
      forget_web (\<lambda>_ s. in_order s \<and> in_web s = None) in_order"
    by (auto simp: triple_def forget_web_def after_def seq_def give_def throw_def move_def done_act_def
        next_answer_def in_order_def split: list.splits answer.splits)
  show ?thesis by (rule triple_seq [OF restore triple_seq [OF revoke erase]])
qed

lemma rest_in_order:
  "triple before_wait (seq propagate_from_old (seq (transfer n) (seq restore_history (seq revoke_old forget_web))))
     (\<lambda>_ s. in_order s \<and> in_web s = None) in_order"
proof -
  have waiting: "before_wait s \<Longrightarrow> in_order s" for s by (simp add: before_wait_def in_order_def)
  note propagate = triple_post [OF before_wait_steps(2) _ waiting, of "\<lambda>_. before_wait"]
  note transferred = triple_post [OF transfer_waits _ waiting, of "\<lambda>_ s. in_web s \<noteq> None \<and> waited (in_trace s)"]
  show ?thesis
    by (rule triple_seq [OF propagate triple_seq [OF transferred finish_in_order]]) simp_all
qed

text \<open>A migration that starts from nothing done erases the web session only at its end, with a native session
  kept, after the old device was revoked, after the history was restored, after a count that found as many
  conversations on the new device as on the old; a migration that throws has not erased it
  (\<open>migration.ts\<close>, \<open>migrate\<close>).\<close>

theorem web_erased_last:
  assumes "in_web s \<noteq> None" and "in_trace s = []" and "decide (in_web s) (in_native s) = d" and "d = Start h \<or> d = Resume h"
  shows "case start_up s of
      (Inl _, s') \<Rightarrow> in_order s'
    | (Inr _, s') \<Rightarrow> in_native s' \<noteq> None \<and> in_web s' = None \<and>
        (\<exists>p j e. in_trace s' = p @ [Counted j e, Restored, Revoked, Erased] \<and> early p \<and> e \<le> j)"
proof -
  have "before_wait s" using assms(1,2) by (simp add: before_wait_def early_def)
  moreover have "triple before_wait (migrate d) (\<lambda>_ s. in_order s \<and> in_web s = None) in_order"
  proof (cases "d = Start h")
    case True
    have registered: "triple before_wait register_native (\<lambda>_. before_wait) in_order"
      by (rule triple_post [OF before_wait_steps(3)]) (simp_all add: before_wait_def in_order_def)
    show ?thesis
      unfolding True migrate_def Let_def decision.case by (rule triple_seq [OF registered rest_in_order])
  next
    case False
    with assms(4) show ?thesis using rest_in_order [of max_rounds] by (simp add: migrate_def Let_def)
  qed
  ultimately have "case migrate d s of (Inl _, s') \<Rightarrow> in_order s' | (Inr _, s') \<Rightarrow> in_order s' \<and> in_web s' = None"
    by (simp add: triple_def)
  moreover have "start_up s = migrate d s" by (simp add: start_up_def after_def look_def assms(3))
  ultimately show ?thesis
    by (auto simp: in_order_def waited_def early_def split: prod.splits sum.splits)
qed

lemma web_erased_last_witness:
  "(\<exists>s'. start_up desktop = (Inr (), s') \<and> in_web s' = None)
   \<and> (\<exists>s'. start_up (desktop\<lparr>in_answers := [Works, Works, Joined [], Fails]\<rparr>) = (Inl StepFailed, s') \<and> in_order s')"
proof -
  let ?s = "desktop\<lparr>in_answers := [Works, Works, Joined [], Fails]\<rparr>"
  have d: "decide (in_web desktop) (in_native desktop) = Start (js ''anna'')"
    "decide (in_web ?s) (in_native ?s) = Start (js ''anna'')"
    by (simp_all add: desktop_def decide_def)
  note run = start_up_def after_def look_def migrate_def decide_def seq_def register_native_def next_answer_def move_def
    done_act_def propagate_from_old_def refused_def demand_def give_def transfer.simps count_joined_def max_rounds_def
    restore_history_def revoke_old_def forget_web_def throw_def
  have "fst (start_up desktop) = Inr ()" by (simp add: run desktop_def eval_nat_numeral)
  moreover have "fst (start_up ?s) = Inl StepFailed" by (simp add: run desktop_def eval_nat_numeral)
  ultimately show ?thesis
    using web_erased_last [OF _ _ d(1)] web_erased_last [OF _ _ d(2)]
    by (cases "start_up desktop"; cases "start_up ?s") (auto simp: desktop_def)
qed

subsection \<open>Whether it ends\<close>

text \<open>A migration whose steps are answered ends: the new device is registered under the handle of the old,
  the old one revoked and erased, once the new one counts as many conversations (\<open>migration.ts\<close>,
  \<open>migrate\<close>).\<close>

theorem migration_completes:
  assumes "in_web s = Some w" and "in_native s = None" and "ks_vault w \<noteq> Some False" and "\<not> in_revoked s"
    and "in_answers s = Works # Works # Joined gs # Works # Works # Works # as" and "length (in_old s) \<le> length gs"
  shows "start_up s = (Inr (), s\<lparr>in_web := None, in_native := Some \<lparr>ks_handle = ks_handle w, ks_vault = Some True\<rparr>,
    in_new := gs, in_revoked := True, in_answers := as, in_trace := in_trace s @
      [Registered, Propagated, Counted (length gs) (length (in_old s)), Restored, Revoked, Erased]\<rparr>)"
proof -
  have "decide (in_web s) (in_native s) = Start (ks_handle w)"
    using assms(1-3) by (simp add: decide_def)
  then show ?thesis
    using assms
    by (simp add: start_up_def after_def look_def migrate_def seq_def register_native_def next_answer_def move_def
        done_act_def propagate_from_old_def refused_def demand_def give_def transfer.simps [of max_rounds] count_joined_def
        restore_history_def revoke_old_def forget_web_def)
qed

lemma migration_completes_witness:
  "fst (start_up (desktop\<lparr>in_answers := [Works, Works, Joined [js ''g''], Works, Works, Works]\<rparr>)) = Inr ()"
  using migration_completes [of "desktop\<lparr>in_answers := [Works, Works, Joined [js ''g''], Works, Works, Works]\<rparr>"
      "\<lparr>ks_handle = js ''anna'', ks_vault = None\<rparr>" "[js ''g'']" "[]"]
  by (simp add: desktop_def)

text \<open>A migration interrupted between the revocation and the erasure never ends: while the old device still
  has a conversation that is not interrupted, every later start throws at its first poll, which the server
  refuses, and moves nothing; the web session, of a revoked device, is the one the application opens
  (\<open>migration.ts\<close>, \<open>migrate\<close>; \<open>session.ts\<close>, \<open>start\<close>).\<close>

theorem interrupted_revocation_sticks:
  assumes "in_web s = Some w" and "in_native s = Some n" and "ks_handle n = ks_handle w" and "refused s"
  shows "start_up s = (Inl StepFailed, s) \<and> ((\<lambda>t. snd (start_up t)) ^^ k) s = s"
proof -
  have stuck: "start_up s = (Inl StepFailed, s)"
    using assms
    by (simp add: start_up_def after_def look_def migrate_def decide_def seq_def propagate_from_old_def demand_def throw_def)
  moreover have "((\<lambda>t. snd (start_up t)) ^^ k) s = s" by (induction k) (simp_all add: stuck)
  ultimately show ?thesis by simp
qed

text \<open>The poll that follows the revocation failed: the state is reached from a fresh install.\<close>

definition interrupted :: install where
  "interrupted = snd (start_up (desktop\<lparr>in_answers := [Works, Works, Joined [js ''g''], Works, Fails]\<rparr>))"

lemma interrupted_revocation_sticks_witness:
  "fst (start_up interrupted) = Inl StepFailed
   \<and> start_up (((\<lambda>t. snd (start_up t)) ^^ 7) (interrupted\<lparr>in_answers := replicate 40 Works\<rparr>))
     = (Inl StepFailed, interrupted\<lparr>in_answers := replicate 40 Works\<rparr>)"
proof -
  note run = start_up_def after_def look_def migrate_def decide_def seq_def register_native_def next_answer_def move_def
    done_act_def propagate_from_old_def refused_def demand_def give_def transfer.simps [of max_rounds] count_joined_def
    restore_history_def revoke_old_def forget_web_def throw_def
  have at: "in_web interrupted = Some \<lparr>ks_handle = js ''anna'', ks_vault = None\<rparr>"
    "in_native interrupted = Some \<lparr>ks_handle = js ''anna'', ks_vault = Some True\<rparr>" "refused interrupted"
    by (simp_all add: interrupted_def desktop_def run)
  note stuck = interrupted_revocation_sticks [of "interrupted\<lparr>in_answers := replicate 40 Works\<rparr>"]
  show ?thesis
    using interrupted_revocation_sticks [OF at(1,2) _ at(3)] stuck [where k = 7] at
    by (simp add: refused_def)
qed

text \<open>The count is not an inclusion: a new device that joined another conversation is counted for the missing one.\<close>

lemma count_is_not_inclusion:
  "\<exists>s'. count_joined (desktop\<lparr>in_answers := [Joined [js ''other'']]\<rparr>) = (Inr (1, 1), s') \<and> \<not> fst ` set (in_old s') \<subseteq> set (in_new s')"
  by (simp add: count_joined_def desktop_def after_def next_answer_def seq_def move_def look_def done_act_def give_def js_def)

end
