(* ===== verification/Notices.thy ===== *)
theory Notices
  imports Requests Mentions Conversation
begin

text \<open>
  What the application says outside its window: the notices of \<open>notifications.ts\<close>, as a machine over what the client
  asks and what the user does with them, the pass of \<open>App.tsx\<close> that decides which arrivals raise one, the count in
  the title and on the icon, and the wake-ups of \<open>push.ts\<close>. The platform replaces a notice by a later one of the
  same tag, and keeps what it shows until it is closed.
\<close>

subsection \<open>Notices\<close>

datatype permission = Unsupported | AskFirst | Granted | Denied

definition read_permission :: "jsstr \<Rightarrow> permission" where
  "read_permission value = (if value = js ''granted'' then Granted else if value = js ''denied'' then Denied else AskFirst)"

definition notification_permission :: "jsstr option \<Rightarrow> permission" where
  "notification_permission api = (case api of None \<Rightarrow> Unsupported | Some value \<Rightarrow> read_permission value)"

datatype notice_address = MentionNotice | ReplyNotice | CallNotice

record arrival =
  ar_conversation :: jsstr
  ar_address :: "notice_address option"
  ar_name :: "jsstr option"

record shown_notice =
  sh_tag :: jsstr
  sh_title :: jsstr
  sh_body :: jsstr
  sh_renotify :: bool

definition notice_title :: jsstr where "notice_title = js ''Whispee''"

definition notice_lead :: "notice_address option \<Rightarrow> nat \<Rightarrow> jsstr" where
  "notice_lead address many =
     js (case address of
       Some CallNotice \<Rightarrow> ''Incoming call''
     | Some MentionNotice \<Rightarrow> ''You were mentioned''
     | Some ReplyNotice \<Rightarrow> ''You were replied to''
     | None \<Rightarrow> if many > 1 then ''New messages'' else ''New message'')"

definition notice_body :: "arrival \<Rightarrow> nat \<Rightarrow> jsstr" where
  "notice_body a many =
     notice_lead (ar_address a) many @
     (case ar_name a of None \<Rightarrow> [] | Some name \<Rightarrow> if name = [] then [] else [0x20, 0x2014, 0x20] @ name)"

text \<open>\<open>nc_standing\<close> is the map of \<open>createNotifier\<close>; \<open>nc_screen\<close> is what the platform shows.\<close>

record notices =
  nc_standing :: "(jsstr \<times> nat \<times> nat) list"
  nc_screen :: "(nat \<times> shown_notice) list"
  nc_next :: nat
  nc_opened :: "jsstr list"

definition no_notices :: notices where
  "no_notices = \<lparr>nc_standing = [], nc_screen = [], nc_next = 0, nc_opened = []\<rparr>"

definition close_notice :: "nat \<Rightarrow> notices \<Rightarrow> notices" where
  "close_notice h s = s\<lparr>nc_screen := filter (\<lambda>(k, n). k \<noteq> h) (nc_screen s)\<rparr>"

definition forget_notice :: "jsstr \<Rightarrow> notices \<Rightarrow> notices" where
  "forget_notice conversation s =
     (let s1 = (case map_of (nc_standing s) conversation of None \<Rightarrow> s | Some (h, many) \<Rightarrow> close_notice h s)
      in s1\<lparr>nc_standing := AList.delete conversation (nc_standing s1)\<rparr>)"

text \<open>\<open>permission\<close> and \<open>looking\<close> are what \<open>arrived\<close> reads, \<open>illegal\<close> whether the constructor throws.\<close>

definition notice_arrived :: "permission \<Rightarrow> bool \<Rightarrow> bool \<Rightarrow> arrival \<Rightarrow> notices \<Rightarrow> notices" where
  "notice_arrived permission looking illegal a s =
     (if permission \<noteq> Granted \<or> looking then s
      else
        (let many = (case map_of (nc_standing s) (ar_conversation a) of None \<Rightarrow> 0 | Some (h, c) \<Rightarrow> c) + 1 in
         if illegal then s
         else s\<lparr>nc_standing := AList.update (ar_conversation a) (nc_next s, many) (nc_standing s),
                nc_screen := (nc_next s, \<lparr>sh_tag = ar_conversation a, sh_title = notice_title, sh_body = notice_body a many,
                    sh_renotify = (ar_address a \<noteq> None)\<rparr>) # filter (\<lambda>(h, n). sh_tag n \<noteq> ar_conversation a) (nc_screen s),
                nc_next := Suc (nc_next s)\<rparr>))"

text \<open>A click on a notice that is shown.\<close>

definition notice_clicked :: "nat \<Rightarrow> notices \<Rightarrow> notices" where
  "notice_clicked h s =
     (case map_of (nc_screen s) h of
        None \<Rightarrow> s
      | Some n \<Rightarrow>
          (let s1 = close_notice h (s\<lparr>nc_opened := nc_opened s @ [sh_tag n]\<rparr>)
           in s1\<lparr>nc_standing := AList.delete (sh_tag n) (nc_standing s1)\<rparr>))"

datatype notice_event =
    Arrived permission bool bool arrival
  | Clicked nat
  | SweptAway nat
  | DismissOne jsstr
  | DismissAll

fun notice_step :: "notice_event \<Rightarrow> notices \<Rightarrow> notices" where
  "notice_step (Arrived permission looking illegal a) s = notice_arrived permission looking illegal a s"
| "notice_step (Clicked h) s = notice_clicked h s"
| "notice_step (SweptAway h) s = close_notice h s"
| "notice_step (DismissOne conversation) s = forget_notice conversation s"
| "notice_step DismissAll s = fold forget_notice (map fst (nc_standing s)) s"

definition notice_run :: "notice_event list \<Rightarrow> notices" where
  "notice_run es = fold notice_step es no_notices"

subsection \<open>Which arrivals raise one\<close>

text \<open>What the pass of \<open>App.tsx\<close> reads of the session, of the names and of the clock.\<close>

record noticing =
  no_preferences :: preferences
  no_disclose :: bool
  no_self :: account
  no_ringing :: bool
  no_names :: name_sources
  no_lower :: "jsstr \<Rightarrow> jsstr"
  no_now :: int

definition others_in :: "'g view \<Rightarrow> account list" where
  "others_in v = map ra_handle (vw_accounts v)"

definition disclosed_name :: "noticing \<Rightarrow> jsstr \<Rightarrow> 'g view \<Rightarrow> jsstr option" where
  "disclosed_name c room v =
     (if discloses_name (flags_of (no_preferences c) room) (no_disclose c)
      then (let name = joined (js '', '') (map (\<lambda>a. compact_name_of (no_lower c) a (no_names c) (others_in v)) (others_in v))
            in if name = [] then None else Some name)
      else None)"

definition arrived_since :: "nat \<Rightarrow> 'g view \<Rightarrow> message list" where
  "arrived_since before v = filter (\<lambda>m. ms_seq m > before \<and> \<not> ms_mine m) (vw_messages v)"

definition silenced :: "noticing \<Rightarrow> nat \<Rightarrow> 'g view \<Rightarrow> bool" where
  "silenced c before v \<longleftrightarrow> arrived_since before v \<noteq> [] \<and>
     list_all (\<lambda>m. case ms_sender m of None \<Rightarrow> False | Some a \<Rightarrow> is_blocked (no_preferences c) a) (arrived_since before v)"

definition notice_of :: "noticing \<Rightarrow> nat option \<Rightarrow> jsstr \<Rightarrow> 'g view \<Rightarrow> arrival option" where
  "notice_of c before room v =
     (case before of
        None \<Rightarrow> None
      | Some b \<Rightarrow>
          if vw_content_cursor v \<le> b \<or> silenced c b v \<or> is_muted (flags_of (no_preferences c) room) (no_now c) then None
          else Some \<lparr>ar_conversation = room,
            ar_address = (if no_ringing c then Some CallNotice
              else case addressed_in (vw_messages v) b (no_self c) (others_in v @ [no_self c]) of
                None \<Rightarrow> None | Some AsMention \<Rightarrow> Some MentionNotice | Some AsReply \<Rightarrow> Some ReplyNotice),
            ar_name = disclosed_name c room v\<rparr>)"

definition view_unread :: "'g view \<Rightarrow> nat" where
  "view_unread v = length (filter (\<lambda>m. \<not> ms_mine m \<and> ms_seq m > vw_read_cursor v) (vw_messages v))"

text \<open>The pass: one step per conversation, then the dismissals. \<open>seen\<close> is the cursor at the pass before.\<close>

definition notice_pass ::
    "noticing \<Rightarrow> permission \<Rightarrow> bool \<Rightarrow> bool \<Rightarrow> (jsstr \<times> 'g view) list \<Rightarrow> (jsstr \<times> nat) list \<Rightarrow> notice_event list \<times> (jsstr \<times> nat) list" where
  "notice_pass c permission looking illegal views seen =
     (concat (map (\<lambda>(room, v). case notice_of c (map_of seen room) room v of
          None \<Rightarrow> [] | Some a \<Rightarrow> [Arrived permission looking illegal a]) views) @
      concat (map (\<lambda>(room, v). if view_unread v = 0 then [DismissOne room] else []) views),
      fold (\<lambda>(room, v). AList.update room (vw_content_cursor v)) views seen)"

subsection \<open>Counts\<close>

definition unread_title :: "jsstr \<Rightarrow> nat \<Rightarrow> jsstr" where
  "unread_title original unread = (if unread > 0 then js ''('' @ decimal unread @ js '') '' @ original else original)"

text \<open>The counter keeps the title it found: \<open>show\<close> and \<open>restore\<close> give the title they leave.\<close>

record title_counter =
  tc_original :: jsstr
  tc_title :: jsstr

definition count_unread_in_title :: "jsstr \<Rightarrow> title_counter" where
  "count_unread_in_title title = \<lparr>tc_original = title, tc_title = title\<rparr>"

definition title_show :: "nat \<Rightarrow> title_counter \<Rightarrow> title_counter" where
  "title_show unread t = t\<lparr>tc_title := unread_title (tc_original t) unread\<rparr>"

definition title_restore :: "title_counter \<Rightarrow> title_counter" where
  "title_restore t = t\<lparr>tc_title := tc_original t\<rparr>"

datatype badge_call = SetBadge nat | ClearBadge

definition mark_unread_badge :: "nat \<Rightarrow> badge_call" where
  "mark_unread_badge unread = (if unread = 0 then ClearBadge else SetBadge unread)"

subsection \<open>Wake-ups\<close>

definition decode_application_server_key :: "jsstr \<Rightarrow> base64_error + bytes" where
  "decode_application_server_key room =
     (let padded = map (\<lambda>u. if u = 0x2D then 0x2B else if u = 0x5F then 0x2F else u) room in
      from_base64 (padded @ replicate ((4 - length padded mod 4) mod 4) 0x3D))"

text \<open>What a browser holds of a worker, and whether each of its calls throws.\<close>

record browser =
  br_supported :: bool
  br_registers :: bool
  br_subscription :: "jsstr option"
  br_offers :: "bytes \<Rightarrow> jsstr option"
  br_unsubscribes :: bool

datatype push_failure = BadServerKey base64_error | SubscribeRefused | UnsubscribeRefused | PushRefused api_failure

definition push_worker :: "browser \<Rightarrow> bool" where
  "push_worker b \<longleftrightarrow> br_supported b \<and> br_registers b"

definition push_enabled :: "browser \<Rightarrow> bool" where
  "push_enabled b \<longleftrightarrow> push_worker b \<and> br_subscription b \<noteq> None"

definition give_token :: "net \<Rightarrow> sender \<Rightarrow> jsstr \<Rightarrow> push_failure + bool" where
  "give_token n d endpoint = (case set_push_token n d (js ''webpush'') endpoint of Inl e \<Rightarrow> Inl (PushRefused e) | Inr _ \<Rightarrow> Inr True)"

definition enable_push :: "net \<Rightarrow> sender \<Rightarrow> jsstr option \<Rightarrow> browser \<Rightarrow> (push_failure + bool) \<times> browser" where
  "enable_push n d room b =
     (if \<not> push_worker b then (Inr False, b)
      else case room of
        None \<Rightarrow> (Inr False, b)
      | Some k \<Rightarrow>
          (case br_subscription b of
             Some endpoint \<Rightarrow> (give_token n d endpoint, b)
           | None \<Rightarrow>
               (case decode_application_server_key k of
                  Inl e \<Rightarrow> (Inl (BadServerKey e), b)
                | Inr raw \<Rightarrow>
                    (case br_offers b raw of
                       None \<Rightarrow> (Inl SubscribeRefused, b)
                     | Some endpoint \<Rightarrow> (give_token n d endpoint, b\<lparr>br_subscription := Some endpoint\<rparr>)))))"

definition disable_push :: "net \<Rightarrow> sender \<Rightarrow> browser \<Rightarrow> (push_failure + unit) \<times> browser" where
  "disable_push n d b =
     (let subscribed = push_worker b \<and> br_subscription b \<noteq> None in
      if subscribed \<and> \<not> br_unsubscribes b then (Inl UnsubscribeRefused, b)
      else (case forget_push_token n d of Inl e \<Rightarrow> Inl (PushRefused e) | Inr _ \<Rightarrow> Inr (),
            if subscribed then b\<lparr>br_subscription := None\<rparr> else b))"

text \<open>The replay swallows every failure; \<open>True\<close> when an endpoint was sent again.\<close>

definition replay_push_token :: "net \<Rightarrow> sender \<Rightarrow> browser \<Rightarrow> bool" where
  "replay_push_token n d b =
     (if \<not> br_supported b then False
      else case br_subscription b of None \<Rightarrow> False | Some endpoint \<Rightarrow> (case give_token n d endpoint of Inl _ \<Rightarrow> False | Inr _ \<Rightarrow> True))"

subsection \<open>Every notice can be taken back\<close>

text \<open>What the client needs to hold to take a notice back: what is shown is what stands, one per conversation.\<close>

definition retractable :: "notices \<Rightarrow> bool" where
  "retractable s \<longleftrightarrow> list_all (\<lambda>(h, n). h < nc_next s \<and> map_option fst (map_of (nc_standing s) (sh_tag n)) = Some h) (nc_screen s) \<and>
     distinct (map fst (nc_screen s))"

lemma close_notice_fields [simp]:
  "nc_standing (close_notice h s) = nc_standing s" "nc_next (close_notice h s) = nc_next s"
  "nc_screen (close_notice h s) = filter (\<lambda>(k, n). k \<noteq> h) (nc_screen s)" "nc_opened (close_notice h s) = nc_opened s"
  by (simp_all add: close_notice_def)

lemma shown_stands: "retractable s \<Longrightarrow> (h, n) \<in> set (nc_screen s) \<Longrightarrow> \<exists>k. map_of (nc_standing s) (sh_tag n) = Some (h, k)"
  by (force simp: retractable_def list_all_iff)

lemma screen_unique: "retractable s \<Longrightarrow> (h, n) \<in> set (nc_screen s) \<Longrightarrow> (h', n') \<in> set (nc_screen s) \<Longrightarrow> sh_tag n = sh_tag n' \<Longrightarrow> h = h'"
  using shown_stands by (metis option.inject prod.inject)

lemma distinct_filter_fst: "distinct (map fst xs) \<Longrightarrow> distinct (map fst (filter P xs))"
  by (induction xs) auto

lemma retractable_close: "retractable s \<Longrightarrow> retractable (close_notice h s)"
  by (auto simp: retractable_def list_all_iff distinct_filter_fst)

lemma retractable_forget: "retractable s \<Longrightarrow> retractable (forget_notice c s)"
  by (auto simp: retractable_def list_all_iff forget_notice_def Let_def distinct_filter_fst split: option.splits)

lemma forgotten_screen:
  assumes "retractable s" and "(h, n) \<in> set (nc_screen (forget_notice c s))"
  shows "(h, n) \<in> set (nc_screen s) \<and> sh_tag n \<noteq> c"
proof -
  from assms(2) have shown: "(h, n) \<in> set (nc_screen s)" by (auto simp: forget_notice_def split: option.splits)
  from shown_stands [OF assms(1) this] obtain k where "map_of (nc_standing s) (sh_tag n) = Some (h, k)" by blast
  with assms(2) shown show ?thesis by (auto simp: forget_notice_def)
qed

lemma retractable_step: "retractable s \<Longrightarrow> retractable (notice_step e s)"
proof (cases e)
  case (Arrived permission looking illegal a)
  moreover assume "retractable s"
  ultimately show ?thesis
    by (auto simp: notice_arrived_def retractable_def list_all_iff Let_def distinct_filter_fst)
next
  case (Clicked h)
  assume s: "retractable s"
  show ?thesis
  proof (cases "map_of (nc_screen s) h")
    case (Some n)
    then have n: "(h, n) \<in> set (nc_screen s)" by (rule map_of_SomeD)
    have "sh_tag n' \<noteq> sh_tag n" if "(h', n') \<in> set (nc_screen s)" "h' \<noteq> h" for h' n'
      using screen_unique [OF s that(1) n] that(2) by blast
    then show ?thesis
      using s by (auto simp: Clicked notice_clicked_def Some Let_def retractable_def list_all_iff distinct_filter_fst)
  qed (simp add: Clicked notice_clicked_def s)
next
  case DismissAll
  assume "retractable s"
  then have "retractable (fold forget_notice cs s)" for cs
    by (induction cs arbitrary: s) (simp_all add: retractable_forget)
  then show ?thesis by (simp add: DismissAll)
qed (simp_all add: retractable_close retractable_forget)

lemma retractable_run: "retractable (notice_run es)"
proof -
  have "retractable (fold notice_step es s)" if "retractable s" for s
    using that by (induction es arbitrary: s) (simp_all add: retractable_step)
  then show ?thesis by (simp add: notice_run_def no_notices_def retractable_def)
qed

lemma dismissed_all:
  assumes "retractable s"
  shows "nc_screen (notice_step DismissAll s) = []"
proof -
  have "\<forall>h n. (h, n) \<in> set (nc_screen (fold forget_notice cs s)) \<longrightarrow> (h, n) \<in> set (nc_screen s) \<and> sh_tag n \<notin> set cs" for cs
    using assms
  proof (induction cs arbitrary: s)
    case (Cons c cs)
    from Cons.IH [OF retractable_forget [OF Cons.prems, of c]] show ?case
      using forgotten_screen [OF Cons.prems, of _ _ c] by fastforce
  qed simp
  moreover have "sh_tag n \<in> set (map fst (nc_standing s))" if "(h, n) \<in> set (nc_screen s)" for h n
  proof -
    from that assms obtain e where "map_of (nc_standing s) (sh_tag n) = Some e" by (fastforce simp: retractable_def list_all_iff)
    then show ?thesis using map_of_SomeD by force
  qed
  ultimately have "\<forall>h n. (h, n) \<notin> set (nc_screen (fold forget_notice (map fst (nc_standing s)) s))" by blast
  then show ?thesis by (cases "nc_screen (fold forget_notice (map fst (nc_standing s)) s)") auto
qed

text \<open>Whatever arrives, is clicked, swept away or dismissed: at most one notice is shown per conversation, dismissing a
  conversation leaves none of its notices on the screen, and ending the session leaves none at all
  (\<open>notifications.ts\<close>, \<open>createNotifier\<close>).\<close>

theorem notices_taken_back:
  "distinct (map (\<lambda>(h, n). sh_tag n) (nc_screen (notice_run es))) \<and>
   list_all (\<lambda>(h, n). sh_tag n \<noteq> c) (nc_screen (notice_run (es @ [DismissOne c]))) \<and>
   nc_screen (notice_run (es @ [DismissAll])) = []"
proof -
  let ?s = "notice_run es"
  have run: "notice_run (es @ [e]) = notice_step e ?s" for e by (simp add: notice_run_def)
  have "distinct (map fst (nc_screen ?s))" using retractable_run [of es] by (simp add: retractable_def)
  then have "distinct (nc_screen ?s)" by (simp add: distinct_map)
  moreover have "inj_on (\<lambda>(h, n). sh_tag n) (set (nc_screen ?s))"
  proof (rule inj_onI, clarsimp)
    fix h n h' n'
    assume in_screen: "(h, n) \<in> set (nc_screen ?s)" "(h', n') \<in> set (nc_screen ?s)" and "sh_tag n = sh_tag n'"
    then have "h = h'" using screen_unique [OF retractable_run] by blast
    with in_screen \<open>distinct (map fst (nc_screen ?s))\<close> show "h = h' \<and> n = n'" by (metis eq_key_imp_eq_value)
  qed
  ultimately have "distinct (map (\<lambda>(h, n). sh_tag n) (nc_screen ?s))" by (simp add: distinct_map)
  moreover have "list_all (\<lambda>(h, n). sh_tag n \<noteq> c) (nc_screen (notice_run (es @ [DismissOne c])))"
    using forgotten_screen [OF retractable_run [of es], of _ _ c] by (auto simp: run list_all_iff)
  moreover have "nc_screen (notice_run (es @ [DismissAll])) = []"
    using dismissed_all [OF retractable_run] by (simp add: run del: notice_step.simps)
  ultimately show ?thesis by blast
qed

subsection \<open>What a notice says\<close>

definition said_by :: "notice_event list \<Rightarrow> shown_notice \<Rightarrow> bool" where
  "said_by es n \<longleftrightarrow> (\<exists>permission looking illegal a many. Arrived permission looking illegal a \<in> set es \<and>
     sh_tag n = ar_conversation a \<and> sh_title n = notice_title \<and> sh_body n = notice_body a many \<and> sh_renotify n = (ar_address a \<noteq> None))"

lemma forget_screen: "set (nc_screen (forget_notice c s)) \<subseteq> set (nc_screen s)"
  by (auto simp: forget_notice_def split: option.splits)

lemma dismiss_screen: "set (nc_screen (fold forget_notice cs s)) \<subseteq> set (nc_screen s)"
  by (induction cs arbitrary: s) (simp, metis (no_types, lifting) fold_simps(2) forget_screen subset_trans)

lemma step_screen:
  "(h, n) \<in> set (nc_screen (notice_step e s)) \<Longrightarrow> (h, n) \<in> set (nc_screen s) \<or> said_by [e] n"
proof (cases e)
  case DismissAll
  assume "(h, n) \<in> set (nc_screen (notice_step e s))"
  then show ?thesis using dismiss_screen [of "map fst (nc_standing s)" s] by (auto simp: DismissAll)
next
  case (DismissOne c)
  assume "(h, n) \<in> set (nc_screen (notice_step e s))"
  then show ?thesis using forget_screen [of c s] by (auto simp: DismissOne)
next
  case (Arrived permission looking illegal a)
  assume "(h, n) \<in> set (nc_screen (notice_step e s))"
  then show ?thesis by (force simp: Arrived notice_arrived_def said_by_def Let_def split: if_splits)
qed (auto simp: notice_clicked_def Let_def split: option.splits)

lemma said_by_more: "said_by es n \<Longrightarrow> said_by (es @ fs) n" "said_by fs n \<Longrightarrow> said_by (es @ fs) n"
  unfolding said_by_def by (metis UnCI set_append)+

lemma run_screen: "(h, n) \<in> set (nc_screen (notice_run es)) \<Longrightarrow> said_by es n"
proof (induction es rule: rev_induct)
  case (snoc e es)
  then have "(h, n) \<in> set (nc_screen (notice_step e (notice_run es)))" by (simp add: notice_run_def)
  from step_screen [OF this] show ?case using snoc.IH said_by_more by blast
qed (simp add: notice_run_def no_notices_def)

definition notice_leads :: "jsstr list" where
  "notice_leads = map js [''Incoming call'', ''You were mentioned'', ''You were replied to'', ''New messages'', ''New message'']"

text \<open>A notice never shows what was written: its title is the name of the application, and while a conversation does
  not disclose its name, what its notices say is one of five sentences, whatever has arrived and in whatever order
  (\<open>notifications.ts\<close>, \<open>arrived\<close>; \<open>App.tsx\<close>).\<close>

theorem notices_say_nothing:
  assumes "list_all (\<lambda>e. case e of Arrived p l i a \<Rightarrow> ar_conversation a = c \<longrightarrow> ar_name a = None | _ \<Rightarrow> True) es"
  shows "list_all (\<lambda>(h, n). sh_title n = notice_title \<and> (sh_tag n = c \<longrightarrow> sh_body n \<in> set notice_leads)) (nc_screen (notice_run es))"
proof -
  have "notice_body a many \<in> set notice_leads" if "ar_name a = None" for a many
    using that by (auto simp: notice_body_def notice_lead_def notice_leads_def split: option.splits notice_address.splits)
  then show ?thesis
    using assms run_screen [of _ _ es] by (fastforce simp: list_all_iff said_by_def)
qed

lemma notices_say_nothing_witness:
  "nc_screen (notice_run [Arrived Granted False False \<lparr>ar_conversation = js ''c1'', ar_address = None, ar_name = None\<rparr>]) \<noteq> [] \<and>
   list_all (\<lambda>(h, n). sh_title n = notice_title \<and> (sh_tag n = js ''c1'' \<longrightarrow> sh_body n \<in> set notice_leads))
     (nc_screen (notice_run [Arrived Granted False False \<lparr>ar_conversation = js ''c1'', ar_address = None, ar_name = None\<rparr>]))"
  by (rule conjI, simp add: notice_run_def notice_arrived_def Let_def, rule notices_say_nothing, simp)

lemma undisclosed_pass:
  "\<not> discloses_name (flags_of (no_preferences c) room) (no_disclose c) \<Longrightarrow> notice_of c before room v = Some a \<Longrightarrow> ar_name a = None"
  by (auto simp: notice_of_def disclosed_name_def split: option.splits if_splits)

lemma notice_refused:
  "notice_of c None room v = None"
  "is_muted (flags_of (no_preferences c) room) (no_now c) \<Longrightarrow> notice_of c before room v = None"
  "silenced c b v \<Longrightarrow> notice_of c (Some b) room v = None"
  by (simp_all add: notice_of_def split: option.splits)

text \<open>A call that rings is announced in the name of every conversation something arrives in meanwhile.\<close>

lemma ring_announced_elsewhere:
  "no_ringing c \<Longrightarrow> notice_of c before room v = Some a \<Longrightarrow> ar_address a = Some CallNotice"
  by (auto simp: notice_of_def split: option.splits if_splits)

text \<open>A cursor that moved is enough: nothing new from anyone is announced as a new message, and so is what our own
  account wrote on another device.\<close>

lemma notice_of_nothing:
  "arrived_since b v = [] \<Longrightarrow> b < vw_content_cursor v \<Longrightarrow> \<not> is_muted (flags_of (no_preferences c) room) (no_now c) \<Longrightarrow>
     notice_of c (Some b) room v \<noteq> None"
  by (simp add: notice_of_def silenced_def)

lemma sibling_message_announced:
  "\<not> is_muted (flags_of (no_preferences c) room) (no_now c) \<Longrightarrow> \<not> is_blocked (no_preferences c) (no_self c) \<Longrightarrow>
   b < vw_content_cursor v \<Longrightarrow> ms_sender m = Some (no_self c) \<Longrightarrow> \<not> ms_mine m \<Longrightarrow> ms_seq m > b \<Longrightarrow> m \<in> set (vw_messages v) \<Longrightarrow>
     notice_of c (Some b) room v \<noteq> None"
  by (auto simp: notice_of_def silenced_def arrived_since_def list_all_iff split: option.splits)

subsection \<open>Titles and wake-ups\<close>

lemma title_given_back: "tc_title (title_restore (fold title_show counts (count_unread_in_title title))) = title"
proof -
  have "tc_original (fold title_show counts t) = tc_original t" for t
    by (induction counts arbitrary: t) (simp_all add: title_show_def)
  then show ?thesis by (simp add: title_restore_def count_unread_in_title_def)
qed

lemma title_at_zero: "tc_title (title_show 0 t) = tc_original t"
  by (simp add: title_show_def unread_title_def)

lemma enabled_push_told:
  "enable_push n d served b = (Inr True, b') \<Longrightarrow> push_worker b \<and> (\<exists>endpoint. br_subscription b' = Some endpoint \<and> give_token n d endpoint = Inr True)"
  by (auto simp: enable_push_def split: if_splits option.splits sum.splits)

text \<open>A token the server refused leaves the browser subscribed.\<close>

lemma subscribed_untold:
  "push_worker b \<Longrightarrow> br_subscription b = None \<Longrightarrow> decode_application_server_key k = Inr raw \<Longrightarrow> br_offers b raw = Some endpoint \<Longrightarrow>
   give_token n d endpoint = Inl e \<Longrightarrow>
     fst (enable_push n d (Some k) b) = Inl e \<and> push_enabled (snd (enable_push n d (Some k) b))"
  by (simp add: enable_push_def push_enabled_def push_worker_def)

end
