(* ===== verification/Proofstrip.thy ===== *)
theory Proofstrip
  imports Keys
begin

unbundle bit_operations_syntax

text \<open>
  \<open>proofstrip.ts\<close>: the marks and the drawing derived from a fingerprint, a hash and a generator on 32-bit integers. What
  they are for is to move when the fingerprint moves; what is proved is how far that holds, and that neither is ever flat.
\<close>

section \<open>The hash and the generator\<close>

definition fnv_offset :: "32 word" where "fnv_offset = 0x811c9dc5"
definition fnv_prime :: "32 word" where "fnv_prime = 0x01000193"

text \<open>\<open>digest\<close>: each code unit gives its low byte, then its high one.\<close>

definition mix_unit :: "16 word \<Rightarrow> 32 word \<Rightarrow> 32 word" where
  "mix_unit code hash =
    (let hash = (hash XOR ucast (code AND 0xff)) * fnv_prime
     in (hash XOR ucast (drop_bit 8 code)) * fnv_prime)"

definition digest_of :: "jsstr \<Rightarrow> 32 word" where
  "digest_of seed = fold mix_unit seed fnv_offset"

text \<open>\<open>source\<close>: the state of the generator, and the draw, which moves it and returns it.\<close>

definition first_state :: "32 word \<Rightarrow> 32 word" where
  "first_state seed = (if seed = 0 then 1 else seed)"

definition next_state :: "32 word \<Rightarrow> 32 word" where
  "next_state state =
    (let state = state XOR push_bit 13 state;
         state = state XOR drop_bit 17 state
     in state XOR push_bit 5 state)"

fun draws :: "nat \<Rightarrow> 32 word \<Rightarrow> 32 word list" where
  "draws 0 state = []"
| "draws (Suc n) state = next_state state # draws n (next_state state)"

section \<open>What is drawn\<close>

definition mark_count :: nat where "mark_count = 12"
definition mark_levels :: nat where "mark_levels = 3"
definition grid_size :: nat where "grid_size = 5"

definition strip_marks :: "jsstr \<Rightarrow> nat \<Rightarrow> nat list" where
  "strip_marks fingerprint n = List.map (\<lambda>w. unat w mod mark_levels) (draws n (first_state (digest_of fingerprint)))"

record identicon =
  ic_cells :: "bool list"
  ic_hue :: nat

definition half_size :: nat where "half_size = (grid_size + 1) div 2"

text \<open>The two nested loops, row by row: each draw fills a cell and its mirror.\<close>

definition fill_cell :: "nat \<times> bool \<Rightarrow> bool list \<Rightarrow> bool list" where
  "fill_cell draw cells =
    (let row = fst draw div half_size; column = fst draw mod half_size
     in cells[row * grid_size + column := snd draw, row * grid_size + (grid_size - 1 - column) := snd draw])"

definition fill_middle :: "bool list \<Rightarrow> bool list" where
  "fill_middle cells = fold (\<lambda>row cells. cells[row * grid_size + half_size - 1 := True]) [0..<grid_size] cells"

definition identicon_of :: "jsstr \<Rightarrow> identicon" where
  "identicon_of seed =
    (let drawn = draws (1 + grid_size * half_size) (first_state (digest_of seed));
         fills = List.map (\<lambda>w. even (unat w)) (tl drawn);
         cells = fold fill_cell (zip [0..<grid_size * half_size] fills) (replicate (grid_size * grid_size) False)
     in \<lparr> ic_cells = (if True \<in> set cells then cells else fill_middle cells), ic_hue = unat (hd drawn) mod 360 \<rparr>)"

section \<open>The marks move with the fingerprint\<close>

text \<open>Each step of the hash and of the generator is injective.\<close>

lemma fnv_prime_invertible: "fnv_prime * 0x359c449b = 1"
  by (simp add: fnv_prime_def)

lemma mul_prime_inj: "x * fnv_prime = y * fnv_prime \<longleftrightarrow> x = y"
proof
  assume "x * fnv_prime = y * fnv_prime"
  then have "x * (fnv_prime * 0x359c449b) = y * (fnv_prime * 0x359c449b)" by (simp only: mult.assoc [symmetric])
  then show "x = y" unfolding fnv_prime_invertible by simp
qed simp

lemma xor_right_inj: "(x XOR b) = (y XOR b) \<longleftrightarrow> x = y" for x y b :: "'a::len word"
proof
  assume "(x XOR b) = (y XOR b)"
  then have "(x XOR b) XOR b = (y XOR b) XOR b" by simp
  then show "x = y" by (simp add: xor.assoc)
qed simp

lemma xor_left_inj: "(b XOR x) = (b XOR y) \<longleftrightarrow> x = y" for x y b :: "'a::len word"
  using xor_right_inj [of x b y] by (simp add: xor.commute)

lemma mix_unit_inj: "mix_unit c h = mix_unit c h' \<longleftrightarrow> h = h'"
  by (simp add: mix_unit_def Let_def mul_prime_inj xor_right_inj)

lemma fold_mix_inj: "fold mix_unit s h = fold mix_unit s h' \<longleftrightarrow> h = h'"
  by (induction s arbitrary: h h') (simp_all add: mix_unit_inj)

text \<open>A word that its own shift gives back is zero: three left shifts by 13, or two right ones by 17, leave no bit.\<close>

lemma push_far: "32 \<le> n \<Longrightarrow> push_bit n (z :: 32 word) = 0"
  by (rule bit_word_eqI) (simp add: bit_push_bit_iff)

lemma drop_far: "32 \<le> n \<Longrightarrow> drop_bit n (z :: 32 word) = 0"
  by (rule bit_word_eqI) (simp add: bit_drop_bit_eq not_le bit_word.rep_eq)

lemma fixed_of_push: "z = push_bit n z \<Longrightarrow> z = push_bit (k * n) z"
proof (induction k)
  case (Suc k)
  have "z = push_bit n (push_bit (k * n) z)" using Suc by simp
  then show ?case by (simp add: add.commute)
qed simp

lemma push_shift_inj:
  fixes x y :: "32 word"
  assumes "32 \<le> k * n"
  shows "(x XOR push_bit n x) = (y XOR push_bit n y) \<longleftrightarrow> x = y"
proof
  assume e: "(x XOR push_bit n x) = (y XOR push_bit n y)"
  have "(x XOR y) XOR push_bit n (x XOR y) = (x XOR push_bit n x) XOR (y XOR push_bit n y)"
    by (simp add: push_bit_xor xor.assoc xor.left_commute)
  also have "\<dots> = 0" by (simp add: e)
  finally have "(x XOR y) XOR push_bit n (x XOR y) = push_bit n (x XOR y) XOR push_bit n (x XOR y)" by simp
  then have "x XOR y = push_bit n (x XOR y)" by (simp only: xor_right_inj)
  then have "x XOR y = push_bit (k * n) (x XOR y)" by (rule fixed_of_push)
  then have "x XOR y = y XOR y" by (simp only: push_far [OF assms] xor_self_eq)
  then show "x = y" by (simp only: xor_right_inj)
qed simp

lemma drop_shift_inj:
  fixes x y :: "32 word"
  shows "(x XOR drop_bit 17 x) = (y XOR drop_bit 17 y) \<longleftrightarrow> x = y"
proof
  assume e: "(x XOR drop_bit 17 x) = (y XOR drop_bit 17 y)"
  have "(x XOR y) XOR drop_bit 17 (x XOR y) = (x XOR drop_bit 17 x) XOR (y XOR drop_bit 17 y)"
    by (simp add: drop_bit_xor xor.assoc xor.left_commute)
  also have "\<dots> = 0" by (simp add: e)
  finally have "(x XOR y) XOR drop_bit 17 (x XOR y) = drop_bit 17 (x XOR y) XOR drop_bit 17 (x XOR y)" by simp
  then have f: "x XOR y = drop_bit 17 (x XOR y)" by (simp only: xor_right_inj)
  have "drop_bit 17 (drop_bit 17 (x XOR y)) = 0" by (simp only: drop_bit_drop_bit) (rule drop_far, simp)
  then have "x XOR y = y XOR y" using f by (simp only: xor_self_eq flip: f)
  then show "x = y" by (simp only: xor_right_inj)
qed simp

lemma push_five_inj: "(x XOR push_bit 5 x) = (y XOR push_bit 5 y) \<longleftrightarrow> x = y" for x y :: "32 word"
  by (rule push_shift_inj [of 7]) simp

lemma push_thirteen_inj: "(x XOR push_bit 13 x) = (y XOR push_bit 13 y) \<longleftrightarrow> x = y" for x y :: "32 word"
  by (rule push_shift_inj [of 3]) simp

lemma next_state_inj: "next_state x = next_state y \<longleftrightarrow> x = y"
  unfolding next_state_def Let_def push_five_inj drop_shift_inj push_thirteen_inj by (rule refl)

lemma next_state_zero: "next_state 0 = 0"
  by (simp add: next_state_def Let_def)

lemma next_state_positive: "x \<noteq> 0 \<Longrightarrow> next_state x \<noteq> 0"
  using next_state_inj [of x 0] by (simp add: next_state_zero)

lemma draws_length [simp]: "length (draws n s) = n"
  by (induction n arbitrary: s) simp_all

lemma draws_positive: "s \<noteq> 0 \<Longrightarrow> w \<in> set (draws n s) \<Longrightarrow> w \<noteq> 0"
  by (induction n arbitrary: s) (auto dest: next_state_positive)

lemma draws_inj: "i < n \<Longrightarrow> draws n s ! i = draws n t ! i \<longleftrightarrow> s = t"
proof (induction n arbitrary: s t i)
  case (Suc n)
  then show ?case by (cases i) (simp_all add: next_state_inj)
qed simp

lemma low_and_high:
  fixes a b :: "16 word"
  assumes "(a AND 0xff) = (b AND 0xff)" and "drop_bit 8 a = drop_bit 8 b"
  shows "a = b"
proof -
  have "take_bit 8 a = take_bit 8 b"
    using assms(1) by (simp add: take_bit_eq_mask mask_eq_exp_minus_1)
  then show ?thesis using assms(2) by (metis bits_ident)
qed

lemma ucast_up_inj: "(ucast a :: 32 word) = ucast b \<longleftrightarrow> a = b" for a b :: "16 word"
proof
  assume "(ucast a :: 32 word) = ucast b"
  then have "(ucast (ucast a :: 32 word) :: 16 word) = ucast (ucast b :: 32 word)" by simp
  then show "a = b" by (simp add: ucast_up_ucast_id is_up)
qed simp

lemma mix_unit_differs:
  "a \<noteq> b \<Longrightarrow> drop_bit 8 a = drop_bit 8 b \<Longrightarrow> mix_unit a h \<noteq> mix_unit b h"
  by (auto simp: mix_unit_def Let_def mul_prime_inj xor_right_inj xor_left_inj ucast_up_inj dest: low_and_high)

text \<open>C40. Changing one character of a fingerprint, within one half of the code table as a hexadecimal digit is, changes every
  value the marks and the drawing are read from; the one exception is a pair of hashes that are 0 and 1, which the
  generator's replacement of zero makes one (\<open>proofstrip.ts\<close>, \<open>digest\<close>, \<open>source\<close>).\<close>

theorem one_digit_moves_all:
  assumes "a \<noteq> b" and "drop_bit 8 a = drop_bit 8 b"
    and "{digest_of (before @ a # after), digest_of (before @ b # after)} \<noteq> {0, 1}" and "i < n"
  shows "draws n (first_state (digest_of (before @ a # after))) ! i \<noteq> draws n (first_state (digest_of (before @ b # after))) ! i"
proof -
  have "digest_of (before @ a # after) \<noteq> digest_of (before @ b # after)"
    using mix_unit_differs [OF assms(1,2)] by (simp add: digest_of_def fold_mix_inj)
  then have "first_state (digest_of (before @ a # after)) \<noteq> first_state (digest_of (before @ b # after))"
    using assms(3) by (auto simp: first_state_def split: if_splits)
  then show ?thesis using draws_inj [OF assms(4)] by blast
qed

lemma one_digit_moves_all_witness:
  "draws 12 (first_state (digest_of [0x61])) ! 11 \<noteq> draws 12 (first_state (digest_of [0x62])) ! 11"
  using one_digit_moves_all [of "0x61" "0x62" "[]" "[]" 11 12]
  by (simp add: digest_of_def mix_unit_def Let_def fnv_offset_def fnv_prime_def doubleton_eq_iff)

section \<open>Neither is ever flat or out of range\<close>

lemma draw_in_range:
  "w \<in> set (draws n (first_state (digest_of seed))) \<Longrightarrow> w \<noteq> 0"
  by (rule draws_positive) (simp_all add: first_state_def)

text \<open>The two loops write a row as its three draws and their mirror.\<close>

definition mirrored_rows :: "bool list \<Rightarrow> bool list" where
  "mirrored_rows fills = concat (List.map (\<lambda>r. [fills ! (3 * r), fills ! (3 * r + 1), fills ! (3 * r + 2),
     fills ! (3 * r + 1), fills ! (3 * r)]) [0..<5])"

lemma sizes: "half_size = 3" "grid_size = 5"
  by (simp_all add: half_size_def grid_size_def)

lemma grid_filled:
  assumes "length fills = 15"
  shows "fold fill_cell (zip [0..<15] fills) (replicate 25 False) = mirrored_rows fills"
proof -
  have "fills = List.map ((!) fills) [0..<15]" using assms by (metis map_nth)
  then obtain f where f: "fills = List.map f [0..<15]" by blast
  show ?thesis unfolding f mirrored_rows_def
    by (simp add: upt_rec fill_cell_def Let_def sizes) (simp add: numeral_nat)
qed

lemma middle_filled:
  "fill_middle (replicate 25 False) = concat (replicate 5 [False, False, True, False, False])"
  by (simp add: fill_middle_def upt_rec sizes) (simp add: numeral_nat)

definition mirrored :: "bool list \<Rightarrow> bool" where
  "mirrored cells \<longleftrightarrow> length cells = 25 \<and> (\<forall>row<5. \<forall>column<5. cells ! (5 * row + column) = cells ! (5 * row + (4 - column)))"

lemma mirrored_rows_mirrored: "mirrored (mirrored_rows fills)"
  unfolding mirrored_def mirrored_rows_def
  by (simp add: upt_rec numeral_nat All_less_Suc2)

lemma middle_mirrored: "mirrored (fill_middle (replicate 25 False))" "True \<in> set (fill_middle (replicate 25 False))"
  unfolding middle_filled mirrored_def by (simp_all add: numeral_nat All_less_Suc2)

text \<open>A drawing has twenty-five cells, each row is its own mirror, and at least one cell is filled; its hue is a hue; a strip
  has as many marks as asked for, each of one of the three levels (\<open>proofstrip.ts\<close>, \<open>identicon\<close>, \<open>marks\<close>).\<close>

theorem drawing_never_blank:
  "mirrored (ic_cells (identicon_of seed)) \<and> True \<in> set (ic_cells (identicon_of seed)) \<and> ic_hue (identicon_of seed) < 360 \<and>
   length (strip_marks seed n) = n \<and> set (strip_marks seed n) \<subseteq> {0, 1, 2}"
proof -
  let ?fills = "List.map (\<lambda>w. even (unat w)) (tl (draws (1 + grid_size * half_size) (first_state (digest_of seed))))"
  let ?cells = "fold fill_cell (zip [0..<grid_size * half_size] ?fills) (replicate (grid_size * grid_size) False)"
  have c: "?cells = mirrored_rows ?fills" using grid_filled [of ?fills] by (simp add: sizes)
  have blank: "replicate 25 False = cells" if "True \<notin> set cells" "length cells = 25" for cells
    using that by (metis (full_types) replicate_eqI)
  have "mirrored ?cells" unfolding c by (rule mirrored_rows_mirrored)
  then have "mirrored (ic_cells (identicon_of seed)) \<and> True \<in> set (ic_cells (identicon_of seed))"
    using middle_mirrored blank [of ?cells] by (auto simp: identicon_of_def Let_def mirrored_def)
  moreover have "set (strip_marks seed n) \<subseteq> {0, 1, 2}"
    by (auto simp: strip_marks_def mark_levels_def) 
  ultimately show ?thesis by (simp add: identicon_of_def Let_def strip_marks_def)
qed

end
