(* ===== verification/Recovery.thy ===== *)
theory Recovery
  imports Complex_Main Requests Scan
begin

text \<open>
  How an account reaches a device that has none of its keys: by pairing with a device that has them
  (\<open>pairing.ts\<close>, \<open>Session.pairDevice\<close>, \<open>usePairingOffer\<close>) or from an escrow (\<open>escrow.ts\<close>, \<open>passkey.ts\<close>),
  and what a password must clear (\<open>password.ts\<close>). The X25519 seal, Argon2id, the escrow's seal, WebAuthn and the
  strength estimator are parameters.
\<close>

subsection \<open>The pairing code\<close>

record pairing_code =
  pc_id :: bytes
  pc_key :: bytes

definition url_unit :: "16 word \<Rightarrow> 16 word" where
  "url_unit u = (if u = 0x2B then 0x2D else if u = 0x2F then 0x5F else u)"

definition plain_unit :: "16 word \<Rightarrow> 16 word" where
  "plain_unit u = (if u = 0x2D then 0x2B else if u = 0x5F then 0x2F else u)"

definition encode_pairing_code :: "pairing_code \<Rightarrow> jsstr" where
  "encode_pairing_code c =
     rev (dropWhile (\<lambda>u. u = 0x3D) (rev (map url_unit (to_base64 (pc_id c @ pc_key c)))))"

datatype pairing_error = NotBase64Code base64_error | IncompleteCode

definition decode_pairing_code :: "jsstr \<Rightarrow> pairing_error + pairing_code" where
  "decode_pairing_code typed =
     (let normalized = map plain_unit (trim typed);
          padded = normalized @ replicate ((length normalized + 3) div 4 * 4 - length normalized) 0x3D in
      case from_base64 padded of
        Inl e \<Rightarrow> Inl (NotBase64Code e)
      | Inr b \<Rightarrow> if length b \<noteq> 48 then Inl IncompleteCode else Inr \<lparr>pc_id = take 16 b, pc_key = drop 16 b\<rparr>)"

subsection \<open>Pairing\<close>

text \<open>One turn of the wait: whether it was cancelled, the clock at the test, and the answer to the claim.\<close>

type_synonym pairing_turn = "bool \<times> nat \<times> (api_failure + bytes option)"

datatype pairing_wait = StillWaiting | GivenUp | Handed bytes | WaitFailed api_failure

fun await_until :: "nat \<Rightarrow> pairing_turn list \<Rightarrow> pairing_wait" where
  "await_until deadline [] = StillWaiting"
| "await_until deadline ((cancelled, now, reply) # turns) =
     (if cancelled \<or> deadline \<le> now then GivenUp
      else case reply of
        Inl e \<Rightarrow> WaitFailed e
      | Inr (Some payload) \<Rightarrow> Handed payload
      | Inr None \<Rightarrow> await_until deadline turns)"

definition pairing_window :: nat where "pairing_window = 5 * 60 * 1000"

definition await_pairing :: "nat \<Rightarrow> pairing_turn list \<Rightarrow> pairing_wait" where
  "await_pairing start turns = await_until (start + pairing_window) turns"

text \<open>\<open>sealPairing\<close> and \<open>Pairing.open\<close>: a sealed packet and the code both screens show. A session seals its seed for
  the offer it reads and deposits it; only then does it have the code to show.\<close>

datatype pair_failure = BadCode pairing_error | NotDeposited api_failure

definition pair_device ::
    "(bytes \<Rightarrow> bytes \<Rightarrow> bytes \<Rightarrow> bytes \<times> jsstr) \<Rightarrow> net \<Rightarrow> sender \<Rightarrow> bytes \<Rightarrow> jsstr \<Rightarrow> pair_failure + jsstr" where
  "pair_device sealing n d seed code =
     (case decode_pairing_code code of
        Inl e \<Rightarrow> Inl (BadCode e)
      | Inr offer \<Rightarrow>
          (let (payload, confirmation) = sealing (pc_key offer) (pc_id offer) seed in
           case deposit_pairing n d (pc_id offer) payload of
             Inl e \<Rightarrow> Inl (NotDeposited e)
           | Inr _ \<Rightarrow> Inr confirmation))"

text \<open>The new device: the code it shows, and what it makes of what the wait handed it.\<close>

definition shown_code :: "bytes \<Rightarrow> bytes \<Rightarrow> jsstr" where
  "shown_code rendezvous public = encode_pairing_code \<lparr>pc_id = rendezvous, pc_key = public\<rparr>"

definition offer_taken :: "(bytes \<Rightarrow> (bytes \<times> jsstr) option) \<Rightarrow> pairing_wait \<Rightarrow> (bytes \<times> jsstr) option" where
  "offer_taken opening w = (case w of Handed sealed \<Rightarrow> opening sealed | _ \<Rightarrow> None)"

subsection \<open>The escrow\<close>

record 'f escrow =
  ec_params :: "recovery_kind \<Rightarrow> bytes"
  ec_password :: "jsstr \<Rightarrow> jsstr \<Rightarrow> bytes \<Rightarrow> 'f"
  ec_prf :: "bytes \<Rightarrow> 'f"
  ec_lookup :: "'f \<Rightarrow> bytes"
  ec_seal :: "bytes \<Rightarrow> 'f \<Rightarrow> jsstr \<Rightarrow> jsstr \<Rightarrow> bytes \<Rightarrow> bytes"
  ec_open :: "bytes \<Rightarrow> 'f \<Rightarrow> jsstr \<Rightarrow> jsstr \<Rightarrow> bytes \<Rightarrow> bytes option"

definition derive_password :: "'f escrow \<Rightarrow> jsstr \<Rightarrow> jsstr \<Rightarrow> 'f \<times> bytes" where
  "derive_password c handle password =
     (let params = ec_params c PasswordRecovery in (ec_password c handle password params, params))"

definition derive_prf :: "'f escrow \<Rightarrow> bytes \<Rightarrow> 'f \<times> bytes" where
  "derive_prf c secret = (ec_prf c secret, ec_params c PasskeyRecovery)"

definition deposit_escrow ::
    "'f escrow \<Rightarrow> net \<Rightarrow> sender \<Rightarrow> recovery_kind \<Rightarrow> 'f \<times> bytes \<Rightarrow> jsstr \<Rightarrow> bytes \<Rightarrow> api_failure + json" where
  "deposit_escrow c n d kind derived account seed =
     set_recovery n d kind (ec_lookup c (fst derived)) (snd derived)
       (ec_seal c seed (fst derived) account (recovery_name kind) (snd derived))"

definition enable_password_recovery ::
    "'f escrow \<Rightarrow> net \<Rightarrow> sender \<Rightarrow> jsstr \<Rightarrow> jsstr \<Rightarrow> jsstr \<Rightarrow> bytes \<Rightarrow> api_failure + json" where
  "enable_password_recovery c n d account handle password seed =
     deposit_escrow c n d PasswordRecovery (derive_password c handle password) account seed"

datatype recovery_failure = UnknownSecret | TamperedEscrow | PromptCancelled | TooManyAttempts

datatype recovery_result =
    Recovered (rc_account: jsstr) (rc_handle: "jsstr option") (rc_seed: bytes)
  | NotRecovered recovery_failure

definition claim_escrow :: "'f escrow \<Rightarrow> net \<Rightarrow> 'f \<Rightarrow> recovery_kind \<Rightarrow> api_failure + recovery_result" where
  "claim_escrow c n factor expected =
     (case claim_recovery n (ec_lookup c factor) of
        Inl (Refused status t) \<Rightarrow> if status = 429 then Inr (NotRecovered TooManyAttempts) else Inl (Refused status t)
      | Inl e \<Rightarrow> Inl e
      | Inr None \<Rightarrow> Inr (NotRecovered UnknownSecret)
      | Inr (Some claimed) \<Rightarrow>
          if cr_kind claimed \<noteq> recovery_name expected then Inr (NotRecovered TamperedEscrow)
          else (case ec_open c (cr_sealed claimed) factor (cr_account claimed) (cr_kind claimed) (cr_params claimed) of
             None \<Rightarrow> Inr (NotRecovered TamperedEscrow)
           | Some seed \<Rightarrow> Inr (Recovered (cr_account claimed) (cr_handle claimed) seed)))"

definition recover_with_password :: "'f escrow \<Rightarrow> net \<Rightarrow> jsstr \<Rightarrow> jsstr \<Rightarrow> api_failure + recovery_result" where
  "recover_with_password c n handle password = claim_escrow c n (fst (derive_password c handle password)) PasswordRecovery"

subsection \<open>The passkey\<close>

text \<open>The answers of \<open>navigator.credentials\<close>: \<open>create\<close> and \<open>get\<close> may throw, answer \<open>null\<close>, or a credential with the
  results of the extension.\<close>

datatype prompt = PromptThrows | NoCredential | Credential (cd_id: bytes) (cd_enabled: bool) (cd_first: "bytes option")

datatype passkey_error = PromptRefused

definition read_passkey_factor :: "bool \<Rightarrow> (bytes option \<Rightarrow> prompt) \<Rightarrow> bytes option \<Rightarrow> bytes option" where
  "read_passkey_factor available get allowed =
     (if \<not> available then None
      else case get allowed of
        Credential _ _ (Some secret) \<Rightarrow> if length secret = 32 then Some secret else None
      | _ \<Rightarrow> None)"

definition create_passkey_factor ::
    "bool \<Rightarrow> (jsstr \<Rightarrow> jsstr \<Rightarrow> prompt) \<Rightarrow> (bytes option \<Rightarrow> prompt) \<Rightarrow> jsstr \<Rightarrow> jsstr \<Rightarrow> passkey_error + bytes option" where
  "create_passkey_factor available create get account name =
     (if \<not> available then Inr None
      else case create account name of
        PromptThrows \<Rightarrow> Inl PromptRefused
      | NoCredential \<Rightarrow> Inr None
      | Credential _ _ (Some secret) \<Rightarrow> Inr (Some secret)
      | Credential raw enabled None \<Rightarrow>
          if enabled then Inr (read_passkey_factor available get (Some raw)) else Inr None)"

datatype passkey_failure = PasskeyPrompt passkey_error | PasskeyDeposit api_failure

definition enable_passkey_recovery ::
    "'f escrow \<Rightarrow> net \<Rightarrow> sender \<Rightarrow> bool \<Rightarrow> (jsstr \<Rightarrow> jsstr \<Rightarrow> prompt) \<Rightarrow> (bytes option \<Rightarrow> prompt) \<Rightarrow> jsstr \<Rightarrow> jsstr \<Rightarrow> bytes \<Rightarrow>
     passkey_failure + bool" where
  "enable_passkey_recovery c n d available create get account handle seed =
     (case create_passkey_factor available create get account handle of
        Inl e \<Rightarrow> Inl (PasskeyPrompt e)
      | Inr None \<Rightarrow> Inr False
      | Inr (Some secret) \<Rightarrow>
          (case deposit_escrow c n d PasskeyRecovery (derive_prf c secret) account seed of
             Inl e \<Rightarrow> Inl (PasskeyDeposit e) | Inr _ \<Rightarrow> Inr True))"

definition recover_with_passkey ::
    "'f escrow \<Rightarrow> net \<Rightarrow> bool \<Rightarrow> (bytes option \<Rightarrow> prompt) \<Rightarrow> api_failure + recovery_result" where
  "recover_with_passkey c n available get =
     (case read_passkey_factor available get None of
        None \<Rightarrow> Inr (NotRecovered PromptCancelled)
      | Some secret \<Rightarrow> claim_escrow c n (fst (derive_prf c secret)) PasskeyRecovery)"

subsection \<open>What a password must clear\<close>

record policy =
  pl_length :: nat
  pl_guesses :: rat

definition min_length :: nat where "min_length = 12"
definition min_guesses :: rat where "min_guesses = 10"

definition lock_policy :: policy where
  "lock_policy = \<lparr>pl_length = min_length, pl_guesses = min_guesses\<rparr>"

definition escrow_policy :: policy where
  "escrow_policy = \<lparr>pl_length = 16, pl_guesses = 14\<rparr>"

definition common_passwords :: "jsstr list" where
  "common_passwords = map js
    [''motdepasse'', ''password'', ''azertyuiop'', ''qwertyuiop'', ''123456789'', ''1234567890'',
     ''administrateur'', ''changeme'', ''letmein'', ''welcome1'', ''iloveyou'', ''sunshine'',
     ''princesse'', ''football'', ''monkey123'', ''dragon123'', ''abc123456'', ''passw0rd'',
     ''motdepasse1'', ''password1'', ''azerty123'', ''qwerty123'', ''000000000'', ''111111111'']"

record estimate =
  et_guesses :: rat
  et_warning :: jsstr
  et_suggestion :: jsstr

text \<open>The sentence of a refusal, by what it says.\<close>

datatype password_reason = NoReason | TooShortFor nat | WarnedOf jsstr | GuessableIn int | KnownSequence | FewCharacters

record verdict =
  vd_ok :: bool
  vd_reason :: password_reason
  vd_guesses :: "rat option"
  vd_advice :: jsstr

text \<open>\<open>normalized.includes(known)\<close>; the characters of a password are its code points.\<close>

definition contains :: "jsstr \<Rightarrow> jsstr \<Rightarrow> bool" where
  "contains s t \<longleftrightarrow> list_ex (\<lambda>i. starts_with t (drop i s)) [0..<Suc (length s)]"

fun characters :: "jsstr \<Rightarrow> jsstr list" where
  "characters [] = []"
| "characters [u] = [[u]]"
| "characters (u # v # s) =
     (if high_surrogate (unat u) \<and> low_surrogate (unat v) then [u, v] # characters s else [u] # characters (v # s))"

definition degraded :: "(jsstr \<Rightarrow> jsstr) \<Rightarrow> jsstr \<Rightarrow> verdict" where
  "degraded lower password =
     (if list_ex (contains (lower password)) common_passwords
      then \<lparr>vd_ok = False, vd_reason = KnownSequence, vd_guesses = None, vd_advice = []\<rparr>
      else if length (remdups (characters password)) \<le> 4
      then \<lparr>vd_ok = False, vd_reason = FewCharacters, vd_guesses = None, vd_advice = []\<rparr>
      else \<lparr>vd_ok = True, vd_reason = NoReason, vd_guesses = None, vd_advice = []\<rparr>)"

text \<open>\<open>estimator\<close> is \<open>None\<close> when the word lists could not be loaded or the estimate failed.\<close>

definition check_password ::
    "(jsstr \<Rightarrow> jsstr) \<Rightarrow> (jsstr \<Rightarrow> jsstr list \<Rightarrow> estimate option) \<Rightarrow> jsstr \<Rightarrow> jsstr list \<Rightarrow> policy \<Rightarrow> verdict" where
  "check_password lower estimator password known policy =
     (if length password < pl_length policy
      then \<lparr>vd_ok = False, vd_reason = TooShortFor (pl_length policy), vd_guesses = None, vd_advice = []\<rparr>
      else case estimator password known of
        None \<Rightarrow> degraded lower password
      | Some e \<Rightarrow>
          if et_guesses e < pl_guesses policy
          then \<lparr>vd_ok = False,
                vd_reason = (if et_warning e = [] then GuessableIn \<lfloor>et_guesses e + 1 / 2\<rfloor> else WarnedOf (et_warning e)),
                vd_guesses = Some (et_guesses e), vd_advice = et_suggestion e\<rparr>
          else \<lparr>vd_ok = True, vd_reason = NoReason, vd_guesses = Some (et_guesses e), vd_advice = []\<rparr>)"

subsection \<open>A code is the offer it shows\<close>

lemma plain_unit_url: "u \<noteq> 0x2D \<Longrightarrow> u \<noteq> 0x5F \<Longrightarrow> plain_unit (url_unit u) = u"
  by (simp add: plain_unit_def url_unit_def)

text \<open>The text of a whole number of triples is base-64 characters alone.\<close>

lemma three_more: "Suc (Suc (Suc n)) mod 3 = n mod 3" "Suc (Suc (Suc n)) div 3 = Suc (n div 3)"
  by presburger+

lemma btoa_whole: "length b mod 3 = 0 \<Longrightarrow> btoa b = map b64_char (body64 b)"
  by (induction b rule: btoa.induct) (simp_all add: three_more)

lemma b64_char_kinds:
  "list_all (\<lambda>n. (word_of_nat (b64_char n) :: 16 word) \<notin> {0x2D, 0x5F, 0x3D} \<and> \<not> white (url_unit (word_of_nat (b64_char n)))
     \<and> url_unit (word_of_nat (b64_char n)) \<noteq> 0x3D) [0..<64]"
  by code_simp

lemma b64_char_kind:
  assumes "n < 64" and "u = word_of_nat (b64_char n)"
  shows "u \<noteq> 0x2D" "u \<noteq> 0x5F" "\<not> white (url_unit u)" "url_unit u \<noteq> 0x3D"
  using b64_char_kinds assms by (simp_all add: list_all_iff)

lemma trim_unspaced: "list_all (\<lambda>u. \<not> white u) s \<Longrightarrow> trim s = s"
proof -
  have "dropWhile white t = t" if "list_all (\<lambda>u. \<not> white u) t" for t using that by (cases t) simp_all
  moreover assume "list_all (\<lambda>u. \<not> white u) s"
  ultimately show ?thesis by (simp add: trim_def)
qed

lemma dropWhile_none: "list_all (\<lambda>u. \<not> P u) s \<Longrightarrow> dropWhile P s = s"
  by (cases s) simp_all

lemma dropWhile_all: "list_all P a \<Longrightarrow> dropWhile P (a @ s) = dropWhile P s"
  by (induction a) simp_all

lemma trim_around:
  assumes "list_all white before" and "list_all white behind"
  shows "trim (before @ s @ behind) = trim s"
proof (cases "list_all white s")
  case True
  have nil: "dropWhile white t = []" if "list_all white t" for t
    using that by (simp add: list_all_iff)
  have "list_all white (before @ s @ behind)" using assms True by simp
  then show ?thesis unfolding trim_def by (simp only: nil [OF True] nil)
next
  case False
  then have "dropWhile white (s @ behind) = dropWhile white s @ behind"
    by (auto simp: list_all_iff intro: dropWhile_append1)
  moreover have "list_all white (rev behind)" using assms(2) by (simp add: list_all_iff)
  ultimately show ?thesis using assms(1) by (simp add: trim_def dropWhile_all)
qed

lemma encoded_code:
  assumes "length (pc_id c @ pc_key c) mod 3 = 0"
  shows "encode_pairing_code c = map url_unit (to_base64 (pc_id c @ pc_key c))"
    and "list_all (\<lambda>u. \<not> white u) (encode_pairing_code c)"
    and "map plain_unit (encode_pairing_code c) = to_base64 (pc_id c @ pc_key c)"
    and "length (encode_pairing_code c) mod 4 = 0"
proof -
  let ?b = "map unat (pc_id c @ pc_key c)"
  have bound: "\<forall>x\<in>set ?b. x < 256"
    using unsigned_less [where 'b = 8 and 'a = nat] by fastforce
  have whole: "to_base64 (pc_id c @ pc_key c) = map (\<lambda>n. word_of_nat (b64_char n)) (body64 ?b)"
    using btoa_whole [of ?b] assms by (simp add: to_base64_def comp_def)
  have kinds: "u \<noteq> 0x2D" "u \<noteq> 0x5F" "\<not> white (url_unit u)" "url_unit u \<noteq> 0x3D" if "u \<in> set (to_base64 (pc_id c @ pc_key c))" for u
    using that body64_bound [OF bound] b64_char_kind unfolding whole by auto
  have unpadded: "dropWhile (\<lambda>u. u = 0x3D) (rev (map url_unit (to_base64 (pc_id c @ pc_key c)))) = rev (map url_unit (to_base64 (pc_id c @ pc_key c)))"
    using kinds(4) by (intro dropWhile_none) (auto simp: list_all_iff)
  show code: "encode_pairing_code c = map url_unit (to_base64 (pc_id c @ pc_key c))"
    unfolding encode_pairing_code_def unpadded by simp
  show "list_all (\<lambda>u. \<not> white u) (encode_pairing_code c)"
    using kinds(3) by (auto simp: code list_all_iff)
  show "map plain_unit (encode_pairing_code c) = to_base64 (pc_id c @ pc_key c)"
    using kinds(1,2) by (auto simp: code plain_unit_url intro!: map_idI)
  show "length (encode_pairing_code c) mod 4 = 0"
    using btoa_length [of ?b] by (simp add: code to_base64_def)
qed

lemma pairing_code_back:
  assumes "length (pc_id c) = 16" and "length (pc_key c) = 32" and "list_all white before" and "list_all white behind"
  shows "decode_pairing_code (before @ encode_pairing_code c @ behind) = Inr c"
proof -
  have whole: "length (pc_id c @ pc_key c) mod 3 = 0" using assms by simp
  note code = encoded_code [OF whole]
  have "trim (before @ encode_pairing_code c @ behind) = encode_pairing_code c"
    using trim_around [OF assms(3,4)] trim_unspaced [OF code(2)] by simp
  moreover have "(length (to_base64 (pc_id c @ pc_key c)) + 3) div 4 * 4 - length (to_base64 (pc_id c @ pc_key c)) = 0"
    using code(4) unfolding code(1) length_map by presburger
  ultimately show ?thesis
    unfolding decode_pairing_code_def Let_def using assms(1,2) by (simp add: code(3) from_to_base64)
qed

lemma decoded_code:
  "decode_pairing_code typed = Inr c \<Longrightarrow> length (pc_id c) = 16 \<and> length (pc_key c) = 32"
  by (auto simp: decode_pairing_code_def Let_def split: sum.splits if_splits)

subsection \<open>The wait ends\<close>

lemma await_expired:
  assumes "deadline \<le> start + k * 1500" and "k < length turns"
    and "\<And>i. i < length turns \<Longrightarrow> start + i * 1500 \<le> fst (snd (turns ! i))"
  shows "await_until deadline turns \<noteq> StillWaiting"
  using assms
proof (induction turns arbitrary: start k)
  case (Cons t turns)
  obtain cancelled now reply where t: "t = (cancelled, now, reply)" by (cases t)
  show ?case
  proof (cases k)
    case 0
    with Cons.prems(1) Cons.prems(3) [of 0] show ?thesis by (simp add: t split: sum.splits option.splits)
  next
    case (Suc j)
    have "await_until deadline turns \<noteq> StillWaiting"
    proof (rule Cons.IH [of "start + 1500" j])
      show "deadline \<le> start + 1500 + j * 1500" "j < length turns" using Cons.prems(1,2) by (simp_all add: Suc)
      show "start + 1500 + i * 1500 \<le> fst (snd (turns ! i))" if "i < length turns" for i
        using Cons.prems(3) [of "Suc i"] that by simp
    qed
    then show ?thesis by (simp add: t split: sum.splits option.splits)
  qed
qed simp

lemma await_handed: "await_until deadline turns = Handed payload \<Longrightarrow> \<exists>now. (False, now, Inr (Some payload)) \<in> set turns \<and> now < deadline"
  by (induction deadline turns rule: await_until.induct) (auto split: if_splits sum.splits option.splits)


text \<open>The wait itself ends: two hundred turns of a second and a half and one more outlast the window.\<close>

theorem pairing_wait_ends:
  "200 < length turns \<Longrightarrow> (\<And>i. i < length turns \<Longrightarrow> start + i * 1500 \<le> fst (snd (turns ! i))) \<Longrightarrow>
    await_pairing start turns \<noteq> StillWaiting"
  unfolding await_pairing_def by (intro await_expired [of _ start 200]) (simp_all add: pairing_window_def)

text \<open>The seed has been deposited when the code to compare is first known: a deposit is asked for whatever the code.\<close>

lemma seed_leaves_before_confirmation:
  "pair_device sealing n d seed code = Inr confirmation \<Longrightarrow>
     \<exists>c. decode_pairing_code code = Inr c \<and> confirmation = snd (sealing (pc_key c) (pc_id c) seed) \<and>
       (\<exists>j. deposit_pairing n d (pc_id c) (fst (sealing (pc_key c) (pc_id c) seed)) = Inr j)"
  by (auto simp: pair_device_def split: prod.splits sum.splits)

subsection \<open>What an escrow gives back\<close>

definition escrow_opens :: "'f escrow \<Rightarrow> bool" where
  "escrow_opens c \<longleftrightarrow> (\<forall>s f account kind params. ec_open c (ec_seal c s f account kind params) f account kind params = Some s)"

text \<open>An escrow gives the seed back to whoever knows the handle and the password it was made with: when the server
  answers the lookup with the row that was deposited, the recovery returns the account and its seed
  (\<open>escrow.ts\<close>, \<open>enablePasswordRecovery\<close>, \<open>recoverWithPassword\<close>).\<close>

theorem recovery_returns_seed:
  assumes "escrow_opens c"
    and "row = \<lparr>cr_account = account, cr_handle = h, cr_kind = recovery_name PasswordRecovery, cr_params = snd (derive_password c handle password),
      cr_sealed = ec_seal c seed (fst (derive_password c handle password)) account (recovery_name PasswordRecovery)
        (snd (derive_password c handle password))\<rparr>"
    and "claim_recovery n (ec_lookup c (fst (derive_password c handle password))) = Inr (Some row)"
  shows "recover_with_password c n handle password = Inr (Recovered account h seed)"
  using assms by (simp add: recover_with_password_def claim_escrow_def escrow_opens_def)

definition escrow_authentic :: "'f escrow \<Rightarrow> bool" where
  "escrow_authentic c \<longleftrightarrow>
     (\<forall>b f account kind params s. ec_open c b f account kind params = Some s \<longrightarrow> b = ec_seal c s f account kind params)"

text \<open>No server hands over a seed that was not sealed for the secret given: whatever it answers, what a recovery
  returns is an account and a seed sealed together under that secret, for that kind of factor
  (\<open>escrow.ts\<close>, \<open>claim\<close>).\<close>

theorem recovery_agrees:
  assumes "escrow_authentic c" and "claim_escrow c n f kind = Inr (Recovered account h seed)"
  shows "\<exists>row params. claim_recovery n (ec_lookup c f) = Inr (Some row) \<and>
    cr_sealed row = ec_seal c seed f account (recovery_name kind) params \<and> cr_handle row = h"
proof -
  from assms(2) obtain row where row: "claim_recovery n (ec_lookup c f) = Inr (Some row)" "cr_handle row = h"
      "ec_open c (cr_sealed row) f account (recovery_name kind) (cr_params row) = Some seed"
    by (auto simp: claim_escrow_def split: sum.splits option.splits if_splits api_failure.splits)
  with assms(1) show ?thesis unfolding escrow_authentic_def by blast
qed

text \<open>A creation hands over a secret of any length; a reading only one of thirty-two bytes.\<close>

lemma read_secret_length: "read_passkey_factor available get allowed = Some secret \<Longrightarrow> length secret = 32"
  by (auto simp: read_passkey_factor_def split: if_splits prompt.splits option.splits)

lemma created_secret_unchecked:
  "create_passkey_factor True (\<lambda>a b. Credential [] True (Some [7])) get account name = Inr (Some [7])"
  by (simp add: create_passkey_factor_def)

subsection \<open>What a password cleared\<close>

text \<open>A password that was estimated and passed is long enough and hard enough for its policy, and one that passes for
  the escrow would pass for the lock (\<open>password.ts\<close>, \<open>check\<close>).\<close>

theorem password_clears_policy:
  "vd_ok (check_password lower estimator password known pol) \<Longrightarrow>
   vd_guesses (check_password lower estimator password known pol) = Some g \<Longrightarrow>
     pl_length pol \<le> length password \<and> pl_guesses pol \<le> g"
  by (auto simp: check_password_def degraded_def split: if_splits option.splits)

lemma escrow_stricter:
  "vd_ok (check_password lower estimator password known escrow_policy) \<Longrightarrow>
     vd_ok (check_password lower estimator password known lock_policy)"
  by (auto simp: check_password_def escrow_policy_def lock_policy_def min_length_def min_guesses_def
      split: if_splits option.splits)

text \<open>With no estimator the floor of the escrow is its length alone: five characters four times pass.\<close>

lemma contains_subset: "contains s t \<Longrightarrow> set t \<subseteq> set s"
  unfolding contains_def list_ex_iff starts_with_def by (metis set_take_subset set_drop_subset subset_trans)

lemma unestimated_escrow_password:
  "vd_ok (check_password (\<lambda>s. s) (\<lambda>p k. None) (js ''abcdeabcdeabcdeabcde'') [] escrow_policy)"
proof -
  have "list_all (\<lambda>t. \<not> set t \<subseteq> set (js ''abcdeabcdeabcdeabcde'')) common_passwords"
    by (simp add: common_passwords_def js_def)
  then have "\<not> list_ex (contains (js ''abcdeabcdeabcdeabcde'')) common_passwords"
    using contains_subset unfolding list_ex_iff list_all_iff by blast
  moreover have "length (remdups (characters (js ''abcdeabcdeabcdeabcde''))) = 5"
    by (simp add: js_def high_surrogate_def)
  ultimately show ?thesis by (simp add: check_password_def escrow_policy_def degraded_def)
qed

subsection \<open>Witnesses\<close>

definition kind_net :: "json \<Rightarrow> net" where
  "kind_net j = quiet_net\<lparr>nt_fetch := (\<lambda>rq. Some \<lparr>hs_status = 200, hs_body = []\<rparr>), nt_parse := (\<lambda>s. Some j)\<rparr>"

lemma kind_net_json: "request_json (kind_net j) d m path body reader = (case reader j of Inl e \<Rightarrow> Inl (Untyped e) | Inr a \<Rightarrow> Inr a)"
  by (simp add: request_json_def request_bytes_def responded_def accepted_def read_reply_def kind_net_def and_then_def)


definition plain_escrow :: "unit escrow" where
  "plain_escrow = \<lparr>ec_params = (\<lambda>k. []), ec_password = (\<lambda>h p q. ()), ec_prf = (\<lambda>s. ()), ec_lookup = (\<lambda>f. []),
     ec_seal = (\<lambda>s f a k p. s), ec_open = (\<lambda>b f a k p. Some b)\<rparr>"

definition amy_row :: json where
  "amy_row = json_object [(''account'', Some (JStr (js ''a1''))), (''handle'', Some (JStr (js ''amy''))),
     (''kind'', Some (JStr (js ''password''))), (''params'', Some (base64_json [])), (''sealed'', Some (base64_json [7]))]"

lemma amy_recovers:
  "claim_recovery (kind_net amy_row) (ec_lookup plain_escrow ()) = Inr (Some
     \<lparr>cr_account = js ''a1'', cr_handle = Some (js ''amy''), cr_kind = js ''password'', cr_params = [], cr_sealed = [7]\<rparr>)"
  by (simp add: claim_recovery_def responded_def accepted_def read_reply_def kind_net_def and_then_def read_recovery_def
      amy_row_def field_json_object text_in_def bytes_in_def require_string_def base64_json_def from_text_def from_to_base64)

lemma recovery_agrees_witness:
  "\<exists>row params. claim_recovery (kind_net amy_row) [] = Inr (Some row) \<and>
     cr_sealed row = ec_seal plain_escrow [7] () (js ''a1'') (recovery_name PasswordRecovery) params \<and> cr_handle row = Some (js ''amy'')"
proof -
  have "escrow_authentic plain_escrow" by (simp add: escrow_authentic_def plain_escrow_def)
  moreover have "claim_escrow plain_escrow (kind_net amy_row) () PasswordRecovery = Inr (Recovered (js ''a1'') (Some (js ''amy'')) [7])"
    using amy_recovers by (simp add: claim_escrow_def recovery_name_def) (simp add: plain_escrow_def)
  ultimately show ?thesis using recovery_agrees [of plain_escrow "kind_net amy_row" "()"] by (simp add: plain_escrow_def)
qed

lemma recovery_returns_seed_witness:
  "recover_with_password plain_escrow (kind_net amy_row) (js ''amy'') (js ''pw'') = Inr (Recovered (js ''a1'') (Some (js ''amy'')) [7])"
proof (rule recovery_returns_seed [OF _ refl])
  show "escrow_opens plain_escrow" by (simp add: escrow_opens_def plain_escrow_def)
  show "claim_recovery (kind_net amy_row) (ec_lookup plain_escrow (fst (derive_password plain_escrow (js ''amy'') (js ''pw'')))) =
      Inr (Some \<lparr>cr_account = js ''a1'', cr_handle = Some (js ''amy''), cr_kind = recovery_name PasswordRecovery,
        cr_params = snd (derive_password plain_escrow (js ''amy'') (js ''pw'')),
        cr_sealed = ec_seal plain_escrow [7] (fst (derive_password plain_escrow (js ''amy'') (js ''pw''))) (js ''a1'')
          (recovery_name PasswordRecovery) (snd (derive_password plain_escrow (js ''amy'') (js ''pw'')))\<rparr>)"
    using amy_recovers by (simp add: recovery_name_def derive_password_def plain_escrow_def)
qed

end
