(* ===== verification/Routes.thy ===== *)
theory Routes
  imports Scan
begin

text \<open>
  \<open>routes/route.ts\<close>: where the application is, as the fragment of its address and back.
\<close>

datatype settings_section =
    ProfileSection | DevicesSection | PairingSection | LockSection | BackupSection | RecoverySection
  | ReceiptsSection | NotificationsSection | BlockedSection | AppearanceSection

definition section_names :: "(jsstr \<times> settings_section) list" where
  "section_names =
     [(js ''profile'', ProfileSection), (js ''devices'', DevicesSection), (js ''pairing'', PairingSection),
      (js ''lock'', LockSection), (js ''backup'', BackupSection), (js ''recovery'', RecoverySection),
      (js ''receipts'', ReceiptsSection), (js ''notifications'', NotificationsSection),
      (js ''blocked'', BlockedSection), (js ''appearance'', AppearanceSection)]"

definition section_name :: "settings_section \<Rightarrow> jsstr" where
  "section_name s = fst (the (find (\<lambda>(n, t). t = s) section_names))"

datatype route = Home | NewConversation | At jsstr | Settings "settings_section option"

definition is_key :: "jsstr \<Rightarrow> bool" where
  "is_key value \<longleftrightarrow> 0 < length value \<and> length value mod 2 = 0 \<and> list_all hex_char value"

definition without_first :: "16 word \<Rightarrow> jsstr \<Rightarrow> jsstr" where
  "without_first c s = (case s of u # rest \<Rightarrow> if u = c then rest else s | [] \<Rightarrow> [])"

definition segments_of :: "jsstr \<Rightarrow> jsstr list" where
  "segments_of hash =
     (let trimmed = without_first 0x2F (without_first 0x23 hash) in if trimmed = [] then [] else split_on 0x2F trimmed)"

definition parse_route :: "jsstr \<Rightarrow> route" where
  "parse_route hash =
     (let segments = segments_of hash; n = length segments in
      if n = 0 then Home
      else if segments ! 0 = js ''new'' \<and> n = 1 then NewConversation
      else if segments ! 0 = js ''c'' \<and> 2 \<le> n \<and> is_key (segments ! 1)
      then (if n = 2 then At (segments ! 1)
            else if segments ! 2 = js ''info'' \<and> n \<le> 4 then At (segments ! 1)
            else Home)
      else if segments ! 0 = js ''settings''
      then (if n = 1 then Settings None
            else if n = 2 then Settings (map_of section_names (segments ! 1))
            else Home)
      else Home)"

definition format_route :: "route \<Rightarrow> jsstr" where
  "format_route r =
     (case r of
        Home \<Rightarrow> js ''#/''
      | NewConversation \<Rightarrow> js ''#/new''
      | At key \<Rightarrow> js ''#/c/'' @ key
      | Settings None \<Rightarrow> js ''#/settings''
      | Settings (Some s) \<Rightarrow> js ''#/settings/'' @ section_name s)"

definition same_route :: "route \<Rightarrow> route \<Rightarrow> bool" where
  "same_route a b \<longleftrightarrow> format_route a = format_route b"

subsection \<open>An address is its route\<close>

definition route_ok :: "route \<Rightarrow> bool" where
  "route_ok r \<longleftrightarrow> (case r of At key \<Rightarrow> is_key key | _ \<Rightarrow> True)"

lemma parse_route_ok: "route_ok (parse_route hash)"
  by (auto simp: parse_route_def route_ok_def Let_def)

lemma split_on_none: "c \<notin> set s \<Longrightarrow> split_on c s = [s]"
  by (induction s) auto

lemma split_on_append: "c \<notin> set p \<Longrightarrow> split_on c (p @ c # s) = p # split_on c s"
  by (induction p) auto

lemma key_no_slash: "is_key key \<Longrightarrow> 0x2F \<notin> set key"
  by (auto simp: is_key_def list_all_iff hex_char_def)

lemma section_named: "map_of section_names (section_name s) = Some s" "0x2F \<notin> set (section_name s)"
  by (cases s; simp add: section_name_def section_names_def js_def)+

lemma segments_of_format:
  "segments_of (0x23 # 0x2F # p @ 0x2F # q) = p # split_on 0x2F q"
  "segments_of (0x23 # 0x2F # p) = (if p = [] then [] else [p])" if "0x2F \<notin> set p"
  using that by (simp_all add: segments_of_def without_first_def split_on_append split_on_none)

lemma parse_format: "route_ok r \<Longrightarrow> parse_route (format_route r) = r"
proof -
  assume ok: "route_ok r"
  have js: "js ''#/c/'' @ k = 0x23 # 0x2F # js ''c'' @ 0x2F # k" "js ''#/settings/'' @ k = 0x23 # 0x2F # js ''settings'' @ 0x2F # k"
    "js ''#/settings'' = 0x23 # 0x2F # js ''settings''" "js ''#/new'' = 0x23 # 0x2F # js ''new''" "js ''#/'' = 0x23 # 0x2F # []"
    for k by (simp_all add: js_def)
  have free: "0x2F \<notin> set (js ''c'')" "0x2F \<notin> set (js ''settings'')" "0x2F \<notin> set (js ''new'')"
    "js ''settings'' \<noteq> []" "js ''new'' \<noteq> []" by (simp_all add: js_def)
  show ?thesis
  proof (cases r)
    case (At key)
    then show ?thesis using ok key_no_slash [of key]
      by (simp add: format_route_def js parse_route_def segments_of_format free split_on_none route_ok_def Let_def)
  next
    case (Settings s)
    then show ?thesis using section_named
      by (cases s) (simp_all add: format_route_def js parse_route_def segments_of_format free split_on_none Let_def)
  qed (simp_all add: format_route_def js parse_route_def segments_of_format free Let_def)
qed

interpretation route: codec format_route "\<lambda>h. Inr (parse_route h) :: unit + route" route_ok
  by unfold_locales (simp add: parse_format)

text \<open>Writing a route and reading it gives it back, so two routes are the same place exactly when they are
  equal; and whatever is typed, the place it is read as has one address, which is read as that place.\<close>

theorem route_address:
  "(\<forall>r\<in>Collect route_ok. parse_route (format_route r) = r) \<and>
   (\<forall>a\<in>Collect route_ok. \<forall>b\<in>Collect route_ok. same_route a b \<longleftrightarrow> a = b) \<and>
   parse_route (format_route (parse_route hash)) = parse_route hash"
  using parse_format parse_route_ok route.enc_inject by (auto simp: same_route_def)

theorem route_address_witness:
  "parse_route (format_route (At (js ''00ff''))) = At (js ''00ff'') \<and>
   \<not> same_route (At (js ''00ff'')) (Settings (Some LockSection)) \<and>
   parse_route (js ''#/c/00ff/info/bob'') = At (js ''00ff'')"
proof -
  have ok: "At (js ''00ff'') \<in> Collect route_ok" "Settings (Some LockSection) \<in> Collect route_ok"
    by (simp_all add: route_ok_def is_key_def js_def hex_char_def)
  have "segments_of (js ''#/c/00ff/info/bob'') = [js ''c'', js ''00ff'', js ''info'', js ''bob'']"
    by (simp add: segments_of_def without_first_def js_def)
  moreover have "is_key (js ''00ff'')" using ok by (simp add: route_ok_def)
  ultimately have "parse_route (js ''#/c/00ff/info/bob'') = At (js ''00ff'')"
    by (simp add: parse_route_def Let_def)
  with route_address [of "[]"] ok show ?thesis by blast
qed

end
