(* ===== verification/Phrases.thy ===== *)
theory Phrases
  imports Scan
begin

text \<open>
  \<open>i18n.ts\<close>: the sentences the interface says in the reader's language. A sentence is kept whole, with named holes;
  \<open>say\<close> finds the holes with one pass of a regular expression, so that a value is never read for holes of its own.
\<close>

datatype phrase =
    MembershipJoined | MembershipRemoved | MembershipLeft
  | PreviewJoined | PreviewRemoved | PreviewLeft
  | CallEnded | CallMissed | CallRinging | CallPreviewEnded | CallPreviewMissed
  | ExpirySet | ExpiryOff | ExpiryPreviewSet | ExpiryPreviewOff

definition all_phrases :: "phrase list" where
  "all_phrases = [MembershipJoined, MembershipRemoved, MembershipLeft, PreviewJoined, PreviewRemoved, PreviewLeft,
     CallEnded, CallMissed, CallRinging, CallPreviewEnded, CallPreviewMissed, ExpirySet, ExpiryOff, ExpiryPreviewSet,
     ExpiryPreviewOff]"

fun english :: "phrase \<Rightarrow> jsstr" where
  "english MembershipJoined = js ''{actor} added {subject}''"
| "english MembershipRemoved = js ''{actor} removed {subject}''"
| "english MembershipLeft = js ''{subject} left''"
| "english PreviewJoined = js ''{subject} joined''"
| "english PreviewRemoved = js ''{subject} was removed''"
| "english PreviewLeft = js ''{subject} left''"
| "english CallEnded = js ''Call '' @ [0xB7] @ js '' {duration}''"
| "english CallMissed = js ''Missed call''"
| "english CallRinging = js ''{actor} called''"
| "english CallPreviewEnded = js ''Call '' @ [0xB7] @ js '' {duration}''"
| "english CallPreviewMissed = js ''Missed call''"
| "english ExpirySet = js ''{actor} set messages to disappear after {delay}''"
| "english ExpiryOff = js ''{actor} turned off disappearing messages''"
| "english ExpiryPreviewSet = js ''Messages disappear after {delay}''"
| "english ExpiryPreviewOff = js ''Disappearing messages turned off''"

fun french :: "phrase \<Rightarrow> jsstr option" where
  "french MembershipJoined = Some (js ''{actor} a ajout'' @ [0xE9] @ js '' {subject}'')"
| "french MembershipRemoved = Some (js ''{actor} a retir'' @ [0xE9] @ js '' {subject}'')"
| "french MembershipLeft = Some (js ''{subject} a quitt'' @ [0xE9] @ js '' la conversation'')"
| "french PreviewJoined = Some (js ''{subject} a rejoint'')"
| "french PreviewRemoved = Some (js ''{subject} a '' @ [0xE9] @ js ''t'' @ [0xE9] @ js '' retir'' @ [0xE9])"
| "french PreviewLeft = Some (js ''{subject} est parti'')"
| "french CallEnded = Some (js ''Appel '' @ [0xB7] @ js '' {duration}'')"
| "french CallMissed = Some (js ''Appel manqu'' @ [0xE9])"
| "french CallRinging = Some (js ''{actor} a appel'' @ [0xE9])"
| "french CallPreviewEnded = Some (js ''Appel '' @ [0xB7] @ js '' {duration}'')"
| "french CallPreviewMissed = Some (js ''Appel manqu'' @ [0xE9])"
| "french ExpirySet = Some (js ''{actor} fait dispara'' @ [0xEE] @ js ''tre les messages apr'' @ [0xE8] @ js ''s {delay}'')"
| "french ExpiryOff = Some (js ''{actor} a d'' @ [0xE9] @ js ''sactiv'' @ [0xE9] @ js '' les messages '' @ [0xE9] @
     js ''ph'' @ [0xE9] @ js ''m'' @ [0xE8] @ js ''res'')"
| "french ExpiryPreviewSet = Some (js ''Les messages disparaissent apr'' @ [0xE8] @ js ''s {delay}'')"
| "french ExpiryPreviewOff = Some (js ''Messages '' @ [0xE9] @ js ''ph'' @ [0xE9] @ js ''m'' @ [0xE8] @ js ''res d'' @ [0xE9] @
     js ''sactiv'' @ [0xE9] @ js ''s'')"

text \<open>\<open>primary in CATALOGUES\<close> also holds of what every object inherits; such a catalogue has no phrase.\<close>

definition inherited_names :: "jsstr list" where
  "inherited_names = map js [''constructor'', ''hasOwnProperty'', ''isPrototypeOf'', ''propertyIsEnumerable'',
     ''toLocaleString'', ''toString'', ''valueOf'', ''__defineGetter__'', ''__defineSetter__'', ''__lookupGetter__'',
     ''__lookupSetter__'', ''__proto__'']"

definition catalogue :: "jsstr \<Rightarrow> phrase \<Rightarrow> jsstr option" where
  "catalogue language p =
     (if language = js ''en'' then Some (english p) else if language = js ''fr'' then french p else None)"

text \<open>\<open>pick\<close>; \<open>lower\<close> is \<open>toLowerCase\<close>.\<close>

fun pick_language :: "(jsstr \<Rightarrow> jsstr) \<Rightarrow> jsstr list \<Rightarrow> jsstr" where
  "pick_language lower [] = js ''en''"
| "pick_language lower (tag # tags) =
     (let primary = takeWhile (\<lambda>u. u \<noteq> 0x2D) (lower tag) in
      if primary \<in> set ([js ''en'', js ''fr''] @ inherited_names) then primary else pick_language lower tags)"

text \<open>The matches of \<open>{(\w+)}\<close> and what stands between them.\<close>

datatype piece = Words jsstr | Hole jsstr

definition hole_at :: "16 word \<Rightarrow> jsstr \<Rightarrow> jsstr option" where
  "hole_at u s =
     (if u \<noteq> 0x7B then None
      else (let name = takeWhile word_char s in
        case dropWhile word_char s of
          [] \<Rightarrow> None
        | v # _ \<Rightarrow> if name \<noteq> [] \<and> v = 0x7D then Some name else None))"

fun pieces_of :: "jsstr \<Rightarrow> piece list" where
  "pieces_of [] = []"
| "pieces_of (u # s) =
     (case hole_at u s of
        Some name \<Rightarrow> Hole name # pieces_of (drop (Suc (length name)) s)
      | None \<Rightarrow> Words [u] # pieces_of s)"

fun render_piece :: "(jsstr \<rightharpoonup> jsstr) \<Rightarrow> piece \<Rightarrow> jsstr" where
  "render_piece values (Words t) = t"
| "render_piece values (Hole name) = (case values name of Some v \<Rightarrow> v | None \<Rightarrow> 0x7B # name @ [0x7D])"

definition filled :: "(jsstr \<rightharpoonup> jsstr) \<Rightarrow> jsstr \<Rightarrow> jsstr" where
  "filled values template = concat (map (render_piece values) (pieces_of template))"

definition say_phrase :: "(jsstr \<Rightarrow> jsstr) \<Rightarrow> phrase \<Rightarrow> (jsstr \<rightharpoonup> jsstr) \<Rightarrow> jsstr list \<Rightarrow> jsstr" where
  "say_phrase lower p values preferred =
     filled values (case catalogue (pick_language lower preferred) p of Some t \<Rightarrow> t | None \<Rightarrow> english p)"

subsection \<open>Holes\<close>

text \<open>With no value for its holes a template is said as it stands.\<close>

lemma hole_at_Some: "hole_at u s = Some name \<Longrightarrow> u = 0x7B \<and> s = name @ 0x7D # drop (Suc (length name)) s"
proof -
  assume found: "hole_at u s = Some name"
  then obtain rest where "u = 0x7B" "name = takeWhile word_char s" "dropWhile word_char s = 0x7D # rest"
    by (auto simp: hole_at_def Let_def split: if_splits list.splits)
  then have "s = name @ 0x7D # rest" by (metis takeWhile_dropWhile_id)
  with \<open>u = 0x7B\<close> show ?thesis by simp
qed

lemma pieces_whole: "concat (map (render_piece (\<lambda>_. None)) (pieces_of t)) = t"
proof (induction t rule: pieces_of.induct)
  case (2 u s)
  then show ?case using hole_at_Some [of u s] by (auto split: option.splits)
qed simp

definition holes_of :: "jsstr \<Rightarrow> jsstr list" where
  "holes_of t = concat (map (\<lambda>q. case q of Hole name \<Rightarrow> [name] | Words _ \<Rightarrow> []) (pieces_of t))"

text \<open>The French sentences have the holes of the English ones, in whatever order.\<close>

lemmas reading = holes_of_def hole_at_def word_char_def lower_letter_def upper_letter_def digit_def js_def

lemma english_holes:
  "set (holes_of (english p)) =
     (case p of
        MembershipJoined \<Rightarrow> {js ''actor'', js ''subject''} | MembershipRemoved \<Rightarrow> {js ''actor'', js ''subject''}
      | MembershipLeft \<Rightarrow> {js ''subject''} | PreviewJoined \<Rightarrow> {js ''subject''} | PreviewRemoved \<Rightarrow> {js ''subject''}
      | PreviewLeft \<Rightarrow> {js ''subject''} | CallEnded \<Rightarrow> {js ''duration''} | CallMissed \<Rightarrow> {} | CallRinging \<Rightarrow> {js ''actor''}
      | CallPreviewEnded \<Rightarrow> {js ''duration''} | CallPreviewMissed \<Rightarrow> {} | ExpirySet \<Rightarrow> {js ''actor'', js ''delay''}
      | ExpiryOff \<Rightarrow> {js ''actor''} | ExpiryPreviewSet \<Rightarrow> {js ''delay''} | ExpiryPreviewOff \<Rightarrow> {})"
  by (cases p) (simp_all add: reading)

lemma french_holes: "french p = Some t \<Longrightarrow> set (holes_of t) = set (holes_of (english p))"
  unfolding english_holes by (cases p) (auto simp: reading)

lemma catalogue_holes: "catalogue language p = Some t \<Longrightarrow> set (holes_of t) = set (holes_of (english p))"
  using french_holes by (auto simp: catalogue_def split: if_splits)

lemma hole_filled:
  "name \<in> set (holes_of t) \<Longrightarrow> values name = Some v \<Longrightarrow> \<exists>before behind. filled values t = before @ v @ behind"
proof -
  assume "name \<in> set (holes_of t)" and v: "values name = Some v"
  then have "Hole name \<in> set (pieces_of t)" by (auto simp: holes_of_def split: piece.splits)
  then obtain xs ys where "pieces_of t = xs @ Hole name # ys" by (meson split_list)
  with v show ?thesis by (auto simp: filled_def)
qed

text \<open>Whatever the languages a reader prefers, a sentence says every value it is given for one of its holes, whole
  and as it is, even where the value looks like a hole itself (\<open>i18n.ts\<close>, \<open>say\<close>).\<close>

theorem sentence_keeps_values:
  assumes "name \<in> set (holes_of (english p))" and "values name = Some v"
  shows "\<exists>before behind. say_phrase lower p values preferred = before @ v @ behind"
  unfolding say_phrase_def
  by (rule hole_filled [where name = name])
    (use assms catalogue_holes in \<open>auto split: option.splits\<close>)

lemma sentence_keeps_values_witness:
  "\<exists>before behind. say_phrase (\<lambda>t. t) MembershipJoined
     [js ''actor'' \<mapsto> js ''{subject}'', js ''subject'' \<mapsto> js ''@bob''] [js ''fr-CA''] = before @ js ''{subject}'' @ behind"
  by (rule sentence_keeps_values [of "js ''actor''"]) (simp_all add: english_holes del: english.simps)

text \<open>A language is matched on its first subtag, in the order of the reader's list.\<close>

lemma language_in_order:
  "takeWhile (\<lambda>u. u \<noteq> 0x2D) (lower tag) = js ''fr'' \<Longrightarrow>
   list_all (\<lambda>t. takeWhile (\<lambda>u. u \<noteq> 0x2D) (lower t) \<notin> set ([js ''en'', js ''fr''] @ inherited_names)) tags \<Longrightarrow>
   pick_language lower (tags @ tag # others) = js ''fr''"
  by (induction tags) (simp_all add: Let_def)

text \<open>A tag named like an inherited property ends the search: what follows it is not read, and English is said.\<close>

lemma inherited_name_picked:
  "say_phrase (\<lambda>t. t) p values [js ''constructor'', js ''fr''] = filled values (english p)"
  by (simp add: say_phrase_def catalogue_def inherited_names_def js_def)

end
