(* ===== verification/Screen.thy ===== *)
theory Screen
  imports Membership Mentions Notices Phrases Vault
begin

text \<open>
  What the screen makes of a conversation: the archived past pulled into the thread when it opens
  (\<open>Session.hydrate\<close>, \<open>restoreHistory\<close>), the thread as \<open>Messages.tsx\<close> draws it, the line the list shows of it
  (\<open>Rail.tsx\<close>), and what a screen reader hears (\<open>Conversation.tsx\<close>).
\<close>

subsection \<open>The past, pulled back\<close>

text \<open>
  A pull in flight was given the array of the messages held. What is pushed onto that array meanwhile is seen by the
  merge; once a sweep has replaced the array, the pull keeps the old one.
\<close>

datatype pull = NoPull | Sharing | Detached "message list"

record 'g thread =
  th_view :: "'g view"
  th_lifetime :: int
  th_hydrated :: bool
  th_pull :: pull
  th_asked :: nat

datatype thread_event =
    ThreadOpened bool                              \<comment> \<open>whether the archive is on\<close>
  | PullAnswered "restore_error + message list"    \<comment> \<open>what \<open>vault.restore\<close> read, before the merge\<close>
  | PageHeard "message list" nat
  | ThreadSwept int
  | LifetimeChanged int

definition fresh_thread :: "'g view \<Rightarrow> int \<Rightarrow> 'g thread" where
  "fresh_thread v lifetime = \<lparr>th_view = v, th_lifetime = lifetime, th_hydrated = False, th_pull = NoPull, th_asked = 0\<rparr>"

text \<open>\<open>hydrate\<close>, up to its await: with a lifetime \<open>archive.restore\<close> gives nothing back and asks nothing.\<close>

definition hydrate :: "bool \<Rightarrow> 'g thread \<Rightarrow> 'g thread" where
  "hydrate archiving t =
     (if th_hydrated t \<or> \<not> archiving then t
      else if th_lifetime t > 0 then t\<lparr>th_hydrated := True, th_view := touch (th_view t)\<rparr>
      else t\<lparr>th_hydrated := True, th_pull := Sharing, th_asked := Suc (th_asked t)\<rparr>)"

definition held_by :: "'g thread \<Rightarrow> message list" where
  "held_by t = (case th_pull t of Detached ms \<Rightarrow> ms | _ \<Rightarrow> vw_messages (th_view t))"

text \<open>The rest of \<open>restoreHistory\<close>.\<close>

definition restored_into :: "restore_error + message list \<Rightarrow> 'g thread \<Rightarrow> 'g thread" where
  "restored_into answer t =
     (if th_pull t = NoPull then t
      else case answer of
        Inl e \<Rightarrow> t\<lparr>th_pull := NoPull\<rparr>
      | Inr archives \<Rightarrow> t\<lparr>th_pull := NoPull,
          th_view := touch ((th_view t)\<lparr>vw_messages := vw_messages (th_view t) @ vault_merge (held_by t) archives\<rparr>)\<rparr>)"

text \<open>\<open>dropExpired\<close> for one conversation.\<close>

definition sweep_thread :: "int \<Rightarrow> 'g thread \<Rightarrow> 'g thread" where
  "sweep_thread now t =
     (let kept = prune (vw_messages (th_view t)) now in
      if length kept = length (vw_messages (th_view t)) then t
      else t\<lparr>th_view := touch ((th_view t)\<lparr>vw_messages := kept\<rparr>),
             th_pull := (if th_pull t = Sharing then Detached (vw_messages (th_view t)) else th_pull t)\<rparr>)"

fun thread_step :: "thread_event \<Rightarrow> 'g thread \<Rightarrow> 'g thread" where
  "thread_step (ThreadOpened archiving) t = hydrate archiving t"
| "thread_step (PullAnswered answer) t = restored_into answer t"
| "thread_step (PageHeard ms n) t =
     t\<lparr>th_view := (th_view t)\<lparr>vw_messages := vw_messages (th_view t) @ ms, vw_cursor := max (vw_cursor (th_view t)) n\<rparr>\<rparr>"
| "thread_step (ThreadSwept now) t = sweep_thread now t"
| "thread_step (LifetimeChanged seconds) t = t\<lparr>th_lifetime := seconds\<rparr>"

definition thread_run :: "thread_event list \<Rightarrow> 'g thread \<Rightarrow> 'g thread" where
  "thread_run es t = fold thread_step es t"

subsection \<open>The thread as it is drawn\<close>

definition members_of :: "'g view \<Rightarrow> account \<Rightarrow> account list" where
  "members_of v self = uniq (map ra_handle (vw_accounts v) @ map pr_name (vw_peers v) @ [self])"

definition author_in :: "account \<Rightarrow> message \<Rightarrow> account option" where
  "author_in self m = (if ms_mine m then Some self else ms_sender m)"

type_synonym reaction_book = "(nat \<times> (account \<times> jsstr) list) list"

definition fold_reaction :: "account \<Rightarrow> message \<Rightarrow> reaction_book \<Rightarrow> reaction_book" where
  "fold_reaction self m book =
     (case ms_content m of
        Reaction target emoji \<Rightarrow>
          (let author = (case author_in self m of Some a \<Rightarrow> a | None \<Rightarrow> js ''unknown'');
               on = (case map_of book target of Some r \<Rightarrow> r | None \<Rightarrow> []) in
           AList.update target (if emoji \<noteq> [] then AList.update author emoji on else AList.delete author on) book)
      | _ \<Rightarrow> book)"

definition is_reaction :: "message \<Rightarrow> bool" where
  "is_reaction m \<longleftrightarrow> (case ms_content m of Reaction _ _ \<Rightarrow> True | _ \<Rightarrow> False)"

definition in_thread_order :: "account list \<Rightarrow> message list \<Rightarrow> message list" where
  "in_thread_order blocked ms = sort_key ms_seq (unblocked ms blocked)"

definition reactions_in :: "account \<Rightarrow> account list \<Rightarrow> message list \<Rightarrow> reaction_book" where
  "reactions_in self blocked ms = fold (fold_reaction self) (in_thread_order blocked ms) []"

definition visible_in :: "account list \<Rightarrow> message list \<Rightarrow> message list" where
  "visible_in blocked ms = filter (\<lambda>m. \<not> is_reaction m) (in_thread_order blocked ms)"

text \<open>The one message of ours whose receipt is drawn.\<close>

definition spoken_by_us :: "message \<Rightarrow> bool" where
  "spoken_by_us m \<longleftrightarrow> ms_mine m \<and> (case ms_content m of Membership _ _ \<Rightarrow> False | Expiry _ \<Rightarrow> False | _ \<Rightarrow> True)"

definition last_mine :: "message list \<Rightarrow> nat option" where
  "last_mine ms = fold (\<lambda>m found. if spoken_by_us m then Some (ms_seq m) else found) ms None"

record drawn_thread =
  dw_rows :: "row list"
  dw_reactions :: reaction_book
  dw_last_mine :: "nat option"

definition drawn_thread_of :: "(int \<Rightarrow> 'd) \<Rightarrow> account \<Rightarrow> account list \<Rightarrow> nat \<Rightarrow> message list \<Rightarrow> drawn_thread" where
  "drawn_thread_of day self blocked boundary ms =
     \<lparr>dw_rows = layout day (author_in self) boundary (visible_in blocked ms),
      dw_reactions = reactions_in self blocked ms,
      dw_last_mine = last_mine (visible_in blocked ms)\<rparr>"

text \<open>The lines the thread says about itself.\<close>

definition name_of_author :: "(jsstr \<Rightarrow> jsstr) \<Rightarrow> name_sources \<Rightarrow> account list \<Rightarrow> account option \<Rightarrow> jsstr" where
  "name_of_author lower names among a =
     (case a of None \<Rightarrow> js ''unknown'' | Some h \<Rightarrow> compact_name_of lower h names among)"

definition own_line ::
    "(jsstr \<Rightarrow> jsstr) \<Rightarrow> jsstr list \<Rightarrow> name_sources \<Rightarrow> account list \<Rightarrow> account \<Rightarrow> message \<Rightarrow> jsstr option" where
  "own_line lower preferred names among self m =
     (let actor = name_of_author lower names among (author_in self m) in
      case ms_content m of
        CallMessage event call seconds \<Rightarrow>
          Some (if event = call_event.CallEnded then say_phrase lower phrase.CallEnded [js ''duration'' \<mapsto> spoken_duration seconds] preferred
            else if event = call_event.CallMissed then say_phrase lower phrase.CallMissed (\<lambda>_. None) preferred
            else say_phrase lower CallRinging [js ''actor'' \<mapsto> actor] preferred)
      | Expiry seconds \<Rightarrow>
          Some (if seconds = 0 then say_phrase lower ExpiryOff [js ''actor'' \<mapsto> actor] preferred
            else say_phrase lower ExpirySet [js ''actor'' \<mapsto> actor, js ''delay'' \<mapsto> spoken_lifetime seconds] preferred)
      | Membership event handle \<Rightarrow>
          Some (say_phrase lower (case event of Joined \<Rightarrow> MembershipJoined | Removed \<Rightarrow> MembershipRemoved | membership_event.Left \<Rightarrow> MembershipLeft)
            [js ''actor'' \<mapsto> actor, js ''subject'' \<mapsto> compact_name_of lower handle names among] preferred)
      | _ \<Rightarrow> None)"

subsection \<open>The line of the list, and what is read aloud\<close>

definition spelt :: "web \<Rightarrow> (jsstr \<Rightarrow> jsstr) \<Rightarrow> name_sources \<Rightarrow> account list \<Rightarrow> jsstr \<Rightarrow> jsstr" where
  "spelt w lower names among text =
     concat (map (\<lambda>r. case r of
         Said t \<Rightarrow> t
       | Named h \<Rightarrow> (let name = compact_name_of lower h names among in
           if starts_with [0x40] name then name else 0x40 # name)) (runs (plain w True text) (\<lambda>h. h \<in> set among)))"

definition news_line ::
    "web \<Rightarrow> (jsstr \<Rightarrow> jsstr) \<Rightarrow> jsstr list \<Rightarrow> name_sources \<Rightarrow> account list \<Rightarrow> message \<Rightarrow> (jsstr \<times> bool) option" where
  "news_line w lower preferred names among m =
     (case ms_content m of
        Text t \<Rightarrow> Some (spelt w lower names among t, ms_mine m)
      | Reply _ t \<Rightarrow> Some (spelt w lower names among t, ms_mine m)
      | Attachment r \<Rightarrow> Some (ref_name r, ms_mine m)
      | Expiry seconds \<Rightarrow>
          Some (if seconds = 0 then say_phrase lower ExpiryPreviewOff (\<lambda>_. None) preferred
            else say_phrase lower ExpiryPreviewSet [js ''delay'' \<mapsto> spoken_lifetime seconds] preferred, False)
      | Membership event handle \<Rightarrow>
          Some (say_phrase lower (case event of Joined \<Rightarrow> PreviewJoined | Removed \<Rightarrow> PreviewRemoved
              | membership_event.Left \<Rightarrow> PreviewLeft) [js ''subject'' \<mapsto> handle_of handle names] preferred, False)
      | _ \<Rightarrow> None)"

definition preview_of ::
    "web \<Rightarrow> (jsstr \<Rightarrow> jsstr) \<Rightarrow> jsstr list \<Rightarrow> name_sources \<Rightarrow> account \<Rightarrow> 'g view \<Rightarrow> jsstr \<times> bool" where
  "preview_of w lower preferred names self v =
     (let among = members_of v self in
      if vw_outbox v \<noteq> [] then (spelt w lower names among (pn_text (last (vw_outbox v))), True)
      else case List.map_filter (news_line w lower preferred names among) (rev (vw_messages v)) of
        [] \<Rightarrow> ([], False)
      | line # _ \<Rightarrow> line)"

definition spoken_arrival :: "web \<Rightarrow> (jsstr \<Rightarrow> jsstr) \<Rightarrow> name_sources \<Rightarrow> account \<Rightarrow> 'g view \<Rightarrow> jsstr option" where
  "spoken_arrival w lower names self v =
     (if vw_messages v = [] \<or> ms_mine (last (vw_messages v)) then None
      else
        (let m = last (vw_messages v);
             who = (case ms_sender m of None \<Rightarrow> js ''Someone'' | Some a \<Rightarrow> compact_name_of lower a names (members_of v self)) in
         case ms_content m of
           Text t \<Rightarrow> Some (who @ js '': '' @ plain w True t)
         | Reply _ t \<Rightarrow> Some (who @ js '': '' @ plain w True t)
         | Attachment r \<Rightarrow> Some (who @ js '' sent '' @ ref_name r)
         | _ \<Rightarrow> None))"

text \<open>The rail: the conversations listed, and the archive.\<close>

definition matches_filter :: "(jsstr \<Rightarrow> jsstr) \<Rightarrow> name_sources \<Rightarrow> jsstr \<Rightarrow> 'g view \<Rightarrow> bool" where
  "matches_filter lower names term v \<longleftrightarrow> list_ex (\<lambda>a. name_matches lower (ra_handle a) names term) (vw_accounts v)"

text \<open>\<open>Array.sort\<close> with a comparator is stable.\<close>

fun insert_by :: "('a \<Rightarrow> 'a \<Rightarrow> int) \<Rightarrow> 'a \<Rightarrow> 'a list \<Rightarrow> 'a list" where
  "insert_by cmp x [] = [x]"
| "insert_by cmp x (y # ys) = (if cmp x y \<le> 0 then x # y # ys else y # insert_by cmp x ys)"

definition sorted_by :: "('a \<Rightarrow> 'a \<Rightarrow> int) \<Rightarrow> 'a list \<Rightarrow> 'a list" where
  "sorted_by cmp xs = foldr (insert_by cmp) xs []"

definition activity_of :: "'g view \<Rightarrow> int" where
  "activity_of v = last_activity_in (listed_view v)"

definition is_pinned :: "preferences \<Rightarrow> jsstr \<times> 'g view \<Rightarrow> bool" where
  "is_pinned pref e \<longleftrightarrow> fl_pinned (flags_of pref (fst e)) = Some True"

definition is_archived :: "preferences \<Rightarrow> jsstr \<times> 'g view \<Rightarrow> bool" where
  "is_archived pref e \<longleftrightarrow> fl_archived (flags_of pref (fst e)) = Some True"

definition rail_order :: "preferences \<Rightarrow> jsstr \<times> 'g view \<Rightarrow> jsstr \<times> 'g view \<Rightarrow> int" where
  "rail_order pref a b = by_pinned_then_recent (is_pinned pref a, activity_of (snd a)) (is_pinned pref b, activity_of (snd b))"

definition rail_listed ::
    "(jsstr \<Rightarrow> jsstr) \<Rightarrow> name_sources \<Rightarrow> preferences \<Rightarrow> jsstr \<Rightarrow> (jsstr \<times> 'g view) list \<Rightarrow> (jsstr \<times> 'g view) list" where
  "rail_listed lower names pref term views =
     sorted_by (rail_order pref) (filter (\<lambda>e. matches_filter lower names term (snd e) \<and> \<not> is_archived pref e) views)"

definition rail_shelved ::
    "(jsstr \<Rightarrow> jsstr) \<Rightarrow> name_sources \<Rightarrow> preferences \<Rightarrow> jsstr \<Rightarrow> (jsstr \<times> 'g view) list \<Rightarrow> (jsstr \<times> 'g view) list" where
  "rail_shelved lower names pref term views =
     sorted_by (\<lambda>a b. activity_of (snd b) - activity_of (snd a))
       (filter (\<lambda>e. matches_filter lower names term (snd e) \<and> is_archived pref e) views)"

subsection \<open>The thread does not depend on how it came\<close>

lemma seq_order_unique:
  assumes "set xs = set ys" and "distinct (map ms_seq xs)" and "distinct (map ms_seq ys)"
  shows "sort_key ms_seq xs = sort_key ms_seq ys"
proof (rule map_sorted_distinct_set_unique [where f = ms_seq])
  have once: "distinct (map ms_seq (sort_key ms_seq zs))" if "distinct (map ms_seq zs)" for zs
    using that by (simp add: distinct_map)
  show "distinct (map ms_seq (sort_key ms_seq xs))" "distinct (map ms_seq (sort_key ms_seq ys))"
    using once assms(2,3) by blast+
  show "inj_on ms_seq (set (sort_key ms_seq xs) \<union> set (sort_key ms_seq ys))"
    using assms by (simp add: distinct_map)
qed (use assms(1) in simp_all)

lemma set_unblocked:
  "set (unblocked ms blocked) = {m \<in> set ms. ms_mine m \<or> (case ms_sender m of None \<Rightarrow> True | Some a \<Rightarrow> a \<notin> set blocked)}"
  by (auto simp: unblocked_def split: option.splits)

lemma distinct_unblocked: "distinct (map ms_seq ms) \<Longrightarrow> distinct (map ms_seq (unblocked ms blocked))"
  by (simp add: unblocked_def distinct_map_filter)

text \<open>A thread is drawn from what it holds and not from how it came: messages held in another order, as archived ones
  pulled back behind newer ones are, give the same rows, the same reactions and the same receipt
  (\<open>Messages.tsx\<close>).\<close>

theorem thread_any_order:
  assumes "set ms = set ms'" and "distinct (map ms_seq ms)" and "distinct (map ms_seq ms')"
  shows "drawn_thread_of day self blocked boundary ms = drawn_thread_of day self blocked boundary ms'"
proof -
  have "in_thread_order blocked ms = in_thread_order blocked ms'"
    unfolding in_thread_order_def using assms by (intro seq_order_unique distinct_unblocked) (simp_all add: set_unblocked)
  then show ?thesis by (simp add: drawn_thread_of_def visible_in_def reactions_in_def)
qed

text \<open>Two messages held in the other order.\<close>

definition older :: message where "older = received 1 (js ''bob'') ''hi''"
definition newer_one :: message where "newer_one = received 2 (js ''bob'') ''yo''"

lemma thread_any_order_witness:
  "drawn_thread_of (\<lambda>t. t) (js ''amy'') [] 0 [newer_one, older] = drawn_thread_of (\<lambda>t. t) (js ''amy'') [] 0 [older, newer_one]"
  by (rule thread_any_order) (auto simp: older_def newer_one_def received_def)

text \<open>The line of the list is read from the end of the array, not from the last sequence: an archived message pulled back
  behind a newer one becomes the news of the conversation.\<close>

lemma news_line_said: "ms_content m = Text t \<Longrightarrow> news_line w lower preferred names among m = Some (spelt w lower names among t, ms_mine m)"
  by (simp add: news_line_def)

lemma old_archive_previewed:
  "vw_outbox v = [] \<Longrightarrow> vw_messages v = [newer_one, older] \<Longrightarrow>
   preview_of w lower preferred names self v = (spelt w lower names (members_of v self) (js ''hi''), False)"
  by (simp add: preview_of_def Let_def map_filter_simps news_line_def newer_one_def older_def received_def)

text \<open>Neither the line of the list nor what is read aloud knows who is blocked.\<close>

lemma blocked_previewed:
  "vw_outbox v = [] \<Longrightarrow> vw_messages v = [older] \<Longrightarrow> unblocked (vw_messages v) [js ''bob''] = [] \<and>
   preview_of w lower preferred names self v = (spelt w lower names (members_of v self) (js ''hi''), False) \<and>
   spoken_arrival w lower names self v =
     Some (compact_name_of lower (js ''bob'') names (members_of v self) @ js '': '' @ plain w True (js ''hi''))"
  by (simp add: preview_of_def Let_def map_filter_simps news_line_def older_def received_def spoken_arrival_def unblocked_def)

subsection \<open>Reactions\<close>

text \<open>An author's reaction to a message is the last one they sent for it; an empty one takes it back.\<close>

definition reacts :: "account \<Rightarrow> account \<Rightarrow> nat \<Rightarrow> message \<Rightarrow> jsstr option" where
  "reacts self author target m =
     (case ms_content m of
        Reaction t emoji \<Rightarrow>
          if t = target \<and> (case author_in self m of Some a \<Rightarrow> a | None \<Rightarrow> js ''unknown'') = author then Some emoji else None
      | _ \<Rightarrow> None)"

definition reaction_on :: "reaction_book \<Rightarrow> account \<Rightarrow> nat \<Rightarrow> jsstr option" where
  "reaction_on book author target = Option.bind (map_of book target) (\<lambda>on. map_of on author)"

lemma fold_reaction_on:
  "reaction_on (fold_reaction self m book) author target =
     (case reacts self author target m of None \<Rightarrow> reaction_on book author target
      | Some emoji \<Rightarrow> if emoji = [] then None else Some emoji)"
  by (auto simp: fold_reaction_def reacts_def reaction_on_def Let_def update_conv' delete_conv' split: content.splits option.splits)

text \<open>The reaction drawn on a message for an author is the last one that author sent for it, in the order of the
  conversation, and none when that one was empty (\<open>Messages.tsx\<close>).\<close>

theorem reaction_is_the_last:
  "reaction_on (reactions_in self blocked ms) author target =
     (case List.map_filter (reacts self author target) (rev (in_thread_order blocked ms)) of
        [] \<Rightarrow> None
      | emoji # _ \<Rightarrow> if emoji = [] then None else Some emoji)"
proof -
  have "reaction_on (fold (fold_reaction self) xs []) author target =
     (case List.map_filter (reacts self author target) (rev xs) of [] \<Rightarrow> None
      | emoji # _ \<Rightarrow> if emoji = [] then None else Some emoji)" for xs
  proof (induction xs rule: rev_induct)
    case Nil
    then show ?case by (simp add: reaction_on_def map_filter_simps)
  next
    case (snoc m xs)
    then show ?case by (simp add: fold_reaction_on map_filter_simps split: option.splits)
  qed
  then show ?thesis by (simp add: reactions_in_def)
qed

text \<open>C20. A blocked account leaves no trace in the thread: no row is theirs and no reaction is, whatever they sent
  (\<open>Messages.tsx\<close>, \<open>thread.ts\<close>).\<close>

theorem blocked_leave_no_trace:
  assumes "account \<in> set blocked" and "account \<noteq> self" and "account \<noteq> js ''unknown''"
  shows "list_all (\<lambda>r. author_in self (row_message r) \<noteq> Some account) (dw_rows (drawn_thread_of day self blocked boundary ms)) \<and>
    reaction_on (dw_reactions (drawn_thread_of day self blocked boundary ms)) account target = None"
proof -
  have hidden: "author_in self m \<noteq> Some account" if "m \<in> set (in_thread_order blocked ms)" for m
    using that assms(1,2) by (auto simp: in_thread_order_def set_unblocked author_in_def split: option.splits)
  have "map row_message (layout day (author_in self) boundary (visible_in blocked ms)) = visible_in blocked ms"
    by (simp add: layout_def layout_messages)
  then have "row_message ` set (layout day (author_in self) boundary (visible_in blocked ms)) = set (visible_in blocked ms)"
    by (metis list.set_map)
  then have "\<forall>r\<in>set (layout day (author_in self) boundary (visible_in blocked ms)). row_message r \<in> set (visible_in blocked ms)"
    by blast
  then have "\<forall>r\<in>set (layout day (author_in self) boundary (visible_in blocked ms)). author_in self (row_message r) \<noteq> Some account"
    using hidden by (auto simp: visible_in_def)
  moreover have "List.map_filter (reacts self account target) (rev (in_thread_order blocked ms)) = []"
    using hidden assms(3) by (auto simp: List.map_filter_def filter_empty_conv reacts_def split: content.splits option.splits if_splits)
  then have "reaction_on (reactions_in self blocked ms) account target = None" unfolding reaction_is_the_last by simp
  ultimately show ?thesis by (simp add: drawn_thread_of_def list_all_iff)
qed

lemma blocked_leave_no_trace_witness:
  "reaction_on (dw_reactions (drawn_thread_of (\<lambda>t. t) (js ''amy'') [js ''bob''] 0
     [older, older\<lparr>ms_seq := 2, ms_content := Reaction 1 [0x2B50]\<rparr>])) (js ''bob'') 1 = None"
  using blocked_leave_no_trace [of "js ''bob''" "[js ''bob'']" "js ''amy''" "\<lambda>t. t" 0
    "[older, older\<lparr>ms_seq := 2, ms_content := Reaction 1 [0x2B50]\<rparr>]" 1] by simp

subsection \<open>The list shows every conversation once\<close>

lemma set_insert_by [simp]: "set (insert_by cmp x ys) = insert x (set ys)"
  by (induction ys) auto

lemma set_sorted_by [simp]: "set (sorted_by cmp xs) = set xs"
  by (induction xs) (simp_all add: sorted_by_def)

lemma distinct_insert_by: "distinct (insert_by cmp x ys) \<longleftrightarrow> distinct (x # ys)"
  by (induction ys) auto

lemma distinct_sorted_by [simp]: "distinct (sorted_by cmp xs) \<longleftrightarrow> distinct xs"
proof (induction xs)
  case (Cons x xs)
  have "sorted_by cmp (x # xs) = insert_by cmp x (sorted_by cmp xs)" by (simp add: sorted_by_def)
  with Cons show ?case by (simp add: distinct_insert_by)
qed (simp add: sorted_by_def)

lemma sorted_by_sorted:
  assumes total: "\<And>a b. cmp a b \<le> 0 \<or> cmp b a \<le> 0" and trans: "\<And>a b c. cmp a b \<le> 0 \<Longrightarrow> cmp b c \<le> 0 \<Longrightarrow> cmp a c \<le> 0"
  shows "sorted_wrt (\<lambda>a b. cmp a b \<le> 0) (sorted_by cmp xs)"
proof -
  have "sorted_wrt (\<lambda>a b. cmp a b \<le> 0) (insert_by cmp x ys)" if "sorted_wrt (\<lambda>a b. cmp a b \<le> 0) ys" for x ys
    using that
  proof (induction ys)
    case (Cons y ys)
    then show ?case using total [of x y] trans [of x y] by auto
  qed simp
  then show ?thesis unfolding sorted_by_def by (induction xs) simp_all
qed

lemma rail_order_total: "rail_order pref a b \<le> 0 \<or> rail_order pref b a \<le> 0"
  by (auto simp: rail_order_def by_pinned_then_recent_def Let_def of_bool_def)

lemma rail_order_trans: "rail_order pref a b \<le> 0 \<Longrightarrow> rail_order pref b c \<le> 0 \<Longrightarrow> rail_order pref a c \<le> 0"
  by (auto simp: rail_order_def by_pinned_then_recent_def Let_def of_bool_def split: if_splits)

lemma rail_order_means:
  "rail_order pref a b \<le> 0 \<longleftrightarrow>
     (if is_pinned pref a = is_pinned pref b then activity_of (snd b) \<le> activity_of (snd a) else is_pinned pref a)"
  by (auto simp: rail_order_def by_pinned_then_recent_def Let_def of_bool_def)

text \<open>The list shows every conversation that matches what is searched exactly once, in the list or in the archive: the
  pinned ones first, and the one where something happened last before the others (\<open>Rail.tsx\<close>).\<close>

theorem rail_shows_each_once:
  assumes "distinct views"
  shows "distinct (rail_listed lower names pref term views @ rail_shelved lower names pref term views) \<and>
    set (rail_listed lower names pref term views @ rail_shelved lower names pref term views) =
      {e \<in> set views. matches_filter lower names term (snd e)} \<and>
    sorted_wrt (\<lambda>a b. if is_pinned pref a = is_pinned pref b then activity_of (snd b) \<le> activity_of (snd a) else is_pinned pref a)
      (rail_listed lower names pref term views) \<and>
    sorted_wrt (\<lambda>a b. activity_of (snd b) \<le> activity_of (snd a)) (rail_shelved lower names pref term views)"
proof -
  have "sorted_wrt (\<lambda>a b. rail_order pref a b \<le> 0) (rail_listed lower names pref term views)"
    unfolding rail_listed_def using rail_order_total rail_order_trans by (rule sorted_by_sorted)
  moreover have "sorted_wrt (\<lambda>a b. activity_of (snd b) - activity_of (snd a) \<le> 0) (rail_shelved lower names pref term views)"
    unfolding rail_shelved_def by (rule sorted_by_sorted) auto
  ultimately show ?thesis
    using assms by (auto simp: rail_listed_def rail_shelved_def rail_order_means)
qed

lemma rail_shows_each_once_witness:
  "set (rail_listed (\<lambda>t. t) \<lparr>src_handles = Map.empty, src_petnames = Map.empty, src_profiles = Map.empty\<rparr> fresh_preferences []
     [(js ''a'', new_view (js ''a'') ())] @
    rail_shelved (\<lambda>t. t) \<lparr>src_handles = Map.empty, src_petnames = Map.empty, src_profiles = Map.empty\<rparr> fresh_preferences []
     [(js ''a'', new_view (js ''a'') ())]) = {}"
  using rail_shows_each_once [of "[(js ''a'', new_view (js ''a'') ())]" "\<lambda>t. t"
    "\<lparr>src_handles = Map.empty, src_petnames = Map.empty, src_profiles = Map.empty\<rparr>" fresh_preferences "[]"]
  by (simp add: matches_filter_def new_view_def)

subsection \<open>The past is pulled once\<close>

lemma asked_means_hydrated:
  "th_asked (thread_run es (fresh_thread v lifetime)) \<le> 1 \<and>
   (th_asked (thread_run es (fresh_thread v lifetime)) = 1 \<longrightarrow> th_hydrated (thread_run es (fresh_thread v lifetime)))"
proof (induction es rule: rev_induct)
  case (snoc e es)
  have step: "th_asked (thread_step e t) \<le> 1 \<and> (th_asked (thread_step e t) = 1 \<longrightarrow> th_hydrated (thread_step e t))"
    if "th_asked t \<le> 1 \<and> (th_asked t = 1 \<longrightarrow> th_hydrated t)" for t :: "'a thread"
    using that by (cases e) (auto simp: hydrate_def restored_into_def sweep_thread_def Let_def split: sum.splits)
  from step [OF snoc.IH] show ?case by (simp add: thread_run_def)
qed (simp add: thread_run_def fresh_thread_def)

text \<open>However often a thread is opened, and whatever happens while the server answers, its past is asked for once; what
  comes back moves none of the cursors the receipts are computed from (\<open>hydrate\<close>, \<open>restoreHistory\<close>).\<close>

theorem past_pulled_once:
  "th_asked (thread_run es (fresh_thread v lifetime)) \<le> 1 \<and>
   vw_cursor (th_view (restored_into answer t)) = vw_cursor (th_view t) \<and>
   vw_content_cursor (th_view (restored_into answer t)) = vw_content_cursor (th_view t) \<and>
   vw_read_cursor (th_view (restored_into answer t)) = vw_read_cursor (th_view t) \<and>
   vw_receipts (th_view (restored_into answer t)) = vw_receipts (th_view t)"
  using asked_means_hydrated [of es v lifetime] by (auto simp: restored_into_def split: sum.splits)

text \<open>
  What a run must respect for a thread to hold each message once: a page brings what is past the cursor, the archive
  nothing past it, and nothing expires while a pull is under way.
\<close>

fun well_timed :: "'g thread \<Rightarrow> thread_event list \<Rightarrow> bool" where
  "well_timed t [] \<longleftrightarrow> True"
| "well_timed t (e # es) \<longleftrightarrow>
     (case e of
        PageHeard ms n \<Rightarrow> distinct (map ms_seq ms) \<and> list_all (\<lambda>m. vw_cursor (th_view t) < ms_seq m \<and> ms_seq m \<le> n) ms
      | PullAnswered (Inr archives) \<Rightarrow>
          distinct (map ms_seq archives) \<and> list_all (\<lambda>m. ms_seq m \<le> vw_cursor (th_view t)) archives
      | ThreadSwept now \<Rightarrow> th_pull t \<noteq> Sharing \<or> prune (vw_messages (th_view t)) now = vw_messages (th_view t)
      | _ \<Rightarrow> True) \<and> well_timed (thread_step e t) es"

definition held_once :: "'g thread \<Rightarrow> bool" where
  "held_once t \<longleftrightarrow> distinct (map ms_seq (vw_messages (th_view t))) \<and>
     list_all (\<lambda>m. ms_seq m \<le> vw_cursor (th_view t)) (vw_messages (th_view t)) \<and> (\<forall>ms. th_pull t \<noteq> Detached ms)"

lemma held_once_step:
  assumes "held_once t" and "well_timed t [e]"
  shows "held_once (thread_step e t)"
proof (cases e)
  case (ThreadOpened archiving)
  with assms(1) show ?thesis by (auto simp: held_once_def hydrate_def)
next
  case (PullAnswered answer)
  show ?thesis
  proof (cases answer)
    case (Inr archives)
    with assms PullAnswered have "distinct (map ms_seq (vault_merge (held_by t) archives))"
        "held_by t = vw_messages (th_view t)" "list_all (\<lambda>m. ms_seq m \<le> vw_cursor (th_view t)) archives"
      by (auto simp: vault_merge_def distinct_map_filter held_by_def held_once_def split: pull.splits)
    with assms(1) PullAnswered Inr show ?thesis
      by (auto simp: held_once_def restored_into_def vault_merge_def list_all_iff intro: rev_image_eqI)
  qed (use assms(1) PullAnswered in \<open>auto simp: held_once_def restored_into_def\<close>)
next
  case (PageHeard ms n)
  with assms have "distinct (map ms_seq ms)" "list_all (\<lambda>m. vw_cursor (th_view t) < ms_seq m \<and> ms_seq m \<le> n) ms" by auto
  with assms(1) PageHeard show ?thesis by (fastforce simp: held_once_def list_all_iff)
next
  case (ThreadSwept now)
  have "length (prune (vw_messages (th_view t)) now) = length (vw_messages (th_view t)) \<Longrightarrow>
      prune (vw_messages (th_view t)) now = vw_messages (th_view t)"
    by (metis prune_def filter_True length_filter_less nat_neq_iff)
  with assms ThreadSwept show ?thesis
    by (auto simp: held_once_def sweep_thread_def Let_def prune_def distinct_map_filter list_all_iff)
next
  case (LifetimeChanged seconds)
  with assms(1) show ?thesis by (auto simp: held_once_def)
qed


abbreviation amy_thread :: "unit thread" where
  "amy_thread \<equiv> fresh_thread (new_view (js ''c1'') ()) 0"


lemmas thread_defs = thread_run_def fresh_thread_def new_view_def hydrate_def restored_into_def held_by_def vault_merge_def
  sweep_thread_def newer_one_def older_def received_def prune_def is_expired_def Let_def

text \<open>A sibling device has read and archived ahead: the thread opened before the poll catches up holds the message twice.\<close>

lemma ahead_archive_twice:
  "map ms_seq (vw_messages (th_view (thread_run [ThreadOpened True, PullAnswered (Inr [newer_one]), PageHeard [newer_one] 2] amy_thread))) =
   [2, 2]"
  by (simp add: thread_defs)

text \<open>A lifetime set while the past is being pulled does not reach it: what comes back has no deadline.\<close>

lemma pulled_past_immortal:
  "let t = thread_run [ThreadOpened True, LifetimeChanged 86400, PullAnswered (Inr [older]), ThreadSwept now] amy_thread
   in th_lifetime t > 0 \<and> map ms_expires_at (vw_messages (th_view t)) = [None]"
  by (simp add: thread_defs)

text \<open>A pull that failed is not tried again: the thread counts as hydrated.\<close>

lemma failed_pull_sticks:
  "th_pull (thread_run [ThreadOpened True, PullAnswered (Inl RestoreUnreachable), ThreadOpened True] amy_thread) = NoPull"
  by (simp add: thread_defs)

end
